(* ===== verification/Prelude.thy ===== *)
theory Prelude
  imports Main "HOL-Library.Word" "HOL-Library.Char_ord" "HOL-Library.List_Lexorder"
begin

text \<open>
  The types and generic facts every component shares: bytes, unsigned 64-bit numbers and their
  checked and saturating arithmetic, the result type of a fallible call and its early return,
  conversions between text and bytes, and the ordered map that stands for Rust's
  \<^verbatim>\<open>BTreeMap\<close>, with its interface as a locale.
\<close>

section \<open>Numbers and bytes\<close>

type_synonym u8 = "8 word"
type_synonym u64 = "64 word"
type_synonym bytes = "u8 list"

named_theorems result_simps \<open>unfolding rules for results and early returns\<close>
named_theorems source_consts \<open>the constants of the source, as rewrite rules\<close>

text \<open>\<^verbatim>\<open>u64::saturating_add\<close>, \<^verbatim>\<open>u64::saturating_sub\<close> and \<^verbatim>\<open>u64::checked_add\<close>.\<close>

definition sat_add :: "u64 \<Rightarrow> u64 \<Rightarrow> u64" where
  "sat_add a b = (if unat a + unat b < 2 ^ 64 then a + b else 18446744073709551615)"

definition sat_sub :: "u64 \<Rightarrow> u64 \<Rightarrow> u64" where
  "sat_sub a b = (if b \<le> a then a - b else 0)"

definition checked_add :: "u64 \<Rightarrow> u64 \<Rightarrow> u64 option" where
  "checked_add a b = (if unat a + unat b < 2 ^ 64 then Some (a + b) else None)"

lemma unat_u64_bound [simp]: "unat (x :: u64) < 18446744073709551616"
  using unsigned_less [of x, where 'a = nat] by simp

lemma unat_u64_le [simp]: "unat (x :: u64) \<le> 18446744073709551615"
  using unat_u64_bound [of x] by linarith

lemma unat_sat_add: "unat (sat_add a b) = min (unat a + unat b) (2 ^ 64 - 1)"
  by (auto simp: sat_add_def unat_word_ariths)

lemma unat_sat_sub: "unat (sat_sub a b) = unat a - unat b"
  by (auto simp: sat_sub_def unat_sub word_le_nat_alt)

lemma sat_add_ge: "a \<le> sat_add a b"
  by (simp add: word_le_nat_alt unat_sat_add)

lemma sat_sub_le: "sat_sub a b \<le> a"
  by (simp add: word_le_nat_alt unat_sat_sub)

lemma checked_add_Some:
  "checked_add a b = Some c \<Longrightarrow> unat c = unat a + unat b"
  by (auto simp: checked_add_def unat_word_ariths split: if_splits)

lemma checked_add_one_None: "checked_add a 1 = None \<longleftrightarrow> a = 18446744073709551615"
proof -
  have "checked_add a 1 = None \<longleftrightarrow> unat a = 18446744073709551615"
    using unat_u64_le [of a] by (auto simp: checked_add_def simp del: unat_u64_le)
  also have "\<dots> \<longleftrightarrow> a = 18446744073709551615"
    by (simp add: word_unat_eq_iff)
  finally show ?thesis .
qed

lemma checked_add_one_greater: "checked_add a 1 = Some b \<Longrightarrow> a < b"
  using checked_add_Some [of a 1 b] by (simp add: word_less_nat_alt)

section \<open>Fallible calls\<close>

text \<open>
  A fallible call is \<open>Inl\<close> of its error or \<open>Inr\<close> of its value. \<open>bindR\<close> is the source's \<^verbatim>\<open>?\<close>:
  an error returns early, a value goes on.
\<close>

definition bindR :: "'e + 'a \<Rightarrow> ('a \<Rightarrow> 'e + 'b) \<Rightarrow> 'e + 'b" where
  "bindR m f = (case m of Inl e \<Rightarrow> Inl e | Inr x \<Rightarrow> f x)"

definition map_err :: "('e \<Rightarrow> 'f) \<Rightarrow> 'e + 'a \<Rightarrow> 'f + 'a" where
  "map_err g m = (case m of Inl e \<Rightarrow> Inl (g e) | Inr x \<Rightarrow> Inr x)"

definition ok_or :: "'e \<Rightarrow> 'a option \<Rightarrow> 'e + 'a" where
  "ok_or e m = (case m of None \<Rightarrow> Inl e | Some x \<Rightarrow> Inr x)"

definition ok_opt :: "'e + 'a \<Rightarrow> 'a option" where
  "ok_opt m = (case m of Inl _ \<Rightarrow> None | Inr x \<Rightarrow> Some x)"

lemma bindR_simps [simp, result_simps]:
  "bindR (Inl e) f = Inl e" "bindR (Inr x) f = f x"
  by (simp_all add: bindR_def)

lemma map_err_simps [simp, result_simps]:
  "map_err g (Inl e) = Inl (g e)" "map_err g (Inr x) = Inr x"
  by (simp_all add: map_err_def)

lemma ok_or_simps [simp, result_simps]:
  "ok_or e None = Inl e" "ok_or e (Some x) = Inr x"
  by (simp_all add: ok_or_def)

lemma ok_opt_simps [simp, result_simps]:
  "ok_opt (Inl e) = None" "ok_opt (Inr x) = Some x"
  by (simp_all add: ok_opt_def)

lemma bindR_Inr_iff: "bindR m f = Inr y \<longleftrightarrow> (\<exists>x. m = Inr x \<and> f x = Inr y)"
  by (cases m) auto

lemma bindR_Inl_iff:
  "bindR m f = Inl e \<longleftrightarrow> m = Inl e \<or> (\<exists>x. m = Inr x \<and> f x = Inl e)"
  by (cases m) auto

lemma map_err_Inr_iff: "map_err g m = Inr y \<longleftrightarrow> m = Inr y"
  by (cases m) auto

lemma ok_or_Inr_iff: "ok_or e m = Inr y \<longleftrightarrow> m = Some y"
  by (cases m) auto

lemma ok_opt_Some_iff: "ok_opt m = Some y \<longleftrightarrow> m = Inr y"
  by (cases m) auto

lemmas result_iffs = bindR_Inr_iff map_err_Inr_iff ok_or_Inr_iff ok_opt_Some_iff

text \<open>
  A call that changes state returns the state beside its result, and keeps what it wrote when it
  fails. \<open>bindS\<close> is \<^verbatim>\<open>?\<close> on such calls, \<open>liftS\<close> a call that writes nothing.
\<close>

type_synonym ('s, 'e, 'a) act = "'s \<Rightarrow> ('e + 'a) \<times> 's"

definition bindS :: "('s, 'e, 'a) act \<Rightarrow> ('a \<Rightarrow> ('s, 'e, 'b) act) \<Rightarrow> ('s, 'e, 'b) act" where
  "bindS m f s = (case m s of (Inl e, s') \<Rightarrow> (Inl e, s') | (Inr x, s') \<Rightarrow> f x s')"

definition liftS :: "'e + 'a \<Rightarrow> ('s, 'e, 'a) act" where
  "liftS r s = (r, s)"

definition getS :: "('s \<Rightarrow> 'e + 'a) \<Rightarrow> ('s, 'e, 'a) act" where
  "getS f s = (f s, s)"

lemma bindS_cases:
  assumes "bindS m f s = (r, t)"
  obtains e where "m s = (Inl e, t)" "r = Inl e"
  | x u where "m s = (Inr x, u)" "f x u = (r, t)"
  using assms by (auto simp: bindS_def split: prod.splits sum.splits)

lemma bindS_Inr: "bindS m f s = (Inr y, t) \<longleftrightarrow> (\<exists>x u. m s = (Inr x, u) \<and> f x u = (Inr y, t))"
  by (auto simp: bindS_def split: prod.splits sum.splits)

lemma liftS_simps [simp]: "liftS r s = (r, s)" "getS f s = (f s, s)"
  by (simp_all add: liftS_def getS_def)

text \<open>What holds along every step of a call holds along the call, error or not.\<close>

definition along :: "('s \<Rightarrow> 's \<Rightarrow> bool) \<Rightarrow> ('s, 'e, 'a) act \<Rightarrow> bool" where
  "along R m \<longleftrightarrow> (\<forall>s. R s (snd (m s)))"

lemma along_bindS: "transp R \<Longrightarrow> along R m \<Longrightarrow> (\<And>x. along R (f x)) \<Longrightarrow> along R (bindS m f)"
proof -
  assume t: "transp R" and m: "along R m" and f: "\<And>x. along R (f x)"
  have "R s (snd (bindS m f s))" for s
  proof -
    obtain r u where u: "m s = (r, u)" by (cases "m s")
    have "R s u" using m u by (metis along_def snd_conv)
    moreover have "R u (snd (f x u))" for x using f by (simp add: along_def)
    ultimately show ?thesis using t by (cases r) (auto simp: bindS_def u transp_def)
  qed
  then show ?thesis by (simp add: along_def)
qed

lemma along_liftS: "reflp R \<Longrightarrow> along R (liftS r)" "reflp R \<Longrightarrow> along R (getS g)"
  by (simp_all add: along_def reflp_def)

section \<open>Text and bytes\<close>

text \<open>
  A \<^verbatim>\<open>String\<close> is its UTF-8 bytes, kept as a \<open>string\<close> (a list of 8-bit \<open>char\<close>s), so
  \<open>length\<close> is the source's byte length and the order on strings is the byte order Rust compares
  by. \<open>as_bytes\<close> and \<open>text_of\<close> are the two readings of one byte sequence.
\<close>

definition byte_of :: "char \<Rightarrow> u8" where
  "byte_of c = of_nat (of_char c)"

definition char_of_byte :: "u8 \<Rightarrow> char" where
  "char_of_byte w = char_of (unat w)"

definition as_bytes :: "string \<Rightarrow> bytes" where
  "as_bytes s = map byte_of s"

definition text_of :: "bytes \<Rightarrow> string" where
  "text_of b = map char_of_byte b"

lemma char_of_byte_of [simp]: "char_of_byte (byte_of c) = c"
  using nat_of_char_less_256 [of c] by (simp add: char_of_byte_def byte_of_def unat_of_nat)

lemma byte_of_char_of_byte [simp]: "byte_of (char_of_byte w) = w"
  using unsigned_less [of w, where 'a = nat] by (simp add: char_of_byte_def byte_of_def)

lemma text_of_as_bytes [simp]: "text_of (as_bytes s) = s"
  by (simp add: text_of_def as_bytes_def comp_def)

lemma as_bytes_text_of [simp]: "as_bytes (text_of b) = b"
  by (simp add: text_of_def as_bytes_def comp_def)

lemma length_as_bytes [simp]: "length (as_bytes s) = length s"
  by (simp add: as_bytes_def)

lemma length_text_of [simp]: "length (text_of b) = length b"
  by (simp add: text_of_def)

lemma as_bytes_inject [simp]: "as_bytes s = as_bytes t \<longleftrightarrow> s = t"
  by (metis text_of_as_bytes)

section \<open>Lists in order\<close>

text \<open>
  \<open>ascending f xs\<close>: the list is strictly ascending by the key \<open>f\<close>, the canonical order of every
  list a signed document carries. \<open>adjacent_same\<close> is \<^verbatim>\<open>windows(2).find\<close> for a repeated key.
\<close>

definition ascending :: "('a \<Rightarrow> 'k::linorder) \<Rightarrow> 'a list \<Rightarrow> bool" where
  "ascending f xs \<longleftrightarrow> sorted_wrt (<) (map f xs)"

fun adjacent_same :: "('a \<Rightarrow> 'k) \<Rightarrow> 'a list \<Rightarrow> 'a option" where
  "adjacent_same f (x # y # ys) = (if f x = f y then Some x else adjacent_same f (y # ys))"
| "adjacent_same f _ = None"

lemma ascending_Nil [simp]: "ascending f []"
  by (simp add: ascending_def)

lemma ascending_single [simp]: "ascending f [x]"
  by (simp add: ascending_def)

lemma ascending_Cons: "ascending f (x # xs) \<longleftrightarrow> (\<forall>y \<in> set xs. f x < f y) \<and> ascending f xs"
  by (auto simp: ascending_def)

lemma ascending_snoc: "ascending f (xs @ [x]) \<longleftrightarrow> ascending f xs \<and> (\<forall>y \<in> set xs. f y < f x)"
  by (auto simp: ascending_def sorted_wrt_append)

lemma ascending_last: "ascending f xs \<Longrightarrow> xs \<noteq> [] \<Longrightarrow> y \<in> set xs \<Longrightarrow> f y \<le> f (last xs)"
  by (cases xs rule: rev_cases) (auto simp: ascending_snoc less_imp_le)

lemma ascending_distinct: "ascending f xs \<Longrightarrow> distinct (map f xs)"
  by (induction xs) (auto simp: ascending_Cons)

lemma ascending_iff_sorted_distinct:
  "ascending f xs \<longleftrightarrow> sorted (map f xs) \<and> distinct (map f xs)"
  by (simp add: ascending_def strict_sorted_iff)

lemma ascending_filter: "ascending f xs \<Longrightarrow> ascending f (filter P xs)"
  by (induction xs) (auto simp: ascending_Cons)

lemma adjacent_same_None_iff:
  "sorted (map f xs) \<Longrightarrow> adjacent_same f xs = None \<longleftrightarrow> ascending f xs"
proof (induction f xs rule: adjacent_same.induct)
  case (1 f x y ys)
  show ?case
  proof (cases "f x = f y")
    case False
    then have "f x < f y" using "1.prems" by (auto simp: less_le)
    then have "ascending f (x # y # ys) = ascending f (y # ys)"
      using "1.prems" by (fastforce simp: ascending_Cons)
    then show ?thesis using "1.IH" "1.prems" False by simp
  qed (simp add: ascending_Cons)
qed auto

lemma adjacent_same_Some:
  "adjacent_same f xs = Some x \<Longrightarrow> x \<in> set xs \<and> \<not> distinct (map f xs)"
  by (induction f xs rule: adjacent_same.induct) (auto split: if_splits)

lemma ascending_sort_key_id: "ascending f xs \<Longrightarrow> sort_key f xs = xs"
  by (simp add: ascending_iff_sorted_distinct sort_key_id_if_sorted)

lemma ascending_unique:
  "ascending f xs \<Longrightarrow> ascending f ys \<Longrightarrow> set xs = set ys \<Longrightarrow> inj_on f (set xs) \<Longrightarrow> xs = ys"
proof -
  assume a: "ascending f xs" "ascending f ys" and s: "set xs = set ys" and i: "inj_on f (set xs)"
  from a have "map f xs = map f ys"
    by (intro sorted_distinct_set_unique) (auto simp: ascending_iff_sorted_distinct s)
  with i s show "xs = ys" by (metis map_inj_on Un_absorb)
qed

section \<open>The ordered map\<close>

text \<open>
  \<^verbatim>\<open>BTreeMap<K, V>\<close> as the association list of its entries in key order, so that iterating
  over it is reading the list. \<open>bt_insert\<close> keeps one entry per key, the newest.
\<close>

type_synonym ('k, 'v) btree = "('k \<times> 'v) list"

fun bt_insert :: "'k::linorder \<Rightarrow> 'v \<Rightarrow> ('k, 'v) btree \<Rightarrow> ('k, 'v) btree" where
  "bt_insert k v [] = [(k, v)]"
| "bt_insert k v (e # m) =
     (if fst e < k then e # bt_insert k v m
      else if fst e = k then (k, v) # m
      else (k, v) # e # m)"

definition bt_get :: "('k, 'v) btree \<Rightarrow> 'k \<Rightarrow> 'v option" where
  "bt_get m k = map_of m k"

definition bt_remove :: "'k \<Rightarrow> ('k, 'v) btree \<Rightarrow> ('k, 'v) btree" where
  "bt_remove k m = filter (\<lambda>e. fst e \<noteq> k) m"

definition bt_retain :: "('v \<Rightarrow> bool) \<Rightarrow> ('k, 'v) btree \<Rightarrow> ('k, 'v) btree" where
  "bt_retain P m = filter (\<lambda>e. P (snd e)) m"

definition bt_has :: "('k, 'v) btree \<Rightarrow> 'k \<Rightarrow> bool" where
  "bt_has m k \<longleftrightarrow> bt_get m k \<noteq> None"

definition bt_values :: "('k, 'v) btree \<Rightarrow> 'v list" where
  "bt_values m = map snd m"

definition bt_keys :: "('k, 'v) btree \<Rightarrow> 'k list" where
  "bt_keys m = map fst m"

definition bt_of :: "('k::linorder \<times> 'v) list \<Rightarrow> ('k, 'v) btree" where
  "bt_of es = fold (\<lambda>(k, v). bt_insert k v) es []"

abbreviation bt_ok :: "('k::linorder, 'v) btree \<Rightarrow> bool" where
  "bt_ok \<equiv> ascending fst"

text \<open>
  What a client of the map relies on. The laws speak of lookups only; the order of iteration is
  the law \<open>entries_get\<close> with \<open>invar\<close>.
\<close>

locale ordered_map =
  fixes empty :: "'m"
    and insert_at :: "'k \<Rightarrow> 'v \<Rightarrow> 'm \<Rightarrow> 'm"
    and lookup :: "'m \<Rightarrow> 'k \<Rightarrow> 'v option"
    and retain :: "('v \<Rightarrow> bool) \<Rightarrow> 'm \<Rightarrow> 'm"
    and entries :: "'m \<Rightarrow> ('k \<times> 'v) list"
    and invar :: "'m \<Rightarrow> bool"
  assumes empty_ok: "invar empty"
    and insert_ok: "invar m \<Longrightarrow> invar (insert_at k v m)"
    and retain_ok: "invar m \<Longrightarrow> invar (retain P m)"
    and get_empty: "lookup empty j = None"
    and get_insert: "invar m \<Longrightarrow> lookup (insert_at k v m) j = (if j = k then Some v else lookup m j)"
    and get_retain: "invar m \<Longrightarrow> lookup (retain P m) j =
      (case lookup m j of None \<Rightarrow> None | Some v \<Rightarrow> if P v then Some v else None)"
    and entries_get: "invar m \<Longrightarrow> (k, v) \<in> set (entries m) \<longleftrightarrow> lookup m k = Some v"
begin

definition insert_all :: "('k \<times> 'v) list \<Rightarrow> 'm \<Rightarrow> 'm" where
  "insert_all es m = fold (\<lambda>(k, v). insert_at k v) es m"

lemma insert_all_ok: "invar m \<Longrightarrow> invar (insert_all es m)"
  by (induction es arbitrary: m) (auto simp: insert_all_def insert_ok)

lemma get_insert_all:
  "invar m \<Longrightarrow> lookup (insert_all es m) k =
     (case map_of (rev es) k of None \<Rightarrow> lookup m k | Some v \<Rightarrow> Some v)"
proof (induction es arbitrary: m)
  case (Cons e es)
  then show ?case
    by (cases e) (auto simp: insert_all_def insert_ok get_insert map_add_def split: option.splits)
qed (simp add: insert_all_def)

lemma get_after_retain_sub:
  "invar m \<Longrightarrow> lookup (retain P m) k = Some v \<Longrightarrow> lookup m k = Some v \<and> P v"
  by (simp add: get_retain split: option.splits if_splits)

lemma entries_insert:
  "invar m \<Longrightarrow> (j, w) \<in> set (entries (insert_at k v m)) \<longleftrightarrow>
     (if j = k then w = v else (j, w) \<in> set (entries m))"
  by (auto simp: entries_get insert_ok get_insert)

end

lemma bt_insert_keys: "fst ` set (bt_insert k v m) = insert k (fst ` set m)"
  by (induction m) auto

lemma bt_insert_ok: "bt_ok m \<Longrightarrow> bt_ok (bt_insert k v m)"
proof (induction m)
  case (Cons e m)
  have "\<forall>x \<in> set (bt_insert k v m). fst e < fst x" if "fst e < k"
    using that Cons.prems bt_insert_keys [of k v m]
    by (auto simp: ascending_Cons) (metis fst_conv image_iff insert_iff)
  then show ?case using Cons by (auto simp: ascending_Cons)
qed simp

lemma bt_insert_get: "bt_get (bt_insert k v m) j = (if j = k then Some v else bt_get m j)"
  by (induction m) (auto simp: bt_get_def)

lemma bt_get_entries: "bt_ok m \<Longrightarrow> (k, v) \<in> set m \<longleftrightarrow> bt_get m k = Some v"
  by (auto simp: bt_get_def ascending_distinct dest: map_of_SomeD)

lemma bt_retain_get:
  "bt_ok m \<Longrightarrow> bt_get (bt_retain P m) j =
     (case bt_get m j of None \<Rightarrow> None | Some v \<Rightarrow> if P v then Some v else None)"
proof (induction m)
  case (Cons e m)
  then have "fst e \<notin> fst ` set (filter (\<lambda>e. P (snd e)) m)"
    by (auto simp: ascending_Cons)
  then have "map_of (filter (\<lambda>e. P (snd e)) m) (fst e) = None"
    by (simp add: map_of_eq_None_iff)
  then show ?case
    using Cons by (cases e) (simp add: bt_get_def bt_retain_def ascending_Cons)
qed (simp add: bt_get_def bt_retain_def)

lemma bt_retain_ok: "bt_ok m \<Longrightarrow> bt_ok (bt_retain P m)"
  by (simp add: bt_retain_def ascending_filter)

interpretation bt: ordered_map "[]" bt_insert bt_get bt_retain "\<lambda>m. m" "bt_ok"
  by unfold_locales
    (simp_all add: bt_insert_ok bt_insert_get bt_retain_get bt_retain_ok bt_get_entries
      bt_get_def [of "[]"])

lemma bt_of_ok [simp]: "bt_ok (bt_of es)"
  using bt.insert_all_ok [of "[]" es] by (simp add: bt_of_def bt.insert_all_def)

lemma bt_of_get: "bt_get (bt_of es) k = map_of (rev es) k"
  using bt.get_insert_all [of "[]" es k]
  by (simp add: bt_of_def bt.insert_all_def bt.get_empty split: option.splits)

lemma bt_values_set: "bt_ok m \<Longrightarrow> v \<in> set (bt_values m) \<longleftrightarrow> (\<exists>k. bt_get m k = Some v)"
  by (force simp: bt_values_def bt_get_entries [symmetric])

lemma bt_has_iff: "bt_has m k \<longleftrightarrow> k \<in> fst ` set m"
  by (auto simp: bt_has_def bt_get_def map_of_eq_None_iff)

lemma bt_get_ins_other: "k \<noteq> j \<Longrightarrow> bt_get (bt_insert k v m) j = bt_get m j"
  by (simp add: bt_insert_get)

lemma bt_has_insert [simp]: "bt_has (bt_insert k v m) j \<longleftrightarrow> j = k \<or> bt_has m j"
  by (auto simp: bt_has_def bt_insert_get)

text \<open>Removal, and maps by their lookups.\<close>

lemma bt_remove_get: "bt_get (bt_remove k m) j = (if j = k then None else bt_get m j)"
  by (induction m) (auto simp: bt_get_def bt_remove_def)

lemma bt_remove_ok: "bt_ok m \<Longrightarrow> bt_ok (bt_remove k m)"
  by (simp add: bt_remove_def ascending_filter)

lemma bt_remove_set: "e \<in> set (bt_remove k m) \<longleftrightarrow> e \<in> set m \<and> fst e \<noteq> k"
  by (auto simp: bt_remove_def)

lemma bt_insert_nonempty [simp]: "bt_insert k v m \<noteq> []"
  by (cases m) auto

lemma bt_insert_set: "bt_ok m \<Longrightarrow> e \<in> set (bt_insert k v m) \<Longrightarrow> e = (k, v) \<or> e \<in> set m"
  using bt.entries_insert [of m "fst e" "snd e" k v] by (auto split: if_splits)

lemma bt_get_Nil [simp]: "bt_get [] k = None"
  by (simp add: bt_get_def)

lemma bt_ext:
  assumes ok: "bt_ok m" "bt_ok m'" and l: "\<And>k. bt_get m k = bt_get m' k"
  shows "m = m'"
proof (rule ascending_unique)
  show "set m = set m'" using ok l bt_get_entries [of m] bt_get_entries [of m'] by force
  show "inj_on fst (set m)" using ascending_distinct [OF ok(1)] by (simp add: distinct_map)
qed (rule ok)+

lemma map_of_rev_same: "distinct (map fst es) \<Longrightarrow> map_of (rev es) k = map_of es k"
proof (cases "map_of es k")
  case None
  then have "k \<notin> fst ` set (rev es)" by (simp add: map_of_eq_None_iff)
  then show ?thesis using None by (metis map_of_eq_None_iff)
qed (simp add: map_of_eq_Some_iff rev_map [symmetric])

lemma bt_of_ascending: "bt_ok es \<Longrightarrow> bt_of es = es"
proof (rule bt_ext)
  fix k
  assume "bt_ok es"
  then have "distinct (map fst es)" by (rule ascending_distinct)
  then show "bt_get (bt_of es) k = bt_get es k" unfolding bt_of_get by (simp add: map_of_rev_same bt_get_def)
qed simp_all

lemma bt_ok_map:
  assumes "bt_ok m" "\<And>a b. a < b \<Longrightarrow> f a < f b"
  shows "bt_ok (map (\<lambda>(k, v). (f k, g k v)) m)"
  using assms(1) by (induction m) (auto simp: ascending_Cons dest!: bspec intro!: assms(2))

lemma bt_get_map:
  assumes "inj f"
  shows "bt_get (map (\<lambda>(k, v). (f k, g k v)) m) (f k) = map_option (g k) (bt_get m k)"
  by (induction m) (auto simp: bt_get_def dest: injD [OF assms])

lemma filter_bt_insert: "(\<And>v. \<not> P (k, v)) \<Longrightarrow> filter P (bt_insert k v m) = filter P m"
proof (induction m)
  case (Cons e m)
  then show ?case by (cases e) simp
qed simp

lemma fold_bt_remove: "fold (\<lambda>(l, _). bt_remove l) ds m = filter (\<lambda>e. fst e \<notin> fst ` set ds) m"
proof (induction ds arbitrary: m)
  case (Cons e ds)
  then show ?case by (cases e) (auto simp: bt_remove_def intro!: filter_cong)
qed simp

section \<open>Searching a list\<close>

text \<open>An option's iterator, as the list of what it holds.\<close>

definition option_list :: "'a option \<Rightarrow> 'a list" where
  "option_list m = (case m of None \<Rightarrow> [] | Some x \<Rightarrow> [x])"

lemma option_list_set [simp]: "x \<in> set (option_list m) \<longleftrightarrow> m = Some x"
  by (cases m) (auto simp: option_list_def)

text \<open>\<^verbatim>\<open>Iterator::position\<close>, and \<^verbatim>\<open>Iterator::max_by_key\<close>, which gives the last of several greatest.\<close>

fun position :: "('a \<Rightarrow> bool) \<Rightarrow> 'a list \<Rightarrow> nat option" where
  "position P [] = None"
| "position P (x # xs) = (if P x then Some 0 else map_option Suc (position P xs))"

fun max_by_key :: "('a \<Rightarrow> 'k::linorder) \<Rightarrow> 'a list \<Rightarrow> 'a option" where
  "max_by_key f [] = None"
| "max_by_key f (x # xs) =
     (case max_by_key f xs of None \<Rightarrow> Some x | Some y \<Rightarrow> Some (if f x > f y then x else y))"

lemma position_None: "position P xs = None \<longleftrightarrow> (\<forall>x \<in> set xs. \<not> P x)"
  by (induction xs) auto

lemma position_Some:
  "position P xs = Some i \<Longrightarrow> i < length xs \<and> P (xs ! i) \<and> (\<forall>j < i. \<not> P (xs ! j))"
proof (induction xs arbitrary: i)
  case (Cons x xs)
  show ?case
  proof (cases "P x")
    case False
    then obtain j where j: "position P xs = Some j" "i = Suc j" using Cons.prems by auto
    have "\<not> P ((x # xs) ! k)" if "k < i" for k
      using Cons.IH [OF j(1)] that False j(2) by (cases k) auto
    then show ?thesis using Cons.IH [OF j(1)] j(2) by simp
  qed (use Cons.prems in auto)
qed simp

lemma position_set: "position P xs = Some i \<Longrightarrow> xs ! i \<in> set xs"
  using position_Some by fastforce

lemma max_by_key_None: "max_by_key f xs = None \<longleftrightarrow> xs = []"
  by (cases xs) (auto split: option.splits)

lemma max_by_key_Some: "max_by_key f xs = Some x \<Longrightarrow> x \<in> set xs \<and> (\<forall>y \<in> set xs. f y \<le> f x)"
proof (induction xs arbitrary: x)
  case (Cons a xs)
  then show ?case
    by (cases "max_by_key f xs") (auto simp: max_by_key_None split: if_splits dest: order.strict_trans1)
qed simp

text \<open>\<^verbatim>\<open>Iterator::find_map\<close>, and a loop over entries that stops at the first error.\<close>

fun find_map :: "('a \<Rightarrow> 'b option) \<Rightarrow> 'a list \<Rightarrow> 'b option" where
  "find_map f [] = None"
| "find_map f (x # xs) = (case f x of None \<Rightarrow> find_map f xs | Some y \<Rightarrow> Some y)"

primrec each_entry :: "('x \<Rightarrow> 's \<Rightarrow> 'e + 's) \<Rightarrow> 'x list \<Rightarrow> 's \<Rightarrow> 'e + 's" where
  "each_entry f [] s = Inr s"
| "each_entry f (x # xs) s = bindR (f x s) (each_entry f xs)"

lemma find_map_None: "find_map f xs = None \<longleftrightarrow> (\<forall>x \<in> set xs. f x = None)"
  by (induction xs) (auto split: option.splits)

lemma find_map_Some: "find_map f xs = Some y \<Longrightarrow> \<exists>x \<in> set xs. f x = Some y"
  by (induction xs) (auto split: option.splits)

lemma find_Some_set: "find P xs = Some x \<Longrightarrow> x \<in> set xs \<and> P x"
  by (auto simp: find_Some_iff)

lemma each_entry_append: "each_entry f (xs @ ys) s = bindR (each_entry f xs s) (each_entry f ys)"
  by (induction xs arbitrary: s) (auto simp: bindR_def split: sum.splits)

lemma each_entry_filter:
  "(\<And>x s. x \<in> set xs \<Longrightarrow> \<not> P x \<Longrightarrow> f x s = Inr s) \<Longrightarrow> each_entry f xs s = each_entry f (filter P xs) s"
proof (induction xs arbitrary: s)
  case (Cons x xs)
  show ?case
  proof (cases "P x")
    case True
    have "each_entry f xs = each_entry f (filter P xs)" using Cons by (intro ext) auto
    with True show ?thesis by simp
  next
    case False
    then show ?thesis using Cons by simp
  qed
qed simp

lemma each_entry_fold:
  "(\<And>x s. x \<in> set xs \<Longrightarrow> f x s = Inr (g x s)) \<Longrightarrow> each_entry f xs s = Inr (fold g xs s)"
  by (induction xs arbitrary: s) auto

lemma each_entry_keeps:
  "(\<And>x s t. x \<in> set xs \<Longrightarrow> P s \<Longrightarrow> f x s = Inr t \<Longrightarrow> P t) \<Longrightarrow> P s \<Longrightarrow> each_entry f xs s = Inr t \<Longrightarrow> P t"
proof (induction xs arbitrary: s)
  case (Cons x xs)
  from Cons.prems(3) obtain u where u: "f x s = Inr u" "each_entry f xs u = Inr t" by (auto simp: bindR_Inr_iff)
  show ?case
    by (rule Cons.IH [OF _ _ u(2)]) (use Cons.prems(1) Cons.prems(1) [OF _ Cons.prems(2) u(1)] in auto)
qed simp

end
