(* ===== verification/Rust_Str.thy ===== *)
theory Rust_Str
  imports Prelude
begin

text \<open>
  The operations of Rust's \<^verbatim>\<open>str\<close> and \<^verbatim>\<open>char\<close> the program calls, on text as its UTF-8 bytes:
  ASCII classes and folding, \<^verbatim>\<open>trim\<close>, \<^verbatim>\<open>split\<close>, \<^verbatim>\<open>split_once\<close>, \<^verbatim>\<open>lines\<close>, \<^verbatim>\<open>from_utf8\<close>, and printing and
  parsing a \<^verbatim>\<open>u64\<close>. They are the language's own library, written out so that the theories that
  use them stay executable; the lemmas are the laws those theories rely on.
\<close>

section \<open>Characters\<close>

definition code :: "char \<Rightarrow> nat" where
  "code c = of_char c"

definition is_ascii_upper :: "char \<Rightarrow> bool" where
  "is_ascii_upper c \<longleftrightarrow> 65 \<le> code c \<and> code c \<le> 90"

definition is_ascii_lower :: "char \<Rightarrow> bool" where
  "is_ascii_lower c \<longleftrightarrow> 97 \<le> code c \<and> code c \<le> 122"

definition is_ascii_digit :: "char \<Rightarrow> bool" where
  "is_ascii_digit c \<longleftrightarrow> 48 \<le> code c \<and> code c \<le> 57"

definition is_ascii_alnum :: "char \<Rightarrow> bool" where
  "is_ascii_alnum c \<longleftrightarrow> is_ascii_upper c \<or> is_ascii_lower c \<or> is_ascii_digit c"

definition ascii_lower :: "char \<Rightarrow> char" where
  "ascii_lower c = (if is_ascii_upper c then char_of (code c + 32) else c)"

definition ascii_lowercase :: "string \<Rightarrow> string" where
  "ascii_lowercase s = map ascii_lower s"

lemmas ascii_defs = is_ascii_upper_def is_ascii_lower_def is_ascii_digit_def is_ascii_alnum_def

lemma code_char_of: "n < 256 \<Longrightarrow> code (char_of n) = n"
  by (simp add: code_def)

lemma code_less [simp]: "code c < 256"
  by (simp add: code_def nat_of_char_less_256)

lemma code_eq_iff: "code c = code d \<longleftrightarrow> c = d"
  by (simp add: code_def)

lemma ascii_lower_not_upper [simp]: "\<not> is_ascii_upper (ascii_lower c)"
  by (auto simp: ascii_lower_def is_ascii_upper_def code_char_of)

lemma ascii_lower_id: "\<not> is_ascii_upper c \<Longrightarrow> ascii_lower c = c"
  by (simp add: ascii_lower_def)

lemma ascii_lower_idem [simp]: "ascii_lower (ascii_lower c) = ascii_lower c"
  by (simp add: ascii_lower_id)

lemma ascii_lowercase_idem [simp]: "ascii_lowercase (ascii_lowercase s) = ascii_lowercase s"
  by (simp add: ascii_lowercase_def)

lemma length_ascii_lowercase [simp]: "length (ascii_lowercase s) = length s"
  by (simp add: ascii_lowercase_def)

text \<open>
  \<^verbatim>\<open>chars().any(char::is_control)\<close>: U+0000 to U+001F, U+007F, and U+0080 to U+009F, whose UTF-8
  form is the byte C2 and one of 80 to 9F.
\<close>

fun has_control :: "string \<Rightarrow> bool" where
  "has_control [] = False"
| "has_control (c # s) =
     (code c < 32 \<or> code c = 127 \<or>
      (code c = 194 \<and> (case s of [] \<Rightarrow> False | d # _ \<Rightarrow> 128 \<le> code d \<and> code d \<le> 159)) \<or>
      has_control s)"

section \<open>Trimming\<close>

text \<open>
  \<^verbatim>\<open>str::trim\<close> drops characters with the Unicode property White_Space from both ends. Here they
  are by their UTF-8 bytes; a well-formed text never holds one of these sequences across two
  characters, so dropping the bytes is dropping the characters.
\<close>

definition whitespace :: "string list" where
  "whitespace = map (map char_of)
     ([[9], [10], [11], [12], [13], [32], [194, 133], [194, 160], [225, 154, 128]] @
      map (\<lambda>n. [226, 128, n]) [128, 129, 130, 131, 132, 133, 134, 135, 136, 137, 138, 168, 169, 175] @
      [[226, 129, 159], [227, 128, 128 :: nat]])"

definition strip_front :: "string \<Rightarrow> string option" where
  "strip_front s = map_option (\<lambda>w. drop (length w) s)
     (find (\<lambda>w. take (length w) s = w) whitespace)"

lemma whitespace_nonempty: "w \<in> set whitespace \<Longrightarrow> w \<noteq> []"
  by (auto simp: whitespace_def)

lemma strip_front_shorter: "strip_front s = Some t \<Longrightarrow> length t < length s"
proof -
  assume "strip_front s = Some t"
  then obtain w where "find (\<lambda>w. take (length w) s = w) whitespace = Some w"
    and t: "t = drop (length w) s" by (auto simp: strip_front_def)
  then have "w \<noteq> []" "take (length w) s = w"
    by (auto simp: find_Some_iff dest!: whitespace_nonempty [OF nth_mem])
  then have "0 < length w" "length w \<le> length s"
    by (simp, metis length_take min.cobounded1 min.orderE nat_le_linear)
  then show ?thesis unfolding t length_take length_drop by arith
qed

function trim_start :: "string \<Rightarrow> string" where
  "trim_start s = (case strip_front s of None \<Rightarrow> s | Some t \<Rightarrow> trim_start t)"
  by pat_completeness auto
termination
  by (relation "measure length") (auto dest: strip_front_shorter)

declare trim_start.simps [simp del]

definition strip_back :: "string \<Rightarrow> string option" where
  "strip_back s = map_option (\<lambda>w. take (length s - length w) s)
     (find (\<lambda>w. length w \<le> length s \<and> drop (length s - length w) s = w) whitespace)"

lemma strip_back_shorter: "strip_back s = Some t \<Longrightarrow> length t < length s"
proof -
  assume "strip_back s = Some t"
  then obtain w where "find (\<lambda>w. length w \<le> length s \<and> drop (length s - length w) s = w) whitespace = Some w"
    and t: "t = take (length s - length w) s" by (auto simp: strip_back_def)
  then have "0 < length w" "length w \<le> length s"
    by (auto simp: find_Some_iff dest!: whitespace_nonempty [OF nth_mem])
  then show ?thesis unfolding t length_take length_drop by arith
qed

function trim_end :: "string \<Rightarrow> string" where
  "trim_end s = (case strip_back s of None \<Rightarrow> s | Some t \<Rightarrow> trim_end t)"
  by pat_completeness auto
termination
  by (relation "measure length") (auto dest: strip_back_shorter)

declare trim_end.simps [simp del]

definition trim :: "string \<Rightarrow> string" where
  "trim s = trim_end (trim_start s)"

text \<open>A text whose first and last byte can begin or end no whitespace is its own trim.\<close>

definition solid :: "char \<Rightarrow> bool" where
  "solid c \<longleftrightarrow> 33 \<le> code c \<and> code c < 127"

lemma whitespace_not_solid: "w \<in> set whitespace \<Longrightarrow> \<not> solid (hd w) \<and> \<not> solid (last w)"
  by (auto simp: whitespace_def solid_def code_char_of)

lemma strip_front_solid: "s \<noteq> [] \<Longrightarrow> solid (hd s) \<Longrightarrow> strip_front s = None"
proof -
  assume s: "s \<noteq> []" "solid (hd s)"
  have "take (length w) s \<noteq> w" if "w \<in> set whitespace" for w
    using whitespace_not_solid [OF that] whitespace_nonempty [OF that] s
    by (metis hd_take length_greater_0_conv)
  then show ?thesis by (auto simp: strip_front_def find_None_iff)
qed

lemma strip_back_solid: "s \<noteq> [] \<Longrightarrow> solid (last s) \<Longrightarrow> strip_back s = None"
proof -
  assume s: "s \<noteq> []" "solid (last s)"
  have "drop (length s - length w) s \<noteq> w" if "w \<in> set whitespace" "length w \<le> length s" for w
    using whitespace_not_solid [OF that(1)] whitespace_nonempty [OF that(1)] s that(2)
    by (metis last_drop diff_less length_greater_0_conv)
  then show ?thesis by (auto simp: strip_back_def find_None_iff)
qed

lemma trim_start_stop: "strip_front s = None \<Longrightarrow> trim_start s = s"
  by (subst trim_start.simps) simp

lemma trim_end_stop: "strip_back s = None \<Longrightarrow> trim_end s = s"
  by (subst trim_end.simps) simp

lemma strip_Nil: "strip_front [] = None" "strip_back [] = None"
  using whitespace_nonempty by (auto simp: strip_front_def strip_back_def find_None_iff)

lemma trim_Nil [simp]: "trim [] = []"
  by (simp add: trim_def trim_start_stop trim_end_stop strip_Nil)

lemma trim_solid: "s \<noteq> [] \<Longrightarrow> solid (hd s) \<Longrightarrow> solid (last s) \<Longrightarrow> trim s = s"
  by (simp add: trim_def trim_start_stop trim_end_stop strip_front_solid strip_back_solid)

text \<open>A line that was written reads back by its trim.\<close>

lemma newline_char: "CHR 0x0A = char_of (10 :: nat)"
  by code_simp

lemma newline_white: "w \<in> set whitespace \<Longrightarrow> last w = CHR 0x0A \<Longrightarrow> w = [CHR 0x0A]"
proof -
  assume w: "w \<in> set whitespace" "last w = CHR 0x0A"
  then have "code (last w) = 10" by (simp add: newline_char code_char_of)
  with w(1) show ?thesis by (auto simp: whitespace_def code_char_of newline_char)
qed

lemma strip_back_newline:
  "strip_back (s @ [CHR 0x0A]) = Some s"
proof -
  let ?t = "s @ [CHR 0x0A]"
  let ?P = "\<lambda>w. length w \<le> length ?t \<and> drop (length ?t - length w) ?t = w"
  have nl: "[CHR 0x0A] \<in> set whitespace" by (simp add: whitespace_def newline_char)
  moreover have "?P [CHR 0x0A]" by simp
  ultimately have "find ?P whitespace \<noteq> None" unfolding find_None_iff by blast
  then obtain w where w: "find ?P whitespace = Some w" by blast
  then have m: "w \<in> set whitespace" and d: "?P w" by (auto simp: find_Some_iff)
  have "last w = last ?t"
    using d whitespace_nonempty [OF m] by (metis last_drop diff_less length_greater_0_conv snoc_eq_iff_butlast)
  then have "w = [CHR 0x0A]" using newline_white [OF m] by simp
  then show ?thesis using w by (simp add: strip_back_def)
qed

lemma trim_line:
  assumes "s \<noteq> []" "solid (hd s)" "solid (last s)"
  shows "trim (s @ [CHR 0x0A]) = s"
proof -
  have "trim_start (s @ [CHR 0x0A]) = s @ [CHR 0x0A]"
    using assms(1,2) by (intro trim_start_stop strip_front_solid) simp_all
  moreover have "trim_end (s @ [CHR 0x0A]) = s"
    by (subst trim_end.simps) (simp add: strip_back_newline trim_end_stop strip_back_solid assms)
  ultimately show ?thesis by (simp add: trim_def)
qed

section \<open>Splitting\<close>

text \<open>\<^verbatim>\<open>split(c)\<close>, always at least one piece; \<^verbatim>\<open>split_once(c)\<close>; \<^verbatim>\<open>lines()\<close>.\<close>

fun split_on :: "char \<Rightarrow> string \<Rightarrow> string list" where
  "split_on c [] = [[]]"
| "split_on c (d # s) =
     (if d = c then [] # split_on c s
      else (case split_on c s of [] \<Rightarrow> [[d]] | p # ps \<Rightarrow> (d # p) # ps))"

fun split_once :: "char \<Rightarrow> string \<Rightarrow> (string \<times> string) option" where
  "split_once c [] = None"
| "split_once c (d # s) =
     (if d = c then Some ([], s) else map_option (\<lambda>(a, b). (d # a, b)) (split_once c s))"

fun join_with :: "char \<Rightarrow> string list \<Rightarrow> string" where
  "join_with c [] = []"
| "join_with c [p] = p"
| "join_with c (p # ps) = p @ c # join_with c ps"

definition newline :: char where "newline = CHR 0x0A"
definition tab :: char where "tab = CHR 0x09"
definition carriage :: char where "carriage = CHR 0x0D"

lemmas trim_newline = trim_line [folded newline_def]

definition strip_cr :: "string \<Rightarrow> string" where
  "strip_cr l = (if l \<noteq> [] \<and> last l = carriage then butlast l else l)"

definition lines :: "string \<Rightarrow> string list" where
  "lines s =
     (let ps = split_on newline s
      in map strip_cr (butlast ps) @ (if last ps = [] then [] else [last ps]))"

lemma split_on_nonempty [simp]: "split_on c s \<noteq> []"
  by (induction s) (auto split: list.splits)

lemma split_on_none: "c \<notin> set s \<Longrightarrow> split_on c s = [s]"
  by (induction s) auto

lemma split_on_append: "c \<notin> set p \<Longrightarrow> split_on c (p @ c # s) = p # split_on c s"
  by (induction p) auto

lemma split_on_join:
  "ps \<noteq> [] \<Longrightarrow> \<forall>p \<in> set ps. c \<notin> set p \<Longrightarrow> split_on c (join_with c ps) = ps"
  by (induction c ps rule: join_with.induct) (auto simp: split_on_none split_on_append)

lemma join_split_on: "join_with c (split_on c s) = s"
proof (induction s)
  case (Cons d s)
  then show ?case by (cases "split_on c s" rule: remdups_adj.cases) auto
qed simp

lemma split_on_pieces: "p \<in> set (split_on c s) \<Longrightarrow> c \<notin> set p"
  by (induction s arbitrary: p) (auto split: if_splits list.splits)

lemma split_once_None: "split_once c s = None \<longleftrightarrow> c \<notin> set s"
  by (induction s) auto

lemma split_once_Some:
  "split_once c s = Some (a, b) \<longleftrightarrow> s = a @ c # b \<and> c \<notin> set a"
proof (induction s arbitrary: a)
  case (Cons d s)
  show ?case
  proof (cases a)
    case (Cons e a')
    then show ?thesis using Cons.IH [of a'] by auto
  qed auto
qed simp

lemma split_once_append: "c \<notin> set a \<Longrightarrow> split_once c (a @ c # b) = Some (a, b)"
  by (simp add: split_once_Some)

lemma lines_append: "newline \<notin> set l \<Longrightarrow> lines (l @ newline # s) = strip_cr l # lines s"
  by (simp add: lines_def split_on_append Let_def)

lemma lines_Nil [simp]: "lines [] = []"
  by (simp add: lines_def)

lemma lines_one: "newline \<notin> set l \<Longrightarrow> l \<noteq> [] \<Longrightarrow> lines l = [l]"
  by (simp add: lines_def split_on_none)

section \<open>UTF-8\<close>

text \<open>
  \<^verbatim>\<open>core::str::from_utf8\<close>: well-formed UTF-8 only, with no overlong form, no surrogate and
  nothing past U+10FFFF (table 3-7 of the Unicode standard).
\<close>

definition cont :: "u8 \<Rightarrow> bool" where
  "cont b \<longleftrightarrow> 0x80 \<le> b \<and> b \<le> 0xBF"

fun utf8_valid :: "bytes \<Rightarrow> bool" where
  "utf8_valid [] = True"
| "utf8_valid (a # bs) =
     (if a < 0x80 then utf8_valid bs
      else if 0xC2 \<le> a \<and> a \<le> 0xDF then
        (case bs of b # cs \<Rightarrow> cont b \<and> utf8_valid cs | _ \<Rightarrow> False)
      else if 0xE0 \<le> a \<and> a \<le> 0xEF then
        (case bs of b # c # ds \<Rightarrow>
           cont b \<and> cont c \<and> (a = 0xE0 \<longrightarrow> 0xA0 \<le> b) \<and> (a = 0xED \<longrightarrow> b \<le> 0x9F) \<and> utf8_valid ds
         | _ \<Rightarrow> False)
      else if 0xF0 \<le> a \<and> a \<le> 0xF4 then
        (case bs of b # c # d # es \<Rightarrow>
           cont b \<and> cont c \<and> cont d \<and> (a = 0xF0 \<longrightarrow> 0x90 \<le> b) \<and> (a = 0xF4 \<longrightarrow> b \<le> 0x8F) \<and>
           utf8_valid es
         | _ \<Rightarrow> False)
      else False)"

definition from_utf8 :: "bytes \<Rightarrow> string option" where
  "from_utf8 bs = (if utf8_valid bs then Some (text_of bs) else None)"

definition is_text :: "string \<Rightarrow> bool" where
  "is_text s \<longleftrightarrow> utf8_valid (as_bytes s)"

lemma from_utf8_Some: "from_utf8 bs = Some s \<longleftrightarrow> is_text s \<and> bs = as_bytes s"
  by (auto simp: from_utf8_def is_text_def)

lemma ascii_is_text: "\<forall>c \<in> set s. code c < 128 \<Longrightarrow> is_text s"
proof (induction s)
  case (Cons c s)
  then have "byte_of c < 0x80"
    by (simp add: byte_of_def code_def word_less_nat_alt unat_of_nat)
  with Cons show ?case by (simp add: is_text_def as_bytes_def)
qed (simp add: is_text_def as_bytes_def)

section \<open>Decimal numbers\<close>

text \<open>
  A \<^verbatim>\<open>u64\<close> as \<^verbatim>\<open>Display\<close> prints it, and as \<^verbatim>\<open>parse::<u64>\<close> reads it: at least one digit after
  an optional \<^verbatim>\<open>+\<close>, and refused at the first digit past the width.
\<close>

datatype int_error = IntEmpty | InvalidDigit | PosOverflow

definition digit :: "nat \<Rightarrow> char" where
  "digit n = char_of (48 + n)"

fun show_nat :: "nat \<Rightarrow> string" where
  "show_nat n = (if n < 10 then [digit n] else show_nat (n div 10) @ [digit (n mod 10)])"

declare show_nat.simps [simp del]

fun read_digits :: "nat \<Rightarrow> string \<Rightarrow> int_error + nat" where
  "read_digits acc [] = Inr acc"
| "read_digits acc (c # s) =
     (if \<not> is_ascii_digit c then Inl InvalidDigit
      else if 2 ^ 64 \<le> acc * 10 + (code c - 48) then Inl PosOverflow
      else read_digits (acc * 10 + (code c - 48)) s)"

definition parse_u64 :: "string \<Rightarrow> int_error + u64" where
  "parse_u64 s =
     (case s of [] \<Rightarrow> Inl IntEmpty
      | c # cs \<Rightarrow>
          if c = CHR ''+'' then
            (if cs = [] then Inl InvalidDigit else bindR (read_digits 0 cs) (\<lambda>n. Inr (of_nat n)))
          else bindR (read_digits 0 s) (\<lambda>n. Inr (of_nat n)))"

definition show_u64 :: "u64 \<Rightarrow> string" where
  "show_u64 n = show_nat (unat n)"

lemma digit_props: "n < 10 \<Longrightarrow> is_ascii_digit (digit n) \<and> code (digit n) = 48 + n"
  by (simp add: digit_def is_ascii_digit_def code_char_of)

lemma show_nat_digits: "\<forall>c \<in> set (show_nat n). is_ascii_digit c"
proof (induction n rule: show_nat.induct)
  case (1 n)
  then show ?case by (subst show_nat.simps) (auto simp: digit_props)
qed

lemma show_nat_nonempty [simp]: "show_nat n \<noteq> []"
  by (subst show_nat.simps) simp

lemma read_digits_append:
  "read_digits acc (s @ t) = bindR (read_digits acc s) (\<lambda>n. read_digits n t)"
  by (induction s arbitrary: acc) auto

lemma read_show_nat: "n < 2 ^ 64 \<Longrightarrow> read_digits 0 (show_nat n) = Inr n"
proof (induction n rule: show_nat.induct)
  case (1 n)
  then show ?case
    by (subst show_nat.simps) (auto simp: digit_props read_digits_append)
qed

lemma parse_show_u64: "parse_u64 (show_u64 n) = Inr n"
proof -
  have r: "read_digits 0 (show_nat (unat n)) = Inr (unat n)"
    by (rule read_show_nat) simp
  obtain c cs where s: "show_nat (unat n) = c # cs" by (cases "show_nat (unat n)") auto
  then have "is_ascii_digit c" using show_nat_digits [of "unat n"] by simp
  then have "c \<noteq> CHR ''+''" by (auto simp: is_ascii_digit_def code_def)
  then show ?thesis using r by (simp add: parse_u64_def show_u64_def s)
qed

end
