(* ===== verification/Names.thy ===== *)
theory Names
  imports Rust_Str
begin

text \<open>
  \<^verbatim>\<open>src/names.rs\<close>, and the three typed names \<^verbatim>\<open>src/contacts.rs\<close> builds on it: \<^verbatim>\<open>Petname\<close>,
  \<^verbatim>\<open>DeviceLabel\<close> and \<^verbatim>\<open>ContactRef\<close>. A name is 1 to 63 characters of \<open>a-z\<close>, \<open>0-9\<close> and \<open>-\<close>,
  starting with a letter or digit, and has one stored spelling. The lemmas show that parsing
  folds to that spelling, that reading a stored name folds nothing, and that the name a machine
  suggests for itself is always usable. nauthy's \<^verbatim>\<open>Service\<close> parser is an argument.
\<close>

section \<open>The one name rule\<close>

datatype name = Name (name_str: string)

datatype name_error = NotAName string | Reserved string

definition MAX_LEN :: nat where "MAX_LEN = 63"

definition RESERVED :: "string list" where
  "RESERVED = [''me'', ''root'', ''anyone'', ''control'', ''lookup'']"

definition is_reserved :: "name \<Rightarrow> bool" where
  "is_reserved n \<longleftrightarrow> name_str n \<in> set RESERVED"

definition unreserved :: "name \<Rightarrow> name_error + name" where
  "unreserved n = (if is_reserved n then Inl (Reserved (name_str n)) else Inr n)"

definition name_from_str :: "string \<Rightarrow> name_error + name" where
  "name_from_str text =
     (let folded = ascii_lowercase text;
          starts_well = (case folded of [] \<Rightarrow> False | c # _ \<Rightarrow> is_ascii_alnum c);
          in_alphabet = list_all (\<lambda>c. is_ascii_lower c \<or> is_ascii_digit c \<or> c = CHR ''-'') folded
      in if \<not> starts_well \<or> \<not> in_alphabet \<or> length folded > MAX_LEN
         then Inl (NotAName text)
         else Inr (Name folded))"

definition name_stored :: "string \<Rightarrow> name_error + name" where
  "name_stored text = bindR (name_from_str text) (\<lambda>name.
     if name_str name \<noteq> text then Inl (NotAName text) else Inr name)"

text \<open>
  \<open>valid_name\<close> is the rule itself, as the module's comment states it; it is what the parser is
  checked against.
\<close>

definition name_char :: "char \<Rightarrow> bool" where
  "name_char c \<longleftrightarrow> is_ascii_lower c \<or> is_ascii_digit c \<or> c = CHR ''-''"

definition valid_name :: "string \<Rightarrow> bool" where
  "valid_name s \<longleftrightarrow> s \<noteq> [] \<and> length s \<le> 63 \<and> (\<forall>c \<in> set s. name_char c) \<and> hd s \<noteq> CHR ''-''"

lemma dash_code: "code (CHR ''-'') = 45"
  by (simp add: code_def)

lemma name_char_not_upper: "name_char c \<Longrightarrow> \<not> is_ascii_upper c"
  by (auto simp: name_char_def ascii_defs dash_code)

lemma name_char_alnum: "name_char c \<Longrightarrow> is_ascii_alnum c \<longleftrightarrow> c \<noteq> CHR ''-''"
  by (auto simp: name_char_def ascii_defs dash_code)

lemma name_char_solid: "name_char c \<Longrightarrow> solid c"
  by (auto simp: name_char_def ascii_defs dash_code solid_def)

lemma name_char_code: "name_char c \<Longrightarrow> code c < 128"
  by (auto dest: name_char_solid simp: solid_def)

lemma lowercase_name: "\<forall>c \<in> set s. name_char c \<Longrightarrow> ascii_lowercase s = s"
  by (simp add: ascii_lowercase_def map_idI ascii_lower_id name_char_not_upper)

lemma name_from_str_iff:
  "name_from_str text = (if valid_name (ascii_lowercase text)
     then Inr (Name (ascii_lowercase text)) else Inl (NotAName text))"
  by (cases "ascii_lowercase text")
    (auto simp: name_from_str_def valid_name_def MAX_LEN_def Let_def list_all_iff name_char_def
      name_char_alnum [unfolded name_char_def])

lemma name_from_str_valid: "name_from_str text = Inr n \<Longrightarrow> valid_name (name_str n)"
  by (auto simp: name_from_str_iff split: if_splits)

lemma name_from_valid: "valid_name s \<Longrightarrow> name_from_str s = Inr (Name s)"
  by (simp add: name_from_str_iff lowercase_name valid_name_def)

lemma name_stored_iff: "name_stored text = Inr n \<longleftrightarrow> valid_name text \<and> n = Name text"
proof
  assume "name_stored text = Inr n"
  then show "valid_name text \<and> n = Name text"
    by (auto simp: name_stored_def name_from_str_iff split: if_splits)
next
  assume "valid_name text \<and> n = Name text"
  then show "name_stored text = Inr n" by (simp add: name_stored_def name_from_valid)
qed

lemma valid_name_no: "valid_name s \<Longrightarrow> code c < 45 \<or> (57 < code c \<and> code c < 97) \<or> code c = 46
   \<or> code c = 47 \<or> 122 < code c \<Longrightarrow> c \<notin> set s"
  by (auto simp: valid_name_def name_char_def ascii_defs dash_code)

section \<open>Service names\<close>

datatype service = Service (service_str: string)

text \<open>\<open>parse_service\<close> is nauthy's \<^verbatim>\<open>Service::from_str\<close>.\<close>

definition service_name :: "(string \<Rightarrow> service option) \<Rightarrow> string \<Rightarrow> name_error + service" where
  "service_name parse_service text = bindR (name_from_str text) (\<lambda>name.
     if name_str name \<in> {''control'', ''lookup''} then Inl (Reserved (name_str name))
     else ok_or (NotAName text) (parse_service (name_str name)))"

section \<open>The name a hostname suggests\<close>

definition push_name_char :: "string \<Rightarrow> char \<Rightarrow> string" where
  "push_name_char name character =
     (let c = ascii_lower character;
          c = (if is_ascii_lower c \<or> is_ascii_digit c then c else CHR ''-'')
      in if c = CHR ''-'' \<and> (name = [] \<or> last name = CHR ''-'') then name else name @ [c])"

definition trim_end_dashes :: "string \<Rightarrow> string" where
  "trim_end_dashes s = rev (dropWhile (\<lambda>c. c = CHR ''-'') (rev s))"

text \<open>
  A byte of a character outside ASCII becomes \<open>-\<close>, as the character does in the source: runs of
  \<open>-\<close> collapse, so one or several make the same name.
\<close>

definition suggested_from :: "string \<Rightarrow> name option" where
  "suggested_from hostname =
     (let head = takeWhile (\<lambda>c. c \<noteq> CHR ''.'') hostname;
          name = foldl push_name_char [] head;
          name = trim_end_dashes name;
          name = take (min (length name) MAX_LEN) name
      in ok_opt (bindR (name_from_str name) unreserved))"

definition suggest_from :: "string \<Rightarrow> name" where
  "suggest_from hostname =
     (case suggested_from hostname of Some n \<Rightarrow> n | None \<Rightarrow> Name ''this'')"

lemma valid_unreserved_iff:
  "unreserved n = Inr m \<longleftrightarrow> m = n \<and> \<not> is_reserved n"
  by (auto simp: unreserved_def)

lemma suggested_from_valid:
  "suggested_from h = Some n \<Longrightarrow> valid_name (name_str n) \<and> \<not> is_reserved n"
  by (auto simp: suggested_from_def Let_def ok_opt_Some_iff bindR_Inr_iff valid_unreserved_iff
      dest: name_from_str_valid)

text \<open>The characters a hostname leaves are the name's: the loop keeps the rule but its length.\<close>

definition name_prefix :: "string \<Rightarrow> bool" where
  "name_prefix s \<longleftrightarrow> (\<forall>c \<in> set s. name_char c) \<and> (s \<noteq> [] \<longrightarrow> hd s \<noteq> CHR ''-'')"

lemma push_name_char_prefix: "name_prefix s \<Longrightarrow> name_prefix (push_name_char s c)"
  by (cases s) (auto simp: name_prefix_def push_name_char_def Let_def name_char_def)

lemma foldl_push_prefix: "name_prefix s \<Longrightarrow> name_prefix (foldl push_name_char s cs)"
  by (induction cs arbitrary: s) (auto simp: push_name_char_prefix)

lemma name_prefix_take: "name_prefix s \<Longrightarrow> name_prefix (take k s)"
  by (cases k; cases s) (auto simp: name_prefix_def dest: in_set_takeD)

lemma trim_end_dashes_take: "\<exists>k. trim_end_dashes s = take k s"
  unfolding trim_end_dashes_def
  by (metis append_eq_conv_conj rev_append rev_rev_ident takeWhile_dropWhile_id)

lemma suggested_text_prefix:
  "name_prefix (take k (trim_end_dashes (foldl push_name_char [] cs)))"
proof -
  have "name_prefix (foldl push_name_char [] cs)"
    by (rule foldl_push_prefix) (simp add: name_prefix_def)
  then show ?thesis
    using trim_end_dashes_take [of "foldl push_name_char [] cs"]
    by (metis name_prefix_take)
qed

lemma suggested_from_None:
  "suggested_from h = None \<longleftrightarrow>
     (let s = take 63 (trim_end_dashes (foldl push_name_char [] (takeWhile (\<lambda>c. c \<noteq> CHR ''.'') h)))
      in s = [] \<or> s \<in> set RESERVED)"
proof -
  let ?w = "trim_end_dashes (foldl push_name_char [] (takeWhile (\<lambda>c. c \<noteq> CHR ''.'') h))"
  have t: "take (min (length ?w) MAX_LEN) ?w = take 63 ?w"
    by (simp add: MAX_LEN_def min_def)
  have p: "name_prefix (take 63 ?w)" by (rule suggested_text_prefix)
  have v: "valid_name (take 63 ?w) \<longleftrightarrow> take 63 ?w \<noteq> []"
    using p by (auto simp: valid_name_def name_prefix_def)
  have l: "ascii_lowercase (take 63 ?w) = take 63 ?w"
    using p by (simp add: name_prefix_def lowercase_name)
  show ?thesis
    unfolding suggested_from_def Let_def t name_from_str_iff l v
    by (simp add: unreserved_def is_reserved_def)
qed

section \<open>Petnames, device labels and addresses\<close>

datatype petname = Petname (petname_str: string)
datatype device_label = DeviceLabel (label_str: string)

definition petname_from_str :: "string \<Rightarrow> name_error + petname" where
  "petname_from_str text = bindR (name_from_str text) (\<lambda>n. Inr (Petname (name_str n)))"

definition petname_stored :: "string \<Rightarrow> name_error + petname" where
  "petname_stored text = bindR (name_stored text) (\<lambda>n. Inr (Petname (name_str n)))"

definition petname_unreserved :: "petname \<Rightarrow> name_error + petname" where
  "petname_unreserved p = bindR (name_from_str (petname_str p)) (\<lambda>n.
     bindR (unreserved n) (\<lambda>n. Inr (Petname (name_str n))))"

definition label_from_str :: "string \<Rightarrow> name_error + device_label" where
  "label_from_str text = bindR (name_from_str text) (\<lambda>n.
     bindR (unreserved n) (\<lambda>n. Inr (DeviceLabel (name_str n))))"

definition label_stored :: "string \<Rightarrow> name_error + device_label" where
  "label_stored text = bindR (name_stored text) (\<lambda>n.
     bindR (unreserved n) (\<lambda>n. Inr (DeviceLabel (name_str n))))"

definition LABEL_MAX_LEN :: nat where "LABEL_MAX_LEN = MAX_LEN"

definition valid_label :: "device_label \<Rightarrow> bool" where
  "valid_label l \<longleftrightarrow> valid_name (label_str l) \<and> label_str l \<notin> set RESERVED"

lemma label_stored_iff: "label_stored text = Inr l \<longleftrightarrow> valid_label l \<and> text = label_str l"
  by (cases l) (auto simp: label_stored_def bindR_Inr_iff name_stored_iff valid_unreserved_iff
      valid_label_def is_reserved_def)

lemma label_from_str_valid: "label_from_str text = Inr l \<Longrightarrow> valid_label l"
  by (auto simp: label_from_str_def bindR_Inr_iff valid_unreserved_iff valid_label_def
      is_reserved_def dest: name_from_str_valid)

lemma label_from_valid: "valid_label l \<Longrightarrow> label_from_str (label_str l) = Inr l"
  by (cases l) (simp add: label_from_str_def valid_label_def name_from_valid unreserved_def
      is_reserved_def)

lemma label_text: "valid_label l \<Longrightarrow> is_text (label_str l)"
  by (auto simp: valid_label_def valid_name_def intro: ascii_is_text dest: name_char_code)

lemma label_length: "valid_label l \<Longrightarrow> length (label_str l) \<le> 63"
  by (simp add: valid_label_def valid_name_def)

instantiation device_label :: linorder
begin

definition less_eq_device_label :: "device_label \<Rightarrow> device_label \<Rightarrow> bool" where
  "less_eq_device_label a b \<longleftrightarrow> label_str a \<le> label_str b"

definition less_device_label :: "device_label \<Rightarrow> device_label \<Rightarrow> bool" where
  "less_device_label a b \<longleftrightarrow> label_str a < label_str b"

instance
  by standard (auto simp: less_eq_device_label_def less_device_label_def device_label.expand)

end

instantiation petname :: linorder
begin

definition less_eq_petname :: "petname \<Rightarrow> petname \<Rightarrow> bool" where
  "less_eq_petname a b \<longleftrightarrow> petname_str a \<le> petname_str b"

definition less_petname :: "petname \<Rightarrow> petname \<Rightarrow> bool" where
  "less_petname a b \<longleftrightarrow> petname_str a < petname_str b"

instance
  by standard (auto simp: less_eq_petname_def less_petname_def petname.expand)

end

record contact_ref =
  ref_petname :: petname
  ref_device :: "device_label option"

definition ref_person :: "petname \<Rightarrow> contact_ref" where
  "ref_person p = \<lparr>ref_petname = p, ref_device = None\<rparr>"

definition ref_from_str :: "string \<Rightarrow> name_error + contact_ref" where
  "ref_from_str text =
     (case split_once CHR ''/'' text of
        None \<Rightarrow> bindR (petname_from_str text) (\<lambda>p. Inr \<lparr>ref_petname = p, ref_device = None\<rparr>)
      | Some (petname, device) \<Rightarrow>
          bindR (petname_from_str petname) (\<lambda>p.
          bindR (label_from_str device) (\<lambda>d.
          Inr \<lparr>ref_petname = p, ref_device = Some d\<rparr>)))"

definition ref_show :: "contact_ref \<Rightarrow> string" where
  "ref_show r = petname_str (ref_petname r) @
     (case ref_device r of None \<Rightarrow> [] | Some d \<Rightarrow> CHR ''/'' # label_str d)"

definition valid_ref :: "contact_ref \<Rightarrow> bool" where
  "valid_ref r \<longleftrightarrow> valid_name (petname_str (ref_petname r)) \<and>
     (case ref_device r of None \<Rightarrow> True | Some d \<Rightarrow> valid_label d)"

lemma slash_not_in_name: "valid_name s \<Longrightarrow> CHR ''/'' \<notin> set s"
  by (rule valid_name_no) (simp_all add: code_def)

lemma petname_from_valid: "valid_name (petname_str p) \<Longrightarrow> petname_from_str (petname_str p) = Inr p"
  by (cases p) (simp add: petname_from_str_def name_from_valid)

lemma ref_show_parse: "valid_ref r \<Longrightarrow> ref_from_str (ref_show r) = Inr r"
proof (cases "ref_device r")
  case None
  assume "valid_ref r"
  with None show ?thesis
    by (cases r) (simp add: valid_ref_def ref_from_str_def ref_show_def petname_from_valid
        slash_not_in_name split_once_None [THEN iffD2])
next
  case (Some d)
  assume "valid_ref r"
  with Some show ?thesis
    by (cases r) (simp add: valid_ref_def ref_from_str_def ref_show_def petname_from_valid
        slash_not_in_name split_once_append label_from_valid)
qed

lemma ref_from_str_valid: "ref_from_str text = Inr r \<Longrightarrow> valid_ref r"
  by (auto simp: ref_from_str_def valid_ref_def petname_from_str_def bindR_Inr_iff
      split: option.splits) (erule name_from_str_valid label_from_str_valid)+

section \<open>Properties\<close>

text \<open>
  Parsing a typed name folds it to the one stored spelling and nothing else. It succeeds
  exactly when the folded text follows the name rule, the name it returns reads back from
  storage unchanged, and reading stored text never folds: two texts never read as one name.
\<close>

theorem name_one_spelling:
  "(name_from_str text = Inr n \<longleftrightarrow> valid_name (ascii_lowercase text) \<and> n = Name (ascii_lowercase text)) \<and>
   (name_stored text = Inr n \<longleftrightarrow> valid_name text \<and> n = Name text)"
  by (auto simp: name_from_str_iff name_stored_iff)

text \<open>
  The name a machine suggests for itself is always one it may use: for every hostname it
  follows the name rule and is not reserved.
\<close>

theorem suggest_from_usable:
  "valid_name (name_str (suggest_from h)) \<and> \<not> is_reserved (suggest_from h)"
proof (cases "suggested_from h")
  case None
  have "valid_name ''this''" by (simp add: valid_name_def name_char_def ascii_defs code_def)
  then show ?thesis using None by (simp add: suggest_from_def is_reserved_def RESERVED_def)
next
  case (Some n)
  then show ?thesis using suggested_from_valid [OF Some] by (simp add: suggest_from_def)
qed

end
