(* ===== verification/Codec.thy ===== *)
theory Codec
  imports Names
begin

text \<open>
  \<^verbatim>\<open>src/codec.rs\<close>: the field codecs of the root's signed document. The writer's side appends to
  a buffer, the reader's side is a cursor over untrusted bytes; each read checks its bound before
  it takes anything. A field is one interpretation of the locale \<^verbatim>\<open>field_codec\<close>: what is written
  reads back, and whatever reads was written that way. The two laws compose along sequences,
  counts and strictly ascending lists, once for all fields.
\<close>

section \<open>What nauthy provides\<close>

text \<open>
  A key is its 32 bytes and a link its bare text: what \<^verbatim>\<open>VerifyKey::bytes\<close> and
  \<^verbatim>\<open>Link::as_str\<close> give back. The checks of nauthy are arguments, gathered in a record:
  \<open>na_key_error\<close> is \<^verbatim>\<open>VerifyKey::try_new\<close> (\<open>None\<close> for a usable key), \<open>na_link\<close> is
  \<^verbatim>\<open>Link::from_str\<close>, and \<open>na_open\<close> is \<^verbatim>\<open>Signed::decode\<close> and then \<^verbatim>\<open>Signed::verify\<close>
  under a key.
\<close>

datatype verify_key = VerifyKey (key_bytes: bytes)
datatype link = Link (link_str: string)
datatype revocation_id = RevocationId (id_bytes: bytes)

record nauthy =
  na_key_error :: "bytes \<Rightarrow> string option"
  na_link :: "string \<Rightarrow> link option"
  na_open :: "bytes \<Rightarrow> verify_key \<Rightarrow> string + bytes"

text \<open>A key value has been through \<^verbatim>\<open>try_new\<close>, a link value through \<^verbatim>\<open>from_str\<close>.\<close>

definition key_ok :: "nauthy \<Rightarrow> verify_key \<Rightarrow> bool" where
  "key_ok N k \<longleftrightarrow> length (key_bytes k) = 32 \<and> na_key_error N (key_bytes k) = None"

definition link_ok :: "nauthy \<Rightarrow> link \<Rightarrow> bool" where
  "link_ok N l \<longleftrightarrow> is_text (link_str l) \<and> na_link N (link_str l) = Some l"

text \<open>The text a link was parsed from is the text it shows.\<close>

definition links_canonical :: "nauthy \<Rightarrow> bool" where
  "links_canonical N \<longleftrightarrow> (\<forall>t l. na_link N t = Some l \<longrightarrow> link_str l = t)"

section \<open>The bounds\<close>

definition MAX_MEMBERS :: nat where "MAX_MEMBERS = 4096"
definition MAX_REVOKED :: nat where "MAX_REVOKED = 16384"
definition MAX_REVOKED_KEYS :: nat where "MAX_REVOKED_KEYS = 4096"
definition MAX_REVOCATION_ID :: nat where "MAX_REVOCATION_ID = 64"
definition MAX_BADGE :: nat where "MAX_BADGE = 1024"
definition MAX_IDS :: nat where "MAX_IDS = 4"
definition KEY_LEN :: nat where "KEY_LEN = 32"

lemmas bounds_defs [source_consts] = MAX_MEMBERS_def MAX_REVOKED_def MAX_REVOKED_KEYS_def
  MAX_REVOCATION_ID_def MAX_BADGE_def MAX_IDS_def KEY_LEN_def LABEL_MAX_LEN_def MAX_LEN_def

section \<open>The values and errors\<close>

record id =
  expires :: u64
  rid :: revocation_id

record revoked_device =
  rd_node :: verify_key
  rd_label :: device_label

datatype format_error =
    BadMagic
  | Truncated
  | BadLabel string
  | BadStanding
  | BadKey string
  | DuplicateNode verify_key
  | DuplicateLabel device_label
  | NonCanonicalOrder
  | TooLarge string

abbreviation idb :: "id \<Rightarrow> bytes" where
  "idb i \<equiv> id_bytes (rid i)"

abbreviation rdb :: "revoked_device \<Rightarrow> bytes" where
  "rdb d \<equiv> key_bytes (rd_node d)"

section \<open>The checks a built document passes\<close>

definition bound :: "nat \<Rightarrow> nat \<Rightarrow> string \<Rightarrow> format_error + unit" where
  "bound len mx field = (if len > mx then Inl (TooLarge field) else Inr ())"

definition canonicalize :: "('a \<Rightarrow> 'k::linorder) \<Rightarrow> 'a list \<Rightarrow> format_error + 'a list" where
  "canonicalize key items =
     (let items = sort_key key items in
      if adjacent_same key items \<noteq> None then Inl NonCanonicalOrder else Inr items)"

fun check_id_lengths :: "id list \<Rightarrow> format_error + unit" where
  "check_id_lengths [] = Inr ()"
| "check_id_lengths (i # ids) =
     bindR (bound (length (idb i)) MAX_REVOCATION_ID ''revocation id'') (\<lambda>_. check_id_lengths ids)"

definition check_ids :: "id list \<Rightarrow> format_error + id list" where
  "check_ids ids = bindR (check_id_lengths ids) (\<lambda>_. canonicalize idb ids)"

definition check_device :: "id list \<Rightarrow> link \<Rightarrow> format_error + id list" where
  "check_device ids standing =
     bindR (bound (length ids) MAX_IDS ''ids'') (\<lambda>_.
     bindR (check_ids ids) (\<lambda>ids.
     bindR (bound (length (link_str standing)) MAX_BADGE ''standing'') (\<lambda>_.
     Inr ids)))"

definition unique_labels :: "device_label list \<Rightarrow> format_error + unit" where
  "unique_labels labels =
     (case adjacent_same (\<lambda>l. l) (sort labels) of
        Some l \<Rightarrow> Inl (DuplicateLabel l)
      | None \<Rightarrow> Inr ())"

lemma bound_Inr: "bound len mx field = Inr u \<longleftrightarrow> len \<le> mx"
  by (auto simp: bound_def)

lemma canonicalize_Inr:
  "canonicalize key items = Inr xs \<longleftrightarrow> xs = sort_key key items \<and> ascending key xs"
  using adjacent_same_None_iff [of key "sort_key key items"]
  by (auto simp: canonicalize_def Let_def)

lemma check_id_lengths_Inr:
  "check_id_lengths ids = Inr u \<longleftrightarrow> (\<forall>i \<in> set ids. length (idb i) \<le> MAX_REVOCATION_ID)"
  by (induction ids) (auto simp: bindR_Inr_iff bound_Inr)

lemma check_ids_Inr:
  "check_ids ids = Inr xs \<longleftrightarrow>
     (\<forall>i \<in> set ids. length (idb i) \<le> MAX_REVOCATION_ID) \<and> xs = sort_key idb ids \<and> ascending idb xs"
  by (auto simp: check_ids_def bindR_Inr_iff check_id_lengths_Inr canonicalize_Inr)

lemma unique_labels_Inr: "unique_labels labels = Inr u \<longleftrightarrow> distinct labels"
proof -
  have "adjacent_same (\<lambda>l. l) (sort labels) = None \<longleftrightarrow> distinct labels"
    using adjacent_same_None_iff [of "\<lambda>l. l" "sort labels"]
    by (simp add: ascending_iff_sorted_distinct)
  then show ?thesis by (auto simp: unique_labels_def split: option.splits)
qed

section \<open>The writer's side\<close>

text \<open>\<^verbatim>\<open>to_be_bytes\<close> and \<^verbatim>\<open>from_be_bytes\<close>: the \<open>n\<close> lowest bytes, the highest first.\<close>

fun be_bytes :: "nat \<Rightarrow> nat \<Rightarrow> bytes" where
  "be_bytes 0 v = []"
| "be_bytes (Suc n) v = of_nat (v div 256 ^ n) # be_bytes n v"

fun from_be :: "bytes \<Rightarrow> nat" where
  "from_be [] = 0"
| "from_be (b # bs) = unat b * 256 ^ length bs + from_be bs"

definition put_u8 :: "bytes \<Rightarrow> u8 \<Rightarrow> bytes" where
  "put_u8 out v = out @ [v]"

definition put_u16 :: "bytes \<Rightarrow> nat \<Rightarrow> bytes" where
  "put_u16 out v = out @ be_bytes 2 v"

definition put_u32 :: "bytes \<Rightarrow> nat \<Rightarrow> bytes" where
  "put_u32 out v = out @ be_bytes 4 v"

definition put_u64 :: "bytes \<Rightarrow> u64 \<Rightarrow> bytes" where
  "put_u64 out v = out @ be_bytes 8 (unat v)"

definition put_bytes16 :: "bytes \<Rightarrow> bytes \<Rightarrow> bytes" where
  "put_bytes16 out b = put_u16 out (length b) @ b"

definition put_id :: "bytes \<Rightarrow> id \<Rightarrow> bytes" where
  "put_id out i = put_bytes16 (put_u64 out (expires i)) (idb i)"

definition put_ids32 :: "bytes \<Rightarrow> id list \<Rightarrow> bytes" where
  "put_ids32 out ids = foldl put_id (put_u32 out (length ids)) ids"

definition put_revoked_device :: "bytes \<Rightarrow> revoked_device \<Rightarrow> bytes" where
  "put_revoked_device out d =
     put_bytes16 (out @ rdb d) (as_bytes (label_str (rd_label d)))"

definition put_revoked32 :: "bytes \<Rightarrow> revoked_device list \<Rightarrow> bytes" where
  "put_revoked32 out ds = foldl put_revoked_device (put_u32 out (length ds)) ds"

lemma length_be_bytes [simp]: "length (be_bytes n v) = n"
  by (induction n) auto

lemma from_be_be_bytes: "from_be (be_bytes n v) = v mod 256 ^ n"
proof (induction n)
  case (Suc n)
  have "v mod 256 ^ Suc n = (v div 256 ^ n mod 256) * 256 ^ n + v mod 256 ^ n"
    using mod_mult2_eq [of v "256 ^ n" 256] by (simp add: mult.commute)
  then show ?case using Suc by (simp add: unat_of_nat)
qed simp

lemma from_be_less: "from_be bs < 256 ^ length bs"
proof (induction bs)
  case (Cons b bs)
  have "unat b < 256" using unsigned_less [of b, where 'a = nat] by simp
  then have "unat b * 256 ^ length bs + from_be bs < (unat b + 1) * 256 ^ length bs"
    using Cons by simp
  also have "\<dots> \<le> 256 * 256 ^ length bs"
    using \<open>unat b < 256\<close> by (intro mult_right_mono) auto
  finally show ?case by simp
qed simp

lemma be_bytes_shift: "be_bytes n (k * 256 ^ n + v) = be_bytes n v"
proof (induction n arbitrary: k)
  case (Suc n)
  have s: "k * 256 ^ Suc n + v = (k * 256) * 256 ^ n + v" by simp
  have "((k * 256) * 256 ^ n + v) div 256 ^ n = k * 256 + v div 256 ^ n"
    by (rule div_mult_self3) simp
  then have "(of_nat (((k * 256) * 256 ^ n + v) div 256 ^ n) :: u8) = of_nat (v div 256 ^ n)"
    by (simp only: word_of_nat_eq_iff) (simp add: take_bit_eq_mod)
  then show ?case unfolding s using Suc [of "k * 256"] by (simp only: be_bytes.simps)
qed simp

lemma be_bytes_from_be: "be_bytes (length bs) (from_be bs) = bs"
proof (induction bs)
  case (Cons b bs)
  have "from_be bs < 256 ^ length bs" by (rule from_be_less)
  then have "(unat b * 256 ^ length bs + from_be bs) div 256 ^ length bs = unat b" by simp
  then show ?case using Cons be_bytes_shift [of "length bs" "unat b" "from_be bs"] by simp
qed simp

section \<open>The reader's side\<close>

record reader =
  rbytes :: bytes
  rcur :: nat

definition reader_take :: "nat \<Rightarrow> reader \<Rightarrow> format_error + bytes \<times> reader" where
  "reader_take n r =
     (let end = rcur r + n in
      if end \<ge> 2 ^ 64 \<or> end > length (rbytes r) then Inl Truncated
      else Inr (take n (drop (rcur r) (rbytes r)), r\<lparr>rcur := end\<rparr>))"

definition reader_open :: "bytes \<Rightarrow> bytes \<Rightarrow> u8 \<Rightarrow> format_error + reader" where
  "reader_open bs magic version =
     bindR (map_err (\<lambda>_. BadMagic) (reader_take (length magic) \<lparr>rbytes = bs, rcur = 0\<rparr>)) (\<lambda>(head, r).
     bindR (map_err (\<lambda>_. BadMagic) (reader_take 1 r)) (\<lambda>(found, r).
     if head \<noteq> magic \<or> found \<noteq> [version] then Inl BadMagic else Inr r))"

definition reader_finish :: "reader \<Rightarrow> format_error + unit" where
  "reader_finish r = (if rcur r \<noteq> length (rbytes r) then Inl Truncated else Inr ())"

definition get_u8 :: "reader \<Rightarrow> format_error + u8 \<times> reader" where
  "get_u8 r = bindR (reader_take 1 r) (\<lambda>(b, r). Inr (hd b, r))"

definition get_u16 :: "reader \<Rightarrow> format_error + nat \<times> reader" where
  "get_u16 r = bindR (reader_take 2 r) (\<lambda>(b, r). Inr (from_be b, r))"

definition get_u32 :: "reader \<Rightarrow> format_error + nat \<times> reader" where
  "get_u32 r = bindR (reader_take 4 r) (\<lambda>(b, r). Inr (from_be b, r))"

definition get_u64 :: "reader \<Rightarrow> format_error + u64 \<times> reader" where
  "get_u64 r = bindR (reader_take 8 r) (\<lambda>(b, r). Inr (of_nat (from_be b), r))"

definition count32 :: "nat \<Rightarrow> string \<Rightarrow> reader \<Rightarrow> format_error + nat \<times> reader" where
  "count32 mx field r = bindR (get_u32 r) (\<lambda>(count, r).
     bindR (bound count mx field) (\<lambda>_. Inr (count, r)))"

definition get_key :: "nauthy \<Rightarrow> reader \<Rightarrow> format_error + verify_key \<times> reader" where
  "get_key N r = bindR (reader_take KEY_LEN r) (\<lambda>(b, r).
     case na_key_error N b of Some e \<Rightarrow> Inl (BadKey e) | None \<Rightarrow> Inr (VerifyKey b, r))"

definition get_label :: "reader \<Rightarrow> format_error + device_label \<times> reader" where
  "get_label r = bindR (get_u16 r) (\<lambda>(len, r).
     bindR (reader_take len r) (\<lambda>(b, r).
     bindR (ok_or (BadLabel ''not valid UTF-8'') (from_utf8 b)) (\<lambda>text.
     bindR (map_err (\<lambda>_. BadLabel ''not a device name'') (label_stored text)) (\<lambda>l.
     Inr (l, r)))))"

definition get_standing :: "nauthy \<Rightarrow> reader \<Rightarrow> format_error + link \<times> reader" where
  "get_standing N r = bindR (get_u16 r) (\<lambda>(len, r).
     bindR (bound len MAX_BADGE ''standing'') (\<lambda>_.
     bindR (reader_take len r) (\<lambda>(b, r).
     bindR (ok_or BadStanding (from_utf8 b)) (\<lambda>text.
     bindR (ok_or BadStanding (na_link N text)) (\<lambda>l.
     Inr (l, r))))))"

definition get_id :: "reader \<Rightarrow> format_error + id \<times> reader" where
  "get_id r = bindR (get_u64 r) (\<lambda>(e, r).
     bindR (get_u16 r) (\<lambda>(len, r).
     bindR (bound len MAX_REVOCATION_ID ''revocation id'') (\<lambda>_.
     bindR (reader_take len r) (\<lambda>(b, r).
     Inr (\<lparr>expires = e, rid = RevocationId b\<rparr>, r)))))"

text \<open>
  The loop the three list readers share: read an entry's key, refuse it unless it is greater than
  the last entry's, then read the rest of the entry and push it.
\<close>

fun read_ascending ::
  "('h \<Rightarrow> 'k::linorder) \<Rightarrow> ('a \<Rightarrow> 'k) \<Rightarrow> (reader \<Rightarrow> format_error + 'h \<times> reader) \<Rightarrow>
   ('h \<Rightarrow> reader \<Rightarrow> format_error + 'a \<times> reader) \<Rightarrow>
   nat \<Rightarrow> 'a list \<Rightarrow> reader \<Rightarrow> format_error + 'a list \<times> reader" where
  "read_ascending hk ak get_head get_rest 0 items r = Inr (items, r)"
| "read_ascending hk ak get_head get_rest (Suc count) items r =
     bindR (get_head r) (\<lambda>(h, r).
     if items \<noteq> [] \<and> hk h \<le> ak (last items) then Inl NonCanonicalOrder
     else bindR (get_rest h r) (\<lambda>(a, r).
       read_ascending hk ak get_head get_rest count (items @ [a]) r))"

definition get_ids :: "nat \<Rightarrow> reader \<Rightarrow> format_error + id list \<times> reader" where
  "get_ids count r = read_ascending idb idb get_id (\<lambda>i r. Inr (i, r)) count [] r"

definition device_ids :: "reader \<Rightarrow> format_error + id list \<times> reader" where
  "device_ids r = bindR (get_u8 r) (\<lambda>(count, r).
     bindR (bound (unat count) MAX_IDS ''ids'') (\<lambda>_. get_ids (unat count) r))"

definition get_revoked :: "reader \<Rightarrow> format_error + id list \<times> reader" where
  "get_revoked r = bindR (count32 MAX_REVOKED ''revoked ids'' r) (\<lambda>(count, r). get_ids count r)"

definition get_revoked_devices ::
  "nauthy \<Rightarrow> reader \<Rightarrow> format_error + revoked_device list \<times> reader" where
  "get_revoked_devices N r =
     bindR (count32 MAX_REVOKED_KEYS ''revoked devices'' r) (\<lambda>(count, r).
     read_ascending key_bytes rdb (get_key N)
       (\<lambda>node r. bindR (get_label r) (\<lambda>(l, r). Inr (\<lparr>rd_node = node, rd_label = l\<rparr>, r)))
       count [] r)"

section \<open>An instance of the parameters\<close>

text \<open>For the examples: every key is usable, every text a link, and a signature is its signer's key.\<close>

definition example_nauthy :: nauthy where
  "example_nauthy = \<lparr>na_key_error = (\<lambda>_. None), na_link = (\<lambda>t. Some (Link t)),
     na_open = (\<lambda>b k. if take 32 b = key_bytes k then Inr (drop 96 b) else Inl ''not this signer'')\<rparr>"

definition example_key :: "u8 \<Rightarrow> verify_key" where
  "example_key n = VerifyKey (replicate 32 n)"

end
