(* ===== verification/Codec_Laws.thy ===== *)
theory Codec_Laws
  imports Codec
begin

text \<open>
  The contract of one field of the signed document as the locale \<^verbatim>\<open>field_codec\<close>, the two ways
  fields combine (one after the other, and a strictly ascending list), and an interpretation
  for every field of \<^verbatim>\<open>src/codec.rs\<close>.
\<close>

section \<open>What a read consumes\<close>

definition input :: "reader \<Rightarrow> bytes" where
  "input r = drop (rcur r) (rbytes r)"

definition in_range :: "reader \<Rightarrow> bool" where
  "in_range r \<longleftrightarrow> rcur r \<le> length (rbytes r)"

text \<open>A cursor inside a byte slice, whose length is always below \<^verbatim>\<open>usize::MAX\<close>.\<close>

definition wf_reader :: "reader \<Rightarrow> bool" where
  "wf_reader r \<longleftrightarrow> in_range r \<and> length (rbytes r) < 2 ^ 64"

definition consumes :: "reader \<Rightarrow> bytes \<Rightarrow> reader \<Rightarrow> bool" where
  "consumes r bs r' \<longleftrightarrow> in_range r' \<and> input r = bs @ input r' \<and>
     r' = r\<lparr>rcur := rcur r + length bs\<rparr>"

lemma consumes_range: "consumes r bs r' \<Longrightarrow> in_range r'"
  unfolding consumes_def by blast

lemma consumes_wf: "wf_reader r \<Longrightarrow> consumes r bs r' \<Longrightarrow> wf_reader r'"
  by (auto simp: wf_reader_def dest: consumes_range) (simp add: consumes_def)

lemma consumes_unique: "consumes r bs r' \<Longrightarrow> consumes r bs r'' \<Longrightarrow> r'' = r'"
  by (simp add: consumes_def)

lemma consumes_Nil: "in_range r \<Longrightarrow> consumes r [] r"
  by (simp add: consumes_def)

lemma consumes_Nil_eq: "consumes r [] r' \<Longrightarrow> r' = r"
  by (simp add: consumes_def)

lemma consumes_trans: "consumes r a r1 \<Longrightarrow> consumes r1 b r2 \<Longrightarrow> consumes r (a @ b) r2"
  by (auto simp: consumes_def)

lemma consumes_split:
  "consumes r (a @ b) r2 \<Longrightarrow> \<exists>r1. consumes r a r1 \<and> consumes r1 b r2"
proof -
  assume c: "consumes r (a @ b) r2"
  let ?r1 = "r\<lparr>rcur := rcur r + length a\<rparr>"
  have "input ?r1 = drop (length a) (input r)" by (simp add: input_def add.commute)
  with c have "input ?r1 = b @ input r2" by (simp add: consumes_def)
  with c have "consumes r a ?r1 \<and> consumes ?r1 b r2"
    by (auto simp: consumes_def in_range_def)
  then show ?thesis by blast
qed

lemma consumes_input: "consumes r bs r' \<Longrightarrow> input r = bs @ input r'"
  by (simp add: consumes_def)

lemma consumes_exists: "in_range r \<Longrightarrow> input r = bs @ rest \<Longrightarrow> \<exists>r'. consumes r bs r' \<and> input r' = rest"
proof -
  assume r: "in_range r" and i: "input r = bs @ rest"
  let ?r = "r\<lparr>rcur := rcur r + length bs\<rparr>"
  have "input ?r = drop (length bs) (input r)" by (simp add: input_def add.commute)
  then have e: "input ?r = rest" using i by simp
  have "length (input r) = length (rbytes r) - rcur r" by (simp add: input_def)
  then have "in_range ?r" using i r by (simp add: in_range_def)
  then show ?thesis using i e by (auto simp: consumes_def)
qed

lemma take_consumes: "reader_take n r = Inr (b, r') \<Longrightarrow> consumes r b r' \<and> length b = n"
  by (auto simp: reader_take_def Let_def consumes_def input_def in_range_def split: if_splits)
    (metis append_take_drop_id drop_drop add.commute)

lemma consumes_take: "wf_reader r \<Longrightarrow> consumes r b r' \<Longrightarrow> reader_take (length b) r = Inr (b, r')"
proof -
  assume w: "wf_reader r" and c: "consumes r b r'"
  then have "take (length b) (drop (rcur r) (rbytes r)) = b"
    by (metis append_eq_conv_conj consumes_input input_def)
  then show ?thesis using w c
    by (auto simp: reader_take_def Let_def consumes_def wf_reader_def in_range_def)
qed

section \<open>The contract of a field\<close>

text \<open>
  \<open>ok\<close> is what a value must satisfy to be written, \<open>put\<close> appends it and \<open>get\<close> reads it. The two
  laws make the field non-malleable: exactly one byte sequence reads as each value.
\<close>

locale field_codec =
  fixes ok :: "'a \<Rightarrow> bool"
    and put :: "bytes \<Rightarrow> 'a \<Rightarrow> bytes"
    and get :: "reader \<Rightarrow> format_error + 'a \<times> reader"
  assumes put_append: "put out x = out @ put [] x"
    and get_put: "ok x \<Longrightarrow> wf_reader r \<Longrightarrow> consumes r (put [] x) r' \<Longrightarrow> get r = Inr (x, r')"
    and put_get: "in_range r \<Longrightarrow> get r = Inr (x, r') \<Longrightarrow> ok x \<and> consumes r (put [] x) r'"
begin

lemma get_range: "in_range r \<Longrightarrow> get r = Inr (x, r') \<Longrightarrow> in_range r'"
  using put_get consumes_range by blast

text \<open>No written value is a prefix of another: what follows a field cannot change it.\<close>

lemma put_prefix_free:
  assumes "ok x" "ok y" "put [] x @ s = put [] y @ t" "length (put [] x @ s) < 2 ^ 64"
  shows "x = y \<and> s = t"
proof -
  let ?r = "\<lparr>rbytes = put [] x @ s, rcur = 0\<rparr>"
  have w: "wf_reader ?r" using assms(4) by (simp add: wf_reader_def in_range_def)
  then have i: "in_range ?r" by (simp add: wf_reader_def)
  obtain r1 where r1: "consumes ?r (put [] x) r1" "input r1 = s"
    using consumes_exists [OF i, of "put [] x" s] by (auto simp: input_def)
  obtain r2 where r2: "consumes ?r (put [] y) r2" "input r2 = t"
    using consumes_exists [OF i, of "put [] y" t] assms(3) by (auto simp: input_def)
  show ?thesis
    using get_put [OF assms(1) w r1(1)] get_put [OF assms(2) w r2(1)] r1 r2 by auto
qed

lemma put_inject:
  "ok x \<Longrightarrow> ok y \<Longrightarrow> put [] x = put [] y \<Longrightarrow> length (put [] x) < 2 ^ 64 \<Longrightarrow> x = y"
  using put_prefix_free [of x y "[]" "[]"] by simp

lemma foldl_put_append: "foldl put out xs = out @ foldl put [] xs"
proof (induction xs arbitrary: out)
  case (Cons x xs)
  show ?case using Cons [of "put out x"] Cons [of "put [] x"] put_append [of out x] by simp
qed simp

lemma foldl_put_Cons: "foldl put [] (x # xs) = put [] x @ foldl put [] xs"
  using foldl_put_append [of "put [] x" xs] by simp

end

section \<open>One field after another\<close>

text \<open>The second field may depend on the first, as a list depends on its count.\<close>

lemma field_codec_seq:
  assumes a: "field_codec okA putA getA"
    and b: "\<And>x. field_codec (okB x) putB (getB x)"
  shows "field_codec (\<lambda>(x, y). okA x \<and> okB x y) (\<lambda>out (x, y). putB (putA out x) y)
    (\<lambda>r. bindR (getA r) (\<lambda>(x, r). bindR (getB x r) (\<lambda>(y, r). Inr ((x, y), r))))"
proof
  have pA: "\<And>out x. putA out x = out @ putA [] x" by (rule field_codec.put_append [OF a])
  have pB: "\<And>out x. putB out x = out @ putB [] x" by (rule field_codec.put_append [OF b])
  have pAB: "putB (putA out x) y = out @ putA [] x @ putB [] y" for out x y
    by (metis pA pB append_assoc)
  fix out p
  show "(case p of (x, y) \<Rightarrow> putB (putA out x) y) = out @ (case p of (x, y) \<Rightarrow> putB (putA [] x) y)"
    by (cases p) (simp add: pAB)
next
  fix p r r'
  assume o: "case p of (x, y) \<Rightarrow> okA x \<and> okB x y" and w: "wf_reader r"
    and c: "consumes r (case p of (x, y) \<Rightarrow> putB (putA [] x) y) r'"
  obtain x y where p: "p = (x, y)" by (cases p)
  from c have "consumes r (putA [] x @ putB [] y) r'"
    using field_codec.put_append [OF b, of "putA [] x" y] by (simp add: p)
  then obtain r1 where r1: "consumes r (putA [] x) r1" "consumes r1 (putB [] y) r'"
    using consumes_split by blast
  have g1: "getA r = Inr (x, r1)"
    using field_codec.get_put [OF a _ w r1(1)] o p by simp
  have g2: "getB x r1 = Inr (y, r')"
    using field_codec.get_put [OF b _ consumes_wf [OF w r1(1)] r1(2)] o p by simp
  show "bindR (getA r) (\<lambda>(x, r). bindR (getB x r) (\<lambda>(y, r). Inr ((x, y), r))) = Inr (p, r')"
    by (simp add: p g1 g2)
next
  fix r p r'
  assume i: "in_range r"
    and g: "bindR (getA r) (\<lambda>(x, r). bindR (getB x r) (\<lambda>(y, r). Inr ((x, y), r))) = Inr (p, r')"
  then obtain x r1 y where g1: "getA r = Inr (x, r1)" and g2: "getB x r1 = Inr (y, r')"
    and p: "p = (x, y)" by (auto simp: bindR_Inr_iff)
  have 1: "okA x" "consumes r (putA [] x) r1" using field_codec.put_get [OF a i g1] by auto
  have 2: "okB x y" "consumes r1 (putB [] y) r'"
    using field_codec.put_get [OF b consumes_range [OF 1(2)] g2] by auto
  have "putB (putA [] x) y = putA [] x @ putB [] y" by (rule field_codec.put_append [OF b])
  with 1 2 show "(case p of (x, y) \<Rightarrow> okA x \<and> okB x y) \<and>
      consumes r (case p of (x, y) \<Rightarrow> putB (putA [] x) y) r'"
    by (simp add: p consumes_trans)
qed

text \<open>A field read as one value and seen as another (a tuple of fields as a record).\<close>

lemma field_codec_map:
  assumes a: "field_codec ok put get"
    and fg: "\<And>y. okY y \<Longrightarrow> f (g y) = y \<and> ok (g y)"
    and gf: "\<And>x. ok x \<Longrightarrow> g (f x) = x \<and> okY (f x)"
    and putY: "\<And>out y. putY out y = put out (g y)"
    and getY: "\<And>r. getY r = bindR (get r) (\<lambda>(x, r). Inr (f x, r))"
  shows "field_codec okY putY getY"
proof
  show "putY out y = out @ putY [] y" for out y
    unfolding putY by (rule field_codec.put_append [OF a])
next
  fix y r r'
  assume "okY y" "wf_reader r" "consumes r (putY [] y) r'"
  then show "getY r = Inr (y, r')"
    using field_codec.get_put [OF a, of "g y" r r'] fg [of y] by (simp add: putY getY)
next
  fix r y r'
  assume i: "in_range r" and "getY r = Inr (y, r')"
  then obtain x where x: "get r = Inr (x, r')" "y = f x" by (auto simp: getY bindR_Inr_iff)
  then show "okY y \<and> consumes r (putY [] y) r'"
    using field_codec.put_get [OF a i x(1)] gf [of x] by (simp add: putY)
qed

text \<open>A field whose value is checked once it is read.\<close>

lemma field_codec_check:
  assumes a: "field_codec ok put get"
    and chk: "\<And>x. chk x = Inr () \<longleftrightarrow> P x"
  shows "field_codec (\<lambda>x. ok x \<and> P x) put
    (\<lambda>r. bindR (get r) (\<lambda>(x, r). bindR (chk x) (\<lambda>_ :: unit. Inr (x, r))))"
proof
  show "put out x = out @ put [] x" for out x by (rule field_codec.put_append [OF a])
  show "bindR (get r) (\<lambda>(x, r). bindR (chk x) (\<lambda>_. Inr (x, r))) = Inr (x, r')"
    if "ok x \<and> P x" "wf_reader r" "consumes r (put [] x) r'" for x r r'
    using that chk [of x] field_codec.get_put [OF a, of x r r'] by simp
  show "(ok x \<and> P x) \<and> consumes r (put [] x) r'"
    if "in_range r" "bindR (get r) (\<lambda>(x, r). bindR (chk x) (\<lambda>_. Inr (x, r))) = Inr (x, r')" for x r r'
    using that chk [of x] field_codec.put_get [OF a, of r x r'] by (auto simp: bindR_Inr_iff)
qed

section \<open>Strictly ascending lists\<close>

text \<open>
  An entry whose key is read first. The list of \<open>n\<close> of them is a field: only a strictly ascending
  list reads, and a permuted or repeated one is refused.
\<close>

locale ascending_codec =
  entry: field_codec ok put "\<lambda>r. bindR (get_head r) (\<lambda>(h, r). get_rest h r)"
  for ok :: "'a \<Rightarrow> bool" and put :: "bytes \<Rightarrow> 'a \<Rightarrow> bytes"
    and get_head :: "reader \<Rightarrow> format_error + 'h \<times> reader"
    and get_rest :: "'h \<Rightarrow> reader \<Rightarrow> format_error + 'a \<times> reader" +
  fixes hk :: "'h \<Rightarrow> 'k::linorder" and ak :: "'a \<Rightarrow> 'k"
  assumes key_of_head: "get_rest h r = Inr (a, r') \<Longrightarrow> hk h = ak a"
begin

lemma entryE:
  assumes "bindR (get_head r) (\<lambda>(h, r). get_rest h r) = Inr (a, r')"
  obtains h r1 where "get_head r = Inr (h, r1)" "get_rest h r1 = Inr (a, r')" "hk h = ak a"
  using assms key_of_head by (auto simp: bindR_Inr_iff)

lemma read_put:
  "\<forall>x \<in> set xs. ok x \<Longrightarrow> ascending ak (acc @ xs) \<Longrightarrow> wf_reader r \<Longrightarrow>
   consumes r (foldl put [] xs) r' \<Longrightarrow>
   read_ascending hk ak get_head get_rest (length xs) acc r = Inr (acc @ xs, r')"
proof (induction xs arbitrary: acc r)
  case Nil
  then show ?case by (auto dest: consumes_Nil_eq)
next
  case (Cons x xs)
  obtain r1 where r1: "consumes r (put [] x) r1" "consumes r1 (foldl put [] xs) r'"
    using Cons.prems(4) consumes_split entry.foldl_put_Cons [of x xs] by metis
  have "bindR (get_head r) (\<lambda>(h, r). get_rest h r) = Inr (x, r1)"
    using entry.get_put [OF _ Cons.prems(3) r1(1)] Cons.prems(1) by simp
  then obtain h r0 where h: "get_head r = Inr (h, r0)" "get_rest h r0 = Inr (x, r1)" "hk h = ak x"
    by (rule entryE)
  have "acc \<noteq> [] \<Longrightarrow> ak (last acc) < ak x"
    using Cons.prems(2) by (auto simp: ascending_def sorted_wrt_append)
  then have "\<not> (acc \<noteq> [] \<and> hk h \<le> ak (last acc))" using h(3) by auto
  moreover have "read_ascending hk ak get_head get_rest (length xs) (acc @ [x]) r1 = Inr (acc @ x # xs, r')"
    using Cons.IH [of "acc @ [x]" r1] Cons.prems r1 by (auto simp: consumes_wf)
  ultimately show ?case using h by auto
qed

lemma put_read:
  "in_range r \<Longrightarrow> ascending ak acc \<Longrightarrow>
   read_ascending hk ak get_head get_rest n acc r = Inr (ys, r') \<Longrightarrow>
   \<exists>xs. ys = acc @ xs \<and> length xs = n \<and> (\<forall>x \<in> set xs. ok x) \<and> ascending ak ys \<and>
     consumes r (foldl put [] xs) r'"
proof (induction n arbitrary: acc r)
  case 0
  then show ?case by (simp add: consumes_Nil)
next
  case (Suc n)
  from Suc.prems(3) obtain h r0 a r1 where h: "get_head r = Inr (h, r0)" "get_rest h r0 = Inr (a, r1)"
    and g: "acc = [] \<or> ak (last acc) < hk h"
    and l: "read_ascending hk ak get_head get_rest n (acc @ [a]) r1 = Inr (ys, r')"
    by (auto simp: bindR_Inr_iff not_le split: if_splits)
  have e: "bindR (get_head r) (\<lambda>(h, r). get_rest h r) = Inr (a, r1)" using h by simp
  note a = entry.put_get [OF Suc.prems(1) e]
  have "ascending ak (acc @ [a])"
    using Suc.prems(2) g key_of_head [OF h(2)] ascending_last [of ak acc]
    by (cases "acc = []") (force simp: ascending_snoc)+
  then obtain xs where xs: "ys = (acc @ [a]) @ xs" "length xs = n" "\<forall>x \<in> set xs. ok x"
    "ascending ak ys" "consumes r1 (foldl put [] xs) r'"
    using Suc.IH [OF _ _ l] a consumes_range by blast
  then have "consumes r (foldl put [] (a # xs)) r'"
    using a consumes_trans entry.foldl_put_Cons by metis
  with xs a show ?case by (intro exI [of _ "a # xs"]) auto
qed

end

sublocale ascending_codec \<subseteq> list: field_codec
  "\<lambda>xs. length xs = n \<and> ascending ak xs \<and> (\<forall>x \<in> set xs. ok x)" "foldl put"
  "read_ascending hk ak get_head get_rest n []" for n
proof
  show "foldl put out x = out @ foldl put [] x" for out x by (rule entry.foldl_put_append)
next
  fix xs r r'
  assume "length xs = n \<and> ascending ak xs \<and> (\<forall>x \<in> set xs. ok x)" "wf_reader r"
    "consumes r (foldl put [] xs) r'"
  then show "read_ascending hk ak get_head get_rest n [] r = Inr (xs, r')"
    using read_put [of xs "[]" r r'] by auto
next
  fix r xs r'
  assume "in_range r" "read_ascending hk ak get_head get_rest n [] r = Inr (xs, r')"
  then show "(length xs = n \<and> ascending ak xs \<and> (\<forall>x \<in> set xs. ok x)) \<and> consumes r (foldl put [] xs) r'"
    using put_read [of r "[]" n xs r'] by auto
qed


context ascending_codec
begin

lemma list_codec: "field_codec (\<lambda>xs. length xs = n \<and> ascending ak xs \<and> (\<forall>x \<in> set xs. ok x))
    (foldl put) (read_ascending hk ak get_head get_rest n [])"
  by (rule list.field_codec_axioms)

end

section \<open>The fields of a document\<close>

text \<open>A field of a fixed width, taken whole and decoded.\<close>

lemma fixed_codec:
  assumes len: "\<And>x. ok x \<Longrightarrow> length (enc x) = n"
    and dec: "\<And>b x. length b = n \<Longrightarrow> dec b = Inr x \<longleftrightarrow> ok x \<and> enc x = b"
    and put: "\<And>out x. put out x = out @ enc x"
    and get: "\<And>r. get r = bindR (reader_take n r) (\<lambda>(b, r). bindR (dec b) (\<lambda>x. Inr (x, r)))"
  shows "field_codec ok put get"
proof
  show "put out x = out @ put [] x" for out x by (simp add: put)
next
  fix x r r'
  assume o: "ok x" and w: "wf_reader r" and c: "consumes r (put [] x) r'"
  have "reader_take n r = Inr (enc x, r')"
    using consumes_take [OF w, of "enc x" r'] c len [OF o] by (simp add: put)
  moreover have "dec (enc x) = Inr x" using dec len o by blast
  ultimately show "get r = Inr (x, r')" by (simp add: get)
next
  fix r x r'
  assume "in_range r" "get r = Inr (x, r')"
  then obtain b where b: "reader_take n r = Inr (b, r')" "dec b = Inr x"
    by (auto simp: get bindR_Inr_iff)
  then show "ok x \<and> consumes r (put [] x) r'" using take_consumes [OF b(1)] dec by (simp add: put)
qed

lemma from_be_inverse: "length b = n \<Longrightarrow> from_be b = v \<longleftrightarrow> v < 256 ^ n \<and> be_bytes n v = b"
  using be_bytes_from_be [of b] from_be_less [of b] from_be_be_bytes [of n v] by auto

lemma u64_from_be:
  "length b = 8 \<Longrightarrow> (of_nat (from_be b) :: u64) = x \<longleftrightarrow> be_bytes 8 (unat x) = b"
proof -
  assume l: "length b = 8"
  have f: "from_be b < 2 ^ 64" using from_be_less [of b] l by simp
  have "(of_nat (from_be b) :: u64) = x \<longleftrightarrow> from_be b = unat x"
    using f by (auto simp: word_unat_eq_iff unat_of_nat)
  also have "\<dots> \<longleftrightarrow> be_bytes 8 (unat x) = b"
    using from_be_inverse [OF l, of "unat x"] unat_u64_bound [of x] by simp
  finally show ?thesis .
qed

interpretation u8c: field_codec "\<lambda>_. True" put_u8 get_u8
  by (rule fixed_codec [of _ "\<lambda>x. [x]" 1 "\<lambda>b. Inr (hd b)"])
    (auto simp: put_u8_def get_u8_def length_Suc_conv)

interpretation u16c: field_codec "\<lambda>v. v < 65536" put_u16 get_u16
  by (rule fixed_codec [of _ "be_bytes 2" 2 "\<lambda>b. Inr (from_be b)"])
    (auto simp: put_u16_def get_u16_def from_be_inverse)

interpretation u32c: field_codec "\<lambda>v. v < 4294967296" put_u32 get_u32
  by (rule fixed_codec [of _ "be_bytes 4" 4 "\<lambda>b. Inr (from_be b)"])
    (auto simp: put_u32_def get_u32_def from_be_inverse)

interpretation u64c: field_codec "\<lambda>_. True" put_u64 get_u64
  by (rule fixed_codec [of _ "\<lambda>v. be_bytes 8 (unat v)" 8 "\<lambda>b. Inr (of_nat (from_be b))"])
    (auto simp: put_u64_def get_u64_def u64_from_be)

interpretation keyc: field_codec "key_ok N" "\<lambda>out k. out @ key_bytes k" "get_key N" for N
proof (rule fixed_codec [of _ key_bytes KEY_LEN
      "\<lambda>b. case na_key_error N b of Some e \<Rightarrow> Inl (BadKey e) | None \<Rightarrow> Inr (VerifyKey b)"])
  show "get_key N r = bindR (reader_take KEY_LEN r) (\<lambda>(b, r). bindR
      (case na_key_error N b of Some e \<Rightarrow> Inl (BadKey e) | None \<Rightarrow> Inr (VerifyKey b))
      (\<lambda>x. Inr (x, r)))" for r
    by (auto simp: get_key_def bindR_def split: sum.splits option.splits)
qed (auto simp: key_ok_def KEY_LEN_def split: option.splits)

text \<open>A field behind its own 16-bit length: the length is checked, then the bytes are decoded.\<close>

lemma counted_codec:
  assumes dec: "\<And>b x. length b < 65536 \<Longrightarrow> check (length b) = Inr () \<Longrightarrow>
      dec b = Inr x \<longleftrightarrow> ok x \<and> enc x = b"
    and len: "\<And>x. ok x \<Longrightarrow> length (enc x) < 65536 \<and> check (length (enc x)) = Inr ()"
    and put: "\<And>out x. put out x = put_bytes16 out (enc x)"
    and get: "\<And>r. get r = bindR (get_u16 r) (\<lambda>(len, r). bindR (check len) (\<lambda>_ :: unit.
      bindR (reader_take len r) (\<lambda>(b, r). bindR (dec b) (\<lambda>x. Inr (x, r)))))"
  shows "field_codec ok put get"
proof
  show "put out x = out @ put [] x" for out x by (simp add: put put_bytes16_def put_u16_def)
next
  fix x r r'
  assume o: "ok x" and w: "wf_reader r" and c: "consumes r (put [] x) r'"
  let ?e = "enc x"
  from c have "consumes r (put_u16 [] (length ?e) @ ?e) r'" by (simp add: put put_bytes16_def)
  then obtain r1 where r1: "consumes r (put_u16 [] (length ?e)) r1" "consumes r1 ?e r'"
    using consumes_split by blast
  have "get_u16 r = Inr (length ?e, r1)" using u16c.get_put [OF _ w r1(1)] len [OF o] by simp
  moreover have "reader_take (length ?e) r1 = Inr (?e, r')"
    using consumes_take [OF consumes_wf [OF w r1(1)] r1(2)] .
  moreover have "dec ?e = Inr x" using dec len o by blast
  ultimately show "get r = Inr (x, r')" using len [OF o] by (simp add: get)
next
  fix r x r'
  assume i: "in_range r" and "get r = Inr (x, r')"
  then obtain l r1 b where g: "get_u16 r = Inr (l, r1)" "check l = Inr ()"
    "reader_take l r1 = Inr (b, r')" "dec b = Inr x"
    by (auto simp: get bindR_Inr_iff)
  have 1: "l < 65536" "consumes r (put_u16 [] l) r1" using u16c.put_get [OF i g(1)] by auto
  have 2: "consumes r1 b r'" "length b = l" using take_consumes [OF g(3)] by auto
  have "ok x" "enc x = b" using dec [of b x] 1 2 g by auto
  moreover have "consumes r (put_u16 [] l @ b) r'" by (rule consumes_trans [OF 1(2) 2(1)])
  ultimately show "ok x \<and> consumes r (put [] x) r'" using 2 by (simp add: put put_bytes16_def)
qed

interpretation labelc: field_codec valid_label
  "\<lambda>out l. put_bytes16 out (as_bytes (label_str l))" get_label
proof (rule counted_codec [of "\<lambda>_. Inr ()" "\<lambda>b. bindR (ok_or (BadLabel ''not valid UTF-8'') (from_utf8 b))
    (\<lambda>text. map_err (\<lambda>_. BadLabel ''not a device name'') (label_stored text))" valid_label
    "\<lambda>l. as_bytes (label_str l)"])
  show "get_label r = bindR (get_u16 r) (\<lambda>(len, r). bindR (Inr ()) (\<lambda>_.
      bindR (reader_take len r) (\<lambda>(b, r). bindR
      (bindR (ok_or (BadLabel ''not valid UTF-8'') (from_utf8 b))
        (\<lambda>text. map_err (\<lambda>_. BadLabel ''not a device name'') (label_stored text)))
      (\<lambda>x. Inr (x, r)))))" for r
    by (auto simp: get_label_def bindR_def split: sum.splits)
qed (auto simp: bindR_Inr_iff ok_or_Inr_iff map_err_Inr_iff from_utf8_Some label_stored_iff
    label_text dest: label_length)

definition standing_ok :: "nauthy \<Rightarrow> link \<Rightarrow> bool" where
  "standing_ok N l \<longleftrightarrow> link_ok N l \<and> length (link_str l) \<le> MAX_BADGE"

lemma standing_codec:
  assumes c: "links_canonical N"
  shows "field_codec (standing_ok N) (\<lambda>out l. put_bytes16 out (as_bytes (link_str l))) (get_standing N)"
proof (rule counted_codec [of "\<lambda>len. bound len MAX_BADGE ''standing''"
    "\<lambda>b. bindR (ok_or BadStanding (from_utf8 b)) (\<lambda>text. ok_or BadStanding (na_link N text))"
    "standing_ok N" "\<lambda>l. as_bytes (link_str l)"])
  show "get_standing N r = bindR (get_u16 r) (\<lambda>(len, r). bindR (bound len MAX_BADGE ''standing'') (\<lambda>_.
      bindR (reader_take len r) (\<lambda>(b, r). bindR
      (bindR (ok_or BadStanding (from_utf8 b)) (\<lambda>text. ok_or BadStanding (na_link N text)))
      (\<lambda>x. Inr (x, r)))))" for r
    by (auto simp: get_standing_def bindR_def split: sum.splits)
  show "bindR (ok_or BadStanding (from_utf8 b)) (\<lambda>text. ok_or BadStanding (na_link N text)) = Inr x
    \<longleftrightarrow> standing_ok N x \<and> as_bytes (link_str x) = b"
    if "bound (length b) MAX_BADGE ''standing'' = Inr ()" for b x
    using that c by (auto simp: bindR_Inr_iff ok_or_Inr_iff from_utf8_Some standing_ok_def
        link_ok_def bound_Inr links_canonical_def)
qed (auto simp: standing_ok_def bound_Inr MAX_BADGE_def)

definition id_ok :: "id \<Rightarrow> bool" where
  "id_ok i \<longleftrightarrow> length (idb i) \<le> MAX_REVOCATION_ID"

lemma rid_codec:
  "field_codec (\<lambda>i. length (id_bytes i) \<le> MAX_REVOCATION_ID) (\<lambda>out i. put_bytes16 out (id_bytes i))
     (\<lambda>r. bindR (get_u16 r) (\<lambda>(len, r). bindR (bound len MAX_REVOCATION_ID ''revocation id'') (\<lambda>_.
      bindR (reader_take len r) (\<lambda>(b, r). Inr (RevocationId b, r)))))"
  by (rule counted_codec [of "\<lambda>len. bound len MAX_REVOCATION_ID ''revocation id''"
        "\<lambda>b. Inr (RevocationId b)" _ id_bytes])
    (auto simp: bound_Inr MAX_REVOCATION_ID_def)

interpretation idc: field_codec id_ok put_id get_id
  by (rule field_codec_map [OF field_codec_seq [OF u64c.field_codec_axioms rid_codec],
        where f = "\<lambda>(e, i). \<lparr>expires = e, rid = i\<rparr>" and g = "\<lambda>i. (expires i, rid i)"])
    (auto simp: id_ok_def put_id_def get_id_def bindR_def split: sum.splits)

definition device_ok :: "nauthy \<Rightarrow> revoked_device \<Rightarrow> bool" where
  "device_ok N d \<longleftrightarrow> key_ok N (rd_node d) \<and> valid_label (rd_label d)"

interpretation ids: ascending_codec id_ok put_id get_id "\<lambda>i r. Inr (i, r)" idb idb
proof unfold_locales
  have e: "(\<lambda>r. bindR (get_id r) (\<lambda>(h, r). Inr (h, r))) = get_id"
    by (auto simp: bindR_def fun_eq_iff split: sum.splits)
  show "put_id out x = out @ put_id [] x" for out x by (rule idc.put_append)
  show "id_ok x \<Longrightarrow> wf_reader r \<Longrightarrow> consumes r (put_id [] x) r' \<Longrightarrow>
      bindR (get_id r) (\<lambda>(h, r). Inr (h, r)) = Inr (x, r')" for x r r'
    using idc.get_put fun_cong [OF e, of r] by simp
  show "in_range r \<Longrightarrow> bindR (get_id r) (\<lambda>(h, r). Inr (h, r)) = Inr (x, r') \<Longrightarrow>
      id_ok x \<and> consumes r (put_id [] x) r'" for x r r'
    unfolding fun_cong [OF e] by (rule idc.put_get)
qed auto

interpretation devc: field_codec "device_ok N" put_revoked_device
  "\<lambda>r. bindR (get_key N r) (\<lambda>(node, r). bindR (get_label r)
     (\<lambda>(l, r). Inr (\<lparr>rd_node = node, rd_label = l\<rparr>, r)))" for N
  by (rule field_codec_map [OF field_codec_seq [OF keyc.field_codec_axioms labelc.field_codec_axioms],
        where f = "\<lambda>(k, l). \<lparr>rd_node = k, rd_label = l\<rparr>" and g = "\<lambda>d. (rd_node d, rd_label d)"])
    (auto simp: device_ok_def put_revoked_device_def bindR_def split: sum.splits)

interpretation devs: ascending_codec "device_ok N" put_revoked_device "get_key N"
  "\<lambda>node r. bindR (get_label r) (\<lambda>(l, r). Inr (\<lparr>rd_node = node, rd_label = l\<rparr>, r))" key_bytes rdb for N
  by unfold_locales
    (auto simp: bindR_Inr_iff intro: devc.put_append devc.get_put dest: devc.put_get)

section \<open>Counted lists\<close>

definition ids_ok :: "nat \<Rightarrow> id list \<Rightarrow> bool" where
  "ids_ok mx is \<longleftrightarrow> length is \<le> mx \<and> ascending idb is \<and> (\<forall>i \<in> set is. id_ok i)"

definition devices_ok :: "nauthy \<Rightarrow> revoked_device list \<Rightarrow> bool" where
  "devices_ok N ds \<longleftrightarrow> length ds \<le> MAX_REVOKED_KEYS \<and> ascending rdb ds \<and> (\<forall>d \<in> set ds. device_ok N d)"

lemma count_codec:
  assumes c: "field_codec okC putC getC" and l: "\<And>n. field_codec (\<lambda>xs. length xs = n \<and> okL xs) putL (getL n)"
    and mx: "\<And>n. n \<le> mx \<Longrightarrow> okC (cnt n)"
    and cnt: "\<And>v. okC v \<Longrightarrow> v = cnt (nt v)" "\<And>n. n \<le> mx \<Longrightarrow> nt (cnt n) = n"
    and put: "\<And>out xs. put out xs = putL (putC out (cnt (length xs))) xs"
    and get: "\<And>r. get r = bindR (getC r) (\<lambda>(v, r). bindR (bound (nt v) mx field) (\<lambda>_. getL (nt v) r))"
  shows "field_codec (\<lambda>xs. length xs \<le> mx \<and> okL xs) put get"
proof
  have pC: "\<And>out x. putC out x = out @ putC [] x" by (rule field_codec.put_append [OF c])
  have pL: "\<And>out x. putL out x = out @ putL [] x" by (rule field_codec.put_append [OF l])
  have p: "put out xs = out @ putC [] (cnt (length xs)) @ putL [] xs" for out xs
    unfolding put by (metis pC pL append_assoc)
  show "put out xs = out @ put [] xs" for out xs using p [of out] p [of "[]"] by simp
  fix xs r r'
  assume o: "length xs \<le> mx \<and> okL xs" and w: "wf_reader r" and "consumes r (put [] xs) r'"
  then have "consumes r (putC [] (cnt (length xs)) @ putL [] xs) r'" using p [of "[]"] by simp
  then obtain r1 where r1: "consumes r (putC [] (cnt (length xs))) r1" "consumes r1 (putL [] xs) r'"
    using consumes_split by blast
  have "getC r = Inr (cnt (length xs), r1)" using field_codec.get_put [OF c mx w r1(1)] o by simp
  moreover have "getL (length xs) r1 = Inr (xs, r')"
    using field_codec.get_put [OF l _ consumes_wf [OF w r1(1)] r1(2)] o by simp
  moreover have "bound (length xs) mx field = Inr ()" using o by (simp add: bound_Inr)
  ultimately show "get r = Inr (xs, r')" using cnt(2) o by (simp add: get)
next
  have pL: "\<And>out x. putL out x = out @ putL [] x" by (rule field_codec.put_append [OF l])
  fix r xs r'
  assume i: "in_range r" and "get r = Inr (xs, r')"
  then obtain v r1 where g: "getC r = Inr (v, r1)" "nt v \<le> mx" "getL (nt v) r1 = Inr (xs, r')"
    by (auto simp: get bindR_Inr_iff bound_Inr)
  have 1: "okC v" "consumes r (putC [] v) r1" using field_codec.put_get [OF c i g(1)] by auto
  have 2: "length xs = nt v \<and> okL xs" "consumes r1 (putL [] xs) r'"
    using field_codec.put_get [OF l consumes_range [OF 1(2)] g(3)] by auto
  have "v = cnt (length xs)" using cnt(1) [OF 1(1)] 2 by simp
  then show "(length xs \<le> mx \<and> okL xs) \<and> consumes r (put [] xs) r'"
    using consumes_trans [OF 1(2) 2(2)] 2(1) g(2) pL [of "putC [] v" xs] by (simp add: put)
qed

interpretation revokedc: field_codec "ids_ok MAX_REVOKED" put_ids32 get_revoked
proof -
  have "field_codec (\<lambda>xs. length xs \<le> MAX_REVOKED \<and> (ascending idb xs \<and> (\<forall>i \<in> set xs. id_ok i)))
    put_ids32 get_revoked"
    by (rule count_codec [OF u32c.field_codec_axioms ids.list.field_codec_axioms,
          where cnt = "\<lambda>n. n" and nt = "\<lambda>n. n" and field = "''revoked ids''"])
      (auto simp: MAX_REVOKED_def put_ids32_def get_revoked_def count32_def get_ids_def bindR_def
        split: sum.splits)
  then show "field_codec (ids_ok MAX_REVOKED) put_ids32 get_revoked"
    by (simp add: ids_ok_def [abs_def])
qed

interpretation device_idsc: field_codec "ids_ok MAX_IDS"
  "\<lambda>out ids. foldl put_id (put_u8 out (of_nat (length ids))) ids" device_ids
proof -
  have "field_codec (\<lambda>xs. length xs \<le> MAX_IDS \<and> (ascending idb xs \<and> (\<forall>i \<in> set xs. id_ok i)))
    (\<lambda>out ids. foldl put_id (put_u8 out (of_nat (length ids))) ids) device_ids"
    by (rule count_codec [OF u8c.field_codec_axioms ids.list.field_codec_axioms,
          where cnt = "\<lambda>n. of_nat n" and nt = unat and field = "''ids''"])
      (auto simp: MAX_IDS_def device_ids_def get_ids_def unat_of_nat word_unat_eq_iff)
  then show "field_codec (ids_ok MAX_IDS)
      (\<lambda>out ids. foldl put_id (put_u8 out (of_nat (length ids))) ids) device_ids"
    by (simp add: ids_ok_def [abs_def])
qed

interpretation devicesc: field_codec "devices_ok N" put_revoked32 "get_revoked_devices N" for N
proof -
  have "field_codec (\<lambda>xs. length xs \<le> MAX_REVOKED_KEYS \<and> (ascending rdb xs \<and> (\<forall>d \<in> set xs. device_ok N d)))
    put_revoked32 (get_revoked_devices N)"
    by (rule count_codec [OF u32c.field_codec_axioms devs.list.field_codec_axioms,
          where cnt = "\<lambda>n. n" and nt = "\<lambda>n. n" and field = "''revoked devices''"])
      (auto simp: MAX_REVOKED_KEYS_def put_revoked32_def get_revoked_devices_def count32_def bindR_def
        split: sum.splits)
  then show "field_codec (devices_ok N) put_revoked32 (get_revoked_devices N)"
    by (simp add: devices_ok_def [abs_def])
qed

end
