(* ===== verification/Roster.thy ===== *)
theory Roster
  imports Codec_Laws
begin

text \<open>
  \<^verbatim>\<open>src/roster.rs\<close>: the update, the root's signed list of live devices and revocations. Its
  construction, canonical bytes, parser and verification, over the fields of \<^verbatim>\<open>Codec\<close>. The
  lemmas show that every update that builds parses back, that one byte string reads as each
  update, and that the size bound readers apply admits every update that can be written.
\<close>

section \<open>Layout constants\<close>

definition MAGIC :: bytes where "MAGIC = as_bytes ''swoosh-roster''"
definition VERSION :: u8 where "VERSION = 1"
definition HEADER_LEN :: nat where "HEADER_LEN = length MAGIC + 1 + 8 + 4"
definition MAX_ID_LEN :: nat where "MAX_ID_LEN = 8 + 2 + MAX_REVOCATION_ID"
definition MAX_MEMBER_LEN :: nat where
  "MAX_MEMBER_LEN = KEY_LEN + 2 + LABEL_MAX_LEN + 8 + 8 + 8 + 1 + MAX_IDS * MAX_ID_LEN + 2 + MAX_BADGE"
definition MAX_REVOKED_DEVICE_LEN :: nat where
  "MAX_REVOKED_DEVICE_LEN = KEY_LEN + 2 + LABEL_MAX_LEN"
definition SIGNATURE_LEN :: nat where "SIGNATURE_LEN = 64"
definition ENVELOPE_LEN :: nat where "ENVELOPE_LEN = KEY_LEN + SIGNATURE_LEN"
definition MAX_ROSTER_BLOB :: nat where
  "MAX_ROSTER_BLOB = ENVELOPE_LEN + HEADER_LEN + MAX_MEMBERS * MAX_MEMBER_LEN + 4 +
     MAX_REVOKED * MAX_ID_LEN + 4 + MAX_REVOKED_KEYS * MAX_REVOKED_DEVICE_LEN"

lemmas roster_lens = HEADER_LEN_def MAX_ID_LEN_def MAX_MEMBER_LEN_def MAX_REVOKED_DEVICE_LEN_def
  SIGNATURE_LEN_def ENVELOPE_LEN_def MAX_ROSTER_BLOB_def MAGIC_def

section \<open>The update\<close>

record member =
  m_node :: verify_key
  m_label :: device_label
  m_until :: u64
  m_duration :: u64
  m_invite_until :: u64
  m_ids :: "id list"
  m_standing :: link

definition seeded :: "member \<Rightarrow> bool" where
  "seeded m \<longleftrightarrow> m_invite_until m \<noteq> 0"

record roster_doc =
  epoch :: u64
  members :: "member list"
  revoked :: "id list"
  revoked_devices :: "revoked_device list"

definition UNVERSIONED :: u64 where "UNVERSIONED = 0"

abbreviation mkey :: "member \<Rightarrow> bytes" where
  "mkey m \<equiv> key_bytes (m_node m)"

fun check_members :: "member list \<Rightarrow> format_error + member list" where
  "check_members [] = Inr []"
| "check_members (m # ms) =
     bindR (check_device (m_ids m) (m_standing m)) (\<lambda>is.
     bindR (check_members ms) (\<lambda>ms.
     Inr (m\<lparr>m_ids := is\<rparr> # ms)))"

definition with_revocations ::
  "u64 \<Rightarrow> member list \<Rightarrow> id list \<Rightarrow> revoked_device list \<Rightarrow> format_error + roster_doc" where
  "with_revocations e ms rids devs =
     bindR (bound (length ms) MAX_MEMBERS ''members'') (\<lambda>_.
     bindR (bound (length rids) MAX_REVOKED ''revoked ids'') (\<lambda>_.
     bindR (bound (length devs) MAX_REVOKED_KEYS ''revoked devices'') (\<lambda>_.
     bindR (check_members ms) (\<lambda>ms.
     let ms = sort_key mkey ms in
     case adjacent_same m_node ms of
       Some m \<Rightarrow> Inl (DuplicateNode (m_node m))
     | None \<Rightarrow>
         bindR (unique_labels (map m_label ms)) (\<lambda>_.
         bindR (check_ids rids) (\<lambda>rids.
         bindR (canonicalize rdb devs) (\<lambda>devs.
         Inr \<lparr>epoch = e, members = ms, revoked = rids, revoked_devices = devs\<rparr>)))))))"

definition roster_new :: "u64 \<Rightarrow> member list \<Rightarrow> format_error + roster_doc" where
  "roster_new e ms = with_revocations e ms [] []"

definition revoked_keys :: "roster_doc \<Rightarrow> verify_key list" where
  "revoked_keys d = map rd_node (revoked_devices d)"

text \<open>The loop of \<^verbatim>\<open>slice::binary_search_by\<close>, which keeps the range that can hold the key.\<close>

function bin_base :: "('a \<Rightarrow> 'k::linorder) \<Rightarrow> 'a list \<Rightarrow> 'k \<Rightarrow> nat \<Rightarrow> nat \<Rightarrow> nat" where
  "bin_base f xs k base sz =
     (if sz \<le> 1 then base
      else let half = sz div 2; mid = base + half in
        bin_base f xs k (if f (xs ! mid) > k then base else mid) (sz - half))"
  by pat_completeness auto
termination by (relation "measure (\<lambda>(f, xs, k, base, sz). sz)") auto

declare bin_base.simps [simp del]

definition binary_search :: "('a \<Rightarrow> 'k::linorder) \<Rightarrow> 'a list \<Rightarrow> 'k \<Rightarrow> bool" where
  "binary_search f xs k \<longleftrightarrow> xs \<noteq> [] \<and> f (xs ! bin_base f xs k 0 (length xs)) = k"

definition is_revoked_key :: "roster_doc \<Rightarrow> verify_key \<Rightarrow> bool" where
  "is_revoked_key d k = binary_search rdb (revoked_devices d) (key_bytes k)"

section \<open>The canonical bytes\<close>

definition put_member :: "bytes \<Rightarrow> member \<Rightarrow> bytes" where
  "put_member out m =
     (let out = out @ mkey m;
          out = put_bytes16 out (as_bytes (label_str (m_label m)));
          out = put_u64 out (m_until m);
          out = put_u64 out (m_duration m);
          out = put_u64 out (m_invite_until m);
          out = put_u8 out (of_nat (length (m_ids m)));
          out = foldl put_id out (m_ids m)
      in put_bytes16 out (as_bytes (link_str (m_standing m))))"

definition canonical_bytes :: "roster_doc \<Rightarrow> bytes" where
  "canonical_bytes d =
     (let out = MAGIC;
          out = put_u8 out VERSION;
          out = put_u64 out (epoch d);
          out = put_u32 out (length (members d));
          out = foldl put_member out (members d);
          out = put_ids32 out (revoked d)
      in put_revoked32 out (revoked_devices d))"

definition get_member :: "nauthy \<Rightarrow> verify_key \<Rightarrow> reader \<Rightarrow> format_error + member \<times> reader" where
  "get_member N node r =
     bindR (get_label r) (\<lambda>(l, r).
     bindR (get_u64 r) (\<lambda>(u, r).
     bindR (get_u64 r) (\<lambda>(d, r).
     bindR (get_u64 r) (\<lambda>(i, r).
     bindR (device_ids r) (\<lambda>(is, r).
     bindR (get_standing N r) (\<lambda>(s, r).
     Inr (\<lparr>m_node = node, m_label = l, m_until = u, m_duration = d, m_invite_until = i,
           m_ids = is, m_standing = s\<rparr>, r)))))))"

definition get_members :: "nauthy \<Rightarrow> reader \<Rightarrow> format_error + member list \<times> reader" where
  "get_members N r = bindR (count32 MAX_MEMBERS ''members'' r) (\<lambda>(count, r).
     read_ascending key_bytes mkey (get_key N) (get_member N) count [] r)"

definition parse_canonical :: "nauthy \<Rightarrow> bytes \<Rightarrow> format_error + roster_doc" where
  "parse_canonical N bs =
     bindR (reader_open bs MAGIC VERSION) (\<lambda>r.
     bindR (get_u64 r) (\<lambda>(e, r).
     bindR (get_members N r) (\<lambda>(ms, r).
     bindR (unique_labels (map m_label ms)) (\<lambda>_.
     bindR (get_revoked r) (\<lambda>(rids, r).
     bindR (get_revoked_devices N r) (\<lambda>(devs, r).
     bindR (reader_finish r) (\<lambda>_.
     Inr \<lparr>epoch = e, members = ms, revoked = rids, revoked_devices = devs\<rparr>)))))))"

datatype verify_error = Empty | Signature string | Payload format_error

definition roster_verify :: "nauthy \<Rightarrow> bytes \<Rightarrow> verify_key \<Rightarrow> verify_error + roster_doc" where
  "roster_verify N bs signet =
     (if bs = [] then Inl Empty
      else bindR (map_err Signature (na_open N bs signet)) (\<lambda>payload.
        map_err Payload (parse_canonical N payload)))"

section \<open>What every built update satisfies\<close>

definition member_ok :: "nauthy \<Rightarrow> member \<Rightarrow> bool" where
  "member_ok N m \<longleftrightarrow> key_ok N (m_node m) \<and> valid_label (m_label m) \<and> ids_ok MAX_IDS (m_ids m) \<and>
     standing_ok N (m_standing m)"

definition doc_ok :: "nauthy \<Rightarrow> roster_doc \<Rightarrow> bool" where
  "doc_ok N d \<longleftrightarrow>
     length (members d) \<le> MAX_MEMBERS \<and> ascending mkey (members d) \<and>
     (\<forall>m \<in> set (members d). member_ok N m) \<and> distinct (map m_label (members d)) \<and>
     ids_ok MAX_REVOKED (revoked d) \<and> devices_ok N (revoked_devices d)"

text \<open>The values a caller passes are typed: their keys, names and links went through their checks.\<close>

definition member_typed :: "nauthy \<Rightarrow> member \<Rightarrow> bool" where
  "member_typed N m \<longleftrightarrow> key_ok N (m_node m) \<and> valid_label (m_label m) \<and> link_ok N (m_standing m)"

lemma check_device_Inr:
  "check_device is s = Inr js \<longleftrightarrow> js = sort_key idb is \<and> ids_ok MAX_IDS js \<and> length (link_str s) \<le> MAX_BADGE"
  by (auto simp: check_device_def bindR_Inr_iff bound_Inr check_ids_Inr ids_ok_def id_ok_def)

lemma check_members_Inr:
  "check_members ms = Inr ns \<longleftrightarrow>
     ns = map (\<lambda>m. m\<lparr>m_ids := sort_key idb (m_ids m)\<rparr>) ms \<and>
     (\<forall>m \<in> set ns. ids_ok MAX_IDS (m_ids m) \<and> length (link_str (m_standing m)) \<le> MAX_BADGE)"
  by (induction ms arbitrary: ns) (auto simp: bindR_Inr_iff check_device_Inr)

lemma check_members_typed:
  assumes "check_members ms = Inr ns" "\<forall>m \<in> set ms. member_typed N m"
  shows "\<forall>m \<in> set ns. member_ok N m"
  using assms by (auto simp: check_members_Inr member_typed_def member_ok_def standing_ok_def)

lemma m_node_key:
  "adjacent_same m_node (ms :: member list) = None \<longleftrightarrow> adjacent_same mkey ms = None"
  by (induction "m_node :: member \<Rightarrow> verify_key" ms rule: adjacent_same.induct) (auto simp: verify_key.expand)

lemma with_revocations_Inr:
  "with_revocations e ms rids devs = Inr d \<longleftrightarrow>
     (\<exists>ns. check_members ms = Inr ns \<and> length ms \<le> MAX_MEMBERS \<and>
       ids_ok MAX_REVOKED (sort_key idb rids) \<and> length devs \<le> MAX_REVOKED_KEYS \<and>
       ascending mkey (sort_key mkey ns) \<and> distinct (map m_label ns) \<and>
       ascending rdb (sort_key rdb devs) \<and>
       d = \<lparr>epoch = e, members = sort_key mkey ns, revoked = sort_key idb rids,
            revoked_devices = sort_key rdb devs\<rparr>)"
proof -
  have labels: "distinct (map m_label (sort_key mkey ns)) = distinct (map m_label ns)" for ns
    by (simp add: distinct_map)
  have nodes: "adjacent_same m_node (sort_key mkey ns) = None \<longleftrightarrow> ascending mkey (sort_key mkey ns)" for ns
    by (simp add: m_node_key adjacent_same_None_iff)
  show ?thesis
    by (auto simp: with_revocations_def bindR_Inr_iff bound_Inr Let_def unique_labels_Inr
        check_ids_Inr canonicalize_Inr ids_ok_def id_ok_def nodes [symmetric] labels split: option.splits)
qed


section \<open>One byte string per update\<close>

lemma member_rest_codec:
  assumes c: "links_canonical N"
  shows "field_codec (member_ok N) put_member (\<lambda>r. bindR (get_key N r) (\<lambda>(h, r). get_member N h r))"
proof (rule field_codec_map [OF
      field_codec_seq [OF keyc.field_codec_axioms
      field_codec_seq [OF labelc.field_codec_axioms
      field_codec_seq [OF u64c.field_codec_axioms
      field_codec_seq [OF u64c.field_codec_axioms
      field_codec_seq [OF u64c.field_codec_axioms
      field_codec_seq [OF device_idsc.field_codec_axioms standing_codec [OF c]]]]]]],
      where f = "\<lambda>(k, l, u, d, i, is, s). \<lparr>m_node = k, m_label = l, m_until = u, m_duration = d,
        m_invite_until = i, m_ids = is, m_standing = s\<rparr>"
      and g = "\<lambda>m. (m_node m, m_label m, m_until m, m_duration m, m_invite_until m, m_ids m, m_standing m)"])
qed (auto simp: member_ok_def put_member_def get_member_def Let_def bindR_def split: sum.splits)

lemma members_codec: "links_canonical N \<Longrightarrow>
  ascending_codec (member_ok N) put_member (get_key N) (get_member N) key_bytes mkey"
  by (intro ascending_codec.intro ascending_codec_axioms.intro member_rest_codec)
    (auto simp: get_member_def bindR_Inr_iff)

definition put_members :: "bytes \<Rightarrow> member list \<Rightarrow> bytes" where
  "put_members out ms = foldl put_member (put_u32 out (length ms)) ms"

definition members_ok :: "nauthy \<Rightarrow> member list \<Rightarrow> bool" where
  "members_ok N ms \<longleftrightarrow> length ms \<le> MAX_MEMBERS \<and> ascending mkey ms \<and> (\<forall>m \<in> set ms. member_ok N m)"

lemma member_list_codec:
  assumes c: "links_canonical N"
  shows "field_codec (members_ok N) put_members (get_members N)"
proof -
  have l: "field_codec (\<lambda>ms. length ms = n \<and> ascending mkey ms \<and> (\<forall>m \<in> set ms. member_ok N m))
      (foldl put_member) (read_ascending key_bytes mkey (get_key N) (get_member N) n [])" for n
    by (rule ascending_codec.list_codec [OF members_codec [OF c]])
  have "field_codec (\<lambda>ms. length ms \<le> MAX_MEMBERS \<and> (ascending mkey ms \<and> (\<forall>m \<in> set ms. member_ok N m)))
      put_members (get_members N)"
    by (rule count_codec [OF u32c.field_codec_axioms l,
          where cnt = "\<lambda>n. n" and nt = "\<lambda>n. n" and field = "''members''"])
      (auto simp: MAX_MEMBERS_def put_members_def get_members_def count32_def bindR_def split: sum.splits)
  then show ?thesis by (simp add: members_ok_def [abs_def])
qed

text \<open>Everything after the magic and version is one field.\<close>

definition put_doc :: "bytes \<Rightarrow> roster_doc \<Rightarrow> bytes" where
  "put_doc out d = put_revoked32 (put_ids32 (put_members (put_u64 out (epoch d)) (members d))
     (revoked d)) (revoked_devices d)"

definition get_doc :: "nauthy \<Rightarrow> reader \<Rightarrow> format_error + roster_doc \<times> reader" where
  "get_doc N r =
     bindR (get_u64 r) (\<lambda>(e, r).
     bindR (get_members N r) (\<lambda>(ms, r).
     bindR (unique_labels (map m_label ms)) (\<lambda>_.
     bindR (get_revoked r) (\<lambda>(rids, r).
     bindR (get_revoked_devices N r) (\<lambda>(devs, r).
     Inr (\<lparr>epoch = e, members = ms, revoked = rids, revoked_devices = devs\<rparr>, r))))))"

lemma doc_codec:
  assumes c: "links_canonical N"
  shows "field_codec (doc_ok N) put_doc (get_doc N)"
proof (rule field_codec_map [OF
      field_codec_seq [OF u64c.field_codec_axioms
      field_codec_seq [OF field_codec_check [OF member_list_codec [OF c],
          where chk = "\<lambda>ms. unique_labels (map m_label ms)" and P = "\<lambda>ms. distinct (map m_label ms)"]
      field_codec_seq [OF revokedc.field_codec_axioms devicesc.field_codec_axioms]]],
      where f = "\<lambda>(e, ms, rids, devs). \<lparr>epoch = e, members = ms, revoked = rids, revoked_devices = devs\<rparr>"
      and g = "\<lambda>d. (epoch d, members d, revoked d, revoked_devices d)"])
  show "get_doc N r = bindR (bindR (get_u64 r) (\<lambda>(x, r). bindR (bindR (bindR (get_members N r)
      (\<lambda>(x, r). bindR (unique_labels (map m_label x)) (\<lambda>_. Inr (x, r))))
      (\<lambda>(x, r). bindR (bindR (get_revoked r) (\<lambda>(x, r). bindR (get_revoked_devices N r) (\<lambda>(y, r). Inr ((x, y), r))))
      (\<lambda>(y, r). Inr ((x, y), r)))) (\<lambda>(y, r). Inr ((x, y), r))))
      (\<lambda>(x, r). Inr ((case x of (e, ms, rids, devs) \<Rightarrow>
        \<lparr>epoch = e, members = ms, revoked = rids, revoked_devices = devs\<rparr>), r))" for r
    by (auto simp: get_doc_def bindR_def split: sum.splits)
qed (auto simp: doc_ok_def members_ok_def put_doc_def unique_labels_Inr)

lemma canonical_put_doc:
  assumes c: "links_canonical N"
  shows "canonical_bytes d = (MAGIC @ [VERSION]) @ put_doc [] d"
proof -
  have "canonical_bytes d = put_doc (MAGIC @ [VERSION]) d"
    by (simp add: canonical_bytes_def put_doc_def put_members_def put_u8_def Let_def)
  then show ?thesis using field_codec.put_append [OF doc_codec [OF c], of "MAGIC @ [VERSION]"] by simp
qed


section \<open>Sizes\<close>

lemma length_put_bytes16 [simp]: "length (put_bytes16 out b) = length out + 2 + length b"
  by (simp add: put_bytes16_def put_u16_def)

lemma length_puts [simp]:
  "length (put_u8 out v) = length out + 1" "length (put_u64 out w) = length out + 8"
  "length (put_u32 out n) = length out + 4"
  "length (put_id out i) = length out + 10 + length (idb i)"
  by (simp_all add: put_u8_def put_u64_def put_u32_def put_id_def)

lemma length_foldl_put:
  assumes "\<And>out x. x \<in> set xs \<Longrightarrow> length (put out x) \<le> length out + k"
  shows "length (foldl put out xs) \<le> length out + length xs * k"
  using assms
proof (induction xs arbitrary: out)
  case (Cons x xs)
  have "length (put out x) \<le> length out + k" using Cons.prems by simp
  moreover have "length (foldl put (put out x) xs) \<le> length (put out x) + length xs * k"
    using Cons.prems by (intro Cons.IH) simp
  ultimately show ?case by simp
qed simp

lemma length_ids: "ids_ok mx is \<Longrightarrow> length (foldl put_id out is) \<le> length out + mx * MAX_ID_LEN"
proof -
  assume i: "ids_ok mx is"
  have "length (foldl put_id out is) \<le> length out + length is * MAX_ID_LEN"
    using i by (intro length_foldl_put) (auto simp: ids_ok_def id_ok_def MAX_ID_LEN_def)
  moreover have "length is * MAX_ID_LEN \<le> mx * MAX_ID_LEN" using i by (simp add: ids_ok_def)
  ultimately show ?thesis by linarith
qed

lemma length_member: "member_ok N m \<Longrightarrow> length (put_member out m) \<le> length out + MAX_MEMBER_LEN"
proof -
  assume m: "member_ok N m"
  let ?o = "put_u8 (put_u64 (put_u64 (put_u64 (put_bytes16 (out @ mkey m)
    (as_bytes (label_str (m_label m)))) (m_until m)) (m_duration m)) (m_invite_until m))
    (of_nat (length (m_ids m)))"
  have "length (put_member out m) = length (foldl put_id ?o (m_ids m)) + 2 + length (link_str (m_standing m))"
    by (simp add: put_member_def Let_def)
  moreover have "length (foldl put_id ?o (m_ids m)) \<le> length ?o + MAX_IDS * MAX_ID_LEN"
    using m by (intro length_ids) (simp add: member_ok_def)
  moreover have "length ?o \<le> length out + KEY_LEN + 2 + LABEL_MAX_LEN + 8 + 8 + 8 + 1"
    using m label_length [of "m_label m"] by (simp add: member_ok_def key_ok_def KEY_LEN_def LABEL_MAX_LEN_def MAX_LEN_def)
  ultimately show ?thesis using m
    unfolding MAX_MEMBER_LEN_def member_ok_def standing_ok_def by linarith
qed

lemma length_device: "device_ok N v \<Longrightarrow> length (put_revoked_device out v) \<le> length out + MAX_REVOKED_DEVICE_LEN"
  using label_length [of "rd_label v"]
  by (simp add: device_ok_def key_ok_def put_revoked_device_def roster_lens bounds_defs)

lemma canonical_length:
  assumes d: "doc_ok N d"
  shows "ENVELOPE_LEN + length (canonical_bytes d) \<le> MAX_ROSTER_BLOB"
proof -
  let ?h = "put_u32 (put_u64 (put_u8 MAGIC VERSION) (epoch d)) (length (members d))"
  let ?m = "foldl put_member ?h (members d)"
  let ?r = "put_ids32 ?m (revoked d)"
  have h: "length ?h = HEADER_LEN" by (simp add: roster_lens)
  have "length ?m \<le> length ?h + length (members d) * MAX_MEMBER_LEN"
    using d by (intro length_foldl_put length_member) (auto simp: doc_ok_def)
  moreover have "length (members d) * MAX_MEMBER_LEN \<le> MAX_MEMBERS * MAX_MEMBER_LEN"
    using d by (simp add: doc_ok_def)
  moreover have "length ?r \<le> length ?m + 4 + MAX_REVOKED * MAX_ID_LEN"
    using length_ids [of MAX_REVOKED "revoked d" "put_u32 ?m (length (revoked d))"] d
    by (simp add: put_ids32_def doc_ok_def)
  moreover have "length (canonical_bytes d) \<le> length ?r + 4 + length (revoked_devices d) * MAX_REVOKED_DEVICE_LEN"
    using length_foldl_put [of "revoked_devices d" put_revoked_device MAX_REVOKED_DEVICE_LEN
        "put_u32 ?r (length (revoked_devices d))"] length_device [of N] d
    by (simp add: canonical_bytes_def Let_def put_revoked32_def doc_ok_def devices_ok_def)
  moreover have "length (revoked_devices d) * MAX_REVOKED_DEVICE_LEN \<le> MAX_REVOKED_KEYS * MAX_REVOKED_DEVICE_LEN"
    using d by (simp add: doc_ok_def devices_ok_def)
  ultimately show ?thesis using h unfolding MAX_ROSTER_BLOB_def by linarith
qed

lemma MAX_ROSTER_BLOB_value: "MAX_ROSTER_BLOB = 7524482"
  by (simp add: roster_lens bounds_defs as_bytes_def)

section \<open>Parsing\<close>

lemma open_consumes:
  "reader_open bs magic v = Inr r \<Longrightarrow> consumes \<lparr>rbytes = bs, rcur = 0\<rparr> (magic @ [v]) r"
  by (auto simp: reader_open_def bindR_Inr_iff map_err_Inr_iff split: if_splits
      dest!: take_consumes intro: consumes_trans)

lemma consumes_open:
  assumes "length bs < 2 ^ 64" "consumes \<lparr>rbytes = bs, rcur = 0\<rparr> (magic @ [v]) r"
  shows "reader_open bs magic v = Inr r"
proof -
  let ?r = "\<lparr>rbytes = bs, rcur = 0\<rparr>"
  have w: "wf_reader ?r" using assms(1) by (simp add: wf_reader_def in_range_def)
  obtain r1 where r1: "consumes ?r magic r1" "consumes r1 [v] r"
    using consumes_split [OF assms(2)] by blast
  have "reader_take (length magic) ?r = Inr (magic, r1)" by (rule consumes_take [OF w r1(1)])
  moreover have "reader_take 1 r1 = Inr ([v], r)"
    using consumes_take [OF consumes_wf [OF w r1(1)] r1(2)] by simp
  ultimately show ?thesis by (simp add: reader_open_def)
qed

lemma finish_Inr: "in_range r \<Longrightarrow> reader_finish r = Inr u \<longleftrightarrow> input r = []"
  by (auto simp: reader_finish_def input_def in_range_def)

lemma parse_canonical_steps:
  "parse_canonical N bs = bindR (reader_open bs MAGIC VERSION) (\<lambda>r. bindR (get_doc N r)
     (\<lambda>(d, r). bindR (reader_finish r) (\<lambda>_. Inr d)))"
  by (auto simp: parse_canonical_def get_doc_def bindR_def split: sum.splits)

lemma parse_only_canonical:
  assumes c: "links_canonical N" and p: "parse_canonical N bs = Inr d"
  shows "doc_ok N d \<and> bs = canonical_bytes d"
proof -
  from p obtain r1 r2 where s: "reader_open bs MAGIC VERSION = Inr r1" "get_doc N r1 = Inr (d, r2)"
    "reader_finish r2 = Inr ()"
    by (auto simp: parse_canonical_steps bindR_Inr_iff)
  have 1: "consumes \<lparr>rbytes = bs, rcur = 0\<rparr> (MAGIC @ [VERSION]) r1" by (rule open_consumes [OF s(1)])
  have 2: "doc_ok N d" "consumes r1 (put_doc [] d) r2"
    using field_codec.put_get [OF doc_codec [OF c] consumes_range [OF 1] s(2)] by auto
  have "input r2 = []" using s(3) finish_Inr consumes_range [OF 2(2)] by blast
  moreover have "input \<lparr>rbytes = bs, rcur = 0\<rparr> = bs" by (simp add: input_def)
  ultimately have "bs = (MAGIC @ [VERSION]) @ put_doc [] d"
    using consumes_input [OF consumes_trans [OF 1 2(2)]] by simp
  then show ?thesis using 2(1) canonical_put_doc [OF c] by simp
qed

lemma canonical_parses:
  assumes c: "links_canonical N" and d: "doc_ok N d"
  shows "parse_canonical N (canonical_bytes d) = Inr d"
proof -
  let ?r = "\<lparr>rbytes = canonical_bytes d, rcur = 0\<rparr>"
  have l: "length (canonical_bytes d) < 2 ^ 64"
    using canonical_length [OF d] by (simp add: MAX_ROSTER_BLOB_value)
  then have w: "wf_reader ?r" by (simp add: wf_reader_def in_range_def)
  have i: "input ?r = ((MAGIC @ [VERSION]) @ put_doc [] d) @ []"
    by (simp add: input_def canonical_put_doc [OF c])
  obtain r2 where r2: "consumes ?r ((MAGIC @ [VERSION]) @ put_doc [] d) r2" "input r2 = []"
    using consumes_exists [OF _ i] by (auto simp: in_range_def)
  obtain r1 where r1: "consumes ?r (MAGIC @ [VERSION]) r1" "consumes r1 (put_doc [] d) r2"
    using consumes_split [OF r2(1)] by blast
  have "reader_open (canonical_bytes d) MAGIC VERSION = Inr r1" by (rule consumes_open [OF l r1(1)])
  moreover have "get_doc N r1 = Inr (d, r2)"
    by (rule field_codec.get_put [OF doc_codec [OF c] d consumes_wf [OF w r1(1)] r1(2)])
  moreover have "reader_finish r2 = Inr ()"
    using r2(2) finish_Inr [OF consumes_range [OF r1(2)], of "()"] by simp
  ultimately show ?thesis by (simp add: parse_canonical_steps)
qed

lemma with_revocations_ok:
  assumes "\<forall>m \<in> set ms. member_typed N m" "\<forall>v \<in> set devs. device_ok N v"
    "with_revocations e ms rids devs = Inr d"
  shows "doc_ok N d"
proof -
  from assms(3) obtain ns where n: "check_members ms = Inr ns"
    and d: "length ms \<le> MAX_MEMBERS" "ids_ok MAX_REVOKED (sort_key idb rids)"
    "length devs \<le> MAX_REVOKED_KEYS" "ascending mkey (sort_key mkey ns)" "distinct (map m_label ns)"
    "ascending rdb (sort_key rdb devs)"
    "d = \<lparr>epoch = e, members = sort_key mkey ns, revoked = sort_key idb rids,
            revoked_devices = sort_key rdb devs\<rparr>"
    unfolding with_revocations_Inr by blast
  have "length ns = length ms" using n by (simp add: check_members_Inr)
  moreover have "\<forall>m \<in> set ns. member_ok N m" by (rule check_members_typed [OF n assms(1)])
  ultimately show ?thesis using d assms(2)
    by (simp add: doc_ok_def devices_ok_def distinct_map)
qed

section \<open>Looking up a revoked key\<close>

lemma bin_base_range:
  "base + sz \<le> length xs \<Longrightarrow> 0 < sz \<Longrightarrow> bin_base f xs k base sz < length xs"
proof (induction f xs k base sz rule: bin_base.induct)
  case (1 f xs k base sz)
  show ?case
    by (subst bin_base.simps) (use 1 in \<open>auto simp: Let_def not_le\<close>)
qed

lemma bin_base_finds:
  assumes "sorted (map f xs)" "base + sz \<le> length xs" "i < length xs" "f (xs ! i) = k"
    "distinct (map f xs)" "base \<le> i" "i < base + sz"
  shows "bin_base f xs k base sz = i"
  using assms
proof (induction f xs k base sz rule: bin_base.induct)
  case (1 f xs k base sz)
  let ?m = "base + sz div 2"
  show ?case
  proof (cases "sz \<le> 1")
    case True
    then have "base = i" using "1.prems" by linarith
    then show ?thesis using True by (subst bin_base.simps) simp
  next
    case False
    then have m: "?m < length xs" "0 < sz div 2" using "1.prems" by auto
    have le: "i \<le> j \<Longrightarrow> j < length xs \<Longrightarrow> k \<le> f (xs ! j)" for j
      using "1.prems" sorted_nth_mono [of "map f xs" i j] by simp
    have ge: "j \<le> i \<Longrightarrow> f (xs ! j) \<le> k" for j
      using "1.prems" sorted_nth_mono [of "map f xs" j i] by simp
    have "f (xs ! ?m) = k \<Longrightarrow> ?m = i"
      using "1.prems" m nth_eq_iff_index_eq [of "map f xs" ?m i] by auto
    then have eq: "f (xs ! ?m) = k \<Longrightarrow> ?m = i" .
    have gt: "i < ?m" if "f (xs ! ?m) > k"
      using ge [of ?m] that by (meson leD not_le)
    have ngt: "?m \<le> i" if "\<not> f (xs ! ?m) > k"
    proof (rule ccontr)
      assume "\<not> ?m \<le> i"
      then have "i \<le> ?m" "?m \<noteq> i" by simp_all
      then show False using le [OF _ m(1)] eq that by (meson not_less order_antisym)
    qed
    let ?b = "if f (xs ! ?m) > k then base else ?m"
    have "?b \<le> i" "i < ?b + (sz - sz div 2)" "?b + (sz - sz div 2) \<le> length xs"
      using "1.prems" gt ngt m by auto
    then have "bin_base f xs k ?b (sz - sz div 2) = i"
      using "1.IH" [OF False refl refl] "1.prems" by blast
    then show ?thesis using False by (subst bin_base.simps) (simp add: Let_def)
  qed
qed

lemma binary_search_iff: "ascending f xs \<Longrightarrow> binary_search f xs k \<longleftrightarrow> k \<in> f ` set xs"
proof
  assume b: "binary_search f xs k"
  then have "bin_base f xs k 0 (length xs) < length xs"
    by (intro bin_base_range) (auto simp: binary_search_def)
  from nth_mem [OF this] have "f (xs ! bin_base f xs k 0 (length xs)) \<in> f ` set xs" by (rule imageI)
  then show "k \<in> f ` set xs" using b unfolding binary_search_def by metis
next
  assume a: "ascending f xs" and "k \<in> f ` set xs"
  then obtain i where i: "i < length xs" "f (xs ! i) = k" by (metis imageE in_set_conv_nth)
  then have "bin_base f xs k 0 (length xs) = i"
    using a by (intro bin_base_finds) (auto simp: ascending_iff_sorted_distinct)
  then show "binary_search f xs k" using i by (auto simp: binary_search_def)
qed

lemma is_revoked_key_iff: "devices_ok N (revoked_devices d) \<Longrightarrow>
  is_revoked_key d k \<longleftrightarrow> k \<in> set (revoked_keys d)"
proof -
  assume d: "devices_ok N (revoked_devices d)"
  then have "is_revoked_key d k \<longleftrightarrow> key_bytes k \<in> rdb ` set (revoked_devices d)"
    by (simp add: is_revoked_key_def binary_search_iff devices_ok_def)
  also have "\<dots> \<longleftrightarrow> k \<in> set (revoked_keys d)"
    by (auto simp: revoked_keys_def image_iff intro: verify_key.expand)
  finally show ?thesis .
qed


section \<open>Properties\<close>

text \<open>An update of the example instance.\<close>

definition example_member :: member where
  "example_member = \<lparr>m_node = example_key 5, m_label = DeviceLabel ''laptop'', m_until = 900, m_duration = 90,
     m_invite_until = 0, m_ids = [\<lparr>expires = 900, rid = RevocationId [1, 2]\<rparr>], m_standing = Link ''abc''\<rparr>"

definition example_device :: revoked_device where
  "example_device = \<lparr>rd_node = example_key 9, rd_label = DeviceLabel ''phone''\<rparr>"

definition example_update :: roster_doc where
  "example_update = \<lparr>epoch = 3, members = [example_member],
     revoked = [\<lparr>expires = 800, rid = RevocationId [5]\<rparr>], revoked_devices = [example_device]\<rparr>"

lemma example_canonical: "links_canonical example_nauthy"
  by (simp add: links_canonical_def example_nauthy_def)

lemma example_update_ok: "doc_ok example_nauthy example_update"
  by code_simp

lemma example_update_built:
  "with_revocations 3 [example_member] [\<lparr>expires = 800, rid = RevocationId [5]\<rparr>] [example_device] =
   Inr example_update"
  by code_simp


definition example_blob :: bytes where
  "example_blob = replicate 96 7 @ canonical_bytes example_update"

lemma example_blob_opens:
  "na_open example_nauthy example_blob (example_key 7) = Inr (canonical_bytes example_update)"
  by (simp add: example_nauthy_def example_key_def example_blob_def)

lemma example_blob_verifies: "roster_verify example_nauthy example_blob (example_key 7) = Inr example_update"
  using example_blob_opens canonical_parses [OF example_canonical example_update_ok]
  by (simp add: roster_verify_def example_blob_def)

lemma example_blob_fits: "length example_blob \<le> MAX_ROSTER_BLOB"
  using canonical_length [OF example_update_ok] by (simp add: example_blob_def roster_lens bounds_defs)

text \<open>
  C1: One byte string per update. A byte string parses as an update exactly when the update meets
  every bound and order of the format and the bytes are its canonical encoding: the encoder and
  parser are inverse, and no second encoding of the same update is accepted.
\<close>
theorem update_one_encoding:
  assumes "links_canonical N"
  shows "parse_canonical N bs = Inr d \<longleftrightarrow> doc_ok N d \<and> bs = canonical_bytes d"
  using parse_only_canonical [OF assms] canonical_parses [OF assms] by blast

theorem update_one_encoding_witness:
  "parse_canonical example_nauthy (canonical_bytes example_update) = Inr example_update"
  using update_one_encoding [OF example_canonical, of "canonical_bytes example_update" example_update]
    example_update_ok by simp

text \<open>A member given with its ids out of order, and as the update keeps it.\<close>

definition example_given :: member where
  "example_given = example_member\<lparr>m_ids :=
     [\<lparr>expires = 950, rid = RevocationId [3]\<rparr>, \<lparr>expires = 900, rid = RevocationId [1, 2]\<rparr>]\<rparr>"

definition example_sorted :: member where
  "example_sorted = example_member\<lparr>m_ids :=
     [\<lparr>expires = 900, rid = RevocationId [1, 2]\<rparr>, \<lparr>expires = 950, rid = RevocationId [3]\<rparr>]\<rparr>"

lemma example_given_sorts: "example_given\<lparr>m_ids := sort_key idb (m_ids example_given)\<rparr> = example_sorted"
  by (simp add: example_given_def example_sorted_def example_member_def)

definition example_built :: roster_doc where
  "example_built = example_update\<lparr>members := [example_sorted]\<rparr>"

lemma example_given_built:
  "with_revocations 3 [example_given] [\<lparr>expires = 800, rid = RevocationId [5]\<rparr>] [example_device] =
   Inr example_built"
proof -
  have "check_members [example_given] = Inr [example_sorted]"
    unfolding check_members_Inr using example_given_sorts
    by (simp add: example_sorted_def example_member_def ids_ok_def id_ok_def MAX_IDS_def MAX_REVOCATION_ID_def
        MAX_BADGE_def ascending_def)
  then show ?thesis
    unfolding with_revocations_Inr
    by (intro exI [of _ "[example_sorted]"])
      (simp add: example_built_def example_update_def ids_ok_def id_ok_def bounds_defs ascending_def)
qed

text \<open>
  C3: Every update that builds parses back as itself and fits the cap readers put on a blob, and
  building changes nothing it was given but the order: its epoch is the one given; its members are those
  given, each with every field as given and the ids of its badges put in order, none added and none
  dropped; and the revoked ids and the revoked devices are those given, as many as were given.
\<close>
theorem built_update_parses:
  assumes "links_canonical N" "\<forall>m \<in> set ms. member_typed N m" "\<forall>v \<in> set devs. device_ok N v"
    and "with_revocations e ms rids devs = Inr d"
  shows "parse_canonical N (canonical_bytes d) = Inr d \<and> epoch d = e \<and>
     ENVELOPE_LEN + length (canonical_bytes d) \<le> MAX_ROSTER_BLOB \<and>
     set (members d) = (\<lambda>m. m\<lparr>m_ids := sort_key idb (m_ids m)\<rparr>) ` set ms \<and> length (members d) = length ms \<and>
     set (revoked d) = set rids \<and> length (revoked d) = length rids \<and>
     set (revoked_devices d) = set devs \<and> length (revoked_devices d) = length devs"
proof -
  have "doc_ok N d" by (rule with_revocations_ok [OF assms(2-4)])
  then show ?thesis
    using assms(4) canonical_parses [OF assms(1)] canonical_length
    by (auto simp: with_revocations_Inr check_members_Inr)
qed

theorem built_update_parses_witness:
  "with_revocations 3 [example_given] [\<lparr>expires = 800, rid = RevocationId [5]\<rparr>] [example_device] = Inr example_built \<and>
     parse_canonical example_nauthy (canonical_bytes example_built) = Inr example_built \<and>
     set (members example_built) = {example_sorted} \<and>
     ENVELOPE_LEN + length (canonical_bytes example_built) \<le> MAX_ROSTER_BLOB"
proof -
  have m: "member_typed example_nauthy example_member" and d: "device_ok example_nauthy example_device"
    using example_update_ok
    by (auto simp: doc_ok_def example_update_def member_ok_def member_typed_def standing_ok_def devices_ok_def)
  have "\<forall>m \<in> set [example_given]. member_typed example_nauthy m"
    using m by (simp add: member_typed_def example_given_def)
  moreover have "\<forall>v \<in> set [example_device]. device_ok example_nauthy v" using d by simp
  ultimately show ?thesis
    using built_update_parses [OF example_canonical _ _ example_given_built] example_given_built
    unfolding list.set image_insert image_empty example_given_sorts by blast
qed

text \<open>
  C2: What verification lets through. An update is accepted under a signet exactly when the blob is
  not empty, its envelope opens under that signet, and the payload it holds is the canonical encoding
  of that update: no blob is verified and another one parsed.
\<close>
theorem verify_exactly_signed:
  assumes "links_canonical N"
  shows "roster_verify N bs signet = Inr d \<longleftrightarrow>
     bs \<noteq> [] \<and> na_open N bs signet = Inr (canonical_bytes d) \<and> doc_ok N d"
  using parse_only_canonical [OF assms] canonical_parses [OF assms]
  by (auto simp: roster_verify_def bindR_Inr_iff map_err_Inr_iff)

theorem verify_exactly_signed_witness:
  "roster_verify example_nauthy example_blob (example_key 7) = Inr example_update"
  using verify_exactly_signed [OF example_canonical, of example_blob "example_key 7" example_update]
    example_blob_opens example_update_ok by (simp add: example_blob_def)

text \<open>
  The binary search for a revoked key is a membership test on every update that parsed: it
  finds each revoked device and no other key.
\<close>
theorem revoked_key_lookup:
  assumes "links_canonical N" "parse_canonical N bs = Inr d"
  shows "is_revoked_key d k \<longleftrightarrow> k \<in> rd_node ` set (revoked_devices d)"
  using is_revoked_key_iff parse_only_canonical [OF assms]
  by (auto simp: doc_ok_def revoked_keys_def)

theorem revoked_key_lookup_witness:
  "is_revoked_key example_update (example_key 9)"
proof -
  have "parse_canonical example_nauthy (canonical_bytes example_update) = Inr example_update"
    by (rule canonical_parses [OF example_canonical example_update_ok])
  from revoked_key_lookup [OF example_canonical this, of "example_key 9"] show ?thesis
    by (simp add: example_update_def example_device_def)
qed

end
