(* ===== verification/Scheme.thy ===== *)
theory Scheme
  imports Names
begin

text \<open>
  \<^verbatim>\<open>src/serve/scheme.rs\<close>: what a \<^verbatim>\<open>serve\<close> entry's target names, and whether a link made while its
  name served one target may reach the target bound under that name now.
\<close>

section \<open>Schemes\<close>

datatype scheme =
  Ping | Speed | Sshd | Recv | Proxy | Tcp | Unix | File | Fifo | Stdin | Echo

definition ALL_SCHEMES :: "scheme list" where
  "ALL_SCHEMES = [Ping, Speed, Sshd, Recv, Proxy, Tcp, Unix, File, Fifo, Stdin, Echo]"

fun scheme_str :: "scheme \<Rightarrow> string" where
  "scheme_str Ping = ''ping''"
| "scheme_str Speed = ''speed''"
| "scheme_str Sshd = ''sshd''"
| "scheme_str Recv = ''recv''"
| "scheme_str Proxy = ''proxy''"
| "scheme_str Tcp = ''tcp''"
| "scheme_str Unix = ''unix''"
| "scheme_str File = ''file''"
| "scheme_str Fifo = ''fifo''"
| "scheme_str Stdin = ''stdin''"
| "scheme_str Echo = ''echo''"

definition scheme_named :: "string \<Rightarrow> scheme option" where
  "scheme_named text = find (\<lambda>s. scheme_str s = text) ALL_SCHEMES"

definition scheme_parse :: "string \<Rightarrow> (scheme \<times> string) option" where
  "scheme_parse target =
     (case split_once (CHR '':'') target of
        None \<Rightarrow> None
      | Some (sch, argument) \<Rightarrow> map_option (\<lambda>s. (s, argument)) (scheme_named sch))"

fun runs_code :: "scheme \<Rightarrow> bool" where
  "runs_code Sshd = True"
| "runs_code _ = False"

fun never_public :: "scheme \<Rightarrow> string \<Rightarrow> bool" where
  "never_public Sshd _ = True"
| "never_public Ping _ = True"
| "never_public Speed _ = True"
| "never_public Recv _ = True"
| "never_public Proxy argument = (argument = [])"
| "never_public _ _ = False"

lemma scheme_named_str [simp]: "scheme_named (scheme_str s) = Some s"
  by (cases s) (simp_all add: scheme_named_def ALL_SCHEMES_def)

lemma scheme_named_Some: "scheme_named text = Some s \<longleftrightarrow> text = scheme_str s"
proof
  assume "scheme_named text = Some s"
  then show "text = scheme_str s" by (auto simp: scheme_named_def find_Some_iff)
qed simp

lemma scheme_str_no_colon: "CHR '':'' \<notin> set (scheme_str s)"
  by (cases s) simp_all

lemma scheme_parse_Some: "scheme_parse target = Some (s, a) \<longleftrightarrow> target = scheme_str s @ CHR '':'' # a"
proof
  assume "scheme_parse target = Some (s, a)"
  then obtain p where "split_once (CHR '':'') target = Some (p, a)" "p = scheme_str s"
    by (auto simp: scheme_parse_def scheme_named_Some split: option.splits)
  then show "target = scheme_str s @ CHR '':'' # a" by (simp add: split_once_Some)
next
  assume "target = scheme_str s @ CHR '':'' # a"
  then show "scheme_parse target = Some (s, a)"
    using split_once_append [OF scheme_str_no_colon, of s a] by (simp add: scheme_parse_def)
qed

lemma runs_code_never_public: "runs_code s \<Longrightarrow> never_public s a"
  by (cases s) auto

section \<open>Targets\<close>

record served_target =
  st_scheme :: scheme
  st_text :: string

definition st_runs_code :: "served_target \<Rightarrow> bool" where
  "st_runs_code t = runs_code (st_scheme t)"

definition st_argument :: "served_target \<Rightarrow> string" where
  "st_argument t = (case split_once (CHR '':'') (st_text t) of None \<Rightarrow> [] | Some (_, argument) \<Rightarrow> argument)"

definition st_never_public :: "served_target \<Rightarrow> bool" where
  "st_never_public t = never_public (st_scheme t) (st_argument t)"

datatype not_a_target = NotATarget string

definition target_from_str :: "string \<Rightarrow> not_a_target + served_target" where
  "target_from_str text =
     (case scheme_parse text of
        None \<Rightarrow> Inl (NotATarget text)
      | Some (sch, _) \<Rightarrow>
          if has_control text then Inl (NotATarget text)
          else Inr \<lparr>st_scheme = sch, st_text = text\<rparr>)"

definition admits_made_for :: "served_target \<Rightarrow> served_target option \<Rightarrow> bool" where
  "admits_made_for t made_for =
     (case made_for of Some m \<Rightarrow> m = t | None \<Rightarrow> \<not> st_never_public t)"

text \<open>A target value is one that parsed.\<close>

definition valid_target :: "served_target \<Rightarrow> bool" where
  "valid_target t \<longleftrightarrow> target_from_str (st_text t) = Inr t"

lemma target_from_str_text: "target_from_str text = Inr t \<Longrightarrow> st_text t = text"
  by (auto simp: target_from_str_def split: option.splits if_splits)

lemma target_from_str_valid: "target_from_str text = Inr t \<longleftrightarrow> valid_target t \<and> text = st_text t"
  using target_from_str_text by (auto simp: valid_target_def)

lemma valid_target_text:
  assumes "valid_target t"
  shows "CHR '':'' \<in> set (st_text t) \<and> \<not> has_control (st_text t)"
proof -
  from assms have p: "scheme_parse (st_text t) \<noteq> None" "\<not> has_control (st_text t)"
    by (auto simp: valid_target_def target_from_str_def split: option.splits if_splits)
  then have "split_once (CHR '':'') (st_text t) \<noteq> None"
    by (auto simp: scheme_parse_def split: option.splits)
  with p show ?thesis by (simp add: split_once_None)
qed

section \<open>What a run bound under its names\<close>

text \<open>\<^verbatim>\<open>HashMap<String, Option<ServedTarget>>\<close>, collected from the entries: the last entry of a name wins.\<close>

type_synonym bound_targets = "string \<Rightarrow> served_target option option"

definition bound_entry :: "string \<Rightarrow> (string \<times> served_target option) option" where
  "bound_entry entry =
     (case split_once (CHR ''='') entry of
        None \<Rightarrow> None
      | Some (name, target) \<Rightarrow> Some (name, ok_opt (target_from_str target)))"

definition bound_of :: "string list \<Rightarrow> bound_targets" where
  "bound_of entries = map_of (rev (List.map_filter bound_entry entries))"

definition bound_admits :: "bound_targets \<Rightarrow> string \<Rightarrow> served_target option \<Rightarrow> bool" where
  "bound_admits by_name serv made_for =
     (case by_name serv of
        None \<Rightarrow> True
      | Some (Some t) \<Rightarrow> admits_made_for t made_for
      | Some None \<Rightarrow> False)"

lemma bound_of_snoc: "bound_of (es @ [e]) =
  (case bound_entry e of None \<Rightarrow> bound_of es | Some (n, t) \<Rightarrow> (bound_of es)(n \<mapsto> t))"
  by (auto simp: bound_of_def map_filter_def split: option.splits)

lemma bound_of_unnamed: "\<forall>e \<in> set es. map_option fst (bound_entry e) \<noteq> Some n \<Longrightarrow> bound_of es n = None"
  by (induction es rule: rev_induct) (auto simp: bound_of_snoc bound_of_def map_filter_def split: option.splits)

lemma bound_of_last:
  assumes "bound_entry e = Some (n, t)" "\<forall>p \<in> set post. map_option fst (bound_entry p) \<noteq> Some n"
  shows "bound_of (pre @ e # post) n = Some t"
  using assms(2)
proof (induction post rule: rev_induct)
  case Nil
  then show ?case using assms(1) by (simp add: bound_of_snoc)
next
  case (snoc p post)
  have "bound_of (pre @ e # post @ [p]) = bound_of ((pre @ e # post) @ [p])" by simp
  then show ?case using snoc by (auto simp: bound_of_snoc simp del: append_assoc split: option.splits)
qed

section \<open>Properties\<close>

text \<open>
  A link reaches only the target it was made for. When the last entry that binds a name binds it
  to a target, a link to that name is admitted exactly when the target is one a link can record and
  the link was made for that very target, or was made while the name served nothing and the engine
  may face anyone. So rebinding a name never takes its old links along, and an engine that must never
  face an open gate takes no link made before the name served it.
\<close>
theorem link_reaches_own_target:
  assumes "bound_entry e = Some (serv, bound)"
    and "\<forall>p \<in> set post. map_option fst (bound_entry p) \<noteq> Some serv"
  shows "bound_admits (bound_of (pre @ e # post)) serv made_for \<longleftrightarrow>
     (\<exists>t. bound = Some t \<and> (made_for = Some t \<or> made_for = None \<and> \<not> st_never_public t))"
  using bound_of_last [OF assms, of pre]
  by (auto simp: bound_admits_def admits_made_for_def split: option.splits)

theorem link_reaches_own_target_witness:
  "\<not> bound_admits (bound_of [''web=tcp:localhost:80'', ''web=sshd:'']) ''web''
     (Some \<lparr>st_scheme = Tcp, st_text = ''tcp:localhost:80''\<rparr>)"
proof -
  have e: "bound_entry ''web=sshd:'' = Some (''web'', Some \<lparr>st_scheme = Sshd, st_text = ''sshd:''\<rparr>)"
    by code_simp
  show ?thesis
    using link_reaches_own_target [OF e, of "[]" "[''web=tcp:localhost:80'']"
        "Some \<lparr>st_scheme = Tcp, st_text = ''tcp:localhost:80''\<rparr>"] by simp
qed

text \<open>
  Every scheme is parsed from the one text it is spelled as and from no other, so what an engine
  may face is decided by the scheme the entry names; and an engine that runs what a caller sends
  never faces an open gate.
\<close>
theorem scheme_one_text:
  "(scheme_parse target = Some (s, a) \<longleftrightarrow> target = scheme_str s @ CHR '':'' # a) \<and>
   \<not> (runs_code s \<and> \<not> never_public s a)"
  using runs_code_never_public [of s a] scheme_parse_Some by blast

end
