(* ===== verification/Files.thy ===== *)
theory Files
  imports Rust_Str
begin

text \<open>
  What the program observes of the world: the clock and a trust file. A \<^verbatim>\<open>SystemTime\<close> is its
  nanoseconds since the epoch, negative before it; reading a trust file gives its text, that there
  is none, or an error. The lemmas are the laws of \<^verbatim>\<open>str::lines\<close> the line-by-line files rely on.
\<close>

section \<open>The clock\<close>

type_synonym systime = int

definition NANOS :: int where "NANOS = 1000000000"

text \<open>\<^verbatim>\<open>duration_since(UNIX_EPOCH)\<close> in whole seconds, where the clock is not before the epoch.\<close>

definition since_epoch :: "systime \<Rightarrow> u64 option" where
  "since_epoch t = (if t < 0 then None else Some (of_int (t div NANOS)))"

text \<open>\<^verbatim>\<open>UNIX_EPOCH.checked_add(Duration::from_secs(secs))\<close>: a \<^verbatim>\<open>SystemTime\<close> holds its seconds as \<^verbatim>\<open>i64\<close>.\<close>

definition epoch_plus :: "u64 \<Rightarrow> systime option" where
  "epoch_plus secs = (if uint secs < 2 ^ 63 then Some (uint secs * NANOS) else None)"

definition systime_ok :: "systime \<Rightarrow> bool" where
  "systime_ok t \<longleftrightarrow> - (2 ^ 63) * NANOS \<le> t \<and> t < 2 ^ 63 * NANOS"

lemma epoch_plus_since: "epoch_plus secs = Some t \<Longrightarrow> since_epoch t = Some secs"
  by (auto simp: epoch_plus_def since_epoch_def NANOS_def split: if_splits)

lemma since_epoch_plus:
  "systime_ok t \<Longrightarrow> 0 \<le> t \<Longrightarrow> epoch_plus (of_int (t div NANOS)) = Some (t div NANOS * NANOS)"
  by (auto simp: epoch_plus_def systime_ok_def NANOS_def uint_word_of_int)

section \<open>Trust files\<close>

datatype file_read = Missing | Unreadable string | Contents string

section \<open>Lines\<close>

lemma split_on_append_last:
  "split_on c (s @ t) = butlast (split_on c s) @
     (case split_on c t of [] \<Rightarrow> [] | p # ps \<Rightarrow> (last (split_on c s) @ p) # ps)"
proof (induction s)
  case Nil
  then show ?case by (cases "split_on c t") auto
next
  case (Cons d s)
  obtain p ps where s: "split_on c s = p # ps" by (cases "split_on c s") auto
  obtain q qs where t: "split_on c t = q # qs" by (cases "split_on c t") auto
  show ?case using Cons by (cases ps) (auto simp: s t)
qed

lemma split_on_last_Nil: "last (split_on c s) = [] \<longleftrightarrow> s = [] \<or> last s = c"
proof (induction s rule: rev_induct)
  case (snoc d s)
  show ?case by (simp add: split_on_append_last)
qed simp

definition ends_line :: "string \<Rightarrow> bool" where
  "ends_line s \<longleftrightarrow> s = [] \<or> last s = newline"

lemma lines_append_ended: "ends_line s \<Longrightarrow> lines (s @ t) = lines s @ lines t"
proof -
  assume "ends_line s"
  then have e: "last (split_on newline s) = []" by (simp add: split_on_last_Nil ends_line_def)
  obtain q qs where t: "split_on newline t = q # qs" by (cases "split_on newline t") auto
  show ?thesis using e by (auto simp: lines_def Let_def split_on_append_last t butlast_append)
qed

lemma lines_line: "newline \<notin> set l \<Longrightarrow> lines (l @ [newline]) = [strip_cr l]"
  using lines_append [of l "[]"] by simp

text \<open>Ending a last line that has no newline changes its trimmed text in nothing.\<close>

lemma lines_end_line:
  "\<not> ends_line s \<Longrightarrow> \<exists>ls l. lines s = ls @ [l] \<and> lines (s @ [newline]) = ls @ [strip_cr l]"
proof -
  assume "\<not> ends_line s"
  then have e: "last (split_on newline s) \<noteq> []" by (simp add: split_on_last_Nil ends_line_def)
  let ?p = "split_on newline s"
  have a: "split_on newline (s @ [newline]) = butlast ?p @ [last ?p, []]"
    by (simp add: split_on_append_last)
  have "lines s = map strip_cr (butlast ?p) @ [last ?p]" using e by (simp add: lines_def Let_def)
  moreover have "lines (s @ [newline]) = map strip_cr (butlast ?p) @ [strip_cr (last ?p)]"
    unfolding lines_def Let_def a by (simp add: butlast_append del: append_butlast_last_id)
  ultimately show ?thesis by blast
qed

text \<open>A carriage return at the end of a line is whitespace, so trimming drops it.\<close>

lemma whitespace_carriage: "w \<in> set whitespace \<Longrightarrow> carriage \<in> set w \<longleftrightarrow> w = [carriage]"
proof -
  have "\<forall>w \<in> set whitespace. carriage \<in> set w \<longleftrightarrow> w = [carriage]" by code_simp
  then show "w \<in> set whitespace \<Longrightarrow> carriage \<in> set w \<longleftrightarrow> w = [carriage]" by blast
qed

lemma carriage_whitespace: "[carriage] \<in> set whitespace"
proof -
  have "carriage = char_of (13 :: nat)" by code_simp
  then show ?thesis by (simp add: whitespace_def)
qed

lemma strip_front_carriage:
  "l \<noteq> [] \<Longrightarrow> strip_front (l @ [carriage]) = map_option (\<lambda>t. t @ [carriage]) (strip_front l)"
proof -
  assume l: "l \<noteq> []"
  have e: "take (length w) (l @ [carriage]) = w \<longleftrightarrow> take (length w) l = w" if w: "w \<in> set whitespace" for w
  proof (cases "length w \<le> length l")
    case False
    then have "take (length w) (l @ [carriage]) = l @ [carriage]" by simp
    moreover have "l @ [carriage] \<noteq> w"
      using whitespace_carriage [OF w] l by (metis append_is_Nil_conv append_self_conv2 in_set_conv_decomp
          butlast_snoc list.distinct(1) butlast.simps(2))
    moreover have "take (length w) l \<noteq> w" using False by (metis length_take min.cobounded1)
    ultimately show ?thesis by simp
  qed simp
  then have f: "find (\<lambda>w. take (length w) (l @ [carriage]) = w) whitespace =
      find (\<lambda>w. take (length w) l = w) whitespace"
    by (intro find_cong) auto
  have "length w \<le> length l" if "find (\<lambda>w. take (length w) l = w) whitespace = Some w" for w
    using that by (auto simp: find_Some_iff) (metis length_take min.cobounded1 min.cobounded2)
  then show ?thesis unfolding strip_front_def f
    by (cases "find (\<lambda>w. take (length w) l = w) whitespace") auto
qed

lemma trim_start_carriage:
  "trim_start (l @ [carriage]) = (if trim_start l = [] then [] else trim_start l @ [carriage])"
proof (induction l rule: trim_start.induct)
  case (1 l)
  have one: "trim_start [carriage] = []"
  proof -
    have "strip_front [carriage] \<noteq> None"
      using carriage_whitespace by (auto simp: strip_front_def find_None_iff)
    then obtain t where t: "strip_front [carriage] = Some t" by auto
    then have "t = []" using strip_front_shorter [OF t] by simp
    then show ?thesis using t by (subst trim_start.simps) (simp add: trim_start_stop strip_Nil)
  qed
  show ?case
  proof (cases "l = []")
    case True
    then show ?thesis using one by (simp add: trim_start_stop strip_Nil)
  next
    case False
    show ?thesis
    proof (cases "strip_front l")
      case None
      then show ?thesis using False
        by (simp add: trim_start_stop strip_front_carriage)
    next
      case (Some t)
      have "trim_start (l @ [carriage]) = trim_start (t @ [carriage])"
        using False Some by (subst trim_start.simps) (simp add: strip_front_carriage)
      moreover have "trim_start l = trim_start t" using Some by (subst trim_start.simps) simp
      ultimately show ?thesis using "1" [OF Some] by simp
    qed
  qed
qed

lemma trim_end_carriage: "trim_end (t @ [carriage]) = trim_end t"
proof -
  let ?s = "t @ [carriage]"
  let ?P = "\<lambda>w. length w \<le> length ?s \<and> drop (length ?s - length w) ?s = w"
  have "?P [carriage]" by simp
  then have "find ?P whitespace \<noteq> None" unfolding find_None_iff using carriage_whitespace by blast
  then obtain w where w: "find ?P whitespace = Some w" by blast
  then have "?P w" "w \<in> set whitespace" by (auto simp: find_Some_iff)
  then have "last w = carriage" "w \<noteq> []"
    using whitespace_nonempty by (auto, metis last_drop last_snoc diff_less length_greater_0_conv zero_less_Suc length_append_singleton)
  then have "w = [carriage]"
    using whitespace_carriage [OF \<open>w \<in> set whitespace\<close>] last_in_set by metis
  then have "strip_back ?s = Some t" using w by (simp add: strip_back_def)
  then show ?thesis by (subst trim_end.simps) simp
qed

lemma trim_strip_cr [simp]: "trim (strip_cr l) = trim l"
proof (cases "l \<noteq> [] \<and> last l = carriage")
  case True
  then obtain k where l: "l = k @ [carriage]" by (metis append_butlast_last_id)
  have "trim (k @ [carriage]) = trim k"
    by (auto simp: trim_def trim_start_carriage trim_end_carriage trim_end_stop strip_Nil)
  then show ?thesis by (simp add: l strip_cr_def)
next
  case False
  then show ?thesis by (auto simp: strip_cr_def)
qed

lemma trim_lines_end_line: "map trim (lines (s @ [newline])) = map trim (lines s)" if "\<not> ends_line s"
  using lines_end_line [OF that] by auto


section \<open>A file read again when it changes\<close>

text \<open>
  A reader that keeps what it read last and looks again now and then: each look keeps the view, closes
  it, or takes what it found. So after any looks the view is the one it started with, a closed one, or
  one that some look found: nothing is made up and no failed read leaves a half.
\<close>

locale reread =
  fixes look_again :: "'k \<Rightarrow> 's \<Rightarrow> 's"
    and view :: "'s \<Rightarrow> 'v"
    and closed :: "'v \<Rightarrow> bool"
    and found :: "'k \<Rightarrow> 'v set"
  assumes look_view: "view (look_again k s) = view s \<or> closed (view (look_again k s)) \<or>
      view (look_again k s) \<in> found k"
begin

lemma looks_view:
  "view (fold look_again ks s) = view s \<or> closed (view (fold look_again ks s)) \<or>
   (\<exists>k \<in> set ks. view (fold look_again ks s) \<in> found k)"
proof (induction ks arbitrary: s)
  case (Cons k ks)
  show ?case using Cons [of "look_again k s"] look_view [of k s] by auto
qed simp

lemma open_view_found:
  assumes "closed (view s)" "\<not> closed (view (fold look_again ks s))"
  shows "\<exists>k \<in> set ks. view (fold look_again ks s) \<in> found k"
  using looks_view [of ks s] assms by metis

end

end
