(* ===== verification/Grants.thy ===== *)
theory Grants
  imports Files Scheme Codec
begin

text \<open>
  \<^verbatim>\<open>src/grants.rs\<close>: the ledger of links this machine signed. Its line format, its append and prune,
  and the gate's live reading of it (\<^verbatim>\<open>IssuedLedger\<close>), which admits a one-use link once. The lemmas
  show the line round trip, that a torn last line never swallows an append, that a prune drops
  expired rows only, that an unreadable ledger admits no link, and what keeps a spent link spent.
\<close>

section \<open>The rows\<close>

text \<open>nauthy's service parser and the hex form of its ids are arguments.\<close>

record nauthy_text =
  na_service :: "string \<Rightarrow> service option"
  na_to_hex :: "revocation_id \<Rightarrow> string"
  na_from_hex :: "string \<Rightarrow> revocation_id option"

text \<open>Hex is lowercase digits and reads back; only an empty id is empty in hex.\<close>

definition hex_char :: "char \<Rightarrow> bool" where
  "hex_char c \<longleftrightarrow> is_ascii_digit c \<or> (97 \<le> code c \<and> code c \<le> 102)"

definition hex_text :: "nauthy_text \<Rightarrow> bool" where
  "hex_text T \<longleftrightarrow> (\<forall>i. na_from_hex T (na_to_hex T i) = Some i \<and>
     (id_bytes i \<noteq> [] \<longrightarrow> na_to_hex T i \<noteq> []) \<and> (\<forall>c \<in> set (na_to_hex T i). hex_char c))"

datatype grant_kind = Device | Fleet | Bearer | Once
datatype delegation = Delegable | Sealed

datatype ledger_error =
    LedgerIo string
  | Malformed
  | UnknownKind string
  | UnknownDelegation string
  | BadService
  | BadServed string
  | BadExpiry int_error
  | BadRootId

fun kind_str :: "grant_kind \<Rightarrow> string" where
  "kind_str Device = ''device''"
| "kind_str Fleet = ''fleet''"
| "kind_str Bearer = ''bearer''"
| "kind_str Once = ''once''"

definition kind_from_str :: "string \<Rightarrow> ledger_error + grant_kind" where
  "kind_from_str text =
     (if text = ''device'' then Inr Device
      else if text = ''fleet'' then Inr Fleet
      else if text = ''bearer'' then Inr Bearer
      else if text = ''once'' then Inr Once
      else Inl (UnknownKind text))"

fun delegation_str :: "delegation \<Rightarrow> string" where
  "delegation_str Delegable = ''delegable''"
| "delegation_str Sealed = ''sealed''"

definition delegation_from_str :: "string \<Rightarrow> ledger_error + delegation" where
  "delegation_from_str text =
     (if text = ''delegable'' then Inr Delegable
      else if text = ''sealed'' then Inr Sealed
      else Inl (UnknownDelegation text))"

record grant_record =
  g_target :: service
  g_serves :: "served_target option"
  g_kind :: grant_kind
  g_delegation :: delegation
  g_holder :: string
  g_root_id :: revocation_id
  g_expiry :: systime

fun caveat :: "grant_kind \<Rightarrow> delegation \<Rightarrow> string" where
  "caveat Device _ = ''device-bound''"
| "caveat Fleet _ = ''fleet-bound''"
| "caveat Once _ = ''one-use''"
| "caveat Bearer Delegable = ''delegable''"
| "caveat Bearer Sealed = ''non-delegable''"

definition SERVED_NOTHING :: string where "SERVED_NOTHING = ''-''"

definition unix_secs :: "systime \<Rightarrow> u64" where
  "unix_secs t = (case since_epoch t of None \<Rightarrow> 0 | Some s \<Rightarrow> s)"

definition from_unix_secs :: "u64 \<Rightarrow> ledger_error + systime" where
  "from_unix_secs secs = ok_or Malformed (epoch_plus secs)"

definition to_line :: "nauthy_text \<Rightarrow> grant_record \<Rightarrow> string" where
  "to_line T r = join_with tab
     [kind_str (g_kind r), delegation_str (g_delegation r), service_str (g_target r),
      (case g_serves r of None \<Rightarrow> SERVED_NOTHING | Some t \<Rightarrow> st_text t),
      g_holder r, show_u64 (unix_secs (g_expiry r)), na_to_hex T (g_root_id r)]"

text \<open>\<open>next_field\<close> is the closure over \<^verbatim>\<open>line.split(FIELD)\<close>.\<close>

definition next_field :: "string list \<Rightarrow> ledger_error + string \<times> string list" where
  "next_field fs = (case fs of [] \<Rightarrow> Inl Malformed | f # rest \<Rightarrow> Inr (f, rest))"

definition parse_served :: "string \<Rightarrow> ledger_error + served_target option" where
  "parse_served served =
     (if served = SERVED_NOTHING then Inr None
      else (case target_from_str served of
          Inl (NotATarget text) \<Rightarrow> Inl (BadServed text)
        | Inr t \<Rightarrow> Inr (Some t)))"

definition from_line :: "nauthy_text \<Rightarrow> string \<Rightarrow> ledger_error + grant_record" where
  "from_line T line =
     bindR (next_field (split_on tab line)) (\<lambda>(f, fs).
     bindR (kind_from_str f) (\<lambda>kind.
     bindR (next_field fs) (\<lambda>(f, fs).
     bindR (delegation_from_str f) (\<lambda>delegation.
     if kind = Once \<and> delegation = Delegable then Inl Malformed else
     bindR (next_field fs) (\<lambda>(f, fs).
     bindR (ok_or BadService (na_service T f)) (\<lambda>target.
     bindR (next_field fs) (\<lambda>(f, fs).
     bindR (parse_served f) (\<lambda>serves.
     bindR (next_field fs) (\<lambda>(holder, fs).
     bindR (next_field fs) (\<lambda>(f, fs).
     bindR (map_err BadExpiry (parse_u64 f)) (\<lambda>secs.
     bindR (from_unix_secs secs) (\<lambda>expiry.
     bindR (next_field fs) (\<lambda>(f, fs).
     bindR (ok_or BadRootId (na_from_hex T f)) (\<lambda>root_id.
     if fs \<noteq> [] then Inl Malformed else
     Inr \<lparr>g_target = target, g_serves = serves, g_kind = kind, g_delegation = delegation,
          g_holder = holder, g_root_id = root_id, g_expiry = expiry\<rparr>))))))))))))))"

text \<open>The lines of a file as both readers walk them: trimmed, the empty ones skipped.\<close>

definition filled_lines :: "string \<Rightarrow> string list" where
  "filled_lines text = filter (\<lambda>l. l \<noteq> []) (map trim (lines text))"

definition records :: "nauthy_text \<Rightarrow> string \<Rightarrow> grant_record list" where
  "records T text = List.map_filter (\<lambda>l. ok_opt (from_line T l)) (filled_lines text)"

definition grants_load :: "nauthy_text \<Rightarrow> file_read \<Rightarrow> ledger_error + grant_record list" where
  "grants_load T r =
     (case r of
        Contents text \<Rightarrow> Inr (records T text)
      | Missing \<Rightarrow> Inr []
      | Unreadable e \<Rightarrow> Inl (LedgerIo e))"

section \<open>Appending and pruning\<close>

text \<open>
  \<open>append_line fail old line\<close>: the file after one append, and whether it returned well. A last line
  with no newline is ended first. \<open>fail = Some n\<close> is a write or sync that fails with \<open>n\<close> bytes
  written.
\<close>

definition append_line :: "nat option \<Rightarrow> string \<Rightarrow> string \<Rightarrow> bool \<times> string" where
  "append_line fail old line =
     (let out = (if old \<noteq> [] \<and> last old \<noteq> newline then newline # line else line)
      in case fail of
        None \<Rightarrow> (True, old @ out)
      | Some n \<Rightarrow> (False, old @ take n out))"

definition PRUNE_AT :: nat where "PRUNE_AT = 64"

definition row_expired :: "nauthy_text \<Rightarrow> systime \<Rightarrow> string \<Rightarrow> bool" where
  "row_expired T now line =
     (case since_epoch now of
        None \<Rightarrow> False
      | Some now \<Rightarrow>
          (case from_line T (trim line) of
             Inl _ \<Rightarrow> False
           | Inr r \<Rightarrow> (case since_epoch (g_expiry r) of None \<Rightarrow> False | Some e \<Rightarrow> now > e)))"

definition prune_expired_at :: "nauthy_text \<Rightarrow> nat \<Rightarrow> systime \<Rightarrow> string \<Rightarrow> string" where
  "prune_expired_at T prune_at now text =
     (if length (filter (row_expired T now) (lines text)) < prune_at then text
      else concat (map (\<lambda>l. l @ [newline])
        (filter (\<lambda>l. trim l \<noteq> [] \<and> \<not> row_expired T now l) (lines text))))"

text \<open>\<^verbatim>\<open>Grants::append\<close>: the prune, then the line. An absent file is an empty one here.\<close>

definition grants_append ::
  "nauthy_text \<Rightarrow> nat \<Rightarrow> systime \<Rightarrow> nat option \<Rightarrow> file_read \<Rightarrow> grant_record \<Rightarrow> ledger_error + bool \<times> string" where
  "grants_append T prune_at now fail old r =
     (let line = to_line T r @ [newline] in
      case old of
        Unreadable e \<Rightarrow> Inl (LedgerIo e)
      | Missing \<Rightarrow> Inr (append_line fail [] line)
      | Contents text \<Rightarrow> Inr (append_line fail (prune_expired_at T prune_at now text) line))"

section \<open>The ledger as the gate reads it\<close>

record issued =
  i_service :: service
  i_serves :: "served_target option"
  i_once :: bool

record 's ledger =
  l_bound :: bound_targets
  l_rows :: "revocation_id \<Rightarrow> issued option"
  l_used :: "revocation_id set"
  l_stamp :: "'s option"
  l_last_stat :: "nat option"
  l_readable :: "bool option"
  l_used_file :: string

text \<open>What one look at the file finds: its metadata, its text, and how a spend's append ends.\<close>

datatype 's meta_read = MetaMissing | MetaError string | Meta "'s option"

record 's look =
  at :: nat
  meta :: "'s meta_read"
  read_text :: file_read
  append_fails :: "nat option"

text \<open>nauthy's file stamps: the debounce and \<^verbatim>\<open>FileStamp::unchanged\<close>.\<close>

record 's stamps =
  stat_debounce :: nat
  unchanged :: "'s option \<Rightarrow> 's option \<Rightarrow> bool"

definition issued_of :: "grant_record \<Rightarrow> issued" where
  "issued_of r = \<lparr>i_service = g_target r, i_serves = g_serves r, i_once = (g_kind r = Once)\<rparr>"

definition ledger_rows :: "nauthy_text \<Rightarrow> string \<Rightarrow> revocation_id \<Rightarrow> issued option" where
  "ledger_rows T text = fold (\<lambda>r m. m(g_root_id r \<mapsto> issued_of r)) (records T text) (\<lambda>_. None)"

definition spent :: "nauthy_text \<Rightarrow> string \<Rightarrow> revocation_id set" where
  "spent T text = set (List.map_filter (na_from_hex T) (filled_lines text))"

definition is_once :: "issued option \<Rightarrow> bool" where
  "is_once row = (case row of None \<Rightarrow> False | Some i \<Rightarrow> i_once i)"

definition ledger_refresh :: "nauthy_text \<Rightarrow> 's stamps \<Rightarrow> 's look \<Rightarrow> 's ledger \<Rightarrow> 's ledger" where
  "ledger_refresh T S k L =
     (if (case l_last_stat L of None \<Rightarrow> False | Some prior \<Rightarrow> at k - prior < stat_debounce S) then L
      else
        let L = L\<lparr>l_last_stat := Some (at k)\<rparr>;
            unreadable = L\<lparr>l_rows := (\<lambda>_. None), l_stamp := None, l_readable := Some False\<rparr>
        in case meta k of
          MetaMissing \<Rightarrow> L\<lparr>l_rows := (\<lambda>_. None), l_stamp := None, l_readable := Some True\<rparr>
        | MetaError _ \<Rightarrow> unreadable
        | Meta stamp \<Rightarrow>
            if unchanged S (l_stamp L) stamp then L
            else (case read_text k of
                Contents text \<Rightarrow>
                  let rows = ledger_rows T text in
                  L\<lparr>l_rows := rows, l_used := {i \<in> l_used L. is_once (rows i)}, l_stamp := stamp,
                    l_readable := Some True\<rparr>
              | _ \<Rightarrow> unreadable))"

definition ledger_open ::
  "nauthy_text \<Rightarrow> 's stamps \<Rightarrow> file_read \<Rightarrow> bound_targets \<Rightarrow> 's look \<Rightarrow> string + 's ledger" where
  "ledger_open T S used_read bnd k =
     (let start = (\<lambda>used text. ledger_refresh T S k
        \<lparr>l_bound = bnd, l_rows = (\<lambda>_. None), l_used = used, l_stamp = None, l_last_stat = None,
         l_readable = None, l_used_file = text\<rparr>)
      in case used_read of
        Contents text \<Rightarrow> Inr (start (spent T text) text)
      | Missing \<Rightarrow> Inr (start {} [])
      | Unreadable e \<Rightarrow> Inl e)"

definition is_issued ::
  "nauthy_text \<Rightarrow> 's stamps \<Rightarrow> 's look \<Rightarrow> revocation_id \<Rightarrow> 's ledger \<Rightarrow> bool \<times> 's ledger" where
  "is_issued T S k i L =
     (let L = ledger_refresh T S k L in
      case l_rows L i of
        None \<Rightarrow> (False, L)
      | Some row \<Rightarrow>
          if \<not> bound_admits (l_bound L) (service_str (i_service row)) (i_serves row) then (False, L)
          else if \<not> i_once row then (True, L)
          else if i \<in> l_used L then (False, L)
          else
            let (ok, text) = append_line (append_fails k) (l_used_file L) (na_to_hex T i @ [newline]);
                L = L\<lparr>l_used_file := text\<rparr>
            in if \<not> ok then (False, L)
               else (True, L\<lparr>l_used := insert i (l_used L)\<rparr>))"

section \<open>Links made for another target\<close>

record links_for_another =
  lfa_name :: string
  lfa_targets :: "served_target option list"

definition never_public_entry :: "string \<Rightarrow> (string \<times> served_target) option" where
  "never_public_entry entry =
     (case split_once (CHR ''='') entry of
        None \<Rightarrow> None
      | Some (name, target) \<Rightarrow>
          (case target_from_str target of
             Inl _ \<Rightarrow> None
           | Inr t \<Rightarrow> if st_never_public t then Some (name, t) else None))"

definition for_another ::
  "(revocation_id \<Rightarrow> bool) \<Rightarrow> systime \<Rightarrow> string \<Rightarrow> served_target \<Rightarrow> grant_record \<Rightarrow> bool" where
  "for_another is_revoked now name t r \<longleftrightarrow>
     service_str (g_target r) = name \<and> g_expiry r > now \<and> \<not> is_revoked (g_root_id r) \<and>
     \<not> admits_made_for t (g_serves r)"

definition note_target :: "string \<Rightarrow> grant_record \<Rightarrow> links_for_another option \<Rightarrow> links_for_another option" where
  "note_target name r found =
     (let f = (case found of None \<Rightarrow> \<lparr>lfa_name = name, lfa_targets = []\<rparr> | Some f \<Rightarrow> f) in
      Some (if g_serves r \<in> set (lfa_targets f) then f
            else f\<lparr>lfa_targets := lfa_targets f @ [g_serves r]\<rparr>))"

fun links_for_another_first ::
  "string list \<Rightarrow> grant_record list \<Rightarrow> (revocation_id \<Rightarrow> bool) \<Rightarrow> systime \<Rightarrow> links_for_another option" where
  "links_for_another_first [] rs is_revoked now = None"
| "links_for_another_first (e # es) rs is_revoked now =
     (case never_public_entry e of
        None \<Rightarrow> links_for_another_first es rs is_revoked now
      | Some (name, t) \<Rightarrow>
          (case fold (note_target name) (filter (for_another is_revoked now name t) rs) None of
             None \<Rightarrow> links_for_another_first es rs is_revoked now
           | Some found \<Rightarrow> Some found))"

definition links_for_another_in_home ::
  "nauthy_text \<Rightarrow> file_read \<Rightarrow> string + (revocation_id \<Rightarrow> bool) \<Rightarrow> systime \<Rightarrow> string list \<Rightarrow>
   string + links_for_another option" where
  "links_for_another_in_home T links revoked now entries =
     (let entries = filter (\<lambda>e. never_public_entry e \<noteq> None) entries in
      if entries = [] then Inr None
      else bindR (map_err (\<lambda>_. ''access the grants ledger'') (grants_load T links)) (\<lambda>rs.
        bindR revoked (\<lambda>is_revoked.
        Inr (links_for_another_first entries rs is_revoked now))))"

section \<open>A lifetime in words\<close>

definition humanize :: "u64 \<Rightarrow> string" where
  "humanize secs =
     (let minute = 60; hour = 60 * minute; day = 24 * hour in
      if secs \<ge> day then show_u64 (secs div day) @ ''d''
      else if secs \<ge> hour then show_u64 (secs div hour) @ ''h''
      else if secs \<ge> minute then show_u64 (secs div minute) @ ''m''
      else show_u64 secs @ ''s'')"

section \<open>Lines and rows\<close>

lemma not_control_codes: "\<not> has_control s \<Longrightarrow> c \<in> set s \<Longrightarrow> 32 \<le> code c"
  by (induction s) auto

lemma control_free: "\<not> has_control s \<Longrightarrow> tab \<notin> set s \<and> newline \<notin> set s"
  using not_control_codes by (force simp: tab_def newline_def code_def)

lemma alnum_text: "\<forall>c \<in> set s. hex_char c \<Longrightarrow> tab \<notin> set s \<and> newline \<notin> set s"
  by (auto simp: hex_char_def is_ascii_digit_def tab_def newline_def code_def)

lemma hex_char_solid: "hex_char c \<Longrightarrow> solid c"
  by (auto simp: hex_char_def is_ascii_digit_def solid_def)

lemma digits_hex: "\<forall>c \<in> set (show_u64 n). hex_char c"
  using show_nat_digits [of "unat n"] by (auto simp: show_u64_def hex_char_def)

definition record_ok :: "nauthy_text \<Rightarrow> grant_record \<Rightarrow> bool" where
  "record_ok T r \<longleftrightarrow>
     na_service T (service_str (g_target r)) = Some (g_target r) \<and>
     tab \<notin> set (service_str (g_target r)) \<and> newline \<notin> set (service_str (g_target r)) \<and>
     (case g_serves r of None \<Rightarrow> True | Some t \<Rightarrow> valid_target t) \<and>
     tab \<notin> set (g_holder r) \<and> newline \<notin> set (g_holder r) \<and>
     \<not> (g_kind r = Once \<and> g_delegation r = Delegable) \<and>
     systime_ok (g_expiry r) \<and> 0 \<le> g_expiry r \<and> id_bytes (g_root_id r) \<noteq> []"

text \<open>What a row reads back as: its expiry in whole seconds.\<close>

definition stored_record :: "grant_record \<Rightarrow> grant_record" where
  "stored_record r = r\<lparr>g_expiry := g_expiry r div NANOS * NANOS\<rparr>"

lemma kind_from_kind_str [simp]: "kind_from_str (kind_str k) = Inr k"
  by (cases k) (simp_all add: kind_from_str_def)

lemma delegation_from_delegation_str [simp]: "delegation_from_str (delegation_str d) = Inr d"
  by (cases d) (simp_all add: delegation_from_str_def)

definition served_str :: "served_target option \<Rightarrow> string" where
  "served_str s = (case s of None \<Rightarrow> SERVED_NOTHING | Some t \<Rightarrow> st_text t)"

lemma parse_served_str: "(case s of None \<Rightarrow> True | Some t \<Rightarrow> valid_target t) \<Longrightarrow> parse_served (served_str s) = Inr s"
proof (cases s)
  case (Some t)
  assume "case s of None \<Rightarrow> True | Some t \<Rightarrow> valid_target t"
  then have t: "valid_target t" using Some by simp
  then have "st_text t \<noteq> ''-''" using valid_target_text [OF t] by auto
  then show ?thesis using t Some
    by (simp add: parse_served_def served_str_def SERVED_NOTHING_def valid_target_def)
qed (simp add: parse_served_def served_str_def)

definition line_fields :: "nauthy_text \<Rightarrow> grant_record \<Rightarrow> string list" where
  "line_fields T r = [kind_str (g_kind r), delegation_str (g_delegation r), service_str (g_target r),
      served_str (g_serves r), g_holder r, show_u64 (unix_secs (g_expiry r)), na_to_hex T (g_root_id r)]"

lemma line_fields_clean:
  assumes "hex_text T" "record_ok T r" "f \<in> set (line_fields T r)"
  shows "tab \<notin> set f \<and> newline \<notin> set f"
proof -
  have "tab \<notin> set (kind_str k) \<and> newline \<notin> set (kind_str k)" for k
    by (cases k) (simp_all add: tab_def newline_def)
  moreover have "tab \<notin> set (delegation_str d) \<and> newline \<notin> set (delegation_str d)" for d
    by (cases d) (simp_all add: tab_def newline_def)
  moreover have "tab \<notin> set (served_str (g_serves r)) \<and> newline \<notin> set (served_str (g_serves r))"
    using assms(2) valid_target_text control_free
    by (auto simp: served_str_def SERVED_NOTHING_def tab_def newline_def record_ok_def split: option.splits)
  moreover have "tab \<notin> set (na_to_hex T (g_root_id r)) \<and> newline \<notin> set (na_to_hex T (g_root_id r))"
    using assms(1) by (intro alnum_text) (simp add: hex_text_def)
  ultimately show ?thesis
    using assms alnum_text [OF digits_hex] unfolding line_fields_def record_ok_def by auto
qed

lemma to_line_fields: "to_line T r = join_with tab (line_fields T r)"
  by (simp add: to_line_def line_fields_def served_str_def)

lemma split_to_line: "hex_text T \<Longrightarrow> record_ok T r \<Longrightarrow> split_on tab (to_line T r) = line_fields T r"
  unfolding to_line_fields using line_fields_clean
  by (intro split_on_join) (auto simp: line_fields_def)

lemma unix_secs_ok:
  "systime_ok t \<Longrightarrow> 0 \<le> t \<Longrightarrow> from_unix_secs (unix_secs t) = Inr (t div NANOS * NANOS)"
  by (simp add: from_unix_secs_def unix_secs_def since_epoch_def since_epoch_plus)

lemma from_to_line:
  assumes "hex_text T" "record_ok T r"
  shows "from_line T (to_line T r) = Inr (stored_record r)"
proof -
  have h: "na_from_hex T (na_to_hex T (g_root_id r)) = Some (g_root_id r)"
    using assms(1) by (simp add: hex_text_def)
  have e: "from_unix_secs (unix_secs (g_expiry r)) = Inr (g_expiry r div NANOS * NANOS)"
    using assms(2) by (simp add: record_ok_def unix_secs_ok)
  have p: "parse_served (served_str (g_serves r)) = Inr (g_serves r)"
    using assms(2) by (intro parse_served_str) (simp add: record_ok_def)
  have s: "na_service T (service_str (g_target r)) = Some (g_target r)"
    "\<not> (g_kind r = Once \<and> g_delegation r = Delegable)"
    using assms(2) by (auto simp: record_ok_def)
  show ?thesis using s
    by (simp add: from_line_def split_to_line [OF assms] line_fields_def next_field_def h e p
        parse_show_u64 stored_record_def)
qed

lemma to_line_shape:
  assumes "hex_text T" "record_ok T r"
  shows "newline \<notin> set (to_line T r) \<and> to_line T r \<noteq> [] \<and> trim (to_line T r) = to_line T r"
proof -
  let ?l = "to_line T r"
  have k: "kind_str (g_kind r) \<noteq> [] \<and> solid (hd (kind_str (g_kind r)))"
    by (cases "g_kind r") (simp_all add: solid_def code_def)
  have x: "na_to_hex T (g_root_id r) \<noteq> [] \<and> solid (last (na_to_hex T (g_root_id r)))"
    using assms last_in_set hex_char_solid unfolding hex_text_def record_ok_def by metis
  have n: "newline \<noteq> tab" by (simp add: tab_def newline_def)
  have "newline \<notin> set ?l"
    using line_fields_clean [OF assms] n unfolding to_line_fields line_fields_def by simp
  moreover have "?l \<noteq> []" "hd ?l = hd (kind_str (g_kind r))" using k by (simp_all add: to_line_def)
  moreover have "last ?l = last (na_to_hex T (g_root_id r))" using x by (simp add: to_line_def)
  ultimately show ?thesis using k x trim_solid [of ?l] by simp
qed

section \<open>What an append and a prune keep\<close>

lemma filled_append_ended: "ends_line s \<Longrightarrow> filled_lines (s @ t) = filled_lines s @ filled_lines t"
  by (simp add: filled_lines_def lines_append_ended)

lemma filled_end_line: "filled_lines (s @ [newline]) = filled_lines s"
proof (cases "ends_line s")
  case True
  have "filled_lines [newline] = []" using lines_line [of "[]"] by (simp add: filled_lines_def strip_cr_def)
  then show ?thesis using True by (simp add: filled_append_ended)
qed (simp add: filled_lines_def trim_lines_end_line)

lemma ends_newline [simp]: "ends_line (s @ [newline])"
  by (simp add: ends_line_def)

lemma filled_append_newline: "filled_lines (s @ newline # t) = filled_lines s @ filled_lines t"
  using filled_append_ended [of "s @ [newline]" t] by (simp add: filled_end_line)

lemma filled_line: "newline \<notin> set l \<Longrightarrow> filled_lines (l @ [newline]) = (if trim l = [] then [] else [trim l])"
  by (simp add: filled_lines_def lines_line)

lemma append_line_filled:
  "newline \<notin> set l \<Longrightarrow> filled_lines (snd (append_line None old (l @ [newline]))) =
     filled_lines old @ (if trim l = [] then [] else [trim l])"
  using filled_append_newline [of old "l @ [newline]"] filled_append_ended [of old "l @ [newline]"]
  by (auto simp: append_line_def Let_def filled_line ends_line_def)

lemma append_line_keeps: "set (filled_lines old) \<subseteq> set (filled_lines (snd (append_line fail old line)))"
proof -
  have a: "set (filled_lines old) \<subseteq> set (filled_lines (old @ newline # t))" for t
    by (simp add: filled_append_newline)
  have b: "ends_line old \<Longrightarrow> set (filled_lines old) \<subseteq> set (filled_lines (old @ t))" for t
    by (simp add: filled_append_ended)
  show ?thesis
    using a b by (cases fail) (auto simp: append_line_def Let_def ends_line_def take_Cons' split: if_splits)
qed

lemma strip_cr_set: "set (strip_cr l) \<subseteq> set l"
  by (auto simp: strip_cr_def dest: in_set_butlastD)

lemma lines_no_newline: "l \<in> set (lines s) \<Longrightarrow> newline \<notin> set l"
proof -
  assume "l \<in> set (lines s)"
  then have "\<exists>p \<in> set (split_on newline s). set l \<subseteq> set p"
    using strip_cr_set by (auto simp: lines_def Let_def split: if_splits dest: in_set_butlastD)
  then show ?thesis using split_on_pieces by blast
qed

lemma filled_concat:
  "\<forall>l \<in> set ls. newline \<notin> set l \<Longrightarrow>
   filled_lines (concat (map (\<lambda>l. l @ [newline]) ls)) = filter (\<lambda>l. l \<noteq> []) (map trim ls)"
proof (induction ls)
  case (Cons l ls)
  have "filled_lines ((l @ [newline]) @ concat (map (\<lambda>l. l @ [newline]) ls)) =
      filled_lines (l @ [newline]) @ filled_lines (concat (map (\<lambda>l. l @ [newline]) ls))"
    by (rule filled_append_ended) simp
  then show ?case using Cons by (simp add: filled_line)
qed (simp add: filled_lines_def)

definition grant_expired :: "systime \<Rightarrow> grant_record \<Rightarrow> bool" where
  "grant_expired now r \<longleftrightarrow>
     (case since_epoch now of None \<Rightarrow> False | Some n \<Rightarrow>
       (case since_epoch (g_expiry r) of None \<Rightarrow> False | Some e \<Rightarrow> n > e))"

definition line_expired :: "nauthy_text \<Rightarrow> systime \<Rightarrow> string \<Rightarrow> bool" where
  "line_expired T now l = (case from_line T l of Inl _ \<Rightarrow> False | Inr r \<Rightarrow> grant_expired now r)"

lemma row_expired_trim: "row_expired T now l = line_expired T now (trim l)"
  by (auto simp: row_expired_def line_expired_def grant_expired_def split: option.splits sum.splits)

lemma prune_filled:
  "filled_lines (prune_expired_at T n now text) =
     (if length (filter (row_expired T now) (lines text)) < n then filled_lines text
      else filter (\<lambda>l. \<not> line_expired T now l) (filled_lines text))"
proof -
  have "filter (\<lambda>l. l \<noteq> []) (map trim (filter (\<lambda>l. trim l \<noteq> [] \<and> \<not> line_expired T now (trim l)) ls)) =
      filter (\<lambda>l. \<not> line_expired T now l) (filter (\<lambda>l. l \<noteq> []) (map trim ls))" for ls
    by (induction ls) auto
  note keep = this
  let ?ls = "filter (\<lambda>l. trim l \<noteq> [] \<and> \<not> row_expired T now l) (lines text)"
  have "\<forall>l \<in> set ?ls. newline \<notin> set l" using lines_no_newline by auto
  from filled_concat [OF this]
  have "filled_lines (concat (map (\<lambda>l. l @ [newline]) ?ls)) =
      filter (\<lambda>l. \<not> line_expired T now l) (filled_lines text)"
    using keep [of "lines text"] by (simp add: row_expired_trim filled_lines_def)
  then show ?thesis by (simp add: prune_expired_at_def)
qed

lemma records_of_lines: "records T text = List.map_filter (\<lambda>l. ok_opt (from_line T l)) (filled_lines text)"
  by (simp add: records_def)

lemma map_filter_append [simp]: "List.map_filter f (xs @ ys) = List.map_filter f xs @ List.map_filter f ys"
  by (simp add: List.map_filter_def)

lemma map_filter_one: "List.map_filter f [x] = (case f x of None \<Rightarrow> [] | Some y \<Rightarrow> [y])"
  by (simp add: List.map_filter_def split: option.splits)

lemma records_filter: "List.map_filter (\<lambda>l. ok_opt (from_line T l)) (filter (\<lambda>l. \<not> line_expired T now l) ls) =
  filter (\<lambda>r. \<not> grant_expired now r) (List.map_filter (\<lambda>l. ok_opt (from_line T l)) ls)"
  by (induction ls) (auto simp: List.map_filter_def line_expired_def ok_opt_def split: sum.splits)

section \<open>A run of the gate\<close>

text \<open>The asks one gate answers, in order, each with what it finds in the files then.\<close>

fun asks ::
  "nauthy_text \<Rightarrow> 's stamps \<Rightarrow> ('s look \<times> revocation_id) list \<Rightarrow> 's ledger \<Rightarrow> bool list \<times> 's ledger" where
  "asks T S [] L = ([], L)"
| "asks T S ((k, i) # ks) L =
     (let (b, L) = is_issued T S k i L; (bs, L) = asks T S ks L in (b # bs, L))"

lemma asks_Cons:
  "asks T S ((k, i) # ks) L =
     (fst (is_issued T S k i L) # fst (asks T S ks (snd (is_issued T S k i L))),
      snd (asks T S ks (snd (is_issued T S k i L))))"
  by (simp add: Let_def split_beta)

declare asks.simps(2) [simp del] asks_Cons [simp]

lemma asks_length: "length (fst (asks T S ks L)) = length ks"
proof (induction ks arbitrary: L)
  case (Cons p ks)
  then show ?case by (cases p) simp
qed simp

text \<open>A refresh leaves the rows as they are, clears them, or takes those of the text it read.\<close>

lemma ledger_refresh_cases:
  obtains "l_rows (ledger_refresh T S k L) = l_rows L" "l_used (ledger_refresh T S k L) = l_used L"
      "l_readable (ledger_refresh T S k L) = l_readable L"
  | "l_rows (ledger_refresh T S k L) = (\<lambda>_. None)" "l_used (ledger_refresh T S k L) = l_used L"
  | t where "read_text k = Contents t" "l_rows (ledger_refresh T S k L) = ledger_rows T t"
      "l_used (ledger_refresh T S k L) = {i \<in> l_used L. is_once (ledger_rows T t i)}"
      "l_readable (ledger_refresh T S k L) = Some True"
proof (cases "case l_last_stat L of None \<Rightarrow> False | Some prior \<Rightarrow> at k - prior < stat_debounce S")
  case True
  then show thesis using that(1) by (simp add: ledger_refresh_def)
next
  case False
  show thesis
  proof (cases "meta k")
    case (Meta stamp)
    then show thesis using False that
      by (cases "unchanged S (l_stamp L) stamp"; cases "read_text k")
        (simp_all add: ledger_refresh_def Let_def)
  qed (use False that(2) in \<open>simp_all add: ledger_refresh_def Let_def\<close>)
qed

lemma ledger_refresh_same [simp]:
  "l_bound (ledger_refresh T S k L) = l_bound L" "l_used_file (ledger_refresh T S k L) = l_used_file L"
  by (auto simp: ledger_refresh_def Let_def split: option.splits meta_read.splits file_read.splits)

lemma is_issued_cases:
  fixes T S k i L
  defines "R \<equiv> ledger_refresh T S k L"
    and "a \<equiv> append_line (append_fails k) (l_used_file L) (na_to_hex T i @ [newline])"
  obtains "is_issued T S k i L = (False, R)"
      "\<not> (\<exists>row. l_rows R i = Some row \<and> bound_admits (l_bound R) (service_str (i_service row)) (i_serves row) \<and>
        (i_once row \<longrightarrow> i \<notin> l_used R))"
  | row where "is_issued T S k i L = (True, R)" "l_rows R i = Some row" "\<not> i_once row"
      "bound_admits (l_bound R) (service_str (i_service row)) (i_serves row)"
  | row where "is_issued T S k i L = (False, R\<lparr>l_used_file := snd a\<rparr>)" "l_rows R i = Some row" "i_once row"
      "i \<notin> l_used R" "\<not> fst a"
  | row where "is_issued T S k i L = (True, R\<lparr>l_used_file := snd a, l_used := insert i (l_used R)\<rparr>)"
      "l_rows R i = Some row" "i_once row" "i \<notin> l_used R" "fst a"
      "bound_admits (l_bound R) (service_str (i_service row)) (i_serves row)"
proof (cases "l_rows R i")
  case None
  then show thesis using that(1) by (simp add: is_issued_def R_def [symmetric])
next
  case (Some row)
  have f: "l_used_file R = l_used_file L" by (simp add: R_def)
  have e: "is_issued T S k i L =
      (if \<not> bound_admits (l_bound R) (service_str (i_service row)) (i_serves row) then (False, R)
       else if \<not> i_once row then (True, R)
       else if i \<in> l_used R then (False, R)
       else if \<not> fst a then (False, R\<lparr>l_used_file := snd a\<rparr>)
       else (True, R\<lparr>l_used_file := snd a, l_used := insert i (l_used R)\<rparr>))"
    unfolding is_issued_def R_def [symmetric] Let_def f a_def [symmetric] by (simp add: Some split_beta)
  consider "\<not> bound_admits (l_bound R) (service_str (i_service row)) (i_serves row) \<or> i_once row \<and> i \<in> l_used R"
    | "bound_admits (l_bound R) (service_str (i_service row)) (i_serves row)" "\<not> i_once row"
    | "bound_admits (l_bound R) (service_str (i_service row)) (i_serves row)" "i_once row" "i \<notin> l_used R" "\<not> fst a"
    | "bound_admits (l_bound R) (service_str (i_service row)) (i_serves row)" "i_once row" "i \<notin> l_used R" "fst a"
    by blast
  then show thesis
  proof cases
    case 1
    then show thesis by (intro that(1)) (auto simp: e Some)
  next
    case 2
    then show thesis by (intro that(2)) (simp_all add: e Some)
  next
    case 3
    then show thesis by (intro that(3)) (simp_all add: e Some)
  next
    case 4
    then show thesis by (intro that(4)) (simp_all add: e Some)
  qed
qed

lemma is_issued_same [simp]:
  "l_bound (snd (is_issued T S k i L)) = l_bound L"
  "l_rows (snd (is_issued T S k i L)) = l_rows (ledger_refresh T S k L)"
  "l_readable (snd (is_issued T S k i L)) = l_readable (ledger_refresh T S k L)"
  by (auto simp: is_issued_def Let_def split: option.splits prod.splits)

lemma is_issued_True:
  "is_issued T S k i L = (True, L') \<Longrightarrow> \<exists>row. l_rows (ledger_refresh T S k L) i = Some row \<and>
     bound_admits (l_bound L) (service_str (i_service row)) (i_serves row)"
  by (cases rule: is_issued_cases [of T S k i L]) auto

subsection \<open>What an admission rests on\<close>

definition texts_of :: "('s look) list \<Rightarrow> string set" where
  "texts_of ks = {t. \<exists>k \<in> set ks. read_text k = Contents t}"

definition rows_from :: "nauthy_text \<Rightarrow> string set \<Rightarrow> 's ledger \<Rightarrow> bool" where
  "rows_from T ts L \<longleftrightarrow> (l_rows L = (\<lambda>_. None) \<or> l_readable L = Some True) \<and>
     (l_rows L = (\<lambda>_. None) \<or> (\<exists>t \<in> ts. l_rows L = ledger_rows T t))"

lemma rows_from_mono: "rows_from T ts L \<Longrightarrow> ts \<subseteq> us \<Longrightarrow> rows_from T us L"
  by (auto simp: rows_from_def)

lemma rows_from_refresh: "rows_from T ts L \<Longrightarrow> rows_from T (ts \<union> texts_of [k]) (ledger_refresh T S k L)"
  by (cases rule: ledger_refresh_cases [of T S k L]) (auto simp: rows_from_def texts_of_def)

lemma rows_from_ask: "rows_from T ts L \<Longrightarrow> rows_from T (ts \<union> texts_of [k]) (snd (is_issued T S k i L))"
  using rows_from_refresh [of T ts L k S] by (simp add: rows_from_def)

lemma rows_from_asks: "rows_from T ts L \<Longrightarrow> rows_from T (ts \<union> texts_of (map fst ks)) (snd (asks T S ks L))"
proof (induction ks arbitrary: L ts)
  case Nil
  then show ?case by (simp add: texts_of_def)
next
  case (Cons p ks)
  obtain k i where p: "p = (k, i)" by (cases p)
  have e: "(ts \<union> texts_of [k]) \<union> texts_of (map fst ks) = ts \<union> texts_of (map fst (p # ks))"
    by (auto simp: texts_of_def p)
  have "rows_from T ((ts \<union> texts_of [k]) \<union> texts_of (map fst ks)) (snd (asks T S ks (snd (is_issued T S k i L))))"
    by (rule Cons.IH [OF rows_from_ask [OF Cons.prems]])
  then show ?case unfolding e by (simp add: p)
qed

lemma rows_from_open: "ledger_open T S used bnd k = Inr L \<Longrightarrow> rows_from T (texts_of [k]) L \<and> l_bound L = bnd"
proof -
  assume "ledger_open T S used bnd k = Inr L"
  then obtain u f where L: "L = ledger_refresh T S k \<lparr>l_bound = bnd, l_rows = (\<lambda>_. None), l_used = u,
      l_stamp = None, l_last_stat = None, l_readable = None, l_used_file = f\<rparr>" (is "L = ledger_refresh T S k ?L")
    by (auto simp: ledger_open_def Let_def split: file_read.splits)
  have "rows_from T {} ?L" by (simp add: rows_from_def)
  from rows_from_refresh [OF this, of k S] show ?thesis by (simp add: L)
qed

lemma asks_bound [simp]: "l_bound (snd (asks T S ks L)) = l_bound L"
proof (induction ks arbitrary: L)
  case (Cons p ks)
  then show ?case by (cases p) simp
qed simp

lemma fold_rows: "fold (\<lambda>r m. m(g_root_id r \<mapsto> issued_of r)) rs m i = Some row \<Longrightarrow>
  m i = Some row \<or> (\<exists>r \<in> set rs. g_root_id r = i \<and> row = issued_of r)"
  by (induction rs arbitrary: m) (fastforce split: if_splits)+

lemma ledger_rows_record:
  "ledger_rows T t i = Some row \<Longrightarrow> \<exists>r \<in> set (records T t). g_root_id r = i \<and> row = issued_of r"
  using fold_rows by (fastforce simp: ledger_rows_def)

subsection \<open>What stays spent\<close>

definition once_spent :: "revocation_id \<Rightarrow> 's ledger \<Rightarrow> bool" where
  "once_spent i L \<longleftrightarrow> i \<in> l_used L \<and> (l_rows L i = None \<or> is_once (l_rows L i))"

text \<open>Every ledger text read in these looks still lists \<open>i\<close> as a one-use link.\<close>

definition keeps_row :: "nauthy_text \<Rightarrow> revocation_id \<Rightarrow> 's look list \<Rightarrow> bool" where
  "keeps_row T i ks \<longleftrightarrow> (\<forall>t \<in> texts_of ks. is_once (ledger_rows T t i))"

lemma once_spent_refresh:
  "once_spent i L \<Longrightarrow> keeps_row T i [k] \<Longrightarrow> once_spent i (ledger_refresh T S k L)"
  by (cases rule: ledger_refresh_cases [of T S k L]) (auto simp: once_spent_def keeps_row_def texts_of_def)

lemma once_spent_ask:
  assumes "once_spent i L" "keeps_row T i [k]"
  shows "once_spent i (snd (is_issued T S k j L)) \<and> (j = i \<longrightarrow> \<not> fst (is_issued T S k j L))"
proof -
  have r: "once_spent i (ledger_refresh T S k L)" by (rule once_spent_refresh [OF assms])
  then show ?thesis
    by (cases rule: is_issued_cases [of T S k j L]) (auto simp: once_spent_def is_once_def)
qed

lemma once_spent_asks:
  "once_spent i L \<Longrightarrow> keeps_row T i (map fst ks) \<Longrightarrow>
   \<forall>n < length ks. snd (ks ! n) = i \<longrightarrow> \<not> fst (asks T S ks L) ! n"
proof (induction ks arbitrary: L)
  case (Cons p ks)
  obtain k j where p: "p = (k, j)" by (cases p)
  have k: "keeps_row T i [k]" "keeps_row T i (map fst ks)"
    using Cons.prems(2) by (auto simp: keeps_row_def texts_of_def p)
  have a: "once_spent i (snd (is_issued T S k j L))" "j = i \<longrightarrow> \<not> fst (is_issued T S k j L)"
    using once_spent_ask [OF Cons.prems(1) k(1)] by auto
  show ?case
    using Cons.IH [OF a(1) k(2)] a(2)
    by (auto simp: p nth_Cons split: nat.splits)
qed simp

lemma once_spent_first:
  "is_issued T S k i L = (True, L') \<Longrightarrow> is_once (l_rows L' i) \<Longrightarrow> once_spent i L'"
  by (cases rule: is_issued_cases [of T S k i L]) (auto simp: once_spent_def is_once_def)

subsection \<open>What is on disk\<close>

lemma spent_mono: "set (filled_lines a) \<subseteq> set (filled_lines b) \<Longrightarrow> spent T a \<subseteq> spent T b"
  by (auto simp: spent_def List.map_filter_def)

lemma is_issued_spent_mono: "spent T (l_used_file L) \<subseteq> spent T (l_used_file (snd (is_issued T S k i L)))"
  using spent_mono [OF append_line_keeps [of "l_used_file L" "append_fails k" "na_to_hex T i @ [newline]"]]
  by (cases rule: is_issued_cases [of T S k i L]) auto

lemma asks_spent_mono: "spent T (l_used_file L) \<subseteq> spent T (l_used_file (snd (asks T S ks L)))"
proof (induction ks arbitrary: L)
  case (Cons p ks)
  obtain k i where p: "p = (k, i)" by (cases p)
  show ?case
    using Cons [of "snd (is_issued T S k i L)"] is_issued_spent_mono [of T L S k i]
    by (simp add: p)
qed simp

lemma hex_line: "hex_text T \<Longrightarrow> newline \<notin> set (na_to_hex T i) \<and> trim (na_to_hex T i) = na_to_hex T i"
  by (cases "na_to_hex T i = []")
    (simp, metis alnum_text hex_text_def hex_char_solid last_in_set list.set_sel(1) trim_solid)

lemma once_on_disk:
  assumes "hex_text T" "id_bytes i \<noteq> []" "is_issued T S k i L = (True, L')" "is_once (l_rows L' i)"
  shows "i \<in> spent T (l_used_file L')"
proof -
  have n: "fst (append_line f old l) \<Longrightarrow> append_line f old l = append_line None old l" for f old l
    by (cases f) (auto simp: append_line_def Let_def)
  have "l_used_file L' = snd (append_line None (l_used_file L) (na_to_hex T i @ [newline]))"
    using assms(3,4) by (cases rule: is_issued_cases [of T S k i L]) (auto simp: is_once_def dest!: n)
  then show ?thesis
    using hex_line [OF assms(1), of i] assms(1,2)
    by (simp add: spent_def append_line_filled hex_text_def List.map_filter_def)
qed

section \<open>Properties\<close>

text \<open>A concrete hex form and service parser, for the examples.\<close>

definition hexd :: "nat \<Rightarrow> char" where
  "hexd n = (if n < 10 then char_of (48 + n) else char_of (87 + n))"

definition unhexd :: "char \<Rightarrow> nat option" where
  "unhexd c = (if is_ascii_digit c then Some (code c - 48)
     else if 97 \<le> code c \<and> code c \<le> 102 then Some (code c - 87) else None)"

fun hex_of :: "bytes \<Rightarrow> string" where
  "hex_of [] = []"
| "hex_of (b # bs) = hexd (unat b div 16) # hexd (unat b mod 16) # hex_of bs"

fun unhex :: "string \<Rightarrow> bytes option" where
  "unhex [] = Some []"
| "unhex [c] = None"
| "unhex (c # d # s) = (case (unhexd c, unhexd d, unhex s) of
     (Some a, Some b, Some bs) \<Rightarrow> Some (of_nat (16 * a + b) # bs) | _ \<Rightarrow> None)"

definition example_text :: nauthy_text where
  "example_text = \<lparr>na_service = (\<lambda>s. Some (Service s)), na_to_hex = (\<lambda>i. hex_of (id_bytes i)),
     na_from_hex = (\<lambda>s. map_option RevocationId (unhex s))\<rparr>"

lemma unhexd_hexd: "n < 16 \<Longrightarrow> unhexd (hexd n) = Some n \<and> hex_char (hexd n)"
  by (auto simp: unhexd_def hexd_def hex_char_def is_ascii_digit_def code_char_of)

lemma unhex_hex_of: "unhex (hex_of bs) = Some bs \<and> (\<forall>c \<in> set (hex_of bs). hex_char c)"
proof (induction bs)
  case (Cons b bs)
  have "unat b < 256" using unsigned_less [of b, where 'a = nat] by simp
  then have "unat b div 16 < 16" "unat b mod 16 < 16" by auto
  then show ?case using Cons unhexd_hexd by simp
qed simp

lemma example_hex: "hex_text example_text"
proof -
  have "id_bytes i \<noteq> [] \<longrightarrow> hex_of (id_bytes i) \<noteq> []" for i by (cases "id_bytes i") auto
  then show ?thesis using unhex_hex_of by (simp add: hex_text_def example_text_def)
qed

definition example_stamps :: "nat stamps" where
  "example_stamps = \<lparr>stat_debounce = 0, unchanged = (\<lambda>a b. a = b)\<rparr>"

definition example_link :: grant_record where
  "example_link = \<lparr>g_target = Service ''web'', g_serves = None, g_kind = Once, g_delegation = Sealed,
     g_holder = ''-'', g_root_id = RevocationId [171], g_expiry = 5000000000\<rparr>"

definition example_links :: string where
  "example_links = to_line example_text example_link @ [newline]"

lemma example_link_ok: "record_ok example_text example_link"
  by (simp add: record_ok_def example_text_def example_link_def tab_def newline_def systime_ok_def NANOS_def)

lemma example_ledger_row: "is_once (ledger_rows example_text example_links (RevocationId [171]))"
proof -
  have "filled_lines example_links = [to_line example_text example_link]"
    using filled_line [of "to_line example_text example_link"] to_line_shape [OF example_hex example_link_ok]
    by (simp add: example_links_def)
  then have "records example_text example_links = [stored_record example_link]"
    by (simp add: records_def from_to_line [OF example_hex example_link_ok] List.map_filter_def)
  then show ?thesis
    by (simp add: ledger_rows_def stored_record_def example_link_def is_once_def issued_of_def)
qed

definition example_look :: "nat \<Rightarrow> string \<Rightarrow> nat look" where
  "example_look n t = \<lparr>at = n, meta = Meta (Some n), read_text = Contents t, append_fails = None\<rparr>"

definition example_ledger :: "nat ledger" where
  "example_ledger = \<lparr>l_bound = (\<lambda>_. None), l_rows = (\<lambda>_. None), l_used = {}, l_stamp = None,
     l_last_stat = None, l_readable = None, l_used_file = []\<rparr>"

definition example_id :: revocation_id where "example_id = RevocationId [171]"

definition example_asked :: "nat ledger" where
  "example_asked = snd (is_issued example_text example_stamps (example_look 1 example_links) example_id example_ledger)"

lemma example_refreshed:
  "l_rows (ledger_refresh example_text example_stamps (example_look 1 example_links) example_ledger) =
     ledger_rows example_text example_links"
  "l_used (ledger_refresh example_text example_stamps (example_look 1 example_links) example_ledger) = {}"
  "l_bound (ledger_refresh example_text example_stamps (example_look 1 example_links) example_ledger) = (\<lambda>_. None)"
  by (simp_all add: ledger_refresh_def example_ledger_def example_look_def example_stamps_def Let_def)

lemma example_ask:
  "is_issued example_text example_stamps (example_look 1 example_links) example_id example_ledger = (True, example_asked)"
  using example_ledger_row example_refreshed
  by (cases rule: is_issued_cases [of example_text example_stamps "example_look 1 example_links" example_id example_ledger])
    (auto simp: is_once_def bound_admits_def append_line_def example_look_def example_id_def example_asked_def Let_def
      split: option.splits)

lemma example_asked_once: "is_once (l_rows example_asked example_id)"
  using example_ledger_row example_refreshed(1) by (simp add: example_asked_def example_id_def)

lemma example_keeps: "keeps_row example_text example_id [example_look n example_links]"
  using example_ledger_row by (simp add: keeps_row_def texts_of_def example_look_def example_id_def)

text \<open>
  Issuing a link keeps the ledger. After an append that returned, the rows read back are the rows
  there were, less only rows that had expired when enough had to prune, followed by the new row with its
  expiry in whole seconds; a last line torn by a crash takes nothing of it.
\<close>
theorem append_keeps_ledger:
  assumes "hex_text T" "record_ok T r"
    and "grants_append T n now None (Contents old) r = Inr (ok, new)"
  shows "ok \<and> records T new =
     (if length (filter (row_expired T now) (lines old)) < n then records T old
      else filter (\<lambda>r. \<not> grant_expired now r) (records T old)) @ [stored_record r]"
proof -
  note shape = to_line_shape [OF assms(1,2)]
  let ?p = "prune_expired_at T n now old"
  have new: "new = snd (append_line None ?p (to_line T r @ [newline]))" and ok
    using assms(3) by (auto simp: grants_append_def append_line_def Let_def)
  have "filled_lines new = filled_lines ?p @ [to_line T r]"
    using append_line_filled [of "to_line T r" ?p] shape by (simp add: new)
  then show ?thesis using \<open>ok\<close> from_to_line [OF assms(1,2)]
    by (simp add: records_of_lines prune_filled records_filter map_filter_one)
qed

theorem append_keeps_ledger_witness:
  "records example_text (snd (append_line None ''torn'' (to_line example_text example_link @ [newline]))) =
     records example_text ''torn'' @ [stored_record example_link]"
proof -
  have "lines ''torn'' = [''torn'']" by (rule lines_one) (simp_all add: newline_def)
  then have l: "length (filter (row_expired example_text 0) (lines ''torn'')) < PRUNE_AT"
    by (simp add: PRUNE_AT_def)
  then have p: "prune_expired_at example_text PRUNE_AT 0 ''torn'' = ''torn''"
    by (simp add: prune_expired_at_def)
  have "grants_append example_text PRUNE_AT 0 None (Contents ''torn'') example_link =
      Inr (True, snd (append_line None ''torn'' (to_line example_text example_link @ [newline])))"
    by (simp add: grants_append_def p append_line_def Let_def)
  from append_keeps_ledger [OF example_hex example_link_ok this] l show ?thesis by simp
qed

text \<open>
  C9: A one-use link is admitted once. Once the gate has admitted it, it refuses it at every later
  ask of the run, through any re-reads and failed reads of the ledger, as long as each text it reads
  still lists the link as one-use.
\<close>
theorem once_link_admitted_once:
  assumes "is_issued T S k i L = (True, L')" "is_once (l_rows L' i)"
    and "keeps_row T i (map fst ks)" "n < length ks" "snd (ks ! n) = i"
  shows "\<not> fst (asks T S ks L') ! n"
  using once_spent_asks [OF once_spent_first [OF assms(1,2)] assms(3)] assms(4,5) by blast

theorem once_link_admitted_once_witness:
  "fst (is_issued example_text example_stamps (example_look 1 example_links) example_id example_ledger) \<and>
   \<not> fst (asks example_text example_stamps [(example_look 2 example_links, example_id)] example_asked) ! 0"
  using once_link_admitted_once [OF example_ask example_asked_once, of "[(example_look 2 example_links, example_id)]" 0]
    example_keeps example_ask by simp

text \<open>
  A spent one-use link stays spent across a restart. The admission is on disk before it is granted,
  no later append, failed or torn, takes it off, and a gate opened on that file refuses the link at
  every ask while the ledger still lists it as one-use.
\<close>
theorem spent_link_survives_restart:
  assumes "hex_text T" "id_bytes i \<noteq> []"
    and "is_issued T S k i L = (True, L1)" "is_once (l_rows L1 i)"
    and "ledger_open T S (Contents (l_used_file (snd (asks T S ks L1)))) bnd k0 = Inr L2"
    and "keeps_row T i (k0 # map fst ls)" "n < length ls" "snd (ls ! n) = i"
  shows "\<not> fst (asks T S ls L2) ! n"
proof -
  have "i \<in> spent T (l_used_file (snd (asks T S ks L1)))"
    using once_on_disk [OF assms(1,2,3,4)] asks_spent_mono by blast
  moreover have k: "keeps_row T i [k0]" "keeps_row T i (map fst ls)"
    using assms(6) by (auto simp: keeps_row_def texts_of_def)
  ultimately have "once_spent i \<lparr>l_bound = bnd, l_rows = (\<lambda>_. None),
      l_used = spent T (l_used_file (snd (asks T S ks L1))), l_stamp = None, l_last_stat = None,
      l_readable = None, l_used_file = l_used_file (snd (asks T S ks L1))\<rparr>" (is "once_spent i ?L0")
    by (simp add: once_spent_def)
  moreover have "L2 = ledger_refresh T S k0 ?L0" using assms(5) by (simp add: ledger_open_def Let_def)
  ultimately have "once_spent i L2" using once_spent_refresh [OF _ k(1)] by blast
  from once_spent_asks [OF this k(2)] assms(7,8) show ?thesis by blast
qed

theorem spent_link_survives_restart_witness:
  "\<exists>L. ledger_open example_text example_stamps (Contents (l_used_file example_asked)) (\<lambda>_. None)
      (example_look 2 example_links) = Inr L \<and>
    \<not> fst (asks example_text example_stamps [(example_look 3 example_links, example_id)] L) ! 0"
proof -
  obtain L where o: "ledger_open example_text example_stamps (Contents (l_used_file (snd (asks example_text
      example_stamps [] example_asked)))) (\<lambda>_. None) (example_look 2 example_links) = Inr L"
    by (simp add: ledger_open_def Let_def)
  have k: "keeps_row example_text example_id
      (example_look 2 example_links # map fst [(example_look 3 example_links, example_id)])"
    using example_keeps [of 2] example_keeps [of 3] by (auto simp: keeps_row_def texts_of_def)
  have n: "id_bytes example_id \<noteq> []" by (simp add: example_id_def)
  from spent_link_survives_restart [OF example_hex n example_ask example_asked_once o k, of 0] o
  show ?thesis by simp
qed

text \<open>
  The gate admits only what this machine recorded, and fails closed. In every run of a gate, an
  admitted id is the root of a row in some text of the ledger it read, made for a target the name bound
  now admits, and the last look at the ledger could read it: an unreadable ledger admits no link.
\<close>
theorem ledger_admits_only_recorded:
  assumes "ledger_open T S used bnd k0 = Inr L0"
    and "is_issued T S k i (snd (asks T S ks L0)) = (True, L)"
  shows "l_readable L = Some True \<and>
     (\<exists>t \<in> texts_of (k0 # map fst ks @ [k]). \<exists>r \<in> set (records T t). g_root_id r = i \<and>
        bound_admits bnd (service_str (g_target r)) (g_serves r))"
proof -
  let ?L = "snd (asks T S ks L0)"
  have o: "rows_from T (texts_of [k0]) L0" "l_bound L0 = bnd" using rows_from_open [OF assms(1)] by auto
  have "rows_from T ((texts_of [k0] \<union> texts_of (map fst ks)) \<union> texts_of [k]) (snd (is_issued T S k i ?L))"
    by (rule rows_from_ask [OF rows_from_asks [OF o(1)]])
  moreover have "(texts_of [k0] \<union> texts_of (map fst ks)) \<union> texts_of [k] = texts_of (k0 # map fst ks @ [k])"
    by (auto simp: texts_of_def)
  ultimately have f: "rows_from T (texts_of (k0 # map fst ks @ [k])) L" using assms(2) by simp
  obtain row where row: "l_rows L i = Some row"
    "bound_admits bnd (service_str (i_service row)) (i_serves row)"
    using is_issued_True [OF assms(2)] is_issued_same(2) [of T S k i ?L] assms(2) o(2) by auto
  then obtain t where t: "t \<in> texts_of (k0 # map fst ks @ [k])" "l_rows L = ledger_rows T t" "l_readable L = Some True"
    using f by (auto simp: rows_from_def)
  then obtain r where "r \<in> set (records T t)" "g_root_id r = i" "row = issued_of r"
    using ledger_rows_record row(1) by metis
  then show ?thesis using t row(2) by (auto simp: issued_of_def)
qed

theorem ledger_admits_only_recorded_witness:
  "\<exists>r \<in> set (records example_text example_links). g_root_id r = example_id"
proof -
  let ?k = "example_look 1 example_links"
  let ?m = "\<lparr>at = 0, meta = MetaMissing, read_text = Missing, append_fails = None\<rparr>"
  obtain L0 where o: "ledger_open example_text example_stamps Missing (\<lambda>_. None) ?m = Inr L0"
    by (simp add: ledger_open_def Let_def)
  have L0: "l_rows (ledger_refresh example_text example_stamps ?k L0) = ledger_rows example_text example_links"
    "l_used (ledger_refresh example_text example_stamps ?k L0) = {}" "l_bound L0 = (\<lambda>_. None)"
    using o by (auto simp: ledger_open_def ledger_refresh_def example_look_def example_stamps_def Let_def)
  obtain L where a: "is_issued example_text example_stamps ?k example_id (snd (asks example_text example_stamps [] L0)) = (True, L)"
    using example_ledger_row L0
    by (cases rule: is_issued_cases [of example_text example_stamps ?k example_id L0])
      (auto simp: is_once_def bound_admits_def append_line_def example_look_def example_id_def Let_def
        split: option.splits)
  from ledger_admits_only_recorded [OF o a] show ?thesis
    by (auto simp: texts_of_def example_look_def)
qed

lemma example_refresh:
  "l_stamp L \<noteq> Some n \<Longrightarrow> ledger_refresh T example_stamps (example_look n t) L =
     L\<lparr>l_last_stat := Some n, l_rows := ledger_rows T t, l_used := {i \<in> l_used L. is_once (ledger_rows T t i)},
       l_stamp := Some n, l_readable := Some True\<rparr>"
  by (auto simp: ledger_refresh_def example_look_def example_stamps_def Let_def split: option.splits)

lemma example_admit:
  assumes "l_stamp L \<noteq> Some n" "l_bound L = (\<lambda>_. None)" "is_once (ledger_rows T t i)" "i \<notin> l_used L"
  shows "fst (is_issued T example_stamps (example_look n t) i L) \<and>
    l_stamp (snd (is_issued T example_stamps (example_look n t) i L)) = Some n"
proof -
  obtain row where r: "ledger_rows T t i = Some row" "i_once row"
    using assms(3) by (auto simp: is_once_def split: option.splits)
  show ?thesis using assms
    by (simp add: is_issued_def example_refresh r bound_admits_def append_line_def Let_def split_beta)
      (simp add: example_look_def)
qed

text \<open>
  A one-use link whose row a read of the ledger did not find (the file cut short for a moment, or the
  line edited) and a later read found again is admitted a second time: the read that missed the row
  also dropped the spend. The texts read in \<open>once_link_admitted_once\<close> must list the row for this reason.
\<close>
lemma once_link_readmitted:
  "fst (asks example_text example_stamps
     [(example_look 1 example_links, example_id), (example_look 2 [], example_id),
      (example_look 3 example_links, example_id)] example_ledger) = [True, False, True]"
proof -
  define L1 where "L1 = snd (is_issued example_text example_stamps (example_look 1 example_links) example_id example_ledger)"
  define L2 where "L2 = snd (is_issued example_text example_stamps (example_look 2 []) example_id L1)"
  have o: "is_once (ledger_rows example_text example_links example_id)"
    using example_ledger_row by (simp add: example_id_def)
  have e: "ledger_rows example_text [] = (\<lambda>_. None)"
    by (simp add: ledger_rows_def records_def filled_lines_def List.map_filter_def)
  have 1: "fst (is_issued example_text example_stamps (example_look 1 example_links) example_id example_ledger)"
    "l_stamp L1 = Some 1" "l_bound L1 = (\<lambda>_. None)"
    using example_admit [of example_ledger 1 example_text example_links example_id] o
    by (simp_all add: L1_def example_ledger_def)
  have 2: "\<not> fst (is_issued example_text example_stamps (example_look 2 []) example_id L1)"
    "l_stamp L2 = Some 2" "l_used L2 = {}" "l_bound L2 = (\<lambda>_. None)"
    using 1 by (simp_all add: L2_def is_issued_def example_refresh e is_once_def Let_def)
  have 3: "fst (is_issued example_text example_stamps (example_look 3 example_links) example_id L2)"
    using example_admit [of L2 3 example_text example_links example_id] o 2 by simp
  show ?thesis using 1(1) 2(1) 3 by (simp add: L2_def L1_def)
qed

text \<open>
  The warning about links made for another target misses none. \<^verbatim>\<open>LinksForAnother::first\<close> finds
  nothing exactly when no entry binds an engine that must never face an open gate under a name with a
  live, unrevoked link the bound target would not admit.
\<close>
theorem links_for_another_complete:
  "links_for_another_first es rs is_revoked now = None \<longleftrightarrow>
     \<not> (\<exists>e \<in> set es. \<exists>name t. never_public_entry e = Some (name, t) \<and>
         (\<exists>r \<in> set rs. for_another is_revoked now name t r))"
proof (induction es)
  case (Cons e es)
  have some: "fold (note_target name) xs (Some f) \<noteq> None" for name xs f
    by (induction xs arbitrary: f) (auto simp: note_target_def Let_def)
  have f: "fold (note_target name) xs None = None \<longleftrightarrow> xs = []" for name xs
  proof (cases xs)
    case (Cons x ys)
    obtain g where "note_target name x None = Some g" by (simp add: note_target_def)
    then show ?thesis using some [of name ys g] by (simp add: Cons)
  qed simp
  show ?case using Cons f by (auto simp: filter_empty_conv split: option.splits)
qed simp

end
