(* ===== verification/Home.thy ===== *)
theory Home
  imports Files Codec
begin

text \<open>
  What a node home holds, as the program reads it, and \<^verbatim>\<open>src/revoked.rs\<close>, the one reader and the one
  writer of \<^verbatim>\<open><home>/revoked\<close>. The files are the fields of one record, so that an operation is a
  function on it; the crates below (nauthy, bifrost, keystore) are records of their calls.
\<close>

section \<open>Keys and links\<close>

datatype node_id = NodeId bytes

record env =
  en_nauthy :: nauthy
  en_parse_node :: "string \<Rightarrow> node_id option"
  en_parse_key :: "string \<Rightarrow> verify_key option"
  en_verify_key :: "node_id \<Rightarrow> verify_key option"
  en_node_id :: "verify_key \<Rightarrow> node_id option"
  en_root :: "link \<Rightarrow> verify_key"
  en_expiry :: "link \<Rightarrow> systime option option"
  en_member_at :: "link \<Rightarrow> systime \<Rightarrow> verify_key \<Rightarrow> verify_key \<Rightarrow> bool"
  en_root_rid :: "link \<Rightarrow> revocation_id option"

section \<open>The store of revocations\<close>

datatype revocation = RevId revocation_id | RevKey verify_key

datatype denylist_error = DlIo string | DlParse nat | DlTooLarge | DlLost nat nat | DlOther string

text \<open>
  nauthy's store over some state \<open>'d\<close> of the file and its witness: what it holds, \<^verbatim>\<open>Denylist::load\<close>, and
  \<^verbatim>\<open>for_repair(path).revoke\<close>. It documents that a load gives the entries held and that a write adds
  its entries to them and drops none, or fails and changes nothing.
\<close>

record 'd denylist_ops =
  dl_entries :: "'d \<Rightarrow> revocation set"
  dl_load :: "'d \<Rightarrow> denylist_error + revocation set"
  dl_revoke :: "revocation list \<Rightarrow> 'd \<Rightarrow> denylist_error + 'd"

definition grow_only :: "'d denylist_ops \<Rightarrow> bool" where
  "grow_only D \<longleftrightarrow>
     (\<forall>d s. dl_load D d = Inr s \<longrightarrow> s = dl_entries D d) \<and>
     (\<forall>es d d'. dl_revoke D es d = Inr d' \<longrightarrow> dl_entries D d' = dl_entries D d \<union> set es)"

section \<open>The home\<close>

datatype text_read = NotText | Read file_read

datatype bytes_read = NoFile | BytesFailed string | Bytes bytes

text \<open>\<^verbatim>\<open>KeyFile::load\<close> and \<^verbatim>\<open>key_of\<close>: the key the header names, \<open>None\<close> when it is no usable key.\<close>

datatype key_load =
    KeyNone
  | KeyStored "node_id option"
  | KeyIo string
  | KeyPermissive
  | KeyOwner
  | KeyNotAFile
  | KeyOther

datatype trust_check = TrustOk | TrustMissing | TrustLoose | TrustFailed string

record 'd home =
  h_root_pub :: text_read
  h_key_cert :: text_read
  h_root_key_exists :: "string + bool"
  h_root_key :: key_load
  h_key :: key_load
  h_trust :: trust_check
  h_revoked :: 'd
  h_devices :: bytes_read
  h_conflict :: bytes_read
  h_invited_by :: bool

section \<open>Reading and adding revocations\<close>

datatype revoked_error = RvIo string | RvLoose | RvParse nat | RvTooLarge | RvLost nat nat

fun revoked_error_of :: "denylist_error \<Rightarrow> revoked_error" where
  "revoked_error_of (DlIo e) = RvIo e"
| "revoked_error_of (DlParse line) = RvParse line"
| "revoked_error_of DlTooLarge = RvTooLarge"
| "revoked_error_of (DlLost expected found) = RvLost expected found"
| "revoked_error_of (DlOther e) = RvIo e"

definition revoked_open :: "'d denylist_ops \<Rightarrow> 'd home \<Rightarrow> revoked_error + revocation set" where
  "revoked_open D H =
     (case h_trust H of
        TrustLoose \<Rightarrow> Inl RvLoose
      | TrustFailed e \<Rightarrow> Inl (RvIo e)
      | _ \<Rightarrow> map_err revoked_error_of (dl_load D (h_revoked H)))"

text \<open>The key file's load errors, which the readers of this machine's own key report their own way.\<close>

definition key_stored :: "key_load \<Rightarrow> string + node_id option option" where
  "key_stored k =
     (case k of
        KeyNone \<Rightarrow> Inr None
      | KeyStored n \<Rightarrow> Inr (Some n)
      | KeyIo e \<Rightarrow> Inl e
      | KeyPermissive \<Rightarrow> Inl ''loose modes''
      | KeyOwner \<Rightarrow> Inl ''another owner''
      | KeyNotAFile \<Rightarrow> Inl ''not a regular file''
      | KeyOther \<Rightarrow> Inl ''not a key file'')"

definition usable_own :: "env \<Rightarrow> node_id option option \<Rightarrow> verify_key option" where
  "usable_own E stored =
     (case stored of Some (Some n) \<Rightarrow> en_verify_key E n | _ \<Rightarrow> None)"

definition revoked_own_key :: "env \<Rightarrow> 'd home \<Rightarrow> revoked_error + verify_key option" where
  "revoked_own_key E H = bindR (map_err RvIo (key_stored (h_key H))) (\<lambda>stored. Inr (usable_own E stored))"

fun is_rev_key :: "revocation \<Rightarrow> bool" where
  "is_rev_key (RevKey _) = True"
| "is_rev_key (RevId _) = False"

definition keep_own :: "env \<Rightarrow> 'd home \<Rightarrow> revocation list \<Rightarrow> revoked_error + revocation list" where
  "keep_own E H entries =
     (if \<exists>e \<in> set entries. is_rev_key e then
        bindR (revoked_own_key E H) (\<lambda>own.
        Inr (case own of None \<Rightarrow> entries | Some k \<Rightarrow> filter (\<lambda>e. e \<noteq> RevKey k) entries))
      else Inr entries)"

definition revoked_add ::
  "env \<Rightarrow> 'd denylist_ops \<Rightarrow> revocation list \<Rightarrow> ('d home, revoked_error, unit) act" where
  "revoked_add E D entries H =
     (case keep_own E H entries of
        Inl e \<Rightarrow> (Inl e, H)
      | Inr entries \<Rightarrow>
          if entries = [] then (Inr (), H)
          else (case dl_revoke D entries (h_revoked H) of
              Inl e \<Rightarrow> (Inl (revoked_error_of e), H)
            | Inr d \<Rightarrow> (Inr (), H\<lparr>h_revoked := d\<rparr>)))"

definition home_revoked :: "'d denylist_ops \<Rightarrow> 'd home \<Rightarrow> revocation set" where
  "home_revoked D H = dl_entries D (h_revoked H)"

lemma revoked_open_entries: "grow_only D \<Longrightarrow> revoked_open D H = Inr s \<Longrightarrow> s = home_revoked D H"
  by (auto simp: revoked_open_def grow_only_def home_revoked_def map_err_Inr_iff split: trust_check.splits)

lemma revoked_add_others:
  "revoked_add E D es H = (r, H') \<Longrightarrow> \<exists>d. H' = H\<lparr>h_revoked := d\<rparr>"
  by (auto simp: revoked_add_def split: sum.splits if_splits) (metis home.surjective home.update_convs(7))+

lemma revoked_add_grows:
  "grow_only D \<Longrightarrow> revoked_add E D es H = (r, H') \<Longrightarrow> home_revoked D H \<subseteq> home_revoked D H'"
  by (auto simp: revoked_add_def home_revoked_def grow_only_def split: sum.splits if_splits)

definition own_key_of :: "env \<Rightarrow> 'd home \<Rightarrow> verify_key option" where
  "own_key_of E H = (case key_stored (h_key H) of Inl _ \<Rightarrow> None | Inr stored \<Rightarrow> usable_own E stored)"

text \<open>Every entry given is held after a write that returned well, but this machine's own key never is added.\<close>

lemma revoked_add_exact:
  assumes "grow_only D" "revoked_add E D es H = (Inr (), H')"
  shows "home_revoked D H' = home_revoked D H \<union> {e \<in> set es. \<forall>k. own_key_of E H = Some k \<longrightarrow> e \<noteq> RevKey k}"
proof -
  obtain fs where f: "keep_own E H es = Inr fs" using assms(2) by (auto simp: revoked_add_def split: sum.splits)
  have "set fs = {e \<in> set es. \<forall>k. own_key_of E H = Some k \<longrightarrow> e \<noteq> RevKey k}"
  proof (cases "\<exists>e \<in> set es. is_rev_key e")
    case True
    then obtain own where "own_key_of E H = own"
      "fs = (case own of None \<Rightarrow> es | Some k \<Rightarrow> filter (\<lambda>e. e \<noteq> RevKey k) es)"
      using f by (auto simp: keep_own_def revoked_own_key_def own_key_of_def bindR_Inr_iff map_err_Inr_iff)
    then show ?thesis by (cases own) auto
  next
    case False
    then show ?thesis using f by (auto simp: keep_own_def)
  qed
  moreover have "home_revoked D H' = home_revoked D H \<union> set fs"
    using assms f by (auto simp: revoked_add_def home_revoked_def grow_only_def split: sum.splits if_splits)
  ultimately show ?thesis by simp
qed

end
