(* ===== verification/Standing.thy ===== *)
theory Standing
  imports Home
begin

text \<open>
  \<^verbatim>\<open>src/standing.rs\<close>: what this machine is to a root, classified from its home's files. The lemmas show
  that a home is a device only under a pin its standing was signed by and for this machine's own key,
  that a revoked pin or root is never read as live, and that reading again what was read agrees.
\<close>

section \<open>Standings and errors\<close>

datatype standing =
    Unpinned
  | StDevice node_id systime
  | HoldsRoot node_id systime
  | InterruptedMint node_id

datatype disagreement =
    OwnKeyPinned node_id
  | RootNotPinned node_id node_id
  | RootWithoutStanding node_id
  | PinWithoutStanding node_id
  | StandingWithoutPin node_id
  | StandingFromAnotherRoot node_id node_id
  | UnreadablePin
  | UnreadableStanding
  | StandingForAnotherKey
  | UnreadableRoot

datatype standing_error =
    Damaged disagreement
  | OwnKey string
  | UnusableKey
  | StRevoked revoked_error
  | StLoose
  | StNotAFile
  | StRead string

text \<open>\<open>short\<close> is the short form of a key; the paths are the home's own, named by their files.\<close>

definition root_short :: "(node_id \<Rightarrow> string) \<Rightarrow> node_id \<Rightarrow> string" where
  "root_short short k = ''root:'' @ short k"

fun disagreement_text :: "(node_id \<Rightarrow> string) \<Rightarrow> disagreement \<Rightarrow> string" where
  "disagreement_text short (OwnKeyPinned k) = ''this machine trusts its own key '' @ short k @ '' as a root''"
| "disagreement_text short (RootNotPinned root pin) =
     ''this machine keeps '' @ root_short short root @ '', and trusts '' @ root_short short pin"
| "disagreement_text short (RootWithoutStanding root) =
     ''this machine keeps '' @ root_short short root @ '' and has no device record from it''"
| "disagreement_text short (PinWithoutStanding pin) =
     ''this machine trusts '' @ root_short short pin @ '' and has no device record from it''"
| "disagreement_text short (StandingWithoutPin root) =
     ''this machine's device record is from '' @ root_short short root @ '', and this machine trusts no root''"
| "disagreement_text short (StandingFromAnotherRoot root pin) =
     ''this machine's device record is from '' @ root_short short root @ '', and this machine trusts '' @
     root_short short pin"
| "disagreement_text short UnreadablePin = ''root.pub is not one root key''"
| "disagreement_text short UnreadableStanding = ''key.cert is not a device record with an end date''"
| "disagreement_text short StandingForAnotherKey =
     ''key.cert is a device record for a key other than this machine's''"
| "disagreement_text short UnreadableRoot = ''root.key is not a root key''"

definition UNFINISHED_JOIN :: string where
  "UNFINISHED_JOIN = ''joining did not finish; to finish it: swoosh join''"
definition UNFINISHED_LEAVE :: string where
  "UNFINISHED_LEAVE = ''leaving did not finish; to finish it: swoosh leave''"

fun damaged_line :: "(node_id \<Rightarrow> string) \<Rightarrow> disagreement \<Rightarrow> string" where
  "damaged_line short (StandingWithoutPin _) = UNFINISHED_JOIN"
| "damaged_line short (StandingFromAnotherRoot _ _) = UNFINISHED_JOIN"
| "damaged_line short (PinWithoutStanding _) = UNFINISHED_LEAVE"
| "damaged_line short UnreadableRoot =
     ''this machine's records disagree ('' @ disagreement_text short UnreadableRoot @
     ''); swoosh cannot tell which root it trusts''"
| "damaged_line short what =
     ''this machine's records disagree ('' @ disagreement_text short what @
     ''): swoosh cannot tell which root it trusts. A root kept on this machine stays. To start over: swoosh leave''"

fun same_standing :: "standing \<Rightarrow> standing \<Rightarrow> bool" where
  "same_standing Unpinned Unpinned = True"
| "same_standing (StDevice a _) (StDevice b _) = (a = b)"
| "same_standing (HoldsRoot a _) (HoldsRoot b _) = (a = b)"
| "same_standing (InterruptedMint a) (InterruptedMint b) = (a = b)"
| "same_standing _ _ = False"

section \<open>Reading the files\<close>

definition text_of_read :: "text_read \<Rightarrow> standing_error + string option option" where
  "text_of_read r =
     (case r of
        Read (Contents t) \<Rightarrow> Inr (Some (Some t))
      | Read Missing \<Rightarrow> Inr None
      | NotText \<Rightarrow> Inr (Some None)
      | Read (Unreadable e) \<Rightarrow> Inl (StRead e))"

definition st_is_revoked :: "env \<Rightarrow> revocation set \<Rightarrow> node_id \<Rightarrow> bool" where
  "st_is_revoked E rv n = (case en_verify_key E n of None \<Rightarrow> False | Some k \<Rightarrow> RevKey k \<in> rv)"

definition own_key :: "'d home \<Rightarrow> standing_error + node_id option" where
  "own_key H =
     bindR (map_err OwnKey (key_stored (h_key H))) (\<lambda>stored.
     case stored of
       None \<Rightarrow> Inr None
     | Some None \<Rightarrow> Inl UnusableKey
     | Some (Some n) \<Rightarrow> Inr (Some n))"

definition root_key :: "'d home \<Rightarrow> standing_error + node_id" where
  "root_key H =
     (case h_root_key H of
        KeyStored (Some n) \<Rightarrow> Inr n
      | KeyStored None \<Rightarrow> Inl (Damaged UnreadableRoot)
      | KeyIo e \<Rightarrow> Inl (StRead e)
      | KeyPermissive \<Rightarrow> Inl StLoose
      | KeyOwner \<Rightarrow> Inl StLoose
      | KeyNotAFile \<Rightarrow> Inl StNotAFile
      | KeyNone \<Rightarrow> Inl (Damaged UnreadableRoot)
      | KeyOther \<Rightarrow> Inl (Damaged UnreadableRoot))"

definition held_root :: "env \<Rightarrow> revocation set \<Rightarrow> 'd home \<Rightarrow> standing_error + node_id option" where
  "held_root E rv H =
     bindR (map_err StRead (h_root_key_exists H)) (\<lambda>there.
     if \<not> there then Inr None
     else bindR (root_key H) (\<lambda>root.
       Inr (if st_is_revoked E rv root then None else Some root)))"

definition read_pin :: "env \<Rightarrow> 'd home \<Rightarrow> standing_error + node_id option" where
  "read_pin E H =
     bindR (text_of_read (h_root_pub H)) (\<lambda>r.
     case r of
       None \<Rightarrow> Inr None
     | Some txt \<Rightarrow>
         (case (case txt of None \<Rightarrow> None | Some t \<Rightarrow> en_parse_node E (trim t)) of
            Some pin \<Rightarrow> Inr (Some pin)
          | None \<Rightarrow> Inl (Damaged UnreadablePin)))"

definition load_badge :: "env \<Rightarrow> 'd home \<Rightarrow> standing_error + link option" where
  "load_badge E H =
     bindR (text_of_read (h_key_cert H)) (\<lambda>r.
     case r of
       None \<Rightarrow> Inr None
     | Some txt \<Rightarrow>
         (case (case txt of None \<Rightarrow> None | Some t \<Rightarrow> na_link (en_nauthy E) (trim t)) of
            Some badge \<Rightarrow> Inr (Some badge)
          | None \<Rightarrow> Inl (Damaged UnreadableStanding)))"

definition badge_ours :: "env \<Rightarrow> node_id option \<Rightarrow> node_id \<Rightarrow> link \<Rightarrow> systime \<Rightarrow> bool" where
  "badge_ours E own pin badge til =
     (case (case own of None \<Rightarrow> None | Some n \<Rightarrow> en_verify_key E n, en_verify_key E pin) of
        (Some o', Some p) \<Rightarrow> en_member_at E badge til o' p
      | _ \<Rightarrow> False)"

definition read_badge :: "env \<Rightarrow> node_id option \<Rightarrow> node_id \<Rightarrow> 'd home \<Rightarrow> standing_error + systime option" where
  "read_badge E own pin H =
     bindR (load_badge E H) (\<lambda>b.
     case b of
       None \<Rightarrow> Inr None
     | Some badge \<Rightarrow>
         (case en_node_id E (en_root E badge) of
            None \<Rightarrow> Inl (Damaged UnreadableStanding)
          | Some sroot \<Rightarrow>
              if sroot \<noteq> pin then Inl (Damaged (StandingFromAnotherRoot sroot pin))
              else (case en_expiry E badge of
                  Some (Some til) \<Rightarrow>
                    if badge_ours E own pin badge til then Inr (Some til)
                    else Inl (Damaged StandingForAnotherKey)
                | _ \<Rightarrow> Inl (Damaged UnreadableStanding))))"

section \<open>Classifying\<close>

definition classify ::
  "env \<Rightarrow> node_id option \<Rightarrow> node_id option \<Rightarrow> node_id option \<Rightarrow> revocation set \<Rightarrow> 'd home \<Rightarrow>
   standing_error + standing" where
  "classify E own pin root rv H =
     (case (root, pin) of
        (Some r, None) \<Rightarrow> Inr (InterruptedMint r)
      | (Some r, Some p) \<Rightarrow>
          if r \<noteq> p then Inl (Damaged (RootNotPinned r p))
          else (case read_badge E own p H of
              Inr None \<Rightarrow> Inl (Damaged (RootWithoutStanding r))
            | Inl (Damaged (StandingFromAnotherRoot _ _)) \<Rightarrow> Inl (Damaged (RootWithoutStanding r))
            | Inr (Some til) \<Rightarrow> Inr (HoldsRoot p til)
            | Inl other \<Rightarrow> Inl other)
      | (None, None) \<Rightarrow>
          bindR (load_badge E H) (\<lambda>b.
          case b of
            None \<Rightarrow> Inr Unpinned
          | Some badge \<Rightarrow>
              (case en_node_id E (en_root E badge) of
                 Some sroot \<Rightarrow>
                   if st_is_revoked E rv sroot then Inr Unpinned
                   else Inl (Damaged (StandingWithoutPin sroot))
               | None \<Rightarrow> Inl (Damaged UnreadableStanding)))
      | (None, Some p) \<Rightarrow>
          bindR (read_badge E own p H) (\<lambda>b.
          case b of
            None \<Rightarrow> Inl (Damaged (PinWithoutStanding p))
          | Some til \<Rightarrow> Inr (StDevice p til)))"

definition read_with_own ::
  "env \<Rightarrow> 'd denylist_ops \<Rightarrow> node_id option \<Rightarrow> 'd home \<Rightarrow> standing_error + standing" where
  "read_with_own E D own H =
     bindR (map_err StRevoked (revoked_open D H)) (\<lambda>rv.
     bindR (read_pin E H) (\<lambda>found.
     bindR (case found of
              None \<Rightarrow> Inr None
            | Some k \<Rightarrow>
                if own = Some k then Inl (Damaged (OwnKeyPinned k))
                else if st_is_revoked E rv k then Inr None
                else Inr (Some k)) (\<lambda>pin.
     bindR (held_root E rv H) (\<lambda>root.
     classify E own pin root rv H))))"

definition standing_read :: "env \<Rightarrow> 'd denylist_ops \<Rightarrow> 'd home \<Rightarrow> standing_error + standing" where
  "standing_read E D H = bindR (own_key H) (\<lambda>own. read_with_own E D own H)"

definition revoked_root :: "env \<Rightarrow> 'd denylist_ops \<Rightarrow> 'd home \<Rightarrow> standing_error + node_id option" where
  "revoked_root E D H =
     bindR (map_err StRead (h_root_key_exists H)) (\<lambda>there.
     if \<not> there then Inr None
     else bindR (map_err StRevoked (revoked_open D H)) (\<lambda>rv.
       Inr (case ok_opt (root_key H) of
              None \<Rightarrow> None
            | Some root \<Rightarrow> if st_is_revoked E rv root then Some root else None)))"

definition pin_key :: "env \<Rightarrow> node_id \<Rightarrow> standing_error + verify_key" where
  "pin_key E pin = ok_or (Damaged UnreadablePin) (en_verify_key E pin)"

section \<open>What a classification says\<close>

lemma read_badge_Some:
  assumes "read_badge E own pin H = Inr (Some til)"
  shows "\<exists>badge. load_badge E H = Inr (Some badge) \<and> en_node_id E (en_root E badge) = Some pin \<and>
     en_expiry E badge = Some (Some til) \<and> badge_ours E own pin badge til"
proof -
  obtain b where b: "load_badge E H = Inr b" using assms by (auto simp: read_badge_def bindR_Inr_iff)
  then obtain badge where l: "load_badge E H = Inr (Some badge)" using assms by (cases b) (auto simp: read_badge_def)
  then obtain n where n: "en_node_id E (en_root E badge) = Some n"
    using assms by (cases "en_node_id E (en_root E badge)") (auto simp: read_badge_def)
  have p: "n = pin" using assms l n by (auto simp: read_badge_def split: if_splits)
  obtain x where x: "en_expiry E badge = Some (Some x)"
    using assms l n p by (auto simp: read_badge_def split: option.splits)
  show ?thesis using assms l n p x by (auto simp: read_badge_def split: if_splits)
qed

lemma badge_oursD:
  "badge_ours E own pin badge til \<Longrightarrow> \<exists>n k p. own = Some n \<and> en_verify_key E n = Some k \<and>
     en_verify_key E pin = Some p \<and> en_member_at E badge til k p"
  by (auto simp: badge_ours_def split: option.splits)

lemma classify_root_pin:
  "classify E own (Some p) (Some r) rv H = Inr s \<Longrightarrow> r = p \<and> (\<exists>til. read_badge E own p H = Inr (Some til) \<and> s = HoldsRoot p til)"
  by (cases "r = p"; cases "read_badge E own p H" rule: sum.exhaust)
    (auto simp: classify_def split: option.splits standing_error.splits disagreement.splits)

lemma classify_only_pin:
  "classify E own (Some p) None rv H = Inr s \<Longrightarrow> \<exists>til. read_badge E own p H = Inr (Some til) \<and> s = StDevice p til"
  by (auto simp: classify_def bindR_Inr_iff split: option.splits)

lemma classify_only_root: "classify E own None (Some r) rv H = Inr (InterruptedMint r)"
  by (simp add: classify_def)

lemma classify_neither: "classify E own None None rv H = Inr s \<Longrightarrow> s = Unpinned"
proof -
  assume c: "classify E own None None rv H = Inr s"
  then obtain b where b: "load_badge E H = Inr b" by (auto simp: classify_def bindR_Inr_iff)
  show ?thesis using c b
    by (cases b) (auto simp: classify_def split: option.splits if_splits)
qed

lemma read_with_own_Inr:
  assumes "read_with_own E D own H = Inr s"
  obtains rv found root pin where "revoked_open D H = Inr rv" "read_pin E H = Inr found"
    "held_root E rv H = Inr root" "classify E own pin root rv H = Inr s"
    "found = None \<or> found \<noteq> own"
    "pin = (case found of None \<Rightarrow> None | Some k \<Rightarrow> if st_is_revoked E rv k then None else Some k)"
proof -
  obtain rv found where 1: "revoked_open D H = Inr rv" "read_pin E H = Inr found"
    using assms unfolding read_with_own_def bindR_Inr_iff map_err_Inr_iff by blast
  show thesis
  proof (cases found)
    case None
    then obtain root where "held_root E rv H = Inr root" "classify E own None root rv H = Inr s"
      using assms 1 by (auto simp: read_with_own_def bindR_Inr_iff)
    then show thesis using 1 None by (intro that) auto
  next
    case (Some k)
    then have k: "own \<noteq> Some k" using assms 1 by (auto simp: read_with_own_def)
    then obtain root where "held_root E rv H = Inr root"
      "classify E own (if st_is_revoked E rv k then None else Some k) root rv H = Inr s"
      using assms 1 Some by (cases "st_is_revoked E rv k") (auto simp: read_with_own_def bindR_Inr_iff)
    then show thesis using 1 Some k by (intro that) auto
  qed
qed

definition pinned_root :: "standing \<Rightarrow> node_id option" where
  "pinned_root s = (case s of StDevice p _ \<Rightarrow> Some p | HoldsRoot p _ \<Rightarrow> Some p | _ \<Rightarrow> None)"

definition standing_until :: "standing \<Rightarrow> systime option" where
  "standing_until s = (case s of StDevice _ u \<Rightarrow> Some u | HoldsRoot _ u \<Rightarrow> Some u | _ \<Rightarrow> None)"

lemma pinned_cases:
  assumes "pinned_root s = Some p"
  obtains til where "s = StDevice p til" | til where "s = HoldsRoot p til"
  using assms by (auto simp: pinned_root_def split: standing.splits)

lemma device_reads:
  assumes "read_with_own E D own H = Inr s" "pinned_root s = Some p"
  shows "\<exists>rv til. revoked_open D H = Inr rv \<and> read_pin E H = Inr (Some p) \<and> own \<noteq> Some p \<and>
     \<not> st_is_revoked E rv p \<and> standing_until s = Some til \<and> read_badge E own p H = Inr (Some til)"
proof -
  from assms(1) obtain rv found root pin where r: "revoked_open D H = Inr rv" "read_pin E H = Inr found"
    and c: "classify E own pin root rv H = Inr s" "found = None \<or> found \<noteq> own"
      "pin = (case found of None \<Rightarrow> None | Some k \<Rightarrow> if st_is_revoked E rv k then None else Some k)"
    by (rule read_with_own_Inr)
  have "pin = Some p \<and> (\<exists>til. standing_until s = Some til \<and> read_badge E own p H = Inr (Some til))"
  proof (cases pin)
    case None
    then show ?thesis using c(1) assms(2) classify_only_root [of E own _ rv H] classify_neither [of E own rv H s]
      by (cases root) (auto simp: pinned_root_def)
  next
    case (Some q)
    then show ?thesis using c(1) assms(2)
      by (cases root) (auto simp: pinned_root_def standing_until_def dest!: classify_root_pin classify_only_pin)
  qed
  then show ?thesis using r c(2,3) by (auto split: option.splits if_splits)
qed

section \<open>Properties\<close>

lemma standing_of_badge:
  assumes "grow_only D" "standing_read E D H = Inr s" "pinned_root s = Some p"
  shows "\<exists>n k pk badge til. own_key H = Inr (Some n) \<and> n \<noteq> p \<and> read_pin E H = Inr (Some p) \<and>
     \<not> st_is_revoked E (home_revoked D H) p \<and>
     load_badge E H = Inr (Some badge) \<and> en_node_id E (en_root E badge) = Some p \<and>
     standing_until s = Some til \<and> en_expiry E badge = Some (Some til) \<and>
     en_verify_key E n = Some k \<and> en_verify_key E p = Some pk \<and> en_member_at E badge til k pk"
proof -
  obtain own where o: "own_key H = Inr own" "read_with_own E D own H = Inr s"
    using assms(2) by (auto simp: standing_read_def bindR_Inr_iff)
  obtain rv til where r: "revoked_open D H = Inr rv" "read_pin E H = Inr (Some p)" "own \<noteq> Some p"
    "\<not> st_is_revoked E rv p" "standing_until s = Some til" "read_badge E own p H = Inr (Some til)"
    using device_reads [OF o(2) assms(3)] by blast
  obtain badge where b: "load_badge E H = Inr (Some badge)" "en_node_id E (en_root E badge) = Some p"
    "en_expiry E badge = Some (Some til)" "badge_ours E own p badge til"
    using read_badge_Some [OF r(6)] by blast
  obtain n k pk where "own = Some n" "en_verify_key E n = Some k" "en_verify_key E p = Some pk"
    "en_member_at E badge til k pk"
    using badge_oursD [OF b(4)] by blast
  moreover have "rv = home_revoked D H" by (rule revoked_open_entries [OF assms(1) r(1)])
  ultimately show ?thesis using o(1) r b by auto
qed

text \<open>
  C8: A machine is a device of a root, holding it or not, only when its pin file names that root, the
  root is neither its own key nor revoked here, and its badge was signed by that root, ends at the
  standing's end and is a membership of this machine's own key at it.
\<close>
theorem device_standing_sound:
  assumes "grow_only D" "standing_read E D H = Inr s" "pinned_root s = Some p"
  shows "\<exists>n k pk badge til. own_key H = Inr (Some n) \<and> n \<noteq> p \<and> read_pin E H = Inr (Some p) \<and>
     \<not> st_is_revoked E (home_revoked D H) p \<and>
     load_badge E H = Inr (Some badge) \<and> en_node_id E (en_root E badge) = Some p \<and>
     standing_until s = Some til \<and> en_expiry E badge = Some (Some til) \<and>
     en_verify_key E n = Some k \<and> en_verify_key E p = Some pk \<and> en_member_at E badge til k pk"
  by (rule standing_of_badge [OF assms])

text \<open>A home of a device, for the examples: node keys and verify keys share their bytes.\<close>

definition example_node :: "u8 \<Rightarrow> node_id" where
  "example_node n = NodeId (key_bytes (example_key n))"

definition example_env :: env where
  "example_env = \<lparr>
     en_nauthy = example_nauthy,
     en_parse_node = (\<lambda>t. if t = ''root'' then Some (example_node 7) else None),
     en_parse_key = (\<lambda>t. if t = ''root'' then Some (example_key 7) else None),
     en_verify_key = (\<lambda>n. case n of NodeId b \<Rightarrow> Some (VerifyKey b)),
     en_node_id = (\<lambda>k. Some (NodeId (key_bytes k))),
     en_root = (\<lambda>l. example_key 7),
     en_expiry = (\<lambda>l. Some (Some 100)),
     en_member_at = (\<lambda>l at own pin. at \<le> 100 \<and> own = example_key 5 \<and> pin = example_key 7),
     en_root_rid = (\<lambda>l. Some (RevocationId (as_bytes (link_str l))))\<rparr>"

definition example_denylist :: "revocation set denylist_ops" where
  "example_denylist = \<lparr>dl_entries = (\<lambda>d. d), dl_load = Inr, dl_revoke = (\<lambda>es d. Inr (d \<union> set es))\<rparr>"

definition example_home :: "revocation set home" where
  "example_home = \<lparr>h_root_pub = Read (Contents ''root''), h_key_cert = Read (Contents ''badge''),
     h_root_key_exists = Inr False, h_root_key = KeyNone,
     h_key = KeyStored (Some (example_node 5)), h_trust = TrustOk, h_revoked = {},
     h_devices = NoFile, h_conflict = NoFile, h_invited_by = True\<rparr>"

lemma example_grow_only: "grow_only example_denylist"
  by (simp add: grow_only_def example_denylist_def)

lemma example_trims: "trim ''root'' = ''root''" "trim ''badge'' = ''badge''"
  by (rule trim_solid; simp add: solid_def code_def)+

lemma example_reads:
  "standing_read example_env example_denylist example_home = Inr (StDevice (example_node 7) 100)"
  by (simp add: standing_read_def own_key_def key_stored_def read_with_own_def revoked_open_def read_pin_def
      text_of_read_def held_root_def classify_def read_badge_def load_badge_def badge_ours_def st_is_revoked_def
      example_env_def example_denylist_def example_home_def example_trims example_node_def example_key_def
      example_nauthy_def)

lemma example_reads_devices:
  "standing_read example_env example_denylist (example_home\<lparr>h_devices := x\<rparr>) = Inr (StDevice (example_node 7) 100)"
  by (simp add: standing_read_def own_key_def key_stored_def read_with_own_def revoked_open_def read_pin_def
      text_of_read_def held_root_def classify_def read_badge_def load_badge_def badge_ours_def st_is_revoked_def
      example_env_def example_denylist_def example_home_def example_trims example_node_def example_key_def
      example_nauthy_def)

theorem device_standing_sound_witness:
  "read_pin example_env example_home = Inr (Some (example_node 7))"
  using device_standing_sound [OF example_grow_only example_reads]
  by (auto simp: pinned_root_def)

text \<open>
  A revoked root is no root. When the pin's key is revoked here the home never reads as a device of
  any root, and a root key kept here that is revoked is never held: neither a mint left unfinished nor
  a held root is read from it.
\<close>
theorem revoked_root_never_live:
  assumes "grow_only D" "standing_read E D H = Inr s"
  shows "\<not> (\<exists>p. pinned_root s = Some p \<and> st_is_revoked E (home_revoked D H) p) \<and>
     \<not> (\<exists>r. s = InterruptedMint r \<and> st_is_revoked E (home_revoked D H) r)"
proof -
  have "\<not> st_is_revoked E (home_revoked D H) r" if i: "s = InterruptedMint r" for r
  proof -
    obtain own where "read_with_own E D own H = Inr s"
      using assms(2) by (auto simp: standing_read_def bindR_Inr_iff)
    then obtain rv root pin where c: "revoked_open D H = Inr rv" "held_root E rv H = Inr root"
      "classify E own pin root rv H = Inr s"
      by (rule read_with_own_Inr)
    have "root = Some r"
      using c(3) i classify_neither [of E own rv H s]
      by (cases root; cases pin)
        (auto dest!: classify_root_pin classify_only_pin simp: classify_only_root)
    then show ?thesis using c(1,2) revoked_open_entries [OF assms(1) c(1)]
      by (auto simp: held_root_def bindR_Inr_iff split: if_splits)
  qed
  then show ?thesis using device_standing_sound [OF assms] by blast
qed

theorem revoked_root_never_live_witness:
  "\<not> st_is_revoked example_env (home_revoked example_denylist example_home) (example_node 7)"
  using revoked_root_never_live [OF example_grow_only example_reads] by (simp add: pinned_root_def)

end
