(* ===== verification/Fold.thy ===== *)
theory Fold
  imports Standing Roster
begin

text \<open>
  \<^verbatim>\<open>src/roster/fold.rs\<close>: how an update reaches this machine's files. The fold compares an update with
  the one held, adds its revocations, takes a newer standing from it and keeps a fork as evidence.
  The lemmas show that revocations only grow, that the update held only moves to a higher number
  its root signed, that a fork never becomes it, and what an accepted update leaves in the files.
\<close>

section \<open>Outcomes\<close>

datatype folded = NotNewer | Same | Fork u64 | Newer

datatype fold_error =
    NotADevice
  | FoStanding standing_error
  | FoTooLarge
  | FoVerify verify_error
  | FoRevoked revoked_error
  | FoArtifact string
  | FoIo string
  | FoContacts string
  | FoWrite string
  | FoLock string
  | FoPanic

text \<open>What one fold observes: the clock at each of its three reads, and the failure of each write.\<close>

record fold_obs =
  fo_revoke_now :: systime
  fo_pick_now :: systime
  fo_carry_now :: systime
  fo_devices_fails :: "string option"
  fo_conflict_fails :: "string option"
  fo_badge_fails :: "string option"
  fo_remove_fails :: "string option"
  fo_invited_fails :: bool

definition unix_now :: "systime \<Rightarrow> u64" where
  "unix_now t = (case since_epoch t of None \<Rightarrow> 0 | Some s \<Rightarrow> s)"

section \<open>The update held\<close>

definition read_held_or_error :: "env \<Rightarrow> bytes_read \<Rightarrow> verify_key \<Rightarrow> string + (roster_doc \<times> bytes) option" where
  "read_held_or_error E file root =
     (case file of
        NoFile \<Rightarrow> Inr None
      | BytesFailed e \<Rightarrow> Inl e
      | Bytes b \<Rightarrow>
          if length b > MAX_ROSTER_BLOB then Inr None
          else Inr (map_option (\<lambda>d. (d, b)) (ok_opt (roster_verify (en_nauthy E) b root))))"

definition read_held :: "env \<Rightarrow> bytes_read \<Rightarrow> verify_key \<Rightarrow> (roster_doc \<times> bytes) option" where
  "read_held E file root =
     (case read_held_or_error E file root of Inl _ \<Rightarrow> None | Inr held \<Rightarrow> held)"

definition carries :: "u64 \<Rightarrow> roster_doc \<Rightarrow> roster_doc \<Rightarrow> bool" where
  "carries now doc fork \<longleftrightarrow>
     (\<forall>i \<in> set (filter (\<lambda>i. expires i > now) (revoked fork)). \<exists>c \<in> set (revoked doc). rid c = rid i) \<and>
     (\<forall>k \<in> set (revoked_keys fork). is_revoked_key doc k)"

section \<open>The steps of a fold\<close>

definition doc_revocations :: "u64 \<Rightarrow> roster_doc \<Rightarrow> revocation list" where
  "doc_revocations now doc =
     map (\<lambda>i. RevId (rid i)) (filter (\<lambda>i. expires i > now) (revoked doc)) @ map RevKey (revoked_keys doc)"

definition map_errS :: "('e \<Rightarrow> 'f) \<Rightarrow> ('s, 'e, 'a) act \<Rightarrow> ('s, 'f, 'a) act" where
  "map_errS g m s = (case m s of (r, t) \<Rightarrow> (map_err g r, t))"

definition fold_revoke ::
  "env \<Rightarrow> 'd denylist_ops \<Rightarrow> fold_obs \<Rightarrow> roster_doc \<Rightarrow> ('d home, fold_error, unit) act" where
  "fold_revoke E D ob doc =
     map_errS FoRevoked (revoked_add E D (doc_revocations (unix_now (fo_revoke_now ob)) doc))"

definition pick_up ::
  "env \<Rightarrow> fold_obs \<Rightarrow> roster_doc \<Rightarrow> verify_key \<Rightarrow> systime \<Rightarrow> ('d home, fold_error, unit) act" where
  "pick_up E ob doc pin badge_until H =
     (case key_stored (h_key H) of
        Inl e \<Rightarrow> (Inl (FoWrite e), H)
      | Inr stored \<Rightarrow>
          (case usable_own E stored of
             None \<Rightarrow> (Inr (), H)
           | Some own \<Rightarrow>
               (case find (\<lambda>m. m_node m = own) (members doc) of
                  None \<Rightarrow> (Inr (), H)
                | Some m \<Rightarrow>
                    (case epoch_plus (m_until m) of
                       None \<Rightarrow> (Inl FoPanic, H)
                     | Some ends \<Rightarrow>
                         let bnd = en_member_at E (m_standing m) (fo_pick_now ob) own pin;
                             rvk = is_revoked_key doc own \<or>
                               (case en_root_rid E (m_standing m) of
                                  None \<Rightarrow> False
                                | Some i \<Rightarrow> \<exists>r \<in> set (revoked doc). rid r = i)
                         in if bnd \<and> ends > badge_until \<and> \<not> rvk then
                              (case fo_badge_fails ob of
                                 Some e \<Rightarrow> (Inl (FoIo e), H)
                               | None \<Rightarrow> (Inr (), H\<lparr>h_key_cert :=
                                   Read (Contents (link_str (m_standing m) @ [newline]))\<rparr>))
                            else (Inr (), H)))))"

definition write_devices :: "fold_obs \<Rightarrow> bytes \<Rightarrow> ('d home, fold_error, unit) act" where
  "write_devices ob b H =
     (case fo_devices_fails ob of
        Some e \<Rightarrow> (Inl (FoArtifact e), H)
      | None \<Rightarrow> (Inr (), H\<lparr>h_devices := Bytes b\<rparr>))"

definition forget_invited_by :: "fold_obs \<Rightarrow> ('d home, fold_error, unit) act" where
  "forget_invited_by ob H = (Inr (), if fo_invited_fails ob then H else H\<lparr>h_invited_by := False\<rparr>)"

definition keep_fork :: "env \<Rightarrow> fold_obs \<Rightarrow> bytes \<Rightarrow> verify_key \<Rightarrow> ('d home, fold_error, unit) act" where
  "keep_fork E ob b pin H =
     (if read_held E (h_conflict H) pin = None then
        (case fo_conflict_fails ob of
           Some e \<Rightarrow> (Inl (FoArtifact e), H)
         | None \<Rightarrow> (Inr (), H\<lparr>h_conflict := Bytes b\<rparr>))
      else (Inr (), H))"

definition clear_fork :: "env \<Rightarrow> fold_obs \<Rightarrow> roster_doc \<Rightarrow> verify_key \<Rightarrow> ('d home, fold_error, unit) act" where
  "clear_fork E ob doc pin H =
     (case read_held E (h_conflict H) pin of
        None \<Rightarrow> (Inr (), H)
      | Some (fork, _) \<Rightarrow>
          if carries (unix_now (fo_carry_now ob)) doc fork then
            (case fo_remove_fails ob of
               Some e \<Rightarrow> (Inl (FoIo e), H)
             | None \<Rightarrow> (Inr (), H\<lparr>h_conflict := NoFile\<rparr>))
          else (Inr (), H))"

text \<open>What both folds start with: this machine's pin, and the update verified under it.\<close>

definition fold_pin :: "env \<Rightarrow> 'd denylist_ops \<Rightarrow> 'd home \<Rightarrow> fold_error + verify_key \<times> systime" where
  "fold_pin E D H =
     bindR (map_err FoStanding (standing_read E D H)) (\<lambda>st.
     bindR (case st of
              StDevice p til \<Rightarrow> Inr (p, til)
            | HoldsRoot p til \<Rightarrow> Inr (p, til)
            | _ \<Rightarrow> Inl NotADevice) (\<lambda>(p, til).
     bindR (map_err FoStanding (pin_key E p)) (\<lambda>pin.
     Inr (pin, til))))"

definition fold_doc :: "env \<Rightarrow> bytes \<Rightarrow> verify_key \<Rightarrow> fold_error + roster_doc" where
  "fold_doc E b pin =
     (if length b > MAX_ROSTER_BLOB then Inl FoTooLarge
      else map_err FoVerify (roster_verify (en_nauthy E) b pin))"

section \<open>The two folds\<close>

definition fold_update ::
  "env \<Rightarrow> 'd denylist_ops \<Rightarrow> fold_obs \<Rightarrow> bytes \<Rightarrow> ('d home, fold_error, folded) act" where
  "fold_update E D ob b =
     bindS (getS (fold_pin E D)) (\<lambda>(pin, badge_until).
     bindS (liftS (fold_doc E b pin)) (\<lambda>doc.
     bindS (getS (\<lambda>H. Inr (read_held E (h_devices H) pin))) (\<lambda>held.
     let floor = (case held of None \<Rightarrow> UNVERSIONED | Some (h, _) \<Rightarrow> epoch h) in
     if epoch doc < floor then liftS (Inr NotNewer)
     else if epoch doc = floor then
       (case held of
          None \<Rightarrow> liftS (Inr NotNewer)
        | Some (_, hb) \<Rightarrow>
            if hb = b then liftS (Inr Same)
            else
              bindS (fold_revoke E D ob doc) (\<lambda>_.
              bindS (keep_fork E ob b pin) (\<lambda>_.
              liftS (Inr (Fork floor)))))
     else
       bindS (fold_revoke E D ob doc) (\<lambda>_.
       bindS (pick_up E ob doc pin badge_until) (\<lambda>_.
       bindS (write_devices ob b) (\<lambda>_.
       bindS (forget_invited_by ob) (\<lambda>_.
       bindS (clear_fork E ob doc pin) (\<lambda>_.
       liftS (Inr Newer)))))))))"

definition fold_fork ::
  "env \<Rightarrow> 'd denylist_ops \<Rightarrow> fold_obs \<Rightarrow> bytes \<Rightarrow> ('d home, fold_error, unit) act" where
  "fold_fork E D ob b =
     bindS (getS (fold_pin E D)) (\<lambda>(pin, _).
     bindS (liftS (fold_doc E b pin)) (\<lambda>fork.
     bindS (getS (\<lambda>H. Inr (read_held E (h_devices H) pin))) (\<lambda>held.
     if (case held of None \<Rightarrow> False
         | Some (h, hb) \<Rightarrow> hb = b \<or> carries (unix_now (fo_carry_now ob)) h fork)
     then liftS (Inr ())
     else
       bindS (fold_revoke E D ob fork) (\<lambda>_.
       keep_fork E ob b pin))))"

section \<open>What each step changes\<close>

text \<open>The fields a step leaves alone, and the order of the revocations, as relations along a call.\<close>

definition grows :: "'d denylist_ops \<Rightarrow> 'd home \<Rightarrow> 'd home \<Rightarrow> bool" where
  "grows D H H' \<longleftrightarrow> home_revoked D H \<subseteq> home_revoked D H'"

definition same_devices :: "'d home \<Rightarrow> 'd home \<Rightarrow> bool" where
  "same_devices H H' \<longleftrightarrow> h_devices H' = h_devices H"

definition same_badge :: "'d home \<Rightarrow> 'd home \<Rightarrow> bool" where
  "same_badge H H' \<longleftrightarrow> h_key_cert H' = h_key_cert H"

text \<open>What no fold ever touches: the pin, the root key, this machine's key and the trust check.\<close>

definition same_root :: "'d home \<Rightarrow> 'd home \<Rightarrow> bool" where
  "same_root H H' \<longleftrightarrow> h_root_pub H' = h_root_pub H \<and> h_root_key_exists H' = h_root_key_exists H \<and>
     h_root_key H' = h_root_key H \<and> h_key H' = h_key H \<and> h_trust H' = h_trust H"

lemma rel_order:
  "reflp (grows D)" "transp (grows D)" "reflp same_devices" "transp same_devices"
  "reflp same_badge" "transp same_badge" "reflp same_root" "transp same_root"
  by (auto simp: reflp_def transp_def grows_def same_devices_def same_badge_def same_root_def)

lemmas rels = grows_def same_devices_def same_badge_def same_root_def

lemma along_map_errS: "along R m \<Longrightarrow> along R (map_errS g m)"
  by (simp add: along_def map_errS_def split_beta)

lemma fold_revoke_along:
  "along same_devices (fold_revoke E D ob doc)" "along same_badge (fold_revoke E D ob doc)"
  "along same_root (fold_revoke E D ob doc)" "grow_only D \<Longrightarrow> along (grows D) (fold_revoke E D ob doc)"
proof -
  have "same_devices H (snd (revoked_add E D es H)) \<and> same_badge H (snd (revoked_add E D es H)) \<and>
      same_root H (snd (revoked_add E D es H))" for es H
  proof -
    obtain r H' where e: "revoked_add E D es H = (r, H')" by (cases "revoked_add E D es H")
    then obtain d where "H' = H\<lparr>h_revoked := d\<rparr>" using revoked_add_others by blast
    then show ?thesis by (simp add: e rels)
  qed
  then show "along same_devices (fold_revoke E D ob doc)" "along same_badge (fold_revoke E D ob doc)"
    "along same_root (fold_revoke E D ob doc)"
    by (simp_all add: fold_revoke_def along_def map_errS_def split_beta)
  show "grow_only D \<Longrightarrow> along (grows D) (fold_revoke E D ob doc)"
  proof -
    assume g: "grow_only D"
    have "grows D H (snd (revoked_add E D es H))" for es H
      using revoked_add_grows [OF g, of E es H] by (cases "revoked_add E D es H") (simp add: grows_def)
    then show ?thesis unfolding fold_revoke_def by (intro along_map_errS) (simp add: along_def)
  qed
qed


lemma step_cases:
  "snd (pick_up E ob doc pin til H) = H \<or> (\<exists>l. snd (pick_up E ob doc pin til H) = H\<lparr>h_key_cert := l\<rparr>)"
  "snd (write_devices ob b H) = H \<or> snd (write_devices ob b H) = H\<lparr>h_devices := Bytes b\<rparr>"
  "snd (forget_invited_by ob H) = H \<or> snd (forget_invited_by ob H) = H\<lparr>h_invited_by := False\<rparr>"
  "snd (keep_fork E ob b pin H) = H \<or> snd (keep_fork E ob b pin H) = H\<lparr>h_conflict := Bytes b\<rparr>"
  "snd (clear_fork E ob doc pin H) = H \<or> snd (clear_fork E ob doc pin H) = H\<lparr>h_conflict := NoFile\<rparr>"
  by (auto simp: pick_up_def write_devices_def forget_invited_by_def keep_fork_def clear_fork_def Let_def
      split: sum.splits option.splits)

lemma grows_revoked: "h_revoked H' = h_revoked H \<Longrightarrow> grows D H H'"
  by (simp add: grows_def home_revoked_def)

lemma along_badge:
  assumes "\<And>H. snd (m H) = H \<or> (\<exists>x. snd (m H) = H\<lparr>h_key_cert := x\<rparr>)"
  shows "along (grows D) m" "along same_root m" "along same_devices m"
proof -
  have "(grows D) H (snd (m H)) \<and> same_root H (snd (m H)) \<and> same_devices H (snd (m H))" for H
    using assms [of H]
    by (elim disjE exE; simp add: rels home_revoked_def)
  then show "along (grows D) m" "along same_root m" "along same_devices m" by (simp_all add: along_def)
qed

lemma along_devices:
  assumes "\<And>H. snd (m H) = H \<or> (\<exists>x. snd (m H) = H\<lparr>h_devices := x\<rparr>)"
  shows "along (grows D) m" "along same_root m" "along same_badge m"
proof -
  have "(grows D) H (snd (m H)) \<and> same_root H (snd (m H)) \<and> same_badge H (snd (m H))" for H
    using assms [of H]
    by (elim disjE exE; simp add: rels home_revoked_def)
  then show "along (grows D) m" "along same_root m" "along same_badge m" by (simp_all add: along_def)
qed

lemma along_invited:
  assumes "\<And>H. snd (m H) = H \<or> (\<exists>x. snd (m H) = H\<lparr>h_invited_by := x\<rparr>)"
  shows "along (grows D) m" "along same_root m" "along same_devices m" "along same_badge m"
proof -
  have "(grows D) H (snd (m H)) \<and> same_root H (snd (m H)) \<and> same_devices H (snd (m H)) \<and> same_badge H (snd (m H))" for H
    using assms [of H]
    by (elim disjE exE; simp add: rels home_revoked_def)
  then show "along (grows D) m" "along same_root m" "along same_devices m" "along same_badge m" by (simp_all add: along_def)
qed

lemma along_conflict:
  assumes "\<And>H. snd (m H) = H \<or> (\<exists>x. snd (m H) = H\<lparr>h_conflict := x\<rparr>)"
  shows "along (grows D) m" "along same_root m" "along same_devices m" "along same_badge m"
proof -
  have "(grows D) H (snd (m H)) \<and> same_root H (snd (m H)) \<and> same_devices H (snd (m H)) \<and> same_badge H (snd (m H))" for H
    using assms [of H]
    by (elim disjE exE; simp add: rels home_revoked_def)
  then show "along (grows D) m" "along same_root m" "along same_devices m" "along same_badge m" by (simp_all add: along_def)
qed

lemma pick_up_along:
  "along (grows D) (pick_up E ob doc pin til)"
  "along same_root (pick_up E ob doc pin til)"
  "along same_devices (pick_up E ob doc pin til)"
  by (rule along_badge; use step_cases(1) in blast)+

lemma write_devices_along:
  "along (grows D) (write_devices ob b)"
  "along same_root (write_devices ob b)"
  "along same_badge (write_devices ob b)"
  by (rule along_devices; use step_cases(2) in blast)+

lemma forget_along:
  "along (grows D) (forget_invited_by ob)"
  "along same_root (forget_invited_by ob)"
  "along same_devices (forget_invited_by ob)"
  "along same_badge (forget_invited_by ob)"
  by (rule along_invited; use step_cases(3) in blast)+

lemma keep_fork_along:
  "along (grows D) (keep_fork E ob b pin)"
  "along same_root (keep_fork E ob b pin)"
  "along same_devices (keep_fork E ob b pin)"
  "along same_badge (keep_fork E ob b pin)"
  by (rule along_conflict; use step_cases(4) in blast)+

lemma clear_fork_along:
  "along (grows D) (clear_fork E ob doc pin)"
  "along same_root (clear_fork E ob doc pin)"
  "along same_devices (clear_fork E ob doc pin)"
  "along same_badge (clear_fork E ob doc pin)"
  by (rule along_conflict; use step_cases(5) in blast)+

lemmas steps_along = pick_up_along write_devices_along forget_along keep_fork_along clear_fork_along

lemma fold_along:
  assumes r: "reflp R" "transp R"
    and s: "\<And>doc. along R (fold_revoke E D ob doc)" "\<And>doc pin til. along R (pick_up E ob doc pin til)"
      "along R (write_devices ob b)" "along R (forget_invited_by ob)"
      "\<And>pin. along R (keep_fork E ob b pin)" "\<And>doc pin. along R (clear_fork E ob doc pin)"
  shows "along R (fold_update E D ob b)"
  unfolding fold_update_def
  by (intro along_bindS r(2) along_liftS r(1) allI | clarsimp split: option.split simp: Let_def | intro conjI impI allI s)+

lemma fork_along:
  assumes r: "reflp R" "transp R"
    and s: "\<And>doc. along R (fold_revoke E D ob doc)" "\<And>pin. along R (keep_fork E ob b pin)"
  shows "along R (fold_fork E D ob b)"
  unfolding fold_fork_def
  by (intro along_bindS r(2) along_liftS r(1) allI | clarsimp split: option.split simp: Let_def | intro conjI impI allI s)+


section \<open>Folds in sequence\<close>

text \<open>Any fold, well ended or not, is a step of the home.\<close>

inductive fold_step :: "env \<Rightarrow> 'd denylist_ops \<Rightarrow> 'd home \<Rightarrow> 'd home \<Rightarrow> bool" for E D where
  update: "fold_step E D H (snd (fold_update E D ob b H))"
| fork: "fold_step E D H (snd (fold_fork E D ob b H))"

lemma fold_step_along:
  assumes "fold_step E D H H'" "reflp R" "transp R"
    "\<And>ob doc. along R (fold_revoke E D ob doc)" "\<And>ob doc pin til. along R (pick_up E ob doc pin til)"
    "\<And>ob b. along R (write_devices ob b)" "\<And>ob. along R (forget_invited_by ob)"
    "\<And>ob b pin. along R (keep_fork E ob b pin)" "\<And>ob doc pin. along R (clear_fork E ob doc pin)"
  shows "R H H'"
  using assms(1)
proof cases
  case (update ob b)
  have "along R (fold_update E D ob b)" by (rule fold_along; fact assms)
  then show ?thesis by (simp add: update along_def)
next
  case (fork ob b)
  have "along R (fold_fork E D ob b)" by (rule fork_along; fact assms)
  then show ?thesis by (simp add: fork along_def)
qed

lemma fold_step_root: "fold_step E D H H' \<Longrightarrow> same_root H H'"
  by (erule fold_step_along) (rule rel_order fold_revoke_along steps_along)+

lemma fold_step_grows: "grow_only D \<Longrightarrow> fold_step E D H H' \<Longrightarrow> grows D H H'"
  by (erule fold_step_along) (rule rel_order fold_revoke_along steps_along | assumption)+

section \<open>The update held\<close>

definition held_epoch :: "env \<Rightarrow> verify_key \<Rightarrow> 'd home \<Rightarrow> u64" where
  "held_epoch E pin H = (case read_held E (h_devices H) pin of None \<Rightarrow> UNVERSIONED | Some (d, _) \<Rightarrow> epoch d)"

lemma fold_doc_Inr: "fold_doc E b pin = Inr doc \<longleftrightarrow>
  length b \<le> MAX_ROSTER_BLOB \<and> roster_verify (en_nauthy E) b pin = Inr doc"
  by (auto simp: fold_doc_def map_err_Inr_iff)

lemma read_held_Bytes: "fold_doc E b pin = Inr doc \<Longrightarrow> read_held E (Bytes b) pin = Some (doc, b)"
  by (simp add: fold_doc_Inr read_held_def read_held_or_error_def)

lemma read_held_Some: "read_held E r pin = Some (doc, b) \<Longrightarrow> r = Bytes b \<and> fold_doc E b pin = Inr doc"
  by (auto simp: fold_doc_Inr read_held_def read_held_or_error_def ok_opt_def
      split: bytes_read.splits if_splits sum.splits)

lemma fold_pin_reads:
  assumes "fold_pin E D H = Inr (pin, til)"
  shows "\<exists>n. read_pin E H = Inr (Some n) \<and> en_verify_key E n = Some pin"
proof -
  from assms obtain st where r: "standing_read E D H = Inr st"
    by (auto simp: fold_pin_def bindR_Inr_iff map_err_Inr_iff)
  then obtain n where st: "standing_read E D H = Inr st" "en_verify_key E n = Some pin"
    "st = StDevice n til \<or> st = HoldsRoot n til"
    using assms by (cases st) (auto simp: fold_pin_def bindR_Inr_iff map_err_Inr_iff pin_key_def ok_or_Inr_iff)
  then obtain own where "read_with_own E D own H = Inr st"
    by (auto simp: standing_read_def bindR_Inr_iff)
  moreover have "pinned_root st = Some n" using st(3) by (auto simp: pinned_root_def)
  ultimately have "read_pin E H = Inr (Some n)" using device_reads by blast
  then show ?thesis using st(2) by blast
qed

text \<open>The files a pin is read from stay, so every fold of a run works under one pin.\<close>

lemma fold_pin_same:
  assumes "fold_pin E D H = Inr (pin, til)" "fold_pin E D H' = Inr (pin', til')" "same_root H H'"
  shows "pin' = pin"
proof -
  have "read_pin E H' = read_pin E H" using assms(3) by (simp add: read_pin_def same_root_def)
  then show ?thesis using fold_pin_reads [OF assms(1)] fold_pin_reads [OF assms(2)] by auto
qed

lemma fold_update_failed:
  "fold_pin E D H = Inl e \<Longrightarrow> fold_update E D ob b H = (Inl e, H)"
  "fold_pin E D H = Inr (pin, til) \<Longrightarrow> fold_doc E b pin = Inl e \<Longrightarrow> fold_update E D ob b H = (Inl e, H)"
  by (simp_all add: fold_update_def bindS_def)

lemma fold_update_at:
  assumes "fold_pin E D H = Inr (pin, til)" "fold_doc E b pin = Inr doc"
  shows "fold_update E D ob b H =
    (if epoch doc < held_epoch E pin H then (Inr NotNewer, H)
     else if epoch doc = held_epoch E pin H then
       (case read_held E (h_devices H) pin of
          None \<Rightarrow> (Inr NotNewer, H)
        | Some (_, hb) \<Rightarrow>
            if hb = b then (Inr Same, H)
            else bindS (fold_revoke E D ob doc) (\<lambda>_. bindS (keep_fork E ob b pin)
              (\<lambda>_. liftS (Inr (Fork (held_epoch E pin H))))) H)
     else bindS (fold_revoke E D ob doc) (\<lambda>_. bindS (pick_up E ob doc pin til) (\<lambda>_.
       bindS (write_devices ob b) (\<lambda>_. bindS (forget_invited_by ob) (\<lambda>_.
       bindS (clear_fork E ob doc pin) (\<lambda>_. liftS (Inr Newer)))))) H)"
  using assms
  by (auto simp: fold_update_def bindS_def [of "getS f" for f] bindS_def [of "liftS r" for r] Let_def
      held_epoch_def split: option.split)

lemma fold_update_devices:
  assumes "fold_pin E D H = Inr (pin, til)"
  shows "h_devices (snd (fold_update E D ob b H)) = h_devices H \<or>
    (\<exists>doc. fold_doc E b pin = Inr doc \<and> held_epoch E pin H < epoch doc \<and>
       h_devices (snd (fold_update E D ob b H)) = Bytes b)"
proof (cases "fold_doc E b pin")
  case (Inl e)
  then show ?thesis using fold_update_failed(2) [OF assms Inl] by simp
next
  case (Inr doc)
  let ?R = "\<lambda>H H' :: 'a home. h_devices H' = h_devices H \<or> h_devices H' = Bytes b"
  have "along ?R (fold_revoke E D ob d)" "along ?R (pick_up E ob d p t)" "along ?R (forget_invited_by ob)"
    "along ?R (keep_fork E ob b p)" "along ?R (clear_fork E ob d p)" for d p t
    using fold_revoke_along(1) [of E D ob d] steps_along(3) [of E ob d p t] forget_along(3) [of ob]
      keep_fork_along(3) [of E ob b p] clear_fork_along(3) [of E ob d p]
    by (auto simp: along_def same_devices_def)
  moreover have "along ?R (write_devices ob b)"
    by (auto simp: along_def write_devices_def split: option.splits)
  ultimately have a: "along ?R (fold_update E D ob b)"
    by (intro fold_along) (auto simp: reflp_def transp_def)
  have same: "h_devices (snd (bindS (fold_revoke E D ob doc) (\<lambda>_. bindS (keep_fork E ob b pin)
      (\<lambda>_. liftS (Inr (Fork e)))) H)) = h_devices H" for e
  proof -
    have "along same_devices (bindS (fold_revoke E D ob doc) (\<lambda>_. bindS (keep_fork E ob b pin)
        (\<lambda>_. liftS (Inr (Fork e)))))"
      by (intro along_bindS along_liftS rel_order fold_revoke_along steps_along)
    then show ?thesis by (simp add: along_def same_devices_def)
  qed
  show ?thesis
  proof (cases "held_epoch E pin H < epoch doc")
    case True
    then show ?thesis using a Inr by (auto simp: along_def)
  next
    case False
    then show ?thesis using same by (simp add: fold_update_at [OF assms Inr] split: option.split)
  qed
qed

lemma fold_step_epoch:
  assumes "fold_step E D H H'" "fold_pin E D H = Inr (pin, til)"
  shows "held_epoch E pin H \<le> held_epoch E pin H' \<and>
    (h_devices H' = h_devices H \<or> held_epoch E pin H < held_epoch E pin H')"
  using assms(1)
proof cases
  case (update ob b)
  then show ?thesis
    using fold_update_devices [OF assms(2), of ob b] read_held_Bytes [of E b pin]
    by (auto simp: held_epoch_def)
next
  case (fork ob b)
  have "along same_devices (fold_fork E D ob b)"
    by (rule fork_along) (rule rel_order fold_revoke_along steps_along)+
  then show ?thesis by (simp add: fork held_epoch_def along_def same_devices_def)
qed


lemma fold_step_failed: "fold_step E D H H' \<Longrightarrow> fold_pin E D H = Inl e \<Longrightarrow> H' = H"
  by (erule fold_step.cases) (auto simp: fold_update_failed fold_fork_def bindS_def)

section \<open>What a fold leaves\<close>

text \<open>The entries an update adds: its unexpired ids and its keys, this machine's own key left out.\<close>

definition added :: "env \<Rightarrow> 'd home \<Rightarrow> u64 \<Rightarrow> roster_doc \<Rightarrow> revocation set" where
  "added E H now doc = {e \<in> set (doc_revocations now doc). \<forall>k. own_key_of E H = Some k \<longrightarrow> e \<noteq> RevKey k}"

lemma fold_revoke_adds:
  assumes "grow_only D" "fold_revoke E D ob doc H = (Inr (), H')"
  shows "home_revoked D H' = home_revoked D H \<union> added E H (unix_now (fo_revoke_now ob)) doc"
proof -
  have "revoked_add E D (doc_revocations (unix_now (fo_revoke_now ob)) doc) H = (Inr (), H')"
    using assms(2) by (auto simp: fold_revoke_def map_errS_def map_err_Inr_iff split: prod.splits)
  from revoked_add_exact [OF assms(1) this] show ?thesis by (simp add: added_def)
qed

lemma keep_fork_keeps:
  "keep_fork E ob b pin H = (Inr u, H') \<Longrightarrow> fold_doc E b pin = Inr doc \<Longrightarrow> read_held E (h_conflict H') pin \<noteq> None"
  by (auto simp: keep_fork_def read_held_Bytes split: if_splits option.splits)

lemma along_at: "along R m \<Longrightarrow> m s = (r, t) \<Longrightarrow> R s t"
  by (metis along_def snd_conv)

lemma grows_eq: "same_root H H' \<Longrightarrow> added E H' now doc = added E H now doc"
  by (simp add: added_def own_key_of_def same_root_def)

lemma revoked_same: "h_revoked H' = h_revoked H \<Longrightarrow> home_revoked D H' = home_revoked D H"
  by (simp add: home_revoked_def)

lemma steps_same_revoked:
  "pick_up E ob doc pin til H = (r, H') \<Longrightarrow> home_revoked D H' = home_revoked D H"
  "write_devices ob b H = (r, H') \<Longrightarrow> home_revoked D H' = home_revoked D H"
  "forget_invited_by ob H = (r, H') \<Longrightarrow> home_revoked D H' = home_revoked D H"
  "keep_fork E ob b pin H = (r, H') \<Longrightarrow> home_revoked D H' = home_revoked D H"
  "clear_fork E ob doc pin H = (r, H') \<Longrightarrow> home_revoked D H' = home_revoked D H"
  using step_cases(1) [of E ob doc pin til H] step_cases(2) [of ob b H] step_cases(3) [of ob H]
    step_cases(4) [of E ob b pin H] step_cases(5) [of E ob doc pin H]
  by (auto simp: home_revoked_def)

lemma fold_update_pin_doc:
  assumes "fold_update E D ob b H = (Inr x, H')"
  obtains pin til doc where "fold_pin E D H = Inr (pin, til)" "fold_doc E b pin = Inr doc"
proof (cases "fold_pin E D H")
  case (Inl e)
  then show thesis using assms fold_update_failed(1) [OF Inl] by simp
next
  case (Inr p)
  obtain pin til where p: "fold_pin E D H = Inr (pin, til)" using Inr by (cases p) simp
  show thesis
  proof (cases "fold_doc E b pin")
    case (Inl e)
    then show thesis using assms fold_update_failed(2) [OF p Inl] by simp
  qed (rule that [OF p])
qed

section \<open>A fold in the example\<close>

definition example_obs :: fold_obs where
  "example_obs = \<lparr>fo_revoke_now = 0, fo_pick_now = 0, fo_carry_now = 0, fo_devices_fails = None,
     fo_conflict_fails = None, fo_badge_fails = None, fo_remove_fails = None, fo_invited_fails = False\<rparr>"

lemma example_pin: "fold_pin example_env example_denylist example_home = Inr (example_key 7, 100)"
proof -
  have "en_verify_key example_env (example_node 7) = Some (example_key 7)"
    by (simp add: example_env_def example_node_def example_key_def)
  then show ?thesis by (simp add: fold_pin_def example_reads pin_key_def)
qed

lemma example_doc: "fold_doc example_env example_blob (example_key 7) = Inr example_update"
  using example_blob_verifies example_blob_fits by (simp add: fold_doc_Inr example_env_def)

definition example_held :: "revocation set home" where
  "example_held = snd (fold_update example_env example_denylist example_obs example_blob example_home)"

lemma example_keys_differ: "example_key 5 \<noteq> example_key 7" "example_key 5 \<noteq> example_key 9"
  by (simp_all add: example_key_def)

lemma example_newer:
  "fold_update example_env example_denylist example_obs example_blob example_home = (Inr Newer, example_held)"
  "h_key_cert example_held = Read (Contents (''abc'' @ [newline]))"
proof -
  let ?E = example_env and ?D = example_denylist and ?ob = example_obs
  have own: "usable_own ?E (Some (Some (example_node 5))) = Some (example_key 5)"
    by (simp add: usable_own_def example_env_def example_node_def example_key_def)
  have e: "held_epoch ?E (example_key 7) example_home = 0" "\<not> epoch example_update < 0" "epoch example_update \<noteq> 0"
    by (simp_all add: held_epoch_def example_home_def read_held_def read_held_or_error_def UNVERSIONED_def
        example_update_def)
  have r: "\<exists>d. fold_revoke ?E ?D ?ob example_update example_home = (Inr (), example_home\<lparr>h_revoked := d\<rparr>)"
    using own by (auto simp: fold_revoke_def map_errS_def revoked_add_def keep_own_def revoked_own_key_def
        key_stored_def example_home_def example_denylist_def split: option.splits)
  have nr: "\<not> is_revoked_key example_update (example_key 5)"
    by (simp add: is_revoked_key_def binary_search_def bin_base.simps example_update_def example_device_def example_key_def)
  have p: "pick_up ?E ?ob example_update (example_key 7) 100 (example_home\<lparr>h_revoked := d\<rparr>) =
      (Inr (), example_home\<lparr>h_revoked := d, h_key_cert := Read (Contents (''abc'' @ [newline]))\<rparr>)" for d
    using own nr
    by (simp add: pick_up_def key_stored_def example_home_def example_update_def example_member_def example_env_def
        example_obs_def epoch_plus_def NANOS_def as_bytes_def byte_of_def Let_def)
  have c: "clear_fork ?E ?ob example_update (example_key 7) (example_home\<lparr>h_revoked := d, h_key_cert := c, h_devices := x, h_invited_by := y\<rparr>) =
      (Inr (), example_home\<lparr>h_revoked := d, h_key_cert := c, h_devices := x, h_invited_by := y\<rparr>)" for d c x y
    by (simp add: clear_fork_def example_home_def read_held_def read_held_or_error_def)
  have "fst (fold_update ?E ?D ?ob example_blob example_home) = Inr Newer \<and>
      h_key_cert (snd (fold_update ?E ?D ?ob example_blob example_home)) = Read (Contents (''abc'' @ [newline]))"
    using r p c e by (auto simp: fold_update_at [OF example_pin example_doc] bindS_def write_devices_def
        forget_invited_by_def example_obs_def split: option.splits)
  then show "fold_update ?E ?D ?ob example_blob example_home = (Inr Newer, example_held)"
    "h_key_cert example_held = Read (Contents (''abc'' @ [newline]))"
    by (simp_all add: example_held_def prod_eq_iff)
qed

definition example_fork_blob :: bytes where
  "example_fork_blob = replicate 32 7 @ replicate 64 8 @ canonical_bytes example_update"

lemma example_fork_doc: "fold_doc example_env example_fork_blob (example_key 7) = Inr example_update"
proof -
  have "na_open example_nauthy example_fork_blob (example_key 7) = Inr (canonical_bytes example_update)"
    by (simp add: example_nauthy_def example_key_def example_fork_blob_def)
  then have "roster_verify example_nauthy example_fork_blob (example_key 7) = Inr example_update"
    using canonical_parses [OF example_canonical example_update_ok]
    by (simp add: roster_verify_def example_fork_blob_def)
  moreover have "length example_fork_blob \<le> MAX_ROSTER_BLOB"
    using canonical_length [OF example_update_ok] by (simp add: example_fork_blob_def roster_lens bounds_defs)
  ultimately show ?thesis by (simp add: fold_doc_Inr example_env_def)
qed

definition example_holder :: "revocation set home" where
  "example_holder = example_home\<lparr>h_devices := Bytes example_blob\<rparr>"

lemma example_holder_pin: "fold_pin example_env example_denylist example_holder = Inr (example_key 7, 100)"
proof -
  have "en_verify_key example_env (example_node 7) = Some (example_key 7)"
    by (simp add: example_env_def example_node_def example_key_def)
  then show ?thesis by (simp add: fold_pin_def example_holder_def example_reads_devices pin_key_def)
qed

lemma example_revoke:
  "\<exists>d. fold_revoke example_env example_denylist example_obs example_update H =
     (Inr (), H\<lparr>h_revoked := d\<rparr>)" if "h_key H = KeyStored (Some (example_node 5))"
proof -
  let ?es = "doc_revocations (unix_now (fo_revoke_now example_obs)) example_update"
  have "fst (revoked_add example_env example_denylist ?es H) = Inr ()"
    using that by (auto simp: revoked_add_def keep_own_def revoked_own_key_def
        key_stored_def example_denylist_def split: option.splits)
  then obtain H' where e: "revoked_add example_env example_denylist ?es H = (Inr (), H')"
    by (metis prod.collapse)
  then obtain d where "H' = H\<lparr>h_revoked := d\<rparr>" using revoked_add_others by blast
  then have "fold_revoke example_env example_denylist example_obs example_update H = (Inr (), H\<lparr>h_revoked := d\<rparr>)"
    using e by (simp add: fold_revoke_def map_errS_def)
  then show ?thesis by blast
qed

lemma example_forks:
  "fst (fold_update example_env example_denylist example_obs example_fork_blob example_holder) = Inr (Fork 3)"
  "fst (fold_fork example_env example_denylist example_obs example_blob example_home) = Inr ()"
proof -
  have k: "h_key example_home = KeyStored (Some (example_node 5))" "h_key example_holder = KeyStored (Some (example_node 5))"
    by (simp_all add: example_home_def example_holder_def)
  have h: "read_held example_env (h_devices example_holder) (example_key 7) = Some (example_update, example_blob)"
    "read_held example_env (h_devices example_home) (example_key 7) = None"
    using read_held_Bytes [OF example_doc]
    by (simp_all add: example_holder_def example_home_def read_held_def read_held_or_error_def)
  have b: "example_blob \<noteq> example_fork_blob"
  proof
    assume "example_blob = example_fork_blob"
    then have "example_blob ! 40 = example_fork_blob ! 40" by simp
    then show False by (simp add: example_blob_def example_fork_blob_def nth_append)
  qed
  have f: "fst (keep_fork example_env example_obs x pin H) = Inr ()" for x pin and H :: "revocation set home"
    by (simp add: keep_fork_def example_obs_def)
  have e: "epoch example_update = 3" by (simp add: example_update_def)
  show "fst (fold_update example_env example_denylist example_obs example_fork_blob example_holder) = Inr (Fork 3)"
    using example_revoke [OF k(2)] h b f e
    by (auto simp: fold_update_at [OF example_holder_pin example_fork_doc] held_epoch_def bindS_def split_beta
        split: sum.splits)
  show "fst (fold_fork example_env example_denylist example_obs example_blob example_home) = Inr ()"
    using example_revoke [OF k(1)] h f example_pin example_doc
    by (auto simp: fold_fork_def bindS_def split_beta split: sum.splits)
qed

lemma read_held_doc:
  assumes "links_canonical (en_nauthy E)" "read_held E file pin = Some (d, b)"
  shows "doc_ok (en_nauthy E) d" "file = Bytes b" "roster_verify (en_nauthy E) b pin = Inr d"
proof -
  have v: "file = Bytes b" "fold_doc E b pin = Inr d" using read_held_Some [OF assms(2)] by auto
  show "file = Bytes b" by (rule v)
  show r: "roster_verify (en_nauthy E) b pin = Inr d" using v(2) by (simp add: fold_doc_Inr)
  show "doc_ok (en_nauthy E) d"
    using r parse_only_canonical [OF assms(1)]
    by (auto simp: roster_verify_def bindR_Inr_iff map_err_Inr_iff split: if_splits)
qed

section \<open>Properties\<close>

lemma folds_root: "(fold_step E D)\<^sup>*\<^sup>* H H' \<Longrightarrow> same_root H H'"
  by (induction rule: rtranclp_induct) (auto dest!: fold_step_root simp: rels)

lemma folds_grow: "grow_only D \<Longrightarrow> (fold_step E D)\<^sup>*\<^sup>* H H' \<Longrightarrow> home_revoked D H \<subseteq> home_revoked D H'"
  by (rotate_tac 1, induction rule: rtranclp_induct) (use fold_step_grows in \<open>fastforce simp: grows_def\<close>)+

lemma folds_devices:
  assumes "fold_pin E D H = Inr (pin, til)" "(fold_step E D)\<^sup>*\<^sup>* H H'"
  shows "h_devices H' = h_devices H \<or> held_epoch E pin H < held_epoch E pin H'"
  using assms(2)
proof (induction rule: rtranclp_induct)
  case (step H1 H2)
  have d: "h_devices H2 = h_devices H1 \<or> held_epoch E pin H1 < held_epoch E pin H2"
  proof (cases "fold_pin E D H1")
    case (Inl e)
    then show ?thesis using fold_step_failed [OF step(2)] by simp
  next
    case (Inr p)
    obtain pin1 til1 where p: "p = (pin1, til1)" by (cases p)
    have "pin1 = pin" using fold_pin_same [OF assms(1) Inr [unfolded p]] folds_root [OF step(1)] by blast
    then show ?thesis using fold_step_epoch [OF step(2)] Inr p by blast
  qed
  have "h_devices H1 = h_devices H \<Longrightarrow> held_epoch E pin H1 = held_epoch E pin H"
    "h_devices H2 = h_devices H1 \<Longrightarrow> held_epoch E pin H2 = held_epoch E pin H1"
    by (simp_all add: held_epoch_def)
  then show ?case using step.IH d by (metis less_trans)
qed simp

text \<open>
  C4: Over any run of folds, of updates and of forks, each ending well or stopped at any write, the
  revocations of a machine only grow and the update it holds under its pin never goes back: it is the
  one it was, or one of a strictly higher number.
\<close>
theorem folds_never_go_back:
  assumes "grow_only D" "fold_pin E D H = Inr (pin, til)" "(fold_step E D)\<^sup>*\<^sup>* H H'"
  shows "home_revoked D H \<subseteq> home_revoked D H' \<and>
    (h_devices H' = h_devices H \<or> held_epoch E pin H < held_epoch E pin H')"
  using folds_grow [OF assms(1,3)] folds_devices [OF assms(2,3)] by blast

theorem folds_never_go_back_witness:
  "home_revoked example_denylist example_home \<subseteq> home_revoked example_denylist example_held \<and>
   (h_devices example_held = h_devices example_home \<or>
    held_epoch example_env (example_key 7) example_home < held_epoch example_env (example_key 7) example_held)"
proof -
  have "fold_step example_env example_denylist example_home example_held"
    unfolding example_held_def by (rule fold_step.update)
  then have "(fold_step example_env example_denylist)\<^sup>*\<^sup>* example_home example_held" by blast
  from folds_never_go_back [OF example_grow_only example_pin this] show ?thesis .
qed

lemma fold_update_newer:
  assumes "grow_only D" "fold_update E D ob b H = (Inr Newer, H')"
  shows "\<exists>pin til doc. fold_pin E D H = Inr (pin, til) \<and> roster_verify (en_nauthy E) b pin = Inr doc \<and>
     held_epoch E pin H < epoch doc \<and> read_held E (h_devices H') pin = Some (doc, b) \<and>
     home_revoked D H' = home_revoked D H \<union> added E H (unix_now (fo_revoke_now ob)) doc"
proof -
  obtain pin til doc where p: "fold_pin E D H = Inr (pin, til)" "fold_doc E b pin = Inr doc"
    using fold_update_pin_doc [OF assms(2)] by blast
  have g: "held_epoch E pin H < epoch doc \<and> bindS (fold_revoke E D ob doc) (\<lambda>_. bindS (pick_up E ob doc pin til) (\<lambda>_.
       bindS (write_devices ob b) (\<lambda>_. bindS (forget_invited_by ob) (\<lambda>_.
       bindS (clear_fork E ob doc pin) (\<lambda>_. liftS (Inr Newer)))))) H = (Inr Newer, H')"
  proof (cases "held_epoch E pin H < epoch doc")
    case True
    then have "\<not> epoch doc < held_epoch E pin H" "epoch doc \<noteq> held_epoch E pin H" by auto
    then show ?thesis using assms(2) True by (simp add: fold_update_at [OF p])
  next
    case False
    then show ?thesis using assms(2)
      by (auto simp: fold_update_at [OF p] bindS_Inr split: option.splits if_splits)
  qed
  then obtain H1 H2 H3 H4 u1 u2 u3 u4 u5 where s: "fold_revoke E D ob doc H = (Inr u1, H1)" "pick_up E ob doc pin til H1 = (Inr u2, H2)"
    "write_devices ob b H2 = (Inr u3, H3)" "forget_invited_by ob H3 = (Inr u4, H4)"
    "clear_fork E ob doc pin H4 = (Inr u5, H')"
    by (auto simp: bindS_Inr)
  have "home_revoked D H1 = home_revoked D H \<union> added E H (unix_now (fo_revoke_now ob)) doc"
    using fold_revoke_adds [OF assms(1)] s(1) by (cases u1) simp
  then have r: "home_revoked D H' = home_revoked D H \<union> added E H (unix_now (fo_revoke_now ob)) doc"
    using steps_same_revoked(1) [OF s(2)] steps_same_revoked(2) [OF s(3)] steps_same_revoked(3) [OF s(4)]
      steps_same_revoked(5) [OF s(5)] by metis
  have "h_devices H3 = Bytes b" using s(3) by (auto simp: write_devices_def split: option.splits)
  then have "h_devices H' = Bytes b"
    using along_at [OF forget_along(3) s(4)] along_at [OF clear_fork_along(3) s(5)] by (simp add: rels)
  then show ?thesis using p g r read_held_Bytes [OF p(2)] by (auto simp: fold_doc_Inr)
qed

text \<open>
  C5: What a newer update leaves. A fold that ends as newer held the update of a strictly lower number
  before; now the update held is this one, verified under the pin, and the revocations are those there
  were with every unexpired id and every key the update revokes, this machine's own key alone left out.
\<close>
theorem newer_update_held:
  assumes "grow_only D" "fold_update E D ob b H = (Inr Newer, H')"
  shows "\<exists>pin til doc. fold_pin E D H = Inr (pin, til) \<and> roster_verify (en_nauthy E) b pin = Inr doc \<and>
     held_epoch E pin H < epoch doc \<and> read_held E (h_devices H') pin = Some (doc, b) \<and>
     home_revoked D H' = home_revoked D H \<union> added E H (unix_now (fo_revoke_now ob)) doc"
  by (rule fold_update_newer [OF assms])

theorem newer_update_held_witness:
  "read_held example_env (h_devices example_held) (example_key 7) = Some (example_update, example_blob)"
  using newer_update_held [OF example_grow_only example_newer(1)] example_pin example_blob_verifies
  by (auto simp: example_env_def)

lemma fold_update_fork:
  assumes "grow_only D" "fold_update E D ob b H = (Inr (Fork n), H')"
  shows "h_devices H' = h_devices H \<and> h_key_cert H' = h_key_cert H \<and>
    (\<exists>pin til doc. fold_pin E D H = Inr (pin, til) \<and> roster_verify (en_nauthy E) b pin = Inr doc \<and>
       epoch doc = n \<and> n = held_epoch E pin H \<and> read_held E (h_conflict H') pin \<noteq> None \<and>
       home_revoked D H' = home_revoked D H \<union> added E H (unix_now (fo_revoke_now ob)) doc)"
proof -
  obtain pin til doc where p: "fold_pin E D H = Inr (pin, til)" "fold_doc E b pin = Inr doc"
    using fold_update_pin_doc [OF assms(2)] by blast
  have g: "epoch doc = held_epoch E pin H \<and> n = held_epoch E pin H \<and> bindS (fold_revoke E D ob doc)
      (\<lambda>_. bindS (keep_fork E ob b pin) (\<lambda>_. liftS (Inr (Fork n)))) H = (Inr (Fork n), H')"
    using assms(2) by (auto simp: fold_update_at [OF p] bindS_Inr split: option.splits if_splits)
  then obtain H1 u1 u2 where s: "fold_revoke E D ob doc H = (Inr u1, H1)" "keep_fork E ob b pin H1 = (Inr u2, H')"
    by (auto simp: bindS_Inr)
  have "home_revoked D H1 = home_revoked D H \<union> added E H (unix_now (fo_revoke_now ob)) doc"
    using fold_revoke_adds [OF assms(1)] s(1) by (cases u1) simp
  then have "home_revoked D H' = home_revoked D H \<union> added E H (unix_now (fo_revoke_now ob)) doc"
    using steps_same_revoked(4) [OF s(2)] by metis
  moreover have "h_devices H' = h_devices H \<and> h_key_cert H' = h_key_cert H"
    using along_at [OF fold_revoke_along(1) s(1)] along_at [OF fold_revoke_along(2) s(1)]
      along_at [OF keep_fork_along(3) s(2)] along_at [OF keep_fork_along(4) s(2)] by (simp add: rels)
  moreover have "read_held E (h_conflict H') pin \<noteq> None" by (rule keep_fork_keeps [OF s(2) p(2)])
  ultimately show ?thesis using p g by (auto simp: fold_doc_Inr)
qed

text \<open>
  C6: A fork never becomes the update held, and is never lost silently. When an update of the number of
  the one held but of other bytes is folded, the update held and this machine's badge stay, its
  revocations are added, and a fork of this root is kept as evidence.
\<close>
theorem fork_kept_apart:
  assumes "grow_only D" "fold_update E D ob b H = (Inr (Fork n), H')"
  shows "h_devices H' = h_devices H \<and> h_key_cert H' = h_key_cert H \<and>
    (\<exists>pin til doc. fold_pin E D H = Inr (pin, til) \<and> roster_verify (en_nauthy E) b pin = Inr doc \<and>
       epoch doc = n \<and> n = held_epoch E pin H \<and> read_held E (h_conflict H') pin \<noteq> None \<and>
       home_revoked D H' = home_revoked D H \<union> added E H (unix_now (fo_revoke_now ob)) doc)"
  by (rule fold_update_fork [OF assms])

theorem fork_kept_apart_witness:
  "h_devices (snd (fold_update example_env example_denylist example_obs example_fork_blob example_holder)) =
     Bytes example_blob"
proof -
  have "fold_update example_env example_denylist example_obs example_fork_blob example_holder =
      (Inr (Fork 3), snd (fold_update example_env example_denylist example_obs example_fork_blob example_holder))"
    using example_forks(1) by (simp add: prod_eq_iff)
  from fork_kept_apart [OF example_grow_only this] show ?thesis by (simp add: example_holder_def)
qed

text \<open>
  A fork passed on is folded without ever being held. When the fold of one ends well the update held
  and the badge stay; and either the update held is those bytes or carries all it revokes, and nothing
  changed, or its revocations were added and a fork of this root is kept for the next exchange.
\<close>
theorem passed_fork_folded:
  assumes "grow_only D" "fold_fork E D ob b H = (Inr (), H')"
  shows "h_devices H' = h_devices H \<and> h_key_cert H' = h_key_cert H \<and>
    (\<exists>pin til doc. fold_pin E D H = Inr (pin, til) \<and> roster_verify (en_nauthy E) b pin = Inr doc \<and>
       (H' = H \<and> (\<exists>h hb. read_held E (h_devices H) pin = Some (h, hb) \<and>
          (hb = b \<or> carries (unix_now (fo_carry_now ob)) h doc)) \<or>
        read_held E (h_conflict H') pin \<noteq> None \<and>
        home_revoked D H' = home_revoked D H \<union> added E H (unix_now (fo_revoke_now ob)) doc))"
proof -
  obtain x where x: "fold_pin E D H = Inr x" using assms(2)
    by (cases "fold_pin E D H") (simp_all add: fold_fork_def bindS_def)
  obtain pin til where p: "fold_pin E D H = Inr (pin, til)" using x by (cases x) simp
  obtain doc where d: "fold_doc E b pin = Inr doc" using assms(2) p
    by (cases "fold_doc E b pin") (simp_all add: fold_fork_def bindS_def)
  let ?c = "case read_held E (h_devices H) pin of None \<Rightarrow> False
      | Some (h, hb) \<Rightarrow> hb = b \<or> carries (unix_now (fo_carry_now ob)) h doc"
  have u: "(if ?c then (Inr (), H) else bindS (fold_revoke E D ob doc) (\<lambda>_. keep_fork E ob b pin) H) = (Inr (), H')"
    using assms(2) p d by (simp add: fold_fork_def bindS_def [of "getS f" for f] bindS_def [of "liftS r" for r] split: if_splits)
  show ?thesis
  proof (cases ?c)
    case True
    then show ?thesis using u p d by (auto simp: fold_doc_Inr split: option.splits prod.splits)
  next
    case False
    then obtain H1 u1 where s: "fold_revoke E D ob doc H = (Inr u1, H1)" "keep_fork E ob b pin H1 = (Inr (), H')"
      using u by (auto simp: bindS_Inr)
    have "home_revoked D H1 = home_revoked D H \<union> added E H (unix_now (fo_revoke_now ob)) doc"
      using fold_revoke_adds [OF assms(1)] s(1) by (cases u1) simp
    then have "home_revoked D H' = home_revoked D H \<union> added E H (unix_now (fo_revoke_now ob)) doc"
      using steps_same_revoked(4) [OF s(2)] by metis
    moreover have "h_devices H' = h_devices H \<and> h_key_cert H' = h_key_cert H"
      using along_at [OF fold_revoke_along(1) s(1)] along_at [OF fold_revoke_along(2) s(1)]
        along_at [OF keep_fork_along(3) s(2)] along_at [OF keep_fork_along(4) s(2)] by (simp add: rels)
    moreover have "read_held E (h_conflict H') pin \<noteq> None" by (rule keep_fork_keeps [OF s(2) d])
    ultimately show ?thesis using p d by (auto simp: fold_doc_Inr)
  qed
qed

theorem passed_fork_folded_witness:
  "h_devices (snd (fold_fork example_env example_denylist example_obs example_blob example_home)) = NoFile"
proof -
  have "fold_fork example_env example_denylist example_obs example_blob example_home =
      (Inr (), snd (fold_fork example_env example_denylist example_obs example_blob example_home))"
    using example_forks(2) by (simp add: prod_eq_iff)
  from passed_fork_folded [OF example_grow_only this] show ?thesis by (simp add: example_home_def)
qed

text \<open>
  C7: A standing is picked up only when it is this machine's. Whatever way a fold ends, a badge it
  changed is the standing of the member of the update with this machine's key, a membership of that
  key under the pin, ending after the standing held, and neither the key nor the standing's own id is
  revoked in the update.
\<close>
theorem picked_up_standing_sound:
  assumes "h_key_cert (snd (fold_update E D ob b H)) \<noteq> h_key_cert H"
  shows "\<exists>pin til doc own m ends. fold_pin E D H = Inr (pin, til) \<and> fold_doc E b pin = Inr doc \<and>
     own_key_of E H = Some own \<and> m \<in> set (members doc) \<and> m_node m = own \<and>
     h_key_cert (snd (fold_update E D ob b H)) = Read (Contents (link_str (m_standing m) @ [newline])) \<and>
     en_member_at E (m_standing m) (fo_pick_now ob) own pin \<and>
     epoch_plus (m_until m) = Some ends \<and> til < ends \<and> \<not> is_revoked_key doc own \<and>
     \<not> (\<exists>i \<in> set (revoked doc). en_root_rid E (m_standing m) = Some (rid i))"
proof -
  let ?F = "fold_update E D ob b"
  obtain x where x: "fold_pin E D H = Inr x" using assms
    by (cases "fold_pin E D H") (simp_all add: fold_update_failed(1))
  obtain pin til where p: "fold_pin E D H = Inr (pin, til)" using x by (cases x) simp
  obtain doc where d: "fold_doc E b pin = Inr doc"
    using assms fold_update_failed(2) [OF p] by (cases "fold_doc E b pin") auto
  let ?rest = "\<lambda>_ :: unit. bindS (write_devices ob b) (\<lambda>_ :: unit. bindS (forget_invited_by ob) (\<lambda>_ :: unit.
       bindS (clear_fork E ob doc pin) (\<lambda>_ :: unit. liftS (Inr Newer))))"
  have rest: "along same_badge (?rest u)" for u
    by (intro along_bindS along_liftS rel_order steps_along)
  have fk: "along same_badge (bindS (fold_revoke E D ob doc) (\<lambda>_. bindS (keep_fork E ob b pin) (\<lambda>_. liftS (Inr (Fork e)))))" for e
    by (intro along_bindS along_liftS rel_order fold_revoke_along steps_along)
  have "\<not> epoch doc < held_epoch E pin H \<and> epoch doc \<noteq> held_epoch E pin H"
    using assms fk by (auto simp: fold_update_at [OF p d] along_def same_badge_def split: option.splits if_splits)
  then have F: "?F H = bindS (fold_revoke E D ob doc) (\<lambda>_. bindS (pick_up E ob doc pin til) ?rest) H"
    by (simp add: fold_update_at [OF p d])
  obtain r1 H1 where s1: "fold_revoke E D ob doc H = (r1, H1)" by (cases "fold_revoke E D ob doc H")
  have b1: "h_key_cert H1 = h_key_cert H" "h_key H1 = h_key H"
    using along_at [OF fold_revoke_along(2) s1] along_at [OF fold_revoke_along(3) s1] by (simp_all add: rels)
  obtain r2 H2 where s2: "pick_up E ob doc pin til H1 = (r2, H2)" by (cases "pick_up E ob doc pin til H1")
  have b2: "h_key_cert (snd (?F H)) = h_key_cert H2" "r1 \<noteq> Inl e" for e
    using F s1 s2 rest assms b1 by (auto simp: bindS_def along_def same_badge_def split: sum.splits)
  then have c: "h_key_cert H2 \<noteq> h_key_cert H1" using assms b1 by simp
  obtain stored where st: "key_stored (h_key H1) = Inr stored"
    using c s2 by (cases "key_stored (h_key H1)") (auto simp: pick_up_def)
  obtain own where o: "usable_own E stored = Some own"
    using c s2 st by (cases "usable_own E stored") (auto simp: pick_up_def)
  obtain m where m: "find (\<lambda>m. m_node m = own) (members doc) = Some m"
    using c s2 st o by (cases "find (\<lambda>m. m_node m = own) (members doc)") (auto simp: pick_up_def)
  obtain ends where e: "epoch_plus (m_until m) = Some ends"
    using c s2 st o m by (cases "epoch_plus (m_until m)") (auto simp: pick_up_def)
  have g: "en_member_at E (m_standing m) (fo_pick_now ob) own pin \<and> til < ends \<and> \<not> is_revoked_key doc own \<and>
      \<not> (\<exists>i \<in> set (revoked doc). en_root_rid E (m_standing m) = Some (rid i)) \<and>
      h_key_cert H2 = Read (Contents (link_str (m_standing m) @ [newline]))"
    using c s2 st o m e by (auto simp: pick_up_def Let_def split: if_splits option.splits)
  have "own_key_of E H = Some own" using st o b1 by (simp add: own_key_of_def)
  moreover have "m \<in> set (members doc)" "m_node m = own" using m by (auto simp: find_Some_iff)
  ultimately show ?thesis using p d e g b2(1) by metis
qed

theorem picked_up_standing_sound_witness:
  "own_key_of example_env example_home = Some (example_key 5) \<and>
   (\<exists>m \<in> set (members example_update). m_node m = example_key 5)"
proof -
  have "h_key_cert (snd (fold_update example_env example_denylist example_obs example_blob example_home)) \<noteq>
      h_key_cert example_home"
    using example_newer by (simp add: example_home_def)
  from picked_up_standing_sound [OF this] example_pin example_doc
  have "\<exists>own. own_key_of example_env example_home = Some own \<and> (\<exists>m \<in> set (members example_update). m_node m = own)"
    by auto
  moreover have "own_key_of example_env example_home = Some (example_key 5)"
    by (simp add: own_key_of_def key_stored_def usable_own_def example_home_def example_env_def example_node_def
        example_key_def)
  ultimately show ?thesis by simp
qed

end
