(* ===== verification/Gate.thy ===== *)
theory Gate
  imports Standing Grants
begin

text \<open>
  \<^verbatim>\<open>src/gate.rs\<close> and \<^verbatim>\<open>src/badge.rs\<close>: the pin as \<^verbatim>\<open>serve\<close> reads it afresh (\<^verbatim>\<open>FilePin\<close>), the live cut over it
  (\<^verbatim>\<open>AnchorCut\<close>), and the classification of a stored badge's end date. The pin's reader and the
  ledger's are both instances of the locale \<^verbatim>\<open>reread\<close>.
\<close>

section \<open>The live pin\<close>

datatype reading =
    RMissing
  | RUnreadable
  | RLoose string
  | RMalformed
  | RRevoked
  | RPinned verify_key

text \<open>\<^verbatim>\<open>read_trust_file\<close> as the pin takes it: its text, why it is loose, or another error.\<close>

datatype pin_read = PinText string | PinLoose string | PinError

record 's pin_look =
  pl_at :: nat
  pl_meta :: "'s meta_read"
  pl_text :: pin_read
  pl_revoked :: "revocation set"

record 's pin_state =
  p_read :: reading
  p_stamp :: "'s option"
  p_last_stat :: "nat option"
  p_logged :: "reading option"

definition pin_start :: "'s pin_state" where
  "pin_start = \<lparr>p_read = RMissing, p_stamp = None, p_last_stat = None, p_logged = None\<rparr>"

definition one_key :: "env \<Rightarrow> string \<Rightarrow> verify_key option" where
  "one_key E t = (let body = trim t in if length (lines body) \<noteq> 1 then None else en_parse_key E body)"

definition pin_reading :: "env \<Rightarrow> string \<Rightarrow> reading" where
  "pin_reading E t = (case one_key E t of None \<Rightarrow> RMalformed | Some k \<Rightarrow> RPinned k)"

definition pin_refresh :: "env \<Rightarrow> 's stamps \<Rightarrow> 's pin_look \<Rightarrow> 's pin_state \<Rightarrow> 's pin_state" where
  "pin_refresh E S k P =
     (if (case p_last_stat P of None \<Rightarrow> True | Some prior \<Rightarrow> pl_at k - prior \<ge> stat_debounce S) then
        let P = P\<lparr>p_last_stat := Some (pl_at k)\<rparr> in
        case pl_meta k of
          MetaMissing \<Rightarrow> P\<lparr>p_stamp := None, p_read := RMissing\<rparr>
        | MetaError _ \<Rightarrow> P\<lparr>p_stamp := None, p_read := RUnreadable\<rparr>
        | Meta stamp \<Rightarrow>
            if unchanged S (p_stamp P) stamp then P
            else (case pl_text k of
                PinLoose why \<Rightarrow> P\<lparr>p_stamp := None, p_read := RLoose why\<rparr>
              | PinError \<Rightarrow> P\<lparr>p_stamp := None, p_read := RUnreadable\<rparr>
              | PinText t \<Rightarrow> P\<lparr>p_stamp := stamp, p_read := pin_reading E t\<rparr>)
      else P)"

definition reading_now :: "'s pin_look \<Rightarrow> 's pin_state \<Rightarrow> reading" where
  "reading_now k P =
     (case p_read P of
        RPinned key \<Rightarrow> if RevKey key \<in> pl_revoked k then RRevoked else RPinned key
      | reading \<Rightarrow> reading)"

definition pin_log :: "reading \<Rightarrow> 's pin_state \<Rightarrow> 's pin_state" where
  "pin_log reading P = (if p_logged P = Some reading then P else P\<lparr>p_logged := Some reading\<rparr>)"

text \<open>\<^verbatim>\<open>FilePin::current\<close>, under \<open>admit\<close>, the root a \<^verbatim>\<open>serve --admit\<close> admits in place of the file.\<close>

definition pin_current ::
  "env \<Rightarrow> 's stamps \<Rightarrow> verify_key option \<Rightarrow> 's pin_look \<Rightarrow> 's pin_state \<Rightarrow> verify_key option \<times> 's pin_state" where
  "pin_current E S admit k P =
     (case admit of
        Some a \<Rightarrow> (if RevKey a \<in> pl_revoked k then None else Some a, P)
      | None \<Rightarrow>
          let P = pin_refresh E S k P; r = reading_now k P; P = pin_log r P in
          (case r of RPinned key \<Rightarrow> Some key | _ \<Rightarrow> None, P))"

section \<open>The live cut\<close>

definition anchor_trusts :: "verify_key option \<Rightarrow> verify_key \<Rightarrow> verify_key \<Rightarrow> bool" where
  "anchor_trusts current own anchor \<longleftrightarrow> Some anchor = current \<or> anchor = own"

definition revoked_peer :: "revocation set \<Rightarrow> verify_key \<Rightarrow> bool" where
  "revoked_peer rv peer \<longleftrightarrow> RevKey peer \<in> rv"

section \<open>The end of a badge\<close>

definition DEVICE_WARN_WINDOW :: int where
  "DEVICE_WARN_WINDOW = 14 * 24 * 60 * 60 * NANOS"

datatype expiry = Unknown | Expired int | Expiring int | Live int

definition expiry_at :: "systime option \<Rightarrow> systime \<Rightarrow> expiry" where
  "expiry_at e now =
     (case e of
        None \<Rightarrow> Unknown
      | Some e \<Rightarrow>
          if now \<le> e then
            (if e - now \<le> DEVICE_WARN_WINDOW then Expiring (e - now) else Live (e - now))
          else Expired (now - e))"

definition span_text :: "int \<Rightarrow> string" where
  "span_text span = humanize (of_int (span div NANOS))"

fun expiry_text :: "expiry \<Rightarrow> string" where
  "expiry_text Unknown = ''expiry unknown (this badge does not carry one)''"
| "expiry_text (Expired ago) = ''expired '' @ span_text ago @ '' ago''"
| "expiry_text (Expiring left) = ''expires in '' @ span_text left"
| "expiry_text (Live left) = ''expires in '' @ span_text left"

section \<open>Both readers look again the same way\<close>

definition pin_closed :: "reading \<Rightarrow> bool" where
  "pin_closed r \<longleftrightarrow> \<not> (\<exists>k. r = RPinned k)"

definition pin_found :: "env \<Rightarrow> 's pin_look \<Rightarrow> reading set" where
  "pin_found E k = {r. \<exists>t. pl_text k = PinText t \<and> r = pin_reading E t}"

lemma pin_refresh_view:
  "p_read (pin_refresh E S k P) = p_read P \<or> pin_closed (p_read (pin_refresh E S k P)) \<or>
   p_read (pin_refresh E S k P) \<in> pin_found E k"
  by (auto simp: pin_refresh_def pin_closed_def pin_found_def Let_def split: meta_read.splits pin_read.splits)

lemma pin_log_read [simp]: "p_read (pin_log r P) = p_read P" "p_last_stat (pin_log r P) = p_last_stat P"
  "p_stamp (pin_log r P) = p_stamp P"
  by (simp_all add: pin_log_def)

lemma pin_current_state:
  "p_read (snd (pin_current E S None k P)) = p_read (pin_refresh E S k P)"
  by (simp add: pin_current_def Let_def)

interpretation pins: reread "\<lambda>k P. snd (pin_current E S None k P)" p_read pin_closed "pin_found E"
  for E and S :: "'s stamps"
  by unfold_locales (use pin_refresh_view pin_current_state in metis)

definition row_texts :: "nauthy_text \<Rightarrow> 's look \<times> revocation_id \<Rightarrow> (revocation_id \<Rightarrow> issued option) set" where
  "row_texts T p = {rows. \<exists>t. read_text (fst p) = Contents t \<and> rows = ledger_rows T t}"

interpretation ledgers: reread "\<lambda>p L. snd (is_issued T S (fst p) (snd p) L)" l_rows "\<lambda>r. r = (\<lambda>_. None)"
  "row_texts T" for T and S :: "'s stamps"
proof
  fix p and L :: "'s ledger"
  show "l_rows (snd (is_issued T S (fst p) (snd p) L)) = l_rows L \<or>
     l_rows (snd (is_issued T S (fst p) (snd p) L)) = (\<lambda>_. None) \<or>
     l_rows (snd (is_issued T S (fst p) (snd p) L)) \<in> row_texts T p"
    by (cases rule: ledger_refresh_cases [of T S "fst p" L]) (auto simp: row_texts_def)
qed

lemma pin_current_Some:
  "fst (pin_current E S None k P) = Some key \<Longrightarrow>
   p_read (pin_refresh E S k P) = RPinned key \<and> RevKey key \<notin> pl_revoked k"
  by (auto simp: pin_current_def reading_now_def Let_def split: reading.splits if_splits)

section \<open>Properties\<close>

text \<open>
  The gate trusts only a pin it read. At every admission the pin is a key that is not revoked then
  and that some look of this run read as the one key of the file; a run under \<^verbatim>\<open>--admit\<close> trusts that
  root and no other, while it is not revoked.
\<close>
theorem pin_only_from_file:
  assumes "fst (pin_current E S admit k (fold (\<lambda>k P. snd (pin_current E S admit k P)) ks pin_start)) = Some key"
  shows "RevKey key \<notin> pl_revoked k \<and>
     (admit = Some key \<or>
      admit = None \<and> (\<exists>l \<in> set (ks @ [k]). \<exists>t. pl_text l = PinText t \<and> one_key E t = Some key))"
proof (cases admit)
  case (Some a)
  then show ?thesis using assms by (auto simp: pin_current_def split: if_splits)
next
  case None
  let ?P = "fold (\<lambda>k P. snd (pin_current E S None k P)) ks pin_start"
  note c = pin_current_Some [OF assms [unfolded None]]
  have "p_read (fold (\<lambda>k P. snd (pin_current E S None k P)) (ks @ [k]) pin_start) = RPinned key"
    using c by (simp add: pin_current_state)
  moreover have "pin_closed (p_read pin_start)" by (simp add: pin_start_def pin_closed_def)
  ultimately have "\<exists>l \<in> set (ks @ [k]). RPinned key \<in> pin_found E l"
    using pins.open_view_found [of pin_start E S "ks @ [k]"] by (simp add: pin_closed_def)
  then show ?thesis using c None
    by (auto simp: pin_found_def pin_reading_def split: option.splits)
qed

definition example_pin_look :: "nat pin_look" where
  "example_pin_look = \<lparr>pl_at = 1, pl_meta = Meta (Some 1), pl_text = PinText ''root'', pl_revoked = {}\<rparr>"

lemma example_one_key: "one_key example_env ''root'' = Some (example_key 7)"
proof -
  have "lines ''root'' = [''root'']" by (rule lines_one) (simp_all add: newline_def)
  then show ?thesis by (simp add: one_key_def example_trims Let_def example_env_def)
qed

theorem pin_only_from_file_witness:
  "fst (pin_current example_env example_stamps None example_pin_look pin_start) = Some (example_key 7) \<and>
   RevKey (example_key 7) \<notin> pl_revoked example_pin_look"
proof -
  have a: "fst (pin_current example_env example_stamps None example_pin_look
      (fold (\<lambda>k P. snd (pin_current example_env example_stamps None k P)) [] pin_start)) = Some (example_key 7)"
    by (simp add: pin_current_def pin_refresh_def pin_start_def reading_now_def example_pin_look_def pin_reading_def
        example_one_key example_stamps_def Let_def)
  from pin_only_from_file [OF a] a show ?thesis by simp
qed

text \<open>
  The pin fails closed. A look that is due and finds no file, cannot stat it, or finds it changed
  and loose, unreadable or not exactly one key leaves no pin: whatever was pinned before is gone, and
  the gate trusts no root of the file.
\<close>
theorem pin_fails_closed:
  assumes "case p_last_stat P of None \<Rightarrow> True | Some prior \<Rightarrow> stat_debounce S \<le> pl_at k - prior"
    and "pl_meta k = MetaMissing \<or> pl_meta k = MetaError e \<or>
      (\<exists>stamp. pl_meta k = Meta stamp \<and> \<not> unchanged S (p_stamp P) stamp \<and>
        \<not> (\<exists>t key. pl_text k = PinText t \<and> one_key E t = Some key))"
  shows "fst (pin_current E S None k P) = None \<and> pin_closed (p_read (snd (pin_current E S None k P)))"
proof -
  have "pin_closed (p_read (pin_refresh E S k P))"
    using assms by (auto simp: pin_refresh_def pin_closed_def pin_reading_def Let_def split: pin_read.splits option.splits)
  then show ?thesis using pin_current_Some [of E S k P] pin_current_state [of E S k P]
    by (cases "fst (pin_current E S None k P)") (auto simp: pin_closed_def)
qed

theorem pin_fails_closed_witness:
  "fst (pin_current example_env example_stamps None
     \<lparr>pl_at = 1, pl_meta = MetaMissing, pl_text = PinError, pl_revoked = {}\<rparr>
     \<lparr>p_read = RPinned (example_key 7), p_stamp = Some 0, p_last_stat = Some 0, p_logged = None\<rparr>) = None"
  using pin_fails_closed [where S = example_stamps and E = example_env and e = "[]"
      and k = "\<lparr>pl_at = 1, pl_meta = MetaMissing, pl_text = PinError, pl_revoked = {}\<rparr>"
      and P = "\<lparr>p_read = RPinned (example_key 7), p_stamp = Some 0, p_last_stat = Some 0, p_logged = None\<rparr>"]
  by (simp add: example_stamps_def)

end
