(* ===== verification/Book.thy ===== *)
theory Book
  imports Fold
begin

text \<open>
  The records of \<^verbatim>\<open>src/root.rs\<close>: the list beside the root's key as one command changes it. How they
  are brought forward from the updates a machine holds, when a device renews, what fits in one
  update and the update they make. The lemmas show that revocations are never lost on the way,
  that every name and key is listed once, that no listed device is revoked, and that records
  within the bounds always make an update.
\<close>

section \<open>Numbers and dates\<close>

definition DAY :: u64 where "DAY = 24 * 60 * 60"
definition DEFAULT_DURATION :: u64 where "DEFAULT_DURATION = 90 * DAY"
definition SHORTEST_RENEWING :: u64 where "SHORTEST_RENEWING = 30 * DAY"
definition MINTED :: u64 where "MINTED = 1"

lemmas root_consts [source_consts] = DAY_def DEFAULT_DURATION_def SHORTEST_RENEWING_def MINTED_def

text \<open>\<^verbatim>\<open>{:0w}\<close> of a number: at least \<open>w\<close> digits.\<close>

definition pad :: "nat \<Rightarrow> nat \<Rightarrow> string" where
  "pad w n = (let s = show_nat n in replicate (w - length s) CHR ''0'' @ s)"

text \<open>Days counted from 0000-03-01, split into year, month and day.\<close>

definition civil_of_days :: "nat \<Rightarrow> nat \<times> nat \<times> nat" where
  "civil_of_days days =
     (let era = days div 146097;
          day_of_era = days - era * 146097;
          year_of_era = (day_of_era - day_of_era div 1460 + day_of_era div 36524 - day_of_era div 146096) div 365;
          day_of_year = day_of_era - (365 * year_of_era + year_of_era div 4 - year_of_era div 100);
          shifted_month = (5 * day_of_year + 2) div 153;
          day = day_of_year - (153 * shifted_month + 2) div 5 + 1;
          month = (if shifted_month < 10 then shifted_month + 3 else shifted_month - 9);
          year = year_of_era + era * 400 + (if month \<le> 2 then 1 else 0)
      in (year, month, day))"

definition date_show :: "u64 \<Rightarrow> string" where
  "date_show secs =
     (let (year, month, day) = civil_of_days (unat (secs div DAY) + 719468)
      in pad 4 year @ ''-'' @ pad 2 month @ ''-'' @ pad 2 day)"

definition renew_by :: "u64 \<Rightarrow> u64 \<Rightarrow> bool \<Rightarrow> u64 option" where
  "renew_by til duration is_seeded =
     (if duration \<ge> SHORTEST_RENEWING \<and> \<not> is_seeded then Some (sat_sub til (duration div 2)) else None)"

section \<open>Errors\<close>

datatype root_error =
    RtStanding standing_error
  | RtNotADevice
  | HeldHere
  | Admitting
  | StandingChanged
  | NoRootHere
  | NotOnThisMachine
  | Unfinished node_id
  | RtKeyFile string
  | RtUnusableKey
  | RtKey
  | Plain
  | Method nat
  | Mismatch node_id node_id
  | RtRevoked node_id
  | ReadOnly
  | RtDamaged
  | TooManyDevices nat
  | TooManyRevoked nat u64
  | TooManyKeys nat
  | Exhausted
  | NoTerminal
  | NoTerminalToUnlock
  | NotMintable
  | NoDeviceToRenew device_label
  | KeepsOwnKey device_label
  | RenewalsInForce device_label u64
  | NotYourDevice device_label
  | NameTaken device_label verify_key
  | RtOwnKey device_label
  | AlreadyDevice verify_key device_label u64
  | RevokedKey verify_key device_label
  | Prompt string
  | Sign string
  | RtFormat format_error
  | RtArtifact string
  | RtFold fold_error
  | ListChanged
  | NameMoved device_label
  | RtIo string
  | RtWrite string
  | RtLock string
  | RtPanic

section \<open>A name nobody has\<close>

text \<open>
  \<open>base\<close>, then \<open>base-2\<close>, \<open>base-3\<close>: the suffix is a \<^verbatim>\<open>u32\<close>, and running past its last value is
  \<open>RtPanic\<close>.
\<close>

definition fresh_text :: "string \<Rightarrow> nat \<Rightarrow> string" where
  "fresh_text base n =
     (if n = 1 then base
      else let tail = CHR ''-'' # show_nat n;
               keep = min (LABEL_MAX_LEN - length tail) (length base)
        in trim_end_dashes (take keep base) @ tail)"

function fresh_from :: "string \<Rightarrow> (device_label \<Rightarrow> bool) \<Rightarrow> nat \<Rightarrow> root_error + device_label" where
  "fresh_from base taken n =
     (if n > 4294967295 then Inl RtPanic
      else case label_from_str (fresh_text base n) of
          Inr name \<Rightarrow> if \<not> taken name then Inr name else fresh_from base taken (n + 1)
        | Inl _ \<Rightarrow> fresh_from base taken (n + 1))"
  by pat_completeness auto
termination by (relation "measure (\<lambda>(base, taken, n). 4294967296 - n)") auto

declare fresh_from.simps [simp del]

definition fresh_name :: "string \<Rightarrow> (device_label \<Rightarrow> bool) \<Rightarrow> root_error + device_label" where
  "fresh_name base taken = fresh_from base taken 1"

section \<open>The records\<close>

record book =
  bk_last :: u64
  bk_rows :: "member list"
  bk_marked :: "member list"
  bk_revoked :: "(bytes, id) btree"
  bk_revoked_keys :: "(bytes, revoked_device) btree"
  bk_own :: "verify_key option"

record renamed =
  rn_was :: device_label
  rn_now :: device_label

record brought =
  br_devices :: nat
  br_revocations :: nat
  br_marked :: nat
  br_capped :: "(device_label \<times> nat \<times> u64) list"
  br_clashed :: "(device_label \<times> verify_key) list"
  br_renamed :: "renamed option"

definition nothing_brought :: brought where
  "nothing_brought = \<lparr>br_devices = 0, br_revocations = 0, br_marked = 0, br_capped = [],
     br_clashed = [], br_renamed = None\<rparr>"

definition book_of :: "roster_doc option \<Rightarrow> verify_key option \<Rightarrow> book" where
  "book_of list own =
     (case list of
        None \<Rightarrow> \<lparr>bk_last = UNVERSIONED, bk_rows = [], bk_marked = [], bk_revoked = [],
                 bk_revoked_keys = [], bk_own = own\<rparr>
      | Some d \<Rightarrow> \<lparr>bk_last = epoch d, bk_rows = members d, bk_marked = [],
                 bk_revoked = bt_of (map (\<lambda>i. (idb i, i)) (revoked d)),
                 bk_revoked_keys = bt_of (map (\<lambda>r. (rdb r, r)) (revoked_devices d)),
                 bk_own = own\<rparr>)"

definition brought_any :: "brought \<Rightarrow> bool" where
  "brought_any br \<longleftrightarrow> br_devices br + br_revocations br + br_marked br > 0 \<or> br_renamed br \<noteq> None"

section \<open>Revoking\<close>

definition revoke_id :: "id \<Rightarrow> book \<Rightarrow> bool \<times> book" where
  "revoke_id i b =
     (case bt_get (bk_revoked b) (idb i) of
        Some held \<Rightarrow> (False, b\<lparr>bk_revoked :=
          bt_insert (idb i) (held\<lparr>expires := max (expires held) (expires i)\<rparr>) (bk_revoked b)\<rparr>)
      | None \<Rightarrow> (True, b\<lparr>bk_revoked := bt_insert (idb i) i (bk_revoked b)\<rparr>))"

definition revoke_key :: "revoked_device \<Rightarrow> book \<Rightarrow> bool \<times> book" where
  "revoke_key d b =
     (if bt_has (bk_revoked_keys b) (rdb d) then (False, b)
      else (True, b\<lparr>bk_revoked_keys := bt_insert (rdb d) d (bk_revoked_keys b)\<rparr>))"

definition live :: "u64 \<Rightarrow> id list \<Rightarrow> id list" where
  "live now ids = filter (\<lambda>i. expires i > now) ids"

definition follow_row :: "u64 \<Rightarrow> book \<Rightarrow> member \<Rightarrow> book" where
  "follow_row now b row =
     (let b = foldl (\<lambda>b i. snd (revoke_id i b)) b (live now (m_ids row))
      in b\<lparr>bk_marked := filter (\<lambda>h. m_node h \<noteq> m_node row) (bk_marked b) @ [row]\<rparr>)"

definition follow_keys :: "u64 \<Rightarrow> book \<Rightarrow> nat \<times> book" where
  "follow_keys now b =
     (let gone = filter (\<lambda>r. bt_has (bk_revoked_keys b) (mkey r)) (bk_rows b);
          kept = filter (\<lambda>r. \<not> bt_has (bk_revoked_keys b) (mkey r)) (bk_rows b)
      in (length gone, foldl (follow_row now) (b\<lparr>bk_rows := kept\<rparr>) gone))"

section \<open>Bringing records forward\<close>

text \<open>A revocation taken from an update, counted when it is new.\<close>

definition count_new :: "bool \<times> book \<Rightarrow> brought \<Rightarrow> book \<times> brought" where
  "count_new r br =
     (case r of (new, b) \<Rightarrow> (b, if new then br\<lparr>br_revocations := br_revocations br + 1\<rparr> else br))"

definition bring_revocations :: "roster_doc \<Rightarrow> u64 \<Rightarrow> book \<times> brought \<Rightarrow> book \<times> brought" where
  "bring_revocations d now s =
     (let s = foldl (\<lambda>(b, br) i. if expires i > now then count_new (revoke_id i b) br else (b, br)) s (revoked d)
      in foldl (\<lambda>(b, br) r. count_new (revoke_key r b) br) s (revoked_devices d))"

text \<open>The update's device wins its name; this machine's own row yields the name and stays.\<close>

definition settle_name :: "member \<Rightarrow> u64 \<Rightarrow> book \<times> brought \<Rightarrow> root_error + book \<times> brought" where
  "settle_name m now s =
     (case s of (b, br) \<Rightarrow>
      case position (\<lambda>r. m_label r = m_label m \<and> m_node r \<noteq> m_node m) (bk_rows b) of
        None \<Rightarrow> Inr (b, br)
      | Some i \<Rightarrow>
          let row = bk_rows b ! i in
          if Some (m_node row) = bk_own b then
            bindR (fresh_name (label_str (m_label m))
              (\<lambda>l. l = m_label m \<or> (\<exists>r \<in> set (bk_rows b). m_label r = l))) (\<lambda>fresh.
            let was = (case br_renamed br of None \<Rightarrow> m_label row | Some first \<Rightarrow> rn_was first) in
            Inr (b\<lparr>bk_rows := (bk_rows b)[i := row\<lparr>m_label := fresh\<rparr>]\<rparr>,
                 br\<lparr>br_renamed := Some \<lparr>rn_was = was, rn_now = fresh\<rparr>\<rparr>))
          else
            let b = snd (revoke_key \<lparr>rd_node = m_node row, rd_label = m_label row\<rparr> b);
                (n, b) = follow_keys now b
            in Inr (b, br\<lparr>br_clashed := br_clashed br @ [(m_label m, m_node row)],
                          br_marked := br_marked br + n\<rparr>))"

definition merge_ids :: "u64 \<Rightarrow> id list \<Rightarrow> id list \<Rightarrow> id list" where
  "merge_ids now held new =
     live now (foldl (\<lambda>ids i. if expires i > now \<and> \<not> (\<exists>h \<in> set ids. rid h = rid i) then ids @ [i] else ids)
       held new)"

definition cap_ids :: "id list \<Rightarrow> id list \<times> id list" where
  "cap_ids ids =
     (if length ids > MAX_IDS then
        let s = sort_key expires ids; n = length s - MAX_IDS in (take n s, drop n s)
      else ([], ids))"

definition take_row :: "member \<Rightarrow> u64 \<Rightarrow> book \<times> brought \<Rightarrow> book \<times> brought" where
  "take_row m now s =
     (case s of (b, br) \<Rightarrow>
      if bt_has (bk_revoked_keys b) (mkey m) then (b, br)
      else case position (\<lambda>r. m_node r = m_node m) (bk_rows b) of
        None \<Rightarrow> (b\<lparr>bk_rows := bk_rows b @ [m\<lparr>m_ids := live now (m_ids m)\<rparr>]\<rparr>,
                 br\<lparr>br_devices := br_devices br + 1\<rparr>)
      | Some i \<Rightarrow>
          let row = bk_rows b ! i;
              row = row\<lparr>m_invite_until := max (m_invite_until row) (m_invite_until m)\<rparr>;
              (capped, ids) = cap_ids (merge_ids now (m_ids row) (m_ids m));
              row = row\<lparr>m_ids := ids\<rparr>;
              row = (if m_until m > m_until row
                     then row\<lparr>m_until := m_until m, m_standing := m_standing m\<rparr> else row);
              b = b\<lparr>bk_rows := (bk_rows b)[i := row]\<rparr>
          in if capped = [] then (b, br)
             else
               let oldest_kept = (case m_ids row of [] \<Rightarrow> m_until row | i # _ \<Rightarrow> expires i);
                   since = sat_sub oldest_kept (m_duration row);
                   br = br\<lparr>br_capped := br_capped br @ [(m_label row, length capped, since)]\<rparr>
               in foldl (\<lambda>(b, br) i. count_new (revoke_id i b) br) (b, br) capped)"

definition take_member :: "member \<Rightarrow> u64 \<Rightarrow> book \<times> brought \<Rightarrow> root_error + book \<times> brought" where
  "take_member m now s = bindR (settle_name m now s) (\<lambda>s. Inr (take_row m now s))"

fun take_members :: "member list \<Rightarrow> u64 \<Rightarrow> book \<times> brought \<Rightarrow> root_error + book \<times> brought" where
  "take_members [] now s = Inr s"
| "take_members (m # ms) now s = bindR (take_member m now s) (take_members ms now)"

definition book_bring_forward :: "roster_doc \<Rightarrow> u64 \<Rightarrow> book \<times> brought \<Rightarrow> root_error + book \<times> brought" where
  "book_bring_forward d now s =
     (case s of (b, br) \<Rightarrow>
      take_members (members d) now
        (bring_revocations d now (b\<lparr>bk_last := max (bk_last b) (epoch d)\<rparr>, br)))"

text \<open>The root's own ids and keys among this machine's revocations, \<open>rv\<close> as \<^verbatim>\<open>revoked\<close> holds them.\<close>

definition known_ids :: "book \<Rightarrow> roster_doc option \<Rightarrow> (bytes, u64) btree" where
  "known_ids b held =
     (let entry = (\<lambda>m i. bt_insert (idb i) (expires i) m);
          known = foldl entry [] (concat (map m_ids (bk_rows b)))
      in case held of
           None \<Rightarrow> known
         | Some h \<Rightarrow> foldl entry known (revoked h @ concat (map m_ids (members h))))"

definition carry_revoked :: "revocation set \<Rightarrow> roster_doc option \<Rightarrow> book \<Rightarrow> book" where
  "carry_revoked rv held b =
     (let b = foldl (\<lambda>b (bs, ends). if RevId (RevocationId bs) \<in> rv
            then snd (revoke_id \<lparr>expires = ends, rid = RevocationId bs\<rparr> b) else b) b (known_ids b held);
          devices = map (\<lambda>r. \<lparr>rd_node = m_node r, rd_label = m_label r\<rparr>)
            (filter (\<lambda>r. RevKey (m_node r) \<in> rv) (bk_rows b))
      in foldl (\<lambda>b d. snd (revoke_key d b)) b devices)"

definition carry_forward :: "'d denylist_ops \<Rightarrow> 'd home \<Rightarrow> roster_doc option \<Rightarrow> book \<Rightarrow> root_error + book" where
  "carry_forward D H held b =
     bindR (map_err (RtStanding \<circ> StRevoked) (revoked_open D H)) (\<lambda>rv. Inr (carry_revoked rv held b))"

definition mark_listed :: "roster_doc \<Rightarrow> book \<Rightarrow> nat \<times> book" where
  "mark_listed d b =
     foldl (\<lambda>(n, b) m.
       if bt_has (bk_revoked_keys b) (mkey m) \<and> \<not> (\<exists>r \<in> set (bk_marked b). m_node r = m_node m)
       then (n + 1, b\<lparr>bk_marked := bk_marked b @ [m]\<rparr>) else (n, b)) (0, b) (members d)"

definition bring_one :: "bool \<Rightarrow> roster_doc \<Rightarrow> u64 \<Rightarrow> book \<times> brought \<Rightarrow> root_error + book \<times> brought" where
  "bring_one older d now s =
     (if older then Inr (bring_revocations d now s) else book_bring_forward d now s)"

definition bring_lists ::
  "roster_doc option \<Rightarrow> roster_doc option \<Rightarrow> u64 \<Rightarrow> book \<Rightarrow> root_error + book \<times> brought" where
  "bring_lists held fork now b =
     (let behind = (case held of None \<Rightarrow> False | Some h \<Rightarrow> epoch h > bk_last b);
          floor = (case held of None \<Rightarrow> bk_last b | Some h \<Rightarrow> max (epoch h) (bk_last b))
      in if behind \<or> fork \<noteq> None then
           bindR (case held of
               None \<Rightarrow> Inr (b, nothing_brought)
             | Some h \<Rightarrow> bring_one (epoch h < bk_last b) h now (b, nothing_brought)) (\<lambda>s.
           case fork of
               None \<Rightarrow> Inr s
             | Some f \<Rightarrow> bring_one (epoch f < floor) f now s)
         else Inr (b, nothing_brought))"

definition mark_lists :: "roster_doc list \<Rightarrow> nat \<times> book \<Rightarrow> nat \<times> book" where
  "mark_lists ds s = foldl (\<lambda>(n, b) d. case mark_listed d b of (k, b) \<Rightarrow> (n + k, b)) s ds"

definition forward ::
  "'d denylist_ops \<Rightarrow> 'd home \<Rightarrow> roster_doc option \<Rightarrow> roster_doc option \<Rightarrow> u64 \<Rightarrow> book \<Rightarrow>
   root_error + (book \<times> brought) \<times> bool" where
  "forward D H held fork now b =
     (let behind = (case held of None \<Rightarrow> False | Some h \<Rightarrow> epoch h > bk_last b)
      in bindR (bring_lists held fork now b) (\<lambda>(b, br).
      bindR (carry_forward D H held b) (\<lambda>b.
      let (n, b) = mark_lists (option_list held @ option_list fork) (follow_keys now b)
      in Inr ((b, br\<lparr>br_marked := br_marked br + n\<rparr>), behind))))"

definition read_forward ::
  "env \<Rightarrow> 'd denylist_ops \<Rightarrow> 'd home \<Rightarrow> verify_key \<Rightarrow> u64 \<Rightarrow> book \<Rightarrow> root_error + book \<times> roster_doc option" where
  "read_forward E D H pin now b =
     (let held = map_option fst (read_held E (h_devices H) pin);
          fork = map_option fst (read_held E (h_conflict H) pin)
      in bindR (forward D H held fork now b) (\<lambda>((b, _), _). Inr (b, held)))"

section \<open>When a device renews\<close>

definition live_ids :: "member \<Rightarrow> u64 \<Rightarrow> nat" where
  "live_ids row now = length (live now (m_ids row))"

definition renews_on_its_own :: "member \<Rightarrow> u64 \<Rightarrow> bool" where
  "renews_on_its_own row now \<longleftrightarrow>
     m_duration row \<ge> SHORTEST_RENEWING \<and> \<not> seeded row \<and> now < m_until row \<and>
     m_until row - now < m_duration row div 2"

definition due :: "member \<Rightarrow> u64 \<Rightarrow> bool" where
  "due row now \<longleftrightarrow> renews_on_its_own row now \<and> live_ids row now < MAX_IDS"

definition own_duration :: "member \<Rightarrow> u64" where
  "own_duration row = (if m_duration row = 0 then DEFAULT_DURATION else m_duration row)"

definition renewal_skips :: "book \<Rightarrow> member \<Rightarrow> u64 \<Rightarrow> u64 \<Rightarrow> bool" where
  "renewal_skips b row duration now =
     (let newest = max_by_key expires (m_ids row);
          newest_signed = (case newest of None \<Rightarrow> 0 | Some i \<Rightarrow> sat_sub (expires i) (m_duration row));
          standing_revoked = (case newest of None \<Rightarrow> False | Some i \<Rightarrow> bt_has (bk_revoked b) (idb i))
      in live_ids row now \<ge> MAX_IDS \<or>
         (\<not> standing_revoked \<and> now < m_until row \<and>
          (sat_add newest_signed DAY > now \<or> sat_add now duration \<le> m_until row)))"

definition lacks_own :: "book \<Rightarrow> u64 \<Rightarrow> bool" where
  "lacks_own b now \<longleftrightarrow>
     (case bk_own b of
        None \<Rightarrow> False
      | Some own \<Rightarrow> \<not> bt_has (bk_revoked_keys b) (key_bytes own) \<and>
          \<not> (\<exists>r \<in> set (bk_rows b). m_node r = own \<and> m_until r > now))"

section \<open>What one update carries\<close>

definition prune :: "u64 \<Rightarrow> book \<Rightarrow> book" where
  "prune now b = b\<lparr>bk_revoked := bt_retain (\<lambda>i. expires i > now) (bk_revoked b),
     bk_rows := map (\<lambda>r. r\<lparr>m_ids := live now (m_ids r)\<rparr>) (bk_rows b)\<rparr>"

definition check_bounds :: "book \<Rightarrow> u64 \<Rightarrow> root_error + unit" where
  "check_bounds b now =
     (let devices = length (bk_rows b);
          unexpired = filter (\<lambda>e. e > now) (map expires (bt_values (bk_revoked b)))
      in if devices > MAX_MEMBERS then Inl (TooManyDevices devices)
         else if length unexpired > MAX_REVOKED then
           Inl (TooManyRevoked (length unexpired) (case unexpired of [] \<Rightarrow> now | e # es \<Rightarrow> foldl min e es))
         else if length (bk_revoked_keys b) > MAX_REVOKED_KEYS then
           Inl (TooManyKeys (length (bk_revoked_keys b)))
         else if checked_add (bk_last b) 1 = None then Inl Exhausted
         else Inr ())"

definition lists_row :: "roster_doc \<Rightarrow> u64 \<Rightarrow> member \<Rightarrow> bool" where
  "lists_row held now row \<longleftrightarrow>
     (\<exists>m \<in> set (members held). m_node m = m_node row \<and> m_label m = m_label row \<and>
        m_until m = m_until row \<and> m_duration m = m_duration row \<and>
        m_invite_until m = m_invite_until row \<and>
        link_str (m_standing m) = link_str (m_standing row) \<and>
        (\<forall>i \<in> set (live now (m_ids row)). i \<in> set (m_ids m)))"

definition lacks :: "book \<Rightarrow> roster_doc \<Rightarrow> u64 \<Rightarrow> bool" where
  "lacks b held now \<longleftrightarrow>
     (\<exists>row \<in> set (bk_rows b). \<not> lists_row held now row) \<or>
     (\<exists>i \<in> set (live now (bt_values (bk_revoked b))). \<not> (\<exists>h \<in> set (revoked held). rid h = rid i)) \<or>
     (\<exists>d \<in> set (bt_values (bk_revoked_keys b)). \<not> is_revoked_key held (rd_node d))"

definition book_update :: "book \<Rightarrow> u64 \<Rightarrow> u64 \<Rightarrow> root_error + roster_doc" where
  "book_update b number now =
     map_err RtFormat (with_revocations number
       (map (\<lambda>r. r\<lparr>m_ids := live now (m_ids r)\<rparr>) (bk_rows b))
       (live now (bt_values (bk_revoked b))) (bt_values (bk_revoked_keys b)))"

section \<open>The checks before the prompt\<close>

record root_records =
  rc_book :: book
  rc_own :: "verify_key option"
  rc_now :: u64

definition rc_device :: "root_records \<Rightarrow> device_label \<Rightarrow> member option" where
  "rc_device R name = find (\<lambda>r. m_label r = name) (bk_rows (rc_book R))"

definition check_add :: "root_records \<Rightarrow> verify_key \<Rightarrow> device_label \<Rightarrow> root_error + unit" where
  "check_add R key name =
     (case bt_get (bk_revoked_keys (rc_book R)) (key_bytes key) of
        Some rvk \<Rightarrow> Inl (RevokedKey key (rd_label rvk))
      | None \<Rightarrow>
      (case find (\<lambda>r. m_node r = key) (bk_rows (rc_book R)) of
         Some row \<Rightarrow>
           if Some key = rc_own R then Inl (RtOwnKey (m_label row))
           else Inl (AlreadyDevice key (m_label row) (m_until row))
       | None \<Rightarrow>
         let count = length (bk_rows (rc_book R));
             room = (if count \<ge> MAX_MEMBERS then Inl (TooManyDevices count) else Inr ())
         in case rc_device R name of
              Some row \<Rightarrow>
                if Some (m_node row) \<noteq> rc_own R \<or> bk_last (rc_book R) > MINTED
                then Inl (NameTaken name (m_node row)) else room
            | None \<Rightarrow> room))"

definition check_rekey :: "root_records \<Rightarrow> device_label \<Rightarrow> root_error + unit" where
  "check_rekey R name =
     (case rc_device R name of
        None \<Rightarrow> Inl (NoDeviceToRenew name)
      | Some row \<Rightarrow>
          if \<not> seeded row then Inl (KeepsOwnKey name)
          else if live_ids row (rc_now R) \<ge> MAX_IDS then
            let ends = filter (\<lambda>e. e > rc_now R) (map expires (m_ids row))
            in Inl (RenewalsInForce name (case ends of [] \<Rightarrow> m_until row | e # es \<Rightarrow> foldl min e es))
          else Inr ())"

end
