(* ===== verification/Book_Laws.thy ===== *)
theory Book_Laws
  imports Book
begin

text \<open>
  What holds of the records of \<^verbatim>\<open>src/root.rs\<close> through everything that changes them: revocations are
  kept, each key and each name is listed once, and what the records carry fits an update.
\<close>

section \<open>Folding over a list\<close>

lemma foldl_inv:
  "P s \<Longrightarrow> (\<And>s x. x \<in> set xs \<Longrightarrow> P s \<Longrightarrow> P (f s x)) \<Longrightarrow> P (foldl f s xs)"
  by (induction xs arbitrary: s) auto

lemma foldl_rel:
  assumes "reflp R" "transp R" "\<And>s x. R s (f s x)"
  shows "R s (foldl f s xs)"
proof (induction xs arbitrary: s)
  case Nil
  then show ?case using assms(1) by (simp add: reflp_def)
next
  case (Cons x xs)
  then show ?case using assms(2,3) by (metis foldl_Cons transpD)
qed

section \<open>Revocations are kept\<close>

text \<open>Both maps are in order, and each entry is under its own bytes.\<close>

definition keyed :: "('v \<Rightarrow> 'k) \<Rightarrow> ('k, 'v) btree \<Rightarrow> bool" where
  "keyed f m \<longleftrightarrow> (\<forall>(k, v) \<in> set m. k = f v)"

definition maps_ok :: "book \<Rightarrow> bool" where
  "maps_ok b \<longleftrightarrow> bt_ok (bk_revoked b) \<and> bt_ok (bk_revoked_keys b) \<and>
     keyed idb (bk_revoked b) \<and> keyed rdb (bk_revoked_keys b)"

lemma bt_insert_sub: "set (bt_insert k v m) \<subseteq> insert (k, v) (set m)"
  by (induction m) auto

lemma keyed_insert: "keyed f m \<Longrightarrow> k = f v \<Longrightarrow> keyed f (bt_insert k v m)"
  using bt_insert_sub [of k v m] by (fastforce simp: keyed_def)

lemma keyed_get: "keyed f m \<Longrightarrow> bt_get m k = Some v \<Longrightarrow> k = f v"
  by (auto simp: keyed_def bt_get_def dest!: map_of_SomeD)

definition keeps :: "book \<Rightarrow> book \<Rightarrow> bool" where
  "keeps b b' \<longleftrightarrow>
     (\<forall>k i. bt_get (bk_revoked b) k = Some i \<longrightarrow>
        (\<exists>j. bt_get (bk_revoked b') k = Some j \<and> rid j = rid i \<and> expires i \<le> expires j)) \<and>
     (\<forall>k d. bt_get (bk_revoked_keys b) k = Some d \<longrightarrow> bt_get (bk_revoked_keys b') k = Some d)"

text \<open>The order of every step on the records.\<close>

definition later :: "book \<Rightarrow> book \<Rightarrow> bool" where
  "later b b' \<longleftrightarrow> (maps_ok b \<longrightarrow> maps_ok b' \<and> keeps b b') \<and> bk_own b' = bk_own b \<and> bk_last b \<le> bk_last b'"

lemma keeps_refl [simp]: "keeps b b"
  by (auto simp: keeps_def)

lemma keeps_trans:
  assumes ab: "keeps a b" and bc: "keeps b c"
  shows "keeps a c"
proof (unfold keeps_def, intro conjI allI impI)
  fix k i
    assume "bt_get (bk_revoked a) k = Some i"
  then obtain j where j: "bt_get (bk_revoked b) k = Some j" "rid j = rid i" "expires i \<le> expires j"
    using ab unfolding keeps_def by blast
  then obtain l where "bt_get (bk_revoked c) k = Some l" "rid l = rid j" "expires j \<le> expires l"
    using bc unfolding keeps_def by blast
  then show "\<exists>j. bt_get (bk_revoked c) k = Some j \<and> rid j = rid i \<and> expires i \<le> expires j"
    using j by auto
qed (use assms in \<open>auto simp: keeps_def\<close>)

lemma later_order: "reflp later" "transp later"
  by (auto simp: reflp_def transp_def later_def intro: keeps_trans)

lemma later_refl [simp]: "later b b"
  by (simp add: later_def)

lemma later_trans: "later a b \<Longrightarrow> later b c \<Longrightarrow> later a c"
  by (auto simp: later_def intro: keeps_trans)

lemma later_ok: "later b b' \<Longrightarrow> maps_ok b \<Longrightarrow> maps_ok b'"
  by (simp add: later_def)

lemma later_same: "bk_revoked b' = bk_revoked b \<Longrightarrow> bk_revoked_keys b' = bk_revoked_keys b \<Longrightarrow>
  bk_own b' = bk_own b \<Longrightarrow> bk_last b \<le> bk_last b' \<Longrightarrow> later b b'"
  by (simp add: later_def maps_ok_def keeps_def)

lemma revoke_id_frame [simp]:
  "bk_rows (snd (revoke_id i b)) = bk_rows b" "bk_marked (snd (revoke_id i b)) = bk_marked b"
  "bk_own (snd (revoke_id i b)) = bk_own b" "bk_last (snd (revoke_id i b)) = bk_last b"
  "bk_revoked_keys (snd (revoke_id i b)) = bk_revoked_keys b"
  by (simp_all add: revoke_id_def split: option.splits)

lemma revoke_key_frame [simp]:
  "bk_rows (snd (revoke_key d b)) = bk_rows b" "bk_marked (snd (revoke_key d b)) = bk_marked b"
  "bk_own (snd (revoke_key d b)) = bk_own b" "bk_last (snd (revoke_key d b)) = bk_last b"
  "bk_revoked (snd (revoke_key d b)) = bk_revoked b"
  by (simp_all add: revoke_key_def)

lemma revoke_id_later: "later b (snd (revoke_id i b))"
proof -
  have "maps_ok (snd (revoke_id i b)) \<and> keeps b (snd (revoke_id i b))" if m: "maps_ok b"
  proof (cases "bt_get (bk_revoked b) (idb i)")
    case None
    then show ?thesis
      using m by (auto simp: revoke_id_def maps_ok_def keeps_def bt_insert_ok bt_insert_get
          keyed_insert)
  next
    case (Some held)
    then have h: "idb held = idb i" using m keyed_get by (fastforce simp: maps_ok_def)
    show ?thesis
      using m Some h by (auto simp: revoke_id_def maps_ok_def keeps_def bt_insert_ok bt_insert_get
          keyed_insert)
  qed
  then show ?thesis by (simp add: later_def)
qed

lemma revoke_key_later: "later b (snd (revoke_key d b))"
  by (auto simp: later_def revoke_key_def maps_ok_def keeps_def bt_insert_ok bt_insert_get bt_has_def
      keyed_insert)

lemma revoke_id_has [simp]:
  "bt_has (bk_revoked (snd (revoke_id i b))) k \<longleftrightarrow> k = idb i \<or> bt_has (bk_revoked b) k"
  by (auto simp: revoke_id_def bt_has_def bt_insert_get split: option.splits)

lemma revoke_key_has [simp]:
  "bt_has (bk_revoked_keys (snd (revoke_key d b))) k \<longleftrightarrow> k = rdb d \<or> bt_has (bk_revoked_keys b) k"
  by (auto simp: revoke_key_def)

lemma later_has:
  "maps_ok b \<Longrightarrow> later b b' \<Longrightarrow> bt_has (bk_revoked b) k \<Longrightarrow> bt_has (bk_revoked b') k"
  "maps_ok b \<Longrightarrow> later b b' \<Longrightarrow> bt_has (bk_revoked_keys b) k \<Longrightarrow> bt_has (bk_revoked_keys b') k"
  by (fastforce simp: later_def keeps_def bt_has_def)+

lemma count_new_fst [simp]: "fst (count_new r br) = snd r"
  by (simp add: count_new_def split_beta)

section \<open>Following revoked keys\<close>

lemma revoke_ids_frame [simp]:
  "bk_rows (foldl (\<lambda>b i. snd (revoke_id i b)) b is) = bk_rows b"
  "bk_marked (foldl (\<lambda>b i. snd (revoke_id i b)) b is) = bk_marked b"
  "bk_own (foldl (\<lambda>b i. snd (revoke_id i b)) b is) = bk_own b"
  "bk_revoked_keys (foldl (\<lambda>b i. snd (revoke_id i b)) b is) = bk_revoked_keys b"
  by (induction "is" arbitrary: b) simp_all

lemma revoke_ids_later: "later b (foldl (\<lambda>b i. snd (revoke_id i b)) b is)"
  by (rule foldl_rel [OF later_order revoke_id_later])

lemma follow_row_frame [simp]:
  "bk_rows (follow_row now b row) = bk_rows b" "bk_own (follow_row now b row) = bk_own b"
  "bk_revoked_keys (follow_row now b row) = bk_revoked_keys b"
  by (simp_all add: follow_row_def Let_def)

lemma follow_rows_frame [simp]:
  "bk_rows (foldl (follow_row now) b rows) = bk_rows b"
  "bk_own (foldl (follow_row now) b rows) = bk_own b"
  "bk_revoked_keys (foldl (follow_row now) b rows) = bk_revoked_keys b"
  by (induction rows arbitrary: b) simp_all

lemma follow_row_later: "later b (follow_row now b row)"
proof -
  have "later b (foldl (\<lambda>b i. snd (revoke_id i b)) b (live now (m_ids row)))" by (rule revoke_ids_later)
  then show ?thesis by (rule later_trans) (simp add: follow_row_def Let_def later_same)
qed

lemma follow_keys_later: "later b (snd (follow_keys now b))"
proof -
  have "later b (b\<lparr>bk_rows := r\<rparr>)" for r by (simp add: later_same)
  then show ?thesis unfolding follow_keys_def Let_def snd_conv
    by (rule later_trans) (rule foldl_rel [OF later_order follow_row_later])
qed

lemma follow_keys_rows [simp]:
  "bk_rows (snd (follow_keys now b)) = filter (\<lambda>r. \<not> bt_has (bk_revoked_keys b) (mkey r)) (bk_rows b)"
  "bk_own (snd (follow_keys now b)) = bk_own b"
  "bk_revoked_keys (snd (follow_keys now b)) = bk_revoked_keys b"
  by (simp_all add: follow_keys_def Let_def)

section \<open>A fresh name\<close>

lemma fresh_from_Inr: "fresh_from base taken n = Inr l \<Longrightarrow> valid_label l \<and> \<not> taken l"
proof (induction base taken n rule: fresh_from.induct)
  case (1 base taken n)
  have n: "\<not> n > 4294967295" using "1.prems" by (subst (asm) fresh_from.simps) (auto split: if_splits)
  show ?case
  proof (cases "label_from_str (fresh_text base n)")
    case (Inl e)
    then have "fresh_from base taken (n + 1) = Inr l"
      using "1.prems" n by (subst (asm) fresh_from.simps) simp
    then show ?thesis using "1.IH"(1) [OF n Inl] by simp
  next
    case (Inr name)
    show ?thesis
    proof (cases "taken name")
      case True
      then have "fresh_from base taken (n + 1) = Inr l"
        using "1.prems" n Inr by (subst (asm) fresh_from.simps) simp
      then show ?thesis using "1.IH"(2) [OF n Inr] True by simp
    next
      case False
      then have "name = l" using "1.prems" n Inr by (subst (asm) fresh_from.simps) simp
      then show ?thesis using False Inr by (auto dest: label_from_str_valid)
    qed
  qed
qed

lemma fresh_name_Inr: "fresh_name base taken = Inr l \<Longrightarrow> valid_label l \<and> \<not> taken l"
  by (auto simp: fresh_name_def dest: fresh_from_Inr)

section \<open>Each key and each name once\<close>

definition rows_ok :: "member list \<Rightarrow> bool" where
  "rows_ok rows \<longleftrightarrow> distinct (map m_node rows) \<and> distinct (map m_label rows) \<and>
     (\<forall>r \<in> set rows. valid_label (m_label r))"

definition holds :: "book \<Rightarrow> verify_key \<Rightarrow> bool" where
  "holds b k \<longleftrightarrow> (\<exists>r \<in> set (bk_rows b). m_node r = k) \<and> \<not> bt_has (bk_revoked_keys b) (key_bytes k)"

lemma rows_ok_filter: "rows_ok rows \<Longrightarrow> rows_ok (filter P rows)"
  by (auto simp: rows_ok_def distinct_map_filter)

lemma rows_ok_snoc:
  "rows_ok rows \<Longrightarrow> m_node m \<notin> m_node ` set rows \<Longrightarrow> m_label m \<notin> m_label ` set rows \<Longrightarrow>
   valid_label (m_label m) \<Longrightarrow> rows_ok (rows @ [m])"
  by (auto simp: rows_ok_def)

lemma map_update_same: "i < length xs \<Longrightarrow> f y = f (xs ! i) \<Longrightarrow> map f (xs[i := y]) = map f xs"
  by (simp add: map_update list_update_same_conv)

lemma rows_ok_update:
  assumes "rows_ok rows" "i < length rows" "m_node y = m_node (rows ! i)" "m_label y = m_label (rows ! i)"
  shows "rows_ok (rows[i := y])"
proof -
  have "valid_label (m_label r)" if "r \<in> set (rows[i := y])" for r
    using that assms set_update_subset_insert [of rows i y] by (auto simp: rows_ok_def)
  then show ?thesis
    using assms map_update_same [of i rows m_node y] map_update_same [of i rows m_label y]
    by (simp add: rows_ok_def)
qed

lemma rows_ok_rename:
  assumes ok: "rows_ok rows" and i: "i < length rows" and y: "m_node y = m_node (rows ! i)"
    and v: "valid_label (m_label y)" and f: "\<forall>r \<in> set rows. m_label r \<noteq> m_label y"
  shows "rows_ok (rows[i := y])"
proof -
  have "distinct ((map m_label rows)[i := m_label y])"
    using ok f by (intro distinct_list_update) (auto simp: rows_ok_def)
  moreover have "valid_label (m_label r)" if "r \<in> set (rows[i := y])" for r
    using that ok v set_update_subset_insert [of rows i y] by (auto simp: rows_ok_def)
  ultimately show ?thesis
    using ok map_update_same [of i rows m_node y] i y by (simp add: rows_ok_def map_update)
qed

lemma settle_name_cases:
  assumes "settle_name m now (b, br) = Inr (b', br')"
  obtains (free) "\<forall>r \<in> set (bk_rows b). \<not> (m_label r = m_label m \<and> m_node r \<noteq> m_node m)" "b' = b" "br' = br"
  | (own) i l rn where "i < length (bk_rows b)" "m_label (bk_rows b ! i) = m_label m"
      "m_node (bk_rows b ! i) \<noteq> m_node m" "Some (m_node (bk_rows b ! i)) = bk_own b"
      "valid_label l" "l \<noteq> m_label m" "\<forall>r \<in> set (bk_rows b). m_label r \<noteq> l"
      "b' = b\<lparr>bk_rows := (bk_rows b)[i := (bk_rows b ! i)\<lparr>m_label := l\<rparr>]\<rparr>"
      "br' = br\<lparr>br_renamed := Some rn\<rparr>"
  | (clash) row where "row \<in> set (bk_rows b)" "m_label row = m_label m"
      "m_node row \<noteq> m_node m" "Some (m_node row) \<noteq> bk_own b"
      "b' = snd (follow_keys now (snd (revoke_key \<lparr>rd_node = m_node row, rd_label = m_label row\<rparr> b)))"
proof (cases "position (\<lambda>r. m_label r = m_label m \<and> m_node r \<noteq> m_node m) (bk_rows b)")
  case None
  then have "\<forall>r \<in> set (bk_rows b). \<not> (m_label r = m_label m \<and> m_node r \<noteq> m_node m)"
    by (simp add: position_None)
  moreover have "b' = b" "br' = br" using assms None by (simp_all add: settle_name_def)
  ultimately show ?thesis by (rule free)
next
  case (Some i)
  note p = position_Some [OF Some]
  show ?thesis
  proof (cases "Some (m_node (bk_rows b ! i)) = bk_own b")
    case True
    then show ?thesis
      using assms Some p own [of i]
      by (auto simp: settle_name_def bindR_Inr_iff Let_def dest!: fresh_name_Inr)
  next
    case False
    then show ?thesis
      using assms Some p clash [of "bk_rows b ! i"]
      by (auto simp: settle_name_def Let_def split_beta)
  qed
qed

lemma settle_name_later: "settle_name m now (b, br) = Inr (b', br') \<Longrightarrow> later b b'"
  by (erule settle_name_cases)
    (auto intro: later_same later_trans [OF revoke_key_later follow_keys_later])

lemma settle_name_rows:
  assumes s: "settle_name m now (b, br) = Inr (b', br')" and ok: "rows_ok (bk_rows b)"
  shows "rows_ok (bk_rows b')" "\<forall>r \<in> set (bk_rows b'). m_label r = m_label m \<longrightarrow> m_node r = m_node m"
proof -
  have "rows_ok (bk_rows b') \<and> (\<forall>r \<in> set (bk_rows b'). m_label r = m_label m \<longrightarrow> m_node r = m_node m)"
    using s
  proof (cases rule: settle_name_cases)
    case free
    then show ?thesis using ok by auto
  next
    case (own i l rn)
    have "rows_ok (bk_rows b')" using own ok by (auto intro: rows_ok_rename)
    moreover have "m_node r = m_node m" if r: "r \<in> set (bk_rows b')" "m_label r = m_label m" for r
    proof -
      obtain j where j: "j < length (bk_rows b)" "r = bk_rows b' ! j"
        using r(1) own(8) by (auto simp: in_set_conv_nth)
      have "j \<noteq> i" using j own r(2) by auto
      then have "m_label (bk_rows b ! j) = m_label (bk_rows b ! i)" "j \<noteq> i"
        using j own r(2) by auto
      then have False using ok j(1) own(1) by (auto simp: rows_ok_def distinct_conv_nth)
      then show ?thesis ..
    qed
    ultimately show ?thesis by blast
  next
    case (clash row)
    have "r = row" if "r \<in> set (bk_rows b)" "m_label r = m_label m" for r
      using that clash(1,2) ok by (auto simp: rows_ok_def distinct_map inj_on_def)
    moreover have "bk_rows b' = filter (\<lambda>r. \<not> (mkey r = mkey row \<or> bt_has (bk_revoked_keys b) (mkey r))) (bk_rows b)"
      by (simp add: clash(5))
    ultimately show ?thesis using ok by (auto simp: rows_ok_filter)
  qed
  then show "rows_ok (bk_rows b')" "\<forall>r \<in> set (bk_rows b'). m_label r = m_label m \<longrightarrow> m_node r = m_node m"
    by auto
qed

text \<open>A clash of names never takes this machine's own row away.\<close>

lemma settle_name_holds:
  assumes s: "settle_name m now (b, br) = Inr (b', br')" and h: "holds b k" and o: "bk_own b = Some k"
  shows "holds b' k"
  using s
proof (cases rule: settle_name_cases)
  case free
  then show ?thesis using h by simp
next
  case (own i l rn)
  have "\<exists>r \<in> set (bk_rows b'). m_node r = k"
    using own(1,4,8) o by (intro bexI [of _ "(bk_rows b ! i)\<lparr>m_label := l\<rparr>"]) (simp_all add: set_update_memI)
  then show ?thesis using h own by (simp add: holds_def)
next
  case (clash row)
  have "key_bytes k \<noteq> key_bytes (m_node row)" using clash o by (metis verify_key.expand)
  then show ?thesis using h clash by (auto simp: holds_def)
qed

section \<open>Taking a device's row\<close>

lemma count_fold_frame:
  "bk_rows (fst (foldl (\<lambda>(b, br) i. count_new (revoke_id i b) br) s is)) = bk_rows (fst s)"
  "bk_own (fst (foldl (\<lambda>(b, br) i. count_new (revoke_id i b) br) s is)) = bk_own (fst s)"
  "bk_revoked_keys (fst (foldl (\<lambda>(b, br) i. count_new (revoke_id i b) br) s is)) = bk_revoked_keys (fst s)"
  by (induction "is" arbitrary: s) (simp_all add: split_beta)

lemma count_fold_later: "later (fst s) (fst (foldl (\<lambda>(b, br) i. count_new (revoke_id i b) br) s is))"
proof (induction "is" arbitrary: s)
  case (Cons i "is")
  have "later (fst s) (snd (revoke_id i (fst s)))" by (rule revoke_id_later)
  then show ?case using Cons [of "count_new (revoke_id i (fst s)) (snd s)"]
    by (auto simp: split_beta intro: later_trans)
qed simp

lemma count_fold_has:
  "bt_has (bk_revoked (fst (foldl (\<lambda>(b, br) i. count_new (revoke_id i b) br) s is))) k \<longleftrightarrow>
     k \<in> idb ` set is \<or> bt_has (bk_revoked (fst s)) k"
  by (induction "is" arbitrary: s) (auto simp: split_beta)

text \<open>The row one listing and one row make: the newer end and standing, all ids in force, the cap.\<close>

definition merged :: "u64 \<Rightarrow> member \<Rightarrow> member \<Rightarrow> member" where
  "merged now row m =
     (let row = row\<lparr>m_invite_until := max (m_invite_until row) (m_invite_until m),
                    m_ids := snd (cap_ids (merge_ids now (m_ids row) (m_ids m)))\<rparr>
      in if m_until m > m_until row then row\<lparr>m_until := m_until m, m_standing := m_standing m\<rparr> else row)"

lemma merged_key [simp]: "m_node (merged now row m) = m_node row" "m_label (merged now row m) = m_label row"
  by (simp_all add: merged_def Let_def)

lemma take_row_cases:
  obtains (revoked) "bt_has (bk_revoked_keys b) (mkey m)" "take_row m now (b, br) = (b, br)"
  | (new) "\<not> bt_has (bk_revoked_keys b) (mkey m)" "\<forall>r \<in> set (bk_rows b). m_node r \<noteq> m_node m"
      "fst (take_row m now (b, br)) = b\<lparr>bk_rows := bk_rows b @ [m\<lparr>m_ids := live now (m_ids m)\<rparr>]\<rparr>"
  | (listed) i b' where "\<not> bt_has (bk_revoked_keys b) (mkey m)" "i < length (bk_rows b)"
      "m_node (bk_rows b ! i) = m_node m"
      "b' = b\<lparr>bk_rows := (bk_rows b)[i := merged now (bk_rows b ! i) m]\<rparr>"
      "bk_rows (fst (take_row m now (b, br))) = bk_rows b'"
      "bk_revoked_keys (fst (take_row m now (b, br))) = bk_revoked_keys b"
      "later b' (fst (take_row m now (b, br)))"
      "\<forall>i' \<in> set (fst (cap_ids (merge_ids now (m_ids (bk_rows b ! i)) (m_ids m)))).
         bt_has (bk_revoked (fst (take_row m now (b, br)))) (idb i')"
      "\<exists>br'. fst (take_row m now (b, br)) = fst (foldl (\<lambda>(b, br) i. count_new (revoke_id i b) br) (b', br')
         (fst (cap_ids (merge_ids now (m_ids (bk_rows b ! i)) (m_ids m)))))"
proof (cases "bt_has (bk_revoked_keys b) (mkey m)")
  case True
  then show ?thesis using revoked by (simp add: take_row_def)
next
  case False
  show ?thesis
  proof (cases "position (\<lambda>r. m_node r = m_node m) (bk_rows b)")
    case None
    then have "\<forall>r \<in> set (bk_rows b). m_node r \<noteq> m_node m" by (simp add: position_None)
    then show ?thesis using False None by (intro new) (simp_all add: take_row_def)
  next
    case (Some i)
    note p = position_Some [OF Some]
    obtain capped ids where c: "cap_ids (merge_ids now (m_ids (bk_rows b ! i)) (m_ids m)) = (capped, ids)"
      by (cases "cap_ids (merge_ids now (m_ids (bk_rows b ! i)) (m_ids m))")
    define b' where "b' = b\<lparr>bk_rows := (bk_rows b)[i := merged now (bk_rows b ! i) m]\<rparr>"
    have t: "\<exists>br'. take_row m now (b, br) =
        (if capped = [] then (b', br) else foldl (\<lambda>(b, br) i. count_new (revoke_id i b) br) (b', br') capped)"
      using False Some c
      by (cases capped) (auto simp: take_row_def Let_def merged_def b'_def intro!: exI)
    then obtain br' where t: "take_row m now (b, br) =
        (if capped = [] then (b', br) else foldl (\<lambda>(b, br) i. count_new (revoke_id i b) br) (b', br') capped)"
      by blast
    show ?thesis
    proof (rule listed [OF False _ _ b'_def])
      show "later b' (fst (take_row m now (b, br)))"
        using count_fold_later [of "(b', br')" capped] by (simp add: t)
      show "bk_rows (fst (take_row m now (b, br))) = bk_rows b'"
        by (simp add: t count_fold_frame)
      show "bk_revoked_keys (fst (take_row m now (b, br))) = bk_revoked_keys b"
        by (simp add: t count_fold_frame b'_def)
    qed (use p c in \<open>auto simp: t count_fold_has intro: exI [of _ br]\<close>)
  qed
qed

lemma take_row_later: "later b (fst (take_row m now (b, br)))"
proof (cases rule: take_row_cases [of b m now br])
  case (listed i b')
  have "later b b'" by (simp add: listed(4) later_same)
  then show ?thesis using listed(7) by (rule later_trans)
qed (simp_all add: later_same)

lemma take_row_rows:
  assumes ok: "rows_ok (bk_rows b)" and v: "valid_label (m_label m)"
    and f: "\<forall>r \<in> set (bk_rows b). m_label r = m_label m \<longrightarrow> m_node r = m_node m"
  shows "rows_ok (bk_rows (fst (take_row m now (b, br))))"
proof (cases rule: take_row_cases [of b m now br])
  case new
  then show ?thesis using ok v f by (auto intro!: rows_ok_snoc)
next
  case (listed i b')
  then show ?thesis using ok by (auto intro: rows_ok_update)
qed (simp add: ok)

lemma take_row_keys: "bk_revoked_keys (fst (take_row m now (b, br))) = bk_revoked_keys b"
  by (cases rule: take_row_cases [of b m now br]) simp_all

lemma take_row_holds: "holds b k \<Longrightarrow> holds (fst (take_row m now (b, br))) k"
proof (cases rule: take_row_cases [of b m now br])
  case (listed i b')
  assume h: "holds b k"
  then obtain j where j: "j < length (bk_rows b)" "m_node (bk_rows b ! j) = k"
    by (auto simp: holds_def in_set_conv_nth)
  then have "j < length (bk_rows b')" "m_node (bk_rows b' ! j) = k"
    using listed(2,4) by (auto simp: nth_list_update)
  then have "\<exists>r \<in> set (bk_rows b'). m_node r = k" by (metis nth_mem)
  then show ?thesis using h listed by (simp add: holds_def)
qed (auto simp: holds_def)

section \<open>Bringing records forward\<close>

lemma key_fold_frame:
  "bk_rows (fst (foldl (\<lambda>(b, br) r. count_new (revoke_key r b) br) s ds)) = bk_rows (fst s)"
  "bk_own (fst (foldl (\<lambda>(b, br) r. count_new (revoke_key r b) br) s ds)) = bk_own (fst s)"
  "bk_revoked (fst (foldl (\<lambda>(b, br) r. count_new (revoke_key r b) br) s ds)) = bk_revoked (fst s)"
  by (induction ds arbitrary: s) (simp_all add: split_beta)

lemma key_fold_later: "later (fst s) (fst (foldl (\<lambda>(b, br) r. count_new (revoke_key r b) br) s ds))"
proof (induction ds arbitrary: s)
  case (Cons d ds)
  have "later (fst s) (snd (revoke_key d (fst s)))" by (rule revoke_key_later)
  then show ?case using Cons [of "count_new (revoke_key d (fst s)) (snd s)"]
    by (auto simp: split_beta intro: later_trans)
qed simp

lemma key_fold_has:
  "bt_has (bk_revoked_keys (fst (foldl (\<lambda>(b, br) r. count_new (revoke_key r b) br) s ds))) k \<longleftrightarrow>
     k \<in> rdb ` set ds \<or> bt_has (bk_revoked_keys (fst s)) k"
  by (induction ds arbitrary: s) (auto simp: split_beta)

lemma live_fold:
  "foldl (\<lambda>(b, br) i. if expires i > now then count_new (revoke_id i b) br else (b, br)) s is =
     foldl (\<lambda>(b, br) i. count_new (revoke_id i b) br) s (live now is)"
  by (induction "is" arbitrary: s) (auto simp: live_def split_beta)

lemma bring_revocations_frame [simp]:
  "bk_rows (fst (bring_revocations d now s)) = bk_rows (fst s)"
  "bk_own (fst (bring_revocations d now s)) = bk_own (fst s)"
  by (simp_all add: bring_revocations_def Let_def key_fold_frame live_fold count_fold_frame)

lemma bring_revocations_has:
  "bt_has (bk_revoked_keys (fst (bring_revocations d now s))) k \<longleftrightarrow>
     k \<in> rdb ` set (revoked_devices d) \<or> bt_has (bk_revoked_keys (fst s)) k"
  "bt_has (bk_revoked (fst (bring_revocations d now s))) j \<longleftrightarrow>
     j \<in> idb ` set (live now (revoked d)) \<or> bt_has (bk_revoked (fst s)) j"
  by (simp_all add: bring_revocations_def Let_def key_fold_has key_fold_frame live_fold count_fold_has
      count_fold_frame)

lemma bring_revocations_later: "later (fst s) (fst (bring_revocations d now s))"
  unfolding bring_revocations_def Let_def live_fold
  by (rule later_trans [OF count_fold_later key_fold_later])

lemma take_member_Inr:
  "take_member m now s = Inr t \<longleftrightarrow> (\<exists>u. settle_name m now s = Inr u \<and> t = take_row m now u)"
  by (auto simp: take_member_def bindR_Inr_iff)

lemma take_member_laws:
  assumes t: "take_member m now s = Inr t"
  shows "later (fst s) (fst t)"
    and "rows_ok (bk_rows (fst s)) \<Longrightarrow> valid_label (m_label m) \<Longrightarrow> rows_ok (bk_rows (fst t))"
    and "holds (fst s) k \<Longrightarrow> bk_own (fst s) = Some k \<Longrightarrow> holds (fst t) k"
proof -
  obtain b br b' br' where s: "s = (b, br)" and u: "settle_name m now (b, br) = Inr (b', br')"
    and t': "t = take_row m now (b', br')"
    using t by (cases s) (auto simp: take_member_Inr)
  show "later (fst s) (fst t)"
    unfolding s t' fst_conv by (rule later_trans [OF settle_name_later [OF u] take_row_later])
  show "rows_ok (bk_rows (fst s)) \<Longrightarrow> valid_label (m_label m) \<Longrightarrow> rows_ok (bk_rows (fst t))"
    unfolding s t' fst_conv using settle_name_rows [OF u] by (intro take_row_rows) auto
  show "holds (fst s) k \<Longrightarrow> bk_own (fst s) = Some k \<Longrightarrow> holds (fst t) k"
    unfolding s t' fst_conv by (intro take_row_holds settle_name_holds [OF u])
qed

lemma take_members_laws:
  assumes "take_members ms now s = Inr t"
  shows "later (fst s) (fst t)"
    and "rows_ok (bk_rows (fst s)) \<Longrightarrow> \<forall>m \<in> set ms. valid_label (m_label m) \<Longrightarrow> rows_ok (bk_rows (fst t))"
    and "holds (fst s) k \<Longrightarrow> bk_own (fst s) = Some k \<Longrightarrow> holds (fst t) k"
proof -
  have "later (fst s) (fst t) \<and>
    (rows_ok (bk_rows (fst s)) \<and> (\<forall>m \<in> set ms. valid_label (m_label m)) \<longrightarrow> rows_ok (bk_rows (fst t))) \<and>
    (holds (fst s) k \<and> bk_own (fst s) = Some k \<longrightarrow> holds (fst t) k)"
    using assms
  proof (induction ms arbitrary: s)
    case (Cons m ms)
    then obtain u where u: "take_member m now s = Inr u" "take_members ms now u = Inr t"
      by (auto simp: bindR_Inr_iff)
    have o: "bk_own (fst u) = bk_own (fst s)" using take_member_laws(1) [OF u(1)] by (simp add: later_def)
    show ?case
      using Cons.IH [OF u(2)] take_member_laws [OF u(1)] o by (auto intro: later_trans)
  qed simp
  then show "later (fst s) (fst t)"
    and "rows_ok (bk_rows (fst s)) \<Longrightarrow> \<forall>m \<in> set ms. valid_label (m_label m) \<Longrightarrow> rows_ok (bk_rows (fst t))"
    and "holds (fst s) k \<Longrightarrow> bk_own (fst s) = Some k \<Longrightarrow> holds (fst t) k" by auto
qed

text \<open>What an update names as revoked, as the records hold it after.\<close>

definition names_revoked :: "u64 \<Rightarrow> roster_doc \<Rightarrow> book \<Rightarrow> bool" where
  "names_revoked now d b \<longleftrightarrow>
     (\<forall>i \<in> set (live now (revoked d)). bt_has (bk_revoked b) (idb i)) \<and>
     (\<forall>r \<in> set (revoked_devices d). bt_has (bk_revoked_keys b) (rdb r))"

lemma names_revoked_later: "names_revoked now d b \<Longrightarrow> maps_ok b \<Longrightarrow> later b b' \<Longrightarrow> names_revoked now d b'"
  by (auto simp: names_revoked_def intro: later_has)

lemma bring_one_laws:
  assumes o: "bring_one older d now s = Inr t"
  shows "later (fst s) (fst t)"
    and "maps_ok (fst s) \<Longrightarrow> names_revoked now d (fst t)"
    and "rows_ok (bk_rows (fst s)) \<Longrightarrow> \<forall>m \<in> set (members d). valid_label (m_label m) \<Longrightarrow> rows_ok (bk_rows (fst t))"
    and "holds (fst s) k \<Longrightarrow> bk_own (fst s) = Some k \<Longrightarrow> key_bytes k \<notin> rdb ` set (revoked_devices d) \<Longrightarrow>
      holds (fst t) k"
proof -
  obtain b br where s: "s = (b, br)" by (cases s)
  have n: "names_revoked now d (fst (bring_revocations d now s'))" for s'
    by (auto simp: names_revoked_def bring_revocations_has)
  define u where "u = bring_revocations d now
    (if older then s else (b\<lparr>bk_last := max (bk_last b) (epoch d)\<rparr>, br))"
  have c: "if older then t = u else take_members (members d) now u = Inr t"
    using o by (auto simp: bring_one_def book_bring_forward_def s u_def)
  have su: "later (fst s) (fst u)"
  proof -
    have "later (fst s) (fst (if older then s else (b\<lparr>bk_last := max (bk_last b) (epoch d)\<rparr>, br)))"
      by (simp add: s later_same)
    then show ?thesis unfolding u_def by (rule later_trans) (rule bring_revocations_later)
  qed
  have r: "bk_rows (fst u) = bk_rows (fst s)" "bk_own (fst u) = bk_own (fst s)"
    by (simp_all add: u_def s)
  have h: "holds (fst s) k \<Longrightarrow> key_bytes k \<notin> rdb ` set (revoked_devices d) \<Longrightarrow> holds (fst u) k"
    by (auto simp: holds_def u_def bring_revocations_has s)
  have ut: "later (fst u) (fst t)" using c take_members_laws(1) by (auto split: if_splits)
  show "later (fst s) (fst t)" by (rule later_trans [OF su ut])
  show "maps_ok (fst s) \<Longrightarrow> names_revoked now d (fst t)"
    using names_revoked_later [OF _ later_ok [OF su] ut] n by (simp add: u_def)
  show "rows_ok (bk_rows (fst s)) \<Longrightarrow> \<forall>m \<in> set (members d). valid_label (m_label m) \<Longrightarrow> rows_ok (bk_rows (fst t))"
    using c take_members_laws(2) [of "members d" now u t] r by (auto split: if_splits)
  show "holds (fst s) k \<Longrightarrow> bk_own (fst s) = Some k \<Longrightarrow> key_bytes k \<notin> rdb ` set (revoked_devices d) \<Longrightarrow>
      holds (fst t) k"
    using c take_members_laws(3) [of "members d" now u t k] r h by (auto split: if_splits)
qed

section \<open>This machine's own revocations\<close>

lemma carry_ids_laws:
  fixes es :: "(bytes \<times> u64) list" and rv :: "revocation set"
  defines "f \<equiv> \<lambda>b (bs, ends). if RevId (RevocationId bs) \<in> rv
    then snd (revoke_id \<lparr>expires = ends, rid = RevocationId bs\<rparr> b) else b"
  shows "later b (foldl f b es)" "bk_rows (foldl f b es) = bk_rows b"
    "bk_revoked_keys (foldl f b es) = bk_revoked_keys b"
proof -
  show "later b (foldl f b es)"
    by (rule foldl_rel [OF later_order]) (simp add: f_def split_beta revoke_id_later)
  show "bk_rows (foldl f b es) = bk_rows b" "bk_revoked_keys (foldl f b es) = bk_revoked_keys b"
    by (induction es arbitrary: b) (simp_all add: f_def split_beta)
qed

lemma carry_keys_laws:
  "later b (foldl (\<lambda>b d. snd (revoke_key d b)) b ds)"
  "bk_rows (foldl (\<lambda>b d. snd (revoke_key d b)) b ds) = bk_rows b"
  "bt_has (bk_revoked_keys (foldl (\<lambda>b d. snd (revoke_key d b)) b ds)) k \<longleftrightarrow>
     k \<in> rdb ` set ds \<or> bt_has (bk_revoked_keys b) k"
proof -
  show "later b (foldl (\<lambda>b d. snd (revoke_key d b)) b ds)"
    by (rule foldl_rel [OF later_order revoke_key_later])
  show "bk_rows (foldl (\<lambda>b d. snd (revoke_key d b)) b ds) = bk_rows b"
    "bt_has (bk_revoked_keys (foldl (\<lambda>b d. snd (revoke_key d b)) b ds)) k \<longleftrightarrow>
     k \<in> rdb ` set ds \<or> bt_has (bk_revoked_keys b) k"
    by (induction ds arbitrary: b) auto
qed

lemma carry_revoked_laws:
  "later b (carry_revoked rv held b)" "bk_rows (carry_revoked rv held b) = bk_rows b"
  "bt_has (bk_revoked_keys (carry_revoked rv held b)) k \<longleftrightarrow>
     (\<exists>r \<in> set (bk_rows b). RevKey (m_node r) \<in> rv \<and> k = mkey r) \<or> bt_has (bk_revoked_keys b) k"
proof -
  show "later b (carry_revoked rv held b)"
    unfolding carry_revoked_def Let_def by (rule later_trans [OF carry_ids_laws(1) carry_keys_laws(1)])
  show "bk_rows (carry_revoked rv held b) = bk_rows b"
    by (simp add: carry_revoked_def Let_def carry_keys_laws carry_ids_laws)
  show "bt_has (bk_revoked_keys (carry_revoked rv held b)) k \<longleftrightarrow>
     (\<exists>r \<in> set (bk_rows b). RevKey (m_node r) \<in> rv \<and> k = mkey r) \<or> bt_has (bk_revoked_keys b) k"
    by (auto simp: carry_revoked_def Let_def carry_keys_laws carry_ids_laws image_image)
qed

lemma carry_revoked_holds:
  "holds b k \<Longrightarrow> RevKey k \<notin> rv \<Longrightarrow> holds (carry_revoked rv held b) k"
  by (auto simp: holds_def carry_revoked_laws) (metis verify_key.expand)

section \<open>Marking\<close>

lemma mark_listed_frame:
  fixes b :: book
  shows "\<exists>ms. snd (mark_listed d b) = b\<lparr>bk_marked := ms\<rparr> \<and> set (bk_marked b) \<subseteq> set ms \<and>
    (\<forall>m \<in> set (members d). bt_has (bk_revoked_keys b) (mkey m) \<longrightarrow> (\<exists>r \<in> set ms. m_node r = m_node m))"
proof -
  have "\<exists>ms. snd (foldl (\<lambda>(n, b) m. if bt_has (bk_revoked_keys b) (mkey m) \<and>
      \<not> (\<exists>r \<in> set (bk_marked b). m_node r = m_node m)
      then (n + 1, b\<lparr>bk_marked := bk_marked b @ [m]\<rparr>) else (n, b)) (n, b) xs) = b\<lparr>bk_marked := ms\<rparr> \<and>
      set (bk_marked b) \<subseteq> set ms \<and>
      (\<forall>m \<in> set xs. bt_has (bk_revoked_keys b) (mkey m) \<longrightarrow> (\<exists>r \<in> set ms. m_node r = m_node m))"
    for n :: nat and b :: book and xs
  proof (induction xs arbitrary: n b)
    case Nil
    have "b = b\<lparr>bk_marked := bk_marked b\<rparr>" by simp
    then show ?case by (intro exI [of _ "bk_marked b"]) simp
  next
    case (Cons x xs)
    show ?case
    proof (cases "bt_has (bk_revoked_keys b) (mkey x) \<and> \<not> (\<exists>r \<in> set (bk_marked b). m_node r = m_node x)")
      case True
      then show ?thesis using Cons [of "n + 1" "b\<lparr>bk_marked := bk_marked b @ [x]\<rparr>"] by auto
    next
      case False
      obtain ms where "snd (foldl (\<lambda>(n, b) m. if bt_has (bk_revoked_keys b) (mkey m) \<and>
          \<not> (\<exists>r \<in> set (bk_marked b). m_node r = m_node m)
          then (n + 1, b\<lparr>bk_marked := bk_marked b @ [m]\<rparr>) else (n, b)) (n, b) xs) = b\<lparr>bk_marked := ms\<rparr>"
        and ms: "set (bk_marked b) \<subseteq> set ms"
          "\<forall>m \<in> set xs. bt_has (bk_revoked_keys b) (mkey m) \<longrightarrow> (\<exists>r \<in> set ms. m_node r = m_node m)"
        using Cons [of n b] by blast
      then show ?thesis using False by (intro exI [of _ ms]) auto
    qed
  qed
  from this [of 0 b "members d"] show ?thesis by (simp add: mark_listed_def)
qed

lemma mark_listed_laws [simp]:
  "bk_rows (snd (mark_listed d b)) = bk_rows b" "bk_revoked_keys (snd (mark_listed d b)) = bk_revoked_keys b"
  "bk_revoked (snd (mark_listed d b)) = bk_revoked b" "bk_own (snd (mark_listed d b)) = bk_own b"
  "bk_last (snd (mark_listed d b)) = bk_last b"
  using mark_listed_frame [of d b] by auto

section \<open>Forward\<close>

lemma mark_lists_laws [simp]:
  "bk_rows (snd (mark_lists ds s)) = bk_rows (snd s)"
  "bk_revoked_keys (snd (mark_lists ds s)) = bk_revoked_keys (snd s)"
  "bk_revoked (snd (mark_lists ds s)) = bk_revoked (snd s)"
  "bk_own (snd (mark_lists ds s)) = bk_own (snd s)"
  "bk_last (snd (mark_lists ds s)) = bk_last (snd s)"
  by (induction ds arbitrary: s) (simp_all add: mark_lists_def split_beta)

lemma mark_lists_later: "later b (snd s) \<Longrightarrow> later b (snd (mark_lists ds s))"
  by (erule later_trans) (simp add: later_same)

lemma mark_lists_marked:
  "d \<in> set ds \<Longrightarrow> m \<in> set (members d) \<Longrightarrow> bt_has (bk_revoked_keys (snd s)) (mkey m) \<Longrightarrow>
   \<exists>r \<in> set (bk_marked (snd (mark_lists ds s))). m_node r = m_node m"
proof (induction ds arbitrary: s)
  case (Cons x ds)
  define t where "t = (case s of (n, b) \<Rightarrow> case mark_listed x b of (k, b) \<Rightarrow> (n + k, b))"
  have e: "mark_lists (x # ds) s = mark_lists ds t" by (cases s) (simp add: mark_lists_def t_def)
  have st: "snd t = snd (mark_listed x (snd s))" by (simp add: t_def split_beta)
  have mono: "set (bk_marked (snd u)) \<subseteq> set (bk_marked (snd (mark_lists es u)))" for es and u :: "nat \<times> book"
  proof (induction es arbitrary: u)
    case (Cons e es)
    have "set (bk_marked (snd u)) \<subseteq> set (bk_marked (snd (mark_listed e (snd u))))"
      using mark_listed_frame [of e "snd u"] by auto
    then show ?case using Cons [of "case u of (n, b) \<Rightarrow> case mark_listed e b of (k, b) \<Rightarrow> (n + k, b)"]
      by (simp add: mark_lists_def split_beta)
  qed (simp add: mark_lists_def)
  show ?case
  proof (cases "d = x")
    case True
    then have "\<exists>r \<in> set (bk_marked (snd t)). m_node r = m_node m"
      using mark_listed_frame [of x "snd s"] Cons.prems st by auto
    then show ?thesis using mono [of t ds] by (auto simp: e)
  next
    case False
    then show ?thesis using Cons.IH [of t] Cons.prems by (simp add: e st)
  qed
qed simp

lemma bring_lists_laws:
  assumes o: "bring_lists held fork now b = Inr s"
    and v: "\<forall>d. held = Some d \<or> fork = Some d \<longrightarrow> (\<forall>m \<in> set (members d). valid_label (m_label m))"
  shows "later b (fst s)"
    and "rows_ok (bk_rows b) \<Longrightarrow> rows_ok (bk_rows (fst s))"
    and "maps_ok b \<Longrightarrow> (held = Some d \<and> epoch d > bk_last b) \<or> (held = Some d \<and> fork \<noteq> None) \<or> fork = Some d \<Longrightarrow>
      names_revoked now d (fst s)"
    and "holds b k \<Longrightarrow> bk_own b = Some k \<Longrightarrow>
      \<forall>d. held = Some d \<or> fork = Some d \<longrightarrow> key_bytes k \<notin> rdb ` set (revoked_devices d) \<Longrightarrow> holds (fst s) k"
proof -
  define P where "P = ((\<exists>h. held = Some h \<and> epoch h > bk_last b) \<or> fork \<noteq> None)"
  obtain u where u: "if P then (case held of None \<Rightarrow> u = (b, nothing_brought)
        | Some h \<Rightarrow> \<exists>old. bring_one old h now (b, nothing_brought) = Inr u) else u = (b, nothing_brought)"
    and us: "if P then (case fork of None \<Rightarrow> s = u | Some f \<Rightarrow> \<exists>old. bring_one old f now u = Inr s) else s = u"
    using o by (cases held; cases fork) (auto simp: bring_lists_def Let_def bindR_Inr_iff P_def split: if_splits)
  have bu: "later b (fst u)" using u bring_one_laws(1) [of _ _ now "(b, nothing_brought)" u]
    by (auto split: if_splits option.splits)
  have ul: "later (fst u) (fst s)" using us bring_one_laws(1) [of _ _ now u s] by (auto split: if_splits option.splits)
  show "later b (fst s)" by (rule later_trans [OF bu ul])
  show "rows_ok (bk_rows b) \<Longrightarrow> rows_ok (bk_rows (fst s))"
  proof -
    assume r: "rows_ok (bk_rows b)"
    have "rows_ok (bk_rows (fst u))"
      using u r v bring_one_laws(3) [of _ _ now "(b, nothing_brought)" u]
      by (auto split: if_splits option.splits)
    then show ?thesis using us v bring_one_laws(3) [of _ _ now u s] by (auto split: if_splits option.splits)
  qed
  show "names_revoked now d (fst s)" if m: "maps_ok b"
    and "(held = Some d \<and> epoch d > bk_last b) \<or> (held = Some d \<and> fork \<noteq> None) \<or> fork = Some d"
    using that(2)
  proof (elim disjE)
    assume "fork = Some d"
    then show ?thesis using us bring_one_laws(2) [of _ d now u s] later_ok [OF bu m]
      by (auto simp: P_def split: option.splits)
  next
    assume h: "held = Some d \<and> epoch d > bk_last b"
    then have "names_revoked now d (fst u)" using u bring_one_laws(2) [of _ d now "(b, nothing_brought)" u] m
      by (auto simp: P_def)
    then show ?thesis by (rule names_revoked_later [OF _ later_ok [OF bu m] ul])
  next
    assume h: "held = Some d \<and> fork \<noteq> None"
    then have "names_revoked now d (fst u)" using u bring_one_laws(2) [of _ d now "(b, nothing_brought)" u] m
      by (auto simp: P_def)
    then show ?thesis by (rule names_revoked_later [OF _ later_ok [OF bu m] ul])
  qed
  show "holds (fst s) k" if h: "holds b k" "bk_own b = Some k"
    and n: "\<forall>d. held = Some d \<or> fork = Some d \<longrightarrow> key_bytes k \<notin> rdb ` set (revoked_devices d)"
  proof -
    have "holds (fst u) k" using u h n bring_one_laws(4) [of _ _ now "(b, nothing_brought)" u k]
      by (auto split: if_splits option.splits)
    moreover have "bk_own (fst u) = Some k" using bu h by (simp add: later_def)
    ultimately show ?thesis using us n bring_one_laws(4) [of _ _ now u s k]
      by (auto split: if_splits option.splits)
  qed
qed

lemma forward_cases:
  assumes "forward D H held fork now b = Inr ((b', br'), behind)"
  obtains s rv where "bring_lists held fork now b = Inr s" "revoked_open D H = Inr rv"
    "b' = snd (mark_lists (option_list held @ option_list fork)
       (follow_keys now (carry_revoked rv held (fst s))))"
    "behind \<longleftrightarrow> (\<exists>h. held = Some h \<and> epoch h > bk_last b)"
  using assms
  by (cases held) (auto simp: forward_def carry_forward_def Let_def result_iffs split_beta intro: that)

text \<open>The laws of a bring-forward as a whole.\<close>

lemma forward_laws:
  assumes f: "forward D H held fork now b = Inr ((b', br'), behind)"
    and v: "\<forall>d. held = Some d \<or> fork = Some d \<longrightarrow> (\<forall>m \<in> set (members d). valid_label (m_label m))"
  shows "later b b'"
    and "rows_ok (bk_rows b) \<Longrightarrow> rows_ok (bk_rows b')"
    and "r \<in> set (bk_rows b') \<Longrightarrow> \<not> bt_has (bk_revoked_keys b') (mkey r)"
    and "maps_ok b \<Longrightarrow> (held = Some d \<and> epoch d > bk_last b) \<or> (held = Some d \<and> fork \<noteq> None) \<or> fork = Some d \<Longrightarrow>
      names_revoked now d b'"
    and "held = Some d \<or> fork = Some d \<Longrightarrow> m \<in> set (members d) \<Longrightarrow> bt_has (bk_revoked_keys b') (mkey m) \<Longrightarrow>
      \<exists>r \<in> set (bk_marked b'). m_node r = m_node m"
proof -
  obtain s rv where s: "bring_lists held fork now b = Inr s"
    and b': "b' = snd (mark_lists (option_list held @ option_list fork)
      (follow_keys now (carry_revoked rv held (fst s))))"
    using f by (elim forward_cases) blast
  have sc: "later (fst s) b'"
    unfolding b' by (intro mark_lists_later later_trans [OF carry_revoked_laws(1) follow_keys_later])
  have bs: "later b (fst s)" by (rule bring_lists_laws(1) [OF s v])
  show "later b b'" by (rule later_trans [OF bs sc])
  show "rows_ok (bk_rows b) \<Longrightarrow> rows_ok (bk_rows b')"
    using bring_lists_laws(2) [OF s v] by (simp add: b' carry_revoked_laws rows_ok_filter)
  show "r \<in> set (bk_rows b') \<Longrightarrow> \<not> bt_has (bk_revoked_keys b') (mkey r)" by (simp add: b')
  show "maps_ok b \<Longrightarrow> (held = Some d \<and> epoch d > bk_last b) \<or> (held = Some d \<and> fork \<noteq> None) \<or> fork = Some d \<Longrightarrow>
      names_revoked now d b'"
    using bring_lists_laws(3) [OF s v] names_revoked_later [OF _ later_ok [OF bs] sc] by blast
  show "held = Some d \<or> fork = Some d \<Longrightarrow> m \<in> set (members d) \<Longrightarrow> bt_has (bk_revoked_keys b') (mkey m) \<Longrightarrow>
      \<exists>r \<in> set (bk_marked b'). m_node r = m_node m"
    unfolding b' by (rule mark_lists_marked [of d]) auto
qed

lemma forward_own:
  assumes f: "forward D H held fork now b = Inr ((b', br'), behind)"
    and v: "\<forall>d. held = Some d \<or> fork = Some d \<longrightarrow> (\<forall>m \<in> set (members d). valid_label (m_label m))"
    and h: "holds b k" "bk_own b = Some k"
    and n: "\<forall>d. held = Some d \<or> fork = Some d \<longrightarrow> key_bytes k \<notin> rdb ` set (revoked_devices d)"
    and r: "\<forall>rv. revoked_open D H = Inr rv \<longrightarrow> RevKey k \<notin> rv"
  shows "holds b' k"
proof -
  obtain s rv where s: "bring_lists held fork now b = Inr s" and rv: "revoked_open D H = Inr rv"
    and b': "b' = snd (mark_lists (option_list held @ option_list fork)
      (follow_keys now (carry_revoked rv held (fst s))))"
    using f by (elim forward_cases) blast
  have "holds (carry_revoked rv held (fst s)) k"
    using bring_lists_laws(4) [OF s v h n] r rv by (blast intro: carry_revoked_holds)
  then show ?thesis by (auto simp: b' holds_def)
qed

end
