(* ===== verification/Book_Update.thy ===== *)
theory Book_Update
  imports Book_Laws
begin

text \<open>
  From the records of \<^verbatim>\<open>src/root.rs\<close> to an update: what a row and a revocation must look like to fit
  one, that everything that changes the records keeps it, and that records within the bounds make
  an update that carries all of them. Then when a device renews, and the name a device gets.
\<close>

section \<open>What fits an update\<close>

definition row_fits :: "member \<Rightarrow> bool" where
  "row_fits r \<longleftrightarrow> distinct (map rid (m_ids r)) \<and> length (m_ids r) \<le> MAX_IDS \<and>
     (\<forall>i \<in> set (m_ids r). id_ok i) \<and> length (link_str (m_standing r)) \<le> MAX_BADGE"

definition fits :: "book \<Rightarrow> bool" where
  "fits b \<longleftrightarrow> (\<forall>r \<in> set (bk_rows b). row_fits r) \<and> (\<forall>(k, i) \<in> set (bk_revoked b). id_ok i)"

lemma fits_rows: "fits b \<Longrightarrow> \<forall>r \<in> set rows. row_fits r \<Longrightarrow> fits (b\<lparr>bk_rows := rows\<rparr>)"
  by (simp add: fits_def)

lemma revoke_id_fits: "fits b \<Longrightarrow> id_ok i \<Longrightarrow> fits (snd (revoke_id i b))"
proof -
  assume f: "fits b" and i: "id_ok i"
  obtain j where j: "bk_revoked (snd (revoke_id i b)) = bt_insert (idb i) j (bk_revoked b)" "id_ok j"
  proof (cases "bt_get (bk_revoked b) (idb i)")
    case None
    then show ?thesis using that [of i] i by (simp add: revoke_id_def)
  next
    case (Some held)
    then have "id_ok held" using f by (auto simp: fits_def bt_get_def dest!: map_of_SomeD)
    then show ?thesis using that Some by (simp add: revoke_id_def id_ok_def)
  qed
  then show ?thesis using f bt_insert_sub [of "idb i" j "bk_revoked b"] by (fastforce simp: fits_def)
qed

lemma revoke_ids_fits: "fits b \<Longrightarrow> \<forall>i \<in> set is. id_ok i \<Longrightarrow> fits (foldl (\<lambda>b i. snd (revoke_id i b)) b is)"
  by (rule foldl_inv [where P = fits]) (auto intro: revoke_id_fits)

lemma revoke_key_fits [simp]: "fits (snd (revoke_key d b)) \<longleftrightarrow> fits b"
  by (simp add: fits_def)

lemma live_set: "set (live now ids) \<subseteq> set ids"
  by (auto simp: live_def)

lemma row_fits_live:
  assumes r: "row_fits r"
  shows "row_fits (r\<lparr>m_ids := live now (m_ids r)\<rparr>)"
proof -
  have "distinct (map rid (live now (m_ids r)))"
    unfolding live_def by (rule distinct_map_filter) (use r in \<open>simp add: row_fits_def\<close>)
  moreover have "length (live now (m_ids r)) \<le> MAX_IDS"
    using r unfolding live_def row_fits_def by (meson le_trans length_filter_le)
  moreover have "\<forall>i \<in> set (live now (m_ids r)). id_ok i"
    using r live_set [of now "m_ids r"] by (auto simp: row_fits_def)
  ultimately show ?thesis using r by (simp add: row_fits_def)
qed

lemma follow_keys_fits: "fits b \<Longrightarrow> fits (snd (follow_keys now b))"
proof -
  assume f: "fits b"
  have "fits (foldl (follow_row now) (b\<lparr>bk_rows := kept\<rparr>) gone)"
    if "set kept \<subseteq> set (bk_rows b)" "set gone \<subseteq> set (bk_rows b)" for kept gone
  proof (rule foldl_inv [where P = fits])
    show "fits (b\<lparr>bk_rows := kept\<rparr>)" using f that by (auto simp: fits_def)
    fix s x assume x: "x \<in> set gone" and s: "fits s"
    have "\<forall>i \<in> set (live now (m_ids x)). id_ok i"
      using f x that live_set by (fastforce simp: fits_def row_fits_def)
    then have "fits (foldl (\<lambda>b i. snd (revoke_id i b)) s (live now (m_ids x)))"
      by (rule revoke_ids_fits [OF s])
    then show "fits (follow_row now s x)" by (simp add: follow_row_def Let_def fits_def)
  qed
  then show ?thesis by (auto simp: follow_keys_def Let_def)
qed

section \<open>Merging keeps a row within its bound\<close>

lemma merge_fold:
  fixes now :: u64
  assumes "distinct (map rid held)" "\<forall>i \<in> set held \<union> set new. id_ok i"
  defines "m \<equiv> foldl (\<lambda>ids i. if expires i > now \<and> \<not> (\<exists>h \<in> set ids. rid h = rid i) then ids @ [i] else ids) held new"
  shows "distinct (map rid m) \<and> (\<forall>i \<in> set m. id_ok i)"
  unfolding m_def using assms(1,2)
proof (induction new arbitrary: held)
  case (Cons i new)
  have "distinct (map rid (held @ [i]))" if "\<not> (\<exists>h \<in> set held. rid h = rid i)"
    using Cons.prems that by force
  then show ?case using Cons.prems Cons.IH [of held] Cons.IH [of "held @ [i]"] by simp
qed simp

lemma cap_ids_fits:
  assumes "distinct (map rid ids)" "\<forall>i \<in> set ids. id_ok i"
  shows "distinct (map rid (snd (cap_ids ids)))" "length (snd (cap_ids ids)) \<le> MAX_IDS"
    "\<forall>i \<in> set (fst (cap_ids ids)) \<union> set (snd (cap_ids ids)). id_ok i"
    "set ids = set (fst (cap_ids ids)) \<union> set (snd (cap_ids ids))"
proof -
  let ?n = "length ids - MAX_IDS"
  have "distinct (map rid (sort_key expires ids))" using assms(1) by (simp add: distinct_map)
  then have "distinct (drop ?n (map rid (sort_key expires ids)))" by (rule distinct_drop)
  then show "distinct (map rid (snd (cap_ids ids)))"
    using assms(1) by (simp add: cap_ids_def Let_def drop_map)
  show "length (snd (cap_ids ids)) \<le> MAX_IDS" by (simp add: cap_ids_def Let_def)
  have "set (take ?n (sort_key expires ids)) \<union> set (drop ?n (sort_key expires ids)) = set ids"
    by (metis append_take_drop_id set_append set_sort)
  then show u: "set ids = set (fst (cap_ids ids)) \<union> set (snd (cap_ids ids))"
    by (simp add: cap_ids_def Let_def)
  show "\<forall>i \<in> set (fst (cap_ids ids)) \<union> set (snd (cap_ids ids)). id_ok i"
    using assms(2) u by simp
qed

lemma merge_ids_fits:
  assumes "row_fits row" "row_fits m"
  shows "distinct (map rid (merge_ids now (m_ids row) (m_ids m)))"
    "\<forall>i \<in> set (merge_ids now (m_ids row) (m_ids m)). id_ok i"
proof -
  have a: "distinct (map rid (m_ids row))" "\<forall>i \<in> set (m_ids row) \<union> set (m_ids m). id_ok i"
    using assms by (auto simp: row_fits_def)
  note f = merge_fold [OF a, of now]
  show "distinct (map rid (merge_ids now (m_ids row) (m_ids m)))"
    unfolding merge_ids_def live_def by (rule distinct_map_filter) (rule conjunct1 [OF f])
  show "\<forall>i \<in> set (merge_ids now (m_ids row) (m_ids m)). id_ok i"
    using conjunct2 [OF f] live_set unfolding merge_ids_def by blast
qed

lemma merged_fits: "row_fits row \<Longrightarrow> row_fits m \<Longrightarrow> row_fits (merged now row m)"
proof -
  assume r: "row_fits row" and m: "row_fits m"
  note c = cap_ids_fits [OF merge_ids_fits [OF r m, of now]]
  have s: "length (link_str (m_standing row)) \<le> MAX_BADGE" "length (link_str (m_standing m)) \<le> MAX_BADGE"
    using r m by (simp_all add: row_fits_def)
  show ?thesis using c(1,2,3) s by (auto simp: merged_def Let_def row_fits_def)
qed

lemma count_fold_fits:
  "fits (fst s) \<Longrightarrow> \<forall>i \<in> set is. id_ok i \<Longrightarrow> fits (fst (foldl (\<lambda>(b, br) i. count_new (revoke_id i b) br) s is))"
  by (induction "is" arbitrary: s) (auto simp: split_beta revoke_id_fits)

lemma take_row_fits:
  assumes f: "fits b" and m: "row_fits m"
  shows "fits (fst (take_row m now (b, br)))"
proof (cases rule: take_row_cases [of b m now br])
  case new
  then show ?thesis using f row_fits_live [OF m] by (auto simp: fits_def)
next
  case (listed i b')
  define row where "row = bk_rows b ! i"
  obtain capped ids where c: "cap_ids (merge_ids now (m_ids row) (m_ids m)) = (capped, ids)"
    by (cases "cap_ids (merge_ids now (m_ids row) (m_ids m))")
  have r: "row_fits row" using f listed(2) by (simp add: fits_def row_def)
  have "set (bk_rows b') \<subseteq> insert (merged now row m) (set (bk_rows b))"
    unfolding listed(4) row_def by (simp add: set_update_subset_insert)
  then have b': "fits b'" using f merged_fits [OF r m] by (auto simp: fits_def listed(4))
  have k: "\<forall>i \<in> set capped. id_ok i"
    using cap_ids_fits(3) [OF merge_ids_fits [OF r m, of now]] c by simp
  have "fits (fst (foldl (\<lambda>(b, br) i. count_new (revoke_id i b) br) (b', br') capped))" for br'
    using count_fold_fits [of "(b', br')" capped] b' k by simp
  then show ?thesis using listed(9) c by (auto simp: row_def)
qed (simp add: f)
section \<open>Every change keeps what fits\<close>

lemma bring_revocations_fits:
  assumes "fits (fst s)" "\<forall>i \<in> set (revoked d). id_ok i"
  shows "fits (fst (bring_revocations d now s))"
proof -
  have "fits (fst (foldl (\<lambda>(b, br) i. count_new (revoke_id i b) br) s (live now (revoked d))))"
    using assms live_set [of now "revoked d"] by (intro count_fold_fits) auto
  then show ?thesis
    by (simp add: bring_revocations_def Let_def live_fold fits_def key_fold_frame)
qed

lemma settle_name_fits: "settle_name m now (b, br) = Inr (b', br') \<Longrightarrow> fits b \<Longrightarrow> fits b'"
proof (erule settle_name_cases)
  fix i l assume f: "fits b" and i: "i < length (bk_rows b)"
    and b': "b' = b\<lparr>bk_rows := (bk_rows b)[i := (bk_rows b ! i)\<lparr>m_label := l\<rparr>]\<rparr>"
  have "row_fits (bk_rows b ! i)" using f i by (simp add: fits_def)
  then have "row_fits ((bk_rows b ! i)\<lparr>m_label := l\<rparr>)" by (simp add: row_fits_def)
  then show "fits b'"
    using f set_update_subset_insert [of "bk_rows b" i "(bk_rows b ! i)\<lparr>m_label := l\<rparr>"]
    by (auto simp: fits_def b')
qed (auto intro: follow_keys_fits)

lemma take_members_fits:
  "take_members ms now s = Inr t \<Longrightarrow> fits (fst s) \<Longrightarrow> \<forall>m \<in> set ms. row_fits m \<Longrightarrow> fits (fst t)"
proof (induction ms arbitrary: s)
  case (Cons m ms)
  then obtain u v where u: "settle_name m now s = Inr u" "v = take_row m now u"
      "take_members ms now v = Inr t"
    by (auto simp: bindR_Inr_iff take_member_Inr)
  have "fits (fst u)"
    using settle_name_fits [of m now "fst s" "snd s" "fst u" "snd u"] u(1) Cons.prems by simp
  then have "fits (fst v)"
    using take_row_fits [of "fst u" m now "snd u"] Cons.prems u(2) by simp
  then show ?case using Cons.IH [OF u(3)] Cons.prems by simp
qed simp

definition doc_fits :: "roster_doc \<Rightarrow> bool" where
  "doc_fits d \<longleftrightarrow> (\<forall>m \<in> set (members d). row_fits m \<and> valid_label (m_label m)) \<and> (\<forall>i \<in> set (revoked d). id_ok i)"

lemma ids_ok_distinct: "ids_ok mx is \<Longrightarrow> distinct (map rid is)"
proof -
  assume "ids_ok mx is"
  then have "distinct (map idb is)" using ascending_distinct by (auto simp: ids_ok_def)
  then have "distinct (map (id_bytes \<circ> rid) is)" by (simp add: comp_def)
  then show ?thesis by (auto simp: distinct_map dest: inj_on_imageI2)
qed

lemma doc_ok_fits: "doc_ok N d \<Longrightarrow> doc_fits d"
  using ids_ok_distinct
  by (fastforce simp: doc_ok_def doc_fits_def member_ok_def row_fits_def ids_ok_def standing_ok_def)

lemma bring_one_fits:
  assumes o: "bring_one older d now s = Inr t" and f: "fits (fst s)" and d: "doc_fits d"
  shows "fits (fst t)"
proof (cases older)
  case True
  then show ?thesis using o f d bring_revocations_fits [of s d now]
    by (auto simp: bring_one_def doc_fits_def)
next
  case False
  define u where "u = bring_revocations d now ((fst s)\<lparr>bk_last := max (bk_last (fst s)) (epoch d)\<rparr>, snd s)"
  have "fits (fst u)"
    unfolding u_def using f d by (intro bring_revocations_fits) (simp_all add: doc_fits_def fits_def)
  moreover have "take_members (members d) now u = Inr t"
    using o False by (simp add: bring_one_def book_bring_forward_def u_def split_beta)
  ultimately show ?thesis using take_members_fits [of "members d" now u t] d by (simp add: doc_fits_def)
qed

lemma known_ids_lengths:
  assumes f: "fits b" and h: "\<forall>d. held = Some d \<longrightarrow> doc_fits d"
  shows "\<forall>(bs, e) \<in> set (known_ids b held). id_ok \<lparr>expires = e, rid = RevocationId bs\<rparr>"
proof -
  let ?P = "\<lambda>m. \<forall>(bs, e) \<in> set m. id_ok \<lparr>expires = e, rid = RevocationId bs\<rparr>"
  have add: "?P (foldl (\<lambda>m i. bt_insert (idb i) (expires i) m) m is)"
    if "\<forall>i \<in> set is. id_ok i" "?P m" for m "is"
  proof (rule foldl_inv [where P = ?P, OF that(2)])
    fix m i assume "i \<in> set is" and m: "?P m"
    then have "id_ok i" using that(1) by simp
    then show "?P (bt_insert (idb i) (expires i) m)"
      using m bt_insert_sub [of "idb i" "expires i" m] by (fastforce simp: id_ok_def)
  qed
  have r: "\<forall>i \<in> set (concat (map m_ids (bk_rows b))). id_ok i"
    using f by (auto simp: fits_def row_fits_def)
  show ?thesis
  proof (cases held)
    case None
    then show ?thesis using add [OF r, of "[]"] by (simp add: known_ids_def)
  next
    case (Some d)
    have "\<forall>i \<in> set (revoked d @ concat (map m_ids (members d))). id_ok i"
      using h Some by (auto simp: doc_fits_def row_fits_def)
    from add [OF this add [OF r, of "[]"]] show ?thesis using Some by (simp add: known_ids_def Let_def)
  qed
qed

lemma carry_revoked_fits:
  assumes f: "fits b" and h: "\<forall>d. held = Some d \<longrightarrow> doc_fits d"
  shows "fits (carry_revoked rv held b)"
proof -
  have k: "fits (foldl (\<lambda>b d. snd (revoke_key d b)) b ds)" if "fits b" for b ds
    by (rule foldl_inv [where P = fits]) (simp_all add: that)
  show ?thesis
    unfolding carry_revoked_def Let_def
    by (rule k, rule foldl_inv [where P = fits, OF f])
      (use known_ids_lengths [OF assms] in \<open>auto intro!: revoke_id_fits\<close>)
qed

lemma forward_fits:
  assumes f: "forward D H held fork now b = Inr ((b', br'), behind)" and b: "fits b"
    and d: "\<forall>d. held = Some d \<or> fork = Some d \<longrightarrow> doc_fits d"
  shows "fits b'"
proof -
  obtain s rv where s: "bring_lists held fork now b = Inr s"
    and b': "b' = snd (mark_lists (option_list held @ option_list fork)
      (follow_keys now (carry_revoked rv held (fst s))))"
    using f by (elim forward_cases) blast
  have one: "bring_one older e now (c, br) = Inr u \<Longrightarrow> fits c \<Longrightarrow> held = Some e \<or> fork = Some e \<Longrightarrow> fits (fst u)"
    for older e c br u using bring_one_fits [of older e now "(c, br)" u] d by simp
  have "fits (fst s)"
    using s b
    by (cases held; cases fork)
      (auto simp: bring_lists_def Let_def bindR_Inr_iff split: if_splits dest!: one)
  then have "fits (snd (follow_keys now (carry_revoked rv held (fst s))))"
    using d by (intro follow_keys_fits carry_revoked_fits) auto
  then show ?thesis by (simp add: b' fits_def)
qed

section \<open>Records within the bounds make an update\<close>

lemma keyed_values: "keyed f m \<Longrightarrow> map f (bt_values m) = bt_keys m"
  by (induction m) (auto simp: keyed_def bt_values_def bt_keys_def)

lemma values_ascending: "bt_ok m \<Longrightarrow> keyed f m \<Longrightarrow> ascending f (bt_values m)"
  by (simp add: ascending_def keyed_values bt_keys_def)

lemma live_length: "length (live now ids) = length (filter (\<lambda>e. e > now) (map expires ids))"
  by (induction ids) (auto simp: live_def)

lemma check_bounds_Inr:
  "check_bounds b now = Inr () \<longleftrightarrow>
     length (bk_rows b) \<le> MAX_MEMBERS \<and> length (live now (bt_values (bk_revoked b))) \<le> MAX_REVOKED \<and>
     length (bk_revoked_keys b) \<le> MAX_REVOKED_KEYS \<and> checked_add (bk_last b) 1 \<noteq> None"
  by (auto simp: check_bounds_def Let_def live_length)

lemma live_live [simp]: "live now (live now ids) = live now ids"
  by (simp add: live_def)

lemma nodes_keys: "distinct (map mkey rows) \<longleftrightarrow> distinct (map m_node rows)"
  for rows :: "member list"
  by (auto simp: distinct_map inj_on_def verify_key.expand)

lemma mkey_sorted:
  fixes rows :: "member list"
  assumes "distinct (map m_node rows)"
  shows "ascending mkey (sort_key mkey rows)"
proof -
  have "distinct (map mkey (sort_key mkey rows))" using assms nodes_keys [of rows] by (simp add: distinct_map)
  then show ?thesis by (simp add: ascending_iff_sorted_distinct)
qed

lemma ids_sorted:
  assumes "distinct (map rid ids)" "length ids \<le> mx" "\<forall>i \<in> set ids. id_ok i"
  shows "ids_ok mx (sort_key idb ids)"
proof -
  have "inj_on idb (set ids)"
    using assms(1) by (auto simp: distinct_map inj_on_def revocation_id.expand)
  then have "distinct (map idb (sort_key idb ids))" using assms(1) by (simp add: distinct_map)
  then show ?thesis using assms by (simp add: ids_ok_def ascending_iff_sorted_distinct)
qed

lemma book_update_builds:
  assumes m: "maps_ok b" and r: "rows_ok (bk_rows b)" and f: "fits b" and c: "check_bounds b now = Inr ()"
  obtains d where "book_update b n now = Inr d" "epoch d = n"
    "members d = sort_key mkey (map (\<lambda>r. r\<lparr>m_ids := sort_key idb (live now (m_ids r))\<rparr>) (bk_rows b))"
    "revoked d = live now (bt_values (bk_revoked b))" "revoked_devices d = bt_values (bk_revoked_keys b)"
proof -
  let ?rows = "map (\<lambda>r. r\<lparr>m_ids := live now (m_ids r)\<rparr>) (bk_rows b)"
  let ?sorted = "map (\<lambda>r. r\<lparr>m_ids := sort_key idb (live now (m_ids r))\<rparr>) (bk_rows b)"
  let ?rids = "live now (bt_values (bk_revoked b))"
  let ?devs = "bt_values (bk_revoked_keys b)"
  have a: "ascending idb (bt_values (bk_revoked b))" "ascending rdb ?devs"
    using m by (auto simp: maps_ok_def intro: values_ascending)
  have ra: "ascending idb ?rids" unfolding live_def by (rule ascending_filter [OF a(1)])
  have rok: "ids_ok MAX_REVOKED (sort_key idb ?rids)"
    using c f ra live_set [of now "bt_values (bk_revoked b)"]
    by (fastforce simp: ascending_sort_key_id ids_ok_def check_bounds_Inr fits_def bt_values_def)
  have fit: "row_fits (x\<lparr>m_ids := live now (m_ids x)\<rparr>)" if "x \<in> set (bk_rows b)" for x
    using that f by (intro row_fits_live) (simp add: fits_def)
  have cm: "check_members ?rows = Inr ?sorted"
    using fit by (auto simp: check_members_Inr row_fits_def intro!: ids_sorted)
  have nodes: "map m_node ?sorted = map m_node (bk_rows b)" "map m_label ?sorted = map m_label (bk_rows b)"
    by (simp_all add: comp_def)
  have "with_revocations n ?rows ?rids ?devs = Inr \<lparr>epoch = n, members = sort_key mkey ?sorted,
      revoked = ?rids, revoked_devices = ?devs\<rparr>"
    unfolding with_revocations_Inr
    using cm c r rok nodes mkey_sorted [of ?sorted] ascending_sort_key_id [OF ra] ascending_sort_key_id [OF a(2)] a(2)
    by (simp only: rows_ok_def check_bounds_Inr bt_values_def length_map) (auto simp: comp_def)
  then have "book_update b n now = Inr \<lparr>epoch = n, members = sort_key mkey ?sorted,
      revoked = ?rids, revoked_devices = ?devs\<rparr>"
    by (simp add: book_update_def)
  then show ?thesis by (rule that) simp_all
qed

lemma book_update_covers:
  assumes m: "maps_ok b" and r: "rows_ok (bk_rows b)" and f: "fits b" and c: "check_bounds b now = Inr ()"
  shows "\<exists>d. book_update b n now = Inr d \<and> epoch d = n \<and> \<not> lacks b d now"
proof -
  obtain d where d: "book_update b n now = Inr d" "epoch d = n"
    and ms: "members d = sort_key mkey (map (\<lambda>r. r\<lparr>m_ids := sort_key idb (live now (m_ids r))\<rparr>) (bk_rows b))"
    and rv: "revoked d = live now (bt_values (bk_revoked b))" and kv: "revoked_devices d = bt_values (bk_revoked_keys b)"
    by (rule book_update_builds [OF assms])
  have "lists_row d now row" if "row \<in> set (bk_rows b)" for row
    unfolding lists_row_def ms
    by (rule bexI [of _ "row\<lparr>m_ids := sort_key idb (live now (m_ids row))\<rparr>"]) (use that in auto)
  moreover have "is_revoked_key d (rd_node x)" if "x \<in> set (bt_values (bk_revoked_keys b))" for x
    using that m values_ascending [of "bk_revoked_keys b" rdb]
    by (simp add: is_revoked_key_def kv binary_search_iff maps_ok_def)
  ultimately have "\<not> lacks b d now" by (auto simp: lacks_def rv)
  then show ?thesis using d by blast
qed

section \<open>When a device renews\<close>

lemma unat_half: "unat (w div 2 :: u64) = unat w div 2"
  by (simp add: unat_div)

lemma unat_minus: "b \<le> a \<Longrightarrow> unat (a - b :: u64) = unat a - unat b"
  by (simp add: unat_sub)

text \<open>The window of \<^verbatim>\<open>renews_on_its_own\<close>, over the numbers: the last half of a long enough standing.\<close>

lemma renews_window:
  "renews_on_its_own row now \<longleftrightarrow> 30 * 86400 \<le> unat (m_duration row) \<and> m_invite_until row = 0 \<and>
     unat now < unat (m_until row) \<and> unat (m_until row) < unat now + unat (m_duration row) div 2"
proof -
  have c: "unat SHORTEST_RENEWING = 30 * 86400" by (simp add: root_consts)
  have u: "unat (m_until row - now) = unat (m_until row) - unat now" if "now < m_until row"
    using that by (simp add: unat_minus less_imp_le)
  show ?thesis
    using c u by (auto simp: renews_on_its_own_def seeded_def word_le_nat_alt word_less_nat_alt unat_half)
qed


text \<open>A device due to renew is never one a renewal by name would leave alone.\<close>

lemma due_not_skipped:
  assumes d: "due row now" and n: "max_by_key expires (m_ids row) = Some i" "expires i = m_until row"
    and h: "m_duration row \<le> m_until row" "m_until row < 18446744073709551615"
  shows "\<not> renewal_skips b row (m_duration row) now"
proof -
  have w: "30 * 86400 \<le> unat (m_duration row)" "unat now < unat (m_until row)"
    "unat (m_until row) < unat now + unat (m_duration row) div 2" "live_ids row now < MAX_IDS"
    using d by (simp_all add: due_def renews_window)
  have u: "unat (m_duration row) \<le> unat (m_until row)" "unat (m_until row) < 18446744073709551615"
    using h by (simp_all add: word_le_nat_alt word_less_nat_alt)
  have "unat DAY = 86400" by (simp add: root_consts)
  then have "\<not> sat_add (sat_sub (m_until row) (m_duration row)) DAY > now"
    using w u by (simp add: word_less_nat_alt unat_sat_add unat_sat_sub)
  moreover have "\<not> sat_add now (m_duration row) \<le> m_until row"
    using w u by (simp add: word_le_nat_alt unat_sat_add)
  ultimately show ?thesis using n w(4) by (simp add: renewal_skips_def Let_def)
qed

section \<open>A name is always found\<close>

lemma fresh_from_Inl:
  "fresh_from base taken n = Inl e \<Longrightarrow> n \<le> k \<Longrightarrow> k \<le> 4294967295 \<Longrightarrow>
   label_from_str (fresh_text base k) = Inr l \<Longrightarrow> taken l"
proof (induction base taken n rule: fresh_from.induct)
  case (1 base taken n)
  have n: "\<not> n > 4294967295" using "1.prems" by simp
  show ?case
  proof (cases "label_from_str (fresh_text base n)")
    case (Inl x)
    then have "fresh_from base taken (n + 1) = Inl e"
      using "1.prems"(1) n by (subst (asm) fresh_from.simps) simp
    moreover have "k \<noteq> n" using Inl "1.prems"(4) by auto
    ultimately show ?thesis using "1.IH"(1) [OF n Inl] "1.prems" by simp
  next
    case (Inr name)
    have t: "taken name"
    proof (rule ccontr)
      assume "\<not> taken name"
      then show False using "1.prems"(1) n Inr by (subst (asm) fresh_from.simps) simp
    qed
    then have "fresh_from base taken (n + 1) = Inl e"
      using "1.prems"(1) n Inr by (subst (asm) fresh_from.simps) simp
    then show ?thesis using "1.IH"(2) [OF n Inr] t Inr "1.prems" by (cases "k = n") auto
  qed
qed

lemma show_nat_length: "n < 10 ^ Suc k \<Longrightarrow> length (show_nat n) \<le> Suc k"
proof (induction k arbitrary: n)
  case 0
  then show ?case by (subst show_nat.simps) simp
next
  case (Suc k)
  have "n div 10 < 10 ^ Suc k" using Suc.prems by (intro less_mult_imp_div_less) (simp only: power_Suc mult.commute)
  then have "length (show_nat (n div 10)) \<le> Suc k" by (rule Suc.IH)
  then show ?case by (subst show_nat.simps) simp
qed

lemma show_nat_inject: "m < 2 ^ 64 \<Longrightarrow> n < 2 ^ 64 \<Longrightarrow> show_nat m = show_nat n \<Longrightarrow> m = n"
  by (metis read_show_nat sum.inject(2))

lemma show_nat_no_dash: "CHR ''-'' \<notin> set (show_nat n)"
  using show_nat_digits [of n] by (auto simp: is_ascii_digit_def dash_code)

lemma fresh_text_valid:
  assumes v: "valid_name base" and k: "2 \<le> k" "k \<le> 4294967295"
  shows "valid_label (DeviceLabel (fresh_text base k))"
proof -
  let ?keep = "min (LABEL_MAX_LEN - length (CHR ''-'' # show_nat k)) (length base)"
  have len: "length (show_nat k) \<le> 10" using show_nat_length [of k 9] k by simp
  then have keep: "0 < ?keep" "?keep + length (CHR ''-'' # show_nat k) \<le> 63"
    using v by (auto simp: valid_name_def LABEL_MAX_LEN_def MAX_LEN_def)
  define w where "w = trim_end_dashes (take ?keep base)"
  have t: "fresh_text base k = w @ CHR ''-'' # show_nat k"
    using k by (simp add: fresh_text_def Let_def w_def)
  obtain j where j: "w = take j (take ?keep base)"
    using trim_end_dashes_take unfolding w_def by blast
  obtain c cs where base: "base = c # cs" "c \<noteq> CHR ''-''"
    using v by (cases base) (auto simp: valid_name_def)
  have ne: "w \<noteq> []"
    using base keep(1) unfolding w_def trim_end_dashes_def
    by (cases ?keep) (auto simp: dropWhile_eq_Nil_conv)
  have hd: "hd w = hd base"
    using ne keep(1) base by (cases j; cases ?keep) (auto simp: j)
  have "length w \<le> ?keep" by (simp add: j min.coboundedI2)
  then have "length w + length (CHR ''-'' # show_nat k) \<le> 63" using keep(2) by linarith
  then have l: "length (fresh_text base k) \<le> 63" by (simp add: t)
  have "set w \<subseteq> set base" by (auto simp: j dest!: in_set_takeD)
  then have s: "\<forall>c \<in> set (fresh_text base k). name_char c"
    using v show_nat_digits [of k] by (auto simp: t valid_name_def name_char_def)
  have "valid_name (fresh_text base k)"
    using l s ne hd v by (simp add: valid_name_def t)
  moreover have "fresh_text base k \<notin> set RESERVED"
  proof
    assume "fresh_text base k \<in> set RESERVED"
    moreover have "CHR ''-'' \<in> set (fresh_text base k)" by (simp add: t)
    ultimately show False by (auto simp: RESERVED_def)
  qed
  ultimately show ?thesis by (simp add: valid_label_def)
qed

lemma fresh_text_inject:
  assumes "2 \<le> j" "j \<le> 4294967295" "2 \<le> k" "k \<le> 4294967295" "fresh_text base j = fresh_text base k"
  shows "j = k"
proof -
  have t: "takeWhile (\<lambda>c. c \<noteq> CHR ''-'') (rev (fresh_text base n)) = rev (show_nat n)" if "2 \<le> n" for n
  proof -
    have "\<forall>c \<in> set (rev (show_nat n)). c \<noteq> CHR ''-''" using show_nat_no_dash [of n] by auto
    then show ?thesis using that by (auto simp: fresh_text_def Let_def takeWhile_append2 takeWhile_tail)
  qed
  have "rev (show_nat j) = rev (show_nat k)" using t [of j] t [of k] assms by simp
  then show ?thesis using assms by (intro show_nat_inject) auto
qed

lemma fresh_name_found:
  assumes v: "valid_name base" and f: "finite {l. taken l}" and c: "card {l. taken l} < 4294967294"
  shows "\<exists>l. fresh_name base taken = Inr l"
proof (rule ccontr)
  assume "\<not> ?thesis"
  then obtain e where e: "fresh_from base taken 1 = Inl e"
    by (cases "fresh_name base taken") (auto simp: fresh_name_def)
  let ?f = "\<lambda>k. DeviceLabel (fresh_text base k)"
  have "?f k \<in> {l. taken l}" if "k \<in> {2..4294967295}" for k
    using fresh_from_Inl [OF e, of k "?f k"] label_from_valid [OF fresh_text_valid [OF v, of k]] that by simp
  then have "?f ` {2..4294967295} \<subseteq> {l. taken l}" by blast
  moreover have "inj_on ?f {2..4294967295}" using fresh_text_inject by (auto simp: inj_on_def)
  ultimately have "card {2..4294967295 :: nat} \<le> card {l. taken l}"
    using f by (metis card_image card_mono)
  then show False using c by simp
qed

section \<open>The records of a list\<close>

lemma bt_of_sub: "set (bt_of es) \<subseteq> set es"
proof -
  have "set (fold (\<lambda>(k, v). bt_insert k v) es m) \<subseteq> set es \<union> set m" for m
  proof (induction es arbitrary: m)
    case (Cons e es)
    then show ?case using bt_insert_sub [of "fst e" "snd e" m] by (cases e) fastforce
  qed simp
  from this [of "[]"] show ?thesis by (simp add: bt_of_def)
qed

lemma bt_of_keyed: "keyed f (bt_of (map (\<lambda>x. (f x, x)) xs))"
  using bt_of_sub [of "map (\<lambda>x. (f x, x)) xs"] by (auto simp: keyed_def)

lemma bt_of_has: "bt_has (bt_of (map (\<lambda>x. (f x, x)) xs)) k \<longleftrightarrow> k \<in> f ` set xs"
proof -
  have "bt_has (fold (\<lambda>(k, v). bt_insert k v) (map (\<lambda>x. (f x, x)) xs) m) k \<longleftrightarrow> k \<in> f ` set xs \<or> bt_has m k" for m
    by (induction xs arbitrary: m) auto
  from this [of "[]"] show ?thesis by (simp add: bt_of_def bt_has_def [of "[]"] bt_get_def)
qed

lemma book_of_laws:
  assumes "\<forall>d. list = Some d \<longrightarrow> doc_ok N d"
  shows "maps_ok (book_of list own)" "rows_ok (bk_rows (book_of list own))" "fits (book_of list own)"
    "bk_own (book_of list own) = own"
proof -
  show "maps_ok (book_of list own)"
    by (cases list) (auto simp: book_of_def maps_ok_def bt_of_keyed keyed_def [of _ "[]"])
  show "bk_own (book_of list own) = own" by (cases list) (simp_all add: book_of_def)
  show "rows_ok (bk_rows (book_of list own))"
  proof (cases list)
    case (Some d)
    then have "doc_ok N d" using assms by simp
    then have "distinct (map mkey (members d))" "distinct (map m_label (members d))"
      "\<forall>m \<in> set (members d). valid_label (m_label m)"
      by (auto simp: doc_ok_def member_ok_def dest: ascending_distinct)
    then show ?thesis using Some nodes_keys [of "members d"] by (simp add: rows_ok_def book_of_def)
  qed (simp add: book_of_def rows_ok_def)
  show "fits (book_of list own)"
  proof (cases list)
    case (Some d)
    then have "doc_fits d" using assms doc_ok_fits by blast
    then show ?thesis using Some bt_of_sub [of "map (\<lambda>i. (idb i, i)) (revoked d)"]
      by (auto simp: fits_def book_of_def doc_fits_def)
  qed (simp add: fits_def book_of_def)
qed

lemma doc_ok_labels: "doc_ok N d \<Longrightarrow> \<forall>m \<in> set (members d). valid_label (m_label m)"
  by (simp add: doc_ok_def member_ok_def)

lemma bt_has_values: "keyed f m \<Longrightarrow> bt_has m k \<longleftrightarrow> k \<in> f ` set (bt_values m)"
  by (force simp: bt_has_iff keyed_def bt_values_def)

section \<open>Properties\<close>

text \<open>The records of a machine whose own name another device took in the update it holds.\<close>

definition example_own :: member where
  "example_own = example_member\<lparr>m_node := example_key 3, m_ids := []\<rparr>"

definition example_list :: roster_doc where
  "example_list = \<lparr>epoch = 1, members = [example_own], revoked = [], revoked_devices = []\<rparr>"

abbreviation example_forward where
  "example_forward \<equiv> forward example_denylist example_home (Some example_update) None 500
     (book_of (Some example_list) (Some (example_key 3)))"

lemma example_list_ok: "doc_ok example_nauthy example_list"
  by code_simp

lemma example_fresh:
  "fresh_name ''laptop'' (\<lambda>l. l = DeviceLabel ''laptop'' \<or> DeviceLabel ''laptop'' = l) = Inr (DeviceLabel ''laptop-2'')"
proof -
  have "label_from_str ''laptop'' = Inr (DeviceLabel ''laptop'')" by code_simp
  moreover have "fresh_text ''laptop'' 1 = ''laptop''" by (simp add: fresh_text_def)
  moreover have "fresh_text ''laptop'' (Suc (Suc 0)) = ''laptop-2''" by code_simp
  moreover have "label_from_str ''laptop-2'' = Inr (DeviceLabel ''laptop-2'')" by code_simp
  ultimately show ?thesis
    unfolding fresh_name_def by (subst fresh_from.simps, simp, subst fresh_from.simps, simp)
qed

lemma example_forwards: "\<exists>b br. example_forward = Inr ((b, br), True)"
  by (simp add: forward_def bring_lists_def example_update_def bring_one_def book_bring_forward_def
      bring_revocations_def take_member_def settle_name_def take_row_def book_of_def example_list_def
      example_own_def example_member_def example_fresh example_device_def revoke_id_def revoke_key_def
      bt_of_def bt_has_def bt_get_def count_new_def Let_def carry_forward_def revoked_open_def
      example_home_def example_denylist_def nothing_brought_def example_key_def UNVERSIONED_def split_beta)

lemma example_book: "maps_ok (book_of (Some example_list) own)" "rows_ok (bk_rows (book_of (Some example_list) own))"
  "fits (book_of (Some example_list) own)"
  using book_of_laws [of "Some example_list" example_nauthy own] example_list_ok by simp_all

lemma example_docs: "\<forall>d. Some example_update = Some d \<or> None = Some d \<longrightarrow> doc_ok example_nauthy d"
  using example_update_ok by simp

text \<open>
  Bringing the records forward keeps them well formed. Whatever update a machine holds and
  whatever fork of it, the records after list each key and each name once, list no device whose key
  they revoke, and every row and revocation of theirs fits one update.
\<close>
theorem forward_well_formed:
  assumes "forward D H held fork now b = Inr ((b', br), behind)"
    and "\<forall>d. held = Some d \<or> fork = Some d \<longrightarrow> doc_ok N d"
    and "maps_ok b" "rows_ok (bk_rows b)" "fits b"
  shows "maps_ok b' \<and> rows_ok (bk_rows b') \<and> fits b' \<and>
    (\<forall>r \<in> set (bk_rows b'). \<not> bt_has (bk_revoked_keys b') (mkey r))"
proof -
  have v: "\<forall>d. held = Some d \<or> fork = Some d \<longrightarrow> (\<forall>m \<in> set (members d). valid_label (m_label m))"
    using assms(2) doc_ok_labels by blast
  have d: "\<forall>d. held = Some d \<or> fork = Some d \<longrightarrow> doc_fits d" using assms(2) doc_ok_fits by blast
  show ?thesis
    using forward_laws(1,2,3) [OF assms(1) v] forward_fits [OF assms(1,5) d] assms(3,4) later_ok by blast
qed

theorem forward_well_formed_witness:
  "\<exists>b br. example_forward = Inr ((b, br), True) \<and> rows_ok (bk_rows b)"
  using forward_well_formed [OF _ example_docs example_book] example_forwards by blast

text \<open>
  C10: Revocations only grow. Every id and every key the records revoke before a bring-forward they
  revoke after it, an id to no earlier end and a key under the name it had; the update's number never
  falls; and every unexpired id and every key that a newer held update or a fork revokes is revoked after.
\<close>
theorem forward_keeps_revocations:
  assumes "forward D H held fork now b = Inr ((b', br), behind)"
    and "\<forall>d. held = Some d \<or> fork = Some d \<longrightarrow> doc_ok N d"
    and "maps_ok b"
  shows "keeps b b' \<and> bk_last b \<le> bk_last b' \<and> (behind \<longrightarrow> names_revoked now (the held) b') \<and>
    (\<forall>f. fork = Some f \<longrightarrow> names_revoked now f b')"
proof -
  have v: "\<forall>d. held = Some d \<or> fork = Some d \<longrightarrow> (\<forall>m \<in> set (members d). valid_label (m_label m))"
    using assms(2) doc_ok_labels by blast
  have "behind \<longrightarrow> (\<exists>h. held = Some h \<and> epoch h > bk_last b)" using assms(1) by (elim forward_cases) blast
  then show ?thesis
    using forward_laws(1,4) [OF assms(1) v] assms(3) by (auto simp: later_def)
qed

theorem forward_keeps_revocations_witness:
  "\<exists>b br. example_forward = Inr ((b, br), True) \<and> names_revoked 500 example_update b"
  using forward_keeps_revocations [OF _ example_docs example_book(1)] example_forwards by fastforce

text \<open>
  A clash of names never revokes this machine. When the records list this machine's own key and
  neither the updates nor this machine's own revocations revoke it, the records after a bring-forward
  still list it and do not revoke it, whoever took its name.
\<close>
theorem forward_keeps_own_row:
  assumes "forward D H held fork now b = Inr ((b', br), behind)"
    and "\<forall>d. held = Some d \<or> fork = Some d \<longrightarrow> doc_ok N d"
    and "holds b k" "bk_own b = Some k"
    and "\<forall>d. held = Some d \<or> fork = Some d \<longrightarrow> key_bytes k \<notin> rdb ` set (revoked_devices d)"
    and "\<forall>rv. revoked_open D H = Inr rv \<longrightarrow> RevKey k \<notin> rv"
  shows "holds b' k"
  using assms doc_ok_labels by (intro forward_own [OF assms(1) _ assms(3-6)]) blast

theorem forward_keeps_own_row_witness:
  "\<exists>b br. example_forward = Inr ((b, br), True) \<and> holds b (example_key 3)"
proof -
  have "holds (book_of (Some example_list) (Some (example_key 3))) (example_key 3)"
    by (simp add: holds_def book_of_def example_list_def example_own_def bt_has_def bt_get_def bt_of_def)
  moreover have "\<forall>d. Some example_update = Some d \<or> None = Some d \<longrightarrow>
      key_bytes (example_key 3) \<notin> rdb ` set (revoked_devices d)"
    by (simp add: example_update_def example_device_def example_key_def)
  moreover have "\<forall>rv. revoked_open example_denylist example_home = Inr rv \<longrightarrow> RevKey (example_key 3) \<notin> rv"
    by (simp add: revoked_open_def example_denylist_def example_home_def)
  moreover have "bk_own (book_of (Some example_list) (Some (example_key 3))) = Some (example_key 3)"
    by (simp add: book_of_def)
  ultimately show ?thesis
    using forward_keeps_own_row [OF _ example_docs] example_forwards by blast
qed

text \<open>The same records, with a fork of that update held beside it, which revokes an id of its own.\<close>

definition example_fork :: roster_doc where
  "example_fork = example_update\<lparr>members := [], revoked := [\<lparr>expires = 700, rid = RevocationId [6]\<rparr>]\<rparr>"

lemma example_fork_ok: "doc_ok example_nauthy example_fork"
  using example_update_ok
  by (simp add: doc_ok_def example_fork_def example_update_def ids_ok_def id_ok_def bounds_defs ascending_def)

lemma example_both_held:
  "\<exists>b br. forward example_denylist example_home (Some example_update) (Some example_fork) 500
     (book_of (Some example_list) (Some (example_key 3))) = Inr ((b, br), True) \<and> check_bounds b 500 = Inr ()"
  by (simp add: check_bounds_Inr forward_def bring_lists_def example_fork_def example_update_def bring_one_def
      book_bring_forward_def bring_revocations_def take_member_def settle_name_def take_row_def book_of_def
      example_list_def example_own_def example_member_def example_fresh example_device_def revoke_id_def
      revoke_key_def bt_of_def bt_has_def bt_get_def count_new_def Let_def carry_forward_def revoked_open_def
      example_home_def example_denylist_def nothing_brought_def example_key_def UNVERSIONED_def split_beta)
    (simp add: carry_revoked_def known_ids_def follow_keys_def mark_lists_def option_list_def bounds_defs live_def
      bt_values_def bt_has_def bt_get_def checked_add_def revoke_id_def revoke_key_def Let_def)

text \<open>
  C11: What the records hold, one update carries. Records brought forward from a list of the root, once
  they pass the bounds check, make an update at any number: it lacks nothing the records hold, it lists
  no device it revokes, and it revokes every key the list it started from revoked.
\<close>
theorem forward_makes_update:
  assumes "forward D H held fork now (book_of list own) = Inr ((b, br), behind)"
    and "\<forall>d. list = Some d \<longrightarrow> doc_ok N d" "\<forall>d. held = Some d \<or> fork = Some d \<longrightarrow> doc_ok N d"
    and "check_bounds b now = Inr ()"
  shows "\<exists>d. book_update b n now = Inr d \<and> epoch d = n \<and> \<not> lacks b d now \<and>
    (\<forall>m \<in> set (members d). mkey m \<notin> rdb ` set (revoked_devices d)) \<and>
    (\<forall>l r. list = Some l \<and> r \<in> set (revoked_devices l) \<longrightarrow> rdb r \<in> rdb ` set (revoked_devices d))"
proof -
  note bo = book_of_laws [OF assms(2), of own]
  have v: "\<forall>d. held = Some d \<or> fork = Some d \<longrightarrow> (\<forall>m \<in> set (members d). valid_label (m_label m))"
    using assms(3) doc_ok_labels by blast
  have f: "\<forall>d. held = Some d \<or> fork = Some d \<longrightarrow> doc_fits d" using assms(3) doc_ok_fits by blast
  have b: "maps_ok b" "rows_ok (bk_rows b)" "fits b"
    using forward_laws(1,2) [OF assms(1) v] forward_fits [OF assms(1) bo(3) f] bo(1,2) later_ok by blast+
  obtain d where d: "book_update b n now = Inr d" "epoch d = n"
    and ms: "members d = sort_key mkey (map (\<lambda>r. r\<lparr>m_ids := sort_key idb (live now (m_ids r))\<rparr>) (bk_rows b))"
    and kv: "revoked_devices d = bt_values (bk_revoked_keys b)"
    by (rule book_update_builds [OF b assms(4)])
  have "\<not> lacks b d now" using book_update_covers [OF b assms(4), of n] d(1) by auto
  moreover have k: "bt_has (bk_revoked_keys b) x \<longleftrightarrow> x \<in> rdb ` set (revoked_devices d)" for x
    using b(1) by (simp add: kv bt_has_values maps_ok_def)
  moreover have "\<forall>m \<in> set (members d). mkey m \<notin> rdb ` set (revoked_devices d)"
    using forward_laws(3) [OF assms(1) v] by (auto simp: ms k [symmetric])
  moreover have "rdb r \<in> rdb ` set (revoked_devices d)" if "list = Some l" "r \<in> set (revoked_devices l)" for l r
  proof -
    have "bt_has (bk_revoked_keys (book_of list own)) (rdb r)"
      using that by (simp add: book_of_def bt_of_has)
    then show ?thesis using later_has(2) [OF bo(1) forward_laws(1) [OF assms(1) v]] k by simp
  qed
  ultimately show ?thesis using d by blast
qed

theorem forward_makes_update_witness:
  "\<exists>b br d. forward example_denylist example_home (Some example_update) (Some example_fork) 500
      (book_of (Some example_list) (Some (example_key 3))) = Inr ((b, br), True) \<and>
     book_update b 7 500 = Inr d \<and> epoch d = 7 \<and> \<not> lacks b d 500"
proof -
  obtain b br where f: "forward example_denylist example_home (Some example_update) (Some example_fork) 500
      (book_of (Some example_list) (Some (example_key 3))) = Inr ((b, br), True)" "check_bounds b 500 = Inr ()"
    using example_both_held by blast
  have "\<forall>d. Some example_list = Some d \<longrightarrow> doc_ok example_nauthy d" using example_list_ok by simp
  moreover have "\<forall>d. Some example_update = Some d \<or> Some example_fork = Some d \<longrightarrow> doc_ok example_nauthy d"
    using example_update_ok example_fork_ok by auto
  ultimately show ?thesis using forward_makes_update [OF f(1) _ _ f(2), of example_nauthy 7] f(1) by blast
qed

text \<open>
  A device that is due renews. The renewal of what is due and the renewal by name agree: a device
  due at this time, whose newest standing ends when its row says and was signed after 1970, is never one
  a renewal for its own duration would leave as it is.
\<close>
theorem due_device_renews:
  assumes "due row now" "max_by_key expires (m_ids row) = Some i" "expires i = m_until row"
    and "m_duration row \<le> m_until row" "m_until row < 18446744073709551615"
  shows "\<not> renewal_skips b row (m_duration row) now"
  by (rule due_not_skipped [OF assms])

theorem due_device_renews_witness:
  "\<not> renewal_skips (book_of None None)
     (example_member\<lparr>m_until := 8000000, m_duration := 7776000,
       m_ids := [\<lparr>expires = 8000000, rid = RevocationId [1]\<rparr>]\<rparr>) 7776000 7000000"
  using due_device_renews [of "example_member\<lparr>m_until := 8000000, m_duration := 7776000,
       m_ids := [\<lparr>expires = 8000000, rid = RevocationId [1]\<rparr>]\<rparr>" 7000000]
  by (simp add: due_def renews_on_its_own_def root_consts seeded_def example_member_def live_ids_def live_def
      MAX_IDS_def)

text \<open>
  A free name is found. For every usable name and any set of fewer than 4294967294 names already
  held, the search over \<open>base\<close>, \<open>base-2\<close>, \<open>base-3\<close> ends, with a usable name nobody holds.
\<close>
theorem fresh_name_ends:
  assumes "valid_name base" "finite {l. taken l}" "card {l. taken l} < 4294967294"
  shows "\<exists>l. fresh_name base taken = Inr l \<and> valid_label l \<and> \<not> taken l"
  using fresh_name_found [OF assms] fresh_name_Inr by blast

theorem fresh_name_ends_witness:
  "\<exists>l. fresh_name ''laptop'' (\<lambda>l. l = DeviceLabel ''laptop'') = Inr l \<and> valid_label l \<and>
     l \<noteq> DeviceLabel ''laptop''"
proof -
  have "valid_name ''laptop''" by code_simp
  then show ?thesis using fresh_name_ends [of "''laptop''" "\<lambda>l. l = DeviceLabel ''laptop''"] by simp
qed

end
