(* ===== verification/Root_Act.thy ===== *)
theory Root_Act
  imports Book_Update
begin

text \<open>
  One act of the root in \<^verbatim>\<open>src/root.rs\<close>: presenting it, adding, renewing, rekeying and revoking
  devices on the records of \<^verbatim>\<open>Book\<close>, and the commit that cuts the update under the home's lock. The
  root's signatures and random keys are the record argument \<^verbatim>\<open>root_signer\<close>; the \<open>n\<close>-th random draw of
  an act is numbered, so two signatures of one act can differ.
\<close>

section \<open>Signing\<close>

record root_signer =
  rs_identity :: "string + unit"
  rs_standing :: "nat \<Rightarrow> verify_key \<Rightarrow> systime \<Rightarrow> string + revocation_id option \<times> (string + link)"
  rs_document :: "bytes \<Rightarrow> bytes"
  rs_fresh :: "nat \<Rightarrow> root_error + bytes \<times> verify_key"

section \<open>The act\<close>

datatype root_place = PlaceHome | PlaceDir
datatype root_verb = Invite | Revoke | Restore | Backup | Lock | RevokeRoot

fun verb_cuts :: "root_verb \<Rightarrow> bool" where
  "verb_cuts Invite = True"
| "verb_cuts Revoke = True"
| "verb_cuts _ = False"

fun writes_source :: "root_verb \<Rightarrow> bool" where
  "writes_source Backup = False"
| "writes_source Restore = False"
| "writes_source _ = True"

record root_act =
  ac_key :: node_id
  ac_copy :: bool
  ac_beside :: u64
  ac_book :: book
  ac_held :: "(roster_doc \<times> bytes) option"
  ac_fork :: "bytes option"
  ac_due :: "verify_key list"
  ac_now :: u64
  ac_own :: "verify_key option"
  ac_added :: "verify_key list"
  ac_replaced :: "verify_key list"
  ac_renewed :: "verify_key list"
  ac_revoked_until :: "u64 option"
  ac_revoked :: "(device_label \<times> verify_key list) list"
  ac_minted :: bool
  ac_drawn :: nat

definition act_new :: "systime \<Rightarrow> node_id \<Rightarrow> bool \<Rightarrow> roster_doc option \<Rightarrow> verify_key option \<Rightarrow> root_act" where
  "act_new clock key copy list own =
     \<lparr>ac_key = key, ac_copy = copy,
      ac_beside = (case list of None \<Rightarrow> UNVERSIONED | Some d \<Rightarrow> epoch d),
      ac_book = book_of list own, ac_held = None, ac_fork = None, ac_due = [],
      ac_now = unix_now clock, ac_own = own, ac_added = [], ac_replaced = [], ac_renewed = [],
      ac_revoked_until = None, ac_revoked = [], ac_minted = False, ac_drawn = 0\<rparr>"

definition act_records :: "root_act \<Rightarrow> root_records" where
  "act_records a = \<lparr>rc_book = ac_book a, rc_own = ac_own a, rc_now = ac_now a\<rparr>"

abbreviation rows :: "root_act \<Rightarrow> member list" where
  "rows a \<equiv> bk_rows (ac_book a)"

abbreviation set_rows :: "member list \<Rightarrow> root_act \<Rightarrow> root_act" where
  "set_rows rs a \<equiv> a\<lparr>ac_book := (ac_book a)\<lparr>bk_rows := rs\<rparr>\<rparr>"

section \<open>Adding and renewing\<close>

definition sign_member :: "root_signer \<Rightarrow> verify_key \<Rightarrow> u64 \<Rightarrow> (root_act, root_error, link \<times> id) act" where
  "sign_member S key til a =
     (case rs_identity S of
        Inl e \<Rightarrow> (Inl (Sign e), a)
      | Inr _ \<Rightarrow>
      (case epoch_plus til of
         None \<Rightarrow> (Inl RtPanic, a)
       | Some ends \<Rightarrow>
           let b = a\<lparr>ac_drawn := ac_drawn a + 1\<rparr> in
           (case rs_standing S (ac_drawn a) key ends of
              Inl e \<Rightarrow> (Inl (Sign e), b)
            | Inr (None, _) \<Rightarrow> (Inl (RtFormat Truncated), b)
            | Inr (Some i, Inl e) \<Rightarrow> (Inl (Sign e), b)
            | Inr (Some i, Inr l) \<Rightarrow> (Inr (l, \<lparr>expires = til, rid = i\<rparr>), b))))"

definition fresh_key :: "root_signer \<Rightarrow> (root_act, root_error, bytes \<times> verify_key) act" where
  "fresh_key S a = (rs_fresh S (ac_drawn a), a\<lparr>ac_drawn := ac_drawn a + 1\<rparr>)"

text \<open>The name the mint gave this machine moves off a name a new device asks for.\<close>

definition move_own :: "device_label \<Rightarrow> (root_act, root_error, unit) act" where
  "move_own name a =
     (case position (\<lambda>r. m_label r = name) (rows a) of
        None \<Rightarrow> (Inr (), a)
      | Some i \<Rightarrow>
          (case fresh_name (label_str name) (\<lambda>l. \<exists>r \<in> set (rows a). m_label r = l) of
             Inl e \<Rightarrow> (Inl e, a)
           | Inr moved \<Rightarrow> (Inr (), set_rows ((rows a)[i := (rows a ! i)\<lparr>m_label := moved\<rparr>]) a)))"

definition sign_standing ::
  "root_signer \<Rightarrow> verify_key \<Rightarrow> device_label \<Rightarrow> u64 \<Rightarrow> (root_act, root_error, link) act" where
  "sign_standing S key name duration =
     bindS (getS (\<lambda>a. check_add (act_records a) key name)) (\<lambda>_.
     bindS (move_own name) (\<lambda>_.
     bindS (getS (\<lambda>a. Inr (sat_add (ac_now a) duration))) (\<lambda>til.
     bindS (sign_member S key til) (\<lambda>(standing, i) a.
       (Inr standing, (set_rows (rows a @ [\<lparr>m_node = key, m_label = name, m_until = til,
          m_duration = duration, m_invite_until = 0, m_ids = [i], m_standing = standing\<rparr>]) a)
        \<lparr>ac_added := ac_added a @ [key]\<rparr>)))))"

definition sign_keyed ::
  "root_signer \<Rightarrow> device_label \<Rightarrow> u64 \<Rightarrow> (root_act, root_error, link \<times> bytes) act" where
  "sign_keyed S name duration =
     bindS (fresh_key S) (\<lambda>(seed, key).
     bindS (sign_standing S key name duration) (\<lambda>standing a.
       (Inr (standing, seed),
        case position (\<lambda>r. m_node r = key) (rows a) of
          None \<Rightarrow> a
        | Some i \<Rightarrow> set_rows ((rows a)[i := (rows a ! i)\<lparr>m_invite_until := m_until (rows a ! i)\<rparr>]) a)))"

record rekeyed =
  rk_standing :: link
  rk_seed :: bytes
  rk_until :: u64
  rk_old_invite_until :: u64

definition rekey :: "root_signer \<Rightarrow> device_label \<Rightarrow> u64 \<Rightarrow> (root_act, root_error, rekeyed) act" where
  "rekey S name duration =
     bindS (getS (\<lambda>a. check_rekey (act_records a) name)) (\<lambda>_.
     bindS (getS (\<lambda>a. ok_or (NoDeviceToRenew name) (position (\<lambda>r. m_label r = name) (rows a)))) (\<lambda>i.
     bindS (fresh_key S) (\<lambda>(seed, key).
     bindS (getS (\<lambda>a. Inr (sat_add (ac_now a) duration))) (\<lambda>til.
     bindS (sign_member S key til) (\<lambda>(standing, d) a.
       let row = rows a ! i;
           new = row\<lparr>m_node := key, m_ids := live (ac_now a) (m_ids row) @ [d], m_until := til,
             m_duration := duration, m_invite_until := til, m_standing := standing\<rparr>
       in (Inr \<lparr>rk_standing = standing, rk_seed = seed, rk_until = til,
                rk_old_invite_until = m_invite_until row\<rparr>,
           (set_rows ((rows a)[i := new]) a)
             \<lparr>ac_replaced := ac_replaced a @ [m_node row],
              ac_due := filter (\<lambda>k. k \<noteq> key) (ac_due a),
              ac_added := ac_added a @ [key]\<rparr>))))))"

record renewed_row =
  rw_name :: device_label
  rw_key :: verify_key
  rw_until :: u64
  rw_standing :: link

definition renew_row :: "root_signer \<Rightarrow> nat \<Rightarrow> u64 \<Rightarrow> (root_act, root_error, renewed_row) act" where
  "renew_row S i duration =
     bindS (getS (\<lambda>a. Inr (m_node (rows a ! i), sat_add (ac_now a) duration))) (\<lambda>(key, til).
     bindS (sign_member S key til) (\<lambda>(standing, d) a.
       let row = rows a ! i;
           new = row\<lparr>m_ids := live (ac_now a) (m_ids row) @ [d], m_until := til,
             m_duration := duration, m_standing := standing\<rparr>
       in (Inr \<lparr>rw_name = m_label row, rw_key = key, rw_until = til, rw_standing = standing\<rparr>,
           (set_rows ((rows a)[i := new]) a)\<lparr>ac_renewed := ac_renewed a @ [key]\<rparr>)))"

record renewal_list =
  rl_renewed :: "renewed_row list"
  rl_unchanged :: "(device_label \<times> u64 \<times> link) list"

fun renew_due_from :: "root_signer \<Rightarrow> renewal_list \<Rightarrow> verify_key list \<Rightarrow> (root_act, root_error, renewal_list) act" where
  "renew_due_from S l [] a = (Inr l, a)"
| "renew_due_from S l (k # ks) a =
     (case position (\<lambda>r. m_node r = k) (rows a) of
        None \<Rightarrow> renew_due_from S l ks a
      | Some i \<Rightarrow>
          bindS (renew_row S i (m_duration (rows a ! i))) (\<lambda>r.
            renew_due_from S (l\<lparr>rl_renewed := rl_renewed l @ [r]\<rparr>) ks) a)"

definition renew_due :: "root_signer \<Rightarrow> (root_act, root_error, renewal_list) act" where
  "renew_due S a = renew_due_from S \<lparr>rl_renewed = [], rl_unchanged = []\<rparr> (ac_due a) (a\<lparr>ac_due := []\<rparr>)"

fun renew_from ::
  "root_signer \<Rightarrow> u64 option \<Rightarrow> renewal_list \<Rightarrow> device_label list \<Rightarrow> (root_act, root_error, renewal_list) act" where
  "renew_from S duration l [] a = (Inr l, a)"
| "renew_from S duration l (name # names) a =
     (case position (\<lambda>r. m_label r = name) (rows a) of
        None \<Rightarrow> (Inl (NoDeviceToRenew name), a)
      | Some i \<Rightarrow>
          let row = rows a ! i;
              d = (case duration of None \<Rightarrow> own_duration row | Some d \<Rightarrow> d)
          in if renewal_skips (ac_book a) row d (ac_now a) then
               renew_from S duration
                 (l\<lparr>rl_unchanged := rl_unchanged l @ [(m_label row, m_until row, m_standing row)]\<rparr>) names a
             else
               bindS (renew_row S i d) (\<lambda>r.
                 renew_from S duration (l\<lparr>rl_renewed := rl_renewed l @ [r]\<rparr>) names)
               (a\<lparr>ac_due := filter (\<lambda>k. k \<noteq> m_node row) (ac_due a)\<rparr>))"

definition renew ::
  "root_signer \<Rightarrow> device_label list \<Rightarrow> u64 option \<Rightarrow> (root_act, root_error, renewal_list) act" where
  "renew S names duration = renew_from S duration \<lparr>rl_renewed = [], rl_unchanged = []\<rparr> names"

section \<open>Revoking a device\<close>

definition later_until :: "u64 option \<Rightarrow> u64 \<Rightarrow> u64 option" where
  "later_until held til = Some (case held of None \<Rightarrow> til | Some e \<Rightarrow> max e til)"

text \<open>What the revocation of a row adds to the unexpired ids an update carries.\<close>

definition unexpired_after :: "root_act \<Rightarrow> member \<Rightarrow> u64 list" where
  "unexpired_after a row =
     map expires (live (ac_now a) (bt_values (bk_revoked (ac_book a)))) @
     map expires (filter (\<lambda>i. \<not> bt_has (bk_revoked (ac_book a)) (idb i)) (live (ac_now a) (m_ids row)))"

definition revoke_device ::
  "device_label \<Rightarrow> verify_key \<Rightarrow> verify_key list \<Rightarrow> (root_act, root_error, unit) act" where
  "revoke_device name key listed a =
     (let seen = listed @ [key];
          note = (\<lambda>til a. a\<lparr>ac_revoked_until := later_until (ac_revoked_until a) til,
                    ac_revoked := ac_revoked a @ [(name, seen)]\<rparr>)
      in if \<exists>r \<in> set (rows a). m_label r = name \<and> m_node r \<notin> set seen then (Inl (NameMoved name), a)
         else case find (\<lambda>r. m_node r = key) (rows a) of
             None \<Rightarrow>
               (case find (\<lambda>r. m_node r = key) (bk_marked (ac_book a)) of
                  None \<Rightarrow> (Inl (NotYourDevice name), a)
                | Some row \<Rightarrow> (Inr (), note (m_until row) a))
           | Some row \<Rightarrow>
               let unexpired = unexpired_after a row in
               if length unexpired > MAX_REVOKED then
                 (Inl (TooManyRevoked (length unexpired) (hd (sort unexpired))), a)
               else if bt_has (bk_revoked_keys (ac_book a)) (key_bytes key) then
                 (Inr (), note (m_until row) (a\<lparr>ac_book := snd (follow_keys (ac_now a) (ac_book a))\<rparr>))
               else if length (bk_revoked_keys (ac_book a)) \<ge> MAX_REVOKED_KEYS then
                 (Inl (TooManyKeys (length (bk_revoked_keys (ac_book a)))), a)
               else
                 let b = snd (revoke_key \<lparr>rd_node = key, rd_label = m_label row\<rparr> (ac_book a)) in
                 (Inr (), note (m_until row) (a\<lparr>ac_book := snd (follow_keys (ac_now a) b)\<rparr>)))"

end
