(* ===== verification/Root_Commit.thy ===== *)
theory Root_Commit
  imports Root_Act
begin

text \<open>
  The acts of \<^verbatim>\<open>src/root.rs\<close> that read and write the home: whether a root may be presented, the
  records brought forward as it is, this machine's own row, the check of what moved while the act
  waited at its prompt, and the commit, which cuts the update, writes it beside a copy's key and folds
  it here before it is offered.
\<close>

section \<open>Reading what a root is presented from\<close>

definition root_own_key :: "env \<Rightarrow> 'd home \<Rightarrow> root_error + verify_key option" where
  "root_own_key E H =
     bindR (map_err RtKeyFile (key_stored (h_key H))) (\<lambda>stored.
     case stored of
       None \<Rightarrow> Inr None
     | Some None \<Rightarrow> Inl RtUnusableKey
     | Some (Some n) \<Rightarrow> bindR (ok_or RtKey (en_verify_key E n)) (\<lambda>k. Inr (Some k)))"

definition root_pin :: "env \<Rightarrow> node_id \<Rightarrow> root_error + verify_key" where
  "root_pin E n = ok_or RtKey (en_verify_key E n)"

definition own_key_revoked :: "env \<Rightarrow> 'd home \<Rightarrow> verify_key \<Rightarrow> root_error + bool" where
  "own_key_revoked E H root =
     bindR (root_own_key E H) (\<lambda>own.
     Inr (case own of
            None \<Rightarrow> False
          | Some k \<Rightarrow> \<exists>file \<in> set [h_devices H, h_conflict H].
              (case read_held E file root of None \<Rightarrow> False | Some (held, _) \<Rightarrow> is_revoked_key held k)))"

text \<open>The root's key file as its header is read, and the list file beside it.\<close>

datatype header_read =
    HdrLocked "node_id option"
  | HdrPlain
  | HdrAbsent
  | HdrMethod nat
  | HdrError string

datatype list_read = ListFile bytes_read | ListNotRegular

definition read_header :: "header_read \<Rightarrow> root_error + node_id option" where
  "read_header h =
     (case h of
        HdrLocked n \<Rightarrow> Inr n
      | HdrPlain \<Rightarrow> Inl Plain
      | HdrAbsent \<Rightarrow> Inl (RtKeyFile ''absent'')
      | HdrMethod m \<Rightarrow> Inl (Method m)
      | HdrError e \<Rightarrow> Inl (RtKeyFile e))"

definition header_key :: "node_id option \<Rightarrow> root_error + node_id" where
  "header_key n = ok_or RtUnusableKey n"

definition read_list_at :: "env \<Rightarrow> list_read \<Rightarrow> verify_key \<Rightarrow> root_error + (roster_doc \<times> bytes) option" where
  "read_list_at E file root =
     (case file of
        ListNotRegular \<Rightarrow> Inl RtDamaged
      | ListFile NoFile \<Rightarrow> Inr None
      | ListFile (BytesFailed e) \<Rightarrow> Inl (RtIo e)
      | ListFile (Bytes b) \<Rightarrow>
          if length b > MAX_ROSTER_BLOB then Inl RtDamaged
          else (case roster_verify (en_nauthy E) b root of
              Inl _ \<Rightarrow> Inl RtDamaged
            | Inr d \<Rightarrow> Inr (Some (d, b))))"

definition read_list :: "env \<Rightarrow> list_read \<Rightarrow> verify_key \<Rightarrow> root_error + roster_doc option" where
  "read_list E file root = bindR (read_list_at E file root) (\<lambda>r. Inr (map_option fst r))"

text \<open>\<open>hdr\<close> gives the header of the root's key file: at home, or in the copy's directory.\<close>

definition find_root ::
  "env \<Rightarrow> 'd denylist_ops \<Rightarrow> (bool \<Rightarrow> header_read) \<Rightarrow> 'd home \<Rightarrow> root_place \<Rightarrow> root_verb option \<Rightarrow>
   root_error + bool \<times> node_id" where
  "find_root E D hdr H place verb =
     bindR (map_err RtStanding (standing_read E D H)) (\<lambda>st.
     bindR (case (place, st) of
         (PlaceHome, HoldsRoot pin _) \<Rightarrow> Inr (False, Some pin, True)
       | (PlaceHome, InterruptedMint k) \<Rightarrow>
           if verb = Some RevokeRoot then Inr (False, None, False) else Inl (Unfinished k)
       | (PlaceHome, StDevice _ _) \<Rightarrow> Inl NotOnThisMachine
       | (PlaceHome, Unpinned) \<Rightarrow> Inl NoRootHere
       | (PlaceDir, HoldsRoot _ _) \<Rightarrow> Inl HeldHere
       | (PlaceDir, InterruptedMint _) \<Rightarrow> Inl HeldHere
       | (PlaceDir, StDevice pin _) \<Rightarrow> Inr (True, Some pin, True)
       | (PlaceDir, Unpinned) \<Rightarrow> Inr (True, None, False)) (\<lambda>(copy, pin, device).
     if (case verb of None \<Rightarrow> False | Some v \<Rightarrow> verb_cuts v) \<and> \<not> device then Inl RtNotADevice
     else
       bindR (read_header (hdr copy)) (\<lambda>locked.
       bindR (header_key locked) (\<lambda>header.
       if (case pin of None \<Rightarrow> False | Some p \<Rightarrow> p \<noteq> header) then Inl (Mismatch header (the pin))
       else
         bindR (map_err (RtStanding \<circ> StRevoked) (revoked_open D H)) (\<lambda>rv.
         bindR (root_pin E header) (\<lambda>k.
         if RevKey k \<in> rv then Inl (RtRevoked header) else Inr (copy, header)))))))"

section \<open>The lines a bring-forward and a renewal print\<close>

definition brought_line :: "(verify_key \<Rightarrow> string) \<Rightarrow> brought \<Rightarrow> string" where
  "brought_line short br =
     ''this copy of your root was behind your devices; brought forward: +'' @ show_nat (br_devices br) @
     '' devices, +'' @ show_nat (br_revocations br) @ '' revocations, +'' @ show_nat (br_marked br) @
     '' devices marked revoked.'' @
     concat (map (\<lambda>(name, count, since).
       '' +'' @ show_nat count @ '' older renewals of me/'' @ label_str name @
       '' revoked (two copies of your root renewed it); if me/'' @ label_str name @
       '' was offline since '' @ date_show since @ '': swoosh invite '' @ label_str name @
       ''; it picks it up the next time it reaches one of your devices.'') (br_capped br)) @
     concat (map (\<lambda>(name, key).
       '' me/'' @ label_str name @ '' ('' @ short key @
       '') was also added on another copy of your root; it is revoked here. To keep that machine: on it, '' @
       ''swoosh leave --new-key, then invite the new key under another name.'') (br_clashed br)) @
     (case br_renamed br of
        None \<Rightarrow> ''''
      | Some r \<Rightarrow> '' Another device took the name me/'' @ label_str (rn_was r) @
          ''; this machine is me/'' @ label_str (rn_now r) @ '' now.'')"

definition list_renewals :: "(verify_key \<Rightarrow> string) \<Rightarrow> root_act \<Rightarrow> root_act \<times> string list" where
  "list_renewals short a =
     (let due_keys = ac_due a @ map m_node (filter (\<lambda>r. due r (ac_now a)) (rows a));
          skipped = filter (\<lambda>r. \<not> due r (ac_now a) \<and> renews_on_its_own r (ac_now a)) (rows a);
          newest = (\<lambda>r. case live (ac_now a) (m_ids r) of
              [] \<Rightarrow> m_until r | i # is \<Rightarrow> foldl max (expires i) (map expires is));
          names = map (\<lambda>r. ''me/'' @ label_str (m_label r) @ '' ('' @ short (m_node r) @ '')'')
            (filter (\<lambda>r. m_node r \<in> set due_keys) (rows a));
          first = (if names = [] then [] else
            [''renewing '' @ show_nat (length names) @ (if length names = 1 then '' device: '' else '' devices: '') @
             foldl (\<lambda>l n. l @ '', '' @ n) (hd names) (tl names) @ ''. Revoke any you no longer have.'']);
          rest = map (\<lambda>r. ''me/'' @ label_str (m_label r) @ '': not renewed, it already has '' @
            show_nat MAX_IDS @ '' renewals in force (the newest until '' @ date_show (newest r) @ '')'') skipped
      in (a\<lparr>ac_due := due_keys\<rparr>, first @ rest))"

section \<open>Bringing an act's records forward\<close>

text \<open>What is brought, and whether its line is printed.\<close>

definition act_bring_forward ::
  "env \<Rightarrow> 'd denylist_ops \<Rightarrow> 'd home \<Rightarrow> (root_act, root_error, brought \<times> bool) act" where
  "act_bring_forward E D H =
     bindS (getS (\<lambda>a. root_pin E (ac_key a))) (\<lambda>pin a.
       let held = read_held E (h_devices H) pin;
           fork = read_held E (h_conflict H) pin;
           a = a\<lparr>ac_held := held, ac_fork := map_option snd fork\<rparr>
       in case forward D H (map_option fst held) (map_option fst fork) (ac_now a) (ac_book a) of
            Inl e \<Rightarrow> (Inl e, a)
          | Inr ((b, br), behind) \<Rightarrow>
              (Inr (br, behind \<or> (fork \<noteq> None \<and> brought_any br)), a\<lparr>ac_book := b\<rparr>))"

definition listed_added :: "root_act \<Rightarrow> bool \<Rightarrow> (roster_doc \<times> bytes) option \<Rightarrow> bool" where
  "listed_added a moved file \<longleftrightarrow>
     moved \<and> (case file of None \<Rightarrow> False | Some (d, _) \<Rightarrow> \<exists>m \<in> set (members d). m_node m \<in> set (ac_added a))"

definition again :: "env \<Rightarrow> 'd denylist_ops \<Rightarrow> 'd home \<Rightarrow> (root_act, root_error, unit) act" where
  "again E D H =
     bindS (getS (\<lambda>a. root_pin E (ac_key a))) (\<lambda>pin a.
       let held = read_held E (h_devices H) pin;
           fork = read_held E (h_conflict H) pin;
           held_moved = (map_option snd held \<noteq> map_option snd (ac_held a));
           fork_moved = (map_option snd fork \<noteq> ac_fork a)
       in if \<not> held_moved \<and> \<not> fork_moved then (Inr (), a)
          else
            let listed = (listed_added a held_moved held \<or> listed_added a fork_moved fork);
                before = bk_revoked_keys (ac_book a)
            in bindS (act_bring_forward E D H) (\<lambda>_ a.
                 let gone = (\<lambda>k. \<not> bt_has before (key_bytes k) \<and>
                       bt_has (bk_revoked_keys (ac_book a)) (key_bytes k));
                     touched = ac_added a @ ac_replaced a @ ac_renewed a
                 in case find (\<lambda>(name, seen). \<exists>r \<in> set (rows a). m_label r = name \<and> m_node r \<notin> set seen)
                       (ac_revoked a) of
                      Some (name, _) \<Rightarrow> (Inl (NameMoved name), a)
                    | None \<Rightarrow>
                        if listed \<or> (\<exists>k \<in> set touched. gone k) then (Inl ListChanged, a)
                        else (Inr (), a)) a)"

section \<open>This machine's own row\<close>

definition sign_own :: "root_signer \<Rightarrow> name \<Rightarrow> verify_key \<Rightarrow> (root_act, root_error, link) act" where
  "sign_own S suggested own a =
     (case position (\<lambda>r. m_node r = own) (rows a) of
        Some i \<Rightarrow> bindS (renew_row S i (own_duration (rows a ! i))) (\<lambda>r. liftS (Inr (rw_standing r))) a
      | None \<Rightarrow>
          bindS (getS (\<lambda>a. fresh_name (name_str suggested) (\<lambda>l. \<exists>r \<in> set (rows a). m_label r = l))) (\<lambda>name.
            sign_standing S own name DEFAULT_DURATION) a)"

definition carry_own ::
  "env \<Rightarrow> root_signer \<Rightarrow> name \<Rightarrow> 'd home \<Rightarrow> (root_act, root_error, unit) act" where
  "carry_own E S suggested H a =
     (case ac_own a of
        None \<Rightarrow> (Inr (), a)
      | Some own \<Rightarrow>
          if \<not> lacks_own (ac_book a) (ac_now a) then (Inr (), a)
          else bindS (getS (\<lambda>a. bindR (root_pin E (ac_key a)) (own_key_revoked E H))) (\<lambda>gone.
            if gone then liftS (Inr ())
            else bindS (sign_own S suggested own) (\<lambda>_ a.
              (Inr (), a\<lparr>ac_added := filter (\<lambda>k. k \<noteq> own) (ac_added a),
                         ac_renewed := filter (\<lambda>k. k \<noteq> own) (ac_renewed a)\<rparr>))) a)"

section \<open>Presenting\<close>

definition OWN_KEY_REVOKED :: string where
  "OWN_KEY_REVOKED = ''warning: this machine's key was revoked, so your devices no longer admit it. '' @
     ''Your root still works here.''"

record present_obs =
  po_writable :: bool
  po_list :: list_read
  po_clock :: systime
  po_terminal :: bool
  po_unlock_fails :: "string option"
  po_suggested :: name

text \<open>
  \<open>H\<close> is the home as the command finds it, \<open>H2\<close> as the exchange with the root's devices leaves it,
  which folds updates into it (\<open>H2 = H\<close> for an act that cuts nothing). The act is returned with the
  lines it prints.
\<close>

definition present_cut ::
  "env \<Rightarrow> 'd denylist_ops \<Rightarrow> root_signer \<Rightarrow> (verify_key \<Rightarrow> string) \<Rightarrow> name \<Rightarrow> 'd home \<Rightarrow>
   (root_act, root_error, string list) act" where
  "present_cut E D S short suggested H =
     bindS (act_bring_forward E D H) (\<lambda>(br, prints).
     bindS (getS (\<lambda>a. check_bounds (ac_book a) (ac_now a))) (\<lambda>_.
     bindS (\<lambda>a. if ac_copy a then (Inr (), a) else carry_own E S suggested H a) (\<lambda>_ a.
     case list_renewals short a of (a, said) \<Rightarrow>
       (Inr ((if prints then [brought_line short br] else []) @ said), a))))"

definition present ::
  "env \<Rightarrow> 'd denylist_ops \<Rightarrow> root_signer \<Rightarrow> (verify_key \<Rightarrow> string) \<Rightarrow> (bool \<Rightarrow> header_read) \<Rightarrow> present_obs \<Rightarrow>
   root_place \<Rightarrow> root_verb \<Rightarrow> 'd home \<Rightarrow> 'd home \<Rightarrow> root_error + root_act \<times> string list" where
  "present E D S short hdr ob place verb H H2 =
     bindR (find_root E D hdr H place (Some verb)) (\<lambda>(copy, header).
     bindR (if writes_source verb \<and> copy \<and> \<not> po_writable ob then Inl ReadOnly else Inr ()) (\<lambda>_.
     bindR (root_pin E header) (\<lambda>pin.
     bindR (read_list E (if copy then po_list ob else ListFile (h_devices H)) pin) (\<lambda>list.
     bindR (root_own_key E H) (\<lambda>own.
     let a = act_new (po_clock ob) header copy list own in
     if \<not> po_terminal ob then Inl NoTerminalToUnlock
     else
       bindR (if verb_cuts verb \<and> \<not> copy then own_key_revoked E H pin else Inr False) (\<lambda>warn.
       bindR (case po_unlock_fails ob of Some e \<Rightarrow> Inl (Prompt e) | None \<Rightarrow> Inr ()) (\<lambda>_.
       if verb_cuts verb then
         (case present_cut E D S short (po_suggested ob) H2 a of
            (Inl e, _) \<Rightarrow> Inl e
          | (Inr said, a) \<Rightarrow> Inr (a, (if warn then [OWN_KEY_REVOKED] else []) @ said))
       else Inr (a, []))))))))"

definition unchanged ::
  "env \<Rightarrow> 'd denylist_ops \<Rightarrow> (bool \<Rightarrow> header_read) \<Rightarrow> present_obs \<Rightarrow> root_place \<Rightarrow> device_label \<Rightarrow>
   u64 option \<Rightarrow> 'd home \<Rightarrow> root_error + (verify_key \<times> u64 \<times> link) option" where
  "unchanged E D hdr ob place name duration H =
     bindR (find_root E D hdr H place None) (\<lambda>(copy, header).
     bindR (root_pin E header) (\<lambda>pin.
     bindR (root_own_key E H) (\<lambda>own.
     bindR (read_list E (if copy then po_list ob else ListFile (h_devices H)) pin) (\<lambda>list.
     let b = book_of list own; now = unix_now (po_clock ob) in
     bindR (read_forward E D H pin now b) (\<lambda>(fwd, held).
     case held of
       None \<Rightarrow> Inr None
     | Some held \<Rightarrow>
         if fwd \<noteq> b \<or> lacks b held now \<or> (\<exists>r \<in> set (bk_rows fwd). due r now) then Inr None
         else
           bindR (if \<not> copy \<and> lacks_own fwd now then own_key_revoked E H pin else Inr True) (\<lambda>own_gone.
           if \<not> own_gone then Inr None
           else Inr (case find (\<lambda>r. m_label r = name) (bk_rows b) of
               None \<Rightarrow> None
             | Some row \<Rightarrow>
                 let d = (case duration of None \<Rightarrow> own_duration row | Some d \<Rightarrow> d)
                 in if renewal_skips b row d now then Some (m_node row, m_until row, m_standing row)
                    else None)))))))"

section \<open>The commit\<close>

record 'd world =
  wd_act :: root_act
  wd_home :: "'d home"
  wd_copy :: bytes_read

record commit_obs =
  co_lock_fails :: "string option"
  co_copy_fails :: "string option"
  co_fold :: fold_obs

record committed =
  cm_bytes :: bytes
  cm_number :: u64
  cm_targets :: "(verify_key \<times> string) list"
  cm_until :: "u64 option"

definition on_act :: "(root_act, 'e, 'a) act \<Rightarrow> ('d world, 'e, 'a) act" where
  "on_act m w = (case m (wd_act w) of (r, a) \<Rightarrow> (r, w\<lparr>wd_act := a\<rparr>))"

definition on_home :: "('d home, 'e, 'a) act \<Rightarrow> ('d world, 'e, 'a) act" where
  "on_home m w = (case m (wd_home w) of (r, h) \<Rightarrow> (r, w\<lparr>wd_home := h\<rparr>))"

text \<open>The root signs the canonical bytes of its update.\<close>

definition sign_update :: "root_signer \<Rightarrow> roster_doc \<Rightarrow> root_error + bytes" where
  "sign_update S d = bindR (map_err Sign (rs_identity S)) (\<lambda>_. Inr (rs_document S (canonical_bytes d)))"

definition cut_update :: "root_signer \<Rightarrow> (root_act, root_error, bytes \<times> u64 \<times> bool) act" where
  "cut_update S =
     bindS (getS (\<lambda>a. ok_or Exhausted (checked_add (bk_last (ac_book a)) 1))) (\<lambda>number.
     bindS (getS (\<lambda>a. book_update (ac_book a) number (ac_now a))) (\<lambda>doc.
     bindS (\<lambda>a. (Inr (), a\<lparr>ac_book := (ac_book a)\<lparr>bk_last := number\<rparr>\<rparr>)) (\<lambda>_.
     bindS (liftS (sign_update S doc)) (\<lambda>b.
     liftS (Inr (b, number, True))))))"

definition choose_update :: "root_signer \<Rightarrow> (root_act, root_error, bytes \<times> u64 \<times> bool) act" where
  "choose_update S a =
     (let b = a\<lparr>ac_held := None\<rparr> in
      case ac_held a of
        Some (held, bytes) \<Rightarrow>
          if \<not> lacks (ac_book a) held (ac_now a) then (Inr (bytes, epoch held, False), b)
          else cut_update S b
      | None \<Rightarrow> cut_update S b)"

definition write_beside :: "commit_obs \<Rightarrow> bytes \<Rightarrow> u64 \<Rightarrow> ('d world, root_error, unit) act" where
  "write_beside ob b number w =
     (if ac_copy (wd_act w) \<and> number > ac_beside (wd_act w) then
        (case co_copy_fails ob of
           Some e \<Rightarrow> (Inl (RtArtifact e), w)
         | None \<Rightarrow> (Inr (), w\<lparr>wd_copy := Bytes b\<rparr>))
      else (Inr (), w))"

definition commit_targets :: "env \<Rightarrow> root_act \<Rightarrow> (verify_key \<times> string) list" where
  "commit_targets E a =
     List.map_filter (\<lambda>r. case en_node_id E (m_node r) of
         None \<Rightarrow> None | Some _ \<Rightarrow> Some (m_node r, ''me/'' @ label_str (m_label r)))
       (filter (\<lambda>r. Some (m_node r) \<noteq> ac_own a \<and> m_node r \<notin> set (ac_added a)) (rows a))"

definition fold_cut ::
  "env \<Rightarrow> 'd denylist_ops \<Rightarrow> commit_obs \<Rightarrow> bytes \<Rightarrow> bool \<Rightarrow> ('d world, root_error, unit) act" where
  "fold_cut E D ob b fresh =
     (if \<not> fresh then liftS (Inr ())
      else bindS (map_errS RtFold (on_home (fold_update E D (co_fold ob) b))) (\<lambda>f.
        if f = Newer then liftS (Inr ()) else liftS (Inl ListChanged)))"

definition commit_to ::
  "env \<Rightarrow> 'd denylist_ops \<Rightarrow> root_signer \<Rightarrow> commit_obs \<Rightarrow> ('d world, root_error, committed) act" where
  "commit_to E D S ob =
     bindS (liftS (case co_lock_fails ob of Some e \<Rightarrow> Inl (RtLock e) | None \<Rightarrow> Inr ())) (\<lambda>_.
     bindS (\<lambda>w. on_act (again E D (wd_home w)) w) (\<lambda>_.
     bindS (on_act (\<lambda>a. (Inr (), a\<lparr>ac_book := prune (ac_now a) (ac_book a)\<rparr>))) (\<lambda>_.
     bindS (on_act (getS (\<lambda>a. check_bounds (ac_book a) (ac_now a)))) (\<lambda>_.
     bindS (on_act (choose_update S)) (\<lambda>(b, number, fresh).
     bindS (write_beside ob b number) (\<lambda>_.
     bindS (fold_cut E D ob b fresh) (\<lambda>_.
     getS (\<lambda>w. Inr \<lparr>cm_bytes = b, cm_number = number, cm_targets = commit_targets E (wd_act w),
                    cm_until = ac_revoked_until (wd_act w)\<rparr>))))))))"

text \<open>
  A mint and its finish: sign this machine's row, cut it into a list written as \<^verbatim>\<open>devices\<close>, then the
  standing, then the pin. \<open>show_node\<close> is the text of a root's key; the failures are the writes'.
\<close>

record take_obs =
  tk_devices_fails :: "string option"
  tk_badge_fails :: "string option"
  tk_pin_fails :: "string option"

definition fail_or :: "('e \<Rightarrow> root_error) \<Rightarrow> 'e option \<Rightarrow> ('w \<Rightarrow> 'w) \<Rightarrow> ('w, root_error, unit) act" where
  "fail_or f m write w = (case m of Some e \<Rightarrow> (Inl (f e), w) | None \<Rightarrow> (Inr (), write w))"

definition take_standing ::
  "(node_id \<Rightarrow> string) \<Rightarrow> take_obs \<Rightarrow> node_id \<Rightarrow> link \<Rightarrow> ('d world, root_error, unit) act" where
  "take_standing show_node ob root standing =
     bindS (fail_or RtIo (tk_badge_fails ob) (\<lambda>w. w\<lparr>wd_home := (wd_home w)
       \<lparr>h_key_cert := Read (Contents (link_str standing @ [newline]))\<rparr>\<rparr>)) (\<lambda>_.
     fail_or RtIo (tk_pin_fails ob) (\<lambda>w. w\<lparr>wd_home := (wd_home w)
       \<lparr>h_root_pub := Read (Contents (show_node root @ [newline]))\<rparr>\<rparr>))"

definition take_own ::
  "root_signer \<Rightarrow> name \<Rightarrow> (node_id \<Rightarrow> string) \<Rightarrow> take_obs \<Rightarrow> verify_key \<Rightarrow> ('d world, root_error, unit) act" where
  "take_own S suggested show_node ob own =
     bindS (on_act (sign_own S suggested own)) (\<lambda>standing.
     bindS (on_act (getS (\<lambda>a. ok_or Exhausted (checked_add (bk_last (ac_book a)) 1)))) (\<lambda>number.
     bindS (on_act (getS (\<lambda>a. book_update (ac_book a) number (ac_now a)))) (\<lambda>doc.
     bindS (liftS (sign_update S doc)) (\<lambda>b.
     bindS (fail_or RtArtifact (tk_devices_fails ob)
       (\<lambda>w. w\<lparr>wd_home := (wd_home w)\<lparr>h_devices := Bytes b\<rparr>\<rparr>)) (\<lambda>_.
     bindS (on_act (\<lambda>a. (Inr (), a\<lparr>ac_book := (ac_book a)\<lparr>bk_last := number\<rparr>, ac_held := Some (doc, b),
         ac_added := [], ac_renewed := [], ac_due := filter (\<lambda>k. k \<noteq> own) (ac_due a)\<rparr>))) (\<lambda>_ w.
     take_standing show_node ob (ac_key (wd_act w)) standing w))))))"

end
