(* ===== verification/Act_Laws.thy ===== *)
theory Act_Laws
  imports Root_Commit
begin

text \<open>
  What the acts of \<^verbatim>\<open>src/root.rs\<close> keep and do: the records stay well formed through adding, renewing,
  rekeying and revoking; a revoked device is off the list with everything it held; a renewal never
  shortens a standing in force; what a commit offers is what this machine holds.
\<close>

section \<open>Well-formed records\<close>

definition book_ok :: "book \<Rightarrow> bool" where
  "book_ok b \<longleftrightarrow> maps_ok b \<and> rows_ok (bk_rows b) \<and>
     (\<forall>r \<in> set (bk_rows b). \<not> bt_has (bk_revoked_keys b) (mkey r))"

abbreviation act_ok :: "root_act \<Rightarrow> bool" where
  "act_ok a \<equiv> book_ok (ac_book a)"

lemma maps_ok_rows [simp]: "maps_ok (b\<lparr>bk_rows := rs\<rparr>) = maps_ok b" "maps_ok (b\<lparr>bk_last := n\<rparr>) = maps_ok b"
  by (simp_all add: maps_ok_def)

lemma follow_keys_ok:
  assumes "maps_ok b" "rows_ok (bk_rows b)"
  shows "book_ok (snd (follow_keys now b))"
  using assms later_ok [OF follow_keys_later] by (auto simp: book_ok_def rows_ok_filter)

section \<open>A signature changes nothing but the draw\<close>

lemma sign_member_frame: "\<exists>n. snd (sign_member S key til a) = a\<lparr>ac_drawn := n\<rparr>"
proof -
  have "snd (sign_member S key til a) = a \<or> snd (sign_member S key til a) = a\<lparr>ac_drawn := ac_drawn a + 1\<rparr>"
    by (auto simp: sign_member_def Let_def split: sum.splits option.splits prod.splits)
  then show ?thesis
  proof
    assume "snd (sign_member S key til a) = a"
    then show ?thesis by (intro exI [of _ "ac_drawn a"]) simp
  qed blast
qed

lemma sign_member_Inr:
  assumes "sign_member S key til a = (Inr (l, i), a')"
  shows "expires i = til" "\<exists>n. a' = a\<lparr>ac_drawn := n\<rparr>"
proof -
  show "expires i = til"
    using assms by (auto simp: sign_member_def Let_def split: sum.splits option.splits prod.splits)
  show "\<exists>n. a' = a\<lparr>ac_drawn := n\<rparr>" using sign_member_frame [of S key til a] assms by simp
qed

lemma fresh_key_frame: "fresh_key S a = (r, a') \<Longrightarrow> a' = a\<lparr>ac_drawn := ac_drawn a + 1\<rparr>"
  by (simp add: fresh_key_def)

section \<open>Adding a device\<close>

lemma check_add_Inr:
  assumes "check_add (act_records a) key name = Inr ()"
  shows "\<not> bt_has (bk_revoked_keys (ac_book a)) (key_bytes key)"
    "\<forall>r \<in> set (rows a). m_node r \<noteq> key"
    "\<forall>r \<in> set (rows a). m_label r = name \<longrightarrow> rows_ok (rows a) \<longrightarrow>
       Some (m_node r) = ac_own a \<and> bk_last (ac_book a) \<le> MINTED"
    "length (rows a) < MAX_MEMBERS"
proof -
  show "\<not> bt_has (bk_revoked_keys (ac_book a)) (key_bytes key)"
    using assms by (auto simp: check_add_def act_records_def bt_has_def split: option.splits)
  show n: "\<forall>r \<in> set (rows a). m_node r \<noteq> key"
    using assms by (auto simp: check_add_def act_records_def find_None_iff split: option.splits if_splits)
  show "length (rows a) < MAX_MEMBERS"
    using assms by (auto simp: check_add_def act_records_def Let_def split: option.splits if_splits)
  show "\<forall>r \<in> set (rows a). m_label r = name \<longrightarrow> rows_ok (rows a) \<longrightarrow>
       Some (m_node r) = ac_own a \<and> bk_last (ac_book a) \<le> MINTED"
  proof (intro ballI impI)
    fix r assume r: "r \<in> set (rows a)" "m_label r = name" and ok: "rows_ok (rows a)"
    obtain row where row: "find (\<lambda>r. m_label r = name) (rows a) = Some row"
      using r by (cases "find (\<lambda>r. m_label r = name) (rows a)") (auto simp: find_None_iff)
    then have "row \<in> set (rows a)" "m_label row = name" by (auto simp: find_Some_iff)
    then have "row = r" using r ok by (auto simp: rows_ok_def distinct_map inj_on_def)
    then show "Some (m_node r) = ac_own a \<and> bk_last (ac_book a) \<le> MINTED"
      using assms row n by (auto simp: check_add_def act_records_def rc_device_def Let_def
          split: option.splits if_splits)
  qed
qed

text \<open>Moving this machine off a name leaves every key, and every other name.\<close>

lemma move_own_Inr:
  assumes m: "move_own name a = (Inr (), a')" and ok: "rows_ok (rows a)"
  shows "\<exists>rs. a' = set_rows rs a \<and> rows_ok rs \<and> map m_node rs = map m_node (rows a) \<and>
    (\<forall>r \<in> set rs. m_label r \<noteq> name) \<and> length rs = length (rows a)"
proof (cases "position (\<lambda>r. m_label r = name) (rows a)")
  case None
  then have "a' = set_rows (rows a) a" using m by (simp add: move_own_def)
  then show ?thesis using ok None by (intro exI [of _ "rows a"]) (auto simp: position_None)
next
  case (Some i)
  note p = position_Some [OF Some]
  obtain l where l: "fresh_name (label_str name) (\<lambda>l. \<exists>r \<in> set (rows a). m_label r = l) = Inr l"
    and a': "a' = set_rows ((rows a)[i := (rows a ! i)\<lparr>m_label := l\<rparr>]) a"
    using m Some by (auto simp: move_own_def split: sum.splits)
  have f: "valid_label l" "\<forall>r \<in> set (rows a). m_label r \<noteq> l" using fresh_name_Inr [OF l] by auto
  let ?rs = "(rows a)[i := (rows a ! i)\<lparr>m_label := l\<rparr>]"
  have "rows_ok ?rs" using p f ok by (intro rows_ok_rename) auto
  moreover have "map m_node ?rs = map m_node (rows a)" using p by (intro map_update_same) auto
  moreover have "m_label r \<noteq> name" if r: "r \<in> set ?rs" for r
  proof -
    obtain j where j: "j < length (rows a)" "r = ?rs ! j" using r by (auto simp: in_set_conv_nth)
    show ?thesis
    proof (cases "j = i")
      case True
      then show ?thesis using j p f by auto
    next
      case False
      then have "m_label (rows a ! j) \<noteq> m_label (rows a ! i)"
        using ok j(1) p by (auto simp: rows_ok_def distinct_conv_nth)
      then show ?thesis using False j p by auto
    qed
  qed
  ultimately show ?thesis using a' by (intro exI [of _ ?rs]) simp
qed

definition new_row :: "verify_key \<Rightarrow> device_label \<Rightarrow> u64 \<Rightarrow> u64 \<Rightarrow> id \<Rightarrow> link \<Rightarrow> member" where
  "new_row key name til duration i l = \<lparr>m_node = key, m_label = name, m_until = til,
     m_duration = duration, m_invite_until = 0, m_ids = [i], m_standing = l\<rparr>"

lemma sign_standing_adds:
  assumes s: "sign_standing S key name duration a = (Inr l, a')" and ok: "act_ok a"
    and v: "valid_label name"
  shows "act_ok a' \<and> ac_added a' = ac_added a @ [key] \<and>
    bk_revoked_keys (ac_book a') = bk_revoked_keys (ac_book a) \<and> bk_revoked (ac_book a') = bk_revoked (ac_book a) \<and>
    length (rows a') \<le> MAX_MEMBERS \<and>
    (\<exists>rs i. rows a' = rs @ [new_row key name (sat_add (ac_now a) duration) duration i l] \<and>
       map m_node rs = map m_node (rows a) \<and> expires i = sat_add (ac_now a) duration)"
proof -
  obtain b where c: "check_add (act_records a) key name = Inr ()" and b: "move_own name a = (Inr (), b)"
    and s2: "bindS (getS (\<lambda>a. Inr (sat_add (ac_now a) duration))) (\<lambda>til.
     bindS (sign_member S key til) (\<lambda>(standing, i) a.
       (Inr standing, (set_rows (rows a @ [\<lparr>m_node = key, m_label = name, m_until = til,
          m_duration = duration, m_invite_until = 0, m_ids = [i], m_standing = standing\<rparr>]) a)
        \<lparr>ac_added := ac_added a @ [key]\<rparr>))) b = (Inr l, a')"
    using s by (auto simp: sign_standing_def bindS_Inr)
  obtain rs where rs: "b = set_rows rs a" "rows_ok rs" "map m_node rs = map m_node (rows a)"
    "\<forall>r \<in> set rs. m_label r \<noteq> name" "length rs = length (rows a)"
    using move_own_Inr [OF b] ok by (auto simp: book_ok_def)
  obtain i d where d: "sign_member S key (sat_add (ac_now a) duration) b = (Inr (l, i), d)"
    and a': "a' = (set_rows (rows d @ [new_row key name (sat_add (ac_now a) duration) duration i l]) d)
        \<lparr>ac_added := ac_added d @ [key]\<rparr>"
    using s2 rs(1) by (auto simp: bindS_Inr new_row_def)
  obtain n where n: "d = b\<lparr>ac_drawn := n\<rparr>" and i: "expires i = sat_add (ac_now a) duration"
    using sign_member_Inr [OF d] by auto
  note ca = check_add_Inr [OF c]
  have nodes: "m_node ` set rs = m_node ` set (rows a)" using rs(3) by (metis list.set_map)
  have keys: "\<not> bt_has (bk_revoked_keys (ac_book a)) (mkey r)" if r: "r \<in> set rs" for r
  proof -
    obtain q where "q \<in> set (rows a)" "m_node q = m_node r" using r nodes by (metis imageE imageI)
    then show ?thesis using ok by (metis book_ok_def)
  qed
  have "rows_ok (rs @ [new_row key name (sat_add (ac_now a) duration) duration i l])"
    using rs(2,4) v ca(2) nodes by (intro rows_ok_snoc) (auto simp: new_row_def)
  then have "act_ok a'"
    using ok ca(1) keys by (auto simp: book_ok_def a' n rs(1) new_row_def)
  then show ?thesis
    using a' n rs ca(4) i by (intro conjI exI [of _ rs] exI [of _ i]) (simp_all add: rs(1))
qed

section \<open>Renewing\<close>

lemma renew_row_Inr:
  assumes r: "renew_row S i duration a = (Inr r, a')"
  obtains d n l where "expires d = sat_add (ac_now a) duration"
    "a' = (set_rows ((rows a)[i := (rows a ! i)\<lparr>m_ids := live (ac_now a) (m_ids (rows a ! i)) @ [d],
       m_until := sat_add (ac_now a) duration, m_duration := duration, m_standing := l\<rparr>]) a)
       \<lparr>ac_renewed := ac_renewed a @ [m_node (rows a ! i)], ac_drawn := n\<rparr>"
    "r = \<lparr>rw_name = m_label (rows a ! i), rw_key = m_node (rows a ! i),
       rw_until = sat_add (ac_now a) duration, rw_standing = l\<rparr>"
proof -
  obtain l d b where s: "sign_member S (m_node (rows a ! i)) (sat_add (ac_now a) duration) a = (Inr (l, d), b)"
    and a': "a' = (set_rows ((rows b)[i := (rows b ! i)\<lparr>m_ids := live (ac_now b) (m_ids (rows b ! i)) @ [d],
       m_until := sat_add (ac_now a) duration, m_duration := duration, m_standing := l\<rparr>]) b)
       \<lparr>ac_renewed := ac_renewed b @ [m_node (rows a ! i)]\<rparr>"
    and r': "r = \<lparr>rw_name = m_label (rows b ! i), rw_key = m_node (rows a ! i),
       rw_until = sat_add (ac_now a) duration, rw_standing = l\<rparr>"
    using r by (auto simp: renew_row_def bindS_Inr Let_def)
  obtain n where n: "b = a\<lparr>ac_drawn := n\<rparr>" and d: "expires d = sat_add (ac_now a) duration"
    using sign_member_Inr [OF s] by auto
  show thesis by (rule that [of d n l]) (simp_all add: d a' r' n)
qed

lemma renew_row_ok:
  assumes r: "renew_row S i duration a = (Inr r, a')" and ok: "act_ok a" and i: "i < length (rows a)"
  shows "act_ok a'" "map m_node (rows a') = map m_node (rows a)" "map m_label (rows a') = map m_label (rows a)"
proof -
  obtain d n l where a': "a' = (set_rows ((rows a)[i := (rows a ! i)
       \<lparr>m_ids := live (ac_now a) (m_ids (rows a ! i)) @ [d],
       m_until := sat_add (ac_now a) duration, m_duration := duration, m_standing := l\<rparr>]) a)
       \<lparr>ac_renewed := ac_renewed a @ [m_node (rows a ! i)], ac_drawn := n\<rparr>"
    by (rule renew_row_Inr [OF r])
  define y where "y = (rows a ! i)\<lparr>m_ids := live (ac_now a) (m_ids (rows a ! i)) @ [d],
       m_until := sat_add (ac_now a) duration, m_duration := duration, m_standing := l\<rparr>"
  have y: "m_node y = m_node (rows a ! i)" "m_label y = m_label (rows a ! i)" by (simp_all add: y_def)
  have rs: "rows a' = (rows a)[i := y]" "bk_revoked_keys (ac_book a') = bk_revoked_keys (ac_book a)"
    "maps_ok (ac_book a') = maps_ok (ac_book a)"
    by (simp_all add: a' y_def)
  show "map m_node (rows a') = map m_node (rows a)" "map m_label (rows a') = map m_label (rows a)"
    using i y by (simp_all add: rs map_update_same)
  have "rows_ok (rows a')" unfolding rs using ok i y by (intro rows_ok_update) (auto simp: book_ok_def)
  moreover have "\<not> bt_has (bk_revoked_keys (ac_book a)) (mkey x)" if "x \<in> set (rows a')" for x
    using that ok i y set_update_subset_insert [of "rows a" i y] unfolding rs book_ok_def
    by (metis (no_types, lifting) insertE nth_mem subsetD)
  ultimately show "act_ok a'" using ok rs by (simp add: book_ok_def)
qed

lemma renew_from_ok:
  "renew_from S duration l names a = (Inr l', a') \<Longrightarrow> act_ok a \<Longrightarrow>
   act_ok a' \<and> map m_node (rows a') = map m_node (rows a) \<and> map m_label (rows a') = map m_label (rows a)"
proof (induction S duration l names a rule: renew_from.induct)
  case (2 S duration l name names a)
  obtain i where p: "position (\<lambda>r. m_label r = name) (rows a) = Some i"
    using "2.prems"(1) by (cases "position (\<lambda>r. m_label r = name) (rows a)") auto
  define d where "d = (case duration of None \<Rightarrow> own_duration (rows a ! i) | Some d \<Rightarrow> d)"
  show ?case
  proof (cases "renewal_skips (ac_book a) (rows a ! i) d (ac_now a)")
    case True
    then show ?thesis using 2(1) [OF p refl refl] 2(3,4) p by (simp add: Let_def d_def)
  next
    case False
    define b where "b = a\<lparr>ac_due := filter (\<lambda>k. k \<noteq> m_node (rows a ! i)) (ac_due a)\<rparr>"
    obtain r c where c: "renew_row S i d b = (Inr r, c)"
      "renew_from S duration (l\<lparr>rl_renewed := rl_renewed l @ [r]\<rparr>) names c = (Inr l', a')"
      using "2.prems"(1) p False by (auto simp: Let_def d_def b_def bindS_Inr)
    have "act_ok b" "i < length (rows b)" "rows b = rows a"
      using "2.prems"(2) position_Some [OF p] by (auto simp: b_def)
    then show ?thesis using renew_row_ok [OF c(1)] 2(2) [OF p refl refl _ c(2)] False by (simp add: d_def)
  qed
qed simp

section \<open>Revoking\<close>

lemma follow_row_revokes:
  assumes "i \<in> set (live now (m_ids row))"
  shows "bt_has (bk_revoked (follow_row now b row)) (idb i)"
proof -
  have "bt_has (bk_revoked (foldl (\<lambda>b i. snd (revoke_id i b)) b is)) k \<longleftrightarrow>
      k \<in> idb ` set is \<or> bt_has (bk_revoked b) k" for b "is" k
    by (induction "is" arbitrary: b) auto
  then show ?thesis using assms by (simp add: follow_row_def Let_def)
qed

lemma follow_keys_revokes:
  assumes m: "maps_ok b" and r: "row \<in> set (bk_rows b)" "bt_has (bk_revoked_keys b) (mkey row)"
    and i: "i \<in> set (live now (m_ids row))"
  shows "bt_has (bk_revoked (snd (follow_keys now b))) (idb i)"
proof -
  have "bt_has (bk_revoked (foldl (follow_row now) c rs)) (idb i)" if "maps_ok c" "row \<in> set rs" for c rs
    using that
  proof (induction rs arbitrary: c)
    case (Cons x xs)
    have ok: "maps_ok (follow_row now c x)" using later_ok [OF follow_row_later Cons.prems(1)] .
    show ?case
    proof (cases "row \<in> set xs")
      case True
      then show ?thesis using Cons.IH [OF ok] by simp
    next
      case False
      then have "bt_has (bk_revoked (follow_row now c x)) (idb i)"
        using Cons.prems(2) i by (auto intro: follow_row_revokes)
      moreover have "later (follow_row now c x) (foldl (follow_row now) (follow_row now c x) xs)"
        by (rule foldl_rel [OF later_order follow_row_later])
      ultimately show ?thesis using later_has(1) [OF ok] by simp
    qed
  qed simp
  then show ?thesis using m r by (simp add: follow_keys_def Let_def)
qed

text \<open>The row a revocation takes off the list, and what else it leaves.\<close>

lemma revoke_device_Inr:
  assumes r: "revoke_device name key listed a = (Inr (), a')" and ok: "act_ok a"
  shows "act_ok a'" "rows a' = filter (\<lambda>r. m_node r \<noteq> key) (rows a)"
    "later (ac_book a) (ac_book a')"
    "row \<in> set (rows a) \<Longrightarrow> m_node row = key \<Longrightarrow> bt_has (bk_revoked_keys (ac_book a')) (key_bytes key) \<and>
       (\<forall>i \<in> set (live (ac_now a) (m_ids row)). bt_has (bk_revoked (ac_book a')) (idb i))"
    "\<not> (\<exists>r \<in> set (rows a). m_label r = name \<and> m_node r \<notin> set (listed @ [key]))"
    "ac_revoked a' = ac_revoked a @ [(name, listed @ [key])]"
proof -
  have free: "\<forall>r \<in> set (rows a). \<not> bt_has (bk_revoked_keys (ac_book a)) (mkey r)" and m: "maps_ok (ac_book a)"
    and rw: "rows_ok (rows a)" using ok by (auto simp: book_ok_def)
  show n: "\<not> (\<exists>r \<in> set (rows a). m_label r = name \<and> m_node r \<notin> set (listed @ [key]))"
    using r by (auto simp: revoke_device_def Let_def split: if_splits)
  have "act_ok a' \<and> rows a' = filter (\<lambda>r. m_node r \<noteq> key) (rows a) \<and> later (ac_book a) (ac_book a') \<and>
    (row \<in> set (rows a) \<longrightarrow> m_node row = key \<longrightarrow> bt_has (bk_revoked_keys (ac_book a')) (key_bytes key) \<and>
       (\<forall>i \<in> set (live (ac_now a) (m_ids row)). bt_has (bk_revoked (ac_book a')) (idb i))) \<and>
    ac_revoked a' = ac_revoked a @ [(name, listed @ [key])]"
  proof (cases "find (\<lambda>r. m_node r = key) (rows a)")
    case None
    then have f: "\<forall>r \<in> set (rows a). m_node r \<noteq> key" by (auto simp: find_None_iff)
    then have "ac_book a' = ac_book a \<and> ac_revoked a' = ac_revoked a @ [(name, listed @ [key])]"
      using r None by (auto simp: revoke_device_def Let_def split: option.splits if_splits)
    then show ?thesis using ok f by (auto simp: filter_id_conv)
  next
    case (Some x)
    then have x: "x \<in> set (rows a)" "m_node x = key" by (auto simp: find_Some_iff)
    then have nk: "\<not> bt_has (bk_revoked_keys (ac_book a)) (key_bytes key)" using free by auto
    define b where "b = snd (revoke_key \<lparr>rd_node = key, rd_label = m_label x\<rparr> (ac_book a))"
    have a': "ac_book a' = snd (follow_keys (ac_now a) b)"
      "ac_revoked a' = ac_revoked a @ [(name, listed @ [key])]"
      using r n Some nk by (auto simp: revoke_device_def Let_def b_def split: if_splits)
    have b: "maps_ok b" "bk_rows b = rows a" using later_ok [OF revoke_key_later m] by (simp_all add: b_def)
    have has: "bt_has (bk_revoked_keys b) k \<longleftrightarrow> k = key_bytes key \<or> bt_has (bk_revoked_keys (ac_book a)) k" for k
      by (simp add: b_def)
    have rows: "rows a' = filter (\<lambda>r. m_node r \<noteq> key) (rows a)"
      using free by (auto simp: a' b has verify_key.expand intro!: filter_cong)
    have "later (ac_book a) (ac_book a')"
      unfolding a' b_def by (rule later_trans [OF revoke_key_later follow_keys_later])
    moreover have "act_ok a'" unfolding a' using b rw by (intro follow_keys_ok) auto
    moreover have "bt_has (bk_revoked_keys (ac_book a')) (key_bytes key)" by (simp add: a' has)
    moreover have "bt_has (bk_revoked (ac_book a')) (idb i)"
      if "row \<in> set (rows a)" "m_node row = key" "i \<in> set (live (ac_now a) (m_ids row))" for i
      unfolding a' using that b has by (intro follow_keys_revokes) auto
    ultimately show ?thesis using rows a'(2) by blast
  qed
  then show "act_ok a'" "rows a' = filter (\<lambda>r. m_node r \<noteq> key) (rows a)"
    "later (ac_book a) (ac_book a')"
    "row \<in> set (rows a) \<Longrightarrow> m_node row = key \<Longrightarrow> bt_has (bk_revoked_keys (ac_book a')) (key_bytes key) \<and>
       (\<forall>i \<in> set (live (ac_now a) (m_ids row)). bt_has (bk_revoked (ac_book a')) (idb i))"
    "ac_revoked a' = ac_revoked a @ [(name, listed @ [key])]" by blast+
qed

section \<open>Bringing an act forward, and again before the cut\<close>

lemma held_docs:
  assumes "links_canonical (en_nauthy E)"
  shows "\<forall>d. map_option fst (read_held E f1 pin) = Some d \<or> map_option fst (read_held E f2 pin) = Some d \<longrightarrow>
    doc_ok (en_nauthy E) d"
  using read_held_doc(1) [OF assms] by (auto simp: map_option_case split: option.splits)

lemma forward_book_ok:
  assumes "forward D H held fork now b = Inr ((b', br), behind)" "book_ok b"
    "\<forall>d. held = Some d \<or> fork = Some d \<longrightarrow> doc_ok N d"
  shows "book_ok b'"
proof -
  have v: "\<forall>d. held = Some d \<or> fork = Some d \<longrightarrow> (\<forall>m \<in> set (members d). valid_label (m_label m))"
    using assms(3) doc_ok_labels by blast
  show ?thesis
    using forward_laws(1,2,3) [OF assms(1) v] assms(2) later_ok unfolding book_ok_def by blast
qed

lemma act_bring_forward_Inr:
  assumes f: "act_bring_forward E D H a = (Inr x, a')" and c: "links_canonical (en_nauthy E)"
  obtains pin b where "root_pin E (ac_key a) = Inr pin"
    "a' = a\<lparr>ac_held := read_held E (h_devices H) pin,
       ac_fork := map_option snd (read_held E (h_conflict H) pin), ac_book := b\<rparr>"
    "act_ok a \<longrightarrow> book_ok b"
proof -
  obtain pin where p: "root_pin E (ac_key a) = Inr pin"
    using f by (auto simp: act_bring_forward_def bindS_Inr)
  let ?held = "map_option fst (read_held E (h_devices H) pin)"
  let ?fork = "map_option fst (read_held E (h_conflict H) pin)"
  obtain b br behind where w: "forward D H ?held ?fork (ac_now a) (ac_book a) = Inr ((b, br), behind)"
    and a': "a' = a\<lparr>ac_held := read_held E (h_devices H) pin,
       ac_fork := map_option snd (read_held E (h_conflict H) pin), ac_book := b\<rparr>"
    using f p by (auto simp: act_bring_forward_def bindS_def Let_def split: sum.splits)
  show thesis
    by (rule that [OF p a']) (use forward_book_ok [OF w _ held_docs [OF c]] in blast)
qed

text \<open>The update an act holds is one its root signed.\<close>

definition held_verified :: "env \<Rightarrow> root_act \<Rightarrow> bool" where
  "held_verified E a \<longleftrightarrow> (\<forall>pin d b. root_pin E (ac_key a) = Inr pin \<and> ac_held a = Some (d, b) \<longrightarrow>
     roster_verify (en_nauthy E) b pin = Inr d)"

lemma again_Inr:
  assumes g: "again E D H a = (Inr (), a')" and c: "links_canonical (en_nauthy E)"
  obtains pin where "root_pin E (ac_key a) = Inr pin"
    "map_option snd (ac_held a') = map_option snd (read_held E (h_devices H) pin)"
    "act_ok a \<Longrightarrow> act_ok a'" "ac_added a' = ac_added a" "ac_own a' = ac_own a" "ac_copy a' = ac_copy a"
    "ac_key a' = ac_key a"
    "\<forall>k \<in> set (ac_added a @ ac_replaced a @ ac_renewed a).
       bt_has (bk_revoked_keys (ac_book a')) (key_bytes k) \<longrightarrow> bt_has (bk_revoked_keys (ac_book a)) (key_bytes k)"
    "ac_book a' = ac_book a \<or> (\<forall>(name, seen) \<in> set (ac_revoked a).
       \<not> (\<exists>r \<in> set (rows a'). m_label r = name \<and> m_node r \<notin> set seen))"
    "map_option snd (read_held E (h_devices H) pin) \<noteq> map_option snd (ac_held a) \<Longrightarrow>
       \<not> listed_added a True (read_held E (h_devices H) pin)"
    "held_verified E a \<Longrightarrow> held_verified E a'"
proof -
  obtain pin where p: "root_pin E (ac_key a) = Inr pin" using g by (auto simp: again_def bindS_Inr)
  let ?held = "read_held E (h_devices H) pin"
  let ?fork = "read_held E (h_conflict H) pin"
  let ?hm = "map_option snd ?held \<noteq> map_option snd (ac_held a)"
  let ?fm = "map_option snd ?fork \<noteq> ac_fork a"
  show thesis
  proof (cases "\<not> ?hm \<and> \<not> ?fm")
    case True
    then have "a' = a" using g p by (simp add: again_def bindS_def)
    then show thesis using True by (intro that [OF p]) auto
  next
    case False
    obtain x e where e: "act_bring_forward E D H a = (Inr x, e)"
      and rest: "\<forall>n s. find (\<lambda>(name, seen). \<exists>r \<in> set (rows e). m_label r = name \<and> m_node r \<notin> set seen)
          (ac_revoked e) \<noteq> Some (n, s)"
        "\<not> (listed_added a ?hm ?held \<or> listed_added a ?fm ?fork)"
        "\<not> (\<exists>k \<in> set (ac_added e @ ac_replaced e @ ac_renewed e). \<not> bt_has (bk_revoked_keys (ac_book a)) (key_bytes k) \<and>
           bt_has (bk_revoked_keys (ac_book e)) (key_bytes k))"
      and a': "a' = e"
      using g p False
      by (auto simp: again_def bindS_Inr Let_def bindS_def [of "getS f" for f] split: option.splits if_splits)
    obtain pin2 b where q: "root_pin E (ac_key a) = Inr pin2"
      "e = a\<lparr>ac_held := read_held E (h_devices H) pin2,
         ac_fork := map_option snd (read_held E (h_conflict H) pin2), ac_book := b\<rparr>"
      "act_ok a \<longrightarrow> book_ok b"
      by (rule act_bring_forward_Inr [OF e c])
    have eb: "e = a\<lparr>ac_held := ?held, ac_fork := map_option snd ?fork, ac_book := b\<rparr>"
      using q(1,2) p by simp
    have none: "find (\<lambda>(name, seen). \<exists>r \<in> set (rows e). m_label r = name \<and> m_node r \<notin> set seen)
        (ac_revoked e) = None" (is "?f = None")
    proof (cases ?f)
      case (Some q)
      then show ?thesis using rest(1) by (cases q) blast
    qed
    show thesis
    proof (rule that [OF p])
      show "held_verified E a'"
        using read_held_doc(3) [OF c] p by (auto simp: held_verified_def a' eb)
      show "map_option snd ?held \<noteq> map_option snd (ac_held a) \<Longrightarrow> \<not> listed_added a True ?held"
        using rest(2) by (simp add: listed_added_def)
      show "ac_book a' = ac_book a \<or> (\<forall>(name, seen) \<in> set (ac_revoked a).
         \<not> (\<exists>r \<in> set (rows a'). m_label r = name \<and> m_node r \<notin> set seen))"
        using none a' eb by (auto simp: find_None_iff)
      show "\<forall>k \<in> set (ac_added a @ ac_replaced a @ ac_renewed a).
         bt_has (bk_revoked_keys (ac_book a')) (key_bytes k) \<longrightarrow> bt_has (bk_revoked_keys (ac_book a)) (key_bytes k)"
        using rest(3) a' eb by auto
    qed (use a' eb q(3) in simp_all)
  qed
qed

section \<open>The commit\<close>

lemma prune_ok: "book_ok b \<Longrightarrow> book_ok (prune now b)"
proof -
  assume b: "book_ok b"
  have k: "keyed idb (bt_retain P m)" if "keyed idb m" for P and m :: "(bytes, id) btree"
    using that by (auto simp: keyed_def bt_retain_def)
  have "rows_ok (map (\<lambda>r. r\<lparr>m_ids := live now (m_ids r)\<rparr>) (bk_rows b))"
    using b by (auto simp: book_ok_def rows_ok_def comp_def)
  then show ?thesis
    using b k by (auto simp: book_ok_def prune_def maps_ok_def bt_retain_ok)
qed

lemma cut_update_Inr:
  assumes "cut_update S a = (Inr (b, number, fresh), a')"
  shows "fresh" "checked_add (bk_last (ac_book a)) 1 = Some number"
    "a' = a\<lparr>ac_book := (ac_book a)\<lparr>bk_last := number\<rparr>\<rparr>"
    "\<exists>d. book_update (ac_book a) number (ac_now a) = Inr d \<and> b = rs_document S (canonical_bytes d)"
proof -
  have *: "fresh \<and> checked_add (bk_last (ac_book a)) 1 = Some number \<and>
    a' = a\<lparr>ac_book := (ac_book a)\<lparr>bk_last := number\<rparr>\<rparr> \<and>
    (\<exists>d. book_update (ac_book a) number (ac_now a) = Inr d \<and> b = rs_document S (canonical_bytes d))"
    using assms by (auto simp: cut_update_def bindS_Inr ok_or_Inr_iff sign_update_def bindR_Inr_iff)
  then show "fresh" "checked_add (bk_last (ac_book a)) 1 = Some number"
    "a' = a\<lparr>ac_book := (ac_book a)\<lparr>bk_last := number\<rparr>\<rparr>"
    "\<exists>d. book_update (ac_book a) number (ac_now a) = Inr d \<and> b = rs_document S (canonical_bytes d)" by blast+
qed

lemma choose_update_Inr:
  assumes c: "choose_update S a = (Inr (b, number, fresh), a')"
  shows "\<not> fresh \<Longrightarrow> \<exists>d. ac_held a = Some (d, b) \<and> number = epoch d \<and> \<not> lacks (ac_book a) d (ac_now a)"
    "fresh \<Longrightarrow> checked_add (bk_last (ac_book a)) 1 = Some number \<and>
       (\<exists>d. book_update (ac_book a) number (ac_now a) = Inr d \<and> b = rs_document S (canonical_bytes d))"
    "\<exists>n. a' = a\<lparr>ac_held := None, ac_book := (ac_book a)\<lparr>bk_last := n\<rparr>\<rparr>"
proof -
  let ?a = "a\<lparr>ac_held := None\<rparr>"
  have "(\<not> fresh \<and> a' = ?a \<and> (\<exists>d. ac_held a = Some (d, b) \<and> number = epoch d \<and> \<not> lacks (ac_book a) d (ac_now a))) \<or>
      cut_update S ?a = (Inr (b, number, fresh), a')"
    using c by (auto simp: choose_update_def Let_def split: option.splits if_splits)
  then have "(\<not> fresh \<longrightarrow> (\<exists>d. ac_held a = Some (d, b) \<and> number = epoch d \<and> \<not> lacks (ac_book a) d (ac_now a))) \<and>
    (fresh \<longrightarrow> checked_add (bk_last (ac_book a)) 1 = Some number \<and>
       (\<exists>d. book_update (ac_book a) number (ac_now a) = Inr d \<and> b = rs_document S (canonical_bytes d))) \<and>
    (\<exists>n. a' = a\<lparr>ac_held := None, ac_book := (ac_book a)\<lparr>bk_last := n\<rparr>\<rparr>)"
  proof
    assume "\<not> fresh \<and> a' = ?a \<and> (\<exists>d. ac_held a = Some (d, b) \<and> number = epoch d \<and> \<not> lacks (ac_book a) d (ac_now a))"
    then show ?thesis by (auto intro!: exI [of _ "bk_last (ac_book a)"])
  next
    assume u: "cut_update S ?a = (Inr (b, number, fresh), a')"
    show ?thesis using cut_update_Inr [OF u] by auto
  qed
  then show "\<not> fresh \<Longrightarrow> \<exists>d. ac_held a = Some (d, b) \<and> number = epoch d \<and> \<not> lacks (ac_book a) d (ac_now a)"
    "fresh \<Longrightarrow> checked_add (bk_last (ac_book a)) 1 = Some number \<and>
       (\<exists>d. book_update (ac_book a) number (ac_now a) = Inr d \<and> b = rs_document S (canonical_bytes d))"
    "\<exists>n. a' = a\<lparr>ac_held := None, ac_book := (ac_book a)\<lparr>bk_last := n\<rparr>\<rparr>" by auto
qed

lemma on_act_Inr: "on_act m w = (Inr x, w') \<longleftrightarrow> (\<exists>a. m (wd_act w) = (Inr x, a) \<and> w' = w\<lparr>wd_act := a\<rparr>)"
  by (auto simp: on_act_def split: prod.splits)

text \<open>The steps of a commit that returned, in order.\<close>

lemma commit_Inr:
  assumes "commit_to E D S ob w = (Inr c, w')"
  obtains a1 a3 fresh w2 where "again E D (wd_home w) (wd_act w) = (Inr (), a1)"
    "check_bounds (prune (ac_now a1) (ac_book a1)) (ac_now a1) = Inr ()"
    "choose_update S (a1\<lparr>ac_book := prune (ac_now a1) (ac_book a1)\<rparr>) = (Inr (cm_bytes c, cm_number c, fresh), a3)"
    "write_beside ob (cm_bytes c) (cm_number c) (w\<lparr>wd_act := a3\<rparr>) = (Inr (), w2)"
    "fold_cut E D ob (cm_bytes c) fresh w2 = (Inr (), w')"
    "cm_targets c = commit_targets E (wd_act w')" "cm_until c = ac_revoked_until (wd_act w')"
  using assms
  by (auto simp: commit_to_def bindS_Inr on_act_Inr intro: that)

lemma write_beside_frame:
  "write_beside ob b n w = (r, w2) \<Longrightarrow> wd_act w2 = wd_act w \<and> wd_home w2 = wd_home w"
  by (auto simp: write_beside_def split: if_splits option.splits)

lemma fold_cut_Inr:
  assumes "fold_cut E D ob b fresh w = (Inr (), w')"
  shows "wd_act w' = wd_act w" "\<not> fresh \<Longrightarrow> w' = w"
    "fresh \<Longrightarrow> fold_update E D (co_fold ob) b (wd_home w) = (Inr Newer, wd_home w')"
proof -
  have "wd_act w' = wd_act w \<and> (\<not> fresh \<longrightarrow> w' = w) \<and>
    (fresh \<longrightarrow> fold_update E D (co_fold ob) b (wd_home w) = (Inr Newer, wd_home w'))"
    using assms
    by (auto simp: fold_cut_def bindS_Inr map_errS_def on_home_def liftS_def map_err_Inr_iff
        split: if_splits prod.splits)
  then show "wd_act w' = wd_act w" "\<not> fresh \<Longrightarrow> w' = w"
    "fresh \<Longrightarrow> fold_update E D (co_fold ob) b (wd_home w) = (Inr Newer, wd_home w')" by blast+
qed

section \<open>Properties\<close>

text \<open>An act of the example root, on the machine whose key is 3.\<close>

definition example_signer :: root_signer where
  "example_signer = \<lparr>rs_identity = Inr (),
     rs_standing = (\<lambda>n k t. Inr (Some (RevocationId [of_nat n]), Inr (Link ''abc''))),
     rs_document = (\<lambda>b. replicate 96 7 @ b), rs_fresh = (\<lambda>n. Inr ([], example_key (of_nat n + 20)))\<rparr>"

definition example_act :: root_act where
  "example_act = act_new 1000000000000000 (example_node 7) False (Some example_list) (Some (example_key 3))"

lemma example_book_ok:
  "doc_ok example_nauthy d \<Longrightarrow> \<forall>m \<in> set (members d). mkey m \<notin> rdb ` set (revoked_devices d) \<Longrightarrow>
   book_ok (book_of (Some d) own)"
  using book_of_laws(1,2) [of "Some d" example_nauthy own]
  by (auto simp: book_ok_def book_of_def bt_of_has)

lemma example_act_ok: "act_ok example_act"
  using example_book_ok [OF example_list_ok] by (simp add: example_act_def act_new_def example_list_def)

lemma example_act_rows: "rows example_act = [example_own]" "ac_now example_act = 1000000"
  by (simp_all add: example_act_def act_new_def book_of_def example_list_def unix_now_def since_epoch_def
      NANOS_def)

lemma example_signs: "\<exists>a. sign_standing example_signer (example_key 4) (DeviceLabel ''phone'') 90 example_act =
  (Inr (Link ''abc''), a)"
  by (simp add: sign_standing_def bindS_def example_act_def act_new_def act_records_def check_add_def rc_device_def
      book_of_def example_list_def example_own_def example_member_def bt_get_def bt_of_def example_key_def
      MAX_MEMBERS_def move_own_def sign_member_def example_signer_def epoch_plus_def systime_ok_def sat_add_def
      unix_now_def since_epoch_def NANOS_def)

lemma example_renews: "\<exists>l a. renew example_signer [DeviceLabel ''laptop''] (Some 600) example_act = (Inr l, a)"
  by (simp add: renew_def bindS_def example_act_def act_new_def
      book_of_def example_list_def example_own_def example_member_def bt_get_def bt_of_def example_key_def
      MAX_IDS_def renewal_skips_def live_ids_def live_def Let_def renew_row_def sign_member_def example_signer_def
      epoch_plus_def systime_ok_def sat_add_def unix_now_def since_epoch_def NANOS_def root_consts)

lemma example_revokes: "\<exists>a. revoke_device (DeviceLabel ''laptop'') (example_key 3) [example_key 3] example_act =
  (Inr (), a)"
  by (simp add: revoke_device_def example_act_def act_new_def book_of_def example_list_def example_own_def
      example_member_def bt_has_def bt_get_def bt_of_def example_key_def unexpired_after_def live_def bt_values_def
      MAX_REVOKED_def MAX_REVOKED_KEYS_def)

text \<open>
  Adding a device. A standing signed for a new device lists it last, under its key, its name and the
  end its duration gives, and leaves every other device listed under its key; the key was not revoked and
  not listed, the records stay well formed and within the number of devices of one update, and no
  revocation changes.
\<close>
theorem added_device_listed:
  assumes "sign_standing S key name duration a = (Inr l, a')" "act_ok a" "valid_label name"
  shows "act_ok a' \<and> length (rows a') \<le> MAX_MEMBERS \<and>
    (\<exists>rs i. rows a' = rs @ [new_row key name (sat_add (ac_now a) duration) duration i l] \<and>
       map m_node rs = map m_node (rows a) \<and> expires i = sat_add (ac_now a) duration) \<and>
    key \<notin> m_node ` set (rows a) \<and> \<not> bt_has (bk_revoked_keys (ac_book a)) (key_bytes key) \<and>
    bk_revoked_keys (ac_book a') = bk_revoked_keys (ac_book a) \<and> bk_revoked (ac_book a') = bk_revoked (ac_book a)"
proof -
  have "check_add (act_records a) key name = Inr ()"
    using assms(1) by (auto simp: sign_standing_def bindS_Inr)
  then show ?thesis
    using sign_standing_adds [OF assms] check_add_Inr(1,2) [of a key name] by auto
qed

theorem added_device_listed_witness:
  "\<exists>a. sign_standing example_signer (example_key 4) (DeviceLabel ''phone'') 90 example_act = (Inr (Link ''abc''), a) \<and>
     act_ok a"
proof -
  have "valid_label (DeviceLabel ''phone'')" by code_simp
  then show ?thesis using added_device_listed [OF _ example_act_ok] example_signs by blast
qed

text \<open>
  C12: A revoked device is gone. A revocation that returns takes exactly the device's key off the list,
  and if it was listed its key and every id it holds that has not ended are revoked; nothing revoked
  before is lost, the records stay well formed, and no device is left listed under the name with a key
  the caller did not name.
\<close>
theorem revoked_device_gone:
  assumes "revoke_device name key listed a = (Inr (), a')" "act_ok a"
  shows "act_ok a' \<and> rows a' = filter (\<lambda>r. m_node r \<noteq> key) (rows a) \<and> keeps (ac_book a) (ac_book a') \<and>
    (\<forall>row \<in> set (rows a). m_node row = key \<longrightarrow> bt_has (bk_revoked_keys (ac_book a')) (key_bytes key) \<and>
       (\<forall>i \<in> set (live (ac_now a) (m_ids row)). bt_has (bk_revoked (ac_book a')) (idb i))) \<and>
    \<not> (\<exists>r \<in> set (rows a'). m_label r = name \<and> m_node r \<notin> set listed)"
proof -
  have m: "maps_ok (ac_book a)" using assms(2) by (simp add: book_ok_def)
  have k: "keeps (ac_book a) (ac_book a')" using revoke_device_Inr(3) [OF assms] m by (simp add: later_def)
  have n: "\<not> (\<exists>r \<in> set (rows a'). m_label r = name \<and> m_node r \<notin> set listed)"
    using revoke_device_Inr(2,5) [OF assms] by auto
  show ?thesis using revoke_device_Inr(1,2) [OF assms] revoke_device_Inr(4) [OF assms] k n by blast
qed

theorem revoked_device_gone_witness:
  "\<exists>a. revoke_device (DeviceLabel ''laptop'') (example_key 3) [example_key 3] example_act = (Inr (), a) \<and>
     bt_has (bk_revoked_keys (ac_book a)) (key_bytes (example_key 3))"
proof -
  obtain a where a: "revoke_device (DeviceLabel ''laptop'') (example_key 3) [example_key 3] example_act = (Inr (), a)"
    using example_revokes by blast
  have "\<exists>row \<in> set (rows example_act). m_node row = example_key 3"
    by (simp add: example_act_rows example_own_def)
  then show ?thesis using revoked_device_gone [OF a example_act_ok] a by blast
qed

text \<open>
  A renewal by name either leaves the device's row as it is, and says so, or gives it a standing from
  now: the row keeps its key and name, gets the new end and keeps at most four standings in force; a
  standing that has not ended and is not revoked is only ever replaced by one that ends later. Every other
  row stays.
\<close>
theorem renewal_never_shortens:
  assumes "renew S [name] duration a = (Inr l, a')"
    and "position (\<lambda>r. m_label r = name) (rows a) = Some i"
  shows "(rows a' = rows a \<and> rl_unchanged l = [(name, m_until (rows a ! i), m_standing (rows a ! i))]) \<or>
    (\<exists>row til. rows a' = (rows a)[i := row] \<and> m_node row = m_node (rows a ! i) \<and> m_label row = name \<and>
       m_until row = til \<and> length (live (ac_now a) (m_ids row)) \<le> MAX_IDS \<and>
       (ac_now a < m_until (rows a ! i) \<and>
        \<not> (\<exists>d. max_by_key expires (m_ids (rows a ! i)) = Some d \<and> bt_has (bk_revoked (ac_book a)) (idb d))
        \<longrightarrow> m_until (rows a ! i) < til))"
proof -
  define row where "row = rows a ! i"
  define d where "d = (case duration of None \<Rightarrow> own_duration row | Some d \<Rightarrow> d)"
  have nm: "m_label row = name" using position_Some [OF assms(2)] by (simp add: row_def)
  show ?thesis
  proof (cases "renewal_skips (ac_book a) row d (ac_now a)")
    case True
    then have "rows a' = rows a \<and> rl_unchanged l = [(name, m_until row, m_standing row)]"
      using assms nm unfolding d_def row_def by (auto simp: renew_def Let_def)
    then show ?thesis by (simp add: row_def)
  next
    case False
    define b where "b = a\<lparr>ac_due := filter (\<lambda>k. k \<noteq> m_node row) (ac_due a)\<rparr>"
    obtain r where r: "renew_row S i d b = (Inr r, a')"
      using assms False unfolding b_def d_def row_def by (auto simp: renew_def Let_def bindS_Inr)
    obtain e n s where a': "a' = (set_rows ((rows b)[i := (rows b ! i)\<lparr>m_ids := live (ac_now b) (m_ids (rows b ! i)) @ [e],
       m_until := sat_add (ac_now b) d, m_duration := d, m_standing := s\<rparr>]) b)
       \<lparr>ac_renewed := ac_renewed b @ [m_node (rows b ! i)], ac_drawn := n\<rparr>"
      by (rule renew_row_Inr [OF r])
    define new where "new = row\<lparr>m_ids := live (ac_now a) (m_ids row) @ [e], m_until := sat_add (ac_now a) d,
       m_duration := d, m_standing := s\<rparr>"
    have rs: "rows a' = (rows a)[i := new]" by (simp add: a' b_def new_def row_def)
    have "live_ids row (ac_now a) < MAX_IDS" using False by (simp add: renewal_skips_def Let_def)
    then have "length (live (ac_now a) (m_ids new)) \<le> MAX_IDS"
      by (simp add: new_def live_ids_def) (simp add: live_def)
    moreover have "m_until row < sat_add (ac_now a) d" if "ac_now a < m_until row"
      "\<not> (\<exists>d. max_by_key expires (m_ids row) = Some d \<and> bt_has (bk_revoked (ac_book a)) (idb d))"
      using False that by (auto simp: renewal_skips_def Let_def split: option.splits)
    ultimately show ?thesis
      using rs nm by (intro disjI2 exI [of _ new] exI [of _ "sat_add (ac_now a) d"]) (simp add: new_def row_def)
  qed
qed

theorem renewal_never_shortens_witness:
  "\<exists>l a. renew example_signer [DeviceLabel ''laptop''] (Some 600) example_act = (Inr l, a) \<and>
     m_label (rows a ! 0) = DeviceLabel ''laptop''"
proof -
  obtain l a where r: "renew example_signer [DeviceLabel ''laptop''] (Some 600) example_act = (Inr l, a)"
    using example_renews by blast
  have p: "position (\<lambda>r. m_label r = DeviceLabel ''laptop'') (rows example_act) = Some 0"
    by (simp add: example_act_rows example_own_def example_member_def)
  have "m_label (rows a ! 0) = DeviceLabel ''laptop''"
    using renewal_never_shortens [OF r p] by (auto simp: example_act_rows example_own_def example_member_def)
  then show ?thesis using r by blast
qed

section \<open>What a commit leaves\<close>

lemma canonical_epoch:
  assumes "links_canonical N" "canonical_bytes d = canonical_bytes d'"
  shows "epoch d = epoch d'"
proof -
  have p: "\<exists>t. put_doc [] x = be_bytes 8 (unat (epoch x)) @ t" for x
  proof -
    have "\<exists>t. foldl put out xs = out @ t" if g: "\<And>out y. \<exists>t. put out y = out @ t" for put :: "bytes \<Rightarrow> 'a \<Rightarrow> bytes" and xs out
    proof (induction xs arbitrary: out)
      case (Cons y ys)
      obtain t where "put out y = out @ t" using g by blast
      then show ?case using Cons [of "out @ t"] by auto
    qed simp
    note f = this
    have i: "\<exists>t. put_id out y = out @ t" for out y
      by (simp add: put_id_def put_bytes16_def put_u64_def put_u16_def)
    have rd: "\<exists>t. put_revoked_device out y = out @ t" for out y
      by (simp add: put_revoked_device_def put_bytes16_def put_u16_def)
    have m: "\<exists>t. put_member out y = out @ t" for out y
    proof -
      obtain t where "foldl put_id (put_u8 (put_u64 (put_u64 (put_u64 (put_bytes16 (out @ mkey y)
          (as_bytes (label_str (m_label y)))) (m_until y)) (m_duration y)) (m_invite_until y))
          (of_nat (length (m_ids y)))) (m_ids y) = put_u8 (put_u64 (put_u64 (put_u64 (put_bytes16 (out @ mkey y)
          (as_bytes (label_str (m_label y)))) (m_until y)) (m_duration y)) (m_invite_until y))
          (of_nat (length (m_ids y))) @ t"
        using f [of put_id, OF i] by blast
      then show ?thesis by (simp add: put_member_def Let_def put_bytes16_def put_u8_def put_u16_def put_u64_def)
    qed
    define e where "e = be_bytes 8 (unat (epoch x))"
    obtain t1 where t1: "foldl put_member (e @ be_bytes 4 (length (members x))) (members x) =
        (e @ be_bytes 4 (length (members x))) @ t1"
      using f [of put_member, OF m] by blast
    define o1 where "o1 = e @ be_bytes 4 (length (members x)) @ t1"
    obtain t2 where t2: "foldl put_id (o1 @ be_bytes 4 (length (revoked x))) (revoked x) =
        (o1 @ be_bytes 4 (length (revoked x))) @ t2"
      using f [of put_id, OF i] by blast
    define o2 where "o2 = o1 @ be_bytes 4 (length (revoked x)) @ t2"
    obtain t3 where t3: "foldl put_revoked_device (o2 @ be_bytes 4 (length (revoked_devices x))) (revoked_devices x) =
        (o2 @ be_bytes 4 (length (revoked_devices x))) @ t3"
      using f [of put_revoked_device, OF rd] by blast
    have "put_members (put_u64 [] (epoch x)) (members x) = o1"
      using t1 by (simp add: put_members_def put_u32_def put_u64_def e_def o1_def)
    moreover have "put_ids32 o1 (revoked x) = o2"
      using t2 by (simp add: put_ids32_def put_u32_def o2_def)
    moreover have "put_revoked32 o2 (revoked_devices x) = o2 @ be_bytes 4 (length (revoked_devices x)) @ t3"
      using t3 by (simp add: put_revoked32_def put_u32_def)
    ultimately have "put_doc [] x = e @ be_bytes 4 (length (members x)) @ t1 @ be_bytes 4 (length (revoked x)) @ t2 @
        be_bytes 4 (length (revoked_devices x)) @ t3"
      by (simp add: put_doc_def o1_def o2_def)
    then show ?thesis by (auto simp: e_def)
  qed
  obtain t t' where "be_bytes 8 (unat (epoch d)) @ t = be_bytes 8 (unat (epoch d')) @ t'"
    using p [of d] p [of d'] assms(2) canonical_put_doc [OF assms(1)] by (metis append_same_eq same_append_eq)
  then have "be_bytes 8 (unat (epoch d)) = be_bytes 8 (unat (epoch d'))" by simp
  then have "unat (epoch d) mod 256 ^ 8 = unat (epoch d') mod 256 ^ 8" by (metis from_be_be_bytes)
  then show ?thesis using unat_u64_bound [of "epoch d"] unat_u64_bound [of "epoch d'"]
    by (simp add: word_unat_eq_iff)
qed


text \<open>The root's envelope opens to what it signed.\<close>

definition signs_documents :: "env \<Rightarrow> root_signer \<Rightarrow> bool" where
  "signs_documents E S \<longleftrightarrow> (\<forall>b pin p. na_open (en_nauthy E) (rs_document S b) pin = Inr p \<longrightarrow> p = b)"

text \<open>What a commit did to the home: the update it offers is the one held here.\<close>

lemma commit_held:
  assumes c: "links_canonical (en_nauthy E)" "grow_only D" "signs_documents E S"
    and t: "commit_to E D S ob w = (Inr c, w')" and hv: "held_verified E (wd_act w)"
  shows "\<exists>pin d. read_held E (h_devices (wd_home w')) pin = Some (d, cm_bytes c) \<and> epoch d = cm_number c \<and>
    held_epoch E pin (wd_home w) \<le> cm_number c"
proof -
  obtain a1 a3 fresh w2 where s: "again E D (wd_home w) (wd_act w) = (Inr (), a1)"
    "choose_update S (a1\<lparr>ac_book := prune (ac_now a1) (ac_book a1)\<rparr>) = (Inr (cm_bytes c, cm_number c, fresh), a3)"
    "write_beside ob (cm_bytes c) (cm_number c) (w\<lparr>wd_act := a3\<rparr>) = (Inr (), w2)"
    "fold_cut E D ob (cm_bytes c) fresh w2 = (Inr (), w')"
    by (rule commit_Inr [OF t])
  have h2: "wd_home w2 = wd_home w" using write_beside_frame [OF s(3)] by simp
  show ?thesis
  proof (cases fresh)
    case False
    have p: "\<exists>pin. root_pin E (ac_key a1) = Inr pin \<and>
        map_option snd (ac_held a1) = map_option snd (read_held E (h_devices (wd_home w)) pin) \<and> held_verified E a1"
      by (rule again_Inr [OF s(1) c(1)]) (use hv in auto)
    then obtain pin where pin: "root_pin E (ac_key a1) = Inr pin"
      "map_option snd (ac_held a1) = map_option snd (read_held E (h_devices (wd_home w)) pin)" "held_verified E a1"
      by blast
    obtain d where d: "ac_held a1 = Some (d, cm_bytes c)" "cm_number c = epoch d"
      using choose_update_Inr(1) [OF s(2)] False by auto
    obtain d' where d': "read_held E (h_devices (wd_home w)) pin = Some (d', cm_bytes c)"
      using pin(2) d(1) by (auto simp: map_option_case split: option.splits)
    have "d' = d" using pin(1,3) d(1) read_held_doc(3) [OF c(1) d'] by (simp add: held_verified_def)
    moreover have "wd_home w' = wd_home w" using fold_cut_Inr(2) [OF s(4)] False h2 by simp
    ultimately show ?thesis using d d' by (intro exI [of _ pin] exI [of _ d]) (simp add: held_epoch_def)
  next
    case True
    then have f: "fold_update E D (co_fold ob) (cm_bytes c) (wd_home w) = (Inr Newer, wd_home w')"
      using fold_cut_Inr(3) [OF s(4)] h2 by simp
    obtain pin til d where d: "roster_verify (en_nauthy E) (cm_bytes c) pin = Inr d"
      "held_epoch E pin (wd_home w) < epoch d" "read_held E (h_devices (wd_home w')) pin = Some (d, cm_bytes c)"
      using fold_update_newer [OF c(2) f] by blast
    obtain doc where doc: "book_update (prune (ac_now a1) (ac_book a1)) (cm_number c) (ac_now a1) = Inr doc"
      "cm_bytes c = rs_document S (canonical_bytes doc)"
      using choose_update_Inr(2) [OF s(2)] True by auto
    have "parse_canonical (en_nauthy E) (canonical_bytes doc) = Inr d"
      using d(1) c(3) doc(2)
      by (auto simp: roster_verify_def bindR_Inr_iff map_err_Inr_iff signs_documents_def split: if_splits)
    then have "canonical_bytes doc = canonical_bytes d" using parse_only_canonical [OF c(1)] by blast
    then have "epoch doc = epoch d" by (rule canonical_epoch [OF c(1)])
    moreover have "epoch doc = cm_number c"
      using doc(1) by (auto simp: book_update_def map_err_Inr_iff with_revocations_Inr)
    ultimately show ?thesis using d by (intro exI [of _ pin] exI [of _ d]) auto
  qed
qed

text \<open>
  C13: What a commit offers is what this machine holds. A commit that returns leaves its update as the one
  the home holds under the root that signed it, at the number it names and not below the one held before;
  it offers it to listed devices only, never to this machine, to a device the act added or to one whose
  key is revoked.
\<close>
theorem commit_offers_what_is_held:
  assumes "links_canonical (en_nauthy E)" "grow_only D" "signs_documents E S"
    and "commit_to E D S ob w = (Inr c, w')" "act_ok (wd_act w)" "held_verified E (wd_act w)"
  shows "(\<exists>pin d. read_held E (h_devices (wd_home w')) pin = Some (d, cm_bytes c) \<and> epoch d = cm_number c \<and>
      held_epoch E pin (wd_home w) \<le> cm_number c) \<and>
    (\<forall>(k, n) \<in> set (cm_targets c). k \<in> m_node ` set (rows (wd_act w')) \<and> Some k \<noteq> ac_own (wd_act w) \<and>
       k \<notin> set (ac_added (wd_act w)) \<and> \<not> bt_has (bk_revoked_keys (ac_book (wd_act w'))) (key_bytes k))"
proof -
  obtain a1 a3 fresh w2 where s: "again E D (wd_home w) (wd_act w) = (Inr (), a1)"
    "choose_update S (a1\<lparr>ac_book := prune (ac_now a1) (ac_book a1)\<rparr>) = (Inr (cm_bytes c, cm_number c, fresh), a3)"
    "write_beside ob (cm_bytes c) (cm_number c) (w\<lparr>wd_act := a3\<rparr>) = (Inr (), w2)"
    "fold_cut E D ob (cm_bytes c) fresh w2 = (Inr (), w')" "cm_targets c = commit_targets E (wd_act w')"
    by (rule commit_Inr [OF assms(4)])
  have a1: "act_ok a1 \<and> ac_own a1 = ac_own (wd_act w) \<and> ac_added a1 = ac_added (wd_act w)"
    by (rule again_Inr [OF s(1) assms(1)]) (use assms(5) in auto)
  obtain n where a3: "a3 = a1\<lparr>ac_held := None, ac_book := (prune (ac_now a1) (ac_book a1))\<lparr>bk_last := n\<rparr>\<rparr>"
    using choose_update_Inr(3) [OF s(2)] by auto
  have "wd_act w' = a3" using write_beside_frame [OF s(3)] fold_cut_Inr(1) [OF s(4)] by simp
  moreover have "act_ok a3" using prune_ok [of "ac_book a1"] a1 by (simp add: a3 book_ok_def)
  ultimately have "\<forall>(k, n) \<in> set (cm_targets c). k \<in> m_node ` set (rows (wd_act w')) \<and> Some k \<noteq> ac_own (wd_act w) \<and>
       k \<notin> set (ac_added (wd_act w)) \<and> \<not> bt_has (bk_revoked_keys (ac_book (wd_act w'))) (key_bytes k)"
    using a1 a3
    by (auto simp: s(5) commit_targets_def map_filter_def book_ok_def split: option.splits)
  then show ?thesis using commit_held [OF assms(1-4,6)] by blast
qed

definition example_world :: "revocation set world" where
  "example_world = \<lparr>wd_act = (act_new 0 (example_node 7) False (Some example_update) (Some (example_key 5)))
       \<lparr>ac_held := Some (example_update, example_blob)\<rparr>,
     wd_home = example_holder, wd_copy = NoFile\<rparr>"

definition example_commit_obs :: commit_obs where
  "example_commit_obs = \<lparr>co_lock_fails = None, co_copy_fails = None, co_fold = example_obs\<rparr>"

lemma example_pin_of: "root_pin example_env (example_node 7) = Inr (example_key 7)"
  by (simp add: root_pin_def example_env_def example_node_def example_key_def)

lemma example_holds: "read_held example_env (h_devices example_holder) (example_key 7) = Some (example_update, example_blob)"
  using read_held_Bytes [OF example_doc] by (simp add: example_holder_def)

lemma example_no_fork: "read_held example_env (h_conflict example_holder) pin = None"
  by (simp add: example_holder_def example_home_def read_held_def read_held_or_error_def)

lemma example_update_book:
  "prune 0 (book_of (Some example_update) (Some (example_key 5))) = book_of (Some example_update) (Some (example_key 5))"
  "check_bounds (book_of (Some example_update) (Some (example_key 5))) 0 = Inr ()"
  "\<not> lacks (book_of (Some example_update) (Some (example_key 5))) example_update 0"
proof -
  have b: "book_of (Some example_update) (Some (example_key 5)) = \<lparr>bk_last = 3, bk_rows = [example_member], bk_marked = [],
     bk_revoked = [([5], \<lparr>expires = 800, rid = RevocationId [5]\<rparr>)],
     bk_revoked_keys = [(key_bytes (example_key 9), example_device)], bk_own = Some (example_key 5)\<rparr>"
    by (simp add: book_of_def example_update_def bt_of_def example_device_def)
  show "prune 0 (book_of (Some example_update) (Some (example_key 5))) = book_of (Some example_update) (Some (example_key 5))"
    by (simp add: b prune_def live_def bt_retain_def example_member_def)
  show "check_bounds (book_of (Some example_update) (Some (example_key 5))) 0 = Inr ()"
    by (simp add: b check_bounds_Inr live_def bt_values_def checked_add_def bounds_defs)
  have "is_revoked_key example_update (example_key 9)"
    by (simp add: is_revoked_key_def binary_search_def bin_base.simps example_update_def example_device_def)
  then show "\<not> lacks (book_of (Some example_update) (Some (example_key 5))) example_update 0"
    unfolding b lacks_def lists_row_def
    by (simp add: live_def bt_values_def example_update_def example_device_def)
qed

lemma example_commits: "\<exists>c w. commit_to example_env example_denylist example_signer example_commit_obs example_world =
    (Inr c, w) \<and> cm_bytes c = example_blob"
  by (simp add: commit_to_def bindS_def example_world_def example_commit_obs_def on_act_def again_def act_new_def
      example_pin_of example_holds example_no_fork unix_now_def since_epoch_def NANOS_def example_update_book
      choose_update_def write_beside_def fold_cut_def)

theorem commit_offers_what_is_held_witness:
  "\<exists>c w pin d. commit_to example_env example_denylist example_signer example_commit_obs example_world = (Inr c, w) \<and>
     read_held example_env (h_devices (wd_home w)) pin = Some (d, example_blob) \<and> epoch d = cm_number c"
proof -
  obtain c w where c: "commit_to example_env example_denylist example_signer example_commit_obs example_world = (Inr c, w)"
    "cm_bytes c = example_blob"
    using example_commits by blast
  have l: "links_canonical (en_nauthy example_env)" using example_canonical by (simp add: example_env_def)
  have s: "signs_documents example_env example_signer"
    by (auto simp: signs_documents_def example_signer_def example_env_def example_nauthy_def split: if_splits)
  have k: "\<forall>m \<in> set (members example_update). mkey m \<notin> rdb ` set (revoked_devices example_update)"
    by (simp add: example_update_def example_member_def example_device_def example_key_def)
  have o: "act_ok (wd_act example_world)"
    using example_book_ok [OF example_update_ok k] by (simp add: example_world_def act_new_def)
  have h: "held_verified example_env (wd_act example_world)"
    using example_pin_of example_blob_verifies
    by (simp add: held_verified_def example_world_def act_new_def example_env_def)
  show ?thesis using commit_offers_what_is_held [OF l example_grow_only s c(1) o h] c by auto
qed


text \<open>
  What moved while an act waited stops it. When the check before the cut lets an act go on, the
  update it holds is the one the home holds now, no key it added, handed out or renewed was revoked
  meanwhile, no update that came meanwhile already listed a key it added, and, unless nothing moved, no
  device it revoked is listed under its name with a key the act never saw.
\<close>
theorem act_checks_again:
  assumes "links_canonical (en_nauthy E)" "again E D H a = (Inr (), a')" "act_ok a"
  shows "act_ok a' \<and> (\<exists>pin. root_pin E (ac_key a) = Inr pin \<and>
      map_option snd (ac_held a') = map_option snd (read_held E (h_devices H) pin) \<and>
      \<not> listed_added a (map_option snd (read_held E (h_devices H) pin) \<noteq> map_option snd (ac_held a))
          (read_held E (h_devices H) pin)) \<and>
    \<not> (\<exists>k \<in> set (ac_added a @ ac_replaced a @ ac_renewed a).
       bt_has (bk_revoked_keys (ac_book a')) (key_bytes k) \<and> \<not> bt_has (bk_revoked_keys (ac_book a)) (key_bytes k)) \<and>
    (ac_book a' = ac_book a \<or> \<not> (\<exists>(name, seen) \<in> set (ac_revoked a).
       \<exists>r \<in> set (rows a'). m_label r = name \<and> m_node r \<notin> set seen))"
proof -
  show ?thesis
  proof (rule again_Inr [OF assms(2,1)])
    fix pin
    assume p: "root_pin E (ac_key a) = Inr pin"
      "map_option snd (ac_held a') = map_option snd (read_held E (h_devices H) pin)"
      and o: "act_ok a \<Longrightarrow> act_ok a'"
      and k: "\<forall>k \<in> set (ac_added a @ ac_replaced a @ ac_renewed a).
       bt_has (bk_revoked_keys (ac_book a')) (key_bytes k) \<longrightarrow> bt_has (bk_revoked_keys (ac_book a)) (key_bytes k)"
      and n: "ac_book a' = ac_book a \<or> (\<forall>(name, seen) \<in> set (ac_revoked a).
       \<not> (\<exists>r \<in> set (rows a'). m_label r = name \<and> m_node r \<notin> set seen))"
      and l: "map_option snd (read_held E (h_devices H) pin) \<noteq> map_option snd (ac_held a) \<Longrightarrow>
       \<not> listed_added a True (read_held E (h_devices H) pin)"
    have "\<not> listed_added a (map_option snd (read_held E (h_devices H) pin) \<noteq> map_option snd (ac_held a))
          (read_held E (h_devices H) pin)"
      using l by (cases "map_option snd (read_held E (h_devices H) pin) = map_option snd (ac_held a)")
        (simp_all add: listed_added_def)
    then show ?thesis using p o [OF assms(3)] k n by blast
  qed
qed

text \<open>The home took an update while the example act, which added a device, waited.\<close>

lemma example_again: "\<exists>a. again example_env example_denylist example_holder
    (example_act\<lparr>ac_added := [example_key 4]\<rparr>) = (Inr (), a)"
proof -
  have f: "\<exists>b br. forward example_denylist example_holder (Some example_update) None 1000000
      (book_of (Some example_list) (Some (example_key 3))) = Inr ((b, br), True) \<and>
      bk_revoked_keys b = [(key_bytes (example_key 9), example_device)]"
    by (simp add: forward_def bring_lists_def example_update_def bring_one_def book_bring_forward_def
      bring_revocations_def take_member_def settle_name_def take_row_def book_of_def example_list_def
      example_own_def example_member_def example_fresh example_device_def revoke_id_def revoke_key_def
      bt_of_def bt_has_def bt_get_def count_new_def Let_def carry_forward_def revoked_open_def carry_revoked_def
      known_ids_def option_list_def mark_lists_def mark_listed_def follow_keys_def live_def
      example_holder_def example_home_def example_denylist_def nothing_brought_def example_key_def UNVERSIONED_def split_beta)
  then obtain b br where f: "forward example_denylist example_holder (Some example_update) None 1000000
      (book_of (Some example_list) (Some (example_key 3))) = Inr ((b, br), True)"
    and k: "bk_revoked_keys b = [(key_bytes (example_key 9), example_device)]" by blast
  have n: "\<not> bt_has (bk_revoked_keys b) (key_bytes (example_key 4))"
    by (simp add: k bt_has_def bt_get_def example_key_def)
  have t: "ac_now example_act = 1000000" "ac_book example_act = book_of (Some example_list) (Some (example_key 3))"
    "ac_key example_act = example_node 7" "ac_held example_act = None" "ac_fork example_act = None"
    "ac_replaced example_act = []" "ac_renewed example_act = []" "ac_revoked example_act = []"
    using example_act_rows(2) by (simp_all add: example_act_def act_new_def)
  have "example_key 5 \<noteq> example_key 4" by (simp add: example_key_def)
  then have l: "\<not> listed_added (example_act\<lparr>ac_added := [example_key 4]\<rparr>) x (Some (example_update, example_blob))"
    "\<not> listed_added (example_act\<lparr>ac_added := [example_key 4]\<rparr>) x None" for x
    by (simp_all add: listed_added_def example_update_def example_member_def)
  show ?thesis
    using n by (simp add: again_def bindS_def example_pin_of example_holds example_no_fork act_bring_forward_def
        t l f)
qed

theorem act_checks_again_witness:
  "\<exists>a. again example_env example_denylist example_holder (example_act\<lparr>ac_added := [example_key 4]\<rparr>) = (Inr (), a) \<and>
     \<not> bt_has (bk_revoked_keys (ac_book a)) (key_bytes (example_key 4))"
proof -
  obtain a where a: "again example_env example_denylist example_holder (example_act\<lparr>ac_added := [example_key 4]\<rparr>) =
      (Inr (), a)" using example_again by blast
  have l: "links_canonical (en_nauthy example_env)" using example_canonical by (simp add: example_env_def)
  have "\<not> bt_has (bk_revoked_keys (ac_book example_act)) (key_bytes (example_key 4))"
    by (simp add: example_act_def act_new_def book_of_def example_list_def bt_of_def bt_has_def bt_get_def)
  then show ?thesis
    using act_checks_again [OF l a] example_act_ok a by auto
qed

text \<open>
  Who may present a root. A root found for an act is not revoked here; for an act that cuts this
  machine is a device of it, under its pin; a copy is taken only where no root is kept, and the root kept
  here only where one is.
\<close>
theorem presented_root_sound:
  assumes "grow_only D" "find_root E D hdr H place (Some v) = Inr (copy, header)"
  shows "(\<exists>k. root_pin E header = Inr k \<and> RevKey k \<notin> home_revoked D H) \<and>
    (copy \<longleftrightarrow> place = PlaceDir) \<and>
    (\<exists>s. standing_read E D H = Inr s \<and> \<not> (verb_cuts v \<and> pinned_root s \<noteq> Some header) \<and>
       \<not> (\<exists>p. pinned_root s = Some p \<and> p \<noteq> header) \<and>
       (case s of HoldsRoot _ _ \<Rightarrow> \<not> copy | InterruptedMint _ \<Rightarrow> \<not> copy \<and> v = RevokeRoot | _ \<Rightarrow> copy))"
proof -
  obtain s where s: "standing_read E D H = Inr s" using assms(2) by (auto simp: find_root_def bindR_Inr_iff map_err_Inr_iff)
  obtain rv k where r: "revoked_open D H = Inr rv" "root_pin E header = Inr k" "RevKey k \<notin> rv"
    using assms(2) by (auto simp: find_root_def bindR_Inr_iff map_err_Inr_iff split: if_splits)
  have "rv = home_revoked D H" by (rule revoked_open_entries [OF assms(1) r(1)])
  moreover have "(copy \<longleftrightarrow> place = PlaceDir) \<and> \<not> (verb_cuts v \<and> pinned_root s \<noteq> Some header) \<and>
       \<not> (\<exists>p. pinned_root s = Some p \<and> p \<noteq> header) \<and>
       (case s of HoldsRoot _ _ \<Rightarrow> \<not> copy | InterruptedMint _ \<Rightarrow> \<not> copy \<and> v = RevokeRoot | _ \<Rightarrow> copy)"
    using assms(2) s
    by (cases place; cases s)
      (auto simp: find_root_def bindR_Inr_iff map_err_Inr_iff pinned_root_def split: if_splits)
  ultimately show ?thesis using s r by blast
qed

theorem presented_root_sound_witness:
  "find_root example_env example_denylist (\<lambda>_. HdrLocked (Some (example_node 7))) example_home PlaceDir (Some Invite) =
     Inr (True, example_node 7) \<and> RevKey (example_key 7) \<notin> home_revoked example_denylist example_home"
proof -
  have f: "find_root example_env example_denylist (\<lambda>_. HdrLocked (Some (example_node 7))) example_home PlaceDir (Some Invite) =
     Inr (True, example_node 7)"
    by (simp add: find_root_def example_reads read_header_def header_key_def revoked_open_def example_pin_of
        example_home_def example_denylist_def example_reads [unfolded example_home_def example_denylist_def])
  show ?thesis using presented_root_sound [OF example_grow_only f] f example_pin_of by auto
qed

end
