(* ===== verification/Wire.thy ===== *)
theory Wire
  imports Prelude
begin

text \<open>
  Programs that talk over a byte stream. A side of an exchange is a tree of its writes, its exact reads
  and its calls on local state, each with what it does when the call fails; the program text is
  composed with \<open>bindP\<close>, the source's \<^verbatim>\<open>?\<close> on such calls. Two sides run in any order over two byte
  streams, either faultily, where every read and write may fail and other programs change the local
  state meanwhile, or calmly, where none does. The lemmas are the rule to show what a side keeps
  whatever its peer sends, and that the order of steps of a calm run does not matter.
\<close>

section \<open>Programs\<close>

datatype ('s, 'a) proc =
    Ends 'a
  | Writes bytes "string option \<Rightarrow> ('s, 'a) proc"
  | Reads nat "string + bytes \<Rightarrow> ('s, 'a) proc"
  | Does "'s \<Rightarrow> ('s, 'a) proc \<times> 's"

primrec andthen :: "('s, 'a) proc \<Rightarrow> ('a \<Rightarrow> ('s, 'b) proc) \<Rightarrow> ('s, 'b) proc" where
  "andthen (Ends r) f = f r"
| "andthen (Writes b k) f = Writes b (\<lambda>r. andthen (k r) f)"
| "andthen (Reads n k) f = Reads n (\<lambda>r. andthen (k r) f)"
| "andthen (Does h) f = Does (\<lambda>s. map_prod (\<lambda>p. andthen p f) id (h s))"

definition bindP :: "('s, 'e + 'a) proc \<Rightarrow> ('a \<Rightarrow> ('s, 'e + 'b) proc) \<Rightarrow> ('s, 'e + 'b) proc" where
  "bindP m f = andthen m (\<lambda>r. case r of Inl e \<Rightarrow> Ends (Inl e) | Inr x \<Rightarrow> f x)"

text \<open>\<^verbatim>\<open>write_all\<close>, \<^verbatim>\<open>read_exact\<close> and a local call, with the error of the stream in the caller's type.
  \<^verbatim>\<open>flush\<close> and \<^verbatim>\<open>shutdown\<close> put no byte on the stream and may fail: they write nothing.\<close>

definition write_all :: "(string \<Rightarrow> 'e) \<Rightarrow> bytes \<Rightarrow> ('s, 'e + unit) proc" where
  "write_all g b = Writes b (\<lambda>r. case r of None \<Rightarrow> Ends (Inr ()) | Some e \<Rightarrow> Ends (Inl (g e)))"

definition read_exact :: "(string \<Rightarrow> 'e) \<Rightarrow> nat \<Rightarrow> ('s, 'e + bytes) proc" where
  "read_exact g n = Reads n (\<lambda>r. Ends (map_err g r))"

definition locally :: "('s, 'e, 'a) act \<Rightarrow> ('s, 'e + 'a) proc" where
  "locally f = Does (\<lambda>s. case f s of (r, t) \<Rightarrow> (Ends r, t))"

lemmas proc_defs = bindP_def write_all_def read_exact_def locally_def

section \<open>One side\<close>

text \<open>
  What one step of a side does to its two streams. A write that fails may have sent some of its bytes, a
  read that fails may have taken some; \<open>R\<close> is what other programs may do to the local state.
\<close>

datatype wire_event = Sent bytes | Got bytes | Quiet

inductive side_step ::
  "('s \<Rightarrow> 's \<Rightarrow> bool) \<Rightarrow> ('s, 'a) proc \<times> 's \<Rightarrow> wire_event \<Rightarrow> ('s, 'a) proc \<times> 's \<Rightarrow> bool" for R where
  wrote: "side_step R (Writes b k, s) (Sent b) (k None, s)"
| write_failed: "side_step R (Writes b k, s) (Sent (take n b)) (k (Some e), s)"
| got: "length x = n \<Longrightarrow> side_step R (Reads n k, s) (Got x) (k (Inr x), s)"
| read_failed: "length x < n \<Longrightarrow> side_step R (Reads n k, s) (Got x) (k (Inl e), s)"
| did: "side_step R (Does h, s) Quiet (h s)"
| other: "R s s' \<Longrightarrow> side_step R (p, s) Quiet (p, s')"

text \<open>The bytes a side took and sent over its steps, against any peer at all.\<close>

inductive side_run ::
  "('s \<Rightarrow> 's \<Rightarrow> bool) \<Rightarrow> ('s, 'a) proc \<times> 's \<Rightarrow> bytes \<Rightarrow> bytes \<Rightarrow> ('s, 'a) proc \<times> 's \<Rightarrow> bool" for R x where
  start: "side_run R x [] [] x"
| sent: "side_run R x i j y \<Longrightarrow> side_step R y (Sent b) z \<Longrightarrow> side_run R x i (j @ b) z"
| got: "side_run R x i j y \<Longrightarrow> side_step R y (Got b) z \<Longrightarrow> side_run R x (i @ b) j z"
| quiet: "side_run R x i j y \<Longrightarrow> side_step R y Quiet z \<Longrightarrow> side_run R x i j z"

text \<open>
  \<open>safe R J Q p i j s\<close>: a side at \<open>p\<close>, having taken \<open>i\<close> and sent \<open>j\<close>, keeps \<open>J\<close> at every moment and ends
  only with \<open>Q\<close>, whatever it reads, whatever fails, and whatever others do to its state within \<open>R\<close>.
\<close>

primrec safe ::
  "('s \<Rightarrow> 's \<Rightarrow> bool) \<Rightarrow> (bytes \<Rightarrow> bytes \<Rightarrow> 's \<Rightarrow> bool) \<Rightarrow> ('a \<Rightarrow> bytes \<Rightarrow> bytes \<Rightarrow> 's \<Rightarrow> bool) \<Rightarrow>
   ('s, 'a) proc \<Rightarrow> bytes \<Rightarrow> bytes \<Rightarrow> 's \<Rightarrow> bool" where
  "safe R J Q (Ends r) = (\<lambda>i j s. \<forall>t. R s t \<longrightarrow> J i j t \<and> Q r i j t)"
| "safe R J Q (Writes b k) = (\<lambda>i j s. \<forall>t. R s t \<longrightarrow> J i j t \<and>
     safe R J Q (k None) i (j @ b) t \<and> (\<forall>n e. safe R J Q (k (Some e)) i (j @ take n b) t))"
| "safe R J Q (Reads n k) = (\<lambda>i j s. \<forall>t. R s t \<longrightarrow> J i j t \<and>
     (\<forall>x. length x = n \<longrightarrow> safe R J Q (k (Inr x)) (i @ x) j t) \<and>
     (\<forall>x e. length x < n \<longrightarrow> safe R J Q (k (Inl e)) (i @ x) j t))"
| "safe R J Q (Does h) = (\<lambda>i j s. \<forall>t. R s t \<longrightarrow> J i j t \<and>
     (case map_prod (safe R J Q) id (h t) of (S, u) \<Rightarrow> S i j u))"

lemma safe_Does: "safe R J Q (Does h) i j s \<longleftrightarrow>
    (\<forall>t. R s t \<longrightarrow> J i j t \<and> safe R J Q (fst (h t)) i j (snd (h t)))"
  by (simp add: map_prod_def split_beta)

lemma safe_other: "transp R \<Longrightarrow> R s t \<Longrightarrow> safe R J Q p i j s \<Longrightarrow> safe R J Q p i j t"
  by (cases p) (auto simp: safe_Does transp_def simp del: safe.simps(4))

lemma safe_now: "reflp R \<Longrightarrow> safe R J Q p i j s \<Longrightarrow> J i j s"
  by (cases p) (auto simp: safe_Does reflp_def simp del: safe.simps(4))

lemma safe_mono:
  assumes "safe R J Q p i j s" "\<And>i j s. J i j s \<Longrightarrow> J' i j s"
    "\<And>r i j s. Q r i j s \<Longrightarrow> J i j s \<Longrightarrow> Q' r i j s"
  shows "safe R J' Q' p i j s"
  using assms(1)
proof (induction p arbitrary: i j s)
  case (Does h)
  show ?case unfolding safe_Does
  proof (intro allI impI conjI)
    fix t assume t: "R s t"
    then show "J' i j t" using Does.prems assms(2) by (simp add: safe_Does del: safe.simps)
    have "safe R J Q (fst (h t)) i j (snd (h t))"
      using Does.prems t by (simp add: safe_Does del: safe.simps)
    then show "safe R J' Q' (fst (h t)) i j (snd (h t))"
      by (intro Does.IH [of "h t"]) (auto simp: prod_set_simps fsts.simps)
  qed
qed (use assms(2,3) in auto)

lemma safe_andthen:
  assumes "reflp R" "safe R J (\<lambda>r. safe R J Q (f r)) p i j s"
  shows "safe R J Q (andthen p f) i j s"
  using assms(2)
proof (induction p arbitrary: i j s)
  case (Ends r)
  then show ?case using assms(1) by (simp add: reflp_def)
next
  case (Does h)
  show ?case unfolding andthen.simps safe_Does
  proof (intro allI impI conjI)
    fix t assume t: "R s t"
    then show "J i j t" using Does.prems by (simp add: safe_Does del: safe.simps)
    have "safe R J (\<lambda>r. safe R J Q (f r)) (fst (h t)) i j (snd (h t))"
      using Does.prems t by (simp add: safe_Does del: safe.simps)
    then have "safe R J Q (andthen (fst (h t)) f) i j (snd (h t))"
      by (intro Does.IH [of "h t"]) (auto simp: prod_set_simps fsts.simps)
    then show "safe R J Q (fst (map_prod (\<lambda>p. andthen p f) id (h t))) i j
        (snd (map_prod (\<lambda>p. andthen p f) id (h t)))" by simp
  qed
qed auto

lemma safe_step:
  assumes R: "reflp R" "transp R" and "side_step R (p, s) ev (q, t)" "safe R J Q p i j s"
  shows "(case ev of Sent b \<Rightarrow> safe R J Q q i (j @ b) t | Got b \<Rightarrow> safe R J Q q (i @ b) j t
    | Quiet \<Rightarrow> safe R J Q q i j t)"
  using assms(3)
proof cases
  case (did h)
  then show ?thesis using assms(4) R(1) by (auto simp: safe_Does reflp_def simp del: safe.simps(4)) (metis fst_conv snd_conv)
next
  case other
  then show ?thesis using safe_other [OF R(2)] assms(4) by auto
qed (use assms(4) R(1) in \<open>auto simp: reflp_def\<close>)

lemma safe_run:
  assumes "side_run R (p, s) i j y" "reflp R" "transp R" "safe R J Q p [] [] s"
  shows "safe R J Q (fst y) i j (snd y)"
  using assms(1)
proof induction
  case start
  then show ?case using assms(4) by simp
qed (use safe_step [OF assms(2,3)] in \<open>fastforce split: wire_event.splits\<close>)+

lemma safe_end:
  assumes "side_run R (p, s) i j (Ends r, t)" "reflp R" "transp R" "safe R J Q p [] [] s"
  shows "Q r i j t"
  using safe_run [OF assms] assms(2) by (auto simp: reflp_def)

section \<open>Programs as sequences\<close>

lemma andthen_assoc: "andthen (andthen p f) g = andthen p (\<lambda>x. andthen (f x) g)"
proof (induction p)
  case (Does h)
  then show ?case by (fastforce simp: fun_eq_iff prod_eq_iff prod_set_simps intro!: prod.map_cong)
qed auto

lemma bindP_assoc [simp]: "bindP (bindP p f) g = bindP p (\<lambda>x. bindP (f x) g)"
  unfolding bindP_def andthen_assoc
  by (intro arg_cong [where f = "andthen p"] ext) (simp split: sum.split)

lemma bindP_Ends [simp]: "bindP (Ends (Inl e)) f = Ends (Inl e)" "bindP (Ends (Inr x)) f = f x"
  by (simp_all add: bindP_def)

lemma bindP_if [simp]: "bindP (if c then p else q) f = (if c then bindP p f else bindP q f)"
  by simp

lemma bindP_writes: "bindP (write_all g b) f =
    Writes b (\<lambda>r. case r of None \<Rightarrow> f () | Some e \<Rightarrow> Ends (Inl (g e)))"
  by (auto simp: bindP_def write_all_def fun_eq_iff split: option.split)

lemma bindP_reads: "bindP (read_exact g n) f =
    Reads n (\<lambda>r. case r of Inr x \<Rightarrow> f x | Inl e \<Rightarrow> Ends (Inl (g e)))"
  by (auto simp: bindP_def read_exact_def fun_eq_iff split: sum.split)

lemma bindP_does: "bindP (locally m) f =
    Does (\<lambda>s. case m s of (Inl e, t) \<Rightarrow> (Ends (Inl e), t) | (Inr x, t) \<Rightarrow> (f x, t))"
  by (auto simp: bindP_def locally_def fun_eq_iff split: sum.split prod.split)

lemma andthen_Ends [simp]: "andthen p Ends = p"
proof (induction p)
  case (Does h)
  have "andthen (fst (h s)) Ends = fst (h s)" for s
    by (intro Does.IH [of "h s"]) (auto simp: fsts.simps)
  then show ?case by (auto simp: fun_eq_iff prod_eq_iff)
qed auto

lemma bindP_Ends_Inr: "bindP p (\<lambda>x. Ends (Inr x)) = p"
  unfolding bindP_def
  by (rule trans [OF arg_cong [where f = "andthen p"] andthen_Ends]) (auto simp: fun_eq_iff split: sum.split)

section \<open>Rules for a side\<close>

text \<open>
  A side that has taken \<open>i\<close> and sent \<open>j\<close> and whose state is in \<open>A\<close>, which others leave true, is safe.
\<close>

definition stable :: "('s \<Rightarrow> 's \<Rightarrow> bool) \<Rightarrow> ('s \<Rightarrow> bool) \<Rightarrow> bool" where
  "stable R A \<longleftrightarrow> (\<forall>s t. A s \<longrightarrow> R s t \<longrightarrow> A t)"

definition safe_at ::
  "('s \<Rightarrow> 's \<Rightarrow> bool) \<Rightarrow> (bytes \<Rightarrow> bytes \<Rightarrow> 's \<Rightarrow> bool) \<Rightarrow> ('a \<Rightarrow> bytes \<Rightarrow> bytes \<Rightarrow> 's \<Rightarrow> bool) \<Rightarrow>
   ('s \<Rightarrow> bool) \<Rightarrow> bytes \<Rightarrow> bytes \<Rightarrow> ('s, 'a) proc \<Rightarrow> bool" where
  "safe_at R J Q A i j p \<longleftrightarrow> stable R A \<and> (\<forall>s. A s \<longrightarrow> safe R J Q p i j s)"

lemma safe_at_ends:
  assumes "stable R A" "\<And>s. A s \<Longrightarrow> J i j s" "\<And>s. A s \<Longrightarrow> Q r i j s"
  shows "safe_at R J Q A i j (Ends r)"
  using assms by (auto simp: safe_at_def stable_def)

lemma safe_at_write:
  assumes "\<And>s. A s \<Longrightarrow> J i j s" "safe_at R J Q A i (j @ b) (f ())"
    "\<And>n s e. A s \<Longrightarrow> J i (j @ take n b) s \<and> Q (Inl (g e)) i (j @ take n b) s"
  shows "safe_at R J Q A i j (bindP (write_all g b) f)"
  using assms unfolding safe_at_def bindP_writes stable_def
  by (simp del: safe.simps(4)) blast

lemma safe_at_read:
  assumes "\<And>s. A s \<Longrightarrow> J i j s" "stable R A"
    "\<And>x. length x = n \<Longrightarrow> safe_at R J Q A (i @ x) j (f x)"
    "\<And>x s e. length x < n \<Longrightarrow> A s \<Longrightarrow> J (i @ x) j s \<and> Q (Inl (g e)) (i @ x) j s"
  shows "safe_at R J Q A i j (bindP (read_exact g n) f)"
  using assms unfolding safe_at_def bindP_reads stable_def
  by (simp del: safe.simps(4)) blast

lemma safe_at_local:
  assumes "\<And>s. A s \<Longrightarrow> J i j s" "stable R A"
    "\<And>s x t. A s \<Longrightarrow> m s = (Inr x, t) \<Longrightarrow> B x t" "\<And>x. safe_at R J Q (B x) i j (f x)"
    "\<And>s e t u. A s \<Longrightarrow> m s = (Inl e, t) \<Longrightarrow> R t u \<Longrightarrow> J i j u \<and> Q (Inl e) i j u"
  shows "safe_at R J Q A i j (bindP (locally m) f)"
  unfolding safe_at_def bindP_does safe_Does
proof (intro conjI assms(2) allI impI)
  fix s t assume "A s" "R s t"
  then have t: "A t" using assms(2) by (simp add: stable_def)
  then show "J i j t" by (rule assms(1))
  show "safe R J Q (fst (case m t of (Inl e, t) \<Rightarrow> (Ends (Inl e), t) | (Inr x, t) \<Rightarrow> (f x, t))) i j
      (snd (case m t of (Inl e, t) \<Rightarrow> (Ends (Inl e), t) | (Inr x, t) \<Rightarrow> (f x, t)))"
    using assms(3) [OF t] assms(4) assms(5) [OF t]
    by (auto simp: safe_at_def split: prod.split sum.split)
qed

lemma safe_at_then:
  assumes "reflp R" "safe_at R J (\<lambda>r i' j' s. \<exists>x y. i' = i @ x \<and> j' = j @ y \<and> B s) A i j p"
    "\<And>r x y. safe_at R J Q B (i @ x) (j @ y) (f r)"
  shows "safe_at R J Q A i j (andthen p f)"
proof -
  have "safe R J Q (andthen p f) i j s" if "A s" for s
    using assms(2,3) that by (intro safe_andthen [OF assms(1)]) (auto simp: safe_at_def elim!: safe_mono)
  then show ?thesis using assms(2) by (simp add: safe_at_def)
qed

lemma safe_at_weaken: "safe_at R J Q A i j p \<Longrightarrow> stable R B \<Longrightarrow> (\<And>s. B s \<Longrightarrow> A s) \<Longrightarrow> safe_at R J Q B i j p"
  by (auto simp: safe_at_def)

lemma safe_at_alone: "safe_at R J Q A i j (bindP p (\<lambda>u. Ends (Inr u))) \<Longrightarrow> safe_at R J Q A i j p"
  by (simp only: bindP_Ends_Inr)

lemma safe_at_run:
  assumes "side_run R (p, s) i j y" "reflp R" "transp R" "safe_at R J Q A [] [] p" "A s"
  shows "J i j (snd y)" "fst y = Ends r \<Longrightarrow> Q r i j (snd y)"
proof -
  have s: "safe R J Q (fst y) i j (snd y)" using safe_run [OF assms(1-3)] assms(4,5) by (auto simp: safe_at_def)
  show "J i j (snd y)" by (rule safe_now [OF assms(2) s])
  show "fst y = Ends r \<Longrightarrow> Q r i j (snd y)" using s assms(2) by (auto simp: reflp_def)
qed

section \<open>Two sides\<close>

text \<open>Two sides and the bytes on the way: those the left sent, then those the right sent.\<close>

type_synonym ('s, 'a, 't, 'b) talk = "(('s, 'a) proc \<times> 's) \<times> (('t, 'b) proc \<times> 't) \<times> bytes \<times> bytes"

inductive net_step ::
  "('s \<Rightarrow> 's \<Rightarrow> bool) \<Rightarrow> ('t \<Rightarrow> 't \<Rightarrow> bool) \<Rightarrow> ('s, 'a, 't, 'b) talk \<Rightarrow> ('s, 'a, 't, 'b) talk \<Rightarrow> bool" for R S where
  left_sent: "side_step R x (Sent b) x' \<Longrightarrow> net_step R S (x, y, out, ret) (x', y, out @ b, ret)"
| left_got: "side_step R x (Got b) x' \<Longrightarrow> net_step R S (x, y, out, b @ ret) (x', y, out, ret)"
| left_quiet: "side_step R x Quiet x' \<Longrightarrow> net_step R S (x, y, out, ret) (x', y, out, ret)"
| right_sent: "side_step S y (Sent b) y' \<Longrightarrow> net_step R S (x, y, out, ret) (x, y', out, ret @ b)"
| right_got: "side_step S y (Got b) y' \<Longrightarrow> net_step R S (x, y, b @ out, ret) (x, y', out, ret)"
| right_quiet: "side_step S y Quiet y' \<Longrightarrow> net_step R S (x, y, out, ret) (x, y', out, ret)"

text \<open>
  Each side of a talk made a run of its own, and what one took is the front of what the other sent:
  so what each side alone can be held to, together with the order of the bytes, holds of the talk.
\<close>

definition started :: "('s, 'a) proc \<times> 's \<Rightarrow> ('t, 'b) proc \<times> 't \<Rightarrow> ('s, 'a, 't, 'b) talk" where
  "started x y = (x, y, [], [])"

lemma net_sides:
  assumes "(net_step R S)\<^sup>*\<^sup>* (started x y) (x', y', out, ret)"
  shows "\<exists>i j i' j'. side_run R x i j x' \<and> side_run S y i' j' y' \<and> j = i' @ out \<and> j' = i @ ret"
  using assms
proof (induction "(x', y', out, ret)" arbitrary: x' y' out ret rule: rtranclp_induct)
  case base
  then show ?case by (auto simp: started_def intro: side_run.start)
next
  case (step c)
  obtain a b o1 o2 where c: "c = (a, b, o1, o2)" by (cases c)
  from step(3) [OF c] obtain i j i' j' where
    r: "side_run R x i j a" "side_run S y i' j' b" "j = i' @ o1" "j' = i @ o2" by blast
  from step(2) show ?case unfolding c
  proof cases
    case left_sent
    then show ?thesis using r side_run.sent [OF r(1)] by fastforce
  next
    case left_got
    then show ?thesis using r side_run.got [OF r(1)] by fastforce
  next
    case left_quiet
    then show ?thesis using r side_run.quiet [OF r(1)] by fastforce
  next
    case right_sent
    then show ?thesis using r side_run.sent [OF r(2)] by fastforce
  next
    case right_got
    then show ?thesis using r side_run.got [OF r(2)] by fastforce
  next
    case right_quiet
    then show ?thesis using r side_run.quiet [OF r(2)] by fastforce
  qed
qed

section \<open>Calm runs\<close>

text \<open>
  A step where nothing fails: a read waits for its bytes, and fails only when the peer ended
  without sending them.
\<close>

fun calm :: "('s, 'a) proc \<times> 's \<Rightarrow> bytes \<Rightarrow> bool \<Rightarrow> (('s, 'a) proc \<times> 's) \<times> bytes \<times> bytes \<Rightarrow> bool" where
  "calm (Ends r, s) i over z = False"
| "calm (Writes b k, s) i over z = (z = ((k None, s), i, b))"
| "calm (Reads n k, s) i over z =
     (if n \<le> length i then z = ((k (Inr (take n i)), s), drop n i, [])
      else over \<and> z = ((k (Inl ''unexpected end of file''), s), [], []))"
| "calm (Does h, s) i over z = (z = (h s, i, []))"

fun ended :: "('s, 'a) proc \<times> 's \<Rightarrow> bool" where
  "ended (Ends r, s) = True"
| "ended x = False"

inductive flow :: "('s, 'a, 't, 'b) talk \<Rightarrow> ('s, 'a, 't, 'b) talk \<Rightarrow> bool" where
  left: "calm x ret (ended y) (x', ret', b) \<Longrightarrow> flow (x, y, out, ret) (x', y, out @ b, ret')"
| right: "calm y out (ended x) (y', out', b) \<Longrightarrow> flow (x, y, out, ret) (x, y', out', ret @ b)"

lemma calm_fun: "calm x i over z \<Longrightarrow> calm x i over z' \<Longrightarrow> z = z'"
  by (induction x i over z rule: calm.induct) (auto split: if_splits)

lemma calm_not_ended: "calm x i over z \<Longrightarrow> \<not> ended x"
  by (induction x i over z rule: calm.induct) auto

text \<open>A step stays possible, with the same effect, while the peer sends more.\<close>

lemma calm_more:
  assumes "calm x i over (x', i', b)" "\<not> over"
  shows "calm x (i @ j) over' (x', i' @ j, b)"
  using assms by (induction x i over "(x', i', b)" rule: calm.induct) (auto split: if_splits)

lemma calm_over: "calm x i over (x', i', b) \<Longrightarrow> \<not> over \<Longrightarrow> calm x i over' (x', i', b)"
  using calm_more [of x i over x' i' b "[]" over'] by simp

text \<open>A step of each side commutes, so every order of steps comes to the same end.\<close>

locale diamond =
  fixes step :: "'c \<Rightarrow> 'c \<Rightarrow> bool"
  assumes commute: "step c d \<Longrightarrow> step c e \<Longrightarrow> d = e \<or> (\<exists>f. step d f \<and> step e f)"
begin

text \<open>When one order of steps ends after \<open>n\<close>, every order does, in the same place.\<close>

lemma same_end_strip:
  "(step ^^ n) c e \<Longrightarrow> (\<nexists>f. step e f) \<Longrightarrow> step c d \<Longrightarrow> \<exists>k. n = Suc k \<and> (step ^^ k) d e"
proof (induction n arbitrary: c d)
  case 0
  then show ?case by auto
next
  case (Suc n)
  then obtain c' where c': "step c c'" "(step ^^ n) c' e" by (metis relpowp_Suc_D2)
  show ?case
  proof (cases "c' = d")
    case True
    then show ?thesis using c' by blast
  next
    case False
    then obtain f where f: "step c' f" "step d f" using commute [OF c'(1) Suc.prems(3)] by blast
    from Suc.IH [OF c'(2) Suc.prems(2) f(1)] obtain k where "n = Suc k" "(step ^^ k) f e" by blast
    then show ?thesis using f(2) relpowp_Suc_I2 by metis
  qed
qed

lemma same_end:
  assumes "(step ^^ n) c e" "\<nexists>f. step e f"
  shows "(step ^^ m) c d \<Longrightarrow> \<exists>k. n = m + k \<and> (step ^^ k) d e"
proof (induction m arbitrary: d)
  case 0
  then show ?case using assms(1) by auto
next
  case (Suc m)
  then obtain b where b: "(step ^^ m) c b" "step b d" by auto
  then obtain k where k: "n = m + k" "(step ^^ k) b e" using Suc.IH by blast
  from same_end_strip [OF k(2) assms(2) b(2)] show ?case using k(1) by auto
qed

lemma every_order_ends:
  assumes "(step ^^ n) c e" "\<nexists>f. step e f"
  shows "(\<forall>d. step\<^sup>*\<^sup>* c d \<longrightarrow> step\<^sup>*\<^sup>* d e) \<and> (\<forall>d m. (step ^^ m) c d \<longrightarrow> m \<le> n)"
  using same_end [OF assms] by (metis le_add1 relpowp_imp_rtranclp rtranclp_imp_relpowp)

end

lemma flow_commute: "flow c d \<Longrightarrow> flow c e \<Longrightarrow> d = e \<or> (\<exists>f. flow d f \<and> flow e f)"
proof -
  have lr: "\<exists>f. flow (x', y, out @ b, ret') f \<and> flow (x, y', out', ret @ b') f"
    if l: "calm x ret (ended y) (x', ret', b)" and r: "calm y out (ended x) (y', out', b')" for x ret y x' ret' b out y' out' b'
  proof -
    have e: "\<not> ended x" "\<not> ended y" using l r calm_not_ended by blast+
    have "calm y (out @ b) (ended x') (y', out' @ b, b')" using calm_more [OF r e(1)] by simp
    moreover have "calm x (ret @ b') (ended y') (x', ret' @ b', b)" using calm_more [OF l e(2)] by simp
    ultimately show ?thesis using flow.left flow.right by blast
  qed
  assume "flow c d" "flow c e"
  then show ?thesis
    by (elim flow.cases; use calm_fun lr in \<open>fast | blast\<close>)
qed

interpretation flow: diamond flow
  by unfold_locales (rule flow_commute)

section \<open>Calm steps of a sequence\<close>

lemma flow_left: "calm x ret (ended y) (x', ret', b) \<Longrightarrow> flow\<^sup>*\<^sup>* (x', y, out @ b, ret') d \<Longrightarrow> flow\<^sup>*\<^sup>* (x, y, out, ret) d"
  by (rule converse_rtranclp_into_rtranclp, rule flow.left)

lemma flow_right: "calm y out (ended x) (y', out', b) \<Longrightarrow> flow\<^sup>*\<^sup>* (x, y', out', ret @ b) d \<Longrightarrow> flow\<^sup>*\<^sup>* (x, y, out, ret) d"
  by (rule converse_rtranclp_into_rtranclp, rule flow.right)

lemma left_write: "flow\<^sup>*\<^sup>* ((f (Inr ()), s), y, out @ b, ret) d \<Longrightarrow>
    flow\<^sup>*\<^sup>* ((andthen (write_all g b) f, s), y, out, ret) d"
  by (rule flow_left) (simp_all add: write_all_def)

lemma right_write: "flow\<^sup>*\<^sup>* (x, (f (Inr ()), s), out, ret @ b) d \<Longrightarrow>
    flow\<^sup>*\<^sup>* (x, (andthen (write_all g b) f, s), out, ret) d"
  by (rule flow_right) (simp_all add: write_all_def)

lemma left_read: "length b = n \<Longrightarrow> flow\<^sup>*\<^sup>* ((f (Inr b), s), y, out, ret) d \<Longrightarrow>
    flow\<^sup>*\<^sup>* ((andthen (read_exact g n) f, s), y, out, b @ ret) d"
  by (rule flow_left [where b = "[]"]) (simp_all add: read_exact_def)

lemma right_read: "length b = n \<Longrightarrow> flow\<^sup>*\<^sup>* (x, (f (Inr b), s), out, ret) d \<Longrightarrow>
    flow\<^sup>*\<^sup>* (x, (andthen (read_exact g n) f, s), b @ out, ret) d"
  by (rule flow_right [where b = "[]"]) (simp_all add: read_exact_def)

lemma left_local: "m s = (r, t) \<Longrightarrow> flow\<^sup>*\<^sup>* ((f r, t), y, out, ret) d \<Longrightarrow>
    flow\<^sup>*\<^sup>* ((andthen (locally m) f, s), y, out, ret) d"
  by (rule flow_left [where b = "[]"]) (simp_all add: locally_def)

lemma right_local: "m s = (r, t) \<Longrightarrow> flow\<^sup>*\<^sup>* (x, (f r, t), out, ret) d \<Longrightarrow>
    flow\<^sup>*\<^sup>* (x, (andthen (locally m) f, s), out, ret) d"
  by (rule flow_right [where b = "[]"]) (simp_all add: locally_def)

text \<open>The rules for a sequence, the errors out of the way.\<close>

lemma left_seq:
  "flow\<^sup>*\<^sup>* ((p (), s), y, out @ b, ret) d \<Longrightarrow> flow\<^sup>*\<^sup>* ((bindP (write_all g b) p, s), y, out, ret) d"
  "length b = n \<Longrightarrow> flow\<^sup>*\<^sup>* ((q b, s), y, out, ret) d \<Longrightarrow>
   flow\<^sup>*\<^sup>* ((bindP (read_exact g n) q, s), y, out, b @ ret) d"
  "m s = (Inr v, t) \<Longrightarrow> flow\<^sup>*\<^sup>* ((f v, t), y, out, ret) d \<Longrightarrow>
   flow\<^sup>*\<^sup>* ((bindP (locally m) f, s), y, out, ret) d"
  unfolding bindP_def by (rule left_write left_read left_local [where r = "Inr v"]; simp)+

lemma right_seq:
  "flow\<^sup>*\<^sup>* (x, (p (), s), out, ret @ b) d \<Longrightarrow> flow\<^sup>*\<^sup>* (x, (bindP (write_all g b) p, s), out, ret) d"
  "length b = n \<Longrightarrow> flow\<^sup>*\<^sup>* (x, (q b, s), out, ret) d \<Longrightarrow>
   flow\<^sup>*\<^sup>* (x, (bindP (read_exact g n) q, s), b @ out, ret) d"
  "m s = (Inr v, t) \<Longrightarrow> flow\<^sup>*\<^sup>* (x, (f v, t), out, ret) d \<Longrightarrow>
   flow\<^sup>*\<^sup>* (x, (bindP (locally m) f, s), out, ret) d"
  unfolding bindP_def by (rule right_write right_read right_local [where r = "Inr v"]; simp)+

lemma andthen_bindP: "andthen (bindP m f) k = andthen m (\<lambda>r. case r of Inl e \<Rightarrow> k (Inl e) | Inr x \<Rightarrow> andthen (f x) k)"
  unfolding bindP_def andthen_assoc by (intro arg_cong [where f = "andthen m"] ext) (simp split: sum.split)

lemma ended_stuck: "\<nexists>f. flow ((Ends r, s), (Ends q, t), out, ret) f"
  by (auto elim: flow.cases)

section \<open>A faulty network may also be calm\<close>

lemma calm_step:
  assumes "calm x i over (x', i', b)"
  shows "(side_step R x (Sent b) x' \<and> i' = i) \<or> (\<exists>g. side_step R x (Got g) x' \<and> i = g @ i' \<and> b = []) \<or>
    (side_step R x Quiet x' \<and> i' = i \<and> b = [])"
proof -
  obtain p s where x: "x = (p, s)" by (cases x)
  show ?thesis
  proof (cases p)
    case (Writes c k)
    then show ?thesis using assms x side_step.wrote by fastforce
  next
    case (Reads n k)
    show ?thesis
    proof (cases "n \<le> length i")
      case True
      then have "side_step R (Reads n k, s) (Got (take n i)) (k (Inr (take n i)), s)"
        by (intro side_step.got) simp
      then show ?thesis using assms x Reads True by (intro disjI2 disjI1 exI [of _ "take n i"]) simp
    next
      case False
      then have "side_step R (Reads n k, s) (Got i) (k (Inl ''unexpected end of file''), s)"
        by (intro side_step.read_failed) simp
      then show ?thesis using assms x Reads False by (intro disjI2 disjI1 exI [of _ i]) simp
    qed
  next
    case (Does h)
    then show ?thesis using assms x side_step.did [of R h s] by simp
  qed (use assms x in simp)
qed

lemma flow_net: "flow c d \<Longrightarrow> net_step R S c d"
proof (induction rule: flow.induct)
  case (left x ret y x' ret' b out)
  from calm_step [OF left, of R] show ?case
  proof (elim disjE exE conjE)
    fix g assume "side_step R x (Got g) x'" "ret = g @ ret'" "b = []"
    then show ?thesis using net_step.left_got by simp
  qed (simp_all add: net_step.left_sent net_step.left_quiet)
next
  case (right y out x y' out' b ret)
  from calm_step [OF right, of S] show ?case
  proof (elim disjE exE conjE)
    fix g assume "side_step S y (Got g) y'" "out = g @ out'" "b = []"
    then show ?thesis using net_step.right_got by simp
  qed (simp_all add: net_step.right_sent net_step.right_quiet)
qed

lemma flows_net: "flow\<^sup>*\<^sup>* c d \<Longrightarrow> (net_step R S)\<^sup>*\<^sup>* c d"
  by (induction rule: rtranclp_induct) (auto intro: rtranclp.rtrancl_into_rtrancl flow_net)

end
