(* ===== verification/Sync.thy ===== *)
theory Sync
  imports Fold Wire
begin

text \<open>
  \<^verbatim>\<open>src/sync.rs\<close>: how two devices of one root come to hold the same update. The dialer's and the
  server's side of an exchange are programs over the byte stream of the component above, reading and
  writing what the source reads and writes, in its order; then the devices an exchange is made with
  and the round over them. BLAKE3 is the argument \<open>h\<close>; the address book, the invitation and the
  network under a dial are what they answer.
\<close>

section \<open>The wire\<close>

definition EACH :: nat where "EACH = 5000"
definition STALE :: u64 where "STALE = 3600"
definition EXCHANGE :: u8 where "EXCHANGE = 1"
definition SAME :: u8 where "SAME = 0"
definition MINE :: u8 where "MINE = 1"
definition SEND_YOURS :: u8 where "SEND_YOURS = 2"
definition BOTH :: u8 where "BOTH = 3"
definition FOLDED :: u8 where "FOLDED = 0"
definition REFUSED :: u8 where "REFUSED = 2"
definition FORK_RECORDED :: u8 where "FORK_RECORDED = 3"
definition NONE_YET :: bytes where "NONE_YET = replicate 32 0"

lemmas wire_consts [source_consts] = EXCHANGE_def SAME_def MINE_def SEND_YOURS_def BOTH_def FOLDED_def
  REFUSED_def FORK_RECORDED_def

datatype answer = AnsweredSame | Took | Forked | Gave | ForkRecorded (floor_of: u64) | Refused

datatype exchange_error =
    XNotADevice
  | XStanding standing_error
  | XIo string
  | Protocol
  | NotHeld
  | XTooLarge
  | XFold fold_error
  | NotAdmitted
  | XDial string

definition digest :: "(bytes \<Rightarrow> bytes) \<Rightarrow> bytes \<Rightarrow> bytes" where
  "digest h b = (if b = [] then NONE_YET else h b)"

section \<open>What a side reads of its home\<close>

text \<open>The files an exchange touches: the home, and the time of the last exchange.\<close>

record 'd peer =
  pe_home :: "'d home"
  pe_synced :: file_read

text \<open>What a side observes: of its one fold, its one fold of a fork, and its record of the exchange.\<close>

record sync_obs =
  so_lock :: "string option"
  so_fold :: fold_obs
  so_fork_lock :: "string option"
  so_fork :: fold_obs
  so_now :: systime
  so_touch_fails :: bool

definition device_pin :: "env \<Rightarrow> 'd denylist_ops \<Rightarrow> 'd home \<Rightarrow> exchange_error + verify_key option" where
  "device_pin E D H =
     bindR (map_err XStanding (standing_read E D H)) (\<lambda>st.
     case st of
       StDevice pin _ \<Rightarrow> bindR (map_err XStanding (pin_key E pin)) (\<lambda>k. Inr (Some k))
     | HoldsRoot pin _ \<Rightarrow> bindR (map_err XStanding (pin_key E pin)) (\<lambda>k. Inr (Some k))
     | Unpinned \<Rightarrow> Inr None
     | InterruptedMint _ \<Rightarrow> Inr None)"

definition held_update :: "env \<Rightarrow> 'd home \<Rightarrow> verify_key \<Rightarrow> u64 \<times> bytes" where
  "held_update E H pin =
     (case read_held E (h_devices H) pin of
        None \<Rightarrow> (UNVERSIONED, [])
      | Some (doc, b) \<Rightarrow> (epoch doc, b))"

definition kept_fork :: "env \<Rightarrow> 'd home \<Rightarrow> verify_key \<Rightarrow> bytes" where
  "kept_fork E H pin = (case read_held E (h_conflict H) pin of None \<Rightarrow> [] | Some (_, b) \<Rightarrow> b)"

definition fold_here ::
  "env \<Rightarrow> 'd denylist_ops \<Rightarrow> sync_obs \<Rightarrow> bytes \<Rightarrow> ('d peer, fold_error, folded) act" where
  "fold_here E D ob b s =
     (case so_lock ob of
        Some e \<Rightarrow> (Inl (FoLock e), s)
      | None \<Rightarrow> (case fold_update E D (so_fold ob) b (pe_home s) of (r, H) \<Rightarrow> (r, s\<lparr>pe_home := H\<rparr>)))"

definition fold_fork_here ::
  "env \<Rightarrow> 'd denylist_ops \<Rightarrow> sync_obs \<Rightarrow> bytes \<Rightarrow> ('d peer, fold_error, unit) act" where
  "fold_fork_here E D ob b s =
     (case so_fork_lock ob of
        Some e \<Rightarrow> (Inl (FoLock e), s)
      | None \<Rightarrow> (case fold_fork E D (so_fork ob) b (pe_home s) of (r, H) \<Rightarrow> (r, s\<lparr>pe_home := H\<rparr>)))"

text \<open>\<open>trying\<close> hands the caller the result of a call as a value, for the callers that log an error and go on.\<close>

definition trying :: "('s, 'e, 'a) act \<Rightarrow> ('s, 'f, 'e + 'a) act" where
  "trying f s = (case f s of (r, t) \<Rightarrow> (Inr r, t))"

section \<open>Updates on the wire\<close>

definition wire_flush :: "('s, exchange_error + unit) proc" where
  "wire_flush = write_all XIo []"

definition write_update :: "bytes \<Rightarrow> ('s, exchange_error + unit) proc" where
  "write_update b =
     (if length b < 2 ^ 32 then
        bindP (write_all XIo (be_bytes 4 (length b))) (\<lambda>_.
        bindP (write_all XIo b) (\<lambda>_.
        wire_flush))
      else Ends (Inl XTooLarge))"

definition read_update :: "('s, exchange_error + bytes) proc" where
  "read_update =
     bindP (read_exact XIo 4) (\<lambda>n.
     if from_be n > MAX_ROSTER_BLOB then Ends (Inl XTooLarge) else read_exact XIo (from_be n))"

definition take_fork :: "env \<Rightarrow> 'd denylist_ops \<Rightarrow> sync_obs \<Rightarrow> ('d peer, exchange_error + unit) proc" where
  "take_fork E D ob =
     bindP read_update (\<lambda>fork.
     if fork = [] then Ends (Inr ())
     else bindP (locally (trying (fold_fork_here E D ob fork))) (\<lambda>_. Ends (Inr ())))"

definition touch_synced :: "sync_obs \<Rightarrow> ('d peer, exchange_error + unit) proc" where
  "touch_synced ob =
     locally (\<lambda>s. (Inr (), if so_touch_fails ob then s
       else s\<lparr>pe_synced := Contents (show_u64 (unix_now (so_now ob)) @ [newline])\<rparr>))"

text \<open>After the updates: the forks pass, a failure of which changes nothing, and the exchange is recorded.\<close>

definition finish_with ::
  "sync_obs \<Rightarrow> ('d peer, exchange_error + unit) proc \<Rightarrow> 'a \<Rightarrow> ('d peer, exchange_error + 'a) proc" where
  "finish_with ob forks x =
     andthen forks (\<lambda>_. bindP (touch_synced ob) (\<lambda>_. Ends (Inr x)))"

section \<open>The dialer\<close>

text \<open>What follows the server's code: the answer, or \<open>None\<close> when neither side holds an update.\<close>

definition dial_answer ::
  "env \<Rightarrow> 'd denylist_ops \<Rightarrow> (bytes \<Rightarrow> bytes) \<Rightarrow> sync_obs \<Rightarrow> bytes \<Rightarrow> u8 \<Rightarrow>
   ('d peer, exchange_error + answer option) proc" where
  "dial_answer E D h ob b c =
     (let named = digest h b in
      if c = SAME then
        bindP (read_exact XIo 32) (\<lambda>theirs.
        if theirs \<noteq> named then Ends (Inl NotHeld)
        else if theirs = NONE_YET then Ends (Inr None)
        else Ends (Inr (Some AnsweredSame)))
      else if c = MINE \<or> c = BOTH then
        bindP read_update (\<lambda>theirs.
        if digest h theirs = named then Ends (Inl Protocol)
        else
          bindP (if c = BOTH then write_update b else Ends (Inr ())) (\<lambda>_.
          bindP (locally (map_errS XFold (fold_here E D ob theirs))) (\<lambda>f.
          Ends (case f of
              Newer \<Rightarrow> Inr (Some Took)
            | Same \<Rightarrow> Inr (Some Took)
            | Fork _ \<Rightarrow> Inr (Some Forked)
            | NotNewer \<Rightarrow> Inl Protocol))))
      else if c = SEND_YOURS then
        bindP (write_update b) (\<lambda>_.
        bindP (read_exact XIo 1) (\<lambda>r.
        if hd r = FOLDED then Ends (Inr (Some Gave))
        else if hd r = REFUSED then Ends (Inr (Some Refused))
        else if hd r = FORK_RECORDED then
          bindP (read_exact XIo 8) (\<lambda>n. Ends (Inr (Some (ForkRecorded (of_nat (from_be n))))))
        else Ends (Inl Protocol)))
      else Ends (Inl Protocol))"

definition dial_with ::
  "env \<Rightarrow> 'd denylist_ops \<Rightarrow> (bytes \<Rightarrow> bytes) \<Rightarrow> sync_obs \<Rightarrow> verify_key \<Rightarrow> u64 \<Rightarrow> bytes \<Rightarrow>
   ('d peer, exchange_error + answer) proc" where
  "dial_with E D h ob pin number b =
     bindP (write_all XIo (EXCHANGE # be_bytes 8 (unat number) @ digest h b)) (\<lambda>_.
     bindP wire_flush (\<lambda>_.
     bindP (locally (getS (\<lambda>s. Inr (kept_fork E (pe_home s) pin)))) (\<lambda>fork.
     bindP (read_exact XIo 1) (\<lambda>c.
     bindP (dial_answer E D h ob b (hd c)) (\<lambda>a.
     case a of
       None \<Rightarrow> bindP (touch_synced ob) (\<lambda>_. Ends (Inr AnsweredSame))
     | Some a \<Rightarrow>
         finish_with ob
           (bindP (write_update fork) (\<lambda>_.
            bindP wire_flush (\<lambda>_.
            take_fork E D ob))) a)))))"

definition this_pin :: "env \<Rightarrow> 'd denylist_ops \<Rightarrow> ('d peer, exchange_error + verify_key) proc" where
  "this_pin E D =
     locally (getS (\<lambda>s. bindR (device_pin E D (pe_home s)) (ok_or XNotADevice)))"

definition exchange ::
  "env \<Rightarrow> 'd denylist_ops \<Rightarrow> (bytes \<Rightarrow> bytes) \<Rightarrow> sync_obs \<Rightarrow> ('d peer, exchange_error + answer) proc" where
  "exchange E D h ob =
     bindP (this_pin E D) (\<lambda>pin.
     bindP (locally (getS (\<lambda>s. Inr (held_update E (pe_home s) pin)))) (\<lambda>(number, b).
     dial_with E D h ob pin number b))"

definition offer ::
  "env \<Rightarrow> 'd denylist_ops \<Rightarrow> (bytes \<Rightarrow> bytes) \<Rightarrow> sync_obs \<Rightarrow> u64 \<Rightarrow> bytes \<Rightarrow>
   ('d peer, exchange_error + answer) proc" where
  "offer E D h ob number b = bindP (this_pin E D) (\<lambda>pin. dial_with E D h ob pin number b)"

section \<open>The server\<close>

definition answer_reply :: "fold_error + folded \<Rightarrow> bytes" where
  "answer_reply r =
     (case r of
        Inr Newer \<Rightarrow> [FOLDED]
      | Inr Same \<Rightarrow> [FOLDED]
      | Inr (Fork n) \<Rightarrow> FORK_RECORDED # be_bytes 8 (unat n)
      | Inr NotNewer \<Rightarrow> [REFUSED]
      | Inl _ \<Rightarrow> [REFUSED])"

text \<open>The answer to a request; its value says whether neither side holds an update.\<close>

definition answer_update ::
  "env \<Rightarrow> 'd denylist_ops \<Rightarrow> (bytes \<Rightarrow> bytes) \<Rightarrow> sync_obs \<Rightarrow> u64 \<Rightarrow> bytes \<Rightarrow> u64 \<Rightarrow> bytes \<Rightarrow>
   ('d peer, exchange_error + bool) proc" where
  "answer_update E D h ob theirs their_digest mine b =
     (if theirs = mine \<and> their_digest = digest h b then
        bindP (write_all XIo [SAME]) (\<lambda>_.
        bindP (write_all XIo (digest h b)) (\<lambda>_.
        Ends (Inr (digest h b = NONE_YET))))
      else if mine > theirs then
        bindP (write_all XIo [MINE]) (\<lambda>_.
        bindP (write_update b) (\<lambda>_.
        Ends (Inr False)))
      else if mine = theirs \<and> b \<noteq> [] then
        bindP (write_all XIo [BOTH]) (\<lambda>_.
        bindP (write_update b) (\<lambda>_.
        bindP read_update (\<lambda>update.
        bindP (locally (trying (fold_here E D ob update))) (\<lambda>_.
        Ends (Inr False)))))
      else
        bindP (write_all XIo [SEND_YOURS]) (\<lambda>_.
        bindP wire_flush (\<lambda>_.
        bindP read_update (\<lambda>update.
        bindP (locally (trying (fold_here E D ob update))) (\<lambda>r.
        bindP (write_all XIo (answer_reply r)) (\<lambda>_.
        Ends (Inr False)))))))"

definition answer_exchange ::
  "env \<Rightarrow> 'd denylist_ops \<Rightarrow> (bytes \<Rightarrow> bytes) \<Rightarrow> sync_obs \<Rightarrow> ('d peer, exchange_error + unit) proc" where
  "answer_exchange E D h ob =
     bindP (read_exact XIo 1) (\<lambda>c.
     if hd c \<noteq> EXCHANGE then Ends (Inl Protocol)
     else
       bindP (read_exact XIo 8) (\<lambda>n.
       bindP (read_exact XIo 32) (\<lambda>their_digest.
       bindP (locally (getS (\<lambda>s. device_pin E D (pe_home s)))) (\<lambda>device.
       case device of
         None \<Rightarrow>
           bindP (write_all XIo [SAME]) (\<lambda>_.
           bindP (write_all XIo NONE_YET) (\<lambda>_.
           wire_flush))
       | Some pin \<Rightarrow>
           bindP (locally (getS (\<lambda>s. Inr (held_update E (pe_home s) pin)))) (\<lambda>(mine, b).
           bindP (locally (getS (\<lambda>s. Inr (kept_fork E (pe_home s) pin)))) (\<lambda>fork.
           bindP (answer_update E D h ob (of_nat (from_be n)) their_digest mine b) (\<lambda>neither.
           if neither then bindP wire_flush (\<lambda>_. touch_synced ob)
           else
             bindP wire_flush (\<lambda>_.
             finish_with ob
               (bindP (take_fork E D ob) (\<lambda>_.
                bindP (write_update fork) (\<lambda>_.
                wire_flush))) ()))))))))"

end
