(* ===== verification/Sync_Laws.thy ===== *)
theory Sync_Laws
  imports Sync "HOL-Library.Sublist"
begin

text \<open>
  What an exchange keeps and what its answers mean. Whatever the peer sends, whatever fails and
  whatever other programs fold meanwhile, a home moves only by folds; an answer is a statement about
  the bytes that passed and the home left; and between two devices of a root a calm exchange ends with
  both holding the later update, in whatever order their steps run.
\<close>

section \<open>What an exchange may do to a home\<close>

definition peer_moves :: "env \<Rightarrow> 'd denylist_ops \<Rightarrow> 'd peer \<Rightarrow> 'd peer \<Rightarrow> bool" where
  "peer_moves E D s t \<longleftrightarrow> (fold_step E D)\<^sup>*\<^sup>* (pe_home s) (pe_home t)"

lemma peer_moves_order: "reflp (peer_moves E D)" "transp (peer_moves E D)"
  by (auto simp: peer_moves_def reflp_def transp_def)

lemma fold_here_moves: "fold_here E D ob b s = (r, t) \<Longrightarrow> peer_moves E D s t"
proof -
  assume "fold_here E D ob b s = (r, t)"
  moreover have "fold_step E D (pe_home s) (snd (fold_update E D (so_fold ob) b (pe_home s)))"
    by (rule fold_step.update)
  ultimately show ?thesis by (auto simp: fold_here_def peer_moves_def split: option.splits prod.splits)
qed

lemma fold_fork_here_moves: "fold_fork_here E D ob b s = (r, t) \<Longrightarrow> peer_moves E D s t"
proof -
  assume "fold_fork_here E D ob b s = (r, t)"
  moreover have "fold_step E D (pe_home s) (snd (fold_fork E D (so_fork ob) b (pe_home s)))"
    by (rule fold_step.fork)
  ultimately show ?thesis by (auto simp: fold_fork_here_def peer_moves_def split: option.splits prod.splits)
qed

text \<open>What stays true of a device while updates fold: it holds nothing older, and revokes nothing less.\<close>

definition at_least :: "env \<Rightarrow> verify_key \<Rightarrow> u64 \<Rightarrow> 'd peer \<Rightarrow> bool" where
  "at_least E pin n s \<longleftrightarrow> n \<le> held_epoch E pin (pe_home s)"

text \<open>A device of the root \<open>pin\<close> at the start of a run, at any later moment of it.\<close>

definition device_since :: "env \<Rightarrow> 'd denylist_ops \<Rightarrow> verify_key \<Rightarrow> 'd home \<Rightarrow> 'd peer \<Rightarrow> bool" where
  "device_since E D pin H s \<longleftrightarrow> (\<exists>til. fold_pin E D H = Inr (pin, til)) \<and> (fold_step E D)\<^sup>*\<^sup>* H (pe_home s)"

lemma device_since_moves: "device_since E D pin H s \<Longrightarrow> peer_moves E D s t \<Longrightarrow> device_since E D pin H t"
  by (auto simp: device_since_def peer_moves_def)

lemma device_since_pin:
  "device_since E D pin H s \<Longrightarrow> fold_pin E D (pe_home s) = Inr (pin', til') \<Longrightarrow> pin' = pin"
  using folds_root fold_pin_same unfolding device_since_def by metis

lemma at_least_moves:
  assumes "device_since E D pin H s" "peer_moves E D s t" "at_least E pin n s"
  shows "at_least E pin n t"
proof -
  have "(fold_step E D)\<^sup>*\<^sup>* (pe_home s) (pe_home t)" using assms(2) by (simp add: peer_moves_def)
  then have "held_epoch E pin (pe_home s) \<le> held_epoch E pin (pe_home t)"
  proof (induction rule: rtranclp_induct)
    case (step H1 H2)
    have "held_epoch E pin H1 \<le> held_epoch E pin H2"
    proof (cases "fold_pin E D H1")
      case (Inl e)
      then show ?thesis using fold_step_failed [OF step(2)] by simp
    next
      case (Inr p)
      obtain pin1 til1 where p: "p = (pin1, til1)" by (cases p)
      have "(fold_step E D)\<^sup>*\<^sup>* H H1" using assms(1) step(1) by (auto simp: device_since_def)
      then have "pin1 = pin" using assms(1) folds_root fold_pin_same Inr p unfolding device_since_def by metis
      then show ?thesis using fold_step_epoch [OF step(2)] Inr p by blast
    qed
    then show ?case using step.IH by simp
  qed simp
  then show ?thesis using assms(3) by (simp add: at_least_def)
qed

lemma held_at_least: "read_held E (h_devices (pe_home s)) pin = Some (doc, b) \<Longrightarrow> at_least E pin (epoch doc) s"
  by (simp add: at_least_def held_epoch_def)

text \<open>What the fold of an update another device sent leaves, however it ends well.\<close>

lemma fold_here_at_least:
  assumes "grow_only D" "device_since E D pin H s" "fold_here E D ob b s = (Inr f, t)"
  shows "\<exists>doc. roster_verify (en_nauthy E) b pin = Inr doc \<and> (f \<noteq> NotNewer \<longrightarrow> at_least E pin (epoch doc) t)"
proof -
  obtain H' where u: "fold_update E D (so_fold ob) b (pe_home s) = (Inr f, H')" "pe_home t = H'"
    using assms(3) by (auto simp: fold_here_def split: option.splits prod.splits)
  obtain pin' til doc where p: "fold_pin E D (pe_home s) = Inr (pin', til)" "fold_doc E b pin' = Inr doc"
    using fold_update_pin_doc [OF u(1)] by blast
  have pin: "pin' = pin" using device_since_pin [OF assms(2) p(1)] .
  have "f \<noteq> NotNewer \<longrightarrow> at_least E pin (epoch doc) t"
  proof (cases f)
    case Same
    then show ?thesis using u p(2) fold_update_at [OF p, of "so_fold ob"] unfolding pin
      by (auto simp: at_least_def bindS_Inr split: if_splits option.splits)
  next
    case (Fork n)
    from fold_update_fork [OF assms(1) u(1) [unfolded Fork]] show ?thesis
      using p u(2) pin by (auto simp: at_least_def held_epoch_def fold_doc_Inr)
  next
    case Newer
    from fold_update_newer [OF assms(1) u(1) [unfolded Newer]] show ?thesis
      using p u(2) pin by (auto simp: at_least_def held_epoch_def fold_doc_Inr)
  qed simp
  then show ?thesis using p(2) pin by (auto simp: fold_doc_Inr)
qed

lemma stable_device: "stable (peer_moves E D) (device_since E D pin H)"
  using device_since_moves by (auto simp: stable_def)

lemma stable_at_least: "stable (peer_moves E D) (\<lambda>s. device_since E D pin H s \<and> (P \<longrightarrow> at_least E pin n s))"
  using device_since_moves at_least_moves by (fastforce simp: stable_def)

lemma trying_Inr: "trying f s = (Inr x, t) \<longleftrightarrow> f s = (x, t)" "trying f s \<noteq> (Inl e, t)"
  by (auto simp: trying_def split: prod.split)

section \<open>Rules for the parts of an exchange\<close>

lemma safe_at_write_update:
  assumes "stable R A" "\<And>p s. prefix p (be_bytes 4 (length b) @ b) \<Longrightarrow> A s \<Longrightarrow> J i (j @ p) s"
    "length b < 2 ^ 32 \<Longrightarrow> safe_at R J Q A i (j @ be_bytes 4 (length b) @ b) (f ())"
    "\<And>p s e. prefix p (be_bytes 4 (length b) @ b) \<Longrightarrow> A s \<Longrightarrow> Q (Inl e) i (j @ p) s"
  shows "safe_at R J Q A i j (bindP (write_update b) f)"
proof (cases "length b < 2 ^ 32")
  case False
  then show ?thesis
    using assms(2,4) [of "[]"] by (auto simp: write_update_def intro!: safe_at_ends assms(1))
next
  case True
  have p: "prefix (take n l) (l @ b)" "prefix (l @ take n b) (l @ b)" "prefix l (l @ b)" for n and l :: bytes
    using take_is_prefix prefix_prefix by (simp_all, blast)
  show ?thesis using True unfolding write_update_def wire_flush_def
    by (auto intro!: safe_at_write assms(2,4) p assms(3)
      simp: assms(2) [of "[]", simplified] assms(3) [simplified])
qed

lemma safe_at_read_update:
  assumes "stable R A" "\<And>s x. A s \<Longrightarrow> J (i @ x) j s"
    "\<And>b. length b \<le> MAX_ROSTER_BLOB \<Longrightarrow> safe_at R J Q A (i @ be_bytes 4 (length b) @ b) j (f b)"
    "\<And>x s e. A s \<Longrightarrow> Q (Inl e) (i @ x) j s"
  shows "safe_at R J Q A i j (bindP read_update f)"
proof -
  have read: "safe_at R J Q A i j (bindP (read_exact XIo 4) (\<lambda>n. bindP (if from_be n > MAX_ROSTER_BLOB
      then Ends (Inl XTooLarge) else read_exact XIo (from_be n)) f))"
  proof (rule safe_at_read [OF _ assms(1)])
    show "A s \<Longrightarrow> J i j s" for s using assms(2) [of s "[]"] by simp
    show "A s \<Longrightarrow> J (i @ x) j s \<and> Q (Inl (XIo e)) (i @ x) j s" for x s e using assms(2,4) by simp
    fix n :: bytes assume n: "length n = 4"
    show "safe_at R J Q A (i @ n) j (bindP (if from_be n > MAX_ROSTER_BLOB
        then Ends (Inl XTooLarge) else read_exact XIo (from_be n)) f)"
    proof (cases "from_be n > MAX_ROSTER_BLOB")
      case True
      then show ?thesis using assms(2,4) by (auto intro!: safe_at_ends assms(1))
    next
      case False
      have l: "be_bytes 4 (from_be n) = n" using be_bytes_from_be [of n] n by simp
      show ?thesis unfolding if_not_P [OF False]
      proof (rule safe_at_read [OF _ assms(1)])
        show "A s \<Longrightarrow> J (i @ n) j s" for s using assms(2) by simp
        show "A s \<Longrightarrow> J ((i @ n) @ x) j s \<and> Q (Inl (XIo e)) ((i @ n) @ x) j s" for x s e
          using assms(2) [of s "n @ x"] assms(4) [of s _ "n @ x"] by simp
        show "length x = from_be n \<Longrightarrow> safe_at R J Q A ((i @ n) @ x) j (f x)" for x
          using assms(3) [of x] False l by simp
      qed
    qed
  qed
  then show ?thesis unfolding read_update_def bindP_assoc .
qed

text \<open>A part of an exchange that may send and take what it likes, while the state keeps \<open>A\<close>.\<close>

abbreviation idle ::
  "env \<Rightarrow> 'd denylist_ops \<Rightarrow> (bytes \<Rightarrow> bytes \<Rightarrow> 'd peer \<Rightarrow> bool) \<Rightarrow> ('d peer \<Rightarrow> bool) \<Rightarrow> bytes \<Rightarrow> bytes \<Rightarrow>
   bytes \<Rightarrow> bytes \<Rightarrow> ('d peer, 'a) proc \<Rightarrow> bool" where
  "idle E D J A i j i' j' \<equiv> safe_at (peer_moves E D) J
     (\<lambda>r i'' j'' s. \<exists>x y. i'' = i @ x \<and> j'' = j @ y \<and> A s) A i' j'"

lemma idle_take_fork:
  assumes "stable (peer_moves E D) A" "\<And>s x y. A s \<Longrightarrow> J (i @ x) (j @ y) s"
    "\<And>x. idle E D J A i j (i @ x) (j @ y) (f ())"
  shows "idle E D J A i j (i @ x) (j @ y) (bindP (take_fork E D ob) f)"
  unfolding take_fork_def bindP_assoc
proof (rule safe_at_read_update [OF assms(1)])
  fix b
  have moved: "A s \<Longrightarrow> trying (fold_fork_here E D ob b) s = (Inr r, t) \<Longrightarrow> A t" for s r t
    using assms(1) fold_fork_here_moves unfolding trying_Inr stable_def by metis
  show "idle E D J A i j ((i @ x) @ be_bytes 4 (length b) @ b) (j @ y) (bindP
      (if b = [] then Ends (Inr ())
       else bindP (locally (trying (fold_fork_here E D ob b))) (\<lambda>_. Ends (Inr ()))) f)"
    using assms by (auto simp: trying_Inr(2) intro!: safe_at_local [where B = "\<lambda>_. A"] elim!: moved simp del: trying_Inr(1))
qed (use assms(2) in auto)

lemma safe_at_touch:
  assumes "stable (peer_moves E D) A" "\<And>s. A s \<Longrightarrow> J i j s"
    "safe_at (peer_moves E D) J Q A i j (f ())"
  shows "safe_at (peer_moves E D) J Q A i j (bindP (touch_synced ob) f)"
proof -
  have "A (s\<lparr>pe_synced := c\<rparr>)" if "A s" for s c
    using assms(1) that by (auto simp: stable_def peer_moves_def)
  then show ?thesis unfolding touch_synced_def
    using assms by (intro safe_at_local [where B = "\<lambda>_. A"]) (auto split: if_splits)
qed

lemma safe_at_finish:
  assumes "stable (peer_moves E D) A" "\<And>s x y. A s \<Longrightarrow> J (i @ x) (j @ y) s"
    "idle E D J A i j i j forks" "\<And>s x y. A s \<Longrightarrow> Q (Inr a) (i @ x) (j @ y) s"
  shows "safe_at (peer_moves E D) J Q A i j (finish_with ob forks a)"
  unfolding finish_with_def
proof (rule safe_at_then [OF peer_moves_order(1) assms(3)])
  fix r x y
  show "safe_at (peer_moves E D) J Q A (i @ x) (j @ y) (bindP (touch_synced ob) (\<lambda>_. Ends (Inr a)))"
    by (intro safe_at_touch safe_at_ends assms)
qed

lemma idle_write_update:
  assumes "stable (peer_moves E D) A" "\<And>s x y. A s \<Longrightarrow> J (i @ x) (j @ y) s"
    "\<And>y. idle E D J A i j (i @ x) (j @ y) (f ())"
  shows "idle E D J A i j (i @ x) (j @ y) (bindP (write_update b) f)"
  using assms by (intro safe_at_write_update) (auto simp: append_assoc)

lemma idle_flush:
  assumes "stable (peer_moves E D) A" "\<And>s x y. A s \<Longrightarrow> J (i @ x) (j @ y) s"
    "idle E D J A i j (i @ x) (j @ y) (f ())"
  shows "idle E D J A i j (i @ x) (j @ y) (bindP wire_flush f)"
  unfolding wire_flush_def using assms by (intro safe_at_write) auto

lemma idle_ends: "stable (peer_moves E D) A \<Longrightarrow> (\<And>s x y. A s \<Longrightarrow> J (i @ x) (j @ y) s) \<Longrightarrow>
    idle E D J A i j (i @ x) (j @ y) (Ends r)"
  by (intro safe_at_ends) auto

lemma idle_take_only:
  assumes "stable (peer_moves E D) A" "\<And>s x y. A s \<Longrightarrow> J (i @ x) (j @ y) s"
  shows "idle E D J A i j (i @ x) (j @ y) (take_fork E D ob)"
proof -
  have "idle E D J A i j (i @ x) (j @ y) (bindP (take_fork E D ob) (\<lambda>u. Ends (Inr u)))"
    by (intro idle_take_fork idle_ends assms)
  then show ?thesis by (simp only: bindP_Ends_Inr)
qed

lemma idle_flush_only:
  assumes "stable (peer_moves E D) A" "\<And>s x y. A s \<Longrightarrow> J (i @ x) (j @ y) s"
  shows "idle E D J A i j (i @ x) (j @ y) wire_flush"
proof -
  have "idle E D J A i j (i @ x) (j @ y) (bindP wire_flush (\<lambda>u. Ends (Inr u)))"
    by (intro idle_flush idle_ends assms)
  then show ?thesis by (simp only: bindP_Ends_Inr)
qed

lemma safe_at_dial_finish:
  assumes "stable (peer_moves E D) A" "\<And>s x y. A s \<Longrightarrow> J (i @ x) (j @ y) s"
    "\<And>s x y. A s \<Longrightarrow> Q (Inr a) (i @ x) (j @ y) s"
  shows "safe_at (peer_moves E D) J Q A i j (finish_with ob
     (bindP (write_update fork) (\<lambda>_. bindP wire_flush (\<lambda>_. take_fork E D ob))) a)"
proof (rule safe_at_finish)
  have "idle E D J A i j (i @ []) (j @ []) (bindP (write_update fork) (\<lambda>_. bindP wire_flush (\<lambda>_. take_fork E D ob)))"
    by (intro idle_write_update idle_flush idle_take_only assms(1,2))
  then show "idle E D J A i j i j (bindP (write_update fork) (\<lambda>_. bindP wire_flush (\<lambda>_. take_fork E D ob)))"
    by simp
qed (fact assms)+

lemma safe_at_answer_finish:
  assumes "stable (peer_moves E D) A" "\<And>s x y. A s \<Longrightarrow> J (i @ x) (j @ y) s"
    "\<And>s x y. A s \<Longrightarrow> Q (Inr a) (i @ x) (j @ y) s"
  shows "safe_at (peer_moves E D) J Q A i j (finish_with ob
     (bindP (take_fork E D ob) (\<lambda>_. bindP (write_update fork) (\<lambda>_. wire_flush))) a)"
proof (rule safe_at_finish)
  have "idle E D J A i j (i @ []) (j @ []) (bindP (take_fork E D ob) (\<lambda>_. bindP (write_update fork) (\<lambda>_. wire_flush)))"
    by (intro idle_take_fork idle_write_update idle_flush_only assms(1,2))
  then show "idle E D J A i j i j (bindP (take_fork E D ob) (\<lambda>_. bindP (write_update fork) (\<lambda>_. wire_flush)))"
    by simp
qed (fact assms)+

section \<open>What the dialer may conclude\<close>

definition request :: "(bytes \<Rightarrow> bytes) \<Rightarrow> u64 \<Rightarrow> bytes \<Rightarrow> bytes" where
  "request h number b = EXCHANGE # be_bytes 8 (unat number) @ digest h b"

text \<open>The peer sent another update than the one named, this root's, and the home holds none older.\<close>

definition another_update ::
  "env \<Rightarrow> (bytes \<Rightarrow> bytes) \<Rightarrow> verify_key \<Rightarrow> bytes \<Rightarrow> bytes \<Rightarrow> 'd peer \<Rightarrow> bool" where
  "another_update E h pin b i s \<longleftrightarrow>
     (\<exists>c theirs doc. (c = MINE \<or> c = BOTH) \<and> prefix (c # be_bytes 4 (length theirs) @ theirs) i \<and>
        digest h theirs \<noteq> digest h b \<and> roster_verify (en_nauthy E) theirs pin = Inr doc \<and>
        at_least E pin (epoch doc) s)"

text \<open>What each answer says of the bytes that passed and of the home the dialer is left with.\<close>

fun dialed ::
  "env \<Rightarrow> (bytes \<Rightarrow> bytes) \<Rightarrow> verify_key \<Rightarrow> u64 \<Rightarrow> bytes \<Rightarrow> answer \<Rightarrow> bytes \<Rightarrow> bytes \<Rightarrow> 'd peer \<Rightarrow> bool" where
  "dialed E h pin number b AnsweredSame i j s = prefix (SAME # digest h b) i"
| "dialed E h pin number b Took i j s = another_update E h pin b i s"
| "dialed E h pin number b Forked i j s = another_update E h pin b i s"
| "dialed E h pin number b Gave i j s =
     (prefix [SEND_YOURS, FOLDED] i \<and> prefix (request h number b @ be_bytes 4 (length b) @ b) j)"
| "dialed E h pin number b Refused i j s = prefix [SEND_YOURS, REFUSED] i"
| "dialed E h pin number b (ForkRecorded n) i j s =
     prefix (SEND_YOURS # FORK_RECORDED # be_bytes 8 (unat n)) i"

definition dialed_ok ::
  "env \<Rightarrow> (bytes \<Rightarrow> bytes) \<Rightarrow> verify_key \<Rightarrow> u64 \<Rightarrow> bytes \<Rightarrow> exchange_error + answer \<Rightarrow> bytes \<Rightarrow> bytes \<Rightarrow>
   'd peer \<Rightarrow> bool" where
  "dialed_ok E h pin number b r i j s \<longleftrightarrow> (\<forall>a. r = Inr a \<longrightarrow> dialed E h pin number b a i j s)"

lemma dialed_ok_Inl [simp]: "dialed_ok E h pin number b (Inl e) i j s"
  "dialed_ok E h pin number b (Inr a) i j s \<longleftrightarrow> dialed E h pin number b a i j s"
  by (simp_all add: dialed_ok_def)

lemma byte_read: "length x = 8 \<Longrightarrow> be_bytes 8 (unat (of_nat (from_be x) :: u64)) = x"
proof -
  assume l: "length x = 8"
  then have "from_be x < 2 ^ 64" using from_be_less [of x] by simp
  then have "unat (of_nat (from_be x) :: u64) = from_be x" by (simp add: unat_of_nat take_bit_nat_eq_self)
  then show ?thesis using be_bytes_from_be [of x] l by simp
qed

text \<open>The home after the fold of \<open>b\<close> that ended as \<open>f\<close>.\<close>

definition folded_in :: "env \<Rightarrow> verify_key \<Rightarrow> bytes \<Rightarrow> folded \<Rightarrow> 'd peer \<Rightarrow> bool" where
  "folded_in E pin b f s \<longleftrightarrow> (f \<noteq> NotNewer \<longrightarrow>
     (\<exists>doc. roster_verify (en_nauthy E) b pin = Inr doc \<and> at_least E pin (epoch doc) s))"

lemma stable_folded_in: "stable (peer_moves E D) (\<lambda>s. device_since E D pin H s \<and> folded_in E pin b f s)"
  using device_since_moves at_least_moves by (fastforce simp: stable_def folded_in_def)

lemma stable_tried: "stable (peer_moves E D)
    (\<lambda>s. device_since E D pin H s \<and> (\<forall>f. r = Inr f \<longrightarrow> folded_in E pin b f s))"
  using stable_device stable_folded_in by (cases r) auto

lemma fold_here_in:
  assumes "grow_only D" "device_since E D pin H s" "fold_here E D ob b s = (r, t)"
  shows "device_since E D pin H t \<and> (\<forall>f. r = Inr f \<longrightarrow> folded_in E pin b f t)"
  using fold_here_at_least [OF assms(1,2), of ob b _ t] device_since_moves [OF assms(2) fold_here_moves [OF assms(3)]]
    assms(3) by (auto simp: folded_in_def)

lemma safe_at_fold:
  assumes "grow_only D" "\<And>s. device_since E D pin H s \<Longrightarrow> J i j s"
    "\<And>s e. device_since E D pin H s \<Longrightarrow> Q (Inl e) i j s"
    "\<And>f. safe_at (peer_moves E D) J Q (\<lambda>s. device_since E D pin H s \<and> folded_in E pin b f s) i j (g f)"
  shows "safe_at (peer_moves E D) J Q (device_since E D pin H) i j
     (bindP (locally (map_errS XFold (fold_here E D ob b))) g)"
proof -
  have k: "device_since E D pin H t \<and> (\<forall>f. r = Inr f \<longrightarrow> folded_in E pin b f t)"
    if d: "device_since E D pin H s" and m: "map_errS XFold (fold_here E D ob b) s = (r, t)" for s r t
  proof -
    obtain q where "fold_here E D ob b s = (q, t)" "r = map_err XFold q"
      using m by (cases "fold_here E D ob b s") (auto simp: map_errS_def)
    then show ?thesis using fold_here_in [OF assms(1) d] by (cases q) auto
  qed
  show ?thesis
    by (rule safe_at_local [OF assms(2) stable_device _ assms(4)])
      (use k device_since_moves assms(2,3) in blast)+
qed

lemma safe_at_fold_tried:
  assumes "grow_only D" "\<And>s. device_since E D pin H s \<Longrightarrow> J i j s"
    "\<And>r. safe_at (peer_moves E D) J Q (\<lambda>s. device_since E D pin H s \<and> (\<forall>f. r = Inr f \<longrightarrow> folded_in E pin b f s)) i j (g r)"
  shows "safe_at (peer_moves E D) J Q (device_since E D pin H) i j (bindP (locally (trying (fold_here E D ob b))) g)"
  by (rule safe_at_local [OF assms(2) stable_device _ assms(3)])
    (use fold_here_in [OF assms(1)] in \<open>auto simp: trying_Inr\<close>)

lemma dialed_more: "dialed E h pin number b a i j s \<Longrightarrow> dialed E h pin number b a (i @ x) (j @ y) s"
proof -
  have "another_update E h pin b i s \<Longrightarrow> another_update E h pin b (i @ x) s"
    unfolding another_update_def by (metis prefix_prefix)
  then show "dialed E h pin number b a i j s \<Longrightarrow> dialed E h pin number b a (i @ x) (j @ y) s"
    by (cases a) (auto simp: prefix_prefix simp del: append_Cons)
qed

lemma wire_byte: "length x = Suc 0 \<longleftrightarrow> (\<exists>c. x = [c])"
  by (simp add: length_Suc_conv)

lemma dial_answer_safe:
  fixes H :: "'d home" and A :: "'d peer \<Rightarrow> bool"
  assumes "grow_only D"
    and over: "\<And>a B i j. stable (peer_moves E D) B \<Longrightarrow>
      (\<And>s. B s \<Longrightarrow> device_since E D pin H s \<and> dialed E h pin number b a i j s) \<Longrightarrow>
      safe_at (peer_moves E D) (\<lambda>i j. device_since E D pin H) (dialed_ok E h pin number b) B i j (g (Some a))"
    and none: "\<And>i j. digest h b = NONE_YET \<Longrightarrow> prefix (SAME # digest h b) i \<Longrightarrow>
      safe_at (peer_moves E D) (\<lambda>i j. device_since E D pin H) (dialed_ok E h pin number b)
        (device_since E D pin H) i j (g None)"
  shows "safe_at (peer_moves E D) (\<lambda>i j. device_since E D pin H) (dialed_ok E h pin number b)
     (device_since E D pin H) [c] (request h number b) (bindP (dial_answer E D h ob b c) g)"
proof -
  let ?S = "safe_at (peer_moves E D) (\<lambda>i j. device_since E D pin H) (dialed_ok E h pin number b)"
    and ?A = "device_since E D pin H" and ?q = "request h number b"
  note st = stable_device [of E D pin H]
  have fails: "?S ?A i j (Ends (Inl e))" for i j e
    by (intro safe_at_ends st) auto
  have same: "?S ?A [SAME] ?q (bindP (read_exact XIo 32) (\<lambda>theirs. bindP (if theirs \<noteq> digest h b
      then Ends (Inl NotHeld) else if theirs = NONE_YET then Ends (Inr None) else Ends (Inr (Some AnsweredSame))) g))"
    by (intro safe_at_read) (auto intro!: st fails none over)
  have took: "?S ?A (c # be_bytes 4 (length theirs) @ theirs) j
      (bindP (locally (map_errS XFold (fold_here E D ob theirs))) (\<lambda>f.
        bindP (Ends (case f of Newer \<Rightarrow> Inr (Some Took) | Same \<Rightarrow> Inr (Some Took) | Fork _ \<Rightarrow> Inr (Some Forked)
            | NotNewer \<Rightarrow> Inl Protocol)) g))"
    if c: "c = MINE \<or> c = BOTH" and d: "digest h theirs \<noteq> digest h b" for c theirs j
  proof (rule safe_at_fold [OF assms(1)])
    fix f
    have t: "another_update E h pin b (c # be_bytes 4 (length theirs) @ theirs) s"
      if "folded_in E pin theirs f s" "f \<noteq> NotNewer" for s f
      using that c d by (auto simp: folded_in_def another_update_def simp del: append_Cons)
    show "?S (\<lambda>s. ?A s \<and> folded_in E pin theirs f s) (c # be_bytes 4 (length theirs) @ theirs) j
      (bindP (Ends (case f of Newer \<Rightarrow> Inr (Some Took) | Same \<Rightarrow> Inr (Some Took) | Fork _ \<Rightarrow> Inr (Some Forked)
            | NotNewer \<Rightarrow> Inl Protocol)) g)"
      by (cases f) (auto intro!: over stable_folded_in safe_at_ends simp del: append_Cons elim!: t)
  qed auto
  have give: "?S ?A [SEND_YOURS] ?q (bindP (bindP (write_update b) (\<lambda>_. bindP (read_exact XIo 1) (\<lambda>r.
        if hd r = FOLDED then Ends (Inr (Some Gave))
        else if hd r = REFUSED then Ends (Inr (Some Refused))
        else if hd r = FORK_RECORDED then
          bindP (read_exact XIo 8) (\<lambda>n. Ends (Inr (Some (ForkRecorded (of_nat (from_be n))))))
        else Ends (Inl Protocol)))) g)"
    unfolding bindP_assoc
    by (intro safe_at_write_update safe_at_read)
      (auto simp: wire_byte byte_read intro!: st fails over safe_at_read)
  show ?thesis
  proof (cases "c = SAME")
    case True
    then show ?thesis using same by (simp add: dial_answer_def)
  next
    case s: False
    show ?thesis
    proof (cases "c = MINE \<or> c = BOTH")
      case True
      have "?S ?A [c] ?q (bindP read_update (\<lambda>theirs. bindP (if digest h theirs = digest h b then Ends (Inl Protocol)
        else bindP (if c = BOTH then write_update b else Ends (Inr ())) (\<lambda>_.
          bindP (locally (map_errS XFold (fold_here E D ob theirs))) (\<lambda>f.
          Ends (case f of Newer \<Rightarrow> Inr (Some Took) | Same \<Rightarrow> Inr (Some Took) | Fork _ \<Rightarrow> Inr (Some Forked)
            | NotNewer \<Rightarrow> Inl Protocol)))) g))"
        by (intro safe_at_read_update)
          (auto intro!: st fails safe_at_write_update took True)
      then show ?thesis using True s by (auto simp: dial_answer_def)
    next
      case False
      then show ?thesis using s give fails by (auto simp: dial_answer_def)
    qed
  qed
qed

lemma safe_at_flush:
  assumes "\<And>s. A s \<Longrightarrow> J i j s" "safe_at R J Q A i j (f ())" "\<And>s e. A s \<Longrightarrow> Q (Inl e) i j s"
  shows "safe_at R J Q A i j (bindP wire_flush f)"
  unfolding wire_flush_def using assms by (intro safe_at_write) auto

lemma dial_with_safe:
  assumes "grow_only D"
  shows "safe_at (peer_moves E D) (\<lambda>i j. device_since E D pin H) (dialed_ok E h pin number b)
     (device_since E D pin H) [] [] (dial_with E D h ob pin number b)"
proof -
  let ?S = "safe_at (peer_moves E D) (\<lambda>i j. device_since E D pin H) (dialed_ok E h pin number b)"
    and ?A = "device_since E D pin H" and ?q = "request h number b"
  note st = stable_device [of E D pin H]
  have q: "?S ?A [c] ?q (bindP (dial_answer E D h ob b c) (\<lambda>a. case a of
       None \<Rightarrow> bindP (touch_synced ob) (\<lambda>_. Ends (Inr AnsweredSame))
     | Some a \<Rightarrow> finish_with ob (bindP (write_update fork) (\<lambda>_. bindP wire_flush (\<lambda>_. take_fork E D ob))) a))" for c fork
    by (rule dial_answer_safe [OF assms])
      (auto intro!: safe_at_dial_finish safe_at_touch safe_at_ends st dialed_more)
  have pinned: "?S ?A [] ?q (bindP (locally (getS (\<lambda>s. Inr (kept_fork E (pe_home s) pin)))) (\<lambda>fork.
     bindP (read_exact XIo 1) (\<lambda>c.
     bindP (dial_answer E D h ob b (hd c)) (\<lambda>a. case a of
       None \<Rightarrow> bindP (touch_synced ob) (\<lambda>_. Ends (Inr AnsweredSame))
     | Some a \<Rightarrow> finish_with ob (bindP (write_update fork) (\<lambda>_. bindP wire_flush (\<lambda>_. take_fork E D ob))) a))))"
    by (intro safe_at_local [where B = "\<lambda>_. ?A"] safe_at_read) (auto simp: wire_byte intro!: st q)
  have "?S ?A [] ([] @ ?q) (bindP wire_flush (\<lambda>_. bindP (locally (getS (\<lambda>s. Inr (kept_fork E (pe_home s) pin)))) (\<lambda>fork.
     bindP (read_exact XIo 1) (\<lambda>c.
     bindP (dial_answer E D h ob b (hd c)) (\<lambda>a. case a of
       None \<Rightarrow> bindP (touch_synced ob) (\<lambda>_. Ends (Inr AnsweredSame))
     | Some a \<Rightarrow> finish_with ob (bindP (write_update fork) (\<lambda>_. bindP wire_flush (\<lambda>_. take_fork E D ob))) a)))))"
    by (intro safe_at_flush) (use pinned in auto)
  then show ?thesis unfolding dial_with_def request_def by (intro safe_at_write) auto
qed

section \<open>What the server may have said\<close>

text \<open>
  A server that said it folded what it took holds nothing older than what it took; one that said it
  holds the same held, when it said so, an update of the digest it named.
\<close>

definition answered_true ::
  "env \<Rightarrow> (bytes \<Rightarrow> bytes) \<Rightarrow> verify_key \<Rightarrow> bytes \<Rightarrow> bytes \<Rightarrow> 'd peer \<Rightarrow> bool" where
  "answered_true E h pin i j s \<longleftrightarrow>
     (prefix [SEND_YOURS, FOLDED] j \<longrightarrow> (\<exists>q theirs doc. length q = 41 \<and>
        prefix (q @ be_bytes 4 (length theirs) @ theirs) i \<and> length theirs \<le> MAX_ROSTER_BLOB \<and>
        roster_verify (en_nauthy E) theirs pin = Inr doc \<and> at_least E pin (epoch doc) s)) \<and>
     (\<forall>d. length d = 32 \<and> d \<noteq> NONE_YET \<and> prefix (SAME # d) j \<longrightarrow> (\<exists>doc b.
        digest h b = d \<and> roster_verify (en_nauthy E) b pin = Inr doc \<and> at_least E pin (epoch doc) s))"

lemma answered_moves:
  assumes "device_since E D pin H s" "peer_moves E D s t" "answered_true E h pin i j s"
  shows "answered_true E h pin i j t"
  using at_least_moves [OF assms(1,2)] assms(3) unfolding answered_true_def by blast

lemma answered_more_in: "answered_true E h pin i j s \<Longrightarrow> answered_true E h pin (i @ x) j s"
  unfolding answered_true_def by (metis prefix_prefix)

text \<open>What was said is decided by the code, the byte after it and, for the same, the digest.\<close>

lemma answered_more_out:
  assumes "answered_true E h pin i j s" "33 \<le> length j \<or> 2 \<le> length j \<and> hd j \<noteq> SAME"
  shows "answered_true E h pin i (j @ y) s"
proof -
  have p: "prefix xs (j @ y) \<Longrightarrow> prefix xs j" if "length xs \<le> length j" for xs
    using prefix_length_prefix [of xs "j @ y" j] that by auto
  have "prefix [SEND_YOURS, FOLDED] (j @ y) \<Longrightarrow> prefix [SEND_YOURS, FOLDED] j" using p assms(2) by auto
  moreover have "prefix (SAME # d) (j @ y) \<Longrightarrow> prefix (SAME # d) j" if "length d = 32" for d
    using p [of "SAME # d"] that assms(2) by (cases j) auto
  ultimately show ?thesis using assms(1) unfolding answered_true_def by blast
qed

lemma answered_start: "answered_true E h pin i [] s" "answered_true E h pin i [c] s"
  by (auto simp: answered_true_def)

lemma answered_mine: "c = MINE \<or> c = BOTH \<Longrightarrow> answered_true E h pin i (c # j) s"
  by (auto simp: answered_true_def wire_consts)

definition server_keeps ::
  "env \<Rightarrow> 'd denylist_ops \<Rightarrow> (bytes \<Rightarrow> bytes) \<Rightarrow> verify_key \<Rightarrow> 'd home \<Rightarrow> bytes \<Rightarrow> bytes \<Rightarrow> 'd peer \<Rightarrow> bool" where
  "server_keeps E D h pin H i j s \<longleftrightarrow> device_since E D pin H s \<and> answered_true E h pin i j s"

lemma server_keeps_more:
  "server_keeps E D h pin H i j s \<Longrightarrow> 33 \<le> length j \<or> 2 \<le> length j \<and> hd j \<noteq> SAME \<Longrightarrow>
   server_keeps E D h pin H (i @ x) (j @ y) s"
  using answered_more_in answered_more_out unfolding server_keeps_def by metis

lemma stable_keeps: "stable (peer_moves E D) (server_keeps E D h pin H i j)"
  using device_since_moves answered_moves unfolding stable_def server_keeps_def by blast

definition holds_update :: "env \<Rightarrow> verify_key \<Rightarrow> bytes \<Rightarrow> 'd peer \<Rightarrow> bool" where
  "holds_update E pin b s \<longleftrightarrow>
     b = [] \<or> (\<exists>doc. roster_verify (en_nauthy E) b pin = Inr doc \<and> at_least E pin (epoch doc) s)"

lemma stable_holds: "stable (peer_moves E D) (\<lambda>s. device_since E D pin H s \<and> holds_update E pin b s)"
  using device_since_moves at_least_moves by (fastforce simp: stable_def holds_update_def)

lemma answered_same:
  assumes "\<And>x. length (h x) = 32" "holds_update E pin b s"
  shows "answered_true E h pin i (SAME # take n (digest h b)) s"
proof -
  have l: "length (digest h b) = 32" using assms(1) by (simp add: digest_def NONE_YET_def)
  have "d = digest h b" if "length d = 32" "prefix d (take n (digest h b))" for d
    using that l prefix_length_le [OF that(2)] by (auto simp: prefix_def)
  moreover have "\<exists>doc c. digest h c = digest h b \<and> roster_verify (en_nauthy E) c pin = Inr doc \<and> at_least E pin (epoch doc) s"
    if "digest h b \<noteq> NONE_YET"
    using that assms(2) by (auto simp: holds_update_def digest_def)
  ultimately show ?thesis by (auto simp: answered_true_def wire_consts)
qed

lemma answered_reply:
  assumes "length q = 41" "length theirs \<le> MAX_ROSTER_BLOB" "\<forall>f. r = Inr f \<longrightarrow> folded_in E pin theirs f s"
  shows "answered_true E h pin (q @ be_bytes 4 (length theirs) @ theirs) (SEND_YOURS # take n (answer_reply r)) s"
proof (cases "prefix [SEND_YOURS, FOLDED] (SEND_YOURS # take n (answer_reply r))")
  case True
  then have "\<exists>f. r = Inr f \<and> f \<noteq> NotNewer"
    by (cases n) (auto simp: answer_reply_def wire_consts split: sum.splits folded.splits)
  then obtain doc where "roster_verify (en_nauthy E) theirs pin = Inr doc" "at_least E pin (epoch doc) s"
    using assms(3) by (auto simp: folded_in_def)
  then have "\<exists>p t d. length p = 41 \<and> prefix (p @ be_bytes 4 (length t) @ t) (q @ be_bytes 4 (length theirs) @ theirs) \<and>
      length t \<le> MAX_ROSTER_BLOB \<and> roster_verify (en_nauthy E) t pin = Inr d \<and> at_least E pin (epoch d) s"
    using assms(1,2) by blast
  then show ?thesis by (auto simp: answered_true_def wire_consts)
qed (auto simp: answered_true_def wire_consts)

lemma answer_update_safe:
  fixes H :: "'d home"
  assumes "grow_only D" "\<And>x. length (h x) = 32" "length q = 41"
    and over: "\<And>B i j c. stable (peer_moves E D) B \<Longrightarrow> (\<And>s x y. B s \<Longrightarrow> server_keeps E D h pin H (i @ x) (j @ y) s) \<Longrightarrow>
      safe_at (peer_moves E D) (server_keeps E D h pin H) (\<lambda>_ _ _ _. True) B i j (g c)"
  shows "safe_at (peer_moves E D) (server_keeps E D h pin H) (\<lambda>_ _ _ _. True)
     (\<lambda>s. device_since E D pin H s \<and> holds_update E pin b s) q []
     (bindP (answer_update E D h ob theirs dig mine b) g)"
proof -
  let ?R = "peer_moves E D" and ?J = "server_keeps E D h pin H" and ?A = "device_since E D pin H"
    and ?B = "\<lambda>s. device_since E D pin H s \<and> holds_update E pin b s"
  let ?S = "safe_at ?R ?J (\<lambda>_ _ _ _. True)"
  have J0: "?A s \<Longrightarrow> ?J i [] s" "?A s \<Longrightarrow> ?J i [c] s" for i s c by (simp_all add: server_keeps_def answered_start)
  have Jm: "?A s \<Longrightarrow> ?J i (MINE # j) s" "?A s \<Longrightarrow> ?J i (BOTH # j) s" for i s j
    by (simp_all add: server_keeps_def answered_mine)
  note st = stable_holds stable_device
  have same: "?S ?B q [] (bindP (write_all XIo [SAME]) (\<lambda>_. bindP (write_all XIo (digest h b)) (\<lambda>_. bindP (Ends (Inr c)) g)))" for c
  proof -
    have k: "?B s \<Longrightarrow> ?J q (SAME # take n (digest h b)) s" for s n
      by (auto simp: server_keeps_def intro: answered_same [where h = h, OF assms(2)])
    have l: "length (digest h b) = 32" using assms(2) by (simp add: digest_def NONE_YET_def)
    have "?J (q @ x) ((SAME # digest h b) @ y) s" if "?B s" for s x y
      using server_keeps_more [OF k [OF that, of 32], of x y] l by simp
    then have "?S ?B q (SAME # digest h b) (g c)" by (intro over stable_holds) simp
    then show ?thesis using k by (intro safe_at_write) (auto intro: J0 simp: take_Cons')
  qed
  have Jm': "stable ?R (\<lambda>s. ?A s \<and> P s) \<Longrightarrow> ?S (\<lambda>s. ?A s \<and> P s) i (MINE # j) (g c)"
    "stable ?R (\<lambda>s. ?A s \<and> P s) \<Longrightarrow> ?S (\<lambda>s. ?A s \<and> P s) i (BOTH # j) (g c)" for i j c P
    by (intro over; use Jm in simp)+
  have mine: "?S ?B q [] (bindP (write_all XIo [MINE]) (\<lambda>_. bindP (write_update b) (\<lambda>_. bindP (Ends (Inr c)) g)))" for c
    by (intro safe_at_write safe_at_write_update st)
      (auto intro: J0 Jm Jm' stable_holds simp: take_Cons')
  have both: "?S ?A q [] (bindP (write_all XIo [BOTH]) (\<lambda>_. bindP (write_update b) (\<lambda>_. bindP read_update (\<lambda>update.
     bindP (locally (trying (fold_here E D ob update))) (\<lambda>_. bindP (Ends (Inr c)) g)))))" for c
  proof -
    have "?S (\<lambda>s. ?A s \<and> (\<forall>f. r = Inr f \<longrightarrow> folded_in E pin u f s)) i (BOTH # j) (g c)" for i j r u
      by (rule Jm'(2) [OF stable_tried])
    then show ?thesis
      by (intro safe_at_write safe_at_write_update safe_at_read_update safe_at_fold_tried [OF assms(1)] st)
        (auto intro: J0 Jm simp: take_Cons')
  qed
  have yours: "?S ?A q [] (bindP (write_all XIo [SEND_YOURS]) (\<lambda>_. bindP wire_flush (\<lambda>_. bindP read_update (\<lambda>update.
     bindP (locally (trying (fold_here E D ob update))) (\<lambda>r. bindP (write_all XIo (answer_reply r)) (\<lambda>_.
     bindP (Ends (Inr c)) g))))))" for c
  proof -
    let ?F = "\<lambda>u r s. ?A s \<and> (\<forall>f. r = Inr f \<longrightarrow> folded_in E pin u f s)"
    note stF = stable_tried
    have k: "?J (q @ be_bytes 4 (length u) @ u) (SEND_YOURS # take n (answer_reply r)) s"
      if "?F u r s" "length u \<le> MAX_ROSTER_BLOB" for u r n s
      using answered_reply [OF assms(3) that(2), of r E pin s h n] that(1) by (simp add: server_keeps_def)
    have ke: "?J ((q @ be_bytes 4 (length u) @ u) @ x) ((SEND_YOURS # answer_reply r) @ y) s"
      if "?F u r s" "length u \<le> MAX_ROSTER_BLOB" for u r x y s
    proof -
      have "2 \<le> length (SEND_YOURS # answer_reply r)" "SEND_YOURS \<noteq> SAME"
        by (auto simp: answer_reply_def wire_consts split: sum.split folded.split)
      then show ?thesis using server_keeps_more [OF k [OF that, of 9], of x y]
        by (auto simp: answer_reply_def split: sum.splits folded.splits)
    qed
    have w: "?S (?F u r) (q @ be_bytes 4 (length u) @ u) (SEND_YOURS # answer_reply r) (g c)"
      if "length u \<le> MAX_ROSTER_BLOB" for u r
      by (rule over [OF stF]) (use ke [OF _ that] in simp)
    show ?thesis
      by (intro safe_at_write safe_at_flush safe_at_read_update safe_at_fold_tried [OF assms(1)] st)
        (auto intro: J0 w k simp: take_Cons')
  qed
  have AB: "?S ?B q [] p" if "?S ?A q [] p" for p using that stable_holds by (rule safe_at_weaken) simp
  show ?thesis using same mine AB [OF both] AB [OF yours] by (simp add: answer_update_def)
qed

lemma device_pin_fold: "fold_pin E D H = Inr (pin, til) \<Longrightarrow> device_pin E D H = Inr (Some pin)"
  by (auto simp: fold_pin_def device_pin_def bindR_Inr_iff map_err_Inr_iff split: standing.splits)

lemma device_pin_Some: "device_pin E D H = Inr (Some pin) \<Longrightarrow> \<exists>til. fold_pin E D H = Inr (pin, til)"
proof -
  assume d: "device_pin E D H = Inr (Some pin)"
  then obtain st where st: "standing_read E D H = Inr st" by (cases "standing_read E D H") (auto simp: device_pin_def)
  show ?thesis using d by (cases st) (auto simp: fold_pin_def device_pin_def st bindR_Inr_iff map_err_Inr_iff)
qed

lemma answered_none: "answered_true E h pin i (SAME # take n NONE_YET) s"
proof -
  have "d = NONE_YET" if l: "length d = 32" and p: "prefix d (take n NONE_YET)" for d
  proof -
    obtain zs where z: "take n NONE_YET = d @ zs" using p by (auto simp: prefix_def)
    have "min n 32 = 32 + length zs" using arg_cong [OF z, of length] l by (simp add: NONE_YET_def min.commute)
    then have "length zs = 0" using min.cobounded2 [of n 32] by linarith
    then have "zs = []" by simp
    then show ?thesis using z \<open>min n 32 = 32 + length zs\<close> by (simp add: NONE_YET_def)
  qed
  then show ?thesis by (auto simp: answered_true_def wire_consts)
qed

lemma held_holds: "holds_update E pin (snd (held_update E (pe_home s) pin)) s"
proof (cases "read_held E (h_devices (pe_home s)) pin")
  case (Some x)
  then obtain doc b where x: "read_held E (h_devices (pe_home s)) pin = Some (doc, b)" by (cases x) simp
  then have "roster_verify (en_nauthy E) b pin = Inr doc" using read_held_Some by (fastforce simp: fold_doc_Inr)
  then show ?thesis using held_at_least [OF x] by (auto simp: holds_update_def held_update_def x)
qed (simp add: holds_update_def held_update_def)

lemma answer_exchange_safe:
  assumes "grow_only D" "\<And>x. length (h x) = 32"
  shows "safe_at (peer_moves E D) (server_keeps E D h pin H) (\<lambda>_ _ _ _. True) (device_since E D pin H) [] []
     (answer_exchange E D h ob)"
proof -
  let ?R = "peer_moves E D" and ?J = "server_keeps E D h pin H" and ?A = "device_since E D pin H"
  let ?S = "safe_at ?R ?J (\<lambda>_ _ _ _. True)"
  have J0: "?A s \<Longrightarrow> ?J i [] s" for i s by (simp add: server_keeps_def answered_start)
  note st = stable_holds stable_device
  have out: "?S B i j (if c then bindP wire_flush (\<lambda>_. touch_synced ob)
      else bindP wire_flush (\<lambda>_. finish_with ob
          (bindP (take_fork E D ob) (\<lambda>_. bindP (write_update fork) (\<lambda>_. wire_flush))) ()))"
    if "stable ?R B" "\<And>s x y. B s \<Longrightarrow> ?J (i @ x) (j @ y) s" for B i j c fork
  proof -
    have j: "B s \<Longrightarrow> ?J i j s" for s using that(2) [of s "[]" "[]"] by simp
    have "?S B i j (bindP wire_flush (\<lambda>_. touch_synced ob))"
      by (intro safe_at_flush safe_at_alone [of _ _ _ _ _ _ "touch_synced ob"] safe_at_touch safe_at_ends that(1) j) auto
    moreover have "?S B i j (bindP wire_flush (\<lambda>_. finish_with ob
          (bindP (take_fork E D ob) (\<lambda>_. bindP (write_update fork) (\<lambda>_. wire_flush))) ()))"
      by (intro safe_at_flush safe_at_answer_finish that j) auto
    ultimately show ?thesis by simp
  qed
  have own: "?S ?A q [] (bindP (locally (getS (\<lambda>s. Inr (held_update E (pe_home s) pin)))) (\<lambda>(mine, b).
      bindP (locally (getS (\<lambda>s. Inr (kept_fork E (pe_home s) pin)))) (\<lambda>fork.
      bindP (answer_update E D h ob n d mine b) (\<lambda>neither.
      if neither then bindP wire_flush (\<lambda>_. touch_synced ob)
      else bindP wire_flush (\<lambda>_. finish_with ob
          (bindP (take_fork E D ob) (\<lambda>_. bindP (write_update fork) (\<lambda>_. wire_flush))) ())))))"
    if "length q = 41" for q n d
  proof (rule safe_at_local [where B = "\<lambda>(m, b) s. ?A s \<and> holds_update E pin b s"])
    show "?A s \<Longrightarrow> getS (\<lambda>s. Inr (held_update E (pe_home s) pin)) s = (Inr x, t) \<Longrightarrow>
        (case x of (m, b) \<Rightarrow> \<lambda>s. ?A s \<and> holds_update E pin b s) t" for s x t
      using held_holds [where s = s and pin = pin] by (auto simp: split_beta)
    fix x :: "u64 \<times> bytes"
    obtain m b where x: "x = (m, b)" by (cases x)
    have "?S (\<lambda>s. ?A s \<and> holds_update E pin b s) q [] (bindP (locally (getS (\<lambda>s. Inr (kept_fork E (pe_home s) pin)))) (\<lambda>fork.
      bindP (answer_update E D h ob n d m b) (\<lambda>neither.
      if neither then bindP wire_flush (\<lambda>_. touch_synced ob)
      else bindP wire_flush (\<lambda>_. finish_with ob
          (bindP (take_fork E D ob) (\<lambda>_. bindP (write_update fork) (\<lambda>_. wire_flush))) ()))))"
      by (rule safe_at_local [where B = "\<lambda>_ s. ?A s \<and> holds_update E pin b s"])
        (auto intro!: answer_update_safe [OF assms that] out intro: J0 st)
    then show "?S (case x of (m, b) \<Rightarrow> \<lambda>s. ?A s \<and> holds_update E pin b s) q [] (case x of (mine, b) \<Rightarrow>
      bindP (locally (getS (\<lambda>s. Inr (kept_fork E (pe_home s) pin)))) (\<lambda>fork.
      bindP (answer_update E D h ob n d mine b) (\<lambda>neither.
      if neither then bindP wire_flush (\<lambda>_. touch_synced ob)
      else bindP wire_flush (\<lambda>_. finish_with ob
          (bindP (take_fork E D ob) (\<lambda>_. bindP (write_update fork) (\<lambda>_. wire_flush))) ()))))"
      by (simp add: x)
  qed (use J0 st in auto)
  have pin: "?S ?A q [] (bindP (locally (getS (\<lambda>s. device_pin E D (pe_home s)))) (\<lambda>device. case device of
      None \<Rightarrow> bindP (write_all XIo [SAME]) (\<lambda>_. bindP (write_all XIo NONE_YET) (\<lambda>_. wire_flush))
    | Some pin \<Rightarrow> bindP (locally (getS (\<lambda>s. Inr (held_update E (pe_home s) pin)))) (\<lambda>(mine, b).
      bindP (locally (getS (\<lambda>s. Inr (kept_fork E (pe_home s) pin)))) (\<lambda>fork.
      bindP (answer_update E D h ob n d mine b) (\<lambda>neither.
      if neither then bindP wire_flush (\<lambda>_. touch_synced ob)
      else bindP wire_flush (\<lambda>_. finish_with ob
          (bindP (take_fork E D ob) (\<lambda>_. bindP (write_update fork) (\<lambda>_. wire_flush))) ()))))))"
    if q: "length q = 41" for q n d
  proof (rule safe_at_local [where B = "\<lambda>x s. ?A s \<and> (\<forall>p. x = Some p \<longrightarrow> p = pin)"])
    show "?A t \<and> (\<forall>p. x = Some p \<longrightarrow> p = pin)"
      if "?A s" "getS (\<lambda>s. device_pin E D (pe_home s)) s = (Inr x, t)" for s x t
      using that device_pin_Some device_since_pin [OF that(1)] by fastforce
    have none: "?S ?A q [] (bindP (write_all XIo [SAME]) (\<lambda>_. bindP (write_all XIo NONE_YET) (\<lambda>_. wire_flush)))"
    proof -
      have k: "?A s \<Longrightarrow> ?J q (SAME # take n NONE_YET) s" for s n by (simp add: server_keeps_def answered_none)
      have k': "?A s \<Longrightarrow> ?J q (SAME # NONE_YET) s" "?A s \<Longrightarrow> ?J q [SAME] s" for s
        using k [of s 32] k [of s 0] by (simp_all add: NONE_YET_def)
      have "?S ?A q [] (bindP (write_all XIo [SAME]) (\<lambda>_. bindP (write_all XIo NONE_YET) (\<lambda>_.
          bindP wire_flush (\<lambda>u. Ends (Inr u)))))"
        by (intro safe_at_write safe_at_flush safe_at_ends st)
          (use k k' in \<open>auto intro: J0 simp: take_Cons'\<close>)
      then show ?thesis by (simp only: bindP_Ends_Inr)
    qed
    fix x
    show "?S (\<lambda>s. ?A s \<and> (\<forall>p. x = Some p \<longrightarrow> p = pin)) q [] (case x of
        None \<Rightarrow> bindP (write_all XIo [SAME]) (\<lambda>_. bindP (write_all XIo NONE_YET) (\<lambda>_. wire_flush))
      | Some pin \<Rightarrow> bindP (locally (getS (\<lambda>s. Inr (held_update E (pe_home s) pin)))) (\<lambda>(mine, b).
        bindP (locally (getS (\<lambda>s. Inr (kept_fork E (pe_home s) pin)))) (\<lambda>fork.
        bindP (answer_update E D h ob n d mine b) (\<lambda>neither.
        if neither then bindP wire_flush (\<lambda>_. touch_synced ob)
        else bindP wire_flush (\<lambda>_. finish_with ob
            (bindP (take_fork E D ob) (\<lambda>_. bindP (write_update fork) (\<lambda>_. wire_flush))) ())))))"
      using none own [OF q] by (cases x) (auto simp: safe_at_def stable_def simp del: safe.simps)
  qed (auto intro: J0 st device_since_moves)
  show ?thesis unfolding answer_exchange_def
    by (intro safe_at_read) (auto simp: wire_byte intro!: safe_at_read safe_at_ends pin J0 st)
qed

lemma MAX_ROSTER_BLOB_u32: "MAX_ROSTER_BLOB < 2 ^ 32"
  by (simp add: roster_lens bounds_defs LABEL_MAX_LEN_def as_bytes_def)

section \<open>Properties\<close>

text \<open>
  The dialer's home moves only by folds, and its answer is earned. Against any peer, with any
  failures and any folds by other programs, at every moment the dialer's home is its first home after
  some folds. When it ends with an answer: same means the peer sent the digest it named; a take or a
  fork means the peer sent another update than the one it named, signed by this root, and the home
  holds none older than it; and that it gave its update means it sent all of it and was told so.
\<close>
theorem dialer_answer_earned:
  assumes "grow_only D" "fold_pin E D (pe_home s) = Inr (pin, til)"
    and "side_run (peer_moves E D) (dial_with E D h ob pin number b, s) i j (p, t)"
  shows "(fold_step E D)\<^sup>*\<^sup>* (pe_home s) (pe_home t) \<and>
    (\<forall>a. p = Ends (Inr a) \<longrightarrow> dialed E h pin number b a i j t)"
proof -
  have s: "device_since E D pin (pe_home s) s" using assms(2) by (auto simp: device_since_def)
  note r = safe_at_run [OF assms(3) peer_moves_order dial_with_safe [OF assms(1)] s]
  show ?thesis using r(1) r(2) by (auto simp: device_since_def)
qed

lemma update_sent_once:
  assumes "prefix (q @ be_bytes 4 (length u) @ u) l" "prefix (q' @ be_bytes 4 (length v) @ v) l"
    "length q = length q'" "length u < 2 ^ 32" "length v < 2 ^ 32"
  shows "u = v"
proof -
  obtain x y where l: "q @ be_bytes 4 (length u) @ u @ x = q' @ be_bytes 4 (length v) @ v @ y"
    using assms(1,2) by (auto simp: prefix_def)
  then have "be_bytes 4 (length u) @ u @ x = be_bytes 4 (length v) @ v @ y" using assms(3) by simp
  then have "be_bytes 4 (length u) = be_bytes 4 (length v) \<and> u @ x = v @ y" by simp
  moreover have "from_be (be_bytes 4 (length u)) = length u" "from_be (be_bytes 4 (length v)) = length v"
    using assms(4,5) by (simp_all add: from_be_be_bytes)
  ultimately have "length u = length v" "u @ x = v @ y" by metis+
  then show ?thesis by simp
qed

text \<open>
  The answers same and gave are true of the other device. When both sides are devices of one root,
  over a stream where reads and writes may fail at any point and other programs fold into both homes
  meanwhile, a dialer that ends with either answer knows that the other device now holds no update
  older than the one it named. The digest of that update is assumed to be no other update's.
\<close>
theorem answers_true_of_peer:
  assumes "grow_only D" "\<And>x. length (h x) = 32" "\<forall>c. digest h c = digest h b \<longrightarrow> c = b"
    and "fold_pin E D (pe_home s) = Inr (pin, til)" "fold_pin E D (pe_home s') = Inr (pin, til')"
    and "fold_doc E b pin = Inr doc"
    and "(net_step (peer_moves E D) (peer_moves E D))\<^sup>*\<^sup>*
      (started (dial_with E D h ob pin number b, s) (answer_exchange E D h ob', s'))
      ((Ends (Inr a), t), (p', t'), out, ret)"
    and "a = AnsweredSame \<or> a = Gave"
  shows "epoch doc \<le> held_epoch E pin (pe_home t')"
proof -
  obtain i j i' j' where
    r: "side_run (peer_moves E D) (dial_with E D h ob pin number b, s) i j (Ends (Inr a), t)"
      "side_run (peer_moves E D) (answer_exchange E D h ob', s') i' j' (p', t')" "j = i' @ out" "j' = i @ ret"
    using net_sides [OF assms(7)] by blast
  have since: "device_since E D pin (pe_home s) s" "device_since E D pin (pe_home s') s'"
    using assms(4,5) by (auto simp: device_since_def)
  have d: "dialed E h pin number b a i j t"
    using safe_at_run(2) [OF r(1) peer_moves_order dial_with_safe [OF assms(1)] since(1)] by simp
  have k: "answered_true E h pin i' j' t'"
    using safe_at_run(1) [OF r(2) peer_moves_order answer_exchange_safe [OF assms(1,2)] since(2)]
    by (simp add: server_keeps_def)
  have v: "roster_verify (en_nauthy E) b pin = Inr doc" "length b \<le> MAX_ROSTER_BLOB" "b \<noteq> []"
    using assms(6) by (auto simp: fold_doc_Inr roster_verify_def)
  have l: "length (digest h b) = 32" using assms(2) by (simp add: digest_def NONE_YET_def)
  have "at_least E pin (epoch doc) t'"
  proof (cases "a = Gave")
    case False
    then have p: "prefix (SAME # digest h b) j'" using d assms(8) r(4) by (auto simp: prefix_prefix)
    have "digest h b \<noteq> NONE_YET" using assms(3) v(3) by (metis digest_def)
    then show ?thesis using k p l assms(3) v(1) unfolding answered_true_def by fastforce
  next
    case True
    then have "prefix [SEND_YOURS, FOLDED] j'" and j: "prefix (request h number b @ be_bytes 4 (length b) @ b) j"
      using d r(4) by (auto simp: prefix_prefix)
    then obtain q u ud where u: "length q = 41" "prefix (q @ be_bytes 4 (length u) @ u) i'" "length u \<le> MAX_ROSTER_BLOB"
      "roster_verify (en_nauthy E) u pin = Inr ud" "at_least E pin (epoch ud) t'"
      using k unfolding answered_true_def by blast
    have "u = b"
    proof (rule update_sent_once [OF _ j])
      show "prefix (q @ be_bytes 4 (length u) @ u) j" using u(2) r(3) by (auto simp: prefix_prefix)
      show "length q = length (request h number b)" using u(1) l by (simp add: request_def)
    qed (use u(3) v(2) MAX_ROSTER_BLOB_u32 in linarith)+
    then show ?thesis using u(4,5) v(1) by simp
  qed
  then show ?thesis by (simp add: at_least_def)
qed

end
