(* ===== verification/Sync_Calm.thy ===== *)
theory Sync_Calm
  imports Sync_Laws
begin

text \<open>
  The exchange when nothing fails: how the updates move in each of the server's four answers, how the
  forks pass, and what both homes hold at the end. One order of steps is followed to its end; the
  order does not matter, so every run ends there.
\<close>

section \<open>The calm exchange\<close>

lemma left_flush: "flow\<^sup>*\<^sup>* ((f (Inr ()), s), y, out, ret) d \<Longrightarrow> flow\<^sup>*\<^sup>* ((andthen wire_flush f, s), y, out, ret) d"
  unfolding wire_flush_def by (rule left_write) simp

lemma right_flush: "flow\<^sup>*\<^sup>* (x, (f (Inr ()), s), out, ret) d \<Longrightarrow> flow\<^sup>*\<^sup>* (x, (andthen wire_flush f, s), out, ret) d"
  unfolding wire_flush_def by (rule right_write) simp

lemma flush_seq:
  "flow\<^sup>*\<^sup>* ((p (), s), y, out, ret) d \<Longrightarrow> flow\<^sup>*\<^sup>* ((bindP wire_flush p, s), y, out, ret) d"
  "flow\<^sup>*\<^sup>* (x, (q (), s), out, ret) e \<Longrightarrow> flow\<^sup>*\<^sup>* (x, (bindP wire_flush q, s), out, ret) e"
  unfolding bindP_def by (rule left_flush right_flush; simp)+

lemma left_write_update:
  "length b < 2 ^ 32 \<Longrightarrow> flow\<^sup>*\<^sup>* ((f (Inr ()), s), y, out @ be_bytes 4 (length b) @ b, ret) d \<Longrightarrow>
   flow\<^sup>*\<^sup>* ((andthen (write_update b) f, s), y, out, ret) d"
  unfolding write_update_def wire_flush_def
  by (auto simp: andthen_bindP intro!: left_write)

lemma right_write_update:
  "length b < 2 ^ 32 \<Longrightarrow> flow\<^sup>*\<^sup>* (x, (f (Inr ()), s), out, ret @ be_bytes 4 (length b) @ b) d \<Longrightarrow>
   flow\<^sup>*\<^sup>* (x, (andthen (write_update b) f, s), out, ret) d"
  unfolding write_update_def wire_flush_def
  by (auto simp: andthen_bindP intro!: right_write)

lemma update_read_length: "length b \<le> MAX_ROSTER_BLOB \<Longrightarrow> from_be (be_bytes 4 (length b)) = length b"
  using MAX_ROSTER_BLOB_u32 by (simp add: from_be_be_bytes)

lemma left_read_update:
  assumes "length b \<le> MAX_ROSTER_BLOB" "flow\<^sup>*\<^sup>* ((f (Inr b), s), y, out, ret) d"
  shows "flow\<^sup>*\<^sup>* ((andthen read_update f, s), y, out, be_bytes 4 (length b) @ b @ ret) d"
  unfolding read_update_def andthen_bindP
  by (rule left_read) (use assms in \<open>simp_all add: update_read_length left_read\<close>)

lemma right_read_update:
  assumes "length b \<le> MAX_ROSTER_BLOB" "flow\<^sup>*\<^sup>* (x, (f (Inr b), s), out, ret) d"
  shows "flow\<^sup>*\<^sup>* (x, (andthen read_update f, s), be_bytes 4 (length b) @ b @ out, ret) d"
  unfolding read_update_def andthen_bindP
  by (rule right_read) (use assms in \<open>simp_all add: update_read_length right_read\<close>)

lemma update_seq:
  "length b < 2 ^ 32 \<Longrightarrow> flow\<^sup>*\<^sup>* ((p (), s), y, out @ be_bytes 4 (length b) @ b, ret) d \<Longrightarrow>
   flow\<^sup>*\<^sup>* ((bindP (write_update b) p, s), y, out, ret) d"
  "length b \<le> MAX_ROSTER_BLOB \<Longrightarrow> flow\<^sup>*\<^sup>* ((q b, s), y, out, ret) d \<Longrightarrow>
   flow\<^sup>*\<^sup>* ((bindP read_update q, s), y, out, be_bytes 4 (length b) @ b @ ret) d"
  "length b < 2 ^ 32 \<Longrightarrow> flow\<^sup>*\<^sup>* (x, (p' (), s), out, ret @ be_bytes 4 (length b) @ b) e \<Longrightarrow>
   flow\<^sup>*\<^sup>* (x, (bindP (write_update b) p', s), out, ret) e"
  "length b \<le> MAX_ROSTER_BLOB \<Longrightarrow> flow\<^sup>*\<^sup>* (x, (q' b, s), out, ret) e \<Longrightarrow>
   flow\<^sup>*\<^sup>* (x, (bindP read_update q', s), be_bytes 4 (length b) @ b @ out, ret) e"
  unfolding bindP_def
  by (rule left_write_update right_write_update left_read_update right_read_update; simp)+

text \<open>After the updates: the forks pass both ways, and each home changes by the fold of the other's at most.\<close>

definition take_fork_state :: "env \<Rightarrow> 'd denylist_ops \<Rightarrow> sync_obs \<Rightarrow> bytes \<Rightarrow> 'd peer \<Rightarrow> 'd peer" where
  "take_fork_state E D ob fork s = (if fork = [] then s else snd (fold_fork_here E D ob fork s))"

lemma left_take_fork:
  assumes "length fork \<le> MAX_ROSTER_BLOB" "flow\<^sup>*\<^sup>* ((f (Inr ()), take_fork_state E D ob fork s), y, out, ret) d"
  shows "flow\<^sup>*\<^sup>* ((andthen (take_fork E D ob) f, s), y, out, be_bytes 4 (length fork) @ fork @ ret) d"
  unfolding take_fork_def andthen_bindP
  by (rule left_read_update [OF assms(1)])
    (use assms(2) in \<open>auto simp: take_fork_state_def andthen_bindP trying_def split_beta intro!: left_local\<close>)

lemma right_take_fork:
  assumes "length fork \<le> MAX_ROSTER_BLOB" "flow\<^sup>*\<^sup>* (x, (f (Inr ()), take_fork_state E D ob fork s), out, ret) d"
  shows "flow\<^sup>*\<^sup>* (x, (andthen (take_fork E D ob) f, s), be_bytes 4 (length fork) @ fork @ out, ret) d"
  unfolding take_fork_def andthen_bindP
  by (rule right_read_update [OF assms(1)])
    (use assms(2) in \<open>auto simp: take_fork_state_def andthen_bindP trying_def split_beta intro!: right_local\<close>)

lemma take_fork_state_keeps:
  "h_devices (pe_home (take_fork_state E D ob fork s)) = h_devices (pe_home s)"
  "peer_moves E D s (take_fork_state E D ob fork s)"
proof -
  have "along same_devices (fold_fork E D o' b)" for o' b
    by (rule fork_along) (rule rel_order fold_revoke_along steps_along)+
  then show "h_devices (pe_home (take_fork_state E D ob fork s)) = h_devices (pe_home s)"
    by (auto simp: take_fork_state_def fold_fork_here_def along_def same_devices_def split_beta split: option.split)
  show "peer_moves E D s (take_fork_state E D ob fork s)"
    using fold_fork_here_moves [of E D ob fork s] peer_moves_order(1)
    by (auto simp: take_fork_state_def reflp_def prod_eq_iff)
qed

definition touched :: "sync_obs \<Rightarrow> 'd peer \<Rightarrow> 'd peer" where
  "touched ob s = (if so_touch_fails ob then s
     else s\<lparr>pe_synced := Contents (show_u64 (unix_now (so_now ob)) @ [newline])\<rparr>)"

lemma touched_home [simp]: "pe_home (touched ob s) = pe_home s"
  by (simp add: touched_def)

lemma touch_seq:
  "flow\<^sup>*\<^sup>* ((p (), touched ob s), y, out, ret) d \<Longrightarrow> flow\<^sup>*\<^sup>* ((bindP (touch_synced ob) p, s), y, out, ret) d"
  "flow\<^sup>*\<^sup>* (x, (q (), touched ob s), out, ret) e \<Longrightarrow> flow\<^sup>*\<^sup>* (x, (bindP (touch_synced ob) q, s), out, ret) e"
  unfolding touch_synced_def by (rule left_seq right_seq; simp add: touched_def)+

abbreviation dial_forks :: "env \<Rightarrow> 'd denylist_ops \<Rightarrow> sync_obs \<Rightarrow> bytes \<Rightarrow> ('d peer, exchange_error + unit) proc" where
  "dial_forks E D ob fork \<equiv> bindP (write_update fork) (\<lambda>_. bindP wire_flush (\<lambda>_. take_fork E D ob))"

abbreviation answer_forks :: "env \<Rightarrow> 'd denylist_ops \<Rightarrow> sync_obs \<Rightarrow> bytes \<Rightarrow> ('d peer, exchange_error + unit) proc" where
  "answer_forks E D ob fork \<equiv> bindP (take_fork E D ob) (\<lambda>_. bindP (write_update fork) (\<lambda>_. wire_flush))"

lemma forks_pass:
  assumes "length fork \<le> MAX_ROSTER_BLOB" "length fork' \<le> MAX_ROSTER_BLOB"
  shows "flow\<^sup>*\<^sup>* ((finish_with ob (dial_forks E D ob fork) a, s), (finish_with ob' (answer_forks E D ob' fork') u, s'), [], [])
    ((Ends (Inr a), touched ob (take_fork_state E D ob fork' s)),
     (Ends (Inr u), touched ob' (take_fork_state E D ob' fork s')), [], [])"
  unfolding finish_with_def
proof -
  have l: "length fork < 2 ^ 32" "length fork' < 2 ^ 32" using assms MAX_ROSTER_BLOB_u32 by linarith+
  let ?t = "take_fork_state E D ob fork' s" and ?t' = "take_fork_state E D ob' fork s'"
  let ?L = "\<lambda>_ :: exchange_error + unit. bindP (touch_synced ob) (\<lambda>_. Ends (Inr a))"
    and ?R = "\<lambda>_ :: exchange_error + unit. bindP (touch_synced ob') (\<lambda>_. Ends (Inr u))"
  have e: "flow\<^sup>*\<^sup>* ((?L r, ?t), (?R r', ?t'), [], []) ((Ends (Inr a), touched ob ?t), (Ends (Inr u), touched ob' ?t'), [], [])" for r r' :: "exchange_error + unit"
    by (intro touch_seq) simp
  have d: "flow\<^sup>*\<^sup>* ((andthen (take_fork E D ob) ?L, s), (?R r', ?t'), [], [] @ be_bytes 4 (length fork') @ fork')
      ((Ends (Inr a), touched ob ?t), (Ends (Inr u), touched ob' ?t'), [], [])" for r' :: "exchange_error + unit"
    using left_take_fork [OF assms(2), of ?L E D ob s "(?R r', ?t')" "[]" "[]"] e by simp
  have c: "flow\<^sup>*\<^sup>* ((andthen (take_fork E D ob) ?L, s), (andthen (answer_forks E D ob' fork') ?R, s'),
      [] @ be_bytes 4 (length fork) @ fork, []) ((Ends (Inr a), touched ob ?t), (Ends (Inr u), touched ob' ?t'), [], [])"
    unfolding andthen_bindP append_Nil
    by (rule right_take_fork [OF assms(1), where out = "[]", simplified])
      (auto simp: andthen_bindP [of "write_update b" for b] intro!: right_write_update [OF l(2)] right_flush d simp del: append_Nil)
  show "flow\<^sup>*\<^sup>* ((andthen (dial_forks E D ob fork) ?L, s), (andthen (answer_forks E D ob' fork') ?R, s'), [], [])
      ((Ends (Inr a), touched ob ?t), (Ends (Inr u), touched ob' ?t'), [], [])"
    unfolding andthen_bindP [of "write_update fork"]
    by (rule left_write_update [OF l(1)])
      (auto simp: andthen_bindP [of wire_flush] intro!: left_flush c simp del: append_Nil)
qed

abbreviation dial_end where
  "dial_end E D ob fork a \<equiv> (case a of
       None \<Rightarrow> bindP (touch_synced ob) (\<lambda>_. Ends (Inr AnsweredSame))
     | Some a \<Rightarrow> finish_with ob (dial_forks E D ob fork) a)"

abbreviation answer_end where
  "answer_end E D ob fork neither \<equiv> (if neither then bindP wire_flush (\<lambda>_. touch_synced ob)
     else bindP wire_flush (\<lambda>_. finish_with ob (answer_forks E D ob fork) ()))"

lemma right_last: "length b = n \<Longrightarrow> flow\<^sup>*\<^sup>* (x, (q b, s), [], ret) d \<Longrightarrow>
    flow\<^sup>*\<^sup>* (x, (bindP (read_exact g n) q, s), b, ret) d"
  using right_seq(2) [of b n x q s "[]" ret d g] by simp

lemma dial_opens:
  assumes "fold_pin E D (pe_home s') = Inr (pin, til')" "held_update E (pe_home s') pin = (n', b')"
    and "\<And>x. length (h x) = 32"
    and "flow\<^sup>*\<^sup>*
      ((bindP (read_exact XIo 1) (\<lambda>c. bindP (dial_answer E D h ob b (hd c))
          (dial_end E D ob (kept_fork E (pe_home s) pin))), s),
       (bindP (answer_update E D h ob' n (digest h b) n' b')
          (answer_end E D ob' (kept_fork E (pe_home s') pin)), s'), [], []) d"
  shows "flow\<^sup>*\<^sup>* (started (dial_with E D h ob pin n b, s) (answer_exchange E D h ob', s')) d"
proof -
  have len: "length (digest h b) = 32" using assms(3) by (simp add: digest_def NONE_YET_def)
  have n: "of_nat (from_be (be_bytes 8 (unat n))) = n" by (simp add: from_be_be_bytes)
  have out: "[] @ EXCHANGE # be_bytes 8 (unat n) @ digest h b = [EXCHANGE] @ be_bytes 8 (unat n) @ digest h b @ []"
    by simp
  show ?thesis
    unfolding started_def
    apply (simp add: dial_with_def)
    apply (rule left_seq(1), rule flush_seq(1), rule left_seq(3), simp)
    apply (unfold answer_exchange_def out)
    apply (rule right_seq(2), simp, simp)
    apply (rule right_seq(2), simp, rule right_last, simp add: len)
    apply (rule right_seq(3), simp add: device_pin_fold [OF assms(1)], simp)
    apply (rule right_seq(3), simp add: assms(2), simp)
    apply (rule right_seq(3), simp)
    using assms(4) by (simp add: n)
qed

lemma exchange_opens:
  assumes "fold_pin E D (pe_home s) = Inr (pin, til)" "held_update E (pe_home s) pin = (n, b)"
    and "flow\<^sup>*\<^sup>* (started (dial_with E D h ob pin n b, s) y) d"
  shows "flow\<^sup>*\<^sup>* (started (exchange E D h ob, s) y) d"
  unfolding started_def exchange_def this_pin_def
  by (rule left_seq(3), simp add: device_pin_fold [OF assms(1)], rule left_seq(3), simp add: assms(2))
    (use assms(3) in \<open>simp add: started_def\<close>)

lemma left_last: "length b = n \<Longrightarrow> flow\<^sup>*\<^sup>* ((q b, s), y, out, []) d \<Longrightarrow>
    flow\<^sup>*\<^sup>* ((bindP (read_exact g n) q, s), y, out, b) d"
  using left_seq(2) [of b n q s y out "[]" d g] by simp

lemma left_byte: "flow\<^sup>*\<^sup>* ((q [c], s), y, out, ret) d \<Longrightarrow>
    flow\<^sup>*\<^sup>* ((bindP (read_exact g (Suc 0)) q, s), y, out, c # ret) d"
  using left_seq(2) [of "[c]" "Suc 0" q s y out ret d g] by simp

lemma update_last:
  "length b \<le> MAX_ROSTER_BLOB \<Longrightarrow> flow\<^sup>*\<^sup>* ((q b, s), y, out, []) d \<Longrightarrow>
   flow\<^sup>*\<^sup>* ((bindP read_update q, s), y, out, be_bytes 4 (length b) @ b) d"
  "length b \<le> MAX_ROSTER_BLOB \<Longrightarrow> flow\<^sup>*\<^sup>* (x, (q' b, s), [], ret) e \<Longrightarrow>
   flow\<^sup>*\<^sup>* (x, (bindP read_update q', s), be_bytes 4 (length b) @ b, ret) e"
  using update_seq(2) [of b q s y out "[]" d] update_seq(4) [of b x q' s "[]" ret e] by simp_all

text \<open>How the updates move in each case, up to the forks.\<close>

abbreviation forks_left where
  "forks_left E D ob a fork s \<equiv> (finish_with ob (dial_forks E D ob fork) a, s)"

abbreviation forks_right where
  "forks_right E D ob fork s \<equiv> (finish_with ob (answer_forks E D ob fork) (), s)"

lemma server_newer:
  assumes "n < n'" "length b' \<le> MAX_ROSTER_BLOB" "digest h b' \<noteq> digest h b"
    and "fold_here E D ob b' s = (Inr Newer, t)"
  shows "flow\<^sup>*\<^sup>*
      ((bindP (read_exact XIo 1) (\<lambda>c. bindP (dial_answer E D h ob b (hd c)) (dial_end E D ob fork)), s),
       (bindP (answer_update E D h ob' n (digest h b) n' b') (answer_end E D ob' fork'), s'), [], [])
      (forks_left E D ob Took fork t, forks_right E D ob' fork' s', [], [])"
proof -
  have l: "length b' < 2 ^ 32" using assms(2) MAX_ROSTER_BLOB_u32 by linarith
  have c: "n \<noteq> n'" "MINE \<noteq> SAME" "MINE \<noteq> BOTH" using assms(1) by (auto simp: wire_consts)
  have m: "map_errS XFold (fold_here E D ob b') s = (Inr Newer, t)" by (simp add: map_errS_def assms(4))
  show ?thesis
    apply (simp add: answer_update_def c assms(1))
    apply (rule right_seq(1), rule update_seq(3) [OF l], rule flush_seq(2), simp)
    apply (rule left_byte, simp add: dial_answer_def c)
    apply (rule update_last(1) [OF assms(2)], simp add: assms(3) c)
    by (rule left_seq(3), rule m) simp
qed

lemma dialer_newer:
  assumes "n' < n" "length b \<le> MAX_ROSTER_BLOB" "fold_here E D ob' b s' = (Inr Newer, t')"
  shows "flow\<^sup>*\<^sup>*
      ((bindP (read_exact XIo 1) (\<lambda>c. bindP (dial_answer E D h ob b (hd c)) (dial_end E D ob fork)), s),
       (bindP (answer_update E D h ob' n (digest h b) n' b') (answer_end E D ob' fork'), s'), [], [])
      (forks_left E D ob Gave fork s, forks_right E D ob' fork' t', [], [])"
proof -
  have l: "length b < 2 ^ 32" using assms(2) MAX_ROSTER_BLOB_u32 by linarith
  have c: "n \<noteq> n'" "n' \<noteq> n" "\<not> n < n'" "SEND_YOURS \<noteq> SAME" "SEND_YOURS \<noteq> MINE" "SEND_YOURS \<noteq> BOTH"
    using assms(1) by (auto simp: wire_consts)
  have m: "trying (fold_here E D ob' b) s' = (Inr (Inr Newer), t')" by (simp add: trying_def assms(3))
  show ?thesis
    apply (simp add: answer_update_def c)
    apply (rule right_seq(1), rule flush_seq(2), simp)
    apply (rule left_byte, simp add: dial_answer_def c)
    apply (rule update_seq(1) [OF l], simp)
    apply (rule update_last(2) [OF assms(2)], rule right_seq(3), rule m)
    apply (rule right_seq(1), simp add: answer_reply_def, rule flush_seq(2))
    by (rule left_byte) simp
qed

lemma both_same:
  assumes "\<And>x. length (h x) = 32" "b \<noteq> []" "h b \<noteq> NONE_YET"
  shows "flow\<^sup>*\<^sup>*
      ((bindP (read_exact XIo 1) (\<lambda>c. bindP (dial_answer E D h ob b (hd c)) (dial_end E D ob fork)), s),
       (bindP (answer_update E D h ob' n (digest h b) n b) (answer_end E D ob' fork'), s'), [], [])
      (forks_left E D ob AnsweredSame fork s, forks_right E D ob' fork' s', [], [])"
proof -
  have d: "digest h b \<noteq> NONE_YET" "length (digest h b) = 32" using assms by (simp_all add: digest_def)
  show ?thesis
    apply (simp add: answer_update_def d)
    apply (rule right_seq(1), rule right_seq(1), rule flush_seq(2), simp)
    apply (rule left_byte, simp add: dial_answer_def)
    by (rule left_last, simp add: d) (simp add: d)
qed

lemma both_none:
  "flow\<^sup>*\<^sup>*
      ((bindP (read_exact XIo 1) (\<lambda>c. bindP (dial_answer E D h ob [] (hd c)) (dial_end E D ob fork)), s),
       (bindP (answer_update E D h ob' n (digest h []) n []) (answer_end E D ob' fork'), s'), [], [])
      ((Ends (Inr AnsweredSame), touched ob s), (Ends (Inr ()), touched ob' s'), [], [])"
proof -
  have d: "digest h [] = NONE_YET" "length NONE_YET = 32" by (simp_all add: digest_def NONE_YET_def)
  have "flow\<^sup>*\<^sup>* (x, (bindP (touch_synced ob') (\<lambda>u. Ends (Inr u)), s'), out, ret) e"
    if "flow\<^sup>*\<^sup>* (x, (Ends (Inr ()), touched ob' s'), out, ret) e" for x out ret e
    using that by (rule touch_seq(2))
  note t = this [unfolded bindP_Ends_Inr]
  show ?thesis
    apply (simp add: answer_update_def d)
    apply (rule right_seq(1), rule right_seq(1), rule flush_seq(2), rule t, simp)
    apply (rule left_byte, simp add: dial_answer_def d)
    by (rule left_last, simp add: d) (simp add: touch_seq(1))
qed

lemma kept_fork_fits: "length (kept_fork E H pin) \<le> MAX_ROSTER_BLOB"
  by (auto simp: kept_fork_def fold_doc_Inr dest!: read_held_Some split: option.split)

lemma held_update_cases:
  assumes "held_update E H pin = (n, b)"
  shows "(n = UNVERSIONED \<and> b = []) \<or> (\<exists>doc. fold_doc E b pin = Inr doc \<and> epoch doc = n \<and> b \<noteq> [])"
proof (cases "read_held E (h_devices H) pin")
  case (Some x)
  then obtain doc where x: "read_held E (h_devices H) pin = Some (doc, b)" "epoch doc = n"
    using assms by (cases x) (auto simp: held_update_def)
  then have "fold_doc E b pin = Inr doc" using read_held_Some by blast
  then show ?thesis using x(2) by (auto simp: fold_doc_Inr roster_verify_def)
qed (use assms in \<open>simp add: held_update_def\<close>)

lemma held_update_fits: "held_update E H pin = (n, b) \<Longrightarrow> length b \<le> MAX_ROSTER_BLOB"
  using held_update_cases by (fastforce simp: fold_doc_Inr)

lemma held_update_devices:
  "h_devices H' = h_devices H \<Longrightarrow> held_update E H' pin = held_update E H pin"
  by (simp add: held_update_def)

lemma held_after_newer:
  assumes "grow_only D" "fold_pin E D (pe_home s) = Inr (pin, til)" "fold_here E D ob b s = (Inr Newer, t)"
    "fold_doc E b pin = Inr doc"
  shows "held_update E (pe_home t) pin = (epoch doc, b)"
proof -
  have u: "fold_update E D (so_fold ob) b (pe_home s) = (Inr Newer, pe_home t)"
    using assms(3) by (auto simp: fold_here_def split: option.splits prod.splits)
  from fold_update_newer [OF assms(1) u] show ?thesis
    using assms(2,4) by (auto simp: held_update_def fold_doc_Inr)
qed

lemma exchange_ends:
  fixes s s' :: "'d peer"
  assumes "grow_only D"
    and "fold_pin E D (pe_home s) = Inr (pin, til)" "fold_pin E D (pe_home s') = Inr (pin, til')"
    and "held_update E (pe_home s) pin = (n, b)" "held_update E (pe_home s') pin = (n', b')"
    and "\<And>x. length (h x) = 32" "\<forall>x \<in> {b, b'}. x \<noteq> [] \<longrightarrow> h x \<noteq> NONE_YET" "digest h b = digest h b' \<longrightarrow> b = b'"
    and "n = n' \<longrightarrow> b = b'"
    and "n < n' \<longrightarrow> fst (fold_here E D ob b' s) = Inr Newer" "n' < n \<longrightarrow> fst (fold_here E D ob' b s') = Inr Newer"
  shows "\<exists>t t'. flow\<^sup>*\<^sup>* (started (exchange E D h ob, s) (answer_exchange E D h ob', s'))
       ((Ends (Inr (if n < n' then Took else if n' < n then Gave else AnsweredSame)), t), (Ends (Inr ()), t'), [], []) \<and>
     held_update E (pe_home t) pin = (if n < n' then (n', b') else (n, b)) \<and>
     held_update E (pe_home t') pin = (if n < n' then (n', b') else (n, b))"
proof -
  let ?f = "kept_fork E (pe_home s) pin" and ?f' = "kept_fork E (pe_home s') pin"
  let ?c = "started (exchange E D h ob, s) (answer_exchange E D h ob', s')"
  let ?t = "\<lambda>t. touched ob (take_fork_state E D ob ?f' t)" and ?t' = "\<lambda>t'. touched ob' (take_fork_state E D ob' ?f t')"
  note opens = exchange_opens [OF assms(2,4) dial_opens [OF assms(3,5,6)]]
  note fits = held_update_fits [OF assms(4)] held_update_fits [OF assms(5)]
  have closes: "flow\<^sup>*\<^sup>* ?c ((Ends (Inr a), ?t t), (Ends (Inr ()), ?t' t'), [], [])"
    if "flow\<^sup>*\<^sup>* ((bindP (read_exact XIo 1) (\<lambda>c. bindP (dial_answer E D h ob b (hd c)) (dial_end E D ob ?f)), s),
       (bindP (answer_update E D h ob' n (digest h b) n' b') (answer_end E D ob' ?f'), s'), [], [])
      (forks_left E D ob a ?f t, forks_right E D ob' ?f' t', [], [])" for a t t'
    by (rule opens) (rule rtranclp_trans [OF that forks_pass [OF kept_fork_fits kept_fork_fits]])
  have held: "held_update E (pe_home (take_fork_state E D o2 f t)) pin = held_update E (pe_home t) pin" for o2 f t
    by (rule held_update_devices) (simp add: take_fork_state_keeps)
  consider "n < n'" | "n' < n" | "n = n'" by (metis neqE)
  then show ?thesis
  proof cases
    case 1
    then obtain doc where doc: "fold_doc E b' pin = Inr doc" "epoch doc = n'"
      using held_update_cases [OF assms(5)] by (auto simp: UNVERSIONED_def)
    obtain t where t: "fold_here E D ob b' s = (Inr Newer, t)"
      using assms(10) 1 by (cases "fold_here E D ob b' s") auto
    have "b \<noteq> b'" using doc held_update_cases [OF assms(4)] 1 by (auto simp: fold_doc_Inr roster_verify_def)
    then have "digest h b' \<noteq> digest h b" using assms(8) by metis
    from closes [OF server_newer [OF 1 fits(2) this t]]
    have "flow\<^sup>*\<^sup>* ?c ((Ends (Inr Took), ?t t), (Ends (Inr ()), ?t' s'), [], [])" .
    moreover have "held_update E (pe_home (?t t)) pin = (n', b')" "held_update E (pe_home (?t' s')) pin = (n', b')"
      using held_after_newer [OF assms(1,2) t doc(1)] doc(2) assms(5) by (simp_all add: held)
    ultimately show ?thesis using 1 by (intro exI [of _ "?t t"] exI [of _ "?t' s'"]) simp
  next
    case 2
    then obtain doc where doc: "fold_doc E b pin = Inr doc" "epoch doc = n"
      using held_update_cases [OF assms(4)] by (auto simp: UNVERSIONED_def)
    obtain t' where t': "fold_here E D ob' b s' = (Inr Newer, t')"
      using assms(11) 2 by (cases "fold_here E D ob' b s'") auto
    from closes [OF dialer_newer [OF 2 fits(1) t']]
    have "flow\<^sup>*\<^sup>* ?c ((Ends (Inr Gave), ?t s), (Ends (Inr ()), ?t' t'), [], [])" .
    moreover have "held_update E (pe_home (?t s)) pin = (n, b)" "held_update E (pe_home (?t' t')) pin = (n, b)"
      using held_after_newer [OF assms(1,3) t' doc(1)] doc(2) assms(4) by (simp_all add: held)
    moreover have "\<not> n < n'" using 2 by simp
    ultimately show ?thesis using 2 by (intro exI [of _ "?t s"] exI [of _ "?t' t'"]) simp
  next
    case 3
    then have b: "b' = b" using assms(9) by simp
    show ?thesis
    proof (cases "b = []")
      case True
      have "flow\<^sup>*\<^sup>* ?c ((Ends (Inr AnsweredSame), touched ob s), (Ends (Inr ()), touched ob' s'), [], [])"
        by (rule opens) (use both_none True b 3 in auto)
      then show ?thesis using 3 assms(4,5) b
        by (intro exI [of _ "touched ob s"] exI [of _ "touched ob' s'"]) simp
    next
      case False
      have "flow\<^sup>*\<^sup>* ?c ((Ends (Inr AnsweredSame), ?t s), (Ends (Inr ()), ?t' s'), [], [])"
        by (rule closes) (use both_same [of h b] False assms(6,7) b 3 in auto)
      moreover have "held_update E (pe_home (?t s)) pin = (n, b)" "held_update E (pe_home (?t' s')) pin = (n, b)"
        using assms(4,5) b 3 by (simp_all add: held)
      ultimately show ?thesis using 3 by (intro exI [of _ "?t s"] exI [of _ "?t' s'"]) simp
    qed
  qed
qed

lemma both_fork:
  assumes "b \<noteq> b'" "b' \<noteq> []" "length b \<le> MAX_ROSTER_BLOB" "length b' \<le> MAX_ROSTER_BLOB" "digest h b \<noteq> digest h b'"
    and "fold_here E D ob b' s = (Inr (Fork m), t)" "fold_here E D ob' b s' = (r, t')"
  shows "flow\<^sup>*\<^sup>*
      ((bindP (read_exact XIo 1) (\<lambda>c. bindP (dial_answer E D h ob b (hd c)) (dial_end E D ob fork)), s),
       (bindP (answer_update E D h ob' n (digest h b) n b') (answer_end E D ob' fork'), s'), [], [])
      (forks_left E D ob Forked fork t, forks_right E D ob' fork' t', [], [])"
proof -
  have l: "length b < 2 ^ 32" "length b' < 2 ^ 32" using assms(3,4) MAX_ROSTER_BLOB_u32 by linarith+
  have c: "BOTH \<noteq> SAME" "digest h b' \<noteq> digest h b" using assms(5) by (auto simp: wire_consts)
  have m: "map_errS XFold (fold_here E D ob b') s = (Inr (Fork m), t)" by (simp add: map_errS_def assms(6))
  have m': "trying (fold_here E D ob' b) s' = (Inr r, t')" by (simp add: trying_def assms(7))
  show ?thesis
    apply (simp add: answer_update_def c assms(2,5))
    apply (rule right_seq(1), rule update_seq(3) [OF l(2)], simp)
    apply (rule left_byte, simp add: dial_answer_def c)
    apply (rule update_last(1) [OF assms(4)], simp add: c)
    apply (rule update_seq(1) [OF l(1)], simp)
    apply (rule update_last(2) [OF assms(3)], rule right_seq(3), rule m')
    by (rule flush_seq(2), rule left_seq(3), rule m, simp)
qed

lemma kept_fork_iff: "kept_fork E H pin \<noteq> [] \<longleftrightarrow> read_held E (h_conflict H) pin \<noteq> None"
proof -
  have "b \<noteq> []" if "read_held E (h_conflict H) pin = Some (d, b)" for d b
    using read_held_Some [OF that] by (auto simp: fold_doc_Inr roster_verify_def)
  then show ?thesis by (auto simp: kept_fork_def split: option.split)
qed

lemma fork_fold_keeps:
  assumes "grow_only D" "fold_pin E D (pe_home s) = Inr (pin, til)" "fold_here E D ob b s = (Inr (Fork n), t)"
    "fold_doc E b pin = Inr doc"
  shows "held_update E (pe_home t) pin = held_update E (pe_home s) pin" "kept_fork E (pe_home t) pin \<noteq> []"
    "added E (pe_home s) (unix_now (fo_revoke_now (so_fold ob))) doc \<subseteq> home_revoked D (pe_home t)"
proof -
  have "fold_update E D (so_fold ob) b (pe_home s) = (Inr (Fork n), pe_home t)"
    using assms(3) by (auto simp: fold_here_def split: option.splits prod.splits)
  from fold_update_fork [OF assms(1) this]
  have f: "h_devices (pe_home t) = h_devices (pe_home s)" "read_held E (h_conflict (pe_home t)) pin \<noteq> None"
    "home_revoked D (pe_home t) = home_revoked D (pe_home s) \<union>
       added E (pe_home s) (unix_now (fo_revoke_now (so_fold ob))) doc"
    using assms(2,4) by (auto simp: fold_doc_Inr)
  show "held_update E (pe_home t) pin = held_update E (pe_home s) pin" by (rule held_update_devices [OF f(1)])
  show "kept_fork E (pe_home t) pin \<noteq> []"
    using f(2) by (simp add: kept_fork_iff)
  show "added E (pe_home s) (unix_now (fo_revoke_now (so_fold ob))) doc \<subseteq> home_revoked D (pe_home t)"
    using f(3) by blast
qed

lemma fold_fork_conflict:
  assumes "read_held E (h_conflict H) pin \<noteq> None" "\<And>p til. fold_pin E D H = Inr (p, til) \<Longrightarrow> p = pin"
  shows "h_conflict (snd (fold_fork E D ob b H)) = h_conflict H"
proof -
  have rev: "h_conflict (snd (fold_revoke E D ob d H)) = h_conflict H" for d
  proof -
    have "\<exists>x. snd (revoked_add E D es H) = H\<lparr>h_revoked := x\<rparr>" for es
      using revoked_add_others [of E D es H] by (metis surjective_pairing)
    then obtain x where "snd (revoked_add E D (doc_revocations (unix_now (fo_revoke_now ob)) d) H) = H\<lparr>h_revoked := x\<rparr>"
      by blast
    then show ?thesis by (simp add: fold_revoke_def map_errS_def split_beta)
  qed
  have keep: "keep_fork E ob b pin H' = (Inr (), H')" if "h_conflict H' = h_conflict H" for H'
    using assms(1) that by (auto simp: keep_fork_def)
  show ?thesis
  proof (cases "fold_pin E D H")
    case (Inl e)
    then show ?thesis by (simp add: fold_fork_def bindS_def)
  next
    case (Inr p)
    obtain til where p: "fold_pin E D H = Inr (pin, til)" using Inr assms(2) by (cases p) auto
    show ?thesis
    proof (cases "fold_doc E b pin")
      case (Inr doc)
      obtain r H1 where r: "fold_revoke E D ob doc H = (r, H1)" by (metis surj_pair)
      have "h_conflict H1 = h_conflict H" using rev [of doc] r by simp
      then show ?thesis using p Inr keep [of H1] r
        by (auto simp: fold_fork_def bindS_def split: sum.split option.split)
    qed (simp add: fold_fork_def bindS_def p)
  qed
qed

lemma kept_fork_stays:
  assumes "kept_fork E (pe_home s) pin \<noteq> []" "device_since E D pin H s"
  shows "kept_fork E (pe_home (take_fork_state E D ob fork s)) pin \<noteq> []"
proof -
  have "h_conflict (snd (fold_fork E D o' b (pe_home s))) = h_conflict (pe_home s)" for o' b
    using assms(1) by (intro fold_fork_conflict [where pin = pin] device_since_pin [OF assms(2)]) (simp_all add: kept_fork_iff)
  then have "h_conflict (pe_home (take_fork_state E D ob fork s)) = h_conflict (pe_home s)"
    by (auto simp: take_fork_state_def fold_fork_here_def split_beta split: option.split)
  then show ?thesis using assms(1) by (simp add: kept_fork_iff)
qed

text \<open>
  C14: Two devices of a root that hold different numbers come to hold the same update. When nothing
  fails on the way and the fold of the later update ends as newer, an exchange ends in whatever order
  the two sides run: no run is longer than \<open>N\<close> steps, every run comes to one and the same end, where
  both hold the update of the higher number and the dialer is told which of the two it was.
\<close>
theorem exchange_converges:
  fixes s s' :: "'d peer"
  assumes "grow_only D"
    and "fold_pin E D (pe_home s) = Inr (pin, til)" "fold_pin E D (pe_home s') = Inr (pin, til')"
    and "held_update E (pe_home s) pin = (n, b)" "held_update E (pe_home s') pin = (n', b')"
    and "\<And>x. length (h x) = 32" "\<forall>x \<in> {b, b'}. x \<noteq> [] \<longrightarrow> h x \<noteq> NONE_YET" "digest h b = digest h b' \<longrightarrow> b = b'"
    and "n = n' \<longrightarrow> b = b'"
    and "n < n' \<longrightarrow> fst (fold_here E D ob b' s) = Inr Newer" "n' < n \<longrightarrow> fst (fold_here E D ob' b s') = Inr Newer"
  shows "\<exists>t t' N.
     (let end = ((Ends (Inr (if n < n' then Took else if n' < n then Gave else AnsweredSame)), t),
                 (Ends (Inr ()), t'), [], [])
      in (\<forall>c. flow\<^sup>*\<^sup>* (started (exchange E D h ob, s) (answer_exchange E D h ob', s')) c \<longrightarrow> flow\<^sup>*\<^sup>* c end) \<and>
         (\<forall>c m. (flow ^^ m) (started (exchange E D h ob, s) (answer_exchange E D h ob', s')) c \<longrightarrow> m \<le> N)) \<and>
     held_update E (pe_home t) pin = (if n < n' then (n', b') else (n, b)) \<and>
     held_update E (pe_home t') pin = (if n < n' then (n', b') else (n, b))"
proof -
  let ?c = "started (exchange E D h ob, s) (answer_exchange E D h ob', s')"
    and ?a = "if n < n' then Took else if n' < n then Gave else AnsweredSame"
  obtain t t' where e: "flow\<^sup>*\<^sup>* ?c ((Ends (Inr ?a), t), (Ends (Inr ()), t'), [], [])"
    "held_update E (pe_home t) pin = (if n < n' then (n', b') else (n, b))"
    "held_update E (pe_home t') pin = (if n < n' then (n', b') else (n, b))"
    using exchange_ends [OF assms] by blast
  obtain N where "(flow ^^ N) ?c ((Ends (Inr ?a), t), (Ends (Inr ()), t'), [], [])"
    using rtranclp_imp_relpowp [OF e(1)] by blast
  from flow.every_order_ends [OF this ended_stuck] e(2,3) show ?thesis unfolding Let_def by blast
qed

section \<open>Two peers in the example\<close>

definition example_sync :: sync_obs where
  "example_sync = \<lparr>so_lock = None, so_fold = example_obs, so_fork_lock = None, so_fork = example_obs,
     so_now = 0, so_touch_fails = False\<rparr>"

definition example_peer :: "revocation set home \<Rightarrow> revocation set peer" where
  "example_peer H = \<lparr>pe_home = H, pe_synced = Missing\<rparr>"

definition example_hash :: "bytes \<Rightarrow> bytes" where
  "example_hash b = replicate 32 (if b = example_blob then 1 else 2)"

lemma example_hash_ok: "length (example_hash x) = 32" "example_hash x \<noteq> NONE_YET"
  "digest example_hash [] \<noteq> digest example_hash example_blob" "example_blob \<noteq> []"
proof -
  show b: "example_blob \<noteq> []" using example_blob_verifies by (auto simp: roster_verify_def)
  show "length (example_hash x) = 32" by (simp add: example_hash_def)
  have "replicate 32 a = replicate 32 c \<longleftrightarrow> a = c" for a c :: u8 by (metis numeral_eq_Suc replicate_Suc list.inject)
  then show "example_hash x \<noteq> NONE_YET" "digest example_hash [] \<noteq> digest example_hash example_blob"
    using b by (auto simp: example_hash_def NONE_YET_def digest_def)
qed

lemma example_peers_hold:
  "held_update example_env (pe_home (example_peer example_home)) (example_key 7) = (UNVERSIONED, [])"
  "held_update example_env (pe_home (example_peer example_holder)) (example_key 7) = (3, example_blob)"
proof -
  show "held_update example_env (pe_home (example_peer example_home)) (example_key 7) = (UNVERSIONED, [])"
    by (simp add: held_update_def example_peer_def example_home_def read_held_def read_held_or_error_def)
  show "held_update example_env (pe_home (example_peer example_holder)) (example_key 7) = (3, example_blob)"
    using read_held_Bytes [OF example_doc]
    by (simp add: held_update_def example_peer_def example_holder_def example_update_def)
qed

theorem exchange_converges_witness:
  "\<exists>t t' :: revocation set peer. held_update example_env (pe_home t) (example_key 7) = (3, example_blob) \<and>
     flow\<^sup>*\<^sup>* (started (exchange example_env example_denylist example_hash example_sync, example_peer example_home)
       (answer_exchange example_env example_denylist example_hash example_sync, example_peer example_holder))
     ((Ends (Inr Took), t), (Ends (Inr ()), t'), [], [])"
proof -
  have p: "fold_pin example_env example_denylist (pe_home (example_peer example_home)) = Inr (example_key 7, 100)"
    "fold_pin example_env example_denylist (pe_home (example_peer example_holder)) = Inr (example_key 7, 100)"
    using example_pin example_holder_pin by (simp_all add: example_peer_def)
  have f: "fst (fold_here example_env example_denylist example_sync example_blob (example_peer example_home)) = Inr Newer"
    using example_newer(1) by (simp add: fold_here_def example_sync_def example_peer_def)
  from exchange_converges [OF example_grow_only p example_peers_hold, of example_hash example_sync example_sync]
  show ?thesis using example_hash_ok f
    by (simp add: Let_def UNVERSIONED_def del: split_paired_All split_paired_Ex) (meson rtranclp.rtrancl_refl)
qed

text \<open>
  C15: A fork reaches both sides, and neither holds it. When two devices of a root hold different
  updates of one number and each records the other's as a fork, a calm exchange ends in any order
  with the dialer told of the fork, each side still holding the update it held, each keeping a fork of
  its root and each revoking what the other's update revokes.
\<close>
theorem fork_reaches_both:
  fixes s s' :: "'d peer"
  assumes "grow_only D"
    and "fold_pin E D (pe_home s) = Inr (pin, til)" "fold_pin E D (pe_home s') = Inr (pin, til')"
    and "read_held E (h_devices (pe_home s)) pin = Some (doc, b)"
      "read_held E (h_devices (pe_home s')) pin = Some (doc', b')"
    and "epoch doc = epoch doc'" "digest h b \<noteq> digest h b'" "\<And>x. length (h x) = 32"
    and "fst (fold_here E D ob b' s) = Inr (Fork (epoch doc))" "fst (fold_here E D ob' b s') = Inr (Fork (epoch doc))"
  shows "\<exists>t t'. (\<forall>c. flow\<^sup>*\<^sup>* (started (exchange E D h ob, s) (answer_exchange E D h ob', s')) c \<longrightarrow>
       flow\<^sup>*\<^sup>* c ((Ends (Inr Forked), t), (Ends (Inr ()), t'), [], [])) \<and>
     held_update E (pe_home t) pin = (epoch doc, b) \<and> held_update E (pe_home t') pin = (epoch doc, b') \<and>
     kept_fork E (pe_home t) pin \<noteq> [] \<and> kept_fork E (pe_home t') pin \<noteq> [] \<and>
     added E (pe_home s) (unix_now (fo_revoke_now (so_fold ob))) doc' \<subseteq> home_revoked D (pe_home t) \<and>
     added E (pe_home s') (unix_now (fo_revoke_now (so_fold ob'))) doc \<subseteq> home_revoked D (pe_home t')"
proof -
  let ?c = "started (exchange E D h ob, s) (answer_exchange E D h ob', s')"
  let ?f = "kept_fork E (pe_home s) pin" and ?f' = "kept_fork E (pe_home s') pin"
  have held: "held_update E (pe_home s) pin = (epoch doc, b)" "held_update E (pe_home s') pin = (epoch doc, b')"
    using assms(4-6) by (simp_all add: held_update_def)
  have d: "fold_doc E b pin = Inr doc" "fold_doc E b' pin = Inr doc'"
    using read_held_Some assms(4,5) by blast+
  have ne: "b \<noteq> b'" "b' \<noteq> []" using assms(7) d(2) by (auto simp: fold_doc_Inr roster_verify_def)
  obtain u u' where u: "fold_here E D ob b' s = (Inr (Fork (epoch doc)), u)" "fold_here E D ob' b s' = (Inr (Fork (epoch doc)), u')"
    using assms(9,10) by (metis prod.collapse)
  let ?t = "touched ob (take_fork_state E D ob ?f' u)" and ?t' = "touched ob' (take_fork_state E D ob' ?f u')"
  have "flow\<^sup>*\<^sup>* ?c ((Ends (Inr Forked), ?t), (Ends (Inr ()), ?t'), [], [])"
    by (rule exchange_opens [OF assms(2) held(1) dial_opens [OF assms(3) held(2) assms(8)]])
      (rule rtranclp_trans [OF both_fork [OF ne held_update_fits [OF held(1)] held_update_fits [OF held(2)] assms(7) u]
        forks_pass [OF kept_fork_fits kept_fork_fits]])
  then obtain N where "(flow ^^ N) ?c ((Ends (Inr Forked), ?t), (Ends (Inr ()), ?t'), [], [])"
    using rtranclp_imp_relpowp by metis
  from flow.every_order_ends [OF this ended_stuck]
  have all: "\<forall>c. flow\<^sup>*\<^sup>* ?c c \<longrightarrow> flow\<^sup>*\<^sup>* c ((Ends (Inr Forked), ?t), (Ends (Inr ()), ?t'), [], [])" by blast
  have since: "device_since E D pin (pe_home s) u" "device_since E D pin (pe_home s') u'"
    using fold_here_moves [OF u(1)] fold_here_moves [OF u(2)] assms(2,3) by (auto simp: device_since_def peer_moves_def)
  note k = fork_fold_keeps [OF assms(1,2) u(1) d(2)] and k' = fork_fold_keeps [OF assms(1,3) u(2) d(1)]
  have "home_revoked D (pe_home v) \<subseteq> home_revoked D (pe_home (take_fork_state E D o2 f v))" for o2 f v
    by (rule folds_grow [OF assms(1) take_fork_state_keeps(2) [unfolded peer_moves_def]])
  then have grow: "X \<subseteq> home_revoked D (pe_home v) \<Longrightarrow> X \<subseteq> home_revoked D (pe_home (touched o1 (take_fork_state E D o2 f v)))" for X o1 o2 f v
    by (simp add: subset_trans)
  have hold: "held_update E (pe_home (touched o1 (take_fork_state E D o2 f v))) pin = held_update E (pe_home v) pin" for o1 o2 f v
    using held_update_devices [OF take_fork_state_keeps(1)] by simp
  show ?thesis
  proof (rule exI [of _ ?t], rule exI [of _ ?t'], intro conjI all grow k(3) k'(3))
    show "held_update E (pe_home ?t) pin = (epoch doc, b)" "held_update E (pe_home ?t') pin = (epoch doc, b')"
      unfolding hold k(1) k'(1) by (fact held)+
    show "kept_fork E (pe_home ?t) pin \<noteq> []" "kept_fork E (pe_home ?t') pin \<noteq> []"
      using kept_fork_stays [OF k(2) since(1)] kept_fork_stays [OF k'(2) since(2)] by simp_all
  qed
qed

definition example_forked :: "revocation set home" where
  "example_forked = example_home\<lparr>h_devices := Bytes example_fork_blob\<rparr>"

lemma example_forked_reads:
  "fold_pin example_env example_denylist example_forked = Inr (example_key 7, 100)"
  "read_held example_env (h_devices example_holder) (example_key 7) = Some (example_update, example_blob)"
  "read_held example_env (h_devices example_forked) (example_key 7) = Some (example_update, example_fork_blob)"
  "example_blob \<noteq> example_fork_blob"
  "fst (fold_update example_env example_denylist example_obs example_blob example_forked) = Inr (Fork 3)"
proof -
  have "en_verify_key example_env (example_node 7) = Some (example_key 7)"
    by (simp add: example_env_def example_node_def example_key_def)
  then show p: "fold_pin example_env example_denylist example_forked = Inr (example_key 7, 100)"
    by (simp add: fold_pin_def example_forked_def example_reads_devices pin_key_def)
  show "read_held example_env (h_devices example_holder) (example_key 7) = Some (example_update, example_blob)"
    using read_held_Bytes [OF example_doc] by (simp add: example_holder_def)
  show h: "read_held example_env (h_devices example_forked) (example_key 7) = Some (example_update, example_fork_blob)"
    using read_held_Bytes [OF example_fork_doc] by (simp add: example_forked_def)
  show b: "example_blob \<noteq> example_fork_blob"
  proof
    assume "example_blob = example_fork_blob"
    then have "example_blob ! 40 = example_fork_blob ! 40" by simp
    then show False by (simp add: example_blob_def example_fork_blob_def nth_append)
  qed
  have k: "h_key example_forked = KeyStored (Some (example_node 5))"
    by (simp add: example_forked_def example_home_def)
  have f: "fst (keep_fork example_env example_obs x pin H) = Inr ()" for x pin and H :: "revocation set home"
    by (simp add: keep_fork_def example_obs_def)
  have e: "epoch example_update = 3" by (simp add: example_update_def)
  show "fst (fold_update example_env example_denylist example_obs example_blob example_forked) = Inr (Fork 3)"
    using example_revoke [OF k] h b f e
    by (auto simp: fold_update_at [OF p example_doc] held_epoch_def bindS_def split_beta split: sum.splits)
qed

theorem fork_reaches_both_witness:
  "\<exists>t t' :: revocation set peer. kept_fork example_env (pe_home t) (example_key 7) \<noteq> [] \<and>
     held_update example_env (pe_home t') (example_key 7) = (3, example_fork_blob) \<and>
     flow\<^sup>*\<^sup>* (started (exchange example_env example_denylist example_hash example_sync, example_peer example_holder)
       (answer_exchange example_env example_denylist example_hash example_sync, example_peer example_forked))
     ((Ends (Inr Forked), t), (Ends (Inr ()), t'), [], [])"
proof -
  let ?s = "example_peer example_holder" and ?s' = "example_peer example_forked"
  have p: "fold_pin example_env example_denylist (pe_home ?s) = Inr (example_key 7, 100)"
    "fold_pin example_env example_denylist (pe_home ?s') = Inr (example_key 7, 100)"
    using example_holder_pin example_forked_reads(1) by (simp_all add: example_peer_def)
  have h: "read_held example_env (h_devices (pe_home ?s)) (example_key 7) = Some (example_update, example_blob)"
    "read_held example_env (h_devices (pe_home ?s')) (example_key 7) = Some (example_update, example_fork_blob)"
    using example_forked_reads by (simp_all add: example_peer_def)
  have e: "epoch example_update = 3" by (simp add: example_update_def)
  have f: "fst (fold_here example_env example_denylist example_sync example_fork_blob ?s) = Inr (Fork (epoch example_update))"
    "fst (fold_here example_env example_denylist example_sync example_blob ?s') = Inr (Fork (epoch example_update))"
    using example_forks(1) example_forked_reads(5)
    by (simp_all add: fold_here_def example_sync_def example_peer_def e split_beta)
  have "replicate 32 (1 :: u8) \<noteq> replicate 32 2" by (simp add: numeral_eq_Suc)
  then have d: "digest example_hash example_blob \<noteq> digest example_hash example_fork_blob"
    using example_forked_reads(4) example_hash_ok(4) example_fork_doc
    by (auto simp: digest_def example_hash_def fold_doc_Inr roster_verify_def)
  from fork_reaches_both [OF example_grow_only p h refl d example_hash_ok(1) f]
  show ?thesis unfolding e by (meson rtranclp.rtrancl_refl)
qed

text \<open>A device that holds the update gives it to one that holds none.\<close>

lemma example_gives:
  "\<exists>t t' :: revocation set peer. flow\<^sup>*\<^sup>*
     (started (dial_with example_env example_denylist example_hash example_sync (example_key 7) 3 example_blob, example_peer example_holder)
       (answer_exchange example_env example_denylist example_hash example_sync, example_peer example_home))
     ((Ends (Inr Gave), t), (Ends (Inr ()), t'), [], [])"
proof -
  let ?s = "example_peer example_holder" and ?s' = "example_peer example_home"
  have p: "fold_pin example_env example_denylist (pe_home ?s') = Inr (example_key 7, 100)"
    using example_pin by (simp add: example_peer_def)
  have f: "fold_here example_env example_denylist example_sync example_blob ?s' = (Inr Newer, ?s'\<lparr>pe_home := example_held\<rparr>)"
    using example_newer(1) by (simp add: fold_here_def example_sync_def example_peer_def)
  have n: "UNVERSIONED < 3" by (simp add: UNVERSIONED_def)
  show ?thesis
    by (intro exI, rule dial_opens [OF p example_peers_hold(1) example_hash_ok(1)])
      (rule rtranclp_trans [OF dialer_newer [OF n held_update_fits [OF example_peers_hold(2)] f]
        forks_pass [OF kept_fork_fits kept_fork_fits]])
qed

theorem answers_true_of_peer_witness:
  "\<exists>t t' :: revocation set peer. (net_step (peer_moves example_env example_denylist) (peer_moves example_env example_denylist))\<^sup>*\<^sup>*
     (started (dial_with example_env example_denylist example_hash example_sync (example_key 7) 3 example_blob, example_peer example_holder)
       (answer_exchange example_env example_denylist example_hash example_sync, example_peer example_home))
     ((Ends (Inr Gave), t), (Ends (Inr ()), t'), [], []) \<and> 3 \<le> held_epoch example_env (example_key 7) (pe_home t')"
proof -
  obtain t t' where run: "(net_step (peer_moves example_env example_denylist) (peer_moves example_env example_denylist))\<^sup>*\<^sup>*
     (started (dial_with example_env example_denylist example_hash example_sync (example_key 7) 3 example_blob, example_peer example_holder)
       (answer_exchange example_env example_denylist example_hash example_sync, example_peer example_home))
     ((Ends (Inr Gave), t), (Ends (Inr ()), t'), [], [])"
    using example_gives flows_net by blast
  have p: "fold_pin example_env example_denylist (pe_home (example_peer example_holder)) = Inr (example_key 7, 100)"
    "fold_pin example_env example_denylist (pe_home (example_peer example_home)) = Inr (example_key 7, 100)"
    using example_pin example_holder_pin by (simp_all add: example_peer_def)
  have o: "replicate 32 (1 :: u8) \<noteq> replicate 32 2" "replicate 32 (1 :: u8) \<noteq> replicate 32 0" by (simp_all add: numeral_eq_Suc)
  then have c: "\<forall>c. digest example_hash c = digest example_hash example_blob \<longrightarrow> c = example_blob"
    using example_hash_ok(4) by (auto simp: digest_def example_hash_def NONE_YET_def split: if_splits)
  from answers_true_of_peer [OF example_grow_only example_hash_ok(1) c p example_doc run]
  have "3 \<le> held_epoch example_env (example_key 7) (pe_home t')" by (simp add: example_update_def)
  then show ?thesis using run by blast
qed

theorem dialer_answer_earned_witness:
  "\<exists>i j t. side_run (peer_moves example_env example_denylist)
     (dial_with example_env example_denylist example_hash example_sync (example_key 7) 3 example_blob, example_peer example_holder)
     i j (Ends (Inr Gave), t) \<and> prefix [SEND_YOURS, FOLDED] i"
proof -
  obtain t t' where run: "(net_step (peer_moves example_env example_denylist) (peer_moves example_env example_denylist))\<^sup>*\<^sup>*
     (started (dial_with example_env example_denylist example_hash example_sync (example_key 7) 3 example_blob, example_peer example_holder)
       (answer_exchange example_env example_denylist example_hash example_sync, example_peer example_home))
     ((Ends (Inr Gave), t), (Ends (Inr ()), t'), [], [])"
    using example_gives flows_net by blast
  then obtain i j where r: "side_run (peer_moves example_env example_denylist)
     (dial_with example_env example_denylist example_hash example_sync (example_key 7) 3 example_blob, example_peer example_holder)
     i j (Ends (Inr Gave), t)"
    using net_sides [OF run] by blast
  have "fold_pin example_env example_denylist (pe_home (example_peer example_holder)) = Inr (example_key 7, 100)"
    using example_holder_pin by (simp add: example_peer_def)
  from dialer_answer_earned [OF example_grow_only this r] r show ?thesis by auto
qed

end
