(* ===== verification/Rounds.thy ===== *)
theory Rounds
  imports Sync "HOL-Library.Sublist"
begin

text \<open>
  The rest of \<^verbatim>\<open>src/sync.rs\<close>: which devices an exchange is made with, the round over them and the
  record of the last exchange. A round asks a dial that answers as the network does: the argument
  says, of each ask in turn, when it starts, how long it runs and how it ends. The lemmas show that a
  round ends, that it asks every device behind a take again, and whom no round dials.
\<close>

section \<open>The last exchange\<close>

definition last_synced :: "'d peer \<Rightarrow> u64 option" where
  "last_synced s =
     (case pe_synced s of
        Contents text \<Rightarrow> ok_opt (parse_u64 (trim text))
      | _ \<Rightarrow> None)"

definition ago :: "systime \<Rightarrow> 'd peer \<Rightarrow> string" where
  "ago now s =
     (case last_synced s of
        None \<Rightarrow> ''never''
      | Some past \<Rightarrow>
          let secs = unat (sat_sub (unix_now now) past);
              (n, units) = (if secs < 3600 then (secs div 60, ''minute'')
                else if secs < 86400 then (secs div 3600, ''hour'')
                else (secs div 86400, ''day''))
          in show_nat n @ '' '' @ units @ (if n = 1 then '''' else ''s'') @ '' ago'')"

definition is_device :: "env \<Rightarrow> 'd denylist_ops \<Rightarrow> 'd peer \<Rightarrow> bool" where
  "is_device E D s \<longleftrightarrow> (\<exists>pin. ok_opt (device_pin E D (pe_home s)) = Some (Some pin))"

definition is_stale :: "env \<Rightarrow> 'd denylist_ops \<Rightarrow> systime \<Rightarrow> 'd peer \<Rightarrow> bool" where
  "is_stale E D now s \<longleftrightarrow> is_device E D s \<and>
     (case last_synced s of None \<Rightarrow> True | Some past \<Rightarrow> sat_sub (unix_now now) past > STALE)"

section \<open>The devices dialed\<close>

record device =
  dv_key :: node_id
  dv_name :: string

datatype dial_error = DeKey string | DeRevoked revoked_error | DeContacts string

text \<open>This machine's own key, which has to be a usable key when one is stored.\<close>

definition own_dial_key :: "'d home \<Rightarrow> dial_error + node_id option" where
  "own_dial_key H =
     bindR (map_err DeKey (key_stored (h_key H))) (\<lambda>stored.
     case stored of
       None \<Rightarrow> Inr None
     | Some None \<Rightarrow> Inl (DeKey ''no usable key'')
     | Some (Some n) \<Rightarrow> Inr (Some n))"

definition revoked_in_update :: "env \<Rightarrow> 'd denylist_ops \<Rightarrow> 'd home \<Rightarrow> node_id list" where
  "revoked_in_update E D H =
     (case device_pin E D H of
        Inr (Some pin) \<Rightarrow>
          (case read_held E (h_devices H) pin of
             Some (doc, _) \<Rightarrow> List.map_filter (en_node_id E) (revoked_keys doc)
           | None \<Rightarrow> [])
      | _ \<Rightarrow> [])"

definition dial_skips ::
  "env \<Rightarrow> node_id option \<Rightarrow> node_id list \<Rightarrow> revocation set \<Rightarrow> device list \<Rightarrow> device \<Rightarrow> bool" where
  "dial_skips E own gone rv out d \<longleftrightarrow>
     Some (dv_key d) = own \<or> dv_key d \<in> set gone \<or>
     (case en_verify_key E (dv_key d) of None \<Rightarrow> False | Some k \<Rightarrow> RevKey k \<in> rv) \<or>
     (\<exists>kept \<in> set out. dv_key kept = dv_key d)"

fun keep_dialable ::
  "env \<Rightarrow> node_id option \<Rightarrow> node_id list \<Rightarrow> revocation set \<Rightarrow> device list \<Rightarrow> device list \<Rightarrow> device list" where
  "keep_dialable E own gone rv out [] = out"
| "keep_dialable E own gone rv out (d # listed) =
     keep_dialable E own gone rv
       (if dial_skips E own gone rv out d then out else out @ [d]) listed"

definition dialable ::
  "env \<Rightarrow> 'd denylist_ops \<Rightarrow> 'd home \<Rightarrow> device list \<Rightarrow> dial_error + device list" where
  "dialable E D H listed =
     bindR (own_dial_key H) (\<lambda>own.
     bindR (map_err DeRevoked (revoked_open D H)) (\<lambda>rv.
     Inr (keep_dialable E own (revoked_in_update E D H) rv [] listed)))"

text \<open>What the address book names under \<^verbatim>\<open>me\<close>, in the random order of this round, or that it fails to open.\<close>

type_synonym me_book = "dial_error + (device_label \<times> node_id) list"

definition me_devices :: "me_book \<Rightarrow> dial_error + device list" where
  "me_devices me =
     bindR me (\<lambda>ds. Inr (map (\<lambda>(l, k). \<lparr>dv_key = k, dv_name = ''me/'' @ label_str l\<rparr>) ds))"

definition devices ::
  "env \<Rightarrow> 'd denylist_ops \<Rightarrow> (node_id \<Rightarrow> string) \<Rightarrow> me_book \<Rightarrow> node_id option \<Rightarrow> 'd home \<Rightarrow>
   (verify_key \<times> string) list \<Rightarrow> dial_error + device list" where
  "devices E D short me invited H also =
     bindR (me_devices me) (\<lambda>mine.
     dialable E D H (mine @
       List.map_filter (\<lambda>(k, name). map_option (\<lambda>n. \<lparr>dv_key = n, dv_name = name\<rparr>) (en_node_id E k)) also @
       option_list (map_option (\<lambda>n. \<lparr>dv_key = n, dv_name = short n\<rparr>) invited)))"

definition mine :: "env \<Rightarrow> 'd denylist_ops \<Rightarrow> me_book \<Rightarrow> 'd home \<Rightarrow> dial_error + device list" where
  "mine E D me H = bindR (me_devices me) (dialable E D H)"

definition is_own_device ::
  "env \<Rightarrow> 'd denylist_ops \<Rightarrow> (node_id \<Rightarrow> string) \<Rightarrow> me_book \<Rightarrow> node_id option \<Rightarrow> 'd home \<Rightarrow> node_id \<Rightarrow> bool" where
  "is_own_device E D short me invited H peer \<longleftrightarrow>
     (case devices E D short me invited H [] of
        Inl _ \<Rightarrow> False
      | Inr ds \<Rightarrow> \<exists>d \<in> set ds. dv_key d = peer)"

section \<open>A round\<close>

datatype reply = Answered answer | ReplyNotAdmitted | Silent

fun reply_answer :: "reply \<Rightarrow> answer option" where
  "reply_answer (Answered a) = Some a"
| "reply_answer ReplyNotAdmitted = None"
| "reply_answer Silent = None"

datatype until = UntilNewer | UntilEvery

text \<open>One ask: milliseconds into the round when it starts, how long the exchange runs, and its end.\<close>

record ask =
  as_at :: nat
  as_took :: nat
  as_end :: "exchange_error + answer"

definition ask_reply :: "nat \<Rightarrow> ask \<Rightarrow> reply" where
  "ask_reply deadline a =
     (if as_took a > min EACH (deadline - as_at a) then Silent
      else case as_end a of
        Inr x \<Rightarrow> Answered x
      | Inl NotAdmitted \<Rightarrow> ReplyNotAdmitted
      | Inl _ \<Rightarrow> Silent)"

fun behind :: "reply option \<Rightarrow> bool" where
  "behind (Some (Answered AnsweredSame)) = True"
| "behind (Some (Answered Gave)) = True"
| "behind (Some (Answered Took)) = True"
| "behind _ = False"

text \<open>The loop: the devices still to ask, what each said last, and, for the lemmas, who said what in turn.\<close>

record round_state =
  rs_queue :: "nat list"
  rs_replies :: "reply option list"
  rs_log :: "(nat \<times> reply) list"

definition round_start :: "nat \<Rightarrow> round_state" where
  "round_start n = \<lparr>rs_queue = [0..<n], rs_replies = replicate n None, rs_log = []\<rparr>"

definition round_next :: "until \<Rightarrow> (nat \<Rightarrow> nat \<Rightarrow> reply) \<Rightarrow> round_state \<Rightarrow> round_state" where
  "round_next u asked st =
     (case rs_queue st of
        [] \<Rightarrow> st
      | i # queue \<Rightarrow>
          let r = asked (length (rs_log st)) i;
              replies = (rs_replies st)[i := Some r];
              again = (if r = Answered Took
                then filter (\<lambda>j. j \<noteq> i \<and> behind (replies ! j) \<and> j \<notin> set queue) [0..<length replies]
                else [])
          in \<lparr>rs_queue = (if r = Answered Took \<and> u = UntilNewer then [] else queue @ again),
              rs_replies = replies, rs_log = rs_log st @ [(i, r)]\<rparr>)"

fun round_run :: "nat \<Rightarrow> until \<Rightarrow> (nat \<Rightarrow> nat \<Rightarrow> reply) \<Rightarrow> round_state \<Rightarrow> round_state option" where
  "round_run 0 u asked st = (if rs_queue st = [] then Some st else None)"
| "round_run (Suc fuel) u asked st =
     (if rs_queue st = [] then Some st else round_run fuel u asked (round_next u asked st))"

definition replied :: "device list \<Rightarrow> reply option list \<Rightarrow> (device \<times> reply) list" where
  "replied ds replies = List.map_filter (\<lambda>(d, r). map_option (\<lambda>r. (d, r)) r) (zip ds replies)"

definition sync_round ::
  "nat \<Rightarrow> (nat \<Rightarrow> device \<Rightarrow> ask) \<Rightarrow> device list \<Rightarrow> until \<Rightarrow> nat \<Rightarrow> (device \<times> reply) list option" where
  "sync_round fuel dial ds u within =
     map_option (\<lambda>st. replied ds (rs_replies st))
       (round_run fuel u (\<lambda>t i. ask_reply within (dial t (ds ! i))) (round_start (length ds)))"

definition refused :: "(device \<times> reply) list \<Rightarrow> bool" where
  "refused replies \<longleftrightarrow> (\<exists>(_, r) \<in> set replies. r = ReplyNotAdmitted)"

definition exchange_once :: "ask \<Rightarrow> answer option" where
  "exchange_once a = (if as_took a > EACH then None else ok_opt (as_end a))"

section \<open>Whom a round dials\<close>

lemma keep_dialable_keys:
  assumes "distinct (map dv_key out)"
  shows "distinct (map dv_key (keep_dialable E own gone rv out listed)) \<and>
    dv_key ` set (keep_dialable E own gone rv out listed) = dv_key ` set out \<union>
      {k \<in> dv_key ` set listed. Some k \<noteq> own \<and> k \<notin> set gone \<and>
        (\<forall>key. en_verify_key E k = Some key \<longrightarrow> RevKey key \<notin> rv)}"
  using assms
proof (induction listed arbitrary: out)
  case (Cons d listed)
  show ?case
  proof (cases "dial_skips E own gone rv out d")
    case True
    then have "dv_key d \<in> dv_key ` set out \<or> Some (dv_key d) = own \<or> dv_key d \<in> set gone \<or>
        (\<exists>key. en_verify_key E (dv_key d) = Some key \<and> RevKey key \<in> rv)"
      by (auto simp: dial_skips_def split: option.splits) (metis image_eqI)+
    then show ?thesis using Cons.IH [OF Cons.prems] True by auto
  next
    case False
    then have k: "dv_key d \<notin> dv_key ` set out" "Some (dv_key d) \<noteq> own" "dv_key d \<notin> set gone"
      "\<forall>key. en_verify_key E (dv_key d) = Some key \<longrightarrow> RevKey key \<notin> rv"
      by (auto simp: dial_skips_def image_iff split: option.splits)
    have "distinct (map dv_key (out @ [d]))" using Cons.prems k(1) by auto
    from Cons.IH [OF this] show ?thesis using False k by auto
  qed
qed simp

lemma keep_dialable_order: "subseq (keep_dialable E own gone rv out listed) (out @ listed)"
proof (induction listed arbitrary: out)
  case (Cons d listed)
  show ?case
  proof (cases "dial_skips E own gone rv out d")
    case True
    have "subseq (out @ listed) (out @ d # listed)" by (simp add: subseq_append' list_emb_Cons)
    then show ?thesis using Cons.IH [of out] True by (auto intro: subseq_order.trans)
  next
    case False
    then show ?thesis using Cons.IH [of "out @ [d]"] by simp
  qed
qed simp

section \<open>A round ends\<close>

definition round_ok :: "nat \<Rightarrow> round_state \<Rightarrow> bool" where
  "round_ok n st \<longleftrightarrow> length (rs_replies st) = n \<and> distinct (rs_queue st) \<and> set (rs_queue st) \<subseteq> {..<n}"

lemma round_start_ok: "round_ok n (round_start n)"
  by (auto simp: round_ok_def round_start_def)

lemma round_next_ok: "round_ok n st \<Longrightarrow> round_ok n (round_next u asked st)"
  by (cases "rs_queue st") (auto simp: round_ok_def round_next_def Let_def)

lemma round_ok_length: "round_ok n st \<Longrightarrow> length (rs_queue st) \<le> n"
  unfolding round_ok_def by (metis card_mono card_lessThan distinct_card finite_lessThan)

lemma round_next_log: "rs_queue st \<noteq> [] \<Longrightarrow> length (rs_log (round_next u asked st)) = Suc (length (rs_log st))"
  by (cases "rs_queue st") (auto simp: round_next_def Let_def)

lemma round_drains:
  assumes "\<And>t i. length (rs_log st) \<le> t \<Longrightarrow> asked t i \<noteq> Answered Took" "length (rs_queue st) \<le> fuel"
  shows "\<exists>end. round_run fuel u asked st = Some end"
  using assms
proof (induction fuel arbitrary: st)
  case (Suc fuel)
  show ?case
  proof (cases "rs_queue st")
    case (Cons i queue)
    let ?st = "round_next u asked st"
    have "asked (length (rs_log st)) i \<noteq> Answered Took" using Suc.prems(1) by simp
    then have "rs_queue ?st = queue" by (simp add: round_next_def Cons Let_def)
    then have "length (rs_queue ?st) \<le> fuel" using Suc.prems(2) Cons by simp
    moreover have "length (rs_log ?st) = Suc (length (rs_log st))" using Cons by (simp add: round_next_log)
    ultimately show ?thesis using Suc.IH [of ?st] Suc.prems(1) Cons by simp
  qed simp
qed simp

lemma round_ends:
  assumes "round_ok n st" "\<And>t i. length (rs_log st) + k \<le> t \<Longrightarrow> asked t i \<noteq> Answered Took"
  shows "\<exists>end. round_run (k + n) u asked st = Some end"
  using assms
proof (induction k arbitrary: st)
  case 0
  then show ?case using round_drains [of st asked n u] round_ok_length by simp
next
  case (Suc k)
  show ?case
  proof (cases "rs_queue st = []")
    case False
    then show ?thesis using Suc.IH [OF round_next_ok [OF Suc.prems(1)]] Suc.prems(2) by (simp add: round_next_log)
  qed simp
qed

section \<open>What a round leaves\<close>

text \<open>The reply kept for each device is its last, and a device left behind by a later take is in the queue.\<close>

definition last_said :: "(nat \<times> reply) list \<Rightarrow> nat \<Rightarrow> reply option" where
  "last_said log i = map_of (rev log) i"

definition took_after :: "(nat \<times> reply) list \<Rightarrow> nat \<Rightarrow> bool" where
  "took_after log i \<longleftrightarrow> (\<exists>xs r ys. log = xs @ (i, r) # ys \<and> (\<forall>(j, _) \<in> set ys. j \<noteq> i) \<and>
     (\<exists>j. (j, Answered Took) \<in> set ys))"

definition round_inv :: "until \<Rightarrow> nat \<Rightarrow> round_state \<Rightarrow> bool" where
  "round_inv u n st \<longleftrightarrow> round_ok n st \<and>
     (\<forall>i < n. rs_replies st ! i = last_said (rs_log st) i) \<and>
     (u = UntilEvery \<longrightarrow> (\<forall>i < n. (rs_replies st ! i = None \<longrightarrow> i \<in> set (rs_queue st)) \<and>
        (took_after (rs_log st) i \<and> behind (rs_replies st ! i) \<longrightarrow> i \<in> set (rs_queue st))))"

lemma last_said_snoc: "last_said (log @ [(j, r)]) i = (if i = j then Some r else last_said log i)"
  by (simp add: last_said_def)

lemma last_said_Some:
  "last_said log i = Some r \<Longrightarrow> \<exists>xs ys. log = xs @ (i, r) # ys \<and> (\<forall>(j, _) \<in> set ys. j \<noteq> i)"
proof (induction log rule: rev_induct)
  case (snoc x log)
  obtain j q where x: "x = (j, q)" by (cases x)
  show ?case
  proof (cases "j = i")
    case True
    then show ?thesis using snoc.prems by (intro exI [of _ log] exI [of _ "[]"]) (simp add: x last_said_snoc)
  next
    case False
    then have "last_said log i = Some r" using snoc.prems by (simp add: x last_said_snoc)
    from snoc.IH [OF this] obtain xs ys where "log = xs @ (i, r) # ys" "\<forall>(j, _) \<in> set ys. j \<noteq> i" by blast
    then show ?thesis using False by (intro exI [of _ xs] exI [of _ "ys @ [x]"]) (auto simp: x)
  qed
qed (simp add: last_said_def)

lemma took_after_snoc:
  assumes "took_after (log @ [(j, r)]) i"
  shows "i \<noteq> j \<and> (took_after log i \<or> last_said log i \<noteq> None \<and> r = Answered Took)"
proof -
  obtain xs q ys k where l: "log @ [(j, r)] = xs @ (i, q) # ys" "\<forall>(j, _) \<in> set ys. j \<noteq> i" "(k, Answered Took) \<in> set ys"
    using assms by (auto simp: took_after_def)
  then obtain zs where z: "ys = zs @ [(j, r)]" "log = xs @ (i, q) # zs"
    by (cases ys rule: rev_cases) auto
  have "last_said log i \<noteq> None" by (simp add: last_said_def z(2) map_add_Some_iff)
  moreover have "took_after log i" if "(k, Answered Took) \<in> set zs"
    using that l(2) z by (auto simp: took_after_def)
  ultimately show ?thesis using l(2,3) z(1) by auto
qed

lemma round_inv_start: "round_inv u n (round_start n)"
  using round_start_ok [of n] by (auto simp: round_inv_def round_start_def last_said_def took_after_def)

lemma round_inv_next:
  assumes "round_inv u n st"
  shows "round_inv u n (round_next u asked st)"
proof (cases "rs_queue st")
  case (Cons i queue)
  let ?r = "asked (length (rs_log st)) i" and ?st = "round_next u asked st"
  have ok: "round_ok n st" "i < n" "length (rs_replies st) = n" "i \<notin> set queue"
    using assms Cons by (auto simp: round_inv_def round_ok_def)
  have log: "rs_log ?st = rs_log st @ [(i, ?r)]" and replies: "rs_replies ?st = (rs_replies st)[i := Some ?r]"
    by (simp_all add: round_next_def Cons Let_def)
  have said: "rs_replies ?st ! k = last_said (rs_log ?st) k" if "k < n" for k
    using that assms ok by (auto simp: round_inv_def log replies last_said_snoc nth_list_update)
  have queued: "(rs_replies ?st ! k = None \<longrightarrow> k \<in> set (rs_queue ?st)) \<and>
      (took_after (rs_log ?st) k \<and> behind (rs_replies ?st ! k) \<longrightarrow> k \<in> set (rs_queue ?st))"
    if k: "k < n" "u = UntilEvery" for k
  proof -
    have inv: "rs_replies st ! k = None \<longrightarrow> k \<in> set (rs_queue st)"
      "took_after (rs_log st) k \<and> behind (rs_replies st ! k) \<longrightarrow> k \<in> set (rs_queue st)"
      using assms k by (auto simp: round_inv_def)
    have q: "set queue \<subseteq> set (rs_queue ?st)"
      "?r = Answered Took \<Longrightarrow> k \<noteq> i \<Longrightarrow> behind (rs_replies ?st ! k) \<Longrightarrow> k \<in> set (rs_queue ?st)"
      using k ok by (auto simp: round_next_def Cons Let_def)
    have "took_after (rs_log ?st) k \<Longrightarrow> k \<noteq> i \<and> (took_after (rs_log st) k \<or> ?r = Answered Took)"
      unfolding log using took_after_snoc by blast
    then show ?thesis using inv q Cons ok(2,3) by (cases "k = i") (auto simp: replies)
  qed
  show ?thesis unfolding round_inv_def using round_next_ok [OF ok(1)] said queued by blast
qed (use assms in \<open>simp add: round_next_def\<close>)

lemma round_run_inv:
  "round_run fuel u asked st = Some end \<Longrightarrow> round_inv u n st \<Longrightarrow> round_inv u n end \<and> rs_queue end = []"
  by (induction fuel u asked st rule: round_run.induct) (auto split: if_splits simp: round_inv_next)

text \<open>
  C16: A round ends, and leaves nobody behind. When the clock passes the round's bound and every
  exchange takes some time, a round over any devices ends; the reply it gives for a device is the last
  one that device made; and a round that asks every device has asked each, and has asked again every
  device that was found the same, given this machine's list or taken from, when another device's list
  was taken after it.
\<close>
theorem round_asks_behind_again:
  assumes "\<And>t d. k \<le> t \<Longrightarrow> within \<le> as_at (dial t d) \<and> 0 < as_took (dial t d)"
  shows "\<exists>st. round_run (k + length ds) u (\<lambda>t i. ask_reply within (dial t (ds ! i))) (round_start (length ds)) = Some st \<and>
     sync_round (k + length ds) dial ds u within = Some (replied ds (rs_replies st)) \<and>
     (\<forall>i < length ds. rs_replies st ! i = last_said (rs_log st) i) \<and>
     (u = UntilEvery \<longrightarrow> (\<forall>i < length ds. rs_replies st ! i \<noteq> None \<and>
        (behind (rs_replies st ! i) \<longrightarrow> \<not> took_after (rs_log st) i)))"
proof -
  let ?asked = "\<lambda>t i. ask_reply within (dial t (ds ! i))"
  have "?asked t i \<noteq> Answered Took" if "k \<le> t" for t i
    using assms [OF that, of "ds ! i"] by (simp add: ask_reply_def)
  then obtain st where st: "round_run (k + length ds) u ?asked (round_start (length ds)) = Some st"
    using round_ends [OF round_start_ok, of "length ds" k ?asked u] by (auto simp: round_start_def)
  from round_run_inv [OF st round_inv_start]
  have "round_inv u (length ds) st" "rs_queue st = []" by auto
  then show ?thesis using st by (auto simp: sync_round_def round_inv_def)
qed

text \<open>
  A round dials no one it must not, and misses no one else. The devices of a round are, each key
  once, exactly those of the address book, the presented root and the invitation that are not this
  machine's own key, not revoked here, and not revoked in the update held, in the order given.
\<close>
theorem devices_exactly_allowed:
  assumes "devices E D short me invited H also = Inr ds"
  shows "\<exists>listed own rv. me = Inr listed \<and> own_dial_key H = Inr own \<and> revoked_open D H = Inr rv \<and>
     distinct (map dv_key ds) \<and>
     subseq (map dv_key ds) (map snd listed @ List.map_filter (en_node_id E \<circ> fst) also @ option_list invited) \<and>
     dv_key ` set ds = {k. (k \<in> snd ` set listed \<or> (\<exists>(r, _) \<in> set also. en_node_id E r = Some k) \<or> invited = Some k) \<and>
       Some k \<noteq> own \<and> k \<notin> set (revoked_in_update E D H) \<and>
       (\<forall>key. en_verify_key E k = Some key \<longrightarrow> RevKey key \<notin> rv)}"
proof -
  obtain listed own rv where e: "me = Inr listed" "own_dial_key H = Inr own" "revoked_open D H = Inr rv"
    using assms by (auto simp: devices_def me_devices_def dialable_def bindR_Inr_iff map_err_Inr_iff)
  let ?listed = "map (\<lambda>(l, k). \<lparr>dv_key = k, dv_name = ''me/'' @ label_str l\<rparr>) listed @
       List.map_filter (\<lambda>(k, name). map_option (\<lambda>n. \<lparr>dv_key = n, dv_name = name\<rparr>) (en_node_id E k)) also @
       option_list (map_option (\<lambda>n. \<lparr>dv_key = n, dv_name = short n\<rparr>) invited)"
  have ds: "ds = keep_dialable E own (revoked_in_update E D H) rv [] ?listed"
    using assms e by (simp add: devices_def me_devices_def dialable_def)
  have "dv_key ` set ?listed = {k. k \<in> snd ` set listed \<or> (\<exists>(r, _) \<in> set also. en_node_id E r = Some k) \<or> invited = Some k}"
    by (force simp: List.map_filter_def image_iff split_beta)
  moreover have eq: "map dv_key ?listed = map snd listed @ List.map_filter (en_node_id E \<circ> fst) also @ option_list invited"
    by (auto simp: List.map_filter_def o_def split_beta option_list_def split: option.split)
  have "subseq (map dv_key ds) (map dv_key ([] @ ?listed))"
    unfolding ds by (rule subseq_map [OF keep_dialable_order])
  moreover note this [unfolded append_Nil eq]
  ultimately show ?thesis
    using keep_dialable_keys [of "[]" E own "revoked_in_update E D H" rv ?listed] e unfolding ds by auto
qed

theorem round_asks_behind_again_witness:
  "\<exists>r. sync_round 3 (\<lambda>t d. \<lparr>as_at = t * 6000, as_took = 1, as_end = Inr Took\<rparr>)
     [\<lparr>dv_key = example_node 3, dv_name = ''me/a''\<rparr>, \<lparr>dv_key = example_node 4, dv_name = ''me/b''\<rparr>]
     UntilEvery 6000 = Some r"
proof -
  let ?dial = "\<lambda>t d :: device. \<lparr>as_at = t * 6000, as_took = 1, as_end = Inr Took\<rparr> :: ask"
  have "6000 \<le> as_at (?dial t d) \<and> 0 < as_took (?dial t d)" if "1 \<le> t" for t d using that by simp
  from round_asks_behind_again [of 1 6000 ?dial, OF this,
      of "[\<lparr>dv_key = example_node 3, dv_name = ''me/a''\<rparr>, \<lparr>dv_key = example_node 4, dv_name = ''me/b''\<rparr>]" UntilEvery]
  show ?thesis by (auto simp: numeral_3_eq_3)
qed

theorem devices_exactly_allowed_witness:
  "\<exists>ds. devices example_env example_denylist (\<lambda>_. []) (Inr [(m_label example_member, example_node 5)]) None
     example_home [] = Inr ds \<and> example_node 5 \<notin> dv_key ` set ds"
proof -
  have "\<exists>ds. devices example_env example_denylist (\<lambda>_. []) (Inr [(m_label example_member, example_node 5)]) None
     example_home [] = Inr ds"
    by (simp add: devices_def me_devices_def dialable_def own_dial_key_def key_stored_def revoked_open_def
        example_home_def example_denylist_def)
  then obtain ds where d: "devices example_env example_denylist (\<lambda>_. []) (Inr [(m_label example_member, example_node 5)]) None
     example_home [] = Inr ds" by blast
  have own: "own_dial_key example_home = Inr (Some (example_node 5))"
    by (simp add: own_dial_key_def key_stored_def example_home_def)
  from devices_exactly_allowed [OF d] d own show ?thesis by auto
qed

end
