(* ===== verification/Contacts.thy ===== *)
theory Contacts
  imports Fold
begin

text \<open>
  \<^verbatim>\<open>src/contacts.rs\<close> and \<^verbatim>\<open>src/contacts/store.rs\<close>: the address book of one machine. A person has
  machines, each under a label, and at most one saved root; every operation of the book is a
  function here, and so is what the store writes to \<^verbatim>\<open>contacts.toml\<close> and reads from it. The TOML
  crate and the text of a key are the record \<open>book_text\<close>.
\<close>

section \<open>The book\<close>

definition ME :: petname where "ME = Petname ''me''"

record binding =
  bn_node :: node_id
  bn_seen_root :: "node_id option"

definition binding_new :: "node_id \<Rightarrow> binding" where
  "binding_new node = \<lparr>bn_node = node, bn_seen_root = None\<rparr>"

datatype source = Explicit | Learned device_label

record saved_root =
  sr_node :: node_id
  sr_source :: source

record person =
  pn_devices :: "(device_label, binding) btree"
  pn_signet :: "saved_root option"

definition person_default :: person where
  "person_default = \<lparr>pn_devices = [], pn_signet = None\<rparr>"

definition person_empty :: "person \<Rightarrow> bool" where
  "person_empty p \<longleftrightarrow> pn_devices p = [] \<and> pn_signet p = None"

record contacts =
  ct_people :: "(petname, person) btree"
  ct_yours :: "node_id option"

definition contacts_default :: contacts where
  "contacts_default = \<lparr>ct_people = [], ct_yours = None\<rparr>"

section \<open>Reading the book\<close>

definition ct_person :: "contacts \<Rightarrow> petname \<Rightarrow> person option" where
  "ct_person c p = bt_get (ct_people c) p"

definition ct_petnames :: "contacts \<Rightarrow> petname list" where
  "ct_petnames c = bt_keys (ct_people c)"

definition labelled :: "person \<Rightarrow> (device_label \<times> node_id) list" where
  "labelled p = map (\<lambda>(l, b). (l, bn_node b)) (pn_devices p)"

definition ct_devices :: "contacts \<Rightarrow> petname \<Rightarrow> (device_label \<times> node_id) list option" where
  "ct_devices c p = map_option labelled (ct_person c p)"

definition ct_mine :: "contacts \<Rightarrow> (device_label \<times> node_id) list" where
  "ct_mine c = concat (map labelled (option_list (ct_person c ME)))"

definition ct_signet :: "contacts \<Rightarrow> petname \<Rightarrow> saved_root option" where
  "ct_signet c p = Option.bind (ct_person c p) pn_signet"

definition is_root_of :: "person \<Rightarrow> node_id \<Rightarrow> bool" where
  "is_root_of p root = (case pn_signet p of None \<Rightarrow> False | Some saved \<Rightarrow> sr_node saved = root)"

definition ct_saved_root :: "contacts \<Rightarrow> node_id \<Rightarrow> petname option" where
  "ct_saved_root c root = map_option fst (find (\<lambda>(_, p). is_root_of p root) (ct_people c))"

definition ct_seen_root :: "contacts \<Rightarrow> petname \<Rightarrow> device_label \<Rightarrow> node_id option" where
  "ct_seen_root c person device =
     Option.bind (ct_person c person) (\<lambda>saved.
     Option.bind (bt_get (pn_devices saved) device) bn_seen_root)"

text \<open>Where a book saves a key: a person's root before their machines.\<close>

definition saved_in :: "node_id \<Rightarrow> petname \<Rightarrow> person \<Rightarrow> contact_ref option" where
  "saved_in node petname p =
     (if is_root_of p node then Some \<lparr>ref_petname = petname, ref_device = None\<rparr>
      else map_option (\<lambda>(label, _). \<lparr>ref_petname = petname, ref_device = Some label\<rparr>)
        (find (\<lambda>(_, b). bn_node b = node) (pn_devices p)))"

definition ct_saved_at :: "contacts \<Rightarrow> node_id \<Rightarrow> contact_ref option" where
  "ct_saved_at c node = find_map (\<lambda>(petname, p). saved_in node petname p) (ct_people c)"

record candidate =
  cd_node :: node_id
  cd_label :: string

datatype resolve_error =
    UnknownPetname petname
  | UnknownDevice petname device_label

definition candidate_of :: "petname \<Rightarrow> device_label \<Rightarrow> node_id \<Rightarrow> candidate" where
  "candidate_of petname device node =
     \<lparr>cd_node = node, cd_label = petname_str petname @ ''/'' @ label_str device\<rparr>"

definition resolve_candidates :: "contacts \<Rightarrow> contact_ref \<Rightarrow> resolve_error + candidate list" where
  "resolve_candidates c target =
     bindR (ok_or (UnknownPetname (ref_petname target)) (ct_person c (ref_petname target))) (\<lambda>person.
     case ref_device target of
       None \<Rightarrow> Inr (map (\<lambda>(device, b). candidate_of (ref_petname target) device (bn_node b)) (pn_devices person))
     | Some device \<Rightarrow>
         ok_or (UnknownDevice (ref_petname target) device)
           (map_option (\<lambda>b. [candidate_of (ref_petname target) device (bn_node b)])
             (bt_get (pn_devices person) device)))"

section \<open>Changing the book\<close>

text \<open>\<^verbatim>\<open>entry(petname).or_default()\<close>, changed and put back.\<close>

definition on_person :: "petname \<Rightarrow> (person \<Rightarrow> person) \<Rightarrow> contacts \<Rightarrow> contacts" where
  "on_person p f c =
     c\<lparr>ct_people := bt_insert p (f (case ct_person c p of None \<Rightarrow> person_default | Some x \<Rightarrow> x)) (ct_people c)\<rparr>"

definition insert_binding :: "petname \<Rightarrow> device_label \<Rightarrow> binding \<Rightarrow> contacts \<Rightarrow> contacts" where
  "insert_binding petname device binding =
     on_person petname (\<lambda>p. p\<lparr>pn_devices := bt_insert device binding (pn_devices p)\<rparr>)"

definition set_signet_binding :: "petname \<Rightarrow> saved_root \<Rightarrow> contacts \<Rightarrow> contacts" where
  "set_signet_binding petname root = on_person petname (\<lambda>p. p\<lparr>pn_signet := Some root\<rparr>)"

definition me_device :: "env \<Rightarrow> member \<Rightarrow> person \<Rightarrow> person" where
  "me_device E m p =
     (case en_node_id E (m_node m) of
        None \<Rightarrow> p
      | Some node \<Rightarrow> p\<lparr>pn_devices := bt_insert (m_label m) (binding_new node) (pn_devices p)\<rparr>)"

definition me_person :: "env \<Rightarrow> roster_doc \<Rightarrow> person" where
  "me_person E devices = fold (me_device E) (members devices) person_default"

definition derive_me :: "env \<Rightarrow> roster_doc option \<Rightarrow> node_id option \<Rightarrow> contacts \<Rightarrow> contacts" where
  "derive_me E devices root c =
     (let c = \<lparr>ct_people = bt_remove ME (ct_people c), ct_yours = root\<rparr> in
      case devices of
        None \<Rightarrow> c
      | Some devices \<Rightarrow>
          let person = me_person E devices in
          if person_empty person then c
          else c\<lparr>ct_people := bt_insert ME person (ct_people c)\<rparr>)"

definition see_root :: "petname \<Rightarrow> device_label \<Rightarrow> node_id \<Rightarrow> contacts \<Rightarrow> contacts" where
  "see_root person device root c =
     (case Option.bind (ct_person c person) (\<lambda>saved. bt_get (pn_devices saved) device) of
        None \<Rightarrow> c
      | Some binding \<Rightarrow> insert_binding person device (binding\<lparr>bn_seen_root := Some root\<rparr>) c)"

datatype taken = TakenName node_id | TakenKey contact_ref

datatype saved = Created | SavedUnchanged | Unlearned

definition learn :: "petname \<Rightarrow> node_id \<Rightarrow> device_label \<Rightarrow> (contacts, taken, unit) act" where
  "learn person root from_device c =
     (case ct_signet c person of
        Some held \<Rightarrow> (Inl (TakenName (sr_node held)), c)
      | None \<Rightarrow>
          (case ct_saved_at c root of
             Some at \<Rightarrow> (Inl (TakenKey at), c)
           | None \<Rightarrow>
               (Inr (), set_signet_binding person \<lparr>sr_node = root, sr_source = Learned from_device\<rparr> c)))"

definition root_elsewhere :: "contacts \<Rightarrow> petname \<Rightarrow> node_id \<Rightarrow> contact_ref option" where
  "root_elsewhere c person root =
     (case ct_saved_at c root of
        None \<Rightarrow> None
      | Some at \<Rightarrow> if ref_device at \<noteq> None \<or> ref_petname at \<noteq> person then Some at else None)"

definition replace_root :: "petname \<Rightarrow> node_id \<Rightarrow> (contacts, taken, node_id option) act" where
  "replace_root person root c =
     (case root_elsewhere c person root of
        Some at \<Rightarrow> (Inl (TakenKey at), c)
      | None \<Rightarrow>
          (case ct_signet c person of
             None \<Rightarrow> (Inr None, c)
           | Some held \<Rightarrow>
               (Inr (Some (sr_node held)),
                set_signet_binding person \<lparr>sr_node = root, sr_source = Explicit\<rparr> c)))"

text \<open>
  \<^verbatim>\<open>save\<close>: \<open>save_held\<close> is its match on the name as it stands, and the rest writes a key no name holds.
\<close>

definition save_held :: "contact_ref \<Rightarrow> node_id \<Rightarrow> contacts \<Rightarrow> ((taken + saved) \<times> contacts) option" where
  "save_held at node c =
     (case (ct_person c (ref_petname at), ref_device at) of
        (Some person, None) \<Rightarrow>
          (case pn_signet person of
             None \<Rightarrow> None
           | Some held \<Rightarrow>
               if sr_node held = node then
                 Some (Inr (case sr_source held of Explicit \<Rightarrow> SavedUnchanged | Learned _ \<Rightarrow> Unlearned),
                   set_signet_binding (ref_petname at) (held\<lparr>sr_source := Explicit\<rparr>) c)
               else Some (Inl (TakenName (sr_node held)), c))
      | (Some person, Some device) \<Rightarrow>
          (case bt_get (pn_devices person) device of
             None \<Rightarrow> None
           | Some held \<Rightarrow>
               if bn_node held = node then Some (Inr SavedUnchanged, c)
               else Some (Inl (TakenName (bn_node held)), c))
      | (None, _) \<Rightarrow> None)"

definition ct_save :: "contact_ref \<Rightarrow> node_id \<Rightarrow> (contacts, taken, saved) act" where
  "ct_save at node c =
     (case save_held at node c of
        Some answer \<Rightarrow> answer
      | None \<Rightarrow>
          (case ct_saved_at c node of
             Some held_at \<Rightarrow> (Inl (TakenKey held_at), c)
           | None \<Rightarrow>
               (Inr Created,
                case ref_device at of
                  None \<Rightarrow> set_signet_binding (ref_petname at) \<lparr>sr_node = node, sr_source = Explicit\<rparr> c
                | Some device \<Rightarrow> insert_binding (ref_petname at) device (binding_new node) c)))"

datatype removed = Removed | Absent

definition ct_remove :: "petname \<Rightarrow> device_label option \<Rightarrow> contacts \<Rightarrow> removed \<times> contacts" where
  "ct_remove petname device c =
     (case ct_person c petname of
        None \<Rightarrow> (Absent, c)
      | Some person \<Rightarrow>
          (case device of
             None \<Rightarrow> (Removed, c\<lparr>ct_people := bt_remove petname (ct_people c)\<rparr>)
           | Some device \<Rightarrow>
               if \<not> bt_has (pn_devices person) device then (Absent, c)
               else
                 let person = person\<lparr>pn_devices := bt_remove device (pn_devices person)\<rparr> in
                 (Removed,
                  c\<lparr>ct_people :=
                    (if person_empty person then bt_remove petname (ct_people c)
                     else bt_insert petname person (ct_people c))\<rparr>)))"

section \<open>The file\<close>

text \<open>
  A TOML value as the files tell them apart: a string, an array, a table, or anything else. The record holds
  \<^verbatim>\<open>toml::from_str\<close> and \<^verbatim>\<open>toml::to_string_pretty\<close> for a table of tables, and a key's \<^verbatim>\<open>Display\<close>. What
  the store relies on: text the crate printed parses back, and so does the text of a key.
\<close>

datatype toml_value =
    TomlString string
  | TomlArray "toml_value list"
  | TomlTable "(string \<times> toml_value) list"
  | TomlOther

type_synonym toml_table = "(string, toml_value) btree"

record book_text =
  tx_parse :: "string \<Rightarrow> toml_table option"
  tx_print :: "toml_table \<Rightarrow> string option"
  tx_show :: "node_id \<Rightarrow> string"

definition prints_back :: "env \<Rightarrow> book_text \<Rightarrow> bool" where
  "prints_back E B \<longleftrightarrow>
     (\<forall>w t. tx_print B w = Some t \<longrightarrow> tx_parse B t = Some w) \<and>
     (\<forall>n. en_parse_node E (tx_show B n) = Some n)"

fun as_str :: "toml_value \<Rightarrow> string option" where
  "as_str (TomlString s) = Some s"
| "as_str _ = None"

fun as_table :: "toml_value \<Rightarrow> toml_table option" where
  "as_table (TomlTable t) = Some t"
| "as_table _ = None"

datatype store_error =
    CsNoHome
  | CsRead string
  | CsWrite string
  | CsParse
  | CsEncode
  | CsName name_error
  | CsNodeId
  | CsBadEntry

definition SIGNET_KEY :: string where "SIGNET_KEY = ''signet_root''"
definition LEARNED_KEY :: string where "LEARNED_KEY = ''signet_learned_from''"
definition SEEN_KEY :: string where "SEEN_KEY = ''seen_roots''"

definition decode_key :: "env \<Rightarrow> toml_value \<Rightarrow> store_error + node_id" where
  "decode_key E v =
     bindR (ok_or CsBadEntry (as_str v)) (\<lambda>key. ok_or CsNodeId (en_parse_node E key))"

definition decode_seen :: "env \<Rightarrow> toml_value \<Rightarrow> store_error + (device_label, node_id) btree" where
  "decode_seen E v =
     bindR (ok_or CsBadEntry (as_table v)) (\<lambda>t.
     each_entry (\<lambda>(label, v) m.
       bindR (map_err CsName (label_stored label)) (\<lambda>l.
       bindR (decode_key E v) (\<lambda>n. Inr (bt_insert l n m)))) t [])"

definition decode_learned :: "toml_table \<Rightarrow> store_error + device_label option" where
  "decode_learned tbl =
     (case bt_get tbl LEARNED_KEY of
        None \<Rightarrow> Inr None
      | Some v \<Rightarrow>
          bindR (ok_or CsBadEntry (as_str v)) (\<lambda>text.
          bindR (map_err CsName (label_stored text)) (\<lambda>l. Inr (Some l))))"

definition decode_signet ::
  "env \<Rightarrow> petname \<Rightarrow> toml_table \<Rightarrow> device_label option \<Rightarrow> contacts \<Rightarrow> store_error + contacts" where
  "decode_signet E petname tbl learned c =
     (case (bt_get tbl SIGNET_KEY, learned) of
        (Some v, learned) \<Rightarrow>
          bindR (decode_key E v) (\<lambda>n.
          Inr (set_signet_binding petname
            \<lparr>sr_node = n, sr_source = (case learned of None \<Rightarrow> Explicit | Some l \<Rightarrow> Learned l)\<rparr> c))
      | (None, Some _) \<Rightarrow> Inl CsBadEntry
      | (None, None) \<Rightarrow> Inr c)"

definition decode_device ::
  "env \<Rightarrow> petname \<Rightarrow> string \<times> toml_value \<Rightarrow> contacts \<times> (device_label, node_id) btree \<Rightarrow>
   store_error + contacts \<times> (device_label, node_id) btree" where
  "decode_device E petname = (\<lambda>(label, v) (c, seen).
     if label \<in> {SIGNET_KEY, LEARNED_KEY, SEEN_KEY} then Inr (c, seen)
     else
       bindR (map_err CsName (label_stored label)) (\<lambda>device.
       bindR (decode_key E v) (\<lambda>n.
       Inr (insert_binding petname device \<lparr>bn_node = n, bn_seen_root = bt_get seen device\<rparr> c,
            bt_remove device seen))))"

definition decode_person ::
  "env \<Rightarrow> string \<times> toml_value \<Rightarrow> contacts \<Rightarrow> store_error + contacts" where
  "decode_person E = (\<lambda>(key, v) c.
     bindR (map_err CsName (petname_stored key)) (\<lambda>petname.
     bindR (ok_or CsBadEntry (as_table v)) (\<lambda>tbl.
     bindR (case bt_get tbl SEEN_KEY of None \<Rightarrow> Inr [] | Some v \<Rightarrow> decode_seen E v) (\<lambda>seen.
     bindR (decode_learned tbl) (\<lambda>learned.
     bindR (decode_signet E petname tbl learned c) (\<lambda>c.
     bindR (each_entry (decode_device E petname) tbl (c, seen)) (\<lambda>(c, seen).
     if seen \<noteq> [] then Inl CsBadEntry else Inr c)))))))"

definition decode_wire :: "env \<Rightarrow> toml_table \<Rightarrow> store_error + contacts" where
  "decode_wire E w = each_entry (decode_person E) w contacts_default"

definition decode_book :: "env \<Rightarrow> book_text \<Rightarrow> string \<Rightarrow> store_error + contacts" where
  "decode_book E B text = bindR (ok_or CsParse (tx_parse B text)) (decode_wire E)"

definition key_value :: "book_text \<Rightarrow> node_id \<Rightarrow> toml_value" where
  "key_value B n = TomlString (tx_show B n)"

definition encode_seen :: "book_text \<Rightarrow> contacts \<Rightarrow> petname \<Rightarrow> toml_table" where
  "encode_seen B c petname =
     bt_of (List.map_filter (\<lambda>(label, _).
         map_option (\<lambda>root. (label_str label, key_value B root)) (ct_seen_root c petname label))
       (concat (option_list (ct_devices c petname))))"

definition encode_group :: "book_text \<Rightarrow> contacts \<Rightarrow> petname \<Rightarrow> toml_table" where
  "encode_group B c petname =
     (let tbl = bt_of (map (\<lambda>(label, n). (label_str label, key_value B n))
            (concat (option_list (ct_devices c petname))));
          tbl = (case ct_signet c petname of
              None \<Rightarrow> tbl
            | Some root \<Rightarrow>
                let tbl = bt_insert SIGNET_KEY (key_value B (sr_node root)) tbl in
                (case sr_source root of
                   Explicit \<Rightarrow> tbl
                 | Learned l \<Rightarrow> bt_insert LEARNED_KEY (TomlString (label_str l)) tbl));
          seen = encode_seen B c petname
      in if seen \<noteq> [] then bt_insert SEEN_KEY (TomlTable seen) tbl else tbl)"

definition encode_person :: "book_text \<Rightarrow> contacts \<Rightarrow> petname \<Rightarrow> toml_table \<Rightarrow> toml_table" where
  "encode_person B c petname wire =
     (let tbl = encode_group B c petname in
      if tbl = [] then wire else bt_insert (petname_str petname) (TomlTable tbl) wire)"

definition encode_wire :: "book_text \<Rightarrow> contacts \<Rightarrow> toml_table" where
  "encode_wire B c =
     fold (encode_person B c) (filter (\<lambda>p. p \<noteq> ME) (ct_petnames c)) []"

definition encode_book :: "book_text \<Rightarrow> contacts \<Rightarrow> store_error + string" where
  "encode_book B c = ok_or CsEncode (tx_print B (encode_wire B c))"

section \<open>The store\<close>

text \<open>\<^verbatim>\<open>config::load_signet\<close>: the pin, none when there is none or this machine revoked it.\<close>

datatype config_error = CfIo string | CfUnreadablePin | CfRevoked revoked_error

definition load_signet :: "env \<Rightarrow> 'd denylist_ops \<Rightarrow> 'd home \<Rightarrow> config_error + node_id option" where
  "load_signet E D H =
     (case h_root_pub H of
        Read Missing \<Rightarrow> Inr None
      | Read (Unreadable e) \<Rightarrow> Inl (CfIo e)
      | NotText \<Rightarrow> Inl (CfIo ''stream did not contain valid UTF-8'')
      | Read (Contents t) \<Rightarrow>
          bindR (ok_or CfUnreadablePin (en_parse_node E (trim t))) (\<lambda>pin.
          bindR (map_err CfRevoked (revoked_open D H)) (\<lambda>rv.
          Inr (if st_is_revoked E rv pin then None else Some pin))))"

definition roster_held :: "env \<Rightarrow> 'd home \<Rightarrow> verify_key \<Rightarrow> roster_doc option" where
  "roster_held E H root = map_option fst (read_held E (h_devices H) root)"

record contacts_store =
  cs_contacts :: contacts
  cs_list :: "roster_doc option"

definition store_open ::
  "env \<Rightarrow> 'd denylist_ops \<Rightarrow> book_text \<Rightarrow> text_read \<Rightarrow> 'd home \<Rightarrow> store_error + contacts_store" where
  "store_open E D B file H =
     bindR (case file of
        Read (Contents t) \<Rightarrow> decode_book E B t
      | Read Missing \<Rightarrow> Inr contacts_default
      | Read (Unreadable e) \<Rightarrow> Inl (CsRead e)
      | NotText \<Rightarrow> Inl (CsRead ''stream did not contain valid UTF-8'')) (\<lambda>c.
     let pin = (case load_signet E D H of Inl _ \<Rightarrow> None | Inr pin \<Rightarrow> pin);
         devices = Option.bind (Option.bind pin (en_verify_key E)) (roster_held E H)
     in Inr \<lparr>cs_contacts = derive_me E devices pin c, cs_list = devices\<rparr>)"

text \<open>
  Writing the book replaces the whole file or fails and leaves it as it was: \<open>fails\<close> is the failure.
\<close>

definition store_save ::
  "book_text \<Rightarrow> string option \<Rightarrow> contacts_store \<Rightarrow> (text_read, store_error, unit) act" where
  "store_save B fails st file =
     (case encode_book B (cs_contacts st) of
        Inl e \<Rightarrow> (Inl e, file)
      | Inr text \<Rightarrow>
          (case fails of
             Some e \<Rightarrow> (Inl (CsWrite e), file)
           | None \<Rightarrow> (Inr (), Read (Contents text))))"

end
