(* ===== verification/Contacts_Laws.thy ===== *)
theory Contacts_Laws
  imports Contacts
begin

text \<open>
  What holds of the address book of \<^verbatim>\<open>src/contacts.rs\<close> and of its file. Seen as a map from names to
  keys (\<open>book_holds\<close>), saving never moves a name or a key; a book in which each key has one name stays one
  through every command; what the store writes reads back as the book without \<^verbatim>\<open>me\<close>; and whatever a
  file holds, a book that opens is well formed, with \<^verbatim>\<open>me\<close> as the verified list has it.
\<close>

section \<open>Lookups\<close>

definition book_holds :: "contacts \<Rightarrow> contact_ref \<Rightarrow> node_id option" where
  "book_holds c r = Option.bind (ct_person c (ref_petname r)) (\<lambda>p.
     case ref_device r of
       None \<Rightarrow> map_option sr_node (pn_signet p)
     | Some l \<Rightarrow> map_option bn_node (bt_get (pn_devices p) l))"

definition person_ok :: "person \<Rightarrow> bool" where
  "person_ok p \<longleftrightarrow> bt_ok (pn_devices p) \<and> (\<forall>e \<in> set (pn_devices p). valid_label (fst e)) \<and>
     (\<forall>r l. pn_signet p = Some r \<longrightarrow> sr_source r = Learned l \<longrightarrow> valid_label l)"

definition contacts_ok :: "contacts \<Rightarrow> bool" where
  "contacts_ok c \<longleftrightarrow> bt_ok (ct_people c) \<and>
     (\<forall>e \<in> set (ct_people c). valid_name (petname_str (fst e)) \<and> person_ok (snd e) \<and> \<not> person_empty (snd e))"

lemma saved_in_Some:
  assumes "bt_ok (pn_devices p)" "saved_in n name p = Some r"
  shows "ref_petname r = name \<and>
    (case ref_device r of None \<Rightarrow> map_option sr_node (pn_signet p) = Some n
     | Some l \<Rightarrow> map_option bn_node (bt_get (pn_devices p) l) = Some n)"
  using assms
  by (auto simp: saved_in_def is_root_of_def bt_get_entries [symmetric]
      dest!: find_Some_set split: if_splits option.splits)

lemma saved_in_None:
  assumes "bt_ok (pn_devices p)" "saved_in n name p = None"
  shows "map_option sr_node (pn_signet p) \<noteq> Some n \<and> map_option bn_node (bt_get (pn_devices p) l) \<noteq> Some n"
  using assms
  by (auto simp: saved_in_def is_root_of_def find_None_iff bt_get_entries [symmetric] split: if_splits option.splits)

lemma book_person:
  assumes "contacts_ok c" "ct_person c p = Some x"
  shows "(p, x) \<in> set (ct_people c)" "person_ok x" "valid_name (petname_str p)" "\<not> person_empty x"
    "bt_ok (pn_devices x)"
proof -
  show e: "(p, x) \<in> set (ct_people c)"
    using assms by (simp add: contacts_ok_def ct_person_def bt_get_entries)
  then show "person_ok x" "valid_name (petname_str p)" "\<not> person_empty x"
    using assms(1) by (force simp: contacts_ok_def)+
  then show "bt_ok (pn_devices x)" by (simp add: person_ok_def)
qed

lemma saved_at_Some: "contacts_ok c \<Longrightarrow> ct_saved_at c n = Some r \<Longrightarrow> book_holds c r = Some n"
proof -
  assume ok: "contacts_ok c" and "ct_saved_at c n = Some r"
  then obtain name p where e: "(name, p) \<in> set (ct_people c)" and s: "saved_in n name p = Some r"
    by (auto simp: ct_saved_at_def dest!: find_map_Some)
  have g: "ct_person c name = Some p" using ok e by (simp add: contacts_ok_def ct_person_def bt_get_entries)
  have "bt_ok (pn_devices p)" by (rule book_person(5) [OF ok g])
  from saved_in_Some [OF this s] show ?thesis
    using g by (auto simp: book_holds_def split: option.splits)
qed

lemma saved_at_None: "contacts_ok c \<Longrightarrow> ct_saved_at c n = None \<longleftrightarrow> (\<forall>r. book_holds c r \<noteq> Some n)"
proof
  assume ok: "contacts_ok c" and none: "ct_saved_at c n = None"
  show "\<forall>r. book_holds c r \<noteq> Some n"
  proof
    fix r
    show "book_holds c r \<noteq> Some n"
    proof (cases "ct_person c (ref_petname r)")
      case (Some p)
      have "saved_in n (ref_petname r) p = None"
        using none book_person(1) [OF ok Some] by (force simp: ct_saved_at_def find_map_None)
      from saved_in_None [OF book_person(5) [OF ok Some] this] Some show ?thesis
        by (auto simp: book_holds_def split: option.splits)
    qed (simp add: book_holds_def)
  qed
next
  assume "contacts_ok c" "\<forall>r. book_holds c r \<noteq> Some n"
  then show "ct_saved_at c n = None" using saved_at_Some by (cases "ct_saved_at c n") auto
qed

section \<open>What each change does\<close>

lemma on_person_get:
  "ct_person (on_person p f c) q =
     (if q = p then Some (f (case ct_person c p of None \<Rightarrow> person_default | Some x \<Rightarrow> x)) else ct_person c q)"
  by (simp add: ct_person_def on_person_def bt_insert_get)

lemma on_person_ok:
  assumes "contacts_ok c" "valid_name (petname_str p)"
    and "\<And>x. person_ok x \<Longrightarrow> person_ok (f x) \<and> \<not> person_empty (f x)"
  shows "contacts_ok (on_person p f c)"
proof -
  let ?x = "case ct_person c p of None \<Rightarrow> person_default | Some x \<Rightarrow> x"
  have d: "person_ok person_default" by (simp add: person_ok_def person_default_def)
  have x: "person_ok ?x"
  proof (cases "ct_person c p")
    case None
    then show ?thesis using d by simp
  next
    case (Some y)
    then show ?thesis using book_person(2) [OF assms(1) Some] by simp
  qed
  have ok: "bt_ok (ct_people c)" using assms(1) by (simp add: contacts_ok_def)
  show ?thesis
    using assms(1) assms(2) assms(3) [OF x]
    by (auto simp: contacts_ok_def on_person_def bt_insert_ok bt.entries_insert [OF ok] split: if_splits)
qed

lemma insert_binding_person_ok:
  "person_ok x \<Longrightarrow> valid_label l \<Longrightarrow> person_ok (x\<lparr>pn_devices := bt_insert l b (pn_devices x)\<rparr>)"
  by (auto simp: person_ok_def bt_insert_ok dest!: bt_insert_set)

lemma insert_binding_ok:
  "contacts_ok c \<Longrightarrow> valid_name (petname_str p) \<Longrightarrow> valid_label l \<Longrightarrow> contacts_ok (insert_binding p l b c)"
  unfolding insert_binding_def
  by (rule on_person_ok) (auto simp: insert_binding_person_ok person_empty_def)

lemma set_signet_binding_ok:
  "contacts_ok c \<Longrightarrow> valid_name (petname_str p) \<Longrightarrow> (\<forall>l. sr_source r = Learned l \<longrightarrow> valid_label l) \<Longrightarrow>
   contacts_ok (set_signet_binding p r c)"
  unfolding set_signet_binding_def
  by (rule on_person_ok) (auto simp: person_ok_def person_empty_def)

lemma default_lookups [simp]: "pn_devices person_default = []" "pn_signet person_default = None"
  by (simp_all add: person_default_def)

lemma ref_eqI: "ref_petname r = p \<Longrightarrow> ref_device r = d \<Longrightarrow> r = \<lparr>ref_petname = p, ref_device = d\<rparr>"
  by simp

lemma holds_insert_binding:
  "book_holds (insert_binding p l b c) = (book_holds c)(\<lparr>ref_petname = p, ref_device = Some l\<rparr> \<mapsto> bn_node b)"
proof
  fix r :: contact_ref
  show "book_holds (insert_binding p l b c) r = ((book_holds c)(\<lparr>ref_petname = p, ref_device = Some l\<rparr> \<mapsto> bn_node b)) r"
    by (cases r) (auto simp: book_holds_def insert_binding_def on_person_get bt_insert_get split: option.splits)
qed

lemma holds_set_signet:
  "book_holds (set_signet_binding p s c) = (book_holds c)(\<lparr>ref_petname = p, ref_device = None\<rparr> \<mapsto> sr_node s)"
proof
  fix r :: contact_ref
  show "book_holds (set_signet_binding p s c) r = ((book_holds c)(\<lparr>ref_petname = p, ref_device = None\<rparr> \<mapsto> sr_node s)) r"
    by (cases r) (auto simp: book_holds_def set_signet_binding_def on_person_get split: option.splits)
qed

lemma holds_signet: "book_holds c \<lparr>ref_petname = p, ref_device = None\<rparr> = map_option sr_node (ct_signet c p)"
  by (cases "ct_person c p") (auto simp: book_holds_def ct_signet_def)

lemma holds_device:
  "book_holds c \<lparr>ref_petname = p, ref_device = Some l\<rparr> =
     Option.bind (ct_person c p) (\<lambda>x. map_option bn_node (bt_get (pn_devices x) l))"
  by (simp add: book_holds_def)

lemma person_removed:
  "ct_person (c\<lparr>ct_people := bt_remove p (ct_people c)\<rparr>) q = (if q = p then None else ct_person c q)"
  by (simp add: ct_person_def bt_remove_get)

lemma person_put:
  "ct_person (c\<lparr>ct_people := bt_insert p x (ct_people c)\<rparr>) q = (if q = p then Some x else ct_person c q)"
  by (simp add: ct_person_def bt_insert_get)

text \<open>A removal empties exactly the places it names.\<close>

definition removes :: "petname \<Rightarrow> device_label option \<Rightarrow> contact_ref \<Rightarrow> bool" where
  "removes p d r \<longleftrightarrow> ref_petname r = p \<and> (d = None \<or> ref_device r = d)"

lemma remove_holds:
  assumes "ct_remove p d c = (a, c')"
  shows "book_holds c' r = (if a = Removed \<and> removes p d r then None else book_holds c r)"
proof (cases "ct_person c p")
  case None
  then show ?thesis using assms by (auto simp: ct_remove_def removes_def)
next
  case (Some x)
  note x = Some
  show ?thesis
  proof (cases d)
    case None
    then show ?thesis using assms x
      by (auto simp: ct_remove_def removes_def book_holds_def person_removed)
  next
    case (Some l)
    show ?thesis
    proof (cases "bt_has (pn_devices x) l")
      case False
      then show ?thesis using assms x Some by (simp add: ct_remove_def)
    next
      case True
      have e: "map_option bn_node (bt_get (bt_remove l (pn_devices x)) k) =
          (if k = l then None else map_option bn_node (bt_get (pn_devices x) k))" for k
        by (simp add: bt_remove_get)
      have "person_empty (x\<lparr>pn_devices := bt_remove l (pn_devices x)\<rparr>) \<Longrightarrow>
          pn_signet x = None \<and> (\<forall>k. k \<noteq> l \<longrightarrow> bt_get (pn_devices x) k = None)"
        by (simp add: person_empty_def) (metis bt_remove_get bt_get_Nil)
      then show ?thesis using assms x Some True
        by (cases r; cases "ref_device r")
          (auto simp: ct_remove_def removes_def book_holds_def person_removed person_put e Let_def
            bt_remove_get split: if_splits)
    qed
  qed
qed

lemma remove_ok:
  assumes ok: "contacts_ok c" and "ct_remove p d c = (a, c')"
  shows "contacts_ok c'"
proof -
  have b: "bt_ok (ct_people c)" using ok by (simp add: contacts_ok_def)
  have gone: "contacts_ok (c\<lparr>ct_people := bt_remove p (ct_people c)\<rparr>)"
    using ok by (auto simp: contacts_ok_def bt_remove_ok bt_remove_set)
  have put: "contacts_ok (c\<lparr>ct_people := bt_insert p y (ct_people c)\<rparr>)"
    if "ct_person c p = Some x" "y = x\<lparr>pn_devices := bt_remove l (pn_devices x)\<rparr>" "\<not> person_empty y" for x y l
  proof -
    have "person_ok y"
      using book_person(2) [OF ok that(1)] that(2) by (auto simp: person_ok_def bt_remove_ok bt_remove_set)
    then show ?thesis
      using ok that(3) book_person(3) [OF ok that(1)]
      by (auto simp: contacts_ok_def bt_insert_ok b dest!: bt_insert_set [OF b])
  qed
  show ?thesis
    using assms(2) ok gone put by (auto simp: ct_remove_def Let_def split: option.splits if_splits)
qed

section \<open>The book as a map from names to keys\<close>

text \<open>
  What saving promises, over the map from names to keys alone: a name that holds a key keeps it, a
  key some name holds gets no other, and only a free name and a free key are joined.
\<close>

definition save_spec ::
  "(contact_ref \<rightharpoonup> node_id) \<Rightarrow> contact_ref \<Rightarrow> node_id \<Rightarrow> taken + saved \<Rightarrow> (contact_ref \<rightharpoonup> node_id) \<Rightarrow> bool" where
  "save_spec h at n answer h' \<longleftrightarrow>
     (case h at of
        Some k \<Rightarrow>
          h' = h \<and> (if k = n then answer \<in> {Inr SavedUnchanged, Inr Unlearned} else answer = Inl (TakenName k))
      | None \<Rightarrow>
          if n \<in> ran h then h' = h \<and> (\<exists>s. answer = Inl (TakenKey s) \<and> h s = Some n)
          else h' = h(at \<mapsto> n) \<and> answer = Inr Created)"

definition one_name :: "contacts \<Rightarrow> bool" where
  "one_name c \<longleftrightarrow> inj_on (book_holds c) (dom (book_holds c))"

lemma in_ran_iff: "n \<in> ran h \<longleftrightarrow> (\<exists>r. h r = Some n)"
  by (auto simp: ran_def)

lemma saved_at_free: "contacts_ok c \<Longrightarrow> ct_saved_at c n = None \<longleftrightarrow> n \<notin> ran (book_holds c)"
  by (auto simp: saved_at_None in_ran_iff)

lemma save_held_holds:
  "save_held at n c = None \<longleftrightarrow> book_holds c at = None"
  "save_held at n c = Some (answer, c') \<Longrightarrow>
     (\<exists>k. book_holds c at = Some k \<and> (if k = n then answer \<in> {Inr SavedUnchanged, Inr Unlearned} else answer = Inl (TakenName k))) \<and>
     book_holds c' = book_holds c"
  subgoal by (cases at) (auto simp: save_held_def book_holds_def split: option.splits)
  subgoal premises p
  proof -
    have "book_holds (set_signet_binding (ref_petname at) s c) = book_holds c"
      if "ct_person c (ref_petname at) = Some x" "pn_signet x = Some k" "sr_node s = sr_node k" for s x k
      using that by (auto simp: holds_set_signet book_holds_def)
    with p show ?thesis
      by (auto simp: save_held_def book_holds_def split: option.splits source.splits if_splits)
  qed
  done

lemma save_refines_spec:
  assumes ok: "contacts_ok c" and s: "ct_save at n c = (answer, c')"
  shows "save_spec (book_holds c) at n answer (book_holds c')"
proof (cases "save_held at n c")
  case None
  then have free: "book_holds c at = None" by (simp add: save_held_holds)
  have at: "at = \<lparr>ref_petname = ref_petname at, ref_device = ref_device at\<rparr>" by simp
  show ?thesis
  proof (cases "ct_saved_at c n")
    case n: None
    then have "n \<notin> ran (book_holds c)" using ok by (simp add: saved_at_free)
    moreover have "book_holds c' = (book_holds c)(at \<mapsto> n)"
    proof (cases "ref_device at")
      case d: None
      then show ?thesis using s n None at by (auto simp: ct_save_def holds_set_signet)
    next
      case d: (Some l)
      then show ?thesis using s n None at by (auto simp: ct_save_def holds_insert_binding binding_new_def)
    qed
    ultimately show ?thesis using s n None free by (simp add: save_spec_def ct_save_def)
  next
    case (Some r)
    then have "book_holds c r = Some n" by (rule saved_at_Some [OF ok])
    then show ?thesis using s None Some free by (auto simp: save_spec_def ct_save_def in_ran_iff)
  qed
next
  case (Some a)
  then have "save_held at n c = Some (answer, c')" using s by (simp add: ct_save_def)
  from save_held_holds(2) [OF this] show ?thesis by (auto simp: save_spec_def split: if_splits)
qed

lemma one_nameI: "(\<And>r s n. book_holds c r = Some n \<Longrightarrow> book_holds c s = Some n \<Longrightarrow> r = s) \<Longrightarrow> one_name c"
  unfolding one_name_def inj_on_def by (metis domD)

lemma one_nameD: "one_name c \<Longrightarrow> book_holds c r = Some n \<Longrightarrow> book_holds c s = Some n \<Longrightarrow> r = s"
  unfolding one_name_def by (metis inj_onD domI)

lemma one_name_add:
  "one_name c \<Longrightarrow> (\<forall>r. r \<noteq> at \<longrightarrow> book_holds c r \<noteq> Some n) \<Longrightarrow> book_holds c' = (book_holds c)(at \<mapsto> n) \<Longrightarrow> one_name c'"
  by (rule one_nameI) (auto split: if_splits dest: one_nameD)

lemma one_name_same: "one_name c \<Longrightarrow> book_holds c' = book_holds c \<Longrightarrow> one_name c'"
  by (simp add: one_name_def)

lemma save_one_name:
  assumes "contacts_ok c" "one_name c" "ct_save at n c = (answer, c')"
  shows "one_name c'"
  using save_refines_spec [OF assms(1, 3)] assms(2)
  by (auto simp: save_spec_def in_ran_iff elim: one_name_same one_name_add split: option.splits if_splits)

lemma save_ok:
  assumes ok: "contacts_ok c" and "valid_ref at" "ct_save at n c = (answer, c')"
  shows "contacts_ok c'"
proof -
  have v: "valid_name (petname_str (ref_petname at))" "ref_device at = Some l \<Longrightarrow> valid_label l" for l
    using assms(2) by (auto simp: valid_ref_def)
  have "contacts_ok c''" if "save_held at n c = Some (a, c'')" for a c''
    using that ok v by (auto simp: save_held_def intro!: set_signet_binding_ok split: option.splits if_splits)
  then show ?thesis using assms(3) ok v
    by (auto simp: ct_save_def intro!: set_signet_binding_ok insert_binding_ok split: option.splits)
qed

lemma learn_holds:
  assumes ok: "contacts_ok c" and l: "learn p n l c = (answer, c')"
  shows "case answer of
      Inl _ \<Rightarrow> c' = c \<and> (book_holds c (ref_person p) \<noteq> None \<or> n \<in> ran (book_holds c))
    | Inr _ \<Rightarrow> book_holds c (ref_person p) = None \<and> n \<notin> ran (book_holds c) \<and> book_holds c' = (book_holds c)(ref_person p \<mapsto> n)"
  using l saved_at_Some [OF ok] saved_at_free [OF ok, of n]
  by (auto simp: learn_def ref_person_def holds_signet holds_set_signet in_ran_iff split: option.splits)

lemma learn_ok:
  "contacts_ok c \<Longrightarrow> valid_name (petname_str p) \<Longrightarrow> valid_label l \<Longrightarrow> learn p n l c = (a, c') \<Longrightarrow> contacts_ok c'"
  by (auto simp: learn_def intro!: set_signet_binding_ok split: option.splits)

lemma learn_one_name:
  assumes "contacts_ok c" "one_name c" "learn p n l c = (answer, c')"
  shows "one_name c'"
  using learn_holds [OF assms(1, 3)] assms(2)
  by (auto simp: in_ran_iff elim: one_name_add split: sum.splits)

lemma replace_holds:
  assumes ok: "contacts_ok c" and r: "replace_root p n c = (answer, c')"
  shows "case answer of
      Inl (TakenKey at) \<Rightarrow> c' = c \<and> book_holds c at = Some n \<and> at \<noteq> ref_person p
    | Inl (TakenName _) \<Rightarrow> False
    | Inr None \<Rightarrow> c' = c \<and> book_holds c (ref_person p) = None
    | Inr (Some old) \<Rightarrow> book_holds c (ref_person p) = Some old \<and> book_holds c' = (book_holds c)(ref_person p \<mapsto> n)"
  using r saved_at_Some [OF ok]
  by (auto simp: replace_root_def root_elsewhere_def ref_person_def holds_signet holds_set_signet
      split: option.splits if_splits)

lemma replace_ok:
  "contacts_ok c \<Longrightarrow> replace_root p n c = (a, c') \<Longrightarrow> contacts_ok c'"
proof -
  assume ok: "contacts_ok c" and r: "replace_root p n c = (a, c')"
  have "valid_name (petname_str p)" if "ct_signet c p = Some s" for s
    using that book_person(3) [OF ok] by (cases "ct_person c p") (auto simp: ct_signet_def)
  then show ?thesis using ok r
    by (auto simp: replace_root_def intro!: set_signet_binding_ok split: option.splits)
qed

lemma replace_one_name:
  assumes ok: "contacts_ok c" and one: "one_name c" and r: "replace_root p n c = (answer, c')"
  shows "one_name c'"
proof (cases "c' = c")
  case False
  then have h: "book_holds c' = (book_holds c)(ref_person p \<mapsto> n)" and free: "root_elsewhere c p n = None"
    using r replace_holds [OF ok r] by (auto simp: replace_root_def split: option.splits sum.splits taken.splits)
  have "s = ref_person p" if s: "book_holds c s = Some n" for s
  proof -
    obtain at where at: "ct_saved_at c n = Some at" using s ok saved_at_None [OF ok, of n] by fastforce
    then have "at = ref_person p" using free by (auto simp: root_elsewhere_def ref_person_def split: if_splits)
    then show ?thesis using one_nameD [OF one s saved_at_Some [OF ok at]] by simp
  qed
  then have "\<forall>s. s \<noteq> ref_person p \<longrightarrow> book_holds c s \<noteq> Some n" by blast
  then show ?thesis by (rule one_name_add [OF one _ h])
qed (use one in simp)

lemma see_root_holds: "book_holds (see_root p l n c) = book_holds c"
  by (auto simp: see_root_def holds_insert_binding holds_device bind_eq_Some_conv split: option.splits)

lemma see_root_ok: "contacts_ok c \<Longrightarrow> contacts_ok (see_root p l n c)"
proof (cases "Option.bind (ct_person c p) (\<lambda>saved. bt_get (pn_devices saved) l)")
  case (Some b)
  assume ok: "contacts_ok c"
  from Some obtain x where x: "ct_person c p = Some x" and b: "bt_get (pn_devices x) l = Some b"
    by (auto simp: bind_eq_Some_conv)
  note book_person [OF ok x]
  moreover have "(l, b) \<in> set (pn_devices x)" using b calculation(5) by (simp add: bt_get_entries)
  ultimately have "valid_label l" "valid_name (petname_str p)" by (auto simp: person_ok_def)
  then show ?thesis using ok Some by (simp add: see_root_def insert_binding_ok)
qed (simp add: see_root_def)

lemma remove_one_name:
  "one_name c \<Longrightarrow> ct_remove p d c = (a, c') \<Longrightarrow> one_name c'"
  by (rule one_nameI) (auto simp: remove_holds dest: one_nameD split: if_splits)

section \<open>Any run of commands\<close>

inductive book_step :: "contacts \<Rightarrow> contacts \<Rightarrow> bool" where
  step_save: "valid_ref at \<Longrightarrow> ct_save at n c = (a, c') \<Longrightarrow> book_step c c'"
| step_learn: "valid_name (petname_str p) \<Longrightarrow> valid_label l \<Longrightarrow> learn p n l c = (a, c') \<Longrightarrow> book_step c c'"
| step_replace: "replace_root p n c = (a, c') \<Longrightarrow> book_step c c'"
| step_see: "book_step c (see_root p l n c)"
| step_remove: "ct_remove p d c = (a, c') \<Longrightarrow> book_step c c'"

lemma book_step_ok: "book_step c c' \<Longrightarrow> contacts_ok c \<Longrightarrow> contacts_ok c'"
  by (induction rule: book_step.induct)
    (auto intro: save_ok learn_ok replace_ok see_root_ok remove_ok)

lemma book_step_one_name: "book_step c c' \<Longrightarrow> contacts_ok c \<Longrightarrow> one_name c \<Longrightarrow> one_name c'"
  by (induction rule: book_step.induct)
    (auto intro: save_one_name learn_one_name replace_one_name remove_one_name
      one_name_same [OF _ see_root_holds])

lemma book_run_keeps:
  "book_step\<^sup>*\<^sup>* c c' \<Longrightarrow> contacts_ok c \<and> one_name c \<Longrightarrow> contacts_ok c' \<and> one_name c'"
  by (induction rule: rtranclp_induct) (auto intro: book_step_ok book_step_one_name)

section \<open>What is written and read\<close>

lemma reserved_not_label: "valid_label l \<Longrightarrow> label_str l \<notin> {SIGNET_KEY, LEARNED_KEY, SEEN_KEY}"
proof -
  assume "valid_label l"
  then have "CHR ''_'' \<notin> set (label_str l)"
    by (simp add: valid_label_def valid_name_no code_def)
  moreover have "CHR ''_'' \<in> set s" if "s \<in> {SIGNET_KEY, LEARNED_KEY, SEEN_KEY}" for s
    using that by (auto simp: SIGNET_KEY_def LEARNED_KEY_def SEEN_KEY_def)
  ultimately show ?thesis by blast
qed

text \<open>A person's table, as the store writes it.\<close>

definition wire_devices :: "book_text \<Rightarrow> person \<Rightarrow> toml_table" where
  "wire_devices B x = map (\<lambda>(l, b). (label_str l, key_value B (bn_node b))) (pn_devices x)"

definition seen_of :: "person \<Rightarrow> (device_label, node_id) btree" where
  "seen_of x = List.map_filter (\<lambda>(l, b). map_option (Pair l) (bn_seen_root b)) (pn_devices x)"

definition wire_seen :: "book_text \<Rightarrow> person \<Rightarrow> toml_table" where
  "wire_seen B x = map (\<lambda>(l, n). (label_str l, key_value B n)) (seen_of x)"

lemma seen_list_set:
  "(l, n) \<in> set (List.map_filter (\<lambda>(l, b). map_option (Pair l) (bn_seen_root b)) ds) \<longleftrightarrow>
     (\<exists>b. (l, b) \<in> set ds \<and> bn_seen_root b = Some n)"
  by (force simp: map_filter_def)

lemma seen_of_set: "(l, n) \<in> set (seen_of x) \<longleftrightarrow> (\<exists>b. (l, b) \<in> set (pn_devices x) \<and> bn_seen_root b = Some n)"
  by (simp add: seen_of_def seen_list_set)

lemma seen_list_ok:
  "bt_ok ds \<Longrightarrow> bt_ok (List.map_filter (\<lambda>(l, b). map_option (Pair l) (bn_seen_root b)) ds)"
proof (induction ds)
  case (Cons e ds)
  then show ?case
    by (cases e) (fastforce simp: map_filter_simps ascending_Cons seen_list_set split: option.splits)
qed (simp add: map_filter_simps)

lemma seen_of_ok: "bt_ok (pn_devices x) \<Longrightarrow> bt_ok (seen_of x)"
  by (simp add: seen_of_def seen_list_ok)

lemma seen_of_get: "bt_ok (pn_devices x) \<Longrightarrow> (l, b) \<in> set (pn_devices x) \<Longrightarrow> bt_get (seen_of x) l = bn_seen_root b"
proof (cases "bt_get (seen_of x) l")
  case None
  assume ok: "bt_ok (pn_devices x)" and e: "(l, b) \<in> set (pn_devices x)"
  show ?thesis
  proof (cases "bn_seen_root b")
    case (Some n)
    then have "(l, n) \<in> set (seen_of x)" using e by (auto simp: seen_of_set)
    then show ?thesis using None ok by (simp add: bt_get_entries seen_of_ok)
  qed (use None in simp)
next
  case (Some n)
  assume ok: "bt_ok (pn_devices x)" and e: "(l, b) \<in> set (pn_devices x)"
  have "(l, n) \<in> set (seen_of x)" using Some ok by (simp add: bt_get_entries seen_of_ok)
  then obtain b' where "(l, b') \<in> set (pn_devices x)" "bn_seen_root b' = Some n" by (auto simp: seen_of_set)
  then show ?thesis using e ok Some by (simp add: bt_get_entries)
qed

lemma label_less: "a < b \<Longrightarrow> label_str a < label_str b"
  by (simp add: less_device_label_def)

lemma labelled_concat: "ct_person c p = Some x \<Longrightarrow> concat (option_list (ct_devices c p)) = labelled x"
  by (simp add: ct_devices_def option_list_def)

lemma encode_seen_person:
  assumes "contacts_ok c" "ct_person c p = Some x"
  shows "encode_seen B c p = wire_seen B x"
proof -
  have ok: "bt_ok (pn_devices x)" by (rule book_person(5) [OF assms])
  have "List.map_filter (\<lambda>(label, _). map_option (\<lambda>root. (label_str label, key_value B root)) (ct_seen_root c p label))
      (labelled x) = wire_seen B x"
  proof -
    have s: "ct_seen_root c p l = bn_seen_root b" if "(l, b) \<in> set (pn_devices x)" for l b
      using that ok assms(2) by (simp add: ct_seen_root_def bt_get_entries)
    have "List.map_filter (\<lambda>(label, _). map_option (\<lambda>root. (label_str label, key_value B root)) (ct_seen_root c p label))
        (map (\<lambda>(l, b). (l, bn_node b)) ds) =
      map (\<lambda>(l, n). (label_str l, key_value B n)) (List.map_filter (\<lambda>(l, b). map_option (Pair l) (bn_seen_root b)) ds)"
      if "set ds \<subseteq> set (pn_devices x)" for ds
      using that by (induction ds) (auto simp: map_filter_simps s split: option.splits)
    then show ?thesis by (simp add: labelled_def wire_seen_def seen_of_def)
  qed
  moreover have "bt_ok (wire_seen B x)"
    unfolding wire_seen_def by (rule bt_ok_map) (simp_all add: ok seen_of_ok label_less)
  ultimately show ?thesis using assms(2) by (simp add: encode_seen_def labelled_concat bt_of_ascending)
qed

lemma wire_devices_ok: "bt_ok (pn_devices x) \<Longrightarrow> bt_ok (wire_devices B x)"
  unfolding wire_devices_def by (rule bt_ok_map) (simp_all add: label_less)

definition wire_group :: "book_text \<Rightarrow> person \<Rightarrow> toml_table" where
  "wire_group B x =
     (let tbl = wire_devices B x;
          tbl = (case pn_signet x of
              None \<Rightarrow> tbl
            | Some root \<Rightarrow>
                let tbl = bt_insert SIGNET_KEY (key_value B (sr_node root)) tbl in
                (case sr_source root of
                   Explicit \<Rightarrow> tbl
                 | Learned l \<Rightarrow> bt_insert LEARNED_KEY (TomlString (label_str l)) tbl))
      in if seen_of x \<noteq> [] then bt_insert SEEN_KEY (TomlTable (wire_seen B x)) tbl else tbl)"

lemma encode_group_person:
  assumes "contacts_ok c" "ct_person c p = Some x"
  shows "encode_group B c p = wire_group B x"
proof -
  have "bt_ok (pn_devices x)" by (rule book_person(5) [OF assms])
  then have "bt_of (map (\<lambda>(label, n). (label_str label, key_value B n)) (labelled x)) = wire_devices B x"
    using bt_of_ascending [OF wire_devices_ok, of x B]
    by (simp add: labelled_def wire_devices_def comp_def case_prod_unfold)
  moreover have "wire_seen B x \<noteq> [] \<longleftrightarrow> seen_of x \<noteq> []" by (simp add: wire_seen_def)
  ultimately show ?thesis
    using assms by (simp add: encode_group_def wire_group_def labelled_concat encode_seen_person ct_signet_def)
qed

lemma wire_group_nonempty: "\<not> person_empty x \<Longrightarrow> wire_group B x \<noteq> []"
  by (auto simp: wire_group_def person_empty_def wire_devices_def Let_def split: option.splits source.splits)

lemma encode_wire_people:
  assumes ok: "contacts_ok c"
  shows "encode_wire B c = map (\<lambda>(p, x). (petname_str p, TomlTable (wire_group B x))) (bt_remove ME (ct_people c))"
proof -
  let ?w = "\<lambda>(p, x). (petname_str p, TomlTable (wire_group B x))"
  let ?es = "bt_remove ME (ct_people c)"
  have "fold (encode_person B c) (map fst es) w = fold (\<lambda>(k, v). bt_insert k v) (map ?w es) w"
    if "set es \<subseteq> set (ct_people c)" for es w
    using that
  proof (induction es arbitrary: w)
    case (Cons e es)
    obtain p x where e: "e = (p, x)" by (cases e)
    then have g: "ct_person c p = Some x"
      using Cons.prems ok by (simp add: contacts_ok_def ct_person_def flip: bt_get_entries)
    have "encode_person B c p w = bt_insert (petname_str p) (TomlTable (wire_group B x)) w" for w
      using encode_group_person [OF ok g] wire_group_nonempty [OF book_person(4) [OF ok g]]
      by (simp add: encode_person_def)
    then show ?case using Cons by (simp add: e)
  qed simp
  from this [of ?es "[]"] have "fold (encode_person B c) (map fst ?es) [] = bt_of (map ?w ?es)"
    by (auto simp: bt_of_def bt_remove_def)
  moreover have "bt_ok (map ?w ?es)"
    by (rule bt_ok_map) (use ok in \<open>auto simp: contacts_ok_def bt_remove_ok less_petname_def\<close>)
  moreover have "filter (\<lambda>p. p \<noteq> ME) (ct_petnames c) = map fst ?es"
    by (simp add: ct_petnames_def bt_keys_def bt_remove_def filter_map comp_def)
  ultimately show ?thesis by (simp add: encode_wire_def bt_of_ascending)
qed

section \<open>Reading back what was written\<close>

lemma keys_differ [simp]:
  "SIGNET_KEY \<noteq> LEARNED_KEY" "SIGNET_KEY \<noteq> SEEN_KEY" "LEARNED_KEY \<noteq> SEEN_KEY"
  "LEARNED_KEY \<noteq> SIGNET_KEY" "SEEN_KEY \<noteq> SIGNET_KEY" "SEEN_KEY \<noteq> LEARNED_KEY"
  by (simp_all add: SIGNET_KEY_def LEARNED_KEY_def SEEN_KEY_def)

lemma wire_devices_reserved:
  assumes "person_ok x" "k \<in> {SIGNET_KEY, LEARNED_KEY, SEEN_KEY}"
  shows "bt_get (wire_devices B x) k = None"
proof -
  have "k \<notin> fst ` set (wire_devices B x)"
    using assms reserved_not_label by (fastforce simp: wire_devices_def person_ok_def)
  then show ?thesis by (metis bt_has_def bt_has_iff)
qed

lemma wire_group_lookups:
  assumes "person_ok x"
  shows "bt_get (wire_group B x) SEEN_KEY = (if seen_of x = [] then None else Some (TomlTable (wire_seen B x)))"
    "bt_get (wire_group B x) SIGNET_KEY = map_option (\<lambda>r. key_value B (sr_node r)) (pn_signet x)"
    "bt_get (wire_group B x) LEARNED_KEY =
       (case pn_signet x of None \<Rightarrow> None
        | Some r \<Rightarrow> (case sr_source r of Explicit \<Rightarrow> None | Learned l \<Rightarrow> Some (TomlString (label_str l))))"
  by (auto simp: wire_group_def Let_def bt_insert_get wire_devices_reserved [OF assms]
      split: option.splits source.splits)

definition plain_key :: "string \<times> toml_value \<Rightarrow> bool" where
  "plain_key e \<longleftrightarrow> fst e \<notin> {SIGNET_KEY, LEARNED_KEY, SEEN_KEY}"

lemma wire_group_plain:
  assumes "person_ok x"
  shows "filter plain_key (wire_group B x) = wire_devices B x"
proof -
  have "filter plain_key (wire_devices B x) = wire_devices B x"
    using assms reserved_not_label
    by (intro filter_True) (fastforce simp: wire_devices_def person_ok_def plain_key_def)
  then show ?thesis
    by (auto simp: wire_group_def Let_def filter_bt_insert plain_key_def [abs_def]
        split: option.splits source.splits)
qed

lemma decode_key_value: "prints_back E B \<Longrightarrow> decode_key E (key_value B n) = Inr n"
  by (simp add: decode_key_def key_value_def prints_back_def)

lemma label_stored_valid: "valid_label l \<Longrightarrow> label_stored (label_str l) = Inr l"
  by (simp add: label_stored_iff)

lemma decode_seen_wire:
  assumes "prints_back E B" "person_ok x"
  shows "decode_seen E (TomlTable (wire_seen B x)) = Inr (seen_of x)"
proof -
  have v: "valid_label l" if "(l, n) \<in> set (seen_of x)" for l n
    using that assms(2) by (force simp: seen_of_set person_ok_def)
  let ?f = "\<lambda>(label, v) m. bindR (map_err CsName (label_stored label)) (\<lambda>l.
       bindR (decode_key E v) (\<lambda>n. Inr (bt_insert l n m)))"
  have "each_entry ?f (map (\<lambda>(l, n). (label_str l, key_value B n)) ds) m = Inr (fold (\<lambda>(k, v). bt_insert k v) ds m)"
    if "set ds \<subseteq> set (seen_of x)" for ds m
    using that
    by (induction ds arbitrary: m) (auto simp: label_stored_valid v decode_key_value assms(1))
  from this [of "seen_of x" "[]"] show ?thesis
    using assms(2) bt_of_ascending [OF seen_of_ok, of x]
    by (simp add: decode_seen_def wire_seen_def bt_of_def person_ok_def)
qed

lemma decode_devices:
  assumes "prints_back E B"
  shows "distinct (map fst ds) \<Longrightarrow> \<forall>(l, b) \<in> set ds. valid_label l \<and> bt_get seen l = bn_seen_root b \<Longrightarrow>
    each_entry (decode_device E p) (map (\<lambda>(l, b). (label_str l, key_value B (bn_node b))) ds) (c, seen) =
      Inr (fold (\<lambda>(l, b). insert_binding p l b) ds c, fold (\<lambda>(l, _). bt_remove l) ds seen)"
proof (induction ds arbitrary: c seen)
  case (Cons e ds)
  obtain l b where e: "e = (l, b)" by (cases e)
  have l: "valid_label l" "bt_get seen l = bn_seen_root b" using Cons.prems by (auto simp: e)
  have "decode_device E p (label_str l, key_value B (bn_node b)) (c, seen) =
      Inr (insert_binding p l b c, bt_remove l seen)"
    using reserved_not_label [OF l(1)] l
    by (cases b) (simp add: decode_device_def label_stored_valid decode_key_value [OF assms])
  moreover have "\<forall>(k, d) \<in> set ds. valid_label k \<and> bt_get (bt_remove l seen) k = bn_seen_root d"
    using Cons.prems by (force simp: e bt_remove_get)
  ultimately show ?case using Cons by (simp add: e)
qed simp

lemma seen_all_taken: "fold (\<lambda>(l, _). bt_remove l) (pn_devices x) (seen_of x) = []"
  by (force simp: fold_bt_remove filter_empty_conv seen_of_set)

lemma insert_binding_get:
  "ct_person (insert_binding p l b c) q =
     (if q = p then
        (let x = (case ct_person c p of None \<Rightarrow> person_default | Some x \<Rightarrow> x) in
         Some (x\<lparr>pn_devices := bt_insert l b (pn_devices x)\<rparr>))
      else ct_person c q)"
  "bt_ok (ct_people c) \<Longrightarrow> bt_ok (ct_people (insert_binding p l b c))"
  "ct_yours (insert_binding p l b c) = ct_yours c"
  subgoal by (simp add: insert_binding_def on_person_get Let_def)
  subgoal by (simp add: insert_binding_def on_person_def bt_insert_ok)
  subgoal by (simp add: insert_binding_def on_person_def)
  done

lemma fold_insert_binding:
  "ct_person (fold (\<lambda>(l, b). insert_binding p l b) ds c) q =
     (if q = p \<and> ds \<noteq> [] then
        (let x = (case ct_person c p of None \<Rightarrow> person_default | Some x \<Rightarrow> x) in
         Some (x\<lparr>pn_devices := fold (\<lambda>(l, b). bt_insert l b) ds (pn_devices x)\<rparr>))
      else ct_person c q)"
  "bt_ok (ct_people c) \<Longrightarrow> bt_ok (ct_people (fold (\<lambda>(l, b). insert_binding p l b) ds c))"
  "ct_yours (fold (\<lambda>(l, b). insert_binding p l b) ds c) = ct_yours c"
proof (induction ds arbitrary: c)
  case (Cons e ds)
  obtain l b where e: "e = (l, b)" by (cases e)
  { case 1 show ?case by (cases "ds = []") (simp_all add: e Cons.IH(1) insert_binding_get Let_def)
  next
    case 2 then show ?case by (simp add: e Cons.IH(2) insert_binding_get)
  next
    case 3 show ?case by (simp add: e Cons.IH(3) insert_binding_get)
  }
qed simp_all

lemma decode_person_wire:
  assumes E: "prints_back E B" and x: "person_ok x" "\<not> person_empty x" and p: "valid_name (petname_str p)"
    and c: "bt_ok (ct_people c)" "ct_person c p = None"
  shows "decode_person E (petname_str p, TomlTable (wire_group B x)) c =
    Inr (c\<lparr>ct_people := bt_insert p x (ct_people c)\<rparr>)"
proof -
  let ?w = "wire_group B x"
  let ?sig = "case pn_signet x of None \<Rightarrow> c | Some r \<Rightarrow> set_signet_binding p r c"
  let ?out = "fold (\<lambda>(l, b). insert_binding p l b) (pn_devices x) ?sig"
  note look = wire_group_lookups [OF x(1), of B]
  have name: "petname_stored (petname_str p) = Inr p"
    using p by (cases p) (simp add: petname_stored_def bindR_Inr_iff name_stored_iff)
  have seen: "(case bt_get ?w SEEN_KEY of None \<Rightarrow> Inr [] | Some v \<Rightarrow> decode_seen E v) = Inr (seen_of x)"
    by (simp add: look decode_seen_wire [OF E x(1)])
  have learned: "decode_learned ?w = Inr (case pn_signet x of None \<Rightarrow> None
      | Some r \<Rightarrow> (case sr_source r of Explicit \<Rightarrow> None | Learned l \<Rightarrow> Some l))"
    using x(1) by (auto simp: decode_learned_def look label_stored_valid person_ok_def split: option.splits source.splits)
  have sig: "decode_signet E p ?w (case pn_signet x of None \<Rightarrow> None
      | Some r \<Rightarrow> (case sr_source r of Explicit \<Rightarrow> None | Learned l \<Rightarrow> Some l)) c = Inr ?sig"
  proof (cases "pn_signet x")
    case (Some r)
    then show ?thesis by (cases r) (auto simp: decode_signet_def look decode_key_value [OF E] split: source.splits)
  qed (simp add: decode_signet_def look)
  have "each_entry (decode_device E p) ?w (?sig, seen_of x) =
      each_entry (decode_device E p) (filter plain_key ?w) (?sig, seen_of x)"
    by (rule each_entry_filter) (auto simp: plain_key_def decode_device_def)
  also have "\<dots> = Inr (?out, [])"
  proof -
    have "distinct (map fst (pn_devices x))" "bt_ok (pn_devices x)"
      using x(1) by (simp_all add: person_ok_def ascending_distinct)
    moreover have "\<forall>(l, b) \<in> set (pn_devices x). valid_label l \<and> bt_get (seen_of x) l = bn_seen_root b"
      using x(1) seen_of_get [OF calculation(2)] by (auto simp: person_ok_def)
    ultimately show ?thesis
      unfolding wire_group_plain [OF x(1)] wire_devices_def
      by (subst decode_devices [OF E]) (simp_all only: seen_all_taken)
  qed
  finally have dev: "each_entry (decode_device E p) ?w (?sig, seen_of x) = Inr (?out, [])" .
  moreover have "?out = c\<lparr>ct_people := bt_insert p x (ct_people c)\<rparr>"
  proof -
    define s where "s = ?sig"
    have s1: "bt_ok (ct_people s)" "ct_yours s = ct_yours c"
      using c by (auto simp: s_def set_signet_binding_def on_person_def bt_insert_ok split: option.splits)
    have s2: "ct_person s q = (if q = p then map_option (\<lambda>r. person_default\<lparr>pn_signet := Some r\<rparr>) (pn_signet x)
         else ct_person c q)" for q
      using c by (auto simp: s_def set_signet_binding_def on_person_get split: option.splits)
    have d: "fold (\<lambda>(l, b). bt_insert l b) (pn_devices x) [] = pn_devices x"
      using x(1) bt_of_ascending [of "pn_devices x"] by (simp add: person_ok_def bt_of_def)
    let ?o = "fold (\<lambda>(l, b). insert_binding p l b) (pn_devices x) s"
    have "ct_person ?o q = (if q = p then Some x else ct_person c q)" for q
    proof (cases "pn_devices x = []")
      case True
      then show ?thesis using x(2) by (cases x) (auto simp: s2 person_empty_def person_default_def)
    next
      case False
      then show ?thesis
        using d by (cases x; cases "pn_signet x") (auto simp: fold_insert_binding(1) s2 person_default_def Let_def)
    qed
    then have "ct_people ?o = bt_insert p x (ct_people c)"
      by (intro bt_ext) (simp_all add: fold_insert_binding(2) s1(1) bt_insert_ok c bt_insert_get flip: ct_person_def)
    moreover have "ct_yours ?o = ct_yours c" by (simp add: fold_insert_binding(3) s1(2))
    ultimately show ?thesis unfolding s_def [symmetric] by (cases ?o; cases c) simp
  qed
  ultimately show ?thesis
    by (simp add: decode_person_def name seen learned sig dev)
qed

lemma decode_wire_people:
  assumes E: "prints_back E B"
    and es: "\<forall>e \<in> set es. valid_name (petname_str (fst e)) \<and> person_ok (snd e) \<and> \<not> person_empty (snd e)"
  shows "bt_ok (ct_people c) \<Longrightarrow> distinct (map fst es) \<Longrightarrow> (\<forall>p \<in> fst ` set es. ct_person c p = None) \<Longrightarrow>
    each_entry (decode_person E) (map (\<lambda>(p, x). (petname_str p, TomlTable (wire_group B x))) es) c =
      Inr (c\<lparr>ct_people := fold (\<lambda>(k, v). bt_insert k v) es (ct_people c)\<rparr>)"
  using es
proof (induction es arbitrary: c)
  case (Cons e es)
  obtain p x where e: "e = (p, x)" by (cases e)
  have "decode_person E (petname_str p, TomlTable (wire_group B x)) c =
      Inr (c\<lparr>ct_people := bt_insert p x (ct_people c)\<rparr>)"
    using Cons.prems by (intro decode_person_wire [OF E]) (auto simp: e)
  moreover have "\<forall>q \<in> fst ` set es. ct_person (c\<lparr>ct_people := bt_insert p x (ct_people c)\<rparr>) q = None"
    using Cons.prems by (auto simp: e person_put)
  ultimately show ?case
    using Cons.IH [of "c\<lparr>ct_people := bt_insert p x (ct_people c)\<rparr>"] Cons.prems
    by (simp add: e bt_insert_ok)
qed simp

lemma decode_encode_book:
  assumes E: "prints_back E B" and ok: "contacts_ok c" and t: "encode_book B c = Inr t"
  shows "decode_book E B t = Inr \<lparr>ct_people = bt_remove ME (ct_people c), ct_yours = None\<rparr>"
proof -
  let ?es = "bt_remove ME (ct_people c)"
  have "tx_print B (encode_wire B c) = Some t" using t by (simp add: encode_book_def ok_or_Inr_iff)
  then have "tx_parse B t = Some (encode_wire B c)" using E by (simp add: prints_back_def)
  moreover have "bt_ok ?es" using ok by (simp add: contacts_ok_def bt_remove_ok)
  then have "decode_wire E (encode_wire B c) = Inr \<lparr>ct_people = ?es, ct_yours = None\<rparr>"
    using ok decode_wire_people [OF E, of ?es contacts_default] bt_of_ascending [of ?es]
    by (auto simp: decode_wire_def encode_wire_people contacts_default_def contacts_ok_def bt_remove_set
        ascending_distinct ct_person_def bt_of_def)
  ultimately show ?thesis by (simp add: decode_book_def)
qed

section \<open>What opens\<close>

lemma decode_person_ok:
  assumes ok: "contacts_ok c" and d: "decode_person E e c = Inr c'"
  shows "contacts_ok c'"
proof -
  obtain key v where e: "e = (key, v)" by (cases e)
  obtain p tbl seen learned c1 seen' where p: "petname_stored key = Inr p"
    and l: "decode_learned tbl = Inr learned" and s: "decode_signet E p tbl learned c = Inr c1"
    and m: "each_entry (decode_device E p) tbl (c1, seen) = Inr (c', seen')"
    using d by (auto simp: decode_person_def e bindR_Inr_iff map_err_Inr_iff split: if_splits)
  have v: "valid_name (petname_str p)" using p by (auto simp: petname_stored_def bindR_Inr_iff name_stored_iff)
  have "\<forall>k. learned = Some k \<longrightarrow> valid_label k"
    using l by (auto simp: decode_learned_def bindR_Inr_iff map_err_Inr_iff label_stored_iff split: option.splits)
  then have "contacts_ok c1"
    using s ok v
    by (auto simp: decode_signet_def bindR_Inr_iff intro!: set_signet_binding_ok split: option.splits)
  moreover have "contacts_ok (fst t)"
    if "contacts_ok (fst s)" "decode_device E p x s = Inr t" for x s t
    using that v
    by (auto simp: decode_device_def bindR_Inr_iff map_err_Inr_iff label_stored_iff intro!: insert_binding_ok
        split: if_splits prod.splits)
  ultimately show ?thesis
    using each_entry_keeps [where P = "\<lambda>s. contacts_ok (fst s)", OF _ _ m] by simp
qed

lemma decode_book_ok: "decode_book E B text = Inr c \<Longrightarrow> contacts_ok c"
proof -
  assume "decode_book E B text = Inr c"
  then obtain w where "each_entry (decode_person E) w contacts_default = Inr c"
    by (auto simp: decode_book_def bindR_Inr_iff decode_wire_def)
  moreover have "contacts_ok contacts_default" by (simp add: contacts_ok_def contacts_default_def)
  ultimately show "contacts_ok c"
    using each_entry_keeps [where P = contacts_ok and f = "decode_person E"] decode_person_ok by blast
qed

lemma me_device_ok: "person_ok p \<Longrightarrow> valid_label (m_label m) \<Longrightarrow> person_ok (me_device E m p)"
  by (simp add: me_device_def insert_binding_person_ok split: option.splits)

lemma me_device_signet: "pn_signet (me_device E m p) = pn_signet p"
  by (simp add: me_device_def split: option.splits)

lemma me_device_get:
  "bt_get (pn_devices (me_device E m p)) l =
     (if l = m_label m \<and> en_node_id E (m_node m) \<noteq> None then map_option binding_new (en_node_id E (m_node m))
      else bt_get (pn_devices p) l)"
  by (auto simp: me_device_def bt_insert_get split: option.splits)

lemma me_person_fold:
  "person_ok p \<Longrightarrow> \<forall>m \<in> set ms. valid_label (m_label m) \<Longrightarrow> person_ok (fold (me_device E) ms p)"
  "pn_signet (fold (me_device E) ms p) = pn_signet p"
  "distinct (map m_label ms) \<Longrightarrow> bt_get (pn_devices (fold (me_device E) ms p)) l =
     (case find (\<lambda>m. m_label m = l \<and> en_node_id E (m_node m) \<noteq> None) ms of
        None \<Rightarrow> bt_get (pn_devices p) l
      | Some m \<Rightarrow> map_option binding_new (en_node_id E (m_node m)))"
proof (induction ms arbitrary: p)
  case (Cons m ms)
  { case 1 then show ?case by (simp add: Cons.IH(1) me_device_ok)
  next
    case 2 show ?case by (simp add: Cons.IH(2) me_device_signet)
  next
    case 3
    then have "find (\<lambda>n. m_label n = m_label m \<and> en_node_id E (m_node n) \<noteq> None) ms = None"
      by (auto simp: find_None_iff) (metis rev_image_eqI)
    with 3 show ?case
      by (cases "m_label m = l") (auto simp: Cons.IH(3) me_device_get split: option.splits)
  }
qed simp_all

lemma derive_me_holds:
  assumes "\<forall>d. devices = Some d \<longrightarrow> distinct (map m_label (members d))"
  shows "book_holds (derive_me E devices root c) r =
    (if ref_petname r \<noteq> ME then book_holds c r
     else case (devices, ref_device r) of
         (Some d, Some l) \<Rightarrow>
           Option.bind (find (\<lambda>m. m_label m = l \<and> en_node_id E (m_node m) \<noteq> None) (members d))
             (\<lambda>m. en_node_id E (m_node m))
       | _ \<Rightarrow> None)"
proof -
  have none: "book_holds \<lparr>ct_people = bt_remove ME (ct_people c), ct_yours = root\<rparr> r =
      (if ref_petname r \<noteq> ME then book_holds c r else None)"
    by (simp add: book_holds_def ct_person_def bt_remove_get)
  show ?thesis
  proof (cases devices)
    case None
    then show ?thesis by (simp add: derive_me_def none)
  next
    case (Some d)
    let ?p = "me_person E d"
    have s: "pn_signet ?p = None" by (simp add: me_person_def me_person_fold(2))
    have g: "bt_get (pn_devices ?p) l =
       (case find (\<lambda>m. m_label m = l \<and> en_node_id E (m_node m) \<noteq> None) (members d) of
          None \<Rightarrow> None | Some m \<Rightarrow> map_option binding_new (en_node_id E (m_node m)))" for l
      using assms Some by (simp add: me_person_def me_person_fold(3) cong: option.case_cong)
    show ?thesis
    proof (cases "person_empty ?p")
      case True
      then have "bt_get (pn_devices ?p) l = None" for l by (simp add: person_empty_def)
      then have "find (\<lambda>m. m_label m = l \<and> en_node_id E (m_node m) \<noteq> None) (members d) = None" for l
        using g [of l] by (auto simp: find_Some_iff split: option.splits)
      then show ?thesis using True Some by (auto simp: derive_me_def none split: option.splits)
    next
      case False
      then have "book_holds (derive_me E devices root c) r = (if ref_petname r \<noteq> ME then book_holds c r
         else case ref_device r of None \<Rightarrow> None | Some l \<Rightarrow> map_option bn_node (bt_get (pn_devices ?p) l))"
        by (simp add: Some derive_me_def Let_def book_holds_def ct_person_def bt_insert_get bt_remove_get s
            split: option.splits)
      then show ?thesis
        by (auto simp: Some g binding_new_def option.map_comp comp_def split: option.splits dest!: find_Some_set)
    qed
  qed
qed

lemma derive_me_ok:
  assumes ok: "contacts_ok c" and v: "\<forall>d. devices = Some d \<longrightarrow> (\<forall>m \<in> set (members d). valid_label (m_label m))"
  shows "contacts_ok (derive_me E devices root c)"
proof -
  let ?c = "\<lparr>ct_people = bt_remove ME (ct_people c), ct_yours = root\<rparr>"
  have base: "contacts_ok ?c" using ok by (auto simp: contacts_ok_def bt_remove_ok bt_remove_set)
  have me: "valid_name (petname_str ME)"
    by (simp add: ME_def valid_name_def name_char_def ascii_defs code_def)
  have "person_ok (me_person E d)" if "devices = Some d" for d
    using v that by (simp add: me_person_def me_person_fold(1) person_ok_def [of person_default])
  then show ?thesis
    using base me by (auto simp: derive_me_def Let_def contacts_ok_def bt_insert_ok dest!: bt_insert_set [rotated]
        split: option.splits)
qed

lemma mine_holds: "contacts_ok c \<Longrightarrow> (l, n) \<in> set (ct_mine c) \<longleftrightarrow> book_holds c \<lparr>ref_petname = ME, ref_device = Some l\<rparr> = Some n"
proof (cases "ct_person c ME")
  case (Some x)
  assume ok: "contacts_ok c"
  show ?thesis
    using Some book_person(5) [OF ok Some]
    by (auto simp: ct_mine_def option_list_def labelled_def book_holds_def bt_get_entries [symmetric])
qed (simp add: ct_mine_def option_list_def book_holds_def)

lemma find_label:
  assumes "distinct (map m_label ms)"
  shows "Option.bind (find (\<lambda>m. m_label m = l \<and> en_node_id E (m_node m) \<noteq> None) ms) (\<lambda>m. en_node_id E (m_node m)) = Some n
    \<longleftrightarrow> (\<exists>m \<in> set ms. m_label m = l \<and> en_node_id E (m_node m) = Some n)"
  using assms
proof (induction ms)
  case (Cons m ms)
  then have "m_label m \<notin> m_label ` set ms" by simp
  then have "m_label k \<noteq> m_label m" if "k \<in> set ms" for k using that by (metis imageI)
  then show ?case using Cons by (cases "m_label m = l") auto
qed simp

lemma store_open_Inr:
  assumes "links_canonical (en_nauthy E)" "store_open E D B file H = Inr st"
  obtains c pin where "contacts_ok c" "pin = (case load_signet E D H of Inl _ \<Rightarrow> None | Inr pin \<Rightarrow> pin)"
    "cs_list st = Option.bind (Option.bind pin (en_verify_key E)) (roster_held E H)"
    "cs_contacts st = derive_me E (cs_list st) pin c"
    "\<forall>d. cs_list st = Some d \<longrightarrow> doc_ok (en_nauthy E) d"
proof -
  let ?pin = "case load_signet E D H of Inl _ \<Rightarrow> None | Inr pin \<Rightarrow> pin"
  let ?read = "case file of
        Read (Contents t) \<Rightarrow> decode_book E B t
      | Read Missing \<Rightarrow> Inr contacts_default
      | Read (Unreadable e) \<Rightarrow> Inl (CsRead e)
      | NotText \<Rightarrow> Inl (CsRead ''stream did not contain valid UTF-8'')"
  obtain c where c: "?read = Inr c"
    and st: "st = \<lparr>cs_contacts = derive_me E (Option.bind (Option.bind ?pin (en_verify_key E)) (roster_held E H)) ?pin c,
      cs_list = Option.bind (Option.bind ?pin (en_verify_key E)) (roster_held E H)\<rparr>"
    using assms(2) by (auto simp: store_open_def bindR_Inr_iff Let_def)
  have "contacts_ok contacts_default" by (simp add: contacts_ok_def contacts_default_def)
  then have "contacts_ok c" using c decode_book_ok by (auto split: text_read.splits file_read.splits)
  moreover have "doc_ok (en_nauthy E) d" if "roster_held E H k = Some d" for d k
    using that read_held_doc(1) [OF assms(1)] by (auto simp: roster_held_def)
  then have "\<forall>d. cs_list st = Some d \<longrightarrow> doc_ok (en_nauthy E) d" by (auto simp: st bind_eq_Some_conv)
  ultimately show thesis by (intro that [of c ?pin]) (simp_all add: st)
qed

lemma opened_ok:
  assumes "links_canonical (en_nauthy E)" "store_open E D B file H = Inr st"
  shows "contacts_ok (cs_contacts st)"
proof -
  obtain c pin where "contacts_ok c" "cs_contacts st = derive_me E (cs_list st) pin c"
    "\<forall>d. cs_list st = Some d \<longrightarrow> doc_ok (en_nauthy E) d"
    by (rule store_open_Inr [OF assms])
  then show ?thesis by (auto simp: doc_ok_def member_ok_def intro!: derive_me_ok)
qed

section \<open>Properties\<close>

text \<open>A book of one person: a saved machine, and a root learned from it.\<close>

definition example_label :: device_label where "example_label = DeviceLabel ''laptop''"

definition example_alice :: petname where "example_alice = Petname ''alice''"

definition example_contacts :: contacts where
  "example_contacts =
     \<lparr>ct_people = [(example_alice,
        \<lparr>pn_devices = [(example_label, \<lparr>bn_node = NodeId [1], bn_seen_root = Some (NodeId [2])\<rparr>)],
         pn_signet = Some \<lparr>sr_node = NodeId [2], sr_source = Learned example_label\<rparr>\<rparr>)],
      ct_yours = None\<rparr>"

lemma example_names: "valid_label example_label" "valid_name (petname_str example_alice)" "example_alice \<noteq> ME"
  by (simp_all add: example_label_def example_alice_def ME_def valid_label_def valid_name_def name_char_def
      ascii_defs code_def RESERVED_def)

lemma example_contacts_ok: "contacts_ok example_contacts"
  using example_names by (simp add: contacts_ok_def example_contacts_def person_ok_def person_empty_def)

text \<open>
  Saving never moves a name or a key. On a well-formed book \<open>contact add\<close>'s one write does exactly what
  its contract says of the names and the keys they hold: a name that holds a key keeps it (the same key
  is unchanged, another refuses), a key that some name holds is refused and that name is said, and only
  a free name and a free key are joined, with every other name left as it was.
\<close>

theorem saving_moves_nothing:
  assumes "contacts_ok c" "ct_save at n c = (answer, c')"
  shows "save_spec (book_holds c) at n answer (book_holds c')"
  by (rule save_refines_spec [OF assms])

theorem saving_moves_nothing_witness:
  "fst (ct_save \<lparr>ref_petname = example_alice, ref_device = Some (DeviceLabel ''nas'')\<rparr> (NodeId [3]) example_contacts) = Inr Created \<and>
   save_spec (book_holds example_contacts) \<lparr>ref_petname = example_alice, ref_device = Some (DeviceLabel ''nas'')\<rparr> (NodeId [3])
     (Inr Created) (book_holds (snd (ct_save \<lparr>ref_petname = example_alice, ref_device = Some (DeviceLabel ''nas'')\<rparr> (NodeId [3]) example_contacts)))"
proof -
  let ?r = "ct_save \<lparr>ref_petname = example_alice, ref_device = Some (DeviceLabel ''nas'')\<rparr> (NodeId [3]) example_contacts"
  have "fst ?r = Inr Created"
    by (simp add: ct_save_def save_held_def ct_person_def example_contacts_def bt_get_def example_label_def
        ct_saved_at_def saved_in_def is_root_of_def)
  then have e: "?r = (Inr Created, snd ?r)" by (simp add: prod_eq_iff)
  show ?thesis using saving_moves_nothing [OF example_contacts_ok e] \<open>fst ?r = Inr Created\<close> by blast
qed

text \<open>
  C17: One key has one name, through every command. Over any run of saves, roots learned and replaced, roots
  remembered as seen, and removals, whatever each answers, a well-formed book in which no key is saved
  under two names stays well formed (valid names, nobody empty) and stays such a book: a revocation or a
  link by one name never reaches another's key.
\<close>

theorem one_key_one_name:
  assumes "contacts_ok c" "one_name c" "book_step\<^sup>*\<^sup>* c c'"
  shows "contacts_ok c' \<and> inj_on (book_holds c') (dom (book_holds c'))"
  using book_run_keeps [OF assms(3)] assms(1, 2) by (simp add: one_name_def)

lemma holds_empty: "contacts_ok contacts_default" "one_name contacts_default"
  by (simp_all add: contacts_ok_def contacts_default_def one_name_def book_holds_def ct_person_def dom_def)

theorem one_key_one_name_witness:
  "\<exists>c. book_step\<^sup>*\<^sup>* contacts_default c \<and> book_holds c (ref_person example_alice) = Some (NodeId [2]) \<and>
     inj_on (book_holds c) (dom (book_holds c))"
proof -
  let ?r = "ct_save (ref_person example_alice) (NodeId [2]) contacts_default"
  have v: "valid_ref (ref_person example_alice)" using example_names by (simp add: valid_ref_def ref_person_def)
  have s: "?r = (Inr Created, set_signet_binding example_alice \<lparr>sr_node = NodeId [2], sr_source = Explicit\<rparr> contacts_default)"
    by (simp add: ct_save_def save_held_def ct_person_def contacts_default_def ct_saved_at_def ref_person_def)
  then have "book_step\<^sup>*\<^sup>* contacts_default (snd ?r)"
    by (metis step_save [OF v] r_into_rtranclp prod.collapse)
  moreover from this have "inj_on (book_holds (snd ?r)) (dom (book_holds (snd ?r)))"
    using one_key_one_name [OF holds_empty] by blast
  moreover have "book_holds (snd ?r) (ref_person example_alice) = Some (NodeId [2])"
    unfolding s by (simp add: holds_set_signet ref_person_def)
  ultimately show ?thesis by blast
qed

text \<open>
  C18: What the store writes, it reads back. A well-formed book that is encoded decodes to the same
  people, machines, saved roots with where each was learned, and roots last seen, everything but \<^verbatim>\<open>me\<close>,
  which no file holds; no person, machine or mark is lost or invented between.
\<close>

theorem book_reads_back:
  assumes "prints_back E B" "contacts_ok c" "encode_book B c = Inr t"
  shows "decode_book E B t = Inr \<lparr>ct_people = bt_remove ME (ct_people c), ct_yours = None\<rparr>"
  by (rule decode_encode_book [OF assms])

definition example_book_text :: book_text where
  "example_book_text =
     \<lparr>tx_parse = \<lambda>t. Some (encode_wire \<lparr>tx_parse = \<lambda>_. None, tx_print = \<lambda>_. None, tx_show = \<lambda>NodeId b \<Rightarrow> text_of b\<rparr> example_contacts),
      tx_print = \<lambda>w.
        if w = encode_wire \<lparr>tx_parse = \<lambda>_. None, tx_print = \<lambda>_. None, tx_show = \<lambda>NodeId b \<Rightarrow> text_of b\<rparr> example_contacts
        then Some ''book'' else None,
      tx_show = \<lambda>NodeId b \<Rightarrow> text_of b\<rparr>"

abbreviation example_names_env :: env where
  "example_names_env \<equiv> example_env\<lparr>en_parse_node := \<lambda>s. Some (NodeId (as_bytes s))\<rparr>"

lemma example_prints_back: "prints_back example_names_env example_book_text"
  by (auto simp: prints_back_def example_book_text_def split: node_id.splits if_splits)

lemma encode_same_show: "tx_show B = tx_show B' \<Longrightarrow> encode_wire B c = encode_wire B' c"
proof -
  assume s: "tx_show B = tx_show B'"
  have k: "key_value B = key_value B'" by (simp add: fun_eq_iff key_value_def s)
  then have "encode_person B c = encode_person B' c"
    by (simp add: fun_eq_iff encode_person_def encode_group_def encode_seen_def k
        cong: option.case_cong source.case_cong)
  then show ?thesis by (simp add: encode_wire_def)
qed

theorem book_reads_back_witness:
  "decode_book example_names_env example_book_text ''book'' =
     Inr \<lparr>ct_people = ct_people example_contacts, ct_yours = None\<rparr>"
proof -
  have "encode_book example_book_text example_contacts = Inr ''book''"
    using encode_same_show [of example_book_text
      "\<lparr>tx_parse = \<lambda>_. None, tx_print = \<lambda>_. None, tx_show = \<lambda>NodeId b \<Rightarrow> text_of b\<rparr>" example_contacts]
    by (simp add: encode_book_def example_book_text_def)
  from book_reads_back [OF example_prints_back example_contacts_ok this] show ?thesis
    using example_names(3) by (simp add: example_contacts_def bt_remove_def)
qed

text \<open>
  C19: Whatever the file holds, a book that opens is well formed: every name follows the name rule, every
  machine's name is one a device may have, and nobody is empty. Under \<^verbatim>\<open>me\<close> it holds exactly the devices of
  the update this home holds, by their labels and usable keys, and no saved root; it holds none of them
  unless that update verifies under the pin and the pin is not revoked here.
\<close>

theorem opened_book_typed:
  assumes "links_canonical (en_nauthy E)" "store_open E D B file H = Inr st"
  shows "contacts_ok (cs_contacts st)
    \<and> set (ct_mine (cs_contacts st)) =
        {(m_label m, n) | m n d. cs_list st = Some d \<and> m \<in> set (members d) \<and> en_node_id E (m_node m) = Some n}
    \<and> ct_signet (cs_contacts st) ME = None
    \<and> (\<forall>d. cs_list st = Some d \<longrightarrow> (\<exists>pin k b. load_signet E D H = Inr (Some pin) \<and> en_verify_key E pin = Some k \<and>
         h_devices H = Bytes b \<and> roster_verify (en_nauthy E) b k = Inr d))"
proof -
  obtain c pin where p: "pin = (case load_signet E D H of Inl _ \<Rightarrow> None | Inr pin \<Rightarrow> pin)"
    and l: "cs_list st = Option.bind (Option.bind pin (en_verify_key E)) (roster_held E H)"
    and st: "cs_contacts st = derive_me E (cs_list st) pin c"
    and d: "\<forall>d. cs_list st = Some d \<longrightarrow> doc_ok (en_nauthy E) d"
    by (rule store_open_Inr [OF assms]) (rule that)
  have ok: "contacts_ok (cs_contacts st)" by (rule opened_ok [OF assms])
  have u: "\<forall>d. cs_list st = Some d \<longrightarrow> distinct (map m_label (members d))" using d by (simp add: doc_ok_def)
  note h = derive_me_holds [OF u, of E pin c, folded st]
  have "set (ct_mine (cs_contacts st)) =
        {(m_label m, n) | m n d. cs_list st = Some d \<and> m \<in> set (members d) \<and> en_node_id E (m_node m) = Some n}"
  proof (intro set_eqI)
    fix e :: "device_label \<times> node_id"
    obtain l n where e: "e = (l, n)" by (cases e)
    show "e \<in> set (ct_mine (cs_contacts st)) \<longleftrightarrow>
        e \<in> {(m_label m, n) | m n d. cs_list st = Some d \<and> m \<in> set (members d) \<and> en_node_id E (m_node m) = Some n}"
    proof (cases "cs_list st")
      case (Some doc)
      then have "distinct (map m_label (members doc))" using u by simp
      from find_label [OF this, where E = E] show ?thesis
        using Some by (auto simp: e mine_holds [OF ok] h)
    qed (simp add: e mine_holds [OF ok] h)
  qed
  moreover have "ct_signet (cs_contacts st) ME = None"
    using h [of "ref_person ME"] by (simp add: ref_person_def holds_signet split: option.splits)
  moreover have "\<exists>pin k b. load_signet E D H = Inr (Some pin) \<and> en_verify_key E pin = Some k \<and>
         h_devices H = Bytes b \<and> roster_verify (en_nauthy E) b k = Inr d" if listed: "cs_list st = Some d" for d
  proof -
    obtain q k b where q: "load_signet E D H = Inr (Some q)" "en_verify_key E q = Some k"
      "read_held E (h_devices H) k = Some (d, b)"
      using listed unfolding l p by (auto simp: bind_eq_Some_conv roster_held_def split: sum.splits)
    from q(1, 2) read_held_doc(2, 3) [OF assms(1) q(3)] show ?thesis by blast
  qed
  ultimately show ?thesis using ok by blast
qed

lemma example_opens:
  "store_open example_env example_denylist example_book_text (Read Missing) example_holder =
     Inr \<lparr>cs_contacts = derive_me example_env (Some example_update) (Some (example_node 7)) contacts_default,
          cs_list = Some example_update\<rparr>"
proof -
  have v: "en_verify_key example_env (example_node 7) = Some (example_key 7)"
    by (simp add: example_env_def example_node_def example_key_def)
  have "load_signet example_env example_denylist example_holder = Inr (Some (example_node 7))"
    using example_trims by (simp add: load_signet_def example_holder_def example_home_def example_env_def
        revoked_open_def example_denylist_def st_is_revoked_def example_node_def)
  moreover have "roster_held example_env example_holder (example_key 7) = Some example_update"
    using read_held_Bytes [OF example_doc] by (simp add: roster_held_def example_holder_def)
  ultimately show ?thesis by (simp add: store_open_def v Let_def)
qed

theorem opened_book_typed_witness:
  "\<exists>st. store_open example_env example_denylist example_book_text (Read Missing) example_holder = Inr st \<and>
     cs_list st = Some example_update \<and> contacts_ok (cs_contacts st) \<and> ct_signet (cs_contacts st) ME = None"
proof -
  have "links_canonical (en_nauthy example_env)" using example_canonical by (simp add: example_env_def)
  from opened_book_typed [OF this example_opens] example_opens show ?thesis by auto
qed

end
