(* ===== verification/Peers.thy ===== *)
theory Peers
  imports Contacts_Laws
begin

text \<open>
  What a person types where a machine goes, and the one machine it names: \<^verbatim>\<open>src/link.rs\<close>,
  \<^verbatim>\<open>src/root_key.rs\<close>, \<^verbatim>\<open>src/peer.rs\<close> and what a dial presents (\<^verbatim>\<open>src/credential.rs\<close>), over the address
  book of \<^verbatim>\<open>Contacts\<close>; and \<^verbatim>\<open>src/learn.rs\<close>, what a machine that answered teaches about its root.
  The text of a key and the file a path names are arguments.
\<close>

section \<open>Marks\<close>

text \<open>
  \<^verbatim>\<open>text.get(..mark.len())\<close> compared in any ASCII case, and the rest. A mark is ASCII, so where the
  head matches, its end is a character's end.
\<close>

definition eq_ignore_case :: "string \<Rightarrow> string \<Rightarrow> bool" where
  "eq_ignore_case a b \<longleftrightarrow> ascii_lowercase a = ascii_lowercase b"

definition strip_mark :: "string \<Rightarrow> string \<Rightarrow> string option" where
  "strip_mark mark text =
     (if length mark \<le> length text \<and> eq_ignore_case (take (length mark) text) mark
      then Some (drop (length mark) text) else None)"

definition strip_exact :: "string \<Rightarrow> string \<Rightarrow> string option" where
  "strip_exact mark text =
     (if take (length mark) text = mark then Some (drop (length mark) text) else None)"

section \<open>Keys as text\<close>

text \<open>bifrost's parser of a key: a key, text that spells a key nobody can hold, or no key at all.\<close>

datatype key_parse = KeyOk node_id | KeyUnusable string | KeyNot string

record key_text =
  kt_parse :: "string \<Rightarrow> key_parse"
  kt_show :: "node_id \<Rightarrow> string"

datatype key_text_error = KtUnusable string string | KtNotAKey string

definition parse_key :: "key_text \<Rightarrow> string \<Rightarrow> key_text_error + node_id" where
  "parse_key K text =
     (case kt_parse K text of
        KeyOk node \<Rightarrow> Inr node
      | KeyUnusable e \<Rightarrow> Inl (KtUnusable text e)
      | KeyNot e \<Rightarrow> Inl (KtNotAKey e))"

definition raw_key :: "key_text \<Rightarrow> string \<Rightarrow> string \<times> string + node_id option" where
  "raw_key K text =
     (case parse_key K text of
        Inr node \<Rightarrow> Inr (Some node)
      | Inl (KtUnusable t e) \<Rightarrow> Inl (t, e)
      | Inl (KtNotAKey _) \<Rightarrow> Inr None)"

definition SHORT :: nat where "SHORT = 12"

definition ellipsis :: string where "ellipsis = map char_of [226, 128, 166 :: nat]"

definition short_key :: "key_text \<Rightarrow> node_id \<Rightarrow> string" where
  "short_key K n = take SHORT (kt_show K n) @ ellipsis"

section \<open>Links as text\<close>

definition LINK_PREFIX :: string where "LINK_PREFIX = ''swoosh:''"

datatype link_error = LkPrefix | LkLink

definition link_show :: "link \<Rightarrow> string" where
  "link_show l = LINK_PREFIX @ link_str l"

definition link_strip :: "string \<Rightarrow> string option" where
  "link_strip text = strip_mark LINK_PREFIX text"

definition link_from_str :: "env \<Rightarrow> string \<Rightarrow> link_error + link" where
  "link_from_str E text =
     bindR (ok_or LkPrefix (link_strip (trim text))) (\<lambda>rest. ok_or LkLink (na_link (en_nauthy E) rest))"

definition link_is_prefixed :: "string \<Rightarrow> bool" where
  "link_is_prefixed text \<longleftrightarrow> link_strip (trim text) \<noteq> None"

definition looks_bare :: "key_text \<Rightarrow> string \<Rightarrow> bool" where
  "looks_bare K text \<longleftrightarrow>
     (case split_once CHR ''.'' (trim text) of
        None \<Rightarrow> False
      | Some (key, _) \<Rightarrow> (\<exists>n. kt_parse K key = KeyOk n))"

section \<open>Roots as text\<close>

datatype root_key_text = RootKey (rk_key: node_id)

definition ROOT_PREFIX :: string where "ROOT_PREFIX = ''root:''"

definition TAG :: nat where "TAG = 4"
definition TOKEN :: nat where "TOKEN = 8"

datatype root_key_error = RkNoPrefix | RkNotAKey string | RkUnusable string string

definition root_show :: "key_text \<Rightarrow> root_key_text \<Rightarrow> string" where
  "root_show K r = ROOT_PREFIX @ kt_show K (rk_key r)"

definition root_key_short :: "key_text \<Rightarrow> root_key_text \<Rightarrow> string" where
  "root_key_short K r = ROOT_PREFIX @ short_key K (rk_key r)"

definition root_token :: "key_text \<Rightarrow> root_key_text \<Rightarrow> string" where
  "root_token K r = take TOKEN (drop TAG (kt_show K (rk_key r)))"

definition root_strip :: "string \<Rightarrow> string option" where
  "root_strip text = strip_mark ROOT_PREFIX text"

definition root_from_str :: "key_text \<Rightarrow> string \<Rightarrow> root_key_error + root_key_text" where
  "root_from_str K text =
     bindR (ok_or RkNoPrefix (root_strip (trim text))) (\<lambda>rest.
     case parse_key K rest of
       Inr key \<Rightarrow> Inr (RootKey key)
     | Inl (KtUnusable t e) \<Rightarrow> Inl (RkUnusable t e)
     | Inl (KtNotAKey e) \<Rightarrow> Inl (RkNotAKey e))"

definition root_is_prefixed :: "string \<Rightarrow> bool" where
  "root_is_prefixed text \<longleftrightarrow> root_strip (trim_start text) \<noteq> None"

section \<open>A peer as typed\<close>

datatype typed_peer =
    PNamed contact_ref
  | PRaw node_id
  | PCapability link "string option"
  | PRoot root_key_text

datatype peer_parse_error =
    PpCapability link_error
  | PpContact name_error
  | PpKey string string
  | PpNotARootKey string
  | PpNoLink string
  | PpUnreadable string string
  | PpNotAFile string
  | PpTooLarge string
  | PpBadLink string link_error
  | PpNoHome

definition PATH_STARTS :: "string list" where "PATH_STARTS = [''./'', ''/'', ''~/'']"

definition is_path :: "string \<Rightarrow> bool" where
  "is_path text \<longleftrightarrow> (\<exists>start \<in> set PATH_STARTS. strip_exact start text \<noteq> None)"

text \<open>\<^verbatim>\<open>Path::join\<close> on Unix: an absolute path replaces the base.\<close>

definition path_join :: "string \<Rightarrow> string \<Rightarrow> string" where
  "path_join base rest =
     (if strip_exact ''/'' rest \<noteq> None then rest
      else if base = [] \<or> last base = CHR ''/'' then base @ rest
      else base @ ''/'' @ rest)"

definition expand :: "string \<Rightarrow> string option \<Rightarrow> peer_parse_error + string" where
  "expand text home =
     (case strip_exact ''~/'' text of
        Some rest \<Rightarrow>
          (case home of
             Some h \<Rightarrow> if h \<noteq> [] then Inr (path_join h rest) else Inl PpNoHome
           | None \<Rightarrow> Inl PpNoHome)
      | None \<Rightarrow> Inr text)"

text \<open>
  What opening a path observes: it fails, it is no regular file, reading its first
  \<^verbatim>\<open>MAX_PEER_FILE + 1\<close> bytes as text fails, or they are this text.
\<close>

datatype opened = OpenFailed string | NotRegular | ReadFailed string | HeldText string

definition MAX_PEER_FILE :: nat where "MAX_PEER_FILE = 64 * 1024"

definition strip_newline :: "string \<Rightarrow> string" where
  "strip_newline s = (if s \<noteq> [] \<and> last s = newline then butlast s else s)"

definition read_link_file ::
  "env \<Rightarrow> (string \<Rightarrow> opened) \<Rightarrow> string option \<Rightarrow> string \<Rightarrow> peer_parse_error + link \<times> string" where
  "read_link_file E opens home text =
     bindR (expand text home) (\<lambda>path.
     case opens path of
       OpenFailed e \<Rightarrow> Inl (PpUnreadable text e)
     | NotRegular \<Rightarrow> Inl (PpNotAFile text)
     | ReadFailed e \<Rightarrow> Inl (PpUnreadable text e)
     | HeldText held \<Rightarrow>
         if length held > MAX_PEER_FILE then Inl (PpTooLarge text)
         else
           let held = strip_newline held in
           if \<not> link_is_prefixed held then Inl (PpNoLink text)
           else bindR (map_err (PpBadLink text) (link_from_str E held)) (\<lambda>l. Inr (l, path)))"

definition read_file ::
  "env \<Rightarrow> (string \<Rightarrow> opened) \<Rightarrow> string option \<Rightarrow> string \<Rightarrow> peer_parse_error + typed_peer" where
  "read_file E opens home text =
     bindR (read_link_file E opens home text) (\<lambda>(l, path). Inr (PCapability l (Some path)))"

definition peer_from_str ::
  "env \<Rightarrow> key_text \<Rightarrow> (string \<Rightarrow> opened) \<Rightarrow> string option \<Rightarrow> string \<Rightarrow> peer_parse_error + typed_peer" where
  "peer_from_str E K opens home text =
     (if is_path text then read_file E opens home text
      else if link_is_prefixed text then
        bindR (map_err PpCapability (link_from_str E text)) (\<lambda>l. Inr (PCapability l None))
      else if root_is_prefixed text then
        (case root_from_str K text of
           Inr root \<Rightarrow> Inr (PRoot root)
         | Inl (RkUnusable t e) \<Rightarrow> Inl (PpKey t e)
         | Inl (RkNotAKey e) \<Rightarrow> Inl (PpNotARootKey e)
         | Inl RkNoPrefix \<Rightarrow> bindR (map_err PpContact (ref_from_str text)) (\<lambda>r. Inr (PNamed r)))
      else
        bindR (map_err (\<lambda>(t, e). PpKey t e) (raw_key K text)) (\<lambda>node.
        case node of
          Some node \<Rightarrow> Inr (PRaw node)
        | None \<Rightarrow>
            if looks_bare K text then Inl (PpCapability LkPrefix)
            else bindR (map_err PpContact (ref_from_str text)) (\<lambda>r. Inr (PNamed r))))"

section \<open>The machine a peer names\<close>

datatype own_device = OwnDevice (own_label: device_label)

definition own_of :: "contact_ref \<Rightarrow> own_device option" where
  "own_of r =
     (case ref_device r of
        Some device \<Rightarrow> if ref_petname r = ME then Some (OwnDevice device) else None
      | None \<Rightarrow> None)"

definition own_key_in :: "own_device \<Rightarrow> contacts \<Rightarrow> node_id option" where
  "own_key_in d c = map_option snd (find (\<lambda>(label, _). label = own_label d) (ct_mine c))"

definition own_show :: "own_device \<Rightarrow> string" where
  "own_show d = petname_str ME @ ''/'' @ label_str (own_label d)"

datatype whose =
    WYours "own_device list"
  | WPerson petname "device_label list"
  | WUnknown

definition yours :: "contacts \<Rightarrow> own_device list" where
  "yours c = map (\<lambda>(label, _). OwnDevice label) (ct_mine c)"

definition whose_of :: "contacts \<Rightarrow> root_key_text \<Rightarrow> whose" where
  "whose_of c root =
     (if ct_yours c = Some (rk_key root) then WYours (yours c)
      else (case ct_saved_root c (rk_key root) of
          Some person \<Rightarrow> WPerson person (map fst (concat (option_list (ct_devices c person))))
        | None \<Rightarrow> WUnknown))"

datatype kind = KYours | KLink | KContact | KKey

record machine =
  mc_key :: node_id
  mc_name :: "contact_ref option"
  mc_kind :: kind
  mc_picked :: "petname option"

definition machine_saved :: "contacts \<Rightarrow> node_id \<Rightarrow> machine" where
  "machine_saved c key =
     (let name = ct_saved_at c key in
      \<lparr>mc_key = key, mc_name = name,
       mc_kind =
         (case name of
            Some name \<Rightarrow> if ref_petname name = ME then KYours else KContact
          | None \<Rightarrow> KKey),
       mc_picked = None\<rparr>)"

definition machine_label :: "key_text \<Rightarrow> machine \<Rightarrow> string" where
  "machine_label K m =
     (case mc_name m of Some name \<Rightarrow> ref_show name | None \<Rightarrow> short_key K (mc_key m))"

datatype machine_error =
    Several petname "device_label list"
  | NoneSaved petname
  | NotSaved petname
  | WhichOfYours "own_device list"
  | YourDevice own_device
  | NotYours own_device "own_device list"
  | NotTheirs petname device_label "device_label list"
  | LinkKey
  | RootTyped whose

definition named_device ::
  "contacts \<Rightarrow> petname \<Rightarrow> device_label \<Rightarrow> machine_error + machine" where
  "named_device c person device =
     (if person = ME then
        (case find (\<lambda>(label, _). label = device) (ct_mine c) of
           Some (_, key) \<Rightarrow> Inr (machine_saved c key)
         | None \<Rightarrow> Inl (NotYours (OwnDevice device) (yours c)))
      else
        (case ct_devices c person of
           None \<Rightarrow> Inl (NotSaved person)
         | Some machines \<Rightarrow>
             (case find (\<lambda>(label, _). label = device) machines of
                Some (_, key) \<Rightarrow> Inr (machine_saved c key)
              | None \<Rightarrow> Inl (NotTheirs person device (map fst machines)))))"

definition named :: "contacts \<Rightarrow> contact_ref \<Rightarrow> machine_error + machine" where
  "named c reference =
     (let person = ref_petname reference in
      case ref_device reference of
        Some device \<Rightarrow> named_device c person device
      | None \<Rightarrow>
          if person = ME then Inl (WhichOfYours (yours c))
          else (case ct_devices c person of
              None \<Rightarrow>
                Inl (case find (\<lambda>d. label_str (own_label d) = petname_str person) (yours c) of
                    Some d \<Rightarrow> YourDevice d
                  | None \<Rightarrow> NotSaved person)
            | Some machines \<Rightarrow>
                (case machines of
                   [] \<Rightarrow> Inl (NoneSaved person)
                 | [(_, key)] \<Rightarrow> Inr ((machine_saved c key)\<lparr>mc_picked := Some person\<rparr>)
                 | several \<Rightarrow> Inl (Several person (map fst several)))))"

definition dial_node :: "env \<Rightarrow> link \<Rightarrow> node_id option" where
  "dial_node E l = en_node_id E (en_root E l)"

definition peer_machine :: "env \<Rightarrow> contacts \<Rightarrow> typed_peer \<Rightarrow> machine_error + machine" where
  "peer_machine E c p =
     (case p of
        PRaw key \<Rightarrow>
          (case whose_of c (RootKey key) of
             WUnknown \<Rightarrow> Inr (machine_saved c key)
           | whose \<Rightarrow> Inl (RootTyped whose))
      | PCapability l _ \<Rightarrow>
          bindR (ok_or LinkKey (dial_node E l)) (\<lambda>key.
          Inr \<lparr>mc_key = key, mc_name = ct_saved_at c key, mc_kind = KLink, mc_picked = None\<rparr>)
      | PNamed reference \<Rightarrow> named c reference
      | PRoot root \<Rightarrow> Inl (RootTyped (whose_of c root)))"

definition self_present :: "typed_peer \<Rightarrow> link option" where
  "self_present p = (case p of PCapability l _ \<Rightarrow> Some l | _ \<Rightarrow> None)"

definition peer_show :: "env \<Rightarrow> key_text \<Rightarrow> (verify_key \<Rightarrow> string) \<Rightarrow> typed_peer \<Rightarrow> string" where
  "peer_show E K show_verify p =
     (case p of
        PNamed r \<Rightarrow> ref_show r
      | PRaw n \<Rightarrow> short_key K n
      | PCapability l _ \<Rightarrow> take SHORT (show_verify (en_root E l)) @ ellipsis
      | PRoot r \<Rightarrow> root_key_short K r)"

section \<open>What a dial presents\<close>

text \<open>
  \<open>admits_anyone\<close> is \<^verbatim>\<open>admits_anyone(link, service)\<close>: nauthy's check of the link for a key nobody holds, at
  the one moment this run asks.
\<close>

datatype credential = Family "link option" | AnyoneLink link

datatype identity_mode = PersistedIfPresent | Ephemeral

datatype warm_mode = Resident | Personal

definition dialing :: "(link \<Rightarrow> string \<Rightarrow> bool) \<Rightarrow> typed_peer \<Rightarrow> string \<Rightarrow> credential" where
  "dialing admits_anyone p service =
     (case self_present p of
        Some l \<Rightarrow> if admits_anyone l service then AnyoneLink l else Family (Some l)
      | None \<Rightarrow> Family None)"

fun credential_identity :: "credential \<Rightarrow> identity_mode" where
  "credential_identity (Family _) = PersistedIfPresent"
| "credential_identity (AnyoneLink _) = Ephemeral"

fun credential_warm :: "credential \<Rightarrow> warm_mode" where
  "credential_warm (Family None) = Resident"
| "credential_warm (Family (Some _)) = Personal"
| "credential_warm (AnyoneLink _) = Personal"

end
