(* ===== verification/Learning.thy ===== *)
theory Learning
  imports Peers
begin

text \<open>
  \<^verbatim>\<open>src/learn.rs\<close>: which saved machines are asked whose root vouches for them, what an answer teaches,
  what a shown root means against the address book, and what is saved of it. The connection under an
  ask is an argument: whether a machine answered, and with which standing.
\<close>

section \<open>Who is asked\<close>

record asked =
  ak_person :: petname
  ak_device :: device_label
  ak_key :: node_id

definition asked_of :: "machine \<Rightarrow> asked option" where
  "asked_of m =
     (if mc_kind m \<noteq> KContact then None
      else
        Option.bind (mc_name m) (\<lambda>name.
        Option.bind (ref_device name) (\<lambda>device.
        if ref_petname name = ME then None
        else Some \<lparr>ak_person = ref_petname name, ak_device = device, ak_key = mc_key m\<rparr>)))"

definition unrooted :: "contacts \<Rightarrow> asked list" where
  "unrooted c =
     concat (map (\<lambda>person.
         map (\<lambda>(device, key). \<lparr>ak_person = person, ak_device = device, ak_key = key\<rparr>)
           (concat (option_list (ct_devices c person))))
       (filter (\<lambda>person. person \<noteq> ME \<and> ct_signet c person = None) (ct_petnames c)))"

section \<open>What an answer teaches\<close>

record shown =
  sh_asked :: asked
  sh_root :: root_key_text

definition vouching :: "env \<Rightarrow> link \<Rightarrow> node_id \<Rightarrow> systime \<Rightarrow> root_key_text option" where
  "vouching E standing device now =
     Option.bind (en_verify_key E device) (\<lambda>key.
     if \<not> en_member_at E standing now key (en_root E standing) then None
     else
       (case en_expiry E standing of
          Some (Some ends) \<Rightarrow>
            if ends > now then map_option RootKey (en_node_id E (en_root E standing)) else None
        | _ \<Rightarrow> None))"

definition taught :: "env \<Rightarrow> asked \<Rightarrow> link \<Rightarrow> systime \<Rightarrow> shown option" where
  "taught E a standing now =
     map_option (\<lambda>root. \<lparr>sh_asked = a, sh_root = root\<rparr>) (vouching E standing (ak_key a) now)"

datatype found = Offer | Conflict root_key_text | Quiet

definition found_of :: "contacts \<Rightarrow> shown \<Rightarrow> found" where
  "found_of c s =
     (let a = sh_asked s; root = rk_key (sh_root s) in
      if ct_seen_root c (ak_person a) (ak_device a) = Some root then Quiet
      else (case ct_signet c (ak_person a) of
          Some saved \<Rightarrow> if sr_node saved = root then Quiet else Conflict (RootKey (sr_node saved))
        | None \<Rightarrow> if ct_saved_at c root \<noteq> None then Quiet else Offer))"

text \<open>
  A sweep asks every machine at once in part, and each answer comes in its own time: \<open>answers\<close> are the
  answers that came, each with the place of its machine, in the order they came.
\<close>

definition sweep :: "(nat \<times> shown) list \<Rightarrow> shown list" where
  "sweep answers = map snd (sort_key fst answers)"

fun sweep_answers :: "nat \<Rightarrow> (asked \<Rightarrow> shown option) \<Rightarrow> asked list \<Rightarrow> (nat \<times> shown) list" where
  "sweep_answers i ask [] = []"
| "sweep_answers i ask (a # machines) =
     (case ask a of
        None \<Rightarrow> sweep_answers (Suc i) ask machines
      | Some s \<Rightarrow> (i, s) # sweep_answers (Suc i) ask machines)"

section \<open>What is saved\<close>

definition learn_shown :: "shown \<Rightarrow> (contacts, taken, unit) act" where
  "learn_shown s c =
     (let a = sh_asked s; root = rk_key (sh_root s);
          (saved, c) = learn (ak_person a) root (ak_device a) c
      in (saved, see_root (ak_person a) (ak_device a) root c))"

definition remember_shown :: "shown \<Rightarrow> contacts \<Rightarrow> contacts" where
  "remember_shown s = see_root (ak_person (sh_asked s)) (ak_device (sh_asked s)) (rk_key (sh_root s))"

text \<open>Both write the book under the home's lock: they read it, change it and write it back.\<close>

definition learn_remember ::
  "env \<Rightarrow> 'd denylist_ops \<Rightarrow> book_text \<Rightarrow> string option \<Rightarrow> 'd home \<Rightarrow> shown \<Rightarrow> (text_read, store_error, unit) act" where
  "learn_remember E D B fails H s file =
     (case store_open E D B file H of
        Inl e \<Rightarrow> (Inl e, file)
      | Inr st \<Rightarrow> store_save B fails (st\<lparr>cs_contacts := remember_shown s (cs_contacts st)\<rparr>) file)"

definition learn_save ::
  "env \<Rightarrow> 'd denylist_ops \<Rightarrow> book_text \<Rightarrow> string option \<Rightarrow> 'd home \<Rightarrow> shown \<Rightarrow>
   (text_read, store_error, taken + unit) act" where
  "learn_save E D B fails H s file =
     (case store_open E D B file H of
        Inl e \<Rightarrow> (Inl e, file)
      | Inr st \<Rightarrow>
          let (saved, c) = learn_shown s (cs_contacts st) in
          bindS (store_save B fails (st\<lparr>cs_contacts := c\<rparr>)) (\<lambda>_. liftS (Inr saved)) file)"

section \<open>What holds of it\<close>

lemma vouching_Some:
  "vouching E standing device now = Some root \<longleftrightarrow>
     (\<exists>key ends. en_verify_key E device = Some key \<and>
        en_member_at E standing now key (en_root E standing) \<and>
        en_expiry E standing = Some (Some ends) \<and> now < ends \<and>
        en_node_id E (en_root E standing) = Some (rk_key root))"
  by (cases root) (auto simp: vouching_def bind_eq_Some_conv split: option.splits if_splits)

lemma unrooted_set:
  assumes "contacts_ok c"
  shows "a \<in> set (unrooted c) \<longleftrightarrow>
    ak_person a \<noteq> ME \<and> ct_signet c (ak_person a) = None \<and>
    book_holds c \<lparr>ref_petname = ak_person a, ref_device = Some (ak_device a)\<rparr> = Some (ak_key a)"
proof -
  define X where "X p = concat (option_list (ct_devices c p))" for p
  have d: "(l, n) \<in> set (X p) \<longleftrightarrow> book_holds c \<lparr>ref_petname = p, ref_device = Some l\<rparr> = Some n" for p l n
  proof (cases "ct_person c p")
    case (Some x)
    show ?thesis
      using Some book_person(5) [OF assms Some]
      by (auto simp: X_def labelled_concat labelled_def book_holds_def bt_get_entries [symmetric])
  qed (simp add: X_def ct_devices_def option_list_def book_holds_def)
  have n: "p \<in> set (ct_petnames c)" if "book_holds c \<lparr>ref_petname = p, ref_device = Some l\<rparr> = Some n" for p l n
    using that book_person(1) [OF assms] by (force simp: book_holds_def ct_petnames_def bt_keys_def bind_eq_Some_conv)
  have "a \<in> set (unrooted c) \<longleftrightarrow>
      (\<exists>p \<in> set (ct_petnames c). p \<noteq> ME \<and> ct_signet c p = None \<and>
        (\<exists>(l, n) \<in> set (X p). a = \<lparr>ak_person = p, ak_device = l, ak_key = n\<rparr>))"
    unfolding unrooted_def X_def [symmetric] by (auto simp: image_iff split_beta Bex_def)
  also have "\<dots> \<longleftrightarrow> ak_person a \<noteq> ME \<and> ct_signet c (ak_person a) = None \<and>
      (ak_device a, ak_key a) \<in> set (X (ak_person a))"
    using d n by (cases a) force
  finally show ?thesis by (simp add: d)
qed

lemma sweep_answers_from:
  "ascending fst (sweep_answers i ask ms) \<and> map snd (sweep_answers i ask ms) = List.map_filter ask ms \<and>
   (\<forall>e \<in> set (sweep_answers i ask ms). i \<le> fst e)"
proof (induction ms arbitrary: i)
  case (Cons m ms)
  note IH = Cons [of "Suc i"]
  then show ?case by (fastforce simp: map_filter_simps ascending_Cons split: option.splits)
qed (simp add: map_filter_simps)

text \<open>In whatever order the answers come, a sweep gives them in the order of the machines.\<close>

lemma sweep_in_order:
  assumes "set answers = set (sweep_answers 0 ask machines)" "distinct (map fst answers)"
  shows "sweep answers = List.map_filter ask machines"
proof -
  note all = sweep_answers_from [of 0 ask machines]
  have "sort_key fst answers = sweep_answers 0 ask machines"
  proof (rule ascending_unique)
    show "ascending fst (sort_key fst answers)"
      using assms(2) by (simp add: ascending_iff_sorted_distinct distinct_map inj_on_def)
    show "inj_on fst (set (sort_key fst answers))" using assms(2) by (simp add: distinct_map)
  qed (simp_all add: all assms(1))
  then show ?thesis using all by (simp add: sweep_def)
qed

end
