(* ===== verification/Peers_Laws.thy ===== *)
theory Peers_Laws
  imports Learning
begin

text \<open>
  What typed text can name (\<^verbatim>\<open>src/peer.rs\<close>): the form of the text decides what it is, shown peers read
  back, one machine has one reading however it is typed, and no root passes for a machine. And what is
  learned (\<^verbatim>\<open>src/learn.rs\<close>): only a root that vouches for the machine asked, only into an empty slot, and
  said once.
\<close>

section \<open>Marked text\<close>

lemma ascii_lower_colon: "ascii_lower c = CHR '':'' \<longleftrightarrow> c = CHR '':''"
proof (cases "is_ascii_upper c")
  case True
  then have "code (ascii_lower c) = code c + 32" by (simp add: ascii_lower_def code_char_of is_ascii_upper_def)
  moreover have "code (CHR '':'') = 58" by (simp add: code_def)
  ultimately show ?thesis using True by (auto simp: is_ascii_upper_def simp flip: code_eq_iff)
qed (simp add: ascii_lower_def)

lemma ascii_lowercase_append: "ascii_lowercase (a @ b) = ascii_lowercase a @ ascii_lowercase b"
  by (simp add: ascii_lowercase_def)

lemma strip_mark_Some:
  "strip_mark mark text = Some rest \<longleftrightarrow>
     (\<exists>head. text = head @ rest \<and> length head = length mark \<and> ascii_lowercase head = ascii_lowercase mark)"
proof
  assume "strip_mark mark text = Some rest"
  then have "text = take (length mark) text @ rest" "length (take (length mark) text) = length mark"
    "ascii_lowercase (take (length mark) text) = ascii_lowercase mark"
    by (auto simp: strip_mark_def eq_ignore_case_def split: if_splits)
  then show "\<exists>head. text = head @ rest \<and> length head = length mark \<and> ascii_lowercase head = ascii_lowercase mark"
    by blast
qed (auto simp: strip_mark_def eq_ignore_case_def)

lemma strip_mark_same: "strip_mark mark (mark @ rest) = Some rest"
  by (auto simp: strip_mark_Some)

lemma colon_head:
  assumes "ascii_lowercase head = ascii_lowercase (mark @ '':'')"
  shows "CHR '':'' \<in> set head"
proof -
  have "CHR '':'' \<in> set (ascii_lowercase head)"
    unfolding assms by (simp add: ascii_lowercase_def ascii_lower_colon [THEN iffD2])
  then show ?thesis by (auto simp: ascii_lowercase_def) (metis ascii_lower_colon)
qed

lemma marked_colon:
  "link_strip t = Some rest \<Longrightarrow> CHR '':'' \<in> set t"
  "root_strip t = Some rest \<Longrightarrow> CHR '':'' \<in> set t"
  using colon_head [of _ "''swoosh''"] colon_head [of _ "''root''"]
  by (auto simp: link_strip_def root_strip_def LINK_PREFIX_def ROOT_PREFIX_def strip_mark_Some)

lemma trim_start_sub: "set (trim_start s) \<subseteq> set s"
proof (induction s rule: trim_start.induct)
  case (1 s)
  then show ?case
    by (subst trim_start.simps) (auto simp: strip_front_def split: option.splits dest!: in_set_dropD)
qed

text \<open>Text that reads as a saved name holds no colon.\<close>

lemma name_no_colon: "valid_name s \<Longrightarrow> CHR '':'' \<notin> set s"
  by (rule valid_name_no) (simp_all add: code_def)

lemma name_from_str_no_colon:
  assumes "name_from_str text = Inr n"
  shows "CHR '':'' \<notin> set text"
proof
  assume "CHR '':'' \<in> set text"
  then have "ascii_lower (CHR '':'') \<in> set (ascii_lowercase text)" by (simp add: ascii_lowercase_def)
  then have "CHR '':'' \<in> set (ascii_lowercase text)" by (metis ascii_lower_colon)
  then show False using assms by (auto simp: name_from_str_iff dest!: name_no_colon split: if_splits)
qed

lemma ref_from_str_no_colon:
  assumes "ref_from_str text = Inr r"
  shows "CHR '':'' \<notin> set text"
proof (cases "split_once CHR ''/'' text")
  case None
  then show ?thesis using assms
    by (auto simp: ref_from_str_def petname_from_str_def bindR_Inr_iff dest: name_from_str_no_colon)
next
  case (Some ab)
  then obtain a b where ab: "ab = (a, b)" "text = a @ CHR ''/'' # b"
    by (cases ab) (auto simp: split_once_Some)
  then show ?thesis using assms Some
    by (auto simp: ref_from_str_def petname_from_str_def label_from_str_def bindR_Inr_iff
        dest: name_from_str_no_colon)
qed

lemma root_mark_colon: "root_is_prefixed text \<Longrightarrow> CHR '':'' \<in> set text"
  using marked_colon(2) trim_start_sub [of "text"] by (auto simp: root_is_prefixed_def)

lemma root_text_no_name: "root_is_prefixed text \<Longrightarrow> ref_from_str text \<noteq> Inr r"
  using root_mark_colon ref_from_str_no_colon by blast

text \<open>What a text is, read off its form.\<close>

lemma peer_from_str_kind:
  assumes "peer_from_str E K opens home text = Inr p"
  shows "case p of
      PCapability l (Some path) \<Rightarrow> is_path text
    | PCapability l None \<Rightarrow> \<not> is_path text \<and> link_is_prefixed text
    | PRoot r \<Rightarrow> \<not> is_path text \<and> \<not> link_is_prefixed text \<and> root_is_prefixed text
    | _ \<Rightarrow> \<not> is_path text \<and> \<not> link_is_prefixed text \<and> \<not> root_is_prefixed text"
  using assms root_text_no_name [of "text"]
  by (auto simp: peer_from_str_def read_file_def bindR_Inr_iff map_err_Inr_iff
      split: if_splits sum.splits root_key_error.splits option.splits)

section \<open>Shown peers read back\<close>

text \<open>bifrost shows a key as lower-case base32, and reads back what it shows.\<close>

definition key_shows :: "key_text \<Rightarrow> node_id \<Rightarrow> bool" where
  "key_shows K n \<longleftrightarrow>
     kt_parse K (kt_show K n) = KeyOk n \<and> kt_show K n \<noteq> [] \<and>
     (\<forall>c \<in> set (kt_show K n). is_ascii_lower c \<or> is_ascii_digit c)"

lemma key_char: "is_ascii_lower c \<or> is_ascii_digit c \<Longrightarrow> name_char c \<and> c \<noteq> CHR ''-''"
  by (auto simp: name_char_def ascii_defs dash_code)

lemma trim_end_sub: "set (trim_end s) \<subseteq> set s"
proof (induction s rule: trim_end.induct)
  case (1 s)
  then show ?case
    by (subst trim_end.simps) (auto simp: strip_back_def split: option.splits dest!: in_set_takeD)
qed

lemma trim_sub: "set (trim s) \<subseteq> set s"
  using trim_end_sub trim_start_sub unfolding trim_def by blast

lemma no_colon_unmarked:
  assumes "CHR '':'' \<notin> set t"
  shows "\<not> link_is_prefixed t" "\<not> root_is_prefixed t"
proof -
  have "CHR '':'' \<notin> set (trim t)" "CHR '':'' \<notin> set (trim_start t)"
    using assms trim_sub [of t] trim_start_sub [of t] by auto
  then show "\<not> link_is_prefixed t" "\<not> root_is_prefixed t"
    unfolding link_is_prefixed_def root_is_prefixed_def using marked_colon by fastforce+
qed

lemma not_path:
  "t = c # s \<Longrightarrow> c \<notin> {CHR ''.'', CHR ''/'', CHR ''~''} \<Longrightarrow> \<not> is_path t"
  by (auto simp: is_path_def PATH_STARTS_def strip_exact_def split: if_splits)

lemma name_char_no_path: "name_char c \<Longrightarrow> c \<notin> {CHR ''.'', CHR ''/'', CHR ''~''}"
  by (auto simp: name_char_def ascii_defs code_def)

lemma valid_name_Cons: "valid_name s \<Longrightarrow> \<exists>c r. s = c # r \<and> name_char c"
  by (cases s) (auto simp: valid_name_def)

lemma ref_show_chars:
  assumes "valid_ref r"
  shows "\<forall>c \<in> set (ref_show r). name_char c \<or> c = CHR ''/''" "\<exists>c s. ref_show r = c # s \<and> name_char c"
proof -
  have p: "valid_name (petname_str (ref_petname r))" using assms by (simp add: valid_ref_def)
  then show "\<exists>c s. ref_show r = c # s \<and> name_char c" using valid_name_Cons [OF p] by (auto simp: ref_show_def)
  show "\<forall>c \<in> set (ref_show r). name_char c \<or> c = CHR ''/''"
    using assms by (auto simp: valid_ref_def ref_show_def valid_name_def valid_label_def split: option.splits)
qed

lemma named_reads_back:
  assumes r: "valid_ref r" and k: "kt_parse K (ref_show r) = KeyNot e"
  shows "peer_from_str E K opens home (ref_show r) = Inr (PNamed r)"
proof -
  have "name_char c \<or> c = CHR ''/'' \<Longrightarrow> c \<noteq> CHR '':'' \<and> c \<noteq> CHR ''.''" for c
    by (auto simp: name_char_def ascii_defs code_def)
  then have chars: "CHR '':'' \<notin> set (ref_show r)" "CHR ''.'' \<notin> set (ref_show r)"
    using ref_show_chars(1) [OF r] by blast+
  obtain c s where "ref_show r = c # s" "name_char c" using ref_show_chars(2) [OF r] by blast
  then have "\<not> is_path (ref_show r)" by (metis not_path name_char_no_path)
  moreover have "CHR ''.'' \<notin> set (trim (ref_show r))" using chars(2) trim_sub by blast
  then have "\<not> looks_bare K (ref_show r)"
    by (simp add: looks_bare_def split_once_None [THEN iffD2])
  ultimately show ?thesis
    using no_colon_unmarked [OF chars(1)] k ref_show_parse [OF r]
    by (simp add: peer_from_str_def raw_key_def parse_key_def)
qed

lemma key_shown:
  assumes "key_shows K n"
  obtains c s where "kt_show K n = c # s" "is_ascii_lower c \<or> is_ascii_digit c"
    "is_ascii_lower (last (c # s)) \<or> is_ascii_digit (last (c # s))" "CHR '':'' \<notin> set (kt_show K n)"
proof -
  have c: "\<forall>c \<in> set (kt_show K n). is_ascii_lower c \<or> is_ascii_digit c" "kt_show K n \<noteq> []"
    using assms by (auto simp: key_shows_def)
  then obtain d s where s: "kt_show K n = d # s" by (cases "kt_show K n") auto
  have "last (d # s) \<in> set (d # s)" by (rule last_in_set) simp
  moreover have "CHR '':'' \<notin> set (kt_show K n)" using c(1) by (auto simp: ascii_defs code_def)
  ultimately show thesis using that [OF s] c(1) s by simp
qed

lemma raw_reads_back:
  assumes "key_shows K n"
  shows "peer_from_str E K opens home (kt_show K n) = Inr (PRaw n)"
proof -
  obtain c s where s: "kt_show K n = c # s" "is_ascii_lower c \<or> is_ascii_digit c" and n: "CHR '':'' \<notin> set (kt_show K n)"
    by (rule key_shown [OF assms])
  have "\<not> is_path (kt_show K n)" using not_path [OF s(1)] key_char [OF s(2)] name_char_no_path by blast
  then show ?thesis
    using no_colon_unmarked [OF n] assms by (simp add: peer_from_str_def raw_key_def parse_key_def key_shows_def)
qed

lemma marked_solid:
  assumes "s \<noteq> []" "solid (last s)" "mark = c # m" "solid c"
  shows "trim (mark @ s) = mark @ s" "trim_start (mark @ s) = mark @ s"
  using assms trim_solid [of "mark @ s"] strip_front_solid [of "mark @ s"] trim_start_stop by auto

lemma solid_key: "is_ascii_lower c \<or> is_ascii_digit c \<Longrightarrow> solid c"
  using key_char name_char_solid by blast

lemma root_reads_back:
  assumes "key_shows K (rk_key r)"
  shows "peer_from_str E K opens home (root_show K r) = Inr (PRoot r)"
    "root_from_str K (root_show K r) = Inr r"
proof -
  let ?t = "root_show K r"
  obtain c s where s: "kt_show K (rk_key r) = c # s" "is_ascii_lower c \<or> is_ascii_digit c"
    "is_ascii_lower (last (c # s)) \<or> is_ascii_digit (last (c # s))"
    by (rule key_shown [OF assms])
  have r: "?t = ''root:'' @ kt_show K (rk_key r)" by (simp add: root_show_def ROOT_PREFIX_def)
  have "solid (CHR ''r'')" by (simp add: solid_def code_def)
  then have t: "trim ?t = ?t" "trim_start ?t = ?t"
    unfolding r using s marked_solid [of "kt_show K (rk_key r)" "''root:''" "CHR ''r''" "''oot:''"]
    by (simp_all add: solid_key)
  have strip: "root_strip ?t = Some (kt_show K (rk_key r))"
    by (simp add: root_strip_def root_show_def strip_mark_same)
  show bk: "root_from_str K ?t = Inr r"
    using assms by (simp add: root_from_str_def t strip parse_key_def key_shows_def)
  have l: "\<not> link_is_prefixed ?t"
    unfolding link_is_prefixed_def t
    by (auto simp: link_strip_def LINK_PREFIX_def strip_mark_def eq_ignore_case_def r ascii_lowercase_def
        ascii_lower_def is_ascii_upper_def code_def)
  have p: "\<not> is_path ?t" by (rule not_path [of _ "CHR ''r''" "''oot:'' @ kt_show K (rk_key r)"]) (simp_all add: r)
  have i: "root_is_prefixed ?t" by (simp add: root_is_prefixed_def t strip)
  show "peer_from_str E K opens home ?t = Inr (PRoot r)"
    by (simp only: peer_from_str_def p l i bk if_True if_False sum.case)
qed

lemma link_reads_back:
  assumes "na_link (en_nauthy E) (link_str l) = Some l" "link_str l \<noteq> []" "solid (last (link_str l))"
  shows "peer_from_str E K opens home (link_show l) = Inr (PCapability l None)"
proof -
  let ?t = "link_show l"
  have r: "?t = ''swoosh:'' @ link_str l" by (simp add: link_show_def LINK_PREFIX_def)
  have "solid (CHR ''s'')" by (simp add: solid_def code_def)
  then have t: "trim ?t = ?t"
    unfolding r using assms marked_solid [of "link_str l" "''swoosh:''" "CHR ''s''" "''woosh:''"] by simp
  have strip: "link_strip ?t = Some (link_str l)"
    by (simp add: link_strip_def link_show_def strip_mark_same)
  have p: "\<not> is_path ?t" by (rule not_path [of _ "CHR ''s''" "''woosh:'' @ link_str l"]) (simp_all add: r)
  show ?thesis
    by (simp add: peer_from_str_def p link_is_prefixed_def t strip link_from_str_def assms)
qed

section \<open>One machine\<close>

lemma find_key: "find (\<lambda>(k, _). k = l) m = map_option (Pair l) (map_of m l)"
  by (induction m) auto

lemma map_of_labelled: "map_of (labelled x) l = map_option bn_node (bt_get (pn_devices x) l)"
  by (simp add: labelled_def bt_get_def map_of_map)

lemma mine_labelled: "ct_mine c = (case ct_person c ME of None \<Rightarrow> [] | Some x \<Rightarrow> labelled x)"
  by (simp add: ct_mine_def option_list_def split: option.splits)

lemma named_device_Inr:
  "named_device c p l = Inr m \<longleftrightarrow>
     (\<exists>k. book_holds c \<lparr>ref_petname = p, ref_device = Some l\<rparr> = Some k \<and> m = machine_saved c k)"
  by (auto simp: named_device_def mine_labelled ct_devices_def book_holds_def find_key map_of_labelled bind_eq_Some_conv
      split: option.splits if_splits)

lemma labelled_empty: "labelled x = [] \<longleftrightarrow> pn_devices x = []"
  by (simp add: labelled_def)

text \<open>A bare person is a machine only when theirs is the one saved.\<close>

definition only_machine :: "contacts \<Rightarrow> petname \<Rightarrow> device_label \<Rightarrow> bool" where
  "only_machine c p l \<longleftrightarrow> (\<exists>x b. ct_person c p = Some x \<and> pn_devices x = [(l, b)])"

lemma named_Inr:
  "named c r = Inr m \<longleftrightarrow>
     (\<exists>l k. book_holds c \<lparr>ref_petname = ref_petname r, ref_device = Some l\<rparr> = Some k \<and>
        (case ref_device r of
           Some d \<Rightarrow> d = l \<and> m = machine_saved c k
         | None \<Rightarrow> ref_petname r \<noteq> ME \<and> only_machine c (ref_petname r) l \<and>
             m = (machine_saved c k)\<lparr>mc_picked := Some (ref_petname r)\<rparr>))"
proof (cases "ref_device r")
  case (Some d)
  then show ?thesis by (simp add: named_def named_device_Inr)
next
  case None
  show ?thesis
  proof (cases "ref_petname r = ME \<or> ct_person c (ref_petname r) = None")
    case True
    then show ?thesis using None by (auto simp: named_def ct_devices_def book_holds_def Let_def)
  next
    case False
    then obtain x where x: "ct_person c (ref_petname r) = Some x" by auto
    have "named c r = (case labelled x of [] \<Rightarrow> Inl (NoneSaved (ref_petname r))
        | [(_, key)] \<Rightarrow> Inr ((machine_saved c key)\<lparr>mc_picked := Some (ref_petname r)\<rparr>)
        | several \<Rightarrow> Inl (Several (ref_petname r) (map fst several)))"
      using False x None by (simp add: named_def ct_devices_def Let_def)
    also have "\<dots> = Inr m \<longleftrightarrow>
        (\<exists>l b. pn_devices x = [(l, b)] \<and> m = (machine_saved c (bn_node b))\<lparr>mc_picked := Some (ref_petname r)\<rparr>)"
      by (auto simp: labelled_def split: list.splits)
    finally have n: "named c r = Inr m \<longleftrightarrow>
        (\<exists>l b. pn_devices x = [(l, b)] \<and> m = (machine_saved c (bn_node b))\<lparr>mc_picked := Some (ref_petname r)\<rparr>)" .
    have o: "only_machine c (ref_petname r) l \<longleftrightarrow> (\<exists>b. pn_devices x = [(l, b)])" for l
      by (simp add: only_machine_def x)
    have h: "book_holds c \<lparr>ref_petname = ref_petname r, ref_device = Some l\<rparr> = Some (bn_node b)"
      if "pn_devices x = [(l, b)]" for l b
      using that x by (simp add: book_holds_def bt_get_def)
    show ?thesis unfolding n o None option.case using False h by (metis option.inject)
  qed
qed

lemma saved_at_only:
  "contacts_ok c \<Longrightarrow> one_name c \<Longrightarrow> book_holds c r = Some k \<Longrightarrow> ct_saved_at c k = Some r"
  using saved_at_None [of c k] saved_at_Some [of c k] one_nameD [of c r k]
  by (cases "ct_saved_at c k") auto

lemma saved_root_iff:
  assumes "contacts_ok c"
  shows "ct_saved_root c k = None \<longleftrightarrow> (\<forall>p. book_holds c (ref_person p) \<noteq> Some k)"
proof
  assume none: "ct_saved_root c k = None"
  show "\<forall>p. book_holds c (ref_person p) \<noteq> Some k"
  proof
    fix p
    show "book_holds c (ref_person p) \<noteq> Some k"
    proof (cases "ct_person c p")
      case (Some x)
      then show ?thesis using none book_person(1) [OF assms Some]
        by (fastforce simp: ct_saved_root_def find_None_iff is_root_of_def book_holds_def ref_person_def split: option.splits)
    qed (simp add: book_holds_def ref_person_def)
  qed
next
  assume h: "\<forall>p. book_holds c (ref_person p) \<noteq> Some k"
  have "\<not> is_root_of x k" if "(p, x) \<in> set (ct_people c)" for p x
  proof -
    have "ct_person c p = Some x" using that assms by (simp add: contacts_ok_def ct_person_def flip: bt_get_entries)
    then show ?thesis using h [rule_format, of p]
      by (auto simp: is_root_of_def book_holds_def ref_person_def split: option.splits)
  qed
  then show "ct_saved_root c k = None" by (auto simp: ct_saved_root_def find_None_iff)
qed

text \<open>A machine typed by its key and by its name is the same machine, of the kind its name has.\<close>

lemma key_and_name_agree:
  assumes ok: "contacts_ok c" "one_name c"
    and h: "book_holds c \<lparr>ref_petname = p, ref_device = Some l\<rparr> = Some k" and y: "ct_yours c \<noteq> Some k"
  shows "peer_machine E c (PRaw k) = peer_machine E c (PNamed \<lparr>ref_petname = p, ref_device = Some l\<rparr>) \<and>
    peer_machine E c (PRaw k) = Inr \<lparr>mc_key = k, mc_name = Some \<lparr>ref_petname = p, ref_device = Some l\<rparr>,
      mc_kind = (if p = ME then KYours else KContact), mc_picked = None\<rparr>"
proof -
  have s: "ct_saved_at c k = Some \<lparr>ref_petname = p, ref_device = Some l\<rparr>" by (rule saved_at_only [OF ok h])
  have "ct_saved_root c k = None"
    using one_nameD [OF ok(2) h] by (auto simp: saved_root_iff [OF ok(1)] ref_person_def)
  then have "whose_of c (RootKey k) = WUnknown" using y by (simp add: whose_of_def)
  moreover have "named c \<lparr>ref_petname = p, ref_device = Some l\<rparr> = Inr (machine_saved c k)"
    using h by (simp add: named_def) (metis named_device_Inr)
  ultimately show ?thesis by (simp add: peer_machine_def machine_saved_def s Let_def)
qed

lemma machine_not_root:
  assumes ok: "contacts_ok c" "one_name c" and m: "peer_machine E c p = Inr m" and l: "self_present p = None"
  shows "\<forall>q. book_holds c (ref_person q) \<noteq> Some (mc_key m)"
proof (cases p)
  case (PNamed r)
  obtain l where h: "book_holds c \<lparr>ref_petname = ref_petname r, ref_device = Some l\<rparr> = Some (mc_key m)"
    using m by (auto simp: PNamed peer_machine_def named_Inr machine_saved_def Let_def split: option.splits)
  then show ?thesis using one_nameD [OF ok(2) h] by (auto simp: ref_person_def)
next
  case (PRaw k)
  then have "whose_of c (RootKey k) = WUnknown" "mc_key m = k"
    using m by (auto simp: peer_machine_def machine_saved_def Let_def split: whose.splits)
  then show ?thesis using saved_root_iff [OF ok(1), of k] by (auto simp: whose_of_def split: if_splits option.splits)
qed (use m l in \<open>auto simp: peer_machine_def self_present_def\<close>)

section \<open>What is learned\<close>

text \<open>An offer taken saves the root as learned from the machine asked; either answer is said once.\<close>

lemma see_root_seen:
  assumes "book_holds c \<lparr>ref_petname = p, ref_device = Some l\<rparr> \<noteq> None"
  shows "ct_seen_root (see_root p l n c) p l = Some n"
proof -
  obtain x b where "ct_person c p = Some x" "bt_get (pn_devices x) l = Some b"
    using assms by (auto simp: book_holds_def bind_eq_Some_conv)
  then show ?thesis
    by (simp add: see_root_def ct_seen_root_def insert_binding_get bt_insert_get)
qed

lemma shown_said_once:
  assumes "book_holds c \<lparr>ref_petname = ak_person (sh_asked s), ref_device = Some (ak_device (sh_asked s))\<rparr> \<noteq> None"
  shows "found_of (remember_shown s c) s = Quiet"
  using see_root_seen [OF assms] by (simp add: found_of_def remember_shown_def)

lemma signet_see_root: "ct_signet (see_root p l n c) q = ct_signet c q"
  by (auto simp: see_root_def ct_signet_def insert_binding_get bind_eq_Some_conv Let_def split: option.splits)

lemma offer_learned:
  assumes "found_of c s = Offer" "learn_shown s c = (saved, c')"
  shows "saved = Inr () \<and>
    ct_signet c' (ak_person (sh_asked s)) =
      Some \<lparr>sr_node = rk_key (sh_root s), sr_source = Learned (ak_device (sh_asked s))\<rparr> \<and>
    (\<forall>q. q \<noteq> ak_person (sh_asked s) \<longrightarrow> ct_signet c' q = ct_signet c q)"
proof -
  let ?a = "sh_asked s"
  have f: "ct_signet c (ak_person ?a) = None" "ct_saved_at c (rk_key (sh_root s)) = None"
    using assms(1) by (auto simp: found_of_def Let_def split: if_splits option.splits)
  then have "saved = Inr ()" and
    c': "c' = see_root (ak_person ?a) (ak_device ?a) (rk_key (sh_root s))
      (set_signet_binding (ak_person ?a) \<lparr>sr_node = rk_key (sh_root s), sr_source = Learned (ak_device ?a)\<rparr> c)"
    using assms(2) by (auto simp: learn_shown_def learn_def Let_def)
  moreover have "ct_signet (set_signet_binding p r c) q = (if q = p then Some r else ct_signet c q)" for p r q
    by (simp add: ct_signet_def set_signet_binding_def on_person_get)
  ultimately show ?thesis by (simp add: signet_see_root)
qed

lemma signet_set: "ct_signet (set_signet_binding p r c) = (ct_signet c)(p \<mapsto> r)"
  by (simp add: fun_eq_iff ct_signet_def set_signet_binding_def on_person_get)

lemma signet_held: "ct_signet c p = None \<longleftrightarrow> book_holds c (ref_person p) = None"
  "ct_signet c p = Some r \<Longrightarrow> book_holds c (ref_person p) = Some (sr_node r)"
  by (auto simp: ct_signet_def book_holds_def ref_person_def bind_eq_Some_conv split: Option.bind_splits)

text \<open>What a save does to the book it finds, whatever it was when the root was offered.\<close>

lemma learn_shown_learns:
  assumes "contacts_ok c" "learn_shown s c = (saved, c')"
  defines "p \<equiv> ak_person (sh_asked s)" and "l \<equiv> ak_device (sh_asked s)" and "root \<equiv> rk_key (sh_root s)"
  shows "case saved of
      Inr _ \<Rightarrow> book_holds c (ref_person p) = None \<and> root \<notin> ran (book_holds c) \<and>
        book_holds c' = (book_holds c)(ref_person p \<mapsto> root) \<and>
        ct_signet c' = (ct_signet c)(p \<mapsto> \<lparr>sr_node = root, sr_source = Learned l\<rparr>)
    | Inl why \<Rightarrow> book_holds c' = book_holds c \<and> ct_signet c' = ct_signet c \<and>
        (case why of
           TakenName held \<Rightarrow> book_holds c (ref_person p) = Some held
         | TakenKey at \<Rightarrow> book_holds c (ref_person p) = None \<and> book_holds c at = Some root)"
    (is ?case)
    and "saved = Inr () \<or> book_holds c \<lparr>ref_petname = p, ref_device = Some l\<rparr> \<noteq> None \<Longrightarrow> found_of c' s = Quiet"
proof -
  obtain c1 where l1: "learn p root l c = (saved, c1)" and c': "c' = see_root p l root c1"
    using assms(2) by (auto simp: learn_shown_def Let_def p_def l_def root_def split: prod.splits)
  have s1: "ct_signet c' = ct_signet c1" and h1: "book_holds c' = book_holds c1"
    by (simp_all add: c' fun_eq_iff signet_see_root see_root_holds)
  have root: "saved = Inr () \<Longrightarrow> ct_signet c1 = (ct_signet c)(p \<mapsto> \<lparr>sr_node = root, sr_source = Learned l\<rparr>)"
    using l1 by (auto simp: learn_def signet_set split: option.splits)
  show ?case
  proof (cases saved)
    case (Inr u)
    then show ?thesis using learn_holds [OF assms(1) l1] root by (simp add: s1 h1)
  next
    case (Inl why)
    then have "c1 = c" using l1 by (auto simp: learn_def split: option.splits)
    then show ?thesis
      using l1 Inl signet_held [of c p] saved_at_Some [OF assms(1)] by (auto simp: learn_def s1 h1 split: option.splits)
  qed
  show "found_of c' s = Quiet" if "saved = Inr () \<or> book_holds c \<lparr>ref_petname = p, ref_device = Some l\<rparr> \<noteq> None"
  proof (cases "saved = Inr ()")
    case True
    then have "ct_signet c' p = Some \<lparr>sr_node = root, sr_source = Learned l\<rparr>" using root s1 by simp
    then show ?thesis by (simp add: found_of_def Let_def p_def l_def root_def)
  next
    case False
    then have "c1 = c" using l1 by (auto simp: learn_def split: option.splits)
    then have "ct_seen_root c' p l = Some root" using that False by (simp add: c' see_root_seen)
    then show ?thesis by (simp add: found_of_def Let_def p_def l_def root_def)
  qed
qed

lemma taught_Some:
  "taught E a standing now = Some s \<longleftrightarrow> sh_asked s = a \<and> vouching E standing (ak_key a) now = Some (sh_root s)"
  by (cases s) (auto simp: taught_def)

text \<open>The file a save leaves: the book as changed, or what it was.\<close>

lemma learn_save_file:
  assumes "store_open E D B file H = Inr st" "learn_save E D B fails H s file = (res, file')"
  shows "case res of
      Inl _ \<Rightarrow> file' = file
    | Inr saved \<Rightarrow> \<exists>c' t. learn_shown s (cs_contacts st) = (saved, c') \<and> encode_book B c' = Inr t \<and> file' = Read (Contents t)"
  using assms by (auto simp: learn_save_def store_save_def bindS_def liftS_def split: prod.splits sum.splits option.splits)

section \<open>Properties\<close>

text \<open>A key's text for one key, as lower-case text.\<close>

definition example_keys :: key_text where
  "example_keys =
     \<lparr>kt_parse = (\<lambda>t. if t = ''ed01'' then KeyOk (example_node 7) else KeyNot ''not a key''),
      kt_show = (\<lambda>n. ''ed01'')\<rparr>"

lemma example_shows: "key_shows example_keys (example_node 7)"
  by (simp add: key_shows_def example_keys_def ascii_defs code_def)

text \<open>
  What swoosh shows of a peer reads back as that peer, typed where a machine goes. A root's key with its
  mark is that root, a link with its mark is that link, a bare key is that key, and a saved name is that
  name wherever it does not itself spell a key.
\<close>

theorem typed_peer_reads_back:
  assumes "key_shows K n" and "valid_ref r" "kt_parse K (ref_show r) = KeyNot e"
    and "na_link (en_nauthy E) (link_str l) = Some l" "link_str l \<noteq> []" "solid (last (link_str l))"
  shows "peer_from_str E K opens home (root_show K (RootKey n)) = Inr (PRoot (RootKey n))
    \<and> peer_from_str E K opens home (kt_show K n) = Inr (PRaw n)
    \<and> peer_from_str E K opens home (ref_show r) = Inr (PNamed r)
    \<and> peer_from_str E K opens home (link_show l) = Inr (PCapability l None)"
  using root_reads_back(1) [of K "RootKey n"] assms
  by (simp add: raw_reads_back named_reads_back link_reads_back)

theorem typed_peer_reads_back_witness:
  "peer_from_str example_env example_keys (\<lambda>_. NotRegular) None ''root:ed01'' = Inr (PRoot (RootKey (example_node 7)))
   \<and> peer_from_str example_env example_keys (\<lambda>_. NotRegular) None ''alice/laptop'' =
       Inr (PNamed \<lparr>ref_petname = example_alice, ref_device = Some example_label\<rparr>)
   \<and> peer_from_str example_env example_keys (\<lambda>_. NotRegular) None ''swoosh:abc'' = Inr (PCapability (Link ''abc'') None)"
proof -
  let ?r = "\<lparr>ref_petname = example_alice, ref_device = Some example_label\<rparr>"
  have "valid_ref ?r" using example_names by (simp add: valid_ref_def)
  moreover have r: "ref_show ?r = ''alice/laptop''" by (simp add: ref_show_def example_alice_def example_label_def)
  then have "kt_parse example_keys (ref_show ?r) = KeyNot ''not a key''" by (simp add: example_keys_def)
  moreover have "na_link (en_nauthy example_env) (link_str (Link ''abc'')) = Some (Link ''abc'')"
    by (simp add: example_env_def example_nauthy_def)
  moreover have "solid (last (link_str (Link ''abc'')))" by (simp add: solid_def code_def)
  ultimately show ?thesis
    using typed_peer_reads_back [OF example_shows, of ?r "''not a key''" example_env "Link ''abc''" "\<lambda>_. NotRegular" None] r
    by (simp add: root_show_def ROOT_PREFIX_def link_show_def LINK_PREFIX_def example_keys_def)
qed

text \<open>
  C20: One machine, however it is typed. In a well-formed book where each key has one name, a machine's key
  typed bare and the name it is saved under resolve to the same machine with the same name and kind, yours
  under \<^verbatim>\<open>me\<close> and a contact's otherwise, unless the key is your own root's.
\<close>

theorem key_and_name_resolve_alike:
  assumes "contacts_ok c" "one_name c" "ct_yours c \<noteq> Some k"
    and "book_holds c \<lparr>ref_petname = p, ref_device = Some l\<rparr> = Some k"
  shows "peer_machine E c (PRaw k) = peer_machine E c (PNamed \<lparr>ref_petname = p, ref_device = Some l\<rparr>) \<and>
    peer_machine E c (PRaw k) = Inr \<lparr>mc_key = k, mc_name = Some \<lparr>ref_petname = p, ref_device = Some l\<rparr>,
      mc_kind = (if p = ME then KYours else KContact), mc_picked = None\<rparr>"
  by (rule key_and_name_agree [OF assms(1, 2, 4, 3)])

lemma example_holds_iff:
  "book_holds example_contacts r = Some n \<longleftrightarrow>
     (r = \<lparr>ref_petname = example_alice, ref_device = Some example_label\<rparr> \<and> n = NodeId [1]) \<or>
     (r = \<lparr>ref_petname = example_alice, ref_device = None\<rparr> \<and> n = NodeId [2])"
  by (cases r) (auto simp: book_holds_def example_contacts_def ct_person_def bt_get_def bind_eq_Some_conv split: option.splits if_splits)

lemma example_one_name: "one_name example_contacts"
  by (rule one_nameI) (auto simp: example_holds_iff)

theorem key_and_name_resolve_alike_witness:
  "peer_machine example_env example_contacts (PRaw (NodeId [1])) =
     peer_machine example_env example_contacts (PNamed \<lparr>ref_petname = example_alice, ref_device = Some example_label\<rparr>)"
proof -
  have "ct_yours example_contacts \<noteq> Some (NodeId [1])" by (simp add: example_contacts_def)
  moreover have "book_holds example_contacts \<lparr>ref_petname = example_alice, ref_device = Some example_label\<rparr> = Some (NodeId [1])"
    by (simp add: example_holds_iff)
  ultimately show ?thesis
    using key_and_name_resolve_alike [OF example_contacts_ok example_one_name] by blast
qed

text \<open>
  A root never passes for a machine. In a well-formed book where each key has one name, no peer but a
  link resolves to a key the book saves as a person's root; a root typed as one is always refused; and a
  key typed bare that is your own root's is refused as yours.
\<close>

theorem root_never_a_machine:
  assumes "contacts_ok c" "one_name c"
  shows "(\<forall>p m. peer_machine E c p = Inr m \<and> self_present p = None \<longrightarrow> (\<forall>q. book_holds c (ref_person q) \<noteq> Some (mc_key m)))
    \<and> (\<forall>root. peer_machine E c (PRoot root) = Inl (RootTyped (whose_of c root)))
    \<and> (\<forall>k. ct_yours c = Some k \<longrightarrow> peer_machine E c (PRaw k) = Inl (RootTyped (WYours (yours c))))"
  using machine_not_root [OF assms] by (auto simp: peer_machine_def whose_of_def)

theorem root_never_a_machine_witness:
  "\<not> (\<exists>m. peer_machine example_env example_contacts (PRaw (NodeId [2])) = Inr m)"
proof
  assume "\<exists>m. peer_machine example_env example_contacts (PRaw (NodeId [2])) = Inr m"
  then obtain m where m: "peer_machine example_env example_contacts (PRaw (NodeId [2])) = Inr m" by blast
  then have "mc_key m = NodeId [2]" by (auto simp: peer_machine_def machine_saved_def Let_def split: whose.splits)
  moreover have "book_holds example_contacts (ref_person example_alice) = Some (NodeId [2])"
    by (simp add: example_holds_iff ref_person_def)
  moreover have "self_present (PRaw (NodeId [2])) = None" by (simp add: self_present_def)
  ultimately show False using root_never_a_machine [OF example_contacts_ok example_one_name] m by metis
qed

text \<open>A book whose person got a root between the offer and the save, and a book with nobody yet.\<close>

abbreviation example_saving :: book_text where
  "example_saving \<equiv> example_book_text\<lparr>tx_print := \<lambda>_. Some ''new''\<rparr>"

abbreviation example_unpinned :: "revocation set home" where
  "example_unpinned \<equiv> example_home\<lparr>h_root_pub := Read Missing\<rparr>"

definition example_vouched :: shown where
  "example_vouched = \<lparr>sh_asked = \<lparr>ak_person = example_alice, ak_device = example_label, ak_key = example_node 5\<rparr>,
     sh_root = RootKey (example_node 7)\<rparr>"

lemma example_taught: "taught example_names_env (sh_asked example_vouched) (Link ''abc'') 50 = Some example_vouched"
  by (simp add: taught_def vouching_def example_env_def example_node_def example_key_def example_vouched_def)

lemma example_filled:
  "store_open example_names_env example_denylist example_saving (Read (Contents ''book'')) example_unpinned =
     Inr \<lparr>cs_contacts = example_contacts, cs_list = None\<rparr>"
proof -
  have "encode_book example_book_text example_contacts = Inr ''book''"
    using encode_same_show [of example_book_text
      "\<lparr>tx_parse = \<lambda>_. None, tx_print = \<lambda>_. None, tx_show = \<lambda>NodeId b \<Rightarrow> text_of b\<rparr>" example_contacts]
    by (simp add: encode_book_def example_book_text_def)
  from decode_encode_book [OF example_prints_back example_contacts_ok this]
  have "decode_book example_names_env example_book_text ''book'' = Inr \<lparr>ct_people = ct_people example_contacts, ct_yours = None\<rparr>"
    using example_names(3) by (simp add: example_contacts_def bt_remove_def)
  then have "decode_book example_names_env example_saving ''book'' = Inr \<lparr>ct_people = ct_people example_contacts, ct_yours = None\<rparr>"
    by (simp add: decode_book_def)
  then show ?thesis
    using example_names(3)
    by (simp add: store_open_def load_signet_def Let_def derive_me_def example_contacts_def bt_remove_def)
qed

lemma example_nobody:
  "store_open example_names_env example_denylist example_saving (Read Missing) example_unpinned =
     Inr \<lparr>cs_contacts = contacts_default, cs_list = None\<rparr>"
  by (simp add: store_open_def load_signet_def Let_def derive_me_def contacts_default_def bt_remove_def)

text \<open>
  C21: A root is learned only from a machine it vouches for now, and only into an empty slot of the book as
  it stands when it is saved. The answer taught, the save takes the home's lock and reads the book again,
  which may since have changed in any way. The standing handed over verified, under the root it names, for
  the machine's own key, and had not ended. A save that fails leaves the file; one that ends writes the book
  with at most one change of a name or a root. Either the person had no root and no name held the key: then
  that root, marked with the machine, is the person's, and every other name, key and root is as it was. Or the
  slot had filled, or another name had taken the key: then it says which, and no name, key or root changes.
  A root the book still offers is saved; and the same answer is said no more once the root is saved or while
  its machine is in the book.
\<close>

theorem learned_root_vouched:
  assumes "links_canonical (en_nauthy E)"
    and "taught E a standing now = Some s" "store_open E D B file H = Inr st"
    and "learn_save E D B fails H s file = (res, file')"
  defines "p \<equiv> ak_person a" and "root \<equiv> rk_key (sh_root s)" and "held \<equiv> book_holds (cs_contacts st)"
  shows "(\<exists>key ends. en_verify_key E (ak_key a) = Some key \<and> en_member_at E standing now key (en_root E standing) \<and>
       en_expiry E standing = Some (Some ends) \<and> now < ends \<and> en_node_id E (en_root E standing) = Some root)
    \<and> (case res of
        Inl _ \<Rightarrow> file' = file
      | Inr saved \<Rightarrow> \<exists>c' t. encode_book B c' = Inr t \<and> file' = Read (Contents t) \<and>
          (case saved of
             Inr _ \<Rightarrow> held (ref_person p) = None \<and> root \<notin> ran held \<and>
               book_holds c' = held(ref_person p \<mapsto> root) \<and>
               ct_signet c' = (ct_signet (cs_contacts st))(p \<mapsto> \<lparr>sr_node = root, sr_source = Learned (ak_device a)\<rparr>)
           | Inl why \<Rightarrow> book_holds c' = held \<and> ct_signet c' = ct_signet (cs_contacts st) \<and>
               (case why of
                  TakenName other \<Rightarrow> held (ref_person p) = Some other
                | TakenKey at \<Rightarrow> held (ref_person p) = None \<and> held at = Some root)) \<and>
          (found_of (cs_contacts st) s = Offer \<longrightarrow> saved = Inr ()) \<and>
          (saved = Inr () \<or> held \<lparr>ref_petname = p, ref_device = Some (ak_device a)\<rparr> \<noteq> None \<longrightarrow> found_of c' s = Quiet))"
proof
  show "\<exists>key ends. en_verify_key E (ak_key a) = Some key \<and> en_member_at E standing now key (en_root E standing) \<and>
       en_expiry E standing = Some (Some ends) \<and> now < ends \<and> en_node_id E (en_root E standing) = Some root"
    using assms(2) by (simp add: taught_Some vouching_Some root_def)
  have ok: "contacts_ok (cs_contacts st)" by (rule opened_ok [OF assms(1, 3)])
  have a: "sh_asked s = a" using assms(2) by (simp add: taught_Some)
  show "case res of
        Inl _ \<Rightarrow> file' = file
      | Inr saved \<Rightarrow> \<exists>c' t. encode_book B c' = Inr t \<and> file' = Read (Contents t) \<and>
          (case saved of
             Inr _ \<Rightarrow> held (ref_person p) = None \<and> root \<notin> ran held \<and>
               book_holds c' = held(ref_person p \<mapsto> root) \<and>
               ct_signet c' = (ct_signet (cs_contacts st))(p \<mapsto> \<lparr>sr_node = root, sr_source = Learned (ak_device a)\<rparr>)
           | Inl why \<Rightarrow> book_holds c' = held \<and> ct_signet c' = ct_signet (cs_contacts st) \<and>
               (case why of
                  TakenName other \<Rightarrow> held (ref_person p) = Some other
                | TakenKey at \<Rightarrow> held (ref_person p) = None \<and> held at = Some root)) \<and>
          (found_of (cs_contacts st) s = Offer \<longrightarrow> saved = Inr ()) \<and>
          (saved = Inr () \<or> held \<lparr>ref_petname = p, ref_device = Some (ak_device a)\<rparr> \<noteq> None \<longrightarrow> found_of c' s = Quiet)"
  proof (cases res)
    case (Inl e)
    then show ?thesis using learn_save_file [OF assms(3, 4)] by simp
  next
    case (Inr saved)
    then obtain c' t where l: "learn_shown s (cs_contacts st) = (saved, c')"
      and t: "encode_book B c' = Inr t" "file' = Read (Contents t)"
      using learn_save_file [OF assms(3, 4)] by auto
    note k = learn_shown_learns [OF ok l, unfolded a, folded p_def root_def held_def]
    show ?thesis unfolding Inr sum.case using t k offer_learned [OF _ l] by blast
  qed
qed

theorem learned_root_vouched_witness:
  "learn_save example_names_env example_denylist example_saving None example_unpinned example_vouched (Read (Contents ''book'')) =
     (Inr (Inl (TakenName (NodeId [2]))), Read (Contents ''new'')) \<and>
   (\<exists>c t. encode_book example_saving c = Inr t \<and> book_holds c = book_holds example_contacts) \<and>
   learn_save example_names_env example_denylist example_saving None example_unpinned example_vouched (Read Missing) =
     (Inr (Inr ()), Read (Contents ''new'')) \<and>
   (\<exists>c t. encode_book example_saving c = Inr t \<and> book_holds c (ref_person example_alice) = Some (example_node 7))"
proof -
  have L: "links_canonical (en_nauthy example_names_env)" using example_canonical by (simp add: example_env_def)
  let ?f = "learn_save example_names_env example_denylist example_saving None example_unpinned example_vouched"
  have p: "encode_book example_saving c = Inr ''new''" for c by (simp add: encode_book_def)
  have s: "ct_signet example_contacts example_alice = Some \<lparr>sr_node = NodeId [2], sr_source = Learned example_label\<rparr>"
    by (simp add: ct_signet_def ct_person_def example_contacts_def bt_get_def)
  have a: "?f (Read (Contents ''book'')) = (Inr (Inl (TakenName (NodeId [2]))), Read (Contents ''new''))"
    by (simp add: learn_save_def example_filled learn_shown_def learn_def example_vouched_def s Let_def
        bindS_def liftS_def store_save_def p)
  have n: "ct_signet contacts_default example_alice = None" "ct_saved_at contacts_default (example_node 7) = None"
    by (simp_all add: ct_signet_def ct_person_def contacts_default_def bt_get_def ct_saved_at_def)
  have b: "?f (Read Missing) = (Inr (Inr ()), Read (Contents ''new''))"
    by (simp add: learn_save_def example_nobody learn_shown_def learn_def example_vouched_def n Let_def
        bindS_def liftS_def store_save_def p)
  note A = learned_root_vouched [OF L example_taught example_filled a, THEN conjunct2]
  note B = learned_root_vouched [OF L example_taught example_nobody b, THEN conjunct2]
  have "\<exists>c t. encode_book example_saving c = Inr t \<and> book_holds c = book_holds example_contacts"
    using A by auto
  moreover have "\<exists>c t. encode_book example_saving c = Inr t \<and> book_holds c (ref_person example_alice) = Some (example_node 7)"
    using B by (auto simp: example_vouched_def)
  ultimately show ?thesis using a b by blast
qed

end
