(* ===== verification/Joining.thy ===== *)
theory Joining
  imports Root_Commit
begin

text \<open>
  Joining a root and leaving it (\<^verbatim>\<open>src/joining.rs\<close>), and retiring the root kept here
  (\<^verbatim>\<open>src/root/retire.rs\<close>): the writes, one file at a time, in the order that keeps a crash readable. A
  list of file operations is run against the fate of each, so a run that stops leaves the files as a
  prefix of the list does; a crash leaves them the same way.
\<close>

section \<open>File operations\<close>

text \<open>The files of a home that \<open>home\<close> does not hold the contents of: \<^verbatim>\<open>invited-by\<close> and \<^verbatim>\<open>synced\<close>.\<close>

record 'd joined =
  jn_home :: "'d home"
  jn_invited :: text_read
  jn_synced :: bool

datatype home_file = DevicesFile | SyncedFile | ConflictFile | InvitedByFile | BadgeFile | PinFile | RootKeyFile

datatype file_op = RemoveFile home_file | WriteInvitedBy string | WriteBadge string | WritePin string

fun remove_op :: "home_file \<Rightarrow> 'd joined \<Rightarrow> 'd joined" where
  "remove_op DevicesFile p = p\<lparr>jn_home := (jn_home p)\<lparr>h_devices := NoFile\<rparr>\<rparr>"
| "remove_op SyncedFile p = p\<lparr>jn_synced := False\<rparr>"
| "remove_op ConflictFile p = p\<lparr>jn_home := (jn_home p)\<lparr>h_conflict := NoFile\<rparr>\<rparr>"
| "remove_op InvitedByFile p = p\<lparr>jn_home := (jn_home p)\<lparr>h_invited_by := False\<rparr>, jn_invited := Read Missing\<rparr>"
| "remove_op BadgeFile p = p\<lparr>jn_home := (jn_home p)\<lparr>h_key_cert := Read Missing\<rparr>\<rparr>"
| "remove_op PinFile p = p\<lparr>jn_home := (jn_home p)\<lparr>h_root_pub := Read Missing\<rparr>\<rparr>"
| "remove_op RootKeyFile p =
     p\<lparr>jn_home := (jn_home p)\<lparr>h_root_key_exists := Inr False, h_root_key := KeyNone\<rparr>\<rparr>"

fun do_op :: "file_op \<Rightarrow> 'd joined \<Rightarrow> 'd joined" where
  "do_op (RemoveFile f) p = remove_op f p"
| "do_op (WriteInvitedBy t) p =
     p\<lparr>jn_home := (jn_home p)\<lparr>h_invited_by := True\<rparr>, jn_invited := Read (Contents t)\<rparr>"
| "do_op (WriteBadge t) p = p\<lparr>jn_home := (jn_home p)\<lparr>h_key_cert := Read (Contents t)\<rparr>\<rparr>"
| "do_op (WritePin t) p = p\<lparr>jn_home := (jn_home p)\<lparr>h_root_pub := Read (Contents t)\<rparr>\<rparr>"

text \<open>
  An operation is done, or fails and changes nothing, or is done and fails after: an atomic write whose
  new name took and whose directory could not be synced.
\<close>

datatype fate = Done | NotDone string | DoneBut string

fun run_ops :: "file_op list \<Rightarrow> fate list \<Rightarrow> ('d joined, string, unit) act" where
  "run_ops [] fates p = (Inr (), p)"
| "run_ops (x # ops) [] p = run_ops ops [] (do_op x p)"
| "run_ops (x # ops) (f # fates) p =
     (case f of
        Done \<Rightarrow> run_ops ops fates (do_op x p)
      | NotDone e \<Rightarrow> (Inl e, p)
      | DoneBut e \<Rightarrow> (Inl e, do_op x p))"

section \<open>Joining\<close>

record join =
  jo_root :: node_id
  jo_standing :: link
  jo_from :: node_id
  jo_name :: device_label
  jo_pin_changes :: bool

definition same_root_write :: "link \<Rightarrow> file_op" where
  "same_root_write standing = WriteBadge (link_str standing @ [newline])"

definition write_signet :: "(node_id \<Rightarrow> string) \<Rightarrow> node_id \<Rightarrow> file_op" where
  "write_signet show_key signet = WritePin (show_key signet @ [newline])"

definition join_ops :: "(node_id \<Rightarrow> string) \<Rightarrow> join \<Rightarrow> file_op list" where
  "join_ops show_key j =
     (if jo_pin_changes j then
        [RemoveFile DevicesFile, RemoveFile SyncedFile, RemoveFile ConflictFile,
         WriteInvitedBy (show_key (jo_from j) @ [newline] @ label_str (jo_name j) @ [newline])]
      else []) @
     [same_root_write (jo_standing j)] @
     (if jo_pin_changes j then [write_signet show_key (jo_root j)] else [])"

definition join_write :: "(node_id \<Rightarrow> string) \<Rightarrow> join \<Rightarrow> fate list \<Rightarrow> ('d joined, string, unit) act" where
  "join_write show_key j fates = run_ops (join_ops show_key j) fates"

record invited_by =
  ib_from :: node_id
  ib_name :: "device_label option"

definition invited_read :: "env \<Rightarrow> 'd joined \<Rightarrow> invited_by option" where
  "invited_read E p =
     (case jn_invited p of
        Read (Contents t) \<Rightarrow>
          (case lines t of
             [] \<Rightarrow> None
           | first # rest \<Rightarrow>
               map_option (\<lambda>from.
                 \<lparr>ib_from = from,
                  ib_name = (case rest of [] \<Rightarrow> None | name # _ \<Rightarrow> ok_opt (label_from_str (trim name)))\<rparr>)
                 (en_parse_node E (trim first)))
      | _ \<Rightarrow> None)"

section \<open>Taking a renewal\<close>

text \<open>
  What nauthy's store says of a link and of a peer. It documents that a link whose root id is held is
  revoked, and that a peer is revoked exactly when its key is held.
\<close>

record revocations_read =
  rv_link :: "revocation set \<Rightarrow> link \<Rightarrow> bool"
  rv_peer :: "revocation set \<Rightarrow> verify_key \<Rightarrow> bool"

definition reads_revocations :: "env \<Rightarrow> revocations_read \<Rightarrow> bool" where
  "reads_revocations E R \<longleftrightarrow>
     (\<forall>rv l i. en_root_rid E l = Some i \<and> RevId i \<in> rv \<longrightarrow> rv_link R rv l) \<and>
     (\<forall>rv k. rv_peer R rv k \<longleftrightarrow> RevKey k \<in> rv)"

datatype renewal_error =
    RnStanding standing_error
  | RnOwnKey string
  | RnUnusableKey
  | RnRevoked revoked_error
  | RnWrite string

definition renewal_takes ::
  "env \<Rightarrow> revocations_read \<Rightarrow> systime \<Rightarrow> verify_key \<Rightarrow> verify_key \<Rightarrow> systime \<Rightarrow> revocation set \<Rightarrow>
   link \<Rightarrow> systime \<Rightarrow> bool" where
  "renewal_takes E R now own pin held rv standing til \<longleftrightarrow>
     en_member_at E standing now own pin \<and> \<not> til \<le> held \<and> \<not> (rv_link R rv standing \<or> rv_peer R rv own)"

definition take_renewal_under ::
  "env \<Rightarrow> 'd denylist_ops \<Rightarrow> revocations_read \<Rightarrow> systime \<Rightarrow> fate list \<Rightarrow> link \<Rightarrow> node_id \<Rightarrow> systime \<Rightarrow>
   ('d joined, renewal_error, systime option) act" where
  "take_renewal_under E D R now fates standing pin held p =
     (case key_stored (h_key (jn_home p)) of
        Inl e \<Rightarrow> (Inl (RnOwnKey e), p)
      | Inr None \<Rightarrow> (Inr None, p)
      | Inr (Some None) \<Rightarrow> (Inl RnUnusableKey, p)
      | Inr (Some (Some own)) \<Rightarrow>
          (case en_expiry E standing of
             Some (Some til) \<Rightarrow>
               (case (en_verify_key E own, en_verify_key E pin, revoked_open D (jn_home p)) of
                  (Some own, Some pin, Inr rv) \<Rightarrow>
                    if renewal_takes E R now own pin held rv standing til then
                      bindS (map_errS RnWrite (run_ops [same_root_write standing] fates)) (\<lambda>_.
                      liftS (Inr (Some til))) p
                    else (Inr None, p)
                | (Some _, Some _, Inl e) \<Rightarrow> (Inl (RnRevoked e), p)
                | _ \<Rightarrow> (Inl RnUnusableKey, p))
           | _ \<Rightarrow> (Inr None, p)))"

definition take_renewal ::
  "env \<Rightarrow> 'd denylist_ops \<Rightarrow> revocations_read \<Rightarrow> systime \<Rightarrow> fate list \<Rightarrow> link \<Rightarrow>
   ('d joined, renewal_error, systime option) act" where
  "take_renewal E D R now fates standing p =
     (case standing_read E D (jn_home p) of
        Inl e \<Rightarrow> (Inl (RnStanding e), p)
      | Inr (StDevice pin til) \<Rightarrow> take_renewal_under E D R now fates standing pin til p
      | Inr (HoldsRoot pin til) \<Rightarrow> take_renewal_under E D R now fates standing pin til p
      | Inr Unpinned \<Rightarrow> (Inr None, p)
      | Inr (InterruptedMint _) \<Rightarrow> (Inr None, p))"

section \<open>Leaving\<close>

definition leave_ops :: "bool \<Rightarrow> file_op list" where
  "leave_ops kept =
     map RemoveFile ([BadgeFile, SyncedFile, InvitedByFile] @
       (if \<not> kept then [DevicesFile, ConflictFile] else []) @ [PinFile])"

definition leave :: "fate list \<Rightarrow> ('d joined, string, unit) act" where
  "leave fates =
     bindS (getS (\<lambda>p. h_root_key_exists (jn_home p))) (\<lambda>kept. run_ops (leave_ops kept) fates)"

section \<open>Retiring the root kept here\<close>

text \<open>The fates of the three parts of a strip: the lists, the leave, and the root's key.\<close>

record strip_fates =
  sf_lists :: "fate list"
  sf_leave :: "fate list"
  sf_key :: "fate list"

definition strip :: "env \<Rightarrow> strip_fates \<Rightarrow> node_id \<Rightarrow> ('d joined, root_error, unit) act" where
  "strip E f root =
     bindS (getS (\<lambda>p. map_err RtStanding (read_pin E (jn_home p)))) (\<lambda>pin.
     bindS
       (if pin = None \<or> pin = Some root then
          bindS (map_errS RtIo (run_ops [RemoveFile DevicesFile, RemoveFile ConflictFile] (sf_lists f))) (\<lambda>_.
          map_errS RtIo (leave (sf_leave f)))
        else liftS (Inr ())) (\<lambda>_.
     map_errS RtIo (run_ops [RemoveFile RootKeyFile] (sf_key f))))"

definition finish_retire ::
  "env \<Rightarrow> 'd denylist_ops \<Rightarrow> strip_fates \<Rightarrow> node_id \<Rightarrow> ('d joined, root_error, unit) act" where
  "finish_retire E D f root =
     bindS (getS (\<lambda>p. map_err RtStanding (revoked_root E D (jn_home p)))) (\<lambda>found.
     if found \<noteq> Some root then liftS (Inl StandingChanged) else strip E f root)"

definition in_home :: "('d home, 'e, 'a) act \<Rightarrow> ('d joined, 'e, 'a) act" where
  "in_home m p = (case m (jn_home p) of (r, H) \<Rightarrow> (r, p\<lparr>jn_home := H\<rparr>))"

text \<open>
  \<open>shown\<close> is what presenting the root for \<open>RevokeRoot\<close> gave, before the lock; the latch is the write
  into \<^verbatim>\<open>revoked\<close>.
\<close>

definition retire ::
  "env \<Rightarrow> 'd denylist_ops \<Rightarrow> root_error + root_act \<times> string list \<Rightarrow> strip_fates \<Rightarrow> node_id \<Rightarrow>
   ('d joined, root_error, unit) act" where
  "retire E D shown f key =
     bindS (liftS shown) (\<lambda>(root, _).
     if ac_key root \<noteq> key then liftS (Inl StandingChanged)
     else
       bindS (getS (\<lambda>p. map_err RtStanding (standing_read E D (jn_home p)))) (\<lambda>st.
       if \<not> (case st of HoldsRoot pin _ \<Rightarrow> pin = key | InterruptedMint pin \<Rightarrow> pin = key | _ \<Rightarrow> False) then
         liftS (Inl StandingChanged)
       else
         bindS (liftS (ok_or RtKey (en_verify_key E key))) (\<lambda>k.
         bindS (in_home (map_errS (\<lambda>e. RtWrite ''revoked'') (revoked_add E D [RevKey k]))) (\<lambda>_.
         strip E f key))))"

section \<open>What a run of file operations leaves\<close>

definition after :: "file_op list \<Rightarrow> 'd joined \<Rightarrow> 'd joined" where
  "after ops p = fold do_op ops p"

lemma after_simps [simp]: "after [] p = p" "after (x # ops) p = after ops (do_op x p)"
  by (simp_all add: after_def)

lemma after_append: "after (xs @ ys) p = after ys (after xs p)"
  by (simp add: after_def)

lemma run_ops_prefix:
  "run_ops ops fates p = (r, q) \<Longrightarrow>
   \<exists>k \<le> length ops. q = after (take k ops) p \<and> (r = Inr () \<longrightarrow> k = length ops)"
proof (induction ops fates p rule: run_ops.induct)
  case (2 x ops p)
  then obtain k where "k \<le> length ops" "q = after (take k ops) (do_op x p)" "r = Inr () \<longrightarrow> k = length ops" by auto
  then show ?case by (intro exI [of _ "Suc k"]) simp
next
  case (3 x ops f fates p)
  show ?case
  proof (cases f)
    case Done
    with 3 obtain k where "k \<le> length ops" "q = after (take k ops) (do_op x p)" "r = Inr () \<longrightarrow> k = length ops" by auto
    then show ?thesis by (intro exI [of _ "Suc k"]) simp
  next
    case (NotDone e)
    then show ?thesis using "3.prems" by (intro exI [of _ 0]) auto
  next
    case (DoneBut e)
    then show ?thesis using "3.prems" by (intro exI [of _ 1]) auto
  qed
qed auto

lemma after_take_append: "k \<le> length xs \<Longrightarrow> after (take k (xs @ ys)) p = after (take k xs) p"
  by simp

lemma after_take_further: "after (take (length xs + k) (xs @ ys)) p = after (take k ys) (after xs p)"
  by (simp add: after_append)

lemma run_ops_ok: "run_ops ops fates p = (Inr (), q) \<Longrightarrow> q = after ops p"
  using run_ops_prefix [of ops fates p "Inr ()" q] by auto

lemma run_ops_calm: "run_ops ops [] p = (Inr (), after ops p)"
  by (induction ops arbitrary: p) simp_all

text \<open>Removing a list, \<^verbatim>\<open>synced\<close> or \<^verbatim>\<open>invited-by\<close> leaves a standing as it reads.\<close>

fun beside_standing :: "file_op \<Rightarrow> bool" where
  "beside_standing (RemoveFile f) = (f \<in> {DevicesFile, SyncedFile, ConflictFile, InvitedByFile})"
| "beside_standing (WriteInvitedBy _) = True"
| "beside_standing _ = False"

lemma standing_fields:
  assumes "h_root_pub H' = h_root_pub H" "h_key_cert H' = h_key_cert H" "h_root_key_exists H' = h_root_key_exists H"
    and "h_root_key H' = h_root_key H" "h_key H' = h_key H" "h_trust H' = h_trust H" "h_revoked H' = h_revoked H"
  shows "standing_read E D H' = standing_read E D H" "revoked_root E D H' = revoked_root E D H"
    "read_pin E H' = read_pin E H" "home_revoked D H' = home_revoked D H"
proof -
  have k: "root_key H' = root_key H" "revoked_open D H' = revoked_open D H"
    unfolding root_key_def revoked_open_def assms by (rule refl)+
  have 1: "own_key H' = own_key H" "read_pin E H' = read_pin E H" "load_badge E H' = load_badge E H"
    "held_root E rv H' = held_root E rv H" for rv
    unfolding own_key_def read_pin_def load_badge_def held_root_def assms k by (rule refl)+
  have 2: "read_badge E own p H' = read_badge E own p H" for own p unfolding read_badge_def 1 by (rule refl)
  have 3: "classify E own pin root rv H' = classify E own pin root rv H" for own pin root rv
    unfolding classify_def 1 2 by (rule refl)
  show "standing_read E D H' = standing_read E D H"
    unfolding standing_read_def read_with_own_def k 1 3 by (rule refl)
  show "revoked_root E D H' = revoked_root E D H" unfolding revoked_root_def assms k by (rule refl)
  show "read_pin E H' = read_pin E H" by (rule 1)
  show "home_revoked D H' = home_revoked D H" using assms by (simp add: home_revoked_def)
qed

lemma beside_fields:
  assumes "beside_standing x"
  shows "h_root_pub (jn_home (do_op x p)) = h_root_pub (jn_home p)"
    "h_key_cert (jn_home (do_op x p)) = h_key_cert (jn_home p)"
    "h_root_key_exists (jn_home (do_op x p)) = h_root_key_exists (jn_home p)"
    "h_root_key (jn_home (do_op x p)) = h_root_key (jn_home p)" "h_key (jn_home (do_op x p)) = h_key (jn_home p)"
    "h_trust (jn_home (do_op x p)) = h_trust (jn_home p)" "h_revoked (jn_home (do_op x p)) = h_revoked (jn_home p)"
  using assms by (cases x; auto)+

lemma beside_op:
  assumes "beside_standing x"
  shows "standing_read E D (jn_home (do_op x p)) = standing_read E D (jn_home p)"
    "revoked_root E D (jn_home (do_op x p)) = revoked_root E D (jn_home p)"
    "read_pin E (jn_home (do_op x p)) = read_pin E (jn_home p)"
    "home_revoked D (jn_home (do_op x p)) = home_revoked D (jn_home p)"
  by (rule standing_fields [OF beside_fields [OF assms]])+

lemma beside_ops:
  "\<forall>x \<in> set ops. beside_standing x \<Longrightarrow>
   standing_read E D (jn_home (after ops p)) = standing_read E D (jn_home p)"
  by (induction ops arbitrary: p) (simp_all add: beside_op)

end
