(* ===== verification/Joining_Laws.thy ===== *)
theory Joining_Laws
  imports Joining
begin

text \<open>
  What joining, leaving and retiring leave on disk, however far they got: a standing as it was, the line
  that names the verb to finish with, or the end of the act. No run reads as a standing it did not earn.
\<close>

section \<open>Joining\<close>

text \<open>What a join is given: text that reads back, and a standing of its root for this machine's key.\<close>

definition joins :: "env \<Rightarrow> (node_id \<Rightarrow> string) \<Rightarrow> join \<Rightarrow> node_id \<Rightarrow> systime \<Rightarrow> bool" where
  "joins E show_key j own til \<longleftrightarrow>
     en_parse_node E (trim (show_key (jo_root j) @ [newline])) = Some (jo_root j) \<and>
     na_link (en_nauthy E) (trim (link_str (jo_standing j) @ [newline])) = Some (jo_standing j) \<and>
     en_node_id E (en_root E (jo_standing j)) = Some (jo_root j) \<and>
     en_expiry E (jo_standing j) = Some (Some til) \<and> own \<noteq> jo_root j \<and>
     badge_ours E (Some own) (jo_root j) (jo_standing j) til"

text \<open>
  A home a join may write: its key is \<open>own\<close>, its files read, no root of its own is kept here, and the
  root joined is not revoked.
\<close>

definition may_join :: "env \<Rightarrow> 'd denylist_ops \<Rightarrow> join \<Rightarrow> node_id \<Rightarrow> 'd home \<Rightarrow> bool" where
  "may_join E D j own H \<longleftrightarrow>
     (\<exists>rv found. own_key H = Inr (Some own) \<and> revoked_open D H = Inr rv \<and> read_pin E H = Inr found \<and>
        found \<noteq> Some own \<and> held_root E rv H = Inr None \<and> \<not> st_is_revoked E rv (jo_root j))"

lemma may_join_from:
  assumes "standing_read E D H = Inr st" "own_key H = Inr (Some own)" "revoked_open D H = Inr rv"
    and "\<not> st_is_revoked E rv (jo_root j)" "st = Unpinned \<or> (\<exists>pin til. st = StDevice pin til)"
  shows "may_join E D j own H"
proof -
  have "read_with_own E D (Some own) H = Inr st" using assms(1,2) by (simp add: standing_read_def)
  then obtain rv' found root pin where r: "revoked_open D H = Inr rv'" "read_pin E H = Inr found"
    "held_root E rv' H = Inr root" "classify E (Some own) pin root rv' H = Inr st"
    "found = None \<or> found \<noteq> Some own"
    by (rule read_with_own_Inr)
  have "root = None"
    using r(4) assms(5)
    by (cases root; cases pin) (auto dest!: classify_root_pin simp: classify_only_root)
  then show ?thesis using r assms(2-4) by (auto simp: may_join_def)
qed

definition pin_now :: "env \<Rightarrow> revocation set \<Rightarrow> node_id option \<Rightarrow> node_id option" where
  "pin_now E rv found = (case found of None \<Rightarrow> None | Some k \<Rightarrow> if st_is_revoked E rv k then None else Some k)"

lemma read_no_root:
  assumes "own_key H = Inr (Some own)" "revoked_open D H = Inr rv" "read_pin E H = Inr found"
    and "found \<noteq> Some own" "held_root E rv H = Inr None"
  shows "standing_read E D H = classify E (Some own) (pin_now E rv found) None rv H"
  using assms by (cases found) (simp_all add: standing_read_def read_with_own_def pin_now_def)

definition stopped_join :: "join \<Rightarrow> node_id option \<Rightarrow> standing_error" where
  "stopped_join j pin =
     Damaged (case pin of None \<Rightarrow> StandingWithoutPin (jo_root j) | Some p \<Rightarrow> StandingFromAnotherRoot (jo_root j) p)"

lemma stopped_join_line:
  "stopped_join j pin = Damaged what \<Longrightarrow> damaged_line short what = UNFINISHED_JOIN"
  by (auto simp: stopped_join_def split: option.splits)

lemma wrote_badge:
  assumes "joins E show_key j own til"
  shows "load_badge E (H\<lparr>h_key_cert := Read (Contents (link_str (jo_standing j) @ [newline]))\<rparr>) = Inr (Some (jo_standing j))"
  using assms by (simp add: joins_def load_badge_def text_of_read_def)

lemma reads_with_badge:
  assumes "joins E show_key j own til" "may_join E D j own H" "load_badge E H = Inr (Some (jo_standing j))"
    and "revoked_open D H = Inr rv" "read_pin E H = Inr found"
  shows "standing_read E D H =
     (if pin_now E rv found = Some (jo_root j) then Inr (StDevice (jo_root j) til)
      else Inl (stopped_join j (pin_now E rv found)))"
proof -
  have r: "standing_read E D H = classify E (Some own) (pin_now E rv found) None rv H"
    using assms(2,4,5) by (intro read_no_root) (auto simp: may_join_def)
  have nr: "\<not> st_is_revoked E rv (jo_root j)" using assms(2,4) by (auto simp: may_join_def)
  show ?thesis
  proof (cases "pin_now E rv found")
    case None
    then show ?thesis using assms(1,3) nr by (simp add: r classify_def joins_def stopped_join_def)
  next
    case (Some p)
    then show ?thesis using assms(1,3) by (auto simp: r classify_def read_badge_def joins_def stopped_join_def)
  qed
qed

lemma reads_pinned:
  assumes "joins E show_key j own til" "may_join E D j own H" "load_badge E H = Inr (Some (jo_standing j))"
    and "read_pin E H = Inr (Some (jo_root j))"
  shows "standing_read E D H = Inr (StDevice (jo_root j) til)"
proof -
  obtain rv where "revoked_open D H = Inr rv" "\<not> st_is_revoked E rv (jo_root j)"
    using assms(2) by (auto simp: may_join_def)
  then show ?thesis using reads_with_badge [OF assms(1-3) _ assms(4)] by (simp add: pin_now_def)
qed

text \<open>Each step of a join leaves a home a join may write.\<close>

lemma may_join_fields:
  assumes "may_join E D j own H" "h_key H' = h_key H" "h_trust H' = h_trust H" "h_revoked H' = h_revoked H"
    and "h_root_key_exists H' = h_root_key_exists H" "h_root_key H' = h_root_key H"
    and "read_pin E H' = read_pin E H \<or> read_pin E H' = Inr (Some (jo_root j))" "own \<noteq> jo_root j"
  shows "may_join E D j own H'"
proof -
  have k: "root_key H' = root_key H" "revoked_open D H' = revoked_open D H" "own_key H' = own_key H"
    unfolding root_key_def revoked_open_def own_key_def assms by (rule refl)+
  have h: "held_root E rv H' = held_root E rv H" for rv unfolding held_root_def assms k by (rule refl)
  from assms(1) obtain rv found where *: "own_key H = Inr (Some own)" "revoked_open D H = Inr rv" "read_pin E H = Inr found"
    "found \<noteq> Some own" "held_root E rv H = Inr None" "\<not> st_is_revoked E rv (jo_root j)" by (auto simp: may_join_def)
  obtain found' where "read_pin E H' = Inr found'" "found' \<noteq> Some own"
    using assms(7,8) * by (cases "read_pin E H' = read_pin E H") auto
  then show ?thesis using * unfolding may_join_def k h by blast
qed

definition join_op :: "(node_id \<Rightarrow> string) \<Rightarrow> join \<Rightarrow> file_op \<Rightarrow> bool" where
  "join_op show_key j x \<longleftrightarrow> beside_standing x \<or> x = same_root_write (jo_standing j) \<or> x = write_signet show_key (jo_root j)"

lemma wrote_pin:
  assumes "joins E show_key j own til"
  shows "read_pin E (H\<lparr>h_root_pub := Read (Contents (show_key (jo_root j) @ [newline]))\<rparr>) = Inr (Some (jo_root j))"
  using assms by (simp add: joins_def read_pin_def text_of_read_def)

lemma may_join_op:
  assumes "joins E show_key j own til" "may_join E D j own (jn_home p)" "join_op show_key j x"
  shows "may_join E D j own (jn_home (do_op x p))"
proof (cases "beside_standing x")
  case True
  have "own \<noteq> jo_root j" using assms(1) by (simp add: joins_def)
  then show ?thesis
    by (intro may_join_fields [OF assms(2)]) (simp_all add: beside_fields [OF True] beside_op(3) [OF True])
next
  case False
  then consider "x = same_root_write (jo_standing j)" | "x = write_signet show_key (jo_root j)"
    using assms(3) by (auto simp: join_op_def)
  then show ?thesis
  proof cases
    case 1
    show ?thesis using assms(1) unfolding 1 same_root_write_def
      by (intro may_join_fields [OF assms(2)]) (simp_all add: joins_def read_pin_def)
  next
    case 2
    have "own \<noteq> jo_root j" using assms(1) by (simp add: joins_def)
    then show ?thesis unfolding 2 write_signet_def
      by (intro may_join_fields [OF assms(2)]) (simp_all add: wrote_pin [OF assms(1)])
  qed
qed

lemma may_join_ops:
  assumes "joins E show_key j own til" "may_join E D j own (jn_home p)" "\<forall>x \<in> set ops. join_op show_key j x"
  shows "may_join E D j own (jn_home (after ops p))"
  using assms(2,3) by (induction ops arbitrary: p) (simp_all add: may_join_op [OF assms(1)])

definition lists_ops :: "(node_id \<Rightarrow> string) \<Rightarrow> join \<Rightarrow> file_op list" where
  "lists_ops show_key j = [RemoveFile DevicesFile, RemoveFile SyncedFile, RemoveFile ConflictFile,
     WriteInvitedBy (show_key (jo_from j) @ [newline] @ label_str (jo_name j) @ [newline])]"

lemma join_ops_split:
  "jo_pin_changes j \<Longrightarrow>
   join_ops show_key j = lists_ops show_key j @ [same_root_write (jo_standing j), write_signet show_key (jo_root j)]"
  by (simp add: join_ops_def lists_ops_def)

lemma lists_beside: "x \<in> set (lists_ops show_key j) \<Longrightarrow> beside_standing x"
  by (auto simp: lists_ops_def)

lemma join_after_all:
  assumes "joins E show_key j own til" "may_join E D j own (jn_home p)" "jo_pin_changes j"
  shows "standing_read E D (jn_home (after (join_ops show_key j) p)) = Inr (StDevice (jo_root j) til)"
proof -
  let ?q = "after (join_ops show_key j) p"
  have q: "jn_home ?q = (jn_home (after (lists_ops show_key j) p))
      \<lparr>h_key_cert := Read (Contents (link_str (jo_standing j) @ [newline])),
       h_root_pub := Read (Contents (show_key (jo_root j) @ [newline]))\<rparr>"
    by (simp add: join_ops_split [OF assms(3)] after_append same_root_write_def write_signet_def)
  have "may_join E D j own (jn_home ?q)"
    by (rule may_join_ops [OF assms(1,2)]) (auto simp: join_ops_split [OF assms(3)] join_op_def dest: lists_beside)
  moreover have "load_badge E (jn_home ?q) = Inr (Some (jo_standing j))"
    using assms(1) by (simp add: q joins_def load_badge_def text_of_read_def)
  moreover have "read_pin E (jn_home ?q) = Inr (Some (jo_root j))"
    using assms(1) by (simp add: q joins_def read_pin_def text_of_read_def)
  ultimately show ?thesis by (rule reads_pinned [OF assms(1)])
qed

lemma join_part:
  assumes "joins E show_key j own til" "may_join E D j own (jn_home p)" "jo_pin_changes j"
    and "q = after (take k (join_ops show_key j)) p"
  shows "may_join E D j own (jn_home q) \<and>
    (standing_read E D (jn_home q) = standing_read E D (jn_home p) \<or>
     (\<exists>pin. standing_read E D (jn_home q) = Inl (stopped_join j pin)) \<or>
     standing_read E D (jn_home q) = Inr (StDevice (jo_root j) til))"
proof -
  let ?l = "lists_ops show_key j" and ?b = "same_root_write (jo_standing j)" and ?w = "write_signet show_key (jo_root j)"
  have m: "may_join E D j own (jn_home (after ops p))" if "set ops \<subseteq> set (join_ops show_key j)" for ops
    using that by (intro may_join_ops [OF assms(1,2)])
      (auto simp: join_ops_split [OF assms(3)] join_op_def dest: lists_beside)
  have len: "length ?l = 4" by (simp add: lists_ops_def)
  consider "k \<le> 4" | "k = 5" | "k \<ge> 6" by linarith
  then show ?thesis
  proof cases
    case 1
    then have t: "take k (join_ops show_key j) = take k ?l" by (simp add: join_ops_split [OF assms(3)] len)
    have "standing_read E D (jn_home q) = standing_read E D (jn_home p)"
      unfolding assms(4) t by (rule beside_ops) (auto dest: in_set_takeD lists_beside)
    then show ?thesis using m [of "take k ?l"] t assms(4) by (auto dest: in_set_takeD simp: join_ops_split [OF assms(3)])
  next
    case 2
    have t: "take k (join_ops show_key j) = ?l @ [?b]" unfolding 2 join_ops_split [OF assms(3)] by (simp add: len)
    have mq: "may_join E D j own (jn_home q)" unfolding assms(4) t
      by (rule m) (auto simp: join_ops_split [OF assms(3)])
    then obtain rv found where *: "revoked_open D (jn_home q) = Inr rv" "read_pin E (jn_home q) = Inr found"
      by (auto simp: may_join_def)
    have "load_badge E (jn_home q) = Inr (Some (jo_standing j))"
      using assms(1) unfolding assms(4) t by (simp add: after_append same_root_write_def wrote_badge)
    from reads_with_badge [OF assms(1) mq this *] show ?thesis using mq by (auto split: if_splits)
  next
    case 3
    have t: "take k (join_ops show_key j) = join_ops show_key j"
      using 3 by (simp add: join_ops_split [OF assms(3)] len)
    show ?thesis using join_after_all [OF assms(1-3)] m [of "join_ops show_key j"] unfolding assms(4) t by auto
  qed
qed

lemma do_op_revoked: "h_revoked (jn_home (do_op x p)) = h_revoked (jn_home p)"
proof (cases x)
  case (RemoveFile f)
  then show ?thesis by (cases f) simp_all
qed simp_all

lemma after_revoked: "h_revoked (jn_home (after ops p)) = h_revoked (jn_home p)"
  by (induction ops arbitrary: p) (simp_all add: do_op_revoked)

section \<open>Leaving\<close>

lemma removed_fields:
  assumes "f \<noteq> RootKeyFile"
  shows "h_key (jn_home (remove_op f p)) = h_key (jn_home p)"
    "h_trust (jn_home (remove_op f p)) = h_trust (jn_home p)"
    "h_revoked (jn_home (remove_op f p)) = h_revoked (jn_home p)"
    "h_root_key_exists (jn_home (remove_op f p)) = h_root_key_exists (jn_home p)"
    "h_root_key (jn_home (remove_op f p)) = h_root_key (jn_home p)"
  using assms by (cases f; simp)+

definition same_machine :: "'d home \<Rightarrow> 'd home \<Rightarrow> bool" where
  "same_machine H H' \<longleftrightarrow> h_key H' = h_key H \<and> h_trust H' = h_trust H \<and> h_revoked H' = h_revoked H \<and>
     h_root_key_exists H' = h_root_key_exists H \<and> h_root_key H' = h_root_key H"

lemma removes_same_machine:
  "\<forall>x \<in> set ops. \<exists>f. x = RemoveFile f \<and> f \<noteq> RootKeyFile \<Longrightarrow> same_machine (jn_home p) (jn_home (after ops p))"
proof (induction ops arbitrary: p)
  case (Cons x ops)
  then obtain f where "x = RemoveFile f" "f \<noteq> RootKeyFile" by auto
  then show ?case using Cons.IH [of "do_op x p"] Cons.prems by (simp add: same_machine_def removed_fields)
qed (simp add: same_machine_def)

lemma same_machine_reads:
  assumes "same_machine H H'"
  shows "own_key H' = own_key H" "revoked_open D H' = revoked_open D H" "held_root E rv H' = held_root E rv H"
    "revoked_root E D H' = revoked_root E D H" "home_revoked D H' = home_revoked D H"
proof -
  note f = assms [unfolded same_machine_def]
  have k: "root_key H' = root_key H" using f by (simp add: root_key_def)
  show o: "own_key H' = own_key H" using f by (simp add: own_key_def)
  show r: "revoked_open D H' = revoked_open D H" unfolding revoked_open_def using f by metis
  have e: "h_root_key_exists H' = h_root_key_exists H" using f by simp
  show "held_root E rv H' = held_root E rv H" unfolding held_root_def e k by (rule refl)
  show "revoked_root E D H' = revoked_root E D H" unfolding revoked_root_def e k r by (rule refl)
  show "home_revoked D H' = home_revoked D H" using f by (simp add: home_revoked_def)
qed

lemma leave_ops_removes:
  "x \<in> set (leave_ops kept) \<Longrightarrow> \<exists>f. x = RemoveFile f \<and> f \<noteq> RootKeyFile"
  by (auto simp: leave_ops_def split: if_splits)

lemma leave_ops_Cons: "leave_ops kept = RemoveFile BadgeFile # tl (leave_ops kept)"
  by (simp add: leave_ops_def)

lemma leave_part_files:
  assumes "q = after (take k (leave_ops kept)) p" "k \<le> length (leave_ops kept)"
  shows "h_key_cert (jn_home q) = (if k = 0 then h_key_cert (jn_home p) else Read Missing)"
    "h_root_pub (jn_home q) = (if k = length (leave_ops kept) then Read Missing else h_root_pub (jn_home p))"
    "kept \<Longrightarrow> h_devices (jn_home q) = h_devices (jn_home p) \<and> h_conflict (jn_home q) = h_conflict (jn_home p)"
proof -
  consider "k = 0" | "k = 1" | "k = 2" | "k = 3" | "k = 4" | "k = 5" | "k = 6"
    using assms(2) by (auto simp: leave_ops_def le_Suc_eq numeral_eq_Suc split: if_splits)
  then have "h_key_cert (jn_home q) = (if k = 0 then h_key_cert (jn_home p) else Read Missing) \<and>
    h_root_pub (jn_home q) = (if k = length (leave_ops kept) then Read Missing else h_root_pub (jn_home p)) \<and>
    (kept \<longrightarrow> h_devices (jn_home q) = h_devices (jn_home p) \<and> h_conflict (jn_home q) = h_conflict (jn_home p))"
    using assms by cases (cases kept; simp add: leave_ops_def)+
  then show "h_key_cert (jn_home q) = (if k = 0 then h_key_cert (jn_home p) else Read Missing)"
    "h_root_pub (jn_home q) = (if k = length (leave_ops kept) then Read Missing else h_root_pub (jn_home p))"
    "kept \<Longrightarrow> h_devices (jn_home q) = h_devices (jn_home p) \<and> h_conflict (jn_home q) = h_conflict (jn_home p)"
    by blast+
qed

lemma device_no_root:
  assumes "standing_read E D H = Inr (StDevice pin til)"
  obtains own rv where "own_key H = Inr own" "revoked_open D H = Inr rv" "read_pin E H = Inr (Some pin)"
    "own \<noteq> Some pin" "\<not> st_is_revoked E rv pin" "held_root E rv H = Inr None"
proof -
  obtain own where o: "own_key H = Inr own" "read_with_own E D own H = Inr (StDevice pin til)"
    using assms by (auto simp: standing_read_def bindR_Inr_iff)
  obtain rv found root p where r: "revoked_open D H = Inr rv" "read_pin E H = Inr found" "held_root E rv H = Inr root"
    "classify E own p root rv H = Inr (StDevice pin til)" "found = None \<or> found \<noteq> own"
    "p = (case found of None \<Rightarrow> None | Some k \<Rightarrow> if st_is_revoked E rv k then None else Some k)"
    using o(2) by (rule read_with_own_Inr)
  have "root = None \<and> p = Some pin"
    using r(4) by (cases root; cases p)
      (auto dest!: classify_root_pin classify_only_pin classify_neither simp: classify_only_root)
  moreover then have "found = Some pin \<and> \<not> st_is_revoked E rv pin" using r(6) by (auto split: option.splits if_splits)
  ultimately show thesis using that o(1) r by auto
qed

lemma badge_missing: "h_key_cert H = Read Missing \<Longrightarrow> load_badge E H = Inr None"
  by (simp add: load_badge_def text_of_read_def)

lemma pin_missing: "h_root_pub H = Read Missing \<Longrightarrow> read_pin E H = Inr None"
  by (simp add: read_pin_def text_of_read_def)

lemma leave_part:
  assumes "standing_read E D (jn_home p) = Inr (StDevice pin til)"
    and "q = after (take k (leave_ops kept)) p" "k \<le> length (leave_ops kept)"
  shows "standing_read E D (jn_home q) =
    (if k = 0 then Inr (StDevice pin til) else if k = length (leave_ops kept) then Inr Unpinned
     else Inl (Damaged (PinWithoutStanding pin)))"
proof (cases "k = 0")
  case True
  then show ?thesis using assms by simp
next
  case False
  have m: "same_machine (jn_home p) (jn_home q)" unfolding assms(2)
    by (rule removes_same_machine) (auto dest: in_set_takeD leave_ops_removes)
  obtain own rv where o: "own_key (jn_home p) = Inr own" "revoked_open D (jn_home p) = Inr rv"
    "read_pin E (jn_home p) = Inr (Some pin)" "own \<noteq> Some pin" "\<not> st_is_revoked E rv pin"
    "held_root E rv (jn_home p) = Inr None"
    using device_no_root [OF assms(1)] by blast
  note files = leave_part_files [OF assms(2,3)]
  have b: "load_badge E (jn_home q) = Inr None" using files(1) False by (simp add: badge_missing)
  note reads = standing_read_def read_with_own_def same_machine_reads [OF m] o(1,2,6)
  show ?thesis
  proof (cases "k = length (leave_ops kept)")
    case True
    then have "read_pin E (jn_home q) = Inr None" using files(2) by (simp add: pin_missing)
    then show ?thesis using False True b by (simp add: reads classify_def)
  next
    case n: False
    then have "read_pin E (jn_home q) = Inr (Some pin)" using files(2) o(3) by (simp add: read_pin_def)
    then show ?thesis using False n b o(4,5) by (simp add: reads classify_def read_badge_def)
  qed
qed

lemma left_reads:
  assumes "standing_read E D (jn_home p) = Inr (StDevice pin til)" "same_machine (jn_home p) (jn_home q)"
  shows "standing_read E D (jn_home (after (leave_ops kept) q)) = Inr Unpinned"
proof -
  obtain own rv where o: "own_key (jn_home p) = Inr own" "revoked_open D (jn_home p) = Inr rv"
    "held_root E rv (jn_home p) = Inr None"
    using device_no_root [OF assms(1)] by blast
  let ?q = "after (leave_ops kept) q"
  have "?q = after (take (length (leave_ops kept)) (leave_ops kept)) q" by simp
  note files = leave_part_files [OF this order.refl]
  have n: "length (leave_ops kept) \<noteq> 0" by (simp add: leave_ops_def)
  have m: "same_machine (jn_home q) (jn_home ?q)"
    by (rule removes_same_machine) (auto dest: leave_ops_removes)
  have "read_pin E (jn_home ?q) = Inr None" "load_badge E (jn_home ?q) = Inr None"
    using files(1,2) n by (auto intro: pin_missing badge_missing)
  then show ?thesis
    by (simp add: standing_read_def read_with_own_def same_machine_reads [OF m] same_machine_reads [OF assms(2)] o classify_def)
qed

lemma leave_run:
  assumes "leave fates p = (r, q)" "h_root_key_exists (jn_home p) = Inr kept"
  obtains k where "k \<le> length (leave_ops kept)" "q = after (take k (leave_ops kept)) p" "r = Inr () \<longrightarrow> k = length (leave_ops kept)"
  using assms run_ops_prefix [of "leave_ops kept" fates p r q] by (auto simp: leave_def bindS_def getS_def)

section \<open>Retiring\<close>

definition strip_ops :: "env \<Rightarrow> node_id \<Rightarrow> 'd joined \<Rightarrow> file_op list" where
  "strip_ops E root p =
     (if read_pin E (jn_home p) = Inr None \<or> read_pin E (jn_home p) = Inr (Some root)
      then [RemoveFile DevicesFile, RemoveFile ConflictFile] @
        leave_ops (h_root_key_exists (jn_home p) = Inr True) else []) @
     [RemoveFile RootKeyFile]"

lemma strip_run:
  assumes "strip E f root p = (r, q)" "h_root_key_exists (jn_home p) = Inr there"
  shows "\<exists>k \<le> length (strip_ops E root p). q = after (take k (strip_ops E root p)) p \<and>
    (r = Inr () \<longrightarrow> k = length (strip_ops E root p))"
proof (cases "read_pin E (jn_home p)")
  case (Inl e)
  then show ?thesis using assms(1) by (intro exI [of _ 0]) (auto simp: strip_def bindS_def)
next
  case (Inr pin)
  let ?L = "[RemoveFile DevicesFile, RemoveFile ConflictFile]" and ?V = "leave_ops there" and ?K = "[RemoveFile RootKeyFile]"
  show ?thesis
  proof (cases "pin = None \<or> pin = Some root")
    case False
    then have ops: "strip_ops E root p = ?K" using Inr by (simp add: strip_ops_def)
    have "map_errS RtIo (run_ops ?K (sf_key f)) p = (r, q)"
      using assms(1) False Inr by (simp add: strip_def bindS_def)
    then obtain r0 where "run_ops ?K (sf_key f) p = (r0, q)" "r = map_err RtIo r0"
      by (auto simp: map_errS_def split: prod.splits)
    then show ?thesis using run_ops_prefix [of ?K "sf_key f" p r0 q] by (auto simp: ops map_err_Inr_iff)
  next
    case True
    have ops: "strip_ops E root p = ?L @ ?V @ ?K" using True Inr assms(2) by (auto simp: strip_ops_def)
    obtain r1 q1 where 1: "run_ops ?L (sf_lists f) p = (r1, q1)" by fastforce
    obtain k1 where k1: "k1 \<le> length ?L" "q1 = after (take k1 ?L) p" "r1 = Inr () \<longrightarrow> k1 = length ?L"
      using run_ops_prefix [OF 1] by blast
    show ?thesis
    proof (cases r1)
      case (Inl e)
      then have "q = q1" "r \<noteq> Inr ()"
        using assms(1) True \<open>read_pin E (jn_home p) = Inr pin\<close> 1 by (auto simp: strip_def bindS_def map_errS_def)
      moreover have "after (take k1 (?L @ ?V @ ?K)) p = q1" using after_take_append [OF k1(1)] k1(2) by simp
      moreover have "k1 \<le> length (?L @ ?V @ ?K)" using k1(1) by simp
      ultimately show ?thesis unfolding ops by blast
    next
      case (Inr u)
      then have q1: "q1 = after ?L p" using k1 by simp
      have e1: "h_root_key_exists (jn_home q1) = Inr there" using assms(2) by (simp add: q1)
      obtain r2 q2 where 2: "leave (sf_leave f) q1 = (r2, q2)" by fastforce
      obtain k2 where k2: "k2 \<le> length ?V" "q2 = after (take k2 ?V) q1" "r2 = Inr () \<longrightarrow> k2 = length ?V"
        by (rule leave_run [OF 2 e1])
      show ?thesis
      proof (cases r2)
        case (Inl e)
        then have "q = q2" "r \<noteq> Inr ()"
          using assms(1) True \<open>read_pin E (jn_home p) = Inr pin\<close> 1 2 Inr by (auto simp: strip_def bindS_def map_errS_def)
        moreover have "after (take (length ?L + k2) (?L @ ?V @ ?K)) p = q2"
          unfolding after_take_further k2(2) q1 by (rule after_take_append [OF k2(1)])
        moreover have "length ?L + k2 \<le> length (?L @ ?V @ ?K)" using k2(1) by simp
        ultimately show ?thesis unfolding ops by blast
      next
        case u2: (Inr u)
        then have q2: "q2 = after (?L @ ?V) p" using k2 q1 by (simp add: after_append)
        have "map_errS RtIo (run_ops ?K (sf_key f)) q2 = (r, q)"
          using assms(1) True \<open>read_pin E (jn_home p) = Inr pin\<close> 1 2 Inr u2
          by (auto simp: strip_def bindS_def map_errS_def)
        then obtain r3 where 3: "run_ops ?K (sf_key f) q2 = (r3, q)" "r = map_err RtIo r3"
          by (auto simp: map_errS_def split: prod.splits)
        obtain k3 where "k3 \<le> length ?K" "q = after (take k3 ?K) q2" "r3 = Inr () \<longrightarrow> k3 = length ?K"
          using run_ops_prefix [OF 3(1)] by blast
        note k3 = this
        have "after (take (length (?L @ ?V) + k3) ((?L @ ?V) @ ?K)) p = q"
          unfolding after_take_further k3(2) q2 by (rule refl)
        moreover have "length (?L @ ?V) + k3 \<le> length ((?L @ ?V) @ ?K)" using k3(1) by simp
        moreover have "r = Inr () \<longrightarrow> length (?L @ ?V) + k3 = length ((?L @ ?V) @ ?K)"
          using k3(3) 3(2) by (auto simp: map_err_Inr_iff)
        ultimately show ?thesis unfolding ops append_assoc [symmetric] by blast
      qed
    qed
  qed
qed

lemma strip_ops_removes:
  "x \<in> set (butlast (strip_ops E root p)) \<Longrightarrow> \<exists>f. x = RemoveFile f \<and> f \<noteq> RootKeyFile"
  by (auto simp: strip_ops_def butlast_append dest: leave_ops_removes split: if_splits)

lemma strip_ops_snoc: "strip_ops E root p = butlast (strip_ops E root p) @ [RemoveFile RootKeyFile]"
  by (simp add: strip_ops_def butlast_append)

text \<open>Stopped before its last step a strip leaves the machine as it was; done, the root's key is gone.\<close>

lemma strip_part:
  assumes "strip E f root p = (r, q)" "h_root_key_exists (jn_home p) = Inr there"
  shows "same_machine (jn_home p) (jn_home q) \<and> r \<noteq> Inr () \<or>
    h_root_key_exists (jn_home q) = Inr False \<and> h_revoked (jn_home q) = h_revoked (jn_home p) \<and>
    h_trust (jn_home q) = h_trust (jn_home p) \<and>
    (read_pin E (jn_home p) = Inr None \<or> read_pin E (jn_home p) = Inr (Some root) \<longrightarrow>
       read_pin E (jn_home q) = Inr None \<and> load_badge E (jn_home q) = Inr None \<and> h_devices (jn_home q) = NoFile)"
proof -
  define b where "b = butlast (strip_ops E root p)"
  have o: "strip_ops E root p = b @ [RemoveFile RootKeyFile]" unfolding b_def by (rule strip_ops_snoc)
  have rm: "\<exists>f. x = RemoveFile f \<and> f \<noteq> RootKeyFile" if "x \<in> set b" for x
    using that unfolding b_def by (rule strip_ops_removes)
  obtain k where k: "k \<le> length (strip_ops E root p)" "q = after (take k (strip_ops E root p)) p"
    "r = Inr () \<longrightarrow> k = length (strip_ops E root p)"
    using strip_run [OF assms] by blast
  show ?thesis
  proof (cases "k = Suc (length b)")
    case False
    then have "q = after (take k b) p" using k(1,2) by (simp add: o)
    then have "same_machine (jn_home p) (jn_home q)"
      using removes_same_machine [of "take k b" p] by (auto dest: in_set_takeD rm)
    then show ?thesis using False k(3) by (simp add: o)
  next
    case True
    let ?q = "after b p"
    have q: "q = remove_op RootKeyFile ?q" using k(2) True by (simp add: o after_append)
    have m: "same_machine (jn_home p) (jn_home ?q)" by (rule removes_same_machine) (auto dest: rm)
    have "read_pin E (jn_home ?q) = Inr None \<and> load_badge E (jn_home ?q) = Inr None \<and> h_devices (jn_home ?q) = NoFile"
      if a: "read_pin E (jn_home p) = Inr None \<or> read_pin E (jn_home p) = Inr (Some root)"
    proof -
      have "?q = after (leave_ops (h_root_key_exists (jn_home p) = Inr True))
          (after [RemoveFile DevicesFile, RemoveFile ConflictFile] p)"
        using a by (auto simp: b_def strip_ops_def butlast_append after_append)
      then show ?thesis
        by (cases "h_root_key_exists (jn_home p) = Inr True")
          (simp_all add: leave_ops_def badge_missing pin_missing)
    qed
    then show ?thesis using m unfolding q by (simp add: same_machine_def read_pin_def load_badge_def)
  qed
qed

lemma strip_calm:
  assumes "h_root_key_exists (jn_home p) = Inr there" "read_pin E (jn_home p) = Inr pin"
  shows "fst (strip E \<lparr>sf_lists = [], sf_leave = [], sf_key = []\<rparr> root p) = Inr ()"
  using assms by (auto simp: strip_def bindS_def map_errS_def run_ops_calm leave_def map_err_def)

lemma root_read_here:
  assumes "standing_read E D H = Inr st" "st = HoldsRoot key til \<or> st = InterruptedMint key"
  shows "h_root_key_exists H = Inr True" "root_key H = Inr key"
proof -
  obtain own where "read_with_own E D own H = Inr st"
    using assms(1) by (auto simp: standing_read_def bindR_Inr_iff)
  then obtain rv found root pin where h: "held_root E rv H = Inr root" "classify E own pin root rv H = Inr st"
    by (rule read_with_own_Inr)
  then have "root = Some key"
    using assms(2) classify_only_pin [of E own _ rv H st] classify_neither [of E own rv H st]
    by (cases root; cases pin) (auto dest!: classify_root_pin simp: classify_only_root)
  then show "h_root_key_exists H = Inr True" "root_key H = Inr key"
    using h(1) by (auto simp: held_root_def bindR_Inr_iff map_err_Inr_iff split: if_splits)
qed

lemma latch_home:
  assumes "in_home (map_errS g (revoked_add E D es)) p = (Inl e, q)"
  shows "jn_home q = jn_home p"
  using assms by (auto simp: in_home_def map_errS_def revoked_add_def map_err_def split: prod.splits sum.splits if_splits)

lemma retire_latch:
  assumes "retire E D shown f key p = (r, q)" "en_verify_key E key = Some k"
  shows "(jn_home q = jn_home p \<and> r \<noteq> Inr ())
    \<or> (\<exists>p1. in_home (map_errS (\<lambda>e. RtWrite ''revoked'') (revoked_add E D [RevKey k])) p = (Inr (), p1) \<and>
         strip E f key p1 = (r, q) \<and> h_root_key_exists (jn_home p) = Inr True \<and> root_key (jn_home p) = Inr key)"
proof (cases "\<exists>a ls st. shown = Inr (a, ls) \<and> ac_key a = key \<and> standing_read E D (jn_home p) = Inr st \<and>
    ((\<exists>til. st = HoldsRoot key til) \<or> st = InterruptedMint key)")
  case False
  then have "q = p \<and> r \<noteq> Inr ()"
    using assms(1)
    by (cases shown; cases "standing_read E D (jn_home p)")
      (auto simp: retire_def bindS_def map_err_def split: if_splits standing.splits)
  then show ?thesis by simp
next
  case True
  then obtain a ls st where t: "shown = Inr (a, ls)" "ac_key a = key" "standing_read E D (jn_home p) = Inr st"
    "(\<exists>til. st = HoldsRoot key til) \<or> st = InterruptedMint key" by blast
  let ?m = "in_home (map_errS (\<lambda>e. RtWrite ''revoked'') (revoked_add E D [RevKey k]))"
  have s: "(case st of HoldsRoot pin _ \<Rightarrow> pin = key | InterruptedMint pin \<Rightarrow> pin = key | _ \<Rightarrow> False)"
    using t(4) by auto
  have b: "bindS ?m (\<lambda>_. strip E f key) p = (r, q)"
    using assms t(1-3) s by (simp add: retire_def bindS_def map_err_def ok_or_def)
  show ?thesis
  proof (cases "?m p")
    case (Pair r1 p1)
    show ?thesis
    proof (cases r1)
      case (Inl e)
      then show ?thesis using b Pair latch_home [of _ E D "[RevKey k]" p e p1] by (auto simp: bindS_def)
    next
      case (Inr u)
      then have "strip E f key p1 = (r, q)" using b Pair by (simp add: bindS_def)
      then show ?thesis using Inr Pair t(4) root_read_here [OF t(3)] by auto
    qed
  qed
qed

lemma retire_leaves:
  assumes "grow_only D" "retire E D shown f key p = (r, q)"
    and "en_verify_key E key = Some k" "own_key_of E (jn_home p) \<noteq> Some k"
  shows "(jn_home q = jn_home p \<and> r \<noteq> Inr ())
    \<or> (RevKey k \<in> home_revoked D (jn_home q)
      \<and> (\<forall>st. standing_read E D (jn_home q) = Inr st \<longrightarrow> pinned_root st \<noteq> Some key \<and> st \<noteq> InterruptedMint key)
      \<and> (h_root_key_exists (jn_home q) = Inr False \<or> r \<noteq> Inr () \<and>
          (\<forall>rv. revoked_open D (jn_home q) = Inr rv \<longrightarrow> revoked_root E D (jn_home q) = Inr (Some key))))"
proof (cases "jn_home q = jn_home p \<and> r \<noteq> Inr ()")
  case False
  then obtain p1 where p1: "in_home (map_errS (\<lambda>e. RtWrite ''revoked'') (revoked_add E D [RevKey k])) p = (Inr (), p1)"
    "strip E f key p1 = (r, q)" "h_root_key_exists (jn_home p) = Inr True" "root_key (jn_home p) = Inr key"
    using retire_latch [OF assms(2,3)] by blast
  obtain H where H: "revoked_add E D [RevKey k] (jn_home p) = (Inr (), H)" "p1 = p\<lparr>jn_home := H\<rparr>"
    using p1(1) by (auto simp: in_home_def map_errS_def map_err_Inr_iff split: prod.splits)
  obtain d where d: "H = (jn_home p)\<lparr>h_revoked := d\<rparr>" using revoked_add_others [OF H(1)] by blast
  have k: "RevKey k \<in> home_revoked D H"
    using revoked_add_exact [OF assms(1) H(1)] assms(4) by auto
  have e: "h_root_key_exists (jn_home p1) = Inr True" "root_key (jn_home p1) = Inr key"
    using p1(3,4) by (simp_all add: H(2) d root_key_def)
  note part = strip_part [OF p1(2) e(1)]
  then have "h_revoked (jn_home q) = h_revoked (jn_home p1)" by (auto simp: same_machine_def)
  then have kq: "RevKey k \<in> home_revoked D (jn_home q)" using k by (simp add: home_revoked_def H(2))
  have never: "pinned_root st \<noteq> Some key \<and> st \<noteq> InterruptedMint key" if "standing_read E D (jn_home q) = Inr st" for st
    using revoked_root_never_live [OF assms(1) that] kq assms(3) by (auto simp: st_is_revoked_def)
  have named: "revoked_root E D (jn_home q) = Inr (Some key)"
    if m: "same_machine (jn_home p1) (jn_home q)" "revoked_open D (jn_home q) = Inr rv" for rv
  proof -
    have "rv = home_revoked D (jn_home q)" by (rule revoked_open_entries [OF assms(1) m(2)])
    then show ?thesis
      using e m(2) kq assms(3) unfolding revoked_root_def
      by (simp add: m(1) [unfolded same_machine_def] root_key_def st_is_revoked_def)
  qed
  from part show ?thesis using kq never named by blast
qed blast

section \<open>Taking a renewal\<close>

lemma renewal_write:
  assumes "bindS (map_errS RnWrite (run_ops [same_root_write l] fates)) (\<lambda>_. liftS (Inr (Some til))) p = (r, q)"
    and "q \<noteq> p \<or> (\<exists>u. r = Inr (Some u))"
  shows "q = do_op (same_root_write l) p" "r = Inr (Some til) \<or> (\<exists>e. r = Inl (RnWrite e))"
proof -
  obtain r0 where r0: "run_ops [same_root_write l] fates p = (r0, q)" "r = Inr (Some til) \<or> (\<exists>e. r = Inl (RnWrite e))"
    "r0 = Inr () \<longleftrightarrow> r = Inr (Some til)"
    using assms(1) by (auto simp: bindS_def map_errS_def map_err_def split: prod.splits sum.splits)
  obtain k where "k \<le> Suc 0" "q = after (take k [same_root_write l]) p" "r0 = Inr () \<longrightarrow> k = Suc 0"
    using run_ops_prefix [OF r0(1)] by auto
  then show "q = do_op (same_root_write l) p" using assms(2) r0(2,3) by (cases k) auto
  show "r = Inr (Some til) \<or> (\<exists>e. r = Inl (RnWrite e))" by (rule r0(2))
qed

lemma renewal_under_changes:
  assumes "take_renewal_under E D R now fates l pin held p = (r, q)" "q \<noteq> p \<or> (\<exists>u. r = Inr (Some u))"
  obtains n own pk rv til where
    "own_key (jn_home p) = Inr (Some n)" "en_verify_key E n = Some own" "en_verify_key E pin = Some pk"
    "en_expiry E l = Some (Some til)" "revoked_open D (jn_home p) = Inr rv"
    "renewal_takes E R now own pk held rv l til"
    "q = do_op (same_root_write l) p" "r = Inr (Some til) \<or> (\<exists>e. r = Inl (RnWrite e))"
proof -
  obtain n where n: "key_stored (h_key (jn_home p)) = Inr (Some (Some n))"
    using assms by (auto simp: take_renewal_under_def split: sum.splits option.splits)
  obtain til where til: "en_expiry E l = Some (Some til)"
    using assms n by (auto simp: take_renewal_under_def split: option.splits)
  obtain own pk rv where o: "en_verify_key E n = Some own" "en_verify_key E pin = Some pk"
    "revoked_open D (jn_home p) = Inr rv"
    using assms n til by (auto simp: take_renewal_under_def split: option.splits sum.splits)
  have t: "renewal_takes E R now own pk held rv l til"
    using assms n til o by (auto simp: take_renewal_under_def split: if_splits)
  have "bindS (map_errS RnWrite (run_ops [same_root_write l] fates)) (\<lambda>_. liftS (Inr (Some til))) p = (r, q)"
    using assms(1) n til o t by (simp add: take_renewal_under_def)
  note w = renewal_write [OF this assms(2)]
  have "own_key (jn_home p) = Inr (Some n)" using n by (simp add: own_key_def map_err_def)
  then show thesis using that o til t w by blast
qed

lemma take_renewal_changes:
  assumes "take_renewal E D R now fates l p = (r, q)" "q \<noteq> p \<or> (\<exists>u. r = Inr (Some u))"
  obtains st n own pk rv pin til held where
    "standing_read E D (jn_home p) = Inr st" "pinned_root st = Some pin" "standing_until st = Some held"
    "own_key (jn_home p) = Inr (Some n)" "en_verify_key E n = Some own" "en_verify_key E pin = Some pk"
    "en_expiry E l = Some (Some til)" "revoked_open D (jn_home p) = Inr rv"
    "renewal_takes E R now own pk held rv l til"
    "q = do_op (same_root_write l) p" "r = Inr (Some til) \<or> (\<exists>e. r = Inl (RnWrite e))"
proof -
  obtain st where st: "standing_read E D (jn_home p) = Inr st"
    using assms by (cases "standing_read E D (jn_home p)") (auto simp: take_renewal_def)
  obtain pin held where u: "pinned_root st = Some pin" "standing_until st = Some held"
    "take_renewal_under E D R now fates l pin held p = (r, q)"
    using assms st by (cases st) (auto simp: take_renewal_def pinned_root_def standing_until_def)
  show thesis using renewal_under_changes [OF u(3) assms(2)] that [OF st u(1,2)] by metis
qed

section \<open>Properties\<close>

text \<open>
  C22: A join that stops is never a standing. However far a join to a root got, by a write that failed or a
  crash, this machine reads as what it was, or as a join to finish with \<^verbatim>\<open>swoosh join\<close>, or as the root's
  device with the joined standing: the pin decides, and it is written last. A join that returned well is
  the last of these, a stopped one is finished by running it again, and no join touches the revocations.
\<close>

theorem join_stopped_finishes:
  assumes "joins E show_key j own til" "may_join E D j own (jn_home p)" "jo_pin_changes j"
    and "join_write show_key j fates p = (r, q)"
  shows "(standing_read E D (jn_home q) = standing_read E D (jn_home p)
      \<or> (\<exists>pin. standing_read E D (jn_home q) = Inl (stopped_join j pin))
      \<or> standing_read E D (jn_home q) = Inr (StDevice (jo_root j) til))
    \<and> (r = Inr () \<longrightarrow> standing_read E D (jn_home q) = Inr (StDevice (jo_root j) til))
    \<and> (\<exists>q'. join_write show_key j [] q = (Inr (), q') \<and> standing_read E D (jn_home q') = Inr (StDevice (jo_root j) til))
    \<and> h_revoked (jn_home q) = h_revoked (jn_home p)"
proof -
  obtain k where k: "q = after (take k (join_ops show_key j)) p" "r = Inr () \<longrightarrow> k = length (join_ops show_key j)"
    using run_ops_prefix [OF assms(4) [unfolded join_write_def]] by blast
  note part = join_part [OF assms(1-3) k(1)]
  have "standing_read E D (jn_home (after (join_ops show_key j) q)) = Inr (StDevice (jo_root j) til)"
    using part by (intro join_after_all [OF assms(1) _ assms(3)]) simp
  then show ?thesis
    using part join_after_all [OF assms(1-3)] k by (auto simp: join_write_def run_ops_calm after_revoked)
qed

lemma example_badge_trims: "trim (''badge'' @ [newline]) = ''badge''" "trim (''root'' @ [newline]) = ''root''"
  by (rule trim_newline; simp add: solid_def code_def)+

definition example_join :: join where
  "example_join = \<lparr>jo_root = example_node 7, jo_standing = Link ''badge'', jo_from = example_node 6,
     jo_name = DeviceLabel ''laptop'', jo_pin_changes = True\<rparr>"

definition example_unjoined :: "revocation set joined" where
  "example_unjoined = \<lparr>jn_home = example_home\<lparr>h_root_pub := Read Missing, h_key_cert := Read Missing\<rparr>,
     jn_invited = Read Missing, jn_synced = False\<rparr>"

lemma example_joins: "joins example_env (\<lambda>_. ''root'') example_join (example_node 5) 100"
  by (simp add: joins_def example_env_def example_join_def example_nauthy_def badge_ours_def example_node_def
      example_key_def example_badge_trims [simplified])

lemma example_may_join: "may_join example_env example_denylist example_join (example_node 5) (jn_home example_unjoined)"
  by (simp add: may_join_def example_unjoined_def example_home_def own_key_def key_stored_def map_err_def revoked_open_def
      example_denylist_def read_pin_def text_of_read_def held_root_def st_is_revoked_def example_env_def
      example_join_def example_node_def)

theorem join_stopped_finishes_witness:
  "\<exists>q'. join_write (\<lambda>_. ''root'') example_join []
      (snd (join_write (\<lambda>_. ''root'') example_join [Done, Done, Done, Done, Done, NotDone ''full''] example_unjoined)) = (Inr (), q')
    \<and> standing_read example_env example_denylist (jn_home q') = Inr (StDevice (example_node 7) 100)"
  using join_stopped_finishes [OF example_joins example_may_join _ prod.collapse [symmetric]]
  by (simp add: example_join_def)

text \<open>
  A leave that stops is never a standing either, and takes nothing that stays. However far it got, a
  device reads as it did, or as a leave to finish with \<^verbatim>\<open>swoosh leave\<close>, or as no root's device; running it
  again ends it. This machine's key, its revocations and a root kept here are as they were, and with such a
  root its list and the fork beside it.
\<close>

theorem leave_stopped_finishes:
  assumes "standing_read E D (jn_home p) = Inr (StDevice pin til)" "leave fates p = (r, q)"
  shows "(standing_read E D (jn_home q) = Inr (StDevice pin til)
      \<or> standing_read E D (jn_home q) = Inl (Damaged (PinWithoutStanding pin))
      \<or> standing_read E D (jn_home q) = Inr Unpinned)
    \<and> (r = Inr () \<longrightarrow> standing_read E D (jn_home q) = Inr Unpinned)
    \<and> (\<exists>q'. leave [] q = (Inr (), q') \<and> standing_read E D (jn_home q') = Inr Unpinned)
    \<and> same_machine (jn_home p) (jn_home q)
    \<and> (h_root_key_exists (jn_home p) = Inr True \<longrightarrow>
        h_devices (jn_home q) = h_devices (jn_home p) \<and> h_conflict (jn_home q) = h_conflict (jn_home p))"
proof -
  obtain kept where e: "h_root_key_exists (jn_home p) = Inr kept"
    using assms(1) by (rule device_no_root) (auto simp: held_root_def bindR_Inr_iff map_err_Inr_iff)
  obtain k where k: "k \<le> length (leave_ops kept)" "q = after (take k (leave_ops kept)) p"
    "r = Inr () \<longrightarrow> k = length (leave_ops kept)"
    by (rule leave_run [OF assms(2) e])
  have m: "same_machine (jn_home p) (jn_home q)" unfolding k(2)
    by (rule removes_same_machine) (auto dest: in_set_takeD leave_ops_removes)
  note part = leave_part [OF assms(1) k(2,1)]
  have l: "leave [] q = (Inr (), after (leave_ops kept) q)"
    using e m by (simp add: leave_def bindS_def run_ops_calm same_machine_def)
  have "standing_read E D (jn_home (after (leave_ops kept) q)) = Inr Unpinned"
    by (rule left_reads [OF assms(1) m])
  then show ?thesis
    using part l m leave_part_files(3) [OF k(2,1)] e k(3) by (auto split: if_splits)
qed

definition example_joined :: "revocation set joined" where
  "example_joined = \<lparr>jn_home = example_home, jn_invited = Read Missing, jn_synced = True\<rparr>"

theorem leave_stopped_finishes_witness:
  "\<exists>q'. leave [] (snd (leave [Done, NotDone ''busy''] example_joined)) = (Inr (), q')
    \<and> standing_read example_env example_denylist (jn_home q') = Inr Unpinned"
  using leave_stopped_finishes [of example_env example_denylist example_joined, OF _ prod.collapse [symmetric]] example_reads
  by (simp add: example_joined_def)

text \<open>
  C23: A retired root is never live again, wherever its retirement stopped. From the latch on the root's key
  is revoked here, so no read takes it as a root this machine follows, keeps or has half made; and as long
  as its key file is there it is named as the revoked root still to finish, which finishing then removes.
  Before the latch nothing has changed.
\<close>

theorem retired_root_never_live:
  assumes "grow_only D" "retire E D shown f key p = (r, q)"
    and "en_verify_key E key = Some k" "own_key_of E (jn_home p) \<noteq> Some k"
  shows "(jn_home q = jn_home p \<and> r \<noteq> Inr ())
    \<or> (RevKey k \<in> home_revoked D (jn_home q)
      \<and> (\<forall>st. standing_read E D (jn_home q) = Inr st \<longrightarrow> pinned_root st \<noteq> Some key \<and> st \<noteq> InterruptedMint key)
      \<and> (h_root_key_exists (jn_home q) = Inr False \<or> r \<noteq> Inr () \<and>
          (\<forall>rv. revoked_open D (jn_home q) = Inr rv \<longrightarrow> revoked_root E D (jn_home q) = Inr (Some key))))"
  by (rule retire_leaves [OF assms])

theorem finish_retire_ends:
  assumes "revoked_root E D (jn_home p) = Inr (Some root)" "read_pin E (jn_home p) = Inr pin"
  shows "\<exists>q. finish_retire E D \<lparr>sf_lists = [], sf_leave = [], sf_key = []\<rparr> root p = (Inr (), q) \<and>
    h_root_key_exists (jn_home q) = Inr False \<and> revoked_root E D (jn_home q) = Inr None"
proof -
  let ?f = "\<lparr>sf_lists = [], sf_leave = [], sf_key = []\<rparr>"
  have e: "h_root_key_exists (jn_home p) = Inr True"
    using assms(1) by (auto simp: revoked_root_def bindR_Inr_iff map_err_Inr_iff split: if_splits)
  obtain q where q: "strip E ?f root p = (Inr (), q)"
    using strip_calm [OF e assms(2)] by (metis prod.collapse)
  then have "h_root_key_exists (jn_home q) = Inr False" using strip_part [OF q e] by simp
  then show ?thesis using q assms(1) by (auto simp: finish_retire_def bindS_def revoked_root_def map_err_def)
qed

definition example_keeper :: "revocation set joined" where
  "example_keeper = \<lparr>jn_home = example_home\<lparr>h_root_key_exists := Inr True, h_root_key := KeyStored (Some (example_node 7))\<rparr>,
     jn_invited = Read Missing, jn_synced = True\<rparr>"

definition example_shown :: root_act where
  "example_shown = act_new 0 (example_node 7) False None (Some (example_key 5))"

lemma example_keeps_root:
  "standing_read example_env example_denylist (jn_home example_keeper) = Inr (HoldsRoot (example_node 7) 100)"
  by (simp add: example_keeper_def standing_read_def own_key_def key_stored_def read_with_own_def revoked_open_def
      read_pin_def text_of_read_def held_root_def root_key_def classify_def read_badge_def load_badge_def badge_ours_def
      st_is_revoked_def example_env_def example_denylist_def example_home_def example_trims example_node_def
      example_key_def example_nauthy_def)

lemma example_retires:
  "fst (retire example_env example_denylist (Inr (example_shown, [])) \<lparr>sf_lists = [], sf_leave = [], sf_key = []\<rparr>
     (example_node 7) example_keeper) = Inr ()"
proof -
  have k: "en_verify_key example_env (example_node 7) = Some (example_key 7)"
    by (simp add: example_env_def example_node_def example_key_def)
  have l: "in_home (map_errS (\<lambda>e. RtWrite ''revoked'') (revoked_add example_env example_denylist [RevKey (example_key 7)]))
      example_keeper = (Inr (), example_keeper\<lparr>jn_home := (jn_home example_keeper)\<lparr>h_revoked := {RevKey (example_key 7)}\<rparr>\<rparr>)"
    by (simp add: in_home_def map_errS_def revoked_add_def keep_own_def revoked_own_key_def key_stored_def usable_own_def
        example_keeper_def example_home_def example_env_def example_node_def example_key_def example_denylist_def map_err_def)
  have s: "fst (strip example_env \<lparr>sf_lists = [], sf_leave = [], sf_key = []\<rparr> (example_node 7)
      (example_keeper\<lparr>jn_home := (jn_home example_keeper)\<lparr>h_revoked := {RevKey (example_key 7)}\<rparr>\<rparr>)) = Inr ()"
    by (rule strip_calm [where there = True and pin = "Some (example_node 7)"])
      (simp_all add: example_keeper_def example_home_def read_pin_def text_of_read_def example_trims example_env_def)
  show ?thesis
    using example_keeps_root k l s
    by (simp add: retire_def bindS_def map_err_def ok_or_def example_shown_def act_new_def)
qed

theorem retired_root_never_live_witness:
  "RevKey (example_key 7) \<in> home_revoked example_denylist
     (jn_home (snd (retire example_env example_denylist (Inr (example_shown, []))
       \<lparr>sf_lists = [], sf_leave = [], sf_key = []\<rparr> (example_node 7) example_keeper)))"
proof -
  have o: "own_key_of example_env (jn_home example_keeper) \<noteq> Some (example_key 7)"
    by (simp add: own_key_of_def key_stored_def usable_own_def example_keeper_def example_home_def example_env_def
        example_node_def example_key_def)
  have k: "en_verify_key example_env (example_node 7) = Some (example_key 7)"
    by (simp add: example_env_def example_node_def example_key_def)
  show ?thesis
    using retired_root_never_live [OF example_grow_only prod.collapse [symmetric] k o,
      of "Inr (example_shown, [])" "\<lparr>sf_lists = [], sf_leave = [], sf_key = []\<rparr>"] example_retires by simp
qed

text \<open>
  A standing fetched from the network renews this machine and nothing else. It is taken only on a
  device, when its root is the pinned one, it is a membership of this machine's own key now, it ends after
  the one held, and neither its id nor this key is revoked here; and what is written is the badge alone, so
  no fetched standing moves this machine to another root.
\<close>

theorem renewal_only_renews:
  assumes "grow_only D" "reads_revocations E R" "take_renewal E D R now fates l p = (r, q)"
    and "q \<noteq> p \<or> (\<exists>u. r = Inr (Some u))"
  shows "\<exists>st n own pk pin til held.
      standing_read E D (jn_home p) = Inr st \<and> pinned_root st = Some pin \<and> standing_until st = Some held
    \<and> own_key (jn_home p) = Inr (Some n) \<and> en_verify_key E n = Some own \<and> en_verify_key E pin = Some pk
    \<and> en_member_at E l now own pk \<and> en_expiry E l = Some (Some til) \<and> held < til
    \<and> RevKey own \<notin> home_revoked D (jn_home p)
    \<and> (\<forall>i. en_root_rid E l = Some i \<longrightarrow> RevId i \<notin> home_revoked D (jn_home p))
    \<and> q = p\<lparr>jn_home := (jn_home p)\<lparr>h_key_cert := Read (Contents (link_str l @ [newline]))\<rparr>\<rparr>
    \<and> (r = Inr (Some til) \<or> (\<exists>e. r = Inl (RnWrite e)))"
proof -
  obtain st n own pk rv pin til held where t:
    "standing_read E D (jn_home p) = Inr st" "pinned_root st = Some pin" "standing_until st = Some held"
    "own_key (jn_home p) = Inr (Some n)" "en_verify_key E n = Some own" "en_verify_key E pin = Some pk"
    "en_expiry E l = Some (Some til)" "revoked_open D (jn_home p) = Inr rv"
    "renewal_takes E R now own pk held rv l til"
    "q = do_op (same_root_write l) p" "r = Inr (Some til) \<or> (\<exists>e. r = Inl (RnWrite e))"
    by (rule take_renewal_changes [OF assms(3,4)])
  have rv: "rv = home_revoked D (jn_home p)" by (rule revoked_open_entries [OF assms(1) t(8)])
  have m: "en_member_at E l now own pk" "held < til" "\<not> rv_link R rv l" "\<not> rv_peer R rv own"
    using t(9) by (auto simp: renewal_takes_def)
  have n: "RevKey own \<notin> home_revoked D (jn_home p)"
    "\<forall>i. en_root_rid E l = Some i \<longrightarrow> RevId i \<notin> home_revoked D (jn_home p)"
    using assms(2) m(3,4) by (auto simp: reads_revocations_def rv)
  have q: "q = p\<lparr>jn_home := (jn_home p)\<lparr>h_key_cert := Read (Contents (link_str l @ [newline]))\<rparr>\<rparr>"
    using t(10) by (simp add: same_root_write_def)
  show ?thesis
    by (rule exI [of _ st], rule exI [of _ n], rule exI [of _ own], rule exI [of _ pk], rule exI [of _ pin],
        rule exI [of _ til], rule exI [of _ held], intro conjI)
      (rule t(1-7) m(1,2) n q t(11))+
qed

definition example_reading :: revocations_read where
  "example_reading = \<lparr>rv_link = (\<lambda>rv l. case en_root_rid example_env l of None \<Rightarrow> False | Some i \<Rightarrow> RevId i \<in> rv),
     rv_peer = (\<lambda>rv k. RevKey k \<in> rv)\<rparr>"

lemma example_reading_ok: "reads_revocations example_env example_reading"
  by (simp add: reads_revocations_def example_reading_def)

text \<open>The example's links all end at 100, so one that ends later is shown under a later end for \<^verbatim>\<open>renewed\<close>.\<close>

definition example_later :: env where
  "example_later = example_env\<lparr>en_expiry := (\<lambda>l. Some (Some (if l = Link ''renewed'' then 90 else 80)))\<rparr>"

lemma example_later_reading: "reads_revocations example_later example_reading"
  by (simp add: reads_revocations_def example_reading_def example_later_def)

lemma example_later_reads:
  "standing_read example_later example_denylist example_home = Inr (StDevice (example_node 7) 80)"
  by (simp add: standing_read_def own_key_def key_stored_def read_with_own_def revoked_open_def read_pin_def
      text_of_read_def held_root_def classify_def read_badge_def load_badge_def badge_ours_def st_is_revoked_def
      example_later_def example_env_def example_denylist_def example_home_def example_trims example_node_def
      example_key_def example_nauthy_def)

lemma example_takes:
  "take_renewal example_later example_denylist example_reading 85 [] (Link ''renewed'') example_joined =
     (Inr (Some 90), do_op (same_root_write (Link ''renewed'')) example_joined)"
proof -
  have s: "standing_read example_later example_denylist (jn_home example_joined) = Inr (StDevice (example_node 7) 80)"
    by (simp add: example_joined_def example_later_reads)
  have t: "renewal_takes example_later example_reading 85 (example_key 5) (example_key 7) 80 {} (Link ''renewed'') 90"
    by (simp add: renewal_takes_def example_later_def example_env_def example_reading_def)
  have e: "en_expiry example_later (Link ''renewed'') = Some (Some 90)" by (simp add: example_later_def)
  have v: "en_verify_key example_later (example_node 5) = Some (example_key 5)"
    "en_verify_key example_later (example_node 7) = Some (example_key 7)"
    by (simp_all add: example_later_def example_env_def example_node_def example_key_def)
  have k: "key_stored (h_key (jn_home example_joined)) = Inr (Some (Some (example_node 5)))"
    by (simp add: example_joined_def example_home_def key_stored_def)
  have o: "revoked_open example_denylist (jn_home example_joined) = Inr {}"
    by (simp add: example_joined_def example_home_def revoked_open_def example_denylist_def map_err_def)
  show ?thesis
    by (simp add: take_renewal_def s take_renewal_under_def e v k o t bindS_def map_errS_def run_ops_calm map_err_def)
qed

theorem renewal_only_renews_witness:
  "h_root_pub (jn_home (snd (take_renewal example_later example_denylist example_reading 85 [] (Link ''renewed'') example_joined)))
     = h_root_pub example_home"
  using renewal_only_renews [OF example_grow_only example_later_reading prod.collapse [symmetric],
      where now = 85 and fates = "[]" and l = "Link ''renewed''" and p = example_joined] example_takes
  by (auto simp: example_joined_def)

end
