(* ===== verification/Renewal.thy ===== *)
theory Renewal
  imports Rounds Joining_Laws Peers_Laws
begin

text \<open>
  The pick-up route, \<^verbatim>\<open>src/renewal.rs\<close> and \<^verbatim>\<open>src/serve/renewal.rs\<close>: what a \<^verbatim>\<open>serve\<close> hands the key the
  transport proved, the bytes of the one answer, when this machine asks, whom, and what it takes; and
  the keys the route answers at all, kept in memory and read again when a file changes.
\<close>

section \<open>What is handed out\<close>

definition HIT :: u8 where "HIT = 1"
definition MISS :: u8 where "MISS = 0"

datatype miss = MsNotADevice | MsUnreadable | MsKeyRevoked | MsNoRow | MsRowRevoked | MsIdRevoked | MsEnded

text \<open>\<open>valid_until\<close> is nauthy's effective expiry bound of a link: an error, none, or a moment.\<close>

definition live_pin :: "standing_error + standing \<Rightarrow> node_id option" where
  "live_pin st = (case st of Inr s \<Rightarrow> pinned_root s | Inl _ \<Rightarrow> None)"

definition id_revoked :: "env \<Rightarrow> revocations_read \<Rightarrow> revocation set \<Rightarrow> roster_doc \<Rightarrow> link \<Rightarrow> bool" where
  "id_revoked E R rv doc l \<longleftrightarrow> rv_link R rv l \<or>
     (case en_root_rid E l of None \<Rightarrow> False | Some i \<Rightarrow> \<exists>d \<in> set (revoked doc). rid d = i)"

definition standing_for ::
  "env \<Rightarrow> 'd denylist_ops \<Rightarrow> revocations_read \<Rightarrow> (link \<Rightarrow> systime option option) \<Rightarrow> systime \<Rightarrow> verify_key \<Rightarrow>
   'd home \<Rightarrow> miss + link" where
  "standing_for E D R valid_until now peer H =
     bindR (ok_or MsNotADevice (live_pin (standing_read E D H))) (\<lambda>pin.
     bindR (map_err (\<lambda>_. MsNotADevice) (pin_key E pin)) (\<lambda>pin.
     bindR (map_err (\<lambda>_. MsUnreadable) (revoked_open D H)) (\<lambda>rv.
     if rv_peer R rv peer then Inl MsKeyRevoked
     else
       bindR (ok_or MsNoRow (read_held E (h_devices H) pin)) (\<lambda>(doc, _).
       bindR (ok_or MsNoRow (find (\<lambda>m. m_node m = peer) (members doc))) (\<lambda>row.
       if is_revoked_key doc peer then Inl MsRowRevoked
       else if id_revoked E R rv doc (m_standing row) then Inl MsIdRevoked
       else (case valid_until (m_standing row) of
           Some (Some ends) \<Rightarrow> if now \<le> ends then Inr (m_standing row) else Inl MsEnded
         | _ \<Rightarrow> Inl MsEnded))))))"

section \<open>The answer on the wire\<close>

definition renewal_reply :: "link option \<Rightarrow> bytes" where
  "renewal_reply standing =
     (case standing of
        None \<Rightarrow> [MISS]
      | Some l \<Rightarrow>
          let text = as_bytes (link_str l) in
          if length text < 2 ^ 16 then HIT # be_bytes 2 (length text) @ text else [MISS])"

definition renewal_answer ::
  "env \<Rightarrow> 'd denylist_ops \<Rightarrow> revocations_read \<Rightarrow> (link \<Rightarrow> systime option option) \<Rightarrow> systime \<Rightarrow> verify_key \<Rightarrow>
   ('d home, string + unit) proc" where
  "renewal_answer E D R valid_until now peer =
     bindP (locally (\<lambda>H. (Inr (ok_opt (standing_for E D R valid_until now peer H)), H))) (\<lambda>standing.
     bindP (write_all id (renewal_reply standing)) (\<lambda>_.
     write_all id []))"

datatype fetch_error = FeIo string | FeProtocol | FeDial string

definition read_standing :: "env \<Rightarrow> bytes \<Rightarrow> fetch_error + link option" where
  "read_standing E b =
     bindR (ok_or FeProtocol (from_utf8 b)) (\<lambda>text.
     bindR (ok_or FeProtocol (na_link (en_nauthy E) text)) (\<lambda>l. Inr (Some l)))"

definition read_answer :: "env \<Rightarrow> ('s, fetch_error + link option) proc" where
  "read_answer E =
     bindP (read_exact FeIo 1) (\<lambda>status.
     if hd status = MISS then Ends (Inr None)
     else if hd status = HIT then
       bindP (read_exact FeIo 2) (\<lambda>len.
       if from_be len > MAX_BADGE then Ends (Inl FeProtocol)
       else bindP (read_exact FeIo (from_be len)) (\<lambda>b. Ends (read_standing E b)))
     else Ends (Inl FeProtocol))"

section \<open>When and whom this machine asks\<close>

text \<open>\<^verbatim>\<open>config::load_badge\<close>: an empty file holds no badge, and a text that is no link fails.\<close>

definition config_badge :: "env \<Rightarrow> 'd home \<Rightarrow> config_error + link option" where
  "config_badge E H =
     (case h_key_cert H of
        Read Missing \<Rightarrow> Inr None
      | Read (Unreadable e) \<Rightarrow> Inl (CfIo e)
      | NotText \<Rightarrow> Inl (CfIo ''stream did not contain valid UTF-8'')
      | Read (Contents t) \<Rightarrow>
          let badge = trim t in
          if badge = [] then Inr None
          else bindR (ok_or (CfIo ''not a usable link'') (na_link (en_nauthy E) badge)) (\<lambda>l. Inr (Some l)))"

definition is_due ::
  "env \<Rightarrow> 'd denylist_ops \<Rightarrow> revocations_read \<Rightarrow> systime \<Rightarrow> 'd home \<Rightarrow> bool" where
  "is_due E D R now H =
     (case standing_read E D H of
        Inl _ \<Rightarrow> False
      | Inr st \<Rightarrow>
          (case standing_until st of
             None \<Rightarrow> False
           | Some til \<Rightarrow>
               if til \<le> now then True
               else (case config_badge E H of
                   Inr (Some badge) \<Rightarrow>
                     (case revoked_open D H of Inr rv \<Rightarrow> rv_link R rv badge | Inl _ \<Rightarrow> False)
                 | _ \<Rightarrow> False)))"

definition own_label ::
  "env \<Rightarrow> 'd denylist_ops \<Rightarrow> book_text \<Rightarrow> text_read \<Rightarrow> 'd home \<Rightarrow> device_label option" where
  "own_label E D B file H =
     (case key_stored (h_key H) of
        Inr (Some (Some own)) \<Rightarrow>
          (case store_open E D B file H of
             Inl _ \<Rightarrow> None
           | Inr st \<Rightarrow> map_option fst (find (\<lambda>(_, key). key = own) (ct_mine (cs_contacts st))))
      | _ \<Rightarrow> None)"

definition own_name ::
  "env \<Rightarrow> 'd denylist_ops \<Rightarrow> book_text \<Rightarrow> key_text \<Rightarrow> text_read \<Rightarrow> 'd home \<Rightarrow> string" where
  "own_name E D B K file H =
     (case own_label E D B file H of
        Some label \<Rightarrow> ''me/'' @ label_str label
      | None \<Rightarrow>
          (case key_stored (h_key H) of
             Inr (Some (Some key)) \<Rightarrow> short_key K key
           | _ \<Rightarrow> ''this machine''))"

record renewed =
  rn_from :: string
  rn_name :: string
  rn_until :: systime

definition renewed_ends :: "renewed \<Rightarrow> u64" where
  "renewed_ends r = unix_now (rn_until r)"

text \<open>
  What a pick-up meets: the order \<^verbatim>\<open>me\<close> is asked in, what each ask gives within its bound, what other
  programs made of the home meanwhile, the lock, the clock and the fate of a write, and this machine's
  name at the end.
\<close>

datatype fetched = FetchHit link | FetchMiss | FetchFailed fetch_error | FetchTimedOut

record 'd pick_obs =
  pu_fetch :: "node_id \<Rightarrow> fetched"
  pu_meanwhile :: "device \<Rightarrow> 'd joined \<Rightarrow> 'd joined"
  pu_lock :: "device \<Rightarrow> string option"
  pu_now :: "device \<Rightarrow> systime"
  pu_fates :: "device \<Rightarrow> fate list"
  pu_name :: "'d joined \<Rightarrow> string"

datatype pick_error = PkDevices dial_error | PkLock string | PkRenewal renewal_error

fun pick_up_from ::
  "env \<Rightarrow> 'd denylist_ops \<Rightarrow> revocations_read \<Rightarrow> 'd pick_obs \<Rightarrow> device list \<Rightarrow>
   ('d joined, pick_error, renewed option) act" where
  "pick_up_from E D R ob [] p = (Inr None, p)"
| "pick_up_from E D R ob (d # ds) p =
     (let p = pu_meanwhile ob d p in
      case pu_fetch ob (dv_key d) of
        FetchHit l \<Rightarrow>
          (case pu_lock ob d of
             Some e \<Rightarrow> (Inl (PkLock e), p)
           | None \<Rightarrow>
               (case take_renewal E D R (pu_now ob d) (pu_fates ob d) l p of
                  (Inl e, p) \<Rightarrow> (Inl (PkRenewal e), p)
                | (Inr (Some til), p) \<Rightarrow>
                    (Inr (Some \<lparr>rn_from = dv_name d, rn_name = pu_name ob p, rn_until = til\<rparr>), p)
                | (Inr None, p) \<Rightarrow> pick_up_from E D R ob ds p))
      | _ \<Rightarrow> pick_up_from E D R ob ds p)"

definition renewal_pick_up ::
  "env \<Rightarrow> 'd denylist_ops \<Rightarrow> revocations_read \<Rightarrow> 'd pick_obs \<Rightarrow> me_book \<Rightarrow>
   ('d joined, pick_error, renewed option) act" where
  "renewal_pick_up E D R ob me =
     bindS (getS (\<lambda>p. map_err PkDevices (mine E D me (jn_home p)))) (\<lambda>ds. pick_up_from E D R ob ds)"

datatype pick_outcome = Skipped | TookRenewal renewed | Missed

definition after_round ::
  "env \<Rightarrow> 'd denylist_ops \<Rightarrow> revocations_read \<Rightarrow> systime \<Rightarrow> 'd pick_obs \<Rightarrow> me_book \<Rightarrow> (device \<times> reply) list \<Rightarrow>
   'd joined \<Rightarrow> pick_outcome \<times> 'd joined" where
  "after_round E D R now ob me replies p =
     (if \<not> refused replies \<or> \<not> is_due E D R now (jn_home p) then (Skipped, p)
      else (case renewal_pick_up E D R ob me p of
          (Inr (Some r), p) \<Rightarrow> (TookRenewal r, p)
        | (_, p) \<Rightarrow> (Missed, p)))"

section \<open>The keys the route knows\<close>

datatype 'k seen_file = FileAbsent | FileAt 'k | FileUnknown

record 'k known_rows =
  kn_seen :: "'k seen_file list option"
  kn_live :: "(verify_key \<times> u64) list"

definition knows_at :: "'k known_rows \<Rightarrow> u64 \<Rightarrow> verify_key \<Rightarrow> bool" where
  "knows_at kn now key =
     (case map_of (kn_live kn) key of None \<Rightarrow> False | Some til \<Rightarrow> now \<le> til)"

text \<open>\<^verbatim>\<open>collect()\<close> into a map: a later row for a key replaces an earlier one.\<close>

definition listed_rows :: "env \<Rightarrow> 'd denylist_ops \<Rightarrow> 'd home \<Rightarrow> (verify_key \<times> u64) list option" where
  "listed_rows E D H =
     (case standing_read E D H of
        Inl (Damaged _) \<Rightarrow> Some []
      | Inl _ \<Rightarrow> None
      | Inr st \<Rightarrow>
          (case pinned_root st of
             None \<Rightarrow> Some []
           | Some pin \<Rightarrow>
               (case pin_key E pin of
                  Inl _ \<Rightarrow> Some []
                | Inr pin \<Rightarrow>
                    (case read_held_or_error E (h_devices H) pin of
                       Inl _ \<Rightarrow> None
                     | Inr None \<Rightarrow> Some []
                     | Inr (Some (doc, _)) \<Rightarrow> Some (rev (map (\<lambda>m. (m_node m, m_until m)) (members doc)))))))"

definition known_refresh ::
  "env \<Rightarrow> 'd denylist_ops \<Rightarrow> 'k seen_file list \<times> 'd home \<Rightarrow> 'k known_rows \<Rightarrow> 'k known_rows" where
  "known_refresh E D = (\<lambda>(seen, H) kn.
     if kn_seen kn = Some seen \<and> FileUnknown \<notin> set seen then kn
     else (case listed_rows E D H of
         None \<Rightarrow> kn
       | Some listed \<Rightarrow> \<lparr>kn_seen = Some seen, kn_live = listed\<rparr>))"

definition known_default :: "'k known_rows" where
  "known_default = \<lparr>kn_seen = None, kn_live = []\<rparr>"

definition known_load ::
  "env \<Rightarrow> 'd denylist_ops \<Rightarrow> 'k seen_file list \<times> 'd home \<Rightarrow> 'k known_rows" where
  "known_load E D look = known_refresh E D look known_default"

end
