(* ===== verification/Renewal_Laws.thy ===== *)
theory Renewal_Laws
  imports Renewal Sync_Calm
begin

text \<open>
  The pick-up route: a server hands a key only its own live standing, an answer reaches the dialer whole
  and costs it a bounded read whatever the server sends, a pick-up takes only what the same-root write
  takes, and the route knows only keys some verified update listed.
\<close>

section \<open>What is handed out\<close>

lemma held_doc_ok:
  assumes "links_canonical (en_nauthy E)" "read_held E file pin = Some (doc, b)"
  shows "doc_ok (en_nauthy E) doc"
proof -
  have "fold_doc E b pin = Inr doc" using read_held_Some [OF assms(2)] by simp
  then obtain bs where "parse_canonical (en_nauthy E) bs = Inr doc"
    by (auto simp: fold_doc_Inr roster_verify_def bindR_Inr_iff map_err_Inr_iff split: if_splits)
  then show ?thesis using parse_only_canonical [OF assms(1)] by blast
qed

lemma held_row:
  assumes "links_canonical (en_nauthy E)" "read_held E file pin = Some (doc, b)" "m \<in> set (members doc)"
  shows "link_ok (en_nauthy E) (m_standing m)" "length (link_str (m_standing m)) \<le> MAX_BADGE"
    "m' \<in> set (members doc) \<Longrightarrow> m_node m' = m_node m \<Longrightarrow> m' = m"
proof -
  have d: "doc_ok (en_nauthy E) doc" by (rule held_doc_ok [OF assms(1,2)])
  then have "member_ok (en_nauthy E) m" using assms(3) by (auto simp: doc_ok_def members_ok_def)
  then show "link_ok (en_nauthy E) (m_standing m)" "length (link_str (m_standing m)) \<le> MAX_BADGE"
    by (auto simp: member_ok_def standing_ok_def)
  have "ascending mkey (members doc)" using d by (simp add: doc_ok_def members_ok_def)
  then have "inj_on mkey (set (members doc))" by (simp add: ascending_iff_sorted_distinct distinct_map)
  then show "m' \<in> set (members doc) \<Longrightarrow> m_node m' = m_node m \<Longrightarrow> m' = m"
    using assms(3) by (auto simp: inj_on_def)
qed

lemma live_pin_Some: "live_pin st = Some p \<longleftrightarrow> (\<exists>s. st = Inr s \<and> pinned_root s = Some p)"
  by (auto simp: live_pin_def split: sum.splits)

lemma standing_for_Inr:
  assumes "standing_for E D R valid_until now peer H = Inr l"
  obtains pin pk rv doc b m ends where "live_pin (standing_read E D H) = Some pin" "en_verify_key E pin = Some pk"
    "revoked_open D H = Inr rv" "\<not> rv_peer R rv peer" "read_held E (h_devices H) pk = Some (doc, b)"
    "find (\<lambda>m. m_node m = peer) (members doc) = Some m" "\<not> is_revoked_key doc peer"
    "\<not> id_revoked E R rv doc l" "valid_until l = Some (Some ends)" "now \<le> ends" "l = m_standing m"
proof -
  obtain pin where p: "live_pin (standing_read E D H) = Some pin"
    using assms by (auto simp: standing_for_def bindR_Inr_iff ok_or_Inr_iff)
  obtain pk where k: "en_verify_key E pin = Some pk"
    using assms p by (auto simp: standing_for_def bindR_Inr_iff ok_or_Inr_iff map_err_Inr_iff pin_key_def)
  obtain rv where r: "revoked_open D H = Inr rv" "\<not> rv_peer R rv peer"
    using assms p k by (auto simp: standing_for_def bindR_Inr_iff ok_or_Inr_iff map_err_Inr_iff pin_key_def split: if_splits)
  obtain doc b where h: "read_held E (h_devices H) pk = Some (doc, b)"
    using assms p k r by (auto simp: standing_for_def bindR_Inr_iff ok_or_Inr_iff map_err_Inr_iff pin_key_def)
  obtain m where m: "find (\<lambda>m. m_node m = peer) (members doc) = Some m"
    using assms p k r h by (auto simp: standing_for_def bindR_Inr_iff ok_or_Inr_iff map_err_Inr_iff pin_key_def)
  have rest: "(if is_revoked_key doc peer then Inl MsRowRevoked
       else if id_revoked E R rv doc (m_standing m) then Inl MsIdRevoked
       else (case valid_until (m_standing m) of
           Some (Some ends) \<Rightarrow> if now \<le> ends then Inr (m_standing m) else Inl MsEnded
         | _ \<Rightarrow> Inl MsEnded)) = Inr l"
    using assms p k r h m by (simp add: standing_for_def bindR_def ok_or_def map_err_def pin_key_def)
  then show thesis
    using that [OF p k r h m] by (auto split: if_splits option.splits)
qed

lemma standing_for_fits:
  assumes "links_canonical (en_nauthy E)" "standing_for E D R valid_until now peer H = Inr l"
  shows "link_ok (en_nauthy E) l" "length (link_str l) \<le> MAX_BADGE"
proof -
  obtain pk doc b m where "read_held E (h_devices H) pk = Some (doc, b)"
    "find (\<lambda>m. m_node m = peer) (members doc) = Some m" "l = m_standing m"
    using assms(2) by (rule standing_for_Inr)
  then show "link_ok (en_nauthy E) l" "length (link_str l) \<le> MAX_BADGE"
    using held_row [OF assms(1)] by (auto simp: find_Some_iff)
qed

section \<open>The answer\<close>

lemma read_standing_link: "link_ok (en_nauthy E) l \<Longrightarrow> read_standing E (as_bytes (link_str l)) = Inr (Some l)"
  using from_utf8_Some [of "as_bytes (link_str l)" "link_str l"]
  by (simp add: link_ok_def read_standing_def bindR_def ok_or_def)

lemma answer_flows:
  assumes "\<And>l. standing = Some l \<Longrightarrow> link_ok (en_nauthy E) l \<and> length (link_str l) \<le> MAX_BADGE"
    and "standing = ok_opt (standing_for E D R valid_until now peer H)"
  shows "flow\<^sup>*\<^sup>* (started (read_answer E, s) (renewal_answer E D R valid_until now peer, H))
    ((Ends (Inr standing), s), (Ends (Inr ()), H), [], [])"
proof -
  have w: "write_all id [] = bindP (write_all id []) (\<lambda>u. Ends (Inr u))" by (rule bindP_Ends_Inr [symmetric])
  have send: "flow\<^sup>*\<^sup>* (x, (renewal_answer E D R valid_until now peer, H), [], []) d"
    if "flow\<^sup>*\<^sup>* (x, (Ends (Inr ()), H), [], renewal_reply standing) d" for x d
    unfolding renewal_answer_def
    apply (rule right_seq(3), simp, fold assms(2))
    apply (rule right_seq(1))
    apply (subst w, rule right_seq(1))
    using that by simp
  show ?thesis
  proof (cases standing)
    case None
    show ?thesis unfolding started_def
      apply (rule send)
      apply (unfold read_answer_def None renewal_reply_def)
      by (simp, rule left_byte [where ret = "[]", simplified], simp)
  next
    case (Some l)
    let ?t = "as_bytes (link_str l)"
    have n: "length ?t \<le> MAX_BADGE" "length ?t < 65536" using assms(1) [OF Some] by (simp_all add: MAX_BADGE_def)
    have f: "from_be (be_bytes 2 (length ?t)) = length ?t" using n(2) by (simp add: from_be_be_bytes)
    show ?thesis unfolding started_def
      apply (rule send)
      apply (unfold read_answer_def Some renewal_reply_def)
      apply (simp add: Let_def n(2) [simplified])
      apply (rule left_byte)
      apply (simp add: HIT_def MISS_def)
      apply (rule left_seq(2))
       apply simp
      using f n assms(1) [OF Some] apply simp
      apply (rule left_last)
       apply simp
      by (simp add: read_standing_link)
  qed
qed

text \<open>What a reader has taken at any moment, against any server and under any failure.\<close>

definition answer_read :: "env \<Rightarrow> fetch_error + link option \<Rightarrow> bytes \<Rightarrow> bool" where
  "answer_read E r i \<longleftrightarrow>
     (r = Inr None \<longrightarrow> i = [MISS]) \<and>
     (\<forall>l. r = Inr (Some l) \<longrightarrow>
        (\<exists>text. i = [HIT] @ be_bytes 2 (length text) @ text \<and> length text \<le> MAX_BADGE \<and> read_standing E text = Inr (Some l)))"

lemma stable_any: "stable R (\<lambda>_. True)"
  by (simp add: stable_def)

lemma read_answer_safe:
  "safe_at R (\<lambda>i j _. length i \<le> 3 + MAX_BADGE \<and> j = []) (\<lambda>r i j _. answer_read E r i) (\<lambda>_. True) [] [] (read_answer E)"
proof -
  let ?J = "\<lambda>(i :: bytes) j (_ :: 's). length i \<le> 3 + MAX_BADGE \<and> j = ([] :: bytes)"
  let ?Q = "\<lambda>r i (j :: bytes) (_ :: 's). answer_read E r i"
  have err: "answer_read E (Inl e) i" for e i by (simp add: answer_read_def)
  have last: "safe_at R ?J ?Q (\<lambda>_. True) ([HIT] @ len) []
      (bindP (read_exact FeIo (from_be len)) (\<lambda>b. Ends (read_standing E b)))"
    if len: "length len = 2" "from_be len \<le> MAX_BADGE" for len
  proof (rule safe_at_read)
    fix b :: bytes assume b: "length b = from_be len"
    have "be_bytes 2 (length b) = len" using len(1) b be_bytes_from_be [of len] by simp
    then have "answer_read E (read_standing E b) (([HIT] @ len) @ b)"
      using b len unfolding answer_read_def
      by (auto simp: read_standing_def bindR_def ok_or_def split: option.splits)
    then show "safe_at R ?J ?Q (\<lambda>_. True) (([HIT] @ len) @ b) [] (Ends (read_standing E b))"
      using b len by (intro safe_at_ends) (simp_all add: stable_any)
  qed (use len in \<open>simp_all add: stable_any err\<close>)
  show ?thesis unfolding read_answer_def
  proof (rule safe_at_read)
    fix x :: bytes assume "length x = 1"
    then obtain c where x: "x = [c]" by (cases x) auto
    show "safe_at R ?J ?Q (\<lambda>_. True) ([] @ x) [] (if hd x = MISS then Ends (Inr None)
        else if hd x = HIT then bindP (read_exact FeIo 2) (\<lambda>len. if from_be len > MAX_BADGE then Ends (Inl FeProtocol)
          else bindP (read_exact FeIo (from_be len)) (\<lambda>b. Ends (read_standing E b)))
        else Ends (Inl FeProtocol))"
    proof (cases "c = HIT")
      case True
      have "safe_at R ?J ?Q (\<lambda>_. True) [HIT] [] (bindP (read_exact FeIo 2) (\<lambda>len. if from_be len > MAX_BADGE then Ends (Inl FeProtocol)
          else bindP (read_exact FeIo (from_be len)) (\<lambda>b. Ends (read_standing E b))))"
      proof (rule safe_at_read)
        fix len :: bytes assume l: "length len = 2"
        show "safe_at R ?J ?Q (\<lambda>_. True) ([HIT] @ len) [] (if from_be len > MAX_BADGE then Ends (Inl FeProtocol)
          else bindP (read_exact FeIo (from_be len)) (\<lambda>b. Ends (read_standing E b)))"
          using last [OF l] l by (cases "from_be len > MAX_BADGE") (simp_all add: safe_at_ends stable_any err)
      qed (simp_all add: stable_any err)
      then show ?thesis using True by (simp add: x HIT_def MISS_def)
    next
      case False
      then show ?thesis by (simp add: x, intro conjI impI safe_at_ends) (simp_all add: stable_any answer_read_def)
    qed
  qed (simp_all add: stable_any err)
qed

section \<open>Picking up\<close>

lemma pick_up_from_hit:
  assumes "pu_fetch ob (dv_key d) = FetchHit l" "pick_up_from E D R ob (d # ds) p = (Inr x, q)"
  obtains til t where "take_renewal E D R (pu_now ob d) (pu_fates ob d) l (pu_meanwhile ob d p) = (Inr (Some til), t)"
    "x = Some \<lparr>rn_from = dv_name d, rn_name = pu_name ob t, rn_until = til\<rparr>" "q = t"
  | t where "take_renewal E D R (pu_now ob d) (pu_fates ob d) l (pu_meanwhile ob d p) = (Inr None, t)"
    "pick_up_from E D R ob ds t = (Inr x, q)"
proof -
  obtain r t where r: "take_renewal E D R (pu_now ob d) (pu_fates ob d) l (pu_meanwhile ob d p) = (r, t)" by fastforce
  have k: "pu_lock ob d = None" using assms by (cases "pu_lock ob d") (simp_all add: Let_def)
  note b = assms(2) [simplified, unfolded Let_def assms(1) k r, simplified]
  show thesis
  proof (cases r)
    case (Inl e)
    then show ?thesis using b r by simp
  next
    case (Inr y)
    show ?thesis
    proof (cases y)
      case None
      then show ?thesis using b Inr r that(2) by simp
    next
      case (Some til)
      then have "x = Some \<lparr>rn_from = dv_name d, rn_name = pu_name ob t, rn_until = til\<rparr>" "q = t"
        using b Inr r by auto
      then show ?thesis using that(1) r Inr Some by blast
    qed
  qed
qed

lemma pick_up_from_other:
  "\<nexists>l. pu_fetch ob (dv_key d) = FetchHit l \<Longrightarrow>
   pick_up_from E D R ob (d # ds) p = pick_up_from E D R ob ds (pu_meanwhile ob d p)"
  by (cases "pu_fetch ob (dv_key d)") (simp_all add: Let_def)

lemma pick_up_from_Some:
  "pick_up_from E D R ob ds p = (Inr (Some rn), q) \<Longrightarrow>
   \<exists>d \<in> set ds. \<exists>l p'. pu_fetch ob (dv_key d) = FetchHit l \<and> rn_from rn = dv_name d \<and>
     take_renewal E D R (pu_now ob d) (pu_fates ob d) l p' = (Inr (Some (rn_until rn)), q)"
proof (induction ds arbitrary: p)
  case (Cons d ds)
  show ?case
  proof (cases "\<exists>l. pu_fetch ob (dv_key d) = FetchHit l")
    case True
    then obtain l where l: "pu_fetch ob (dv_key d) = FetchHit l" by blast
    show ?thesis
    proof (rule pick_up_from_hit [OF l Cons.prems])
      fix til t
      assume "take_renewal E D R (pu_now ob d) (pu_fates ob d) l (pu_meanwhile ob d p) = (Inr (Some til), t)"
        "Some rn = Some \<lparr>rn_from = dv_name d, rn_name = pu_name ob t, rn_until = til\<rparr>" "q = t"
      then show ?thesis using l by (intro bexI [of _ d] exI [of _ l] exI [of _ "pu_meanwhile ob d p"]) simp_all
    qed (use Cons.IH in auto)
  next
    case False
    then show ?thesis using Cons.IH Cons.prems unfolding pick_up_from_other [OF False] by auto
  qed
qed simp

text \<open>When nothing is taken, every device was asked and none had a standing this machine takes.\<close>

lemma pick_up_from_None:
  "pick_up_from E D R ob ds p = (Inr None, q) \<Longrightarrow>
   \<forall>d \<in> set ds. \<forall>l. pu_fetch ob (dv_key d) = FetchHit l \<longrightarrow>
     (\<exists>p' q'. take_renewal E D R (pu_now ob d) (pu_fates ob d) l p' = (Inr None, q'))"
proof (induction ds arbitrary: p)
  case (Cons d ds)
  show ?case
  proof (cases "\<exists>l. pu_fetch ob (dv_key d) = FetchHit l")
    case True
    then obtain l where l: "pu_fetch ob (dv_key d) = FetchHit l" by blast
    show ?thesis
    proof (rule pick_up_from_hit [OF l Cons.prems])
      fix t
      assume "take_renewal E D R (pu_now ob d) (pu_fates ob d) l (pu_meanwhile ob d p) = (Inr None, t)"
        "pick_up_from E D R ob ds t = (Inr None, q)"
      then show ?thesis using Cons.IH [of t] l by auto
    qed simp
  next
    case False
    then show ?thesis using Cons.IH Cons.prems unfolding pick_up_from_other [OF False] by auto
  qed
qed simp

section \<open>The keys the route knows\<close>

lemma known_refresh_view:
  "kn_live (known_refresh E D look kn) = kn_live kn \<or> kn_live (known_refresh E D look kn) = [] \<or>
   kn_live (known_refresh E D look kn) \<in> {rs. listed_rows E D (snd look) = Some rs}"
  by (cases look) (auto simp: known_refresh_def split: option.splits)

interpretation known: reread "known_refresh E D" kn_live "\<lambda>rs. rs = []"
  "\<lambda>look. {rs. listed_rows E D (snd look) = Some rs}"
  for E :: env and D :: "'d denylist_ops"
  by unfold_locales (rule known_refresh_view)

lemma listed_rows_Some:
  assumes "listed_rows E D H = Some rs" "(key, til) \<in> set rs"
  shows "\<exists>pin pk doc b m. live_pin (standing_read E D H) = Some pin \<and> en_verify_key E pin = Some pk \<and>
    read_held E (h_devices H) pk = Some (doc, b) \<and> m \<in> set (members doc) \<and> m_node m = key \<and> m_until m = til"
proof -
  obtain st where st: "standing_read E D H = Inr st"
    using assms by (cases "standing_read E D H") (auto simp: listed_rows_def split: standing_error.splits)
  obtain pin where p: "pinned_root st = Some pin"
    using assms st by (auto simp: listed_rows_def split: option.splits)
  obtain pk where k: "en_verify_key E pin = Some pk"
    using assms st p by (cases "en_verify_key E pin") (auto simp: listed_rows_def pin_key_def ok_or_def)
  obtain doc b where h: "read_held_or_error E (h_devices H) pk = Inr (Some (doc, b))"
    "rs = rev (map (\<lambda>m. (m_node m, m_until m)) (members doc))"
    using assms st p k by (auto simp: listed_rows_def pin_key_def ok_or_def split: sum.splits option.splits)
  show ?thesis
    by (rule exI [of _ pin], rule exI [of _ pk], rule exI [of _ doc], rule exI [of _ b])
      (use st p k h assms(2) in \<open>auto simp: live_pin_def read_held_def\<close>)
qed

section \<open>Properties\<close>

text \<open>
  C25: A key is handed only its own live standing. Whatever the route hands out is the standing of the one
  row the update held here has for the key the transport proved; that update verifies under this machine's
  live pin; neither this machine nor the update revokes the key or the standing's id; and the standing has
  not ended.
\<close>

theorem handed_out_own_standing:
  assumes "grow_only D" "links_canonical (en_nauthy E)" "reads_revocations E R"
    and "standing_for E D R valid_until now peer H = Inr l"
  shows "\<exists>pin pk doc b m ends. live_pin (standing_read E D H) = Some pin \<and> en_verify_key E pin = Some pk
    \<and> read_held E (h_devices H) pk = Some (doc, b)
    \<and> m \<in> set (members doc) \<and> m_node m = peer \<and> m_standing m = l
    \<and> (\<forall>m' \<in> set (members doc). m_node m' = peer \<longrightarrow> m' = m)
    \<and> RevKey peer \<notin> home_revoked D H \<and> peer \<notin> set (revoked_keys doc)
    \<and> (\<forall>i. en_root_rid E l = Some i \<longrightarrow> RevId i \<notin> home_revoked D H \<and> (\<forall>d \<in> set (revoked doc). rid d \<noteq> i))
    \<and> valid_until l = Some (Some ends) \<and> now \<le> ends"
proof -
  obtain pin pk rv doc b m ends where s: "live_pin (standing_read E D H) = Some pin" "en_verify_key E pin = Some pk"
    "revoked_open D H = Inr rv" "\<not> rv_peer R rv peer" "read_held E (h_devices H) pk = Some (doc, b)"
    "find (\<lambda>m. m_node m = peer) (members doc) = Some m" "\<not> is_revoked_key doc peer"
    "\<not> id_revoked E R rv doc l" "valid_until l = Some (Some ends)" "now \<le> ends" "l = m_standing m"
    by (rule standing_for_Inr [OF assms(4)])
  have m: "m \<in> set (members doc)" "m_node m = peer" using s(6) by (auto simp: find_Some_iff)
  have rv: "rv = home_revoked D H" by (rule revoked_open_entries [OF assms(1) s(3)])
  have "devices_ok (en_nauthy E) (revoked_devices doc)"
    using held_doc_ok [OF assms(2) s(5)] by (simp add: doc_ok_def)
  then have k: "peer \<notin> set (revoked_keys doc)" using s(7) is_revoked_key_iff by blast
  have i: "RevId i \<notin> home_revoked D H \<and> (\<forall>d \<in> set (revoked doc). rid d \<noteq> i)" if "en_root_rid E l = Some i" for i
    using s(8) that assms(3) by (auto simp: id_revoked_def reads_revocations_def rv)
  have p: "RevKey peer \<notin> home_revoked D H" using s(4) assms(3) by (auto simp: reads_revocations_def rv)
  have u: "\<forall>m' \<in> set (members doc). m_node m' = peer \<longrightarrow> m' = m"
    using held_row(3) [OF assms(2) s(5) m(1)] unfolding m(2) by (intro ballI impI)
  show ?thesis
    by (rule exI [of _ pin], rule exI [of _ pk], rule exI [of _ doc], rule exI [of _ b], rule exI [of _ m],
        rule exI [of _ ends], intro conjI allI impI u)
      (use s(1,2,5,9,10) s(11) [symmetric] m p k i in auto)
qed

lemma example_handed:
  "standing_for example_env example_denylist example_reading (\<lambda>_. Some (Some 100)) 50 (example_key 5) example_holder =
     Inr (m_standing example_member)"
proof -
  have p: "live_pin (standing_read example_env example_denylist example_holder) = Some (example_node 7)"
    by (simp add: example_holder_def example_reads_devices live_pin_def pinned_root_def)
  have k: "pin_key example_env (example_node 7) = Inr (example_key 7)"
    by (simp add: pin_key_def example_env_def example_node_def example_key_def ok_or_def)
  have r: "revoked_open example_denylist example_holder = Inr {}"
    by (simp add: revoked_open_def example_holder_def example_home_def example_denylist_def map_err_def)
  have h: "read_held example_env (h_devices example_holder) (example_key 7) = Some (example_update, example_blob)"
    using read_held_Bytes [OF example_doc] by (simp add: example_holder_def)
  have m: "find (\<lambda>m. m_node m = example_key 5) (members example_update) = Some example_member"
    by (simp add: example_update_def example_member_def)
  have n: "\<not> is_revoked_key example_update (example_key 5)"
    by (simp add: is_revoked_key_def binary_search_def bin_base.simps example_update_def example_device_def example_key_def)
  have i: "\<not> id_revoked example_env example_reading {} example_update (m_standing example_member)"
    by (simp add: id_revoked_def example_reading_def example_env_def example_update_def example_member_def as_bytes_def)
  show ?thesis
    by (simp add: standing_for_def p k r h m n i ok_or_def map_err_def) (simp add: example_reading_def)
qed

theorem handed_out_own_standing_witness:
  "RevKey (example_key 5) \<notin> home_revoked example_denylist example_holder"
proof -
  have "links_canonical (en_nauthy example_env)" using example_canonical by (simp add: example_env_def)
  from handed_out_own_standing [OF example_grow_only this example_reading_ok example_handed] show ?thesis by blast
qed

text \<open>
  An answer arrives whole. Where nothing fails, in whatever order the two sides run, a device that asks
  the route ends with exactly the standing the server's checks give for its key, or with a miss that is the
  same for every cause; the server's home is as it was.
\<close>

theorem renewal_delivered:
  assumes "links_canonical (en_nauthy E)"
  shows "\<forall>c. flow\<^sup>*\<^sup>* (started (read_answer E, s) (renewal_answer E D R valid_until now peer, H)) c \<longrightarrow>
    flow\<^sup>*\<^sup>* c ((Ends (Inr (ok_opt (standing_for E D R valid_until now peer H))), s), (Ends (Inr ()), H), [], [])"
proof -
  let ?st = "ok_opt (standing_for E D R valid_until now peer H)"
  have "link_ok (en_nauthy E) l \<and> length (link_str l) \<le> MAX_BADGE" if "?st = Some l" for l
    using that standing_for_fits [OF assms] by (auto simp: ok_opt_def split: sum.splits)
  from answer_flows [OF this refl] obtain n where
    "(flow ^^ n) (started (read_answer E, s) (renewal_answer E D R valid_until now peer, H))
       ((Ends (Inr ?st), s), (Ends (Inr ()), H), [], [])"
    using rtranclp_imp_relpowp by metis
  from flow.every_order_ends [OF this ended_stuck] show ?thesis by blast
qed

theorem renewal_delivered_witness:
  "flow\<^sup>*\<^sup>* (started (read_answer example_env, ())
      (renewal_answer example_env example_denylist example_reading (\<lambda>_. Some (Some 100)) 50 (example_key 5), example_holder))
     ((Ends (Inr (Some (m_standing example_member))), ()), (Ends (Inr ()), example_holder), [], [])"
proof -
  have "links_canonical (en_nauthy example_env)" using example_canonical by (simp add: example_env_def)
  from renewal_delivered [OF this, rule_format, OF rtranclp.rtrancl_refl, where s = "()" and D = example_denylist
      and R = example_reading and valid_until = "\<lambda>_. Some (Some 100)" and now = 50 and peer = "example_key 5"
      and H = example_holder]
  show ?thesis by (simp add: example_handed ok_opt_def)
qed

text \<open>
  A reader of an answer takes a bounded number of bytes and makes nothing up. Against any server, under
  any failure, at no moment has it taken more than the status, the length and \<^verbatim>\<open>MAX_BADGE\<close> bytes, and it
  never sends one; it ends with a standing only when it took a hit, a length and that standing's own text,
  and with a miss only on the one miss byte.
\<close>

theorem answer_read_bounded:
  assumes "side_run R (read_answer E, s) i j (p, t)" "reflp R" "transp R"
  shows "length i \<le> 3 + MAX_BADGE \<and> j = []
    \<and> (p = Ends (Inr None) \<longrightarrow> i = [MISS])
    \<and> (\<forall>l. p = Ends (Inr (Some l)) \<longrightarrow> (\<exists>text. i = [HIT] @ be_bytes 2 (length text) @ text \<and>
        length text \<le> MAX_BADGE \<and> read_standing E text = Inr (Some l)))"
  using safe_at_run(1) [OF assms read_answer_safe TrueI] safe_at_run(2) [OF assms read_answer_safe TrueI]
  by (auto simp: answer_read_def)

lemma example_miss_run:
  "side_run (=) (read_answer example_env, ()) [MISS] [] (Ends (Inr None), ())"
proof -
  have "read_answer example_env = (Reads 1 (\<lambda>r. case map_err FeIo r of Inl e \<Rightarrow> Ends (Inl e)
      | Inr status \<Rightarrow> if hd status = MISS then Ends (Inr None)
        else if hd status = HIT then
         bindP (read_exact FeIo 2) (\<lambda>len.
         if from_be len > MAX_BADGE then Ends (Inl FeProtocol)
         else bindP (read_exact FeIo (from_be len)) (\<lambda>b. Ends (read_standing example_env b)))
        else Ends (Inl FeProtocol)) :: (unit, fetch_error + link option) proc)"
    by (simp add: read_answer_def bindP_def read_exact_def)
  then have "side_step (=) (read_answer example_env, ()) (Got [MISS]) (Ends (Inr None), ())"
    using side_step.got [of "[MISS]" 1 "(=)" "\<lambda>r. case map_err FeIo r of Inl e \<Rightarrow> Ends (Inl e)
      | Inr status \<Rightarrow> if hd status = MISS then Ends (Inr None)
        else if hd status = HIT then
         bindP (read_exact FeIo 2) (\<lambda>len.
         if from_be len > MAX_BADGE then Ends (Inl FeProtocol)
         else bindP (read_exact FeIo (from_be len)) (\<lambda>b. Ends (read_standing example_env b)))
        else Ends (Inl FeProtocol)" "()"] by (simp add: map_err_def)
  then show ?thesis using side_run.got [OF side_run.start] by fastforce
qed

theorem answer_read_bounded_witness:
  "length [MISS] \<le> 3 + MAX_BADGE \<and> side_run (=) (read_answer example_env, ()) [MISS] [] (Ends (Inr None), ())"
  using answer_read_bounded [OF example_miss_run] example_miss_run by (simp add: reflp_def transp_def)

text \<open>
  What a round picks up is this machine's own renewal from its own device. A pick-up runs only after a
  device refused this machine's standing and only when that standing ended or its id is revoked here; what
  it takes came from a device of \<^verbatim>\<open>me\<close> it dials, is a membership of this machine's key under the pin,
  ends after the one held, is not revoked here, and replaces the badge alone.
\<close>

theorem picked_up_own_renewal:
  assumes "grow_only D" "reads_revocations E R" "after_round E D R now ob me replies p = (TookRenewal rn, q)"
  shows "refused replies \<and> is_due E D R now (jn_home p)
    \<and> (\<exists>ds d l p' n own pin pk held. mine E D me (jn_home p) = Inr ds \<and> d \<in> set ds
        \<and> pu_fetch ob (dv_key d) = FetchHit l \<and> rn_from rn = dv_name d
        \<and> live_pin (standing_read E D (jn_home p')) = Some pin \<and> en_verify_key E pin = Some pk
        \<and> own_key (jn_home p') = Inr (Some n) \<and> en_verify_key E n = Some own
        \<and> en_member_at E l (pu_now ob d) own pk \<and> en_expiry E l = Some (Some (rn_until rn)) \<and> held < rn_until rn
        \<and> (\<exists>st. standing_read E D (jn_home p') = Inr st \<and> standing_until st = Some held)
        \<and> RevKey own \<notin> home_revoked D (jn_home p')
        \<and> (\<forall>i. en_root_rid E l = Some i \<longrightarrow> RevId i \<notin> home_revoked D (jn_home p'))
        \<and> q = p'\<lparr>jn_home := (jn_home p')\<lparr>h_key_cert := Read (Contents (link_str l @ [newline]))\<rparr>\<rparr>)"
proof -
  have c: "refused replies" "is_due E D R now (jn_home p)"
    using assms(3) by (auto simp: after_round_def split: if_splits)
  then have "renewal_pick_up E D R ob me p = (Inr (Some rn), q)"
    using assms(3) by (auto simp: after_round_def split: prod.splits sum.splits option.splits)
  then obtain ds where ds: "mine E D me (jn_home p) = Inr ds" "pick_up_from E D R ob ds p = (Inr (Some rn), q)"
    by (auto simp: renewal_pick_up_def bindS_Inr map_err_Inr_iff)
  then obtain d l p' where d: "d \<in> set ds" "pu_fetch ob (dv_key d) = FetchHit l" "rn_from rn = dv_name d"
    "take_renewal E D R (pu_now ob d) (pu_fates ob d) l p' = (Inr (Some (rn_until rn)), q)"
    using pick_up_from_Some by blast
  have "(Inr (Some (rn_until rn)) :: renewal_error + systime option) = Inr (Some til) \<or>
      (\<exists>e. (Inr (Some (rn_until rn)) :: renewal_error + systime option) = Inl (RnWrite e)) \<longleftrightarrow> til = rn_until rn" for til
    by auto
  note same = this
  from renewal_only_renews [OF assms(1,2) d(4)] obtain st n own pk pin til held where t:
      "standing_read E D (jn_home p') = Inr st" "pinned_root st = Some pin" "standing_until st = Some held"
      "own_key (jn_home p') = Inr (Some n)" "en_verify_key E n = Some own" "en_verify_key E pin = Some pk"
      "en_member_at E l (pu_now ob d) own pk" "en_expiry E l = Some (Some til)" "held < til"
      "RevKey own \<notin> home_revoked D (jn_home p')"
      "\<forall>i. en_root_rid E l = Some i \<longrightarrow> RevId i \<notin> home_revoked D (jn_home p')"
      "q = p'\<lparr>jn_home := (jn_home p')\<lparr>h_key_cert := Read (Contents (link_str l @ [newline]))\<rparr>\<rparr>"
      "til = rn_until rn" unfolding same by blast
  have h: "\<exists>st. standing_read E D (jn_home p') = Inr st \<and> standing_until st = Some held" using t(1,3) by blast
  have lp: "live_pin (standing_read E D (jn_home p')) = Some pin" using t(1,2) by (simp add: live_pin_def)
  show ?thesis
    by (rule conjI [OF c(1)], rule conjI [OF c(2)], rule exI [of _ ds], rule exI [of _ d], rule exI [of _ l],
        rule exI [of _ p'], rule exI [of _ n], rule exI [of _ own], rule exI [of _ pin], rule exI [of _ pk],
        rule exI [of _ held], intro conjI)
      (rule ds(1) d(1-3) lp t(6) t(4,5) t(7) t(8) [unfolded t(13)] t(9) [unfolded t(13)]
        h t(10,11,12))+
qed

definition example_pick :: "revocation set pick_obs" where
  "example_pick = \<lparr>pu_fetch = (\<lambda>_. FetchHit (Link ''renewed'')), pu_meanwhile = (\<lambda>_ p. p), pu_lock = (\<lambda>_. None),
     pu_now = (\<lambda>_. 85), pu_fates = (\<lambda>_. []), pu_name = (\<lambda>_. ''me/laptop'')\<rparr>"

definition example_nas :: device where
  "example_nas = \<lparr>dv_key = example_node 4, dv_name = ''me/nas''\<rparr>"

lemma example_mine:
  "mine example_later example_denylist (Inr [(DeviceLabel ''nas'', example_node 4)]) (jn_home example_joined) = Inr [example_nas]"
proof -
  have "device_pin example_later example_denylist example_home = Inr (Some (example_key 7))"
    by (simp add: device_pin_def example_later_reads pin_key_def ok_or_def map_err_def)
      (simp add: example_later_def example_env_def example_node_def example_key_def)
  then have r: "revoked_in_update example_later example_denylist example_home = []"
    by (simp add: revoked_in_update_def example_home_def read_held_def read_held_or_error_def)
  show ?thesis
    by (simp add: mine_def me_devices_def dialable_def own_dial_key_def key_stored_def revoked_open_def r example_joined_def
        map_err_def)
      (simp add: example_home_def example_denylist_def map_err_def dial_skips_def example_node_def example_key_def
        example_later_def example_env_def example_nas_def)
qed

lemma example_round_takes:
  "\<exists>q. after_round example_later example_denylist example_reading 85 example_pick (Inr [(DeviceLabel ''nas'', example_node 4)])
     [(example_nas, ReplyNotAdmitted)] example_joined =
     (TookRenewal \<lparr>rn_from = ''me/nas'', rn_name = ''me/laptop'', rn_until = 90\<rparr>, q)"
proof -
  have "standing_read example_later example_denylist (jn_home example_joined) = Inr (StDevice (example_node 7) 80)"
    by (simp add: example_joined_def example_later_reads)
  then have d: "is_due example_later example_denylist example_reading 85 (jn_home example_joined)"
    by (simp add: is_due_def standing_until_def)
  have "pick_up_from example_later example_denylist example_reading example_pick [example_nas] example_joined =
      (Inr (Some \<lparr>rn_from = ''me/nas'', rn_name = ''me/laptop'', rn_until = 90\<rparr>),
       do_op (same_root_write (Link ''renewed'')) example_joined)"
    using example_takes by (simp add: example_pick_def Let_def example_nas_def)
  then show ?thesis
    using d example_mine by (simp add: after_round_def refused_def renewal_pick_up_def bindS_def map_err_def)
qed

theorem picked_up_own_renewal_witness:
  "\<exists>d. mine example_later example_denylist (Inr [(DeviceLabel ''nas'', example_node 4)]) (jn_home example_joined) = Inr [d]
     \<and> dv_name d = ''me/nas''"
proof -
  obtain q where q: "after_round example_later example_denylist example_reading 85 example_pick
      (Inr [(DeviceLabel ''nas'', example_node 4)]) [(example_nas, ReplyNotAdmitted)] example_joined =
     (TookRenewal \<lparr>rn_from = ''me/nas'', rn_name = ''me/laptop'', rn_until = 90\<rparr>, q)"
    using example_round_takes by blast
  from picked_up_own_renewal [OF example_grow_only example_later_reading q] example_mine show ?thesis by auto
qed

text \<open>
  The route knows only keys some verified update listed. After any number of looks, whatever failed
  between, a key is known only when one of those looks found this machine under a live pin and an update
  verified under it that lists the key with a standing that has not ended.
\<close>

theorem known_keys_listed:
  assumes "knows_at (fold (known_refresh E D) looks (known_load E D look)) now key"
  shows "\<exists>(seen, H) \<in> set (look # looks). \<exists>pin pk doc b m. live_pin (standing_read E D H) = Some pin
    \<and> en_verify_key E pin = Some pk \<and> read_held E (h_devices H) pk = Some (doc, b)
    \<and> m \<in> set (members doc) \<and> m_node m = key \<and> now \<le> m_until m"
proof -
  let ?kn = "fold (known_refresh E D) (look # looks) known_default"
  obtain til where t: "(key, til) \<in> set (kn_live ?kn)" "now \<le> til"
    using assms by (auto simp: knows_at_def known_load_def dest: map_of_SomeD split: option.splits)
  then have "kn_live ?kn \<noteq> []" by auto
  moreover have "kn_live known_default = []" by (simp add: known_default_def)
  ultimately have "\<exists>k \<in> set (look # looks). kn_live ?kn \<in> {rs. listed_rows E D (snd k) = Some rs}"
    by (intro known.open_view_found) assumption+
  then obtain k where k: "k \<in> set (look # looks)" "listed_rows E D (snd k) = Some (kn_live ?kn)" by blast
  show ?thesis using listed_rows_Some [OF k(2) t(1)] k(1) t(2) by (intro bexI [OF _ k(1)]) (auto simp: split_beta)
qed

lemma example_known:
  "knows_at (fold (known_refresh example_env example_denylist) [] (known_load example_env example_denylist ([FileAbsent :: nat seen_file], example_holder)))
     (m_until example_member) (example_key 5)"
proof -
  have h: "read_held_or_error example_env (h_devices example_holder) (example_key 7) = Inr (Some (example_update, example_blob))"
    using read_held_Bytes [OF example_doc]
    by (auto simp: example_holder_def read_held_def split: sum.splits)
  have "listed_rows example_env example_denylist example_holder = Some [(example_key 5, m_until example_member)]"
    using h by (simp add: listed_rows_def example_holder_def example_reads_devices pinned_root_def pin_key_def ok_or_def)
      (simp add: example_env_def example_node_def example_key_def example_update_def example_member_def)
  then show ?thesis
    by (simp add: known_load_def known_refresh_def known_default_def knows_at_def)
qed

theorem known_keys_listed_witness:
  "\<exists>pin. live_pin (standing_read example_env example_denylist example_holder) = Some pin"
  using known_keys_listed [OF example_known] by auto

end
