(* ===== verification/Invite.thy ===== *)
theory Invite
  imports Peers
begin

text \<open>
  \<^verbatim>\<open>src/invite.rs\<close>: the text of an invite, read back and written, and the field count by which \<^verbatim>\<open>join\<close>
  refuses one that carries a key before anything in it is decoded. The base32 crate is an argument.
\<close>

section \<open>Base 32\<close>

text \<open>
  \<^verbatim>\<open>BASE32_NOPAD\<close>. The crate documents that decoding inverts encoding, that only the encoding of some
  bytes decodes, and that an encoding is upper-case letters and digits.
\<close>

record base32 =
  b32_encode :: "bytes \<Rightarrow> string"
  b32_decode :: "string \<Rightarrow> bytes option"

definition base32_ok :: "base32 \<Rightarrow> bool" where
  "base32_ok B \<longleftrightarrow>
     (\<forall>b t. b32_decode B t = Some b \<longleftrightarrow> t = b32_encode B b) \<and>
     (\<forall>b. \<forall>c \<in> set (b32_encode B b). is_ascii_upper c \<or> is_ascii_digit c)"

definition ascii_upper :: "char \<Rightarrow> char" where
  "ascii_upper c = (if is_ascii_lower c then char_of (code c - 32) else c)"

definition to_ascii_uppercase :: "string \<Rightarrow> string" where
  "to_ascii_uppercase s = map ascii_upper s"

lemma upper_lower: "is_ascii_upper c \<or> is_ascii_digit c \<Longrightarrow> ascii_upper (ascii_lower c) = c"
  by (auto simp: ascii_upper_def ascii_lower_def ascii_defs code_char_of code_eq_iff [symmetric])

lemma lower_upper: "\<not> is_ascii_upper c \<Longrightarrow> ascii_lower (ascii_upper c) = c"
  by (auto simp: ascii_upper_def ascii_lower_def ascii_defs code_char_of code_eq_iff [symmetric])

lemma ascii_lower_upper: "ascii_lower (ascii_upper c) = ascii_lower c"
  by (auto simp: ascii_upper_def ascii_lower_def ascii_defs code_char_of code_eq_iff [symmetric])

lemma uppercase_lowercase:
  "\<forall>c \<in> set s. is_ascii_upper c \<or> is_ascii_digit c \<Longrightarrow> to_ascii_uppercase (ascii_lowercase s) = s"
  by (induction s) (simp_all add: to_ascii_uppercase_def ascii_lowercase_def upper_lower)

lemma lowercase_uppercase: "ascii_lowercase (to_ascii_uppercase s) = ascii_lowercase s"
  by (simp add: to_ascii_uppercase_def ascii_lowercase_def ascii_lower_upper)

section \<open>Invites\<close>

definition INVITE_PREFIX :: string where "INVITE_PREFIX = ''invite:''"
definition SEPARATOR :: char where "SEPARATOR = CHR ''.''"

record invite =
  iv_seed :: "bytes option"
  iv_from :: node_id
  iv_name :: device_label
  iv_standing :: link

definition invite_bound :: "node_id \<Rightarrow> device_label \<Rightarrow> link \<Rightarrow> invite" where
  "invite_bound n name standing = \<lparr>iv_seed = None, iv_from = n, iv_name = name, iv_standing = standing\<rparr>"

definition invite_keyed :: "bytes \<Rightarrow> node_id \<Rightarrow> device_label \<Rightarrow> link \<Rightarrow> invite" where
  "invite_keyed seed n name standing = \<lparr>iv_seed = Some seed, iv_from = n, iv_name = name, iv_standing = standing\<rparr>"

datatype invite_error = IvNotAnInvite | IvEncoding | IvLength | IvFrom | IvName name_error | IvStanding

definition is_ascii :: "string \<Rightarrow> bool" where
  "is_ascii s \<longleftrightarrow> (\<forall>c \<in> set s. code c < 128)"

definition encode_seed :: "base32 \<Rightarrow> bytes \<Rightarrow> string" where
  "encode_seed B seed = ascii_lowercase (b32_encode B seed)"

definition parse_seed :: "base32 \<Rightarrow> string \<Rightarrow> invite_error + bytes" where
  "parse_seed B text =
     (if \<not> is_ascii text then Inl IvEncoding
      else
        bindR (ok_or IvEncoding (b32_decode B (to_ascii_uppercase text))) (\<lambda>b.
        if length b = 32 then Inr b else Inl IvLength))"

definition invite_fields :: "base32 \<Rightarrow> string list \<Rightarrow> invite_error + bytes option \<times> string list" where
  "invite_fields B fs =
     (if length fs = 4 then Inr (None, fs)
      else if length fs = 5 then bindR (parse_seed B (hd fs)) (\<lambda>seed. Inr (Some seed, tl fs))
      else Inl IvNotAnInvite)"

definition invite_parse :: "env \<Rightarrow> base32 \<Rightarrow> string \<Rightarrow> invite_error + invite" where
  "invite_parse E B token =
     bindR (ok_or IvNotAnInvite (strip_mark INVITE_PREFIX (trim token))) (\<lambda>body.
     bindR (invite_fields B (split_on SEPARATOR body)) (\<lambda>(seed, rest).
     bindR (ok_or IvFrom (en_parse_node E (rest ! 0))) (\<lambda>n.
     bindR (map_err IvName (label_from_str (rest ! 1))) (\<lambda>name.
     bindR (ok_or IvStanding (na_link (en_nauthy E) (rest ! 2 @ [SEPARATOR] @ rest ! 3))) (\<lambda>standing.
     Inr \<lparr>iv_seed = seed, iv_from = n, iv_name = name, iv_standing = standing\<rparr>)))))"

definition invite_show :: "(node_id \<Rightarrow> string) \<Rightarrow> base32 \<Rightarrow> invite \<Rightarrow> string" where
  "invite_show show_key B i =
     INVITE_PREFIX @
     (case iv_seed i of None \<Rightarrow> [] | Some seed \<Rightarrow> encode_seed B seed @ [SEPARATOR]) @
     show_key (iv_from i) @ [SEPARATOR] @ label_str (iv_name i) @ [SEPARATOR] @ link_str (iv_standing i)"

text \<open>\<^verbatim>\<open>fields\<close> of \<^verbatim>\<open>join\<close>: the count, decoding none.\<close>

definition field_count :: "string \<Rightarrow> nat" where
  "field_count text =
     (let text = trim text;
          body = (case strip_mark INVITE_PREFIX text of Some rest \<Rightarrow> rest | None \<Rightarrow> text)
      in length (split_on SEPARATOR body))"

section \<open>One text, one invite\<close>

lemma seed_reads_back: "base32_ok B \<Longrightarrow> length seed = 32 \<Longrightarrow> parse_seed B (encode_seed B seed) = Inr seed"
proof -
  assume B: "base32_ok B" and l: "length seed = 32"
  have u: "\<forall>c \<in> set (b32_encode B seed). is_ascii_upper c \<or> is_ascii_digit c" using B by (simp add: base32_ok_def)
  have "is_ascii (encode_seed B seed)"
    using u by (auto simp: is_ascii_def encode_seed_def ascii_lowercase_def ascii_lower_def ascii_defs code_char_of)
  moreover have "b32_decode B (b32_encode B seed) = Some seed" using B by (simp add: base32_ok_def)
  ultimately show ?thesis
    using l by (simp add: parse_seed_def uppercase_lowercase [OF u] encode_seed_def bindR_def ok_or_def)
qed

text \<open>A seed has one spelling but for the case of its letters.\<close>

lemma parse_seed_one:
  assumes "base32_ok B" "parse_seed B text = Inr seed"
  shows "ascii_lowercase text = encode_seed B seed" "length seed = 32"
proof -
  have d: "b32_decode B (to_ascii_uppercase text) = Some seed" "length seed = 32"
    using assms(2) by (auto simp: parse_seed_def bindR_Inr_iff ok_or_Inr_iff split: if_splits)
  then have "to_ascii_uppercase text = b32_encode B seed" using assms(1) by (simp add: base32_ok_def)
  then show "ascii_lowercase text = encode_seed B seed"
    unfolding encode_seed_def by (metis lowercase_uppercase)
  show "length seed = 32" by (rule d(2))
qed

lemma parse_fields:
  assumes "invite_parse E B token = Inr i"
  shows "field_count token = (if iv_seed i = None then 4 else 5)"
proof -
  obtain body where b: "strip_mark INVITE_PREFIX (trim token) = Some body"
    using assms by (auto simp: invite_parse_def bindR_Inr_iff ok_or_Inr_iff)
  obtain seed rest where f: "invite_fields B (split_on SEPARATOR body) = Inr (seed, rest)"
    using assms b by (auto simp: invite_parse_def bindR_Inr_iff ok_or_Inr_iff)
  have s: "iv_seed i = seed"
    using assms b f by (auto simp: invite_parse_def bindR_Inr_iff ok_or_Inr_iff)
  show ?thesis unfolding s
    using b f by (auto simp: field_count_def invite_fields_def bindR_Inr_iff split: if_splits)
qed

text \<open>What an invite that prints has: a key and a link whose texts have their dots where they should.\<close>

definition invite_ok :: "env \<Rightarrow> (node_id \<Rightarrow> string) \<Rightarrow> invite \<Rightarrow> bool" where
  "invite_ok E show_key i \<longleftrightarrow>
     en_parse_node E (show_key (iv_from i)) = Some (iv_from i) \<and> SEPARATOR \<notin> set (show_key (iv_from i)) \<and>
     valid_label (iv_name i) \<and>
     (\<exists>root token. link_str (iv_standing i) = root @ [SEPARATOR] @ token \<and> SEPARATOR \<notin> set root \<and>
        SEPARATOR \<notin> set token \<and> token \<noteq> [] \<and> solid (last token)) \<and>
     na_link (en_nauthy E) (link_str (iv_standing i)) = Some (iv_standing i) \<and>
     (\<forall>seed. iv_seed i = Some seed \<longrightarrow> length seed = 32)"

lemma label_no_dot: "valid_label l \<Longrightarrow> SEPARATOR \<notin> set (label_str l)"
  unfolding valid_label_def SEPARATOR_def by (rule valid_name_no) (simp_all add: code_def)

lemma seed_no_dot: "base32_ok B \<Longrightarrow> SEPARATOR \<notin> set (encode_seed B seed)"
  by (auto simp: base32_ok_def encode_seed_def ascii_lowercase_def ascii_lower_def ascii_defs SEPARATOR_def
      code_char_of code_eq_iff [symmetric]) (auto simp: code_def dest!: bspec)

lemma show_parts:
  "invite_show show_key B i =
     INVITE_PREFIX @ join_with SEPARATOR
       ((case iv_seed i of None \<Rightarrow> [] | Some seed \<Rightarrow> [encode_seed B seed]) @
        [show_key (iv_from i), label_str (iv_name i), root, token])"
  if "link_str (iv_standing i) = root @ [SEPARATOR] @ token"
  using that by (cases "iv_seed i") (simp_all add: invite_show_def)

lemma mark_strips: "strip_mark m (m @ s) = Some s"
  by (simp add: strip_mark_def eq_ignore_case_def)

lemma invite_parse_show:
  assumes "base32_ok B" "invite_ok E show_key i"
  shows "invite_parse E B (invite_show show_key B i) = Inr i"
    "field_count (invite_show show_key B i) = (if iv_seed i = None then 4 else 5)"
proof -
  obtain root token where t: "link_str (iv_standing i) = root @ [SEPARATOR] @ token" "SEPARATOR \<notin> set root"
    "SEPARATOR \<notin> set token" "token \<noteq> []" "solid (last token)"
    using assms(2) by (auto simp: invite_ok_def)
  let ?fs = "(case iv_seed i of None \<Rightarrow> [] | Some seed \<Rightarrow> [encode_seed B seed]) @
        [show_key (iv_from i), label_str (iv_name i), root, token]"
  note parts = show_parts [OF t(1), of show_key B]
  have l: "last (invite_show show_key B i) = last token"
    using t(1,4) by (simp add: invite_show_def)
  have tr: "trim (invite_show show_key B i) = invite_show show_key B i"
    using l t(5) by (intro trim_solid) (simp_all add: invite_show_def INVITE_PREFIX_def solid_def code_def)
  have strip: "strip_mark INVITE_PREFIX (invite_show show_key B i) = Some (join_with SEPARATOR ?fs)"
    unfolding parts by (rule mark_strips)
  have nodot: "\<forall>f \<in> set ?fs. SEPARATOR \<notin> set f"
    using assms t(2,3) by (auto simp: invite_ok_def label_no_dot seed_no_dot split: option.splits)
  then have split: "split_on SEPARATOR (join_with SEPARATOR ?fs) = ?fs" by (intro split_on_join) simp_all
  have fs: "invite_fields B ?fs = Inr (iv_seed i, [show_key (iv_from i), label_str (iv_name i), root, token])"
    using assms seed_reads_back [OF assms(1)]
    by (cases "iv_seed i") (auto simp: invite_fields_def invite_ok_def bindR_def)
  show "invite_parse E B (invite_show show_key B i) = Inr i"
    using assms(2) t(1) unfolding invite_parse_def tr strip
    by (simp add: split fs bindR_def ok_or_def map_err_def invite_ok_def label_from_valid del: append.simps)
  show "field_count (invite_show show_key B i) = (if iv_seed i = None then 4 else 5)"
    unfolding field_count_def Let_def tr strip
    by (simp add: split) (cases "iv_seed i"; simp)
qed

text \<open>
  C26: An invite reads back, and its shape shows before anything is decoded. What \<^verbatim>\<open>invite\<close> prints parses to
  the same invite, with its key or without; and of whatever text parses, the number of its fields alone
  tells whether it carries a key, so an argument that does is refused unread. A key it carries has one
  spelling, up to the case of its letters.
\<close>

theorem invite_reads_back:
  assumes "base32_ok B" "invite_ok E show_key i"
  shows "invite_parse E B (invite_show show_key B i) = Inr i
    \<and> field_count (invite_show show_key B i) = (if iv_seed i = None then 4 else 5)
    \<and> (\<forall>text j. invite_parse E B text = Inr j \<longrightarrow> field_count text = (if iv_seed j = None then 4 else 5))
    \<and> (\<forall>text seed. parse_seed B text = Inr seed \<longrightarrow> ascii_lowercase text = encode_seed B seed)"
  using invite_parse_show [OF assms] parse_fields parse_seed_one(1) [OF assms(1)] by blast

text \<open>An encoding for the example: two digits or letters a byte.\<close>

definition nibble :: "nat \<Rightarrow> char" where
  "nibble n = char_of (65 + n)"

definition example_encode :: "bytes \<Rightarrow> string" where
  "example_encode b = concat (map (\<lambda>x. [nibble (unat x div 16), nibble (unat x mod 16)]) b)"

fun example_decode :: "string \<Rightarrow> bytes option" where
  "example_decode [] = Some []"
| "example_decode [c] = None"
| "example_decode (c # d # t) =
     (if 65 \<le> code c \<and> code c < 81 \<and> 65 \<le> code d \<and> code d < 81 then
        map_option (\<lambda>b. of_nat ((code c - 65) * 16 + (code d - 65)) # b) (example_decode t)
      else None)"

definition example_base32 :: base32 where
  "example_base32 = \<lparr>b32_encode = example_encode, b32_decode = example_decode\<rparr>"

lemma nibble_code: "n < 16 \<Longrightarrow> code (nibble n) = 65 + n"
  by (simp add: nibble_def code_char_of)

lemma nibble_unat: "unat (x :: u8) div 16 < 16"
proof -
  have "unat x < 2 ^ LENGTH(8)" by (rule unsigned_less)
  then show ?thesis by simp
qed

lemma code_nibble: "65 \<le> code c \<Longrightarrow> nibble (code c - 65) = c"
  by (simp add: code_eq_iff [symmetric]) (simp add: nibble_def code_char_of)

lemma decode_encode: "example_decode (example_encode b) = Some b"
proof (induction b)
  case (Cons x b)
  have "example_encode (x # b) = nibble (unat x div 16) # nibble (unat x mod 16) # example_encode b"
    by (simp add: example_encode_def)
  then show ?case using Cons nibble_unat [of x] by (simp add: nibble_code)
qed (simp add: example_encode_def)

lemma encode_decode: "example_decode t = Some b \<Longrightarrow> t = example_encode b"
proof (induction t arbitrary: b rule: example_decode.induct)
  case (3 c d t)
  then obtain r where r: "65 \<le> code c" "code c < 81" "65 \<le> code d" "code d < 81" "example_decode t = Some r"
    "b = of_nat ((code c - 65) * 16 + (code d - 65)) # r"
    by (auto split: if_splits)
  have v: "(code c - 65) * 16 + (code d - 65) < 256" using r(2,4) by simp
  then have u: "unat (of_nat ((code c - 65) * 16 + (code d - 65)) :: u8) = (code c - 65) * 16 + (code d - 65)"
    by (simp only: unsigned_of_nat) (simp add: take_bit_nat_eq_self del: of_nat_add of_nat_mult)
  have "t = example_encode r" using "3.IH" r by simp
  moreover have "((code c - 65) * 16 + (code d - 65)) div 16 = code c - 65"
    "((code c - 65) * 16 + (code d - 65)) mod 16 = code d - 65" using r(4) by auto
  ultimately show ?case using code_nibble [OF r(1)] code_nibble [OF r(3)]
    by (simp add: r(6) example_encode_def u del: of_nat_add of_nat_mult)
qed (simp_all add: example_encode_def)

lemma example_base32_ok: "base32_ok example_base32"
proof -
  have "is_ascii_upper (nibble n)" if "n < 16" for n using that by (simp add: is_ascii_upper_def nibble_code)
  then have "\<forall>c \<in> set (example_encode b). is_ascii_upper c" for b
    using nibble_unat by (auto simp: example_encode_def)
  then show ?thesis using decode_encode encode_decode by (auto simp: base32_ok_def example_base32_def)
qed

definition example_invite :: invite where
  "example_invite = \<lparr>iv_seed = Some (replicate 32 7), iv_from = NodeId [], iv_name = DeviceLabel ''laptop'',
     iv_standing = Link ''root.token''\<rparr>"

lemma example_invite_ok:
  "invite_ok (example_env\<lparr>en_parse_node := (\<lambda>t. if t = ''key'' then Some (NodeId []) else None)\<rparr>) (\<lambda>_. ''key'') example_invite"
  unfolding invite_ok_def example_invite_def
  by (simp add: SEPARATOR_def example_env_def example_nauthy_def valid_label_def)
    (intro conjI exI [of _ "''root''"] exI [of _ "''token''"]; code_simp)

theorem invite_reads_back_witness:
  "invite_parse (example_env\<lparr>en_parse_node := (\<lambda>t. if t = ''key'' then Some (NodeId []) else None)\<rparr>) example_base32
     (invite_show (\<lambda>_. ''key'') example_base32 example_invite) = Inr example_invite"
  using invite_reads_back [OF example_base32_ok example_invite_ok] by blast

end
