(* ===== verification/Join_Cmd.thy ===== *)
theory Join_Cmd
  imports Invite Joining_Laws
begin

text \<open>
  The two commands over \<^verbatim>\<open>Joining\<close>: \<^verbatim>\<open>commands/join.rs\<close>, from the invite's text to the write, and
  \<^verbatim>\<open>commands/leave.rs\<close>. What they ask the terminal, the key store and \<^verbatim>\<open>serve.lock\<close> is an observation,
  and what other programs make of the home between two locks is an argument.
\<close>

section \<open>Reading the invite\<close>

definition READ_CAP :: nat where "READ_CAP = 4096"

datatype inspected = FoundKey node_id | MadeKey node_id

datatype join_error =
    JcInvite invite_error
  | JcCarriesKey
  | JcInspect string
  | JcStdin
  | JcKey
  | JcOwnKey string
  | JcUnusableKey
  | JcHasKey node_id
  | JcNoKey
  | JcOwnRoot
  | JcNotInvite
  | JcOtherKey node_id
  | JcEnded systime
  | JcRevocations revoked_error
  | JcRevoked node_id
  | JcNeedsPrompt
  | JcStanding standing_error
  | JcEarlier systime systime
  | JcSwitch node_id node_id
  | JcKeepsRoot
  | JcInterrupted
  | JcAdmitting
  | JcLock string
  | JcKeyWrite string
  | JcKeyChanged
  | JcChanged
  | JcIo string

text \<open>\<^verbatim>\<open>read_line\<close> of at most \<open>READ_CAP\<close> bytes: through the first newline, and text only.\<close>

definition read_line :: "string \<Rightarrow> string option" where
  "read_line typed =
     (let capped = take READ_CAP typed;
          line = takeWhile (\<lambda>c. c \<noteq> newline) capped
      in from_utf8 (as_bytes (if length line < length capped then line @ [newline] else line)))"

definition read_stdin ::
  "bool \<Rightarrow> string + inspected \<Rightarrow> string \<Rightarrow> join_error + string \<times> node_id option" where
  "read_stdin input_terminal inspect typed =
     bindR (if input_terminal then
              bindR (map_err JcInspect inspect) (\<lambda>i. Inr (case i of FoundKey _ \<Rightarrow> None | MadeKey key \<Rightarrow> Some key))
            else Inr None) (\<lambda>made.
     bindR (ok_or JcStdin (read_line typed)) (\<lambda>text. Inr (text, made)))"

definition read_invite ::
  "string option \<Rightarrow> bool \<Rightarrow> string + inspected \<Rightarrow> string \<Rightarrow> join_error + string \<times> node_id option" where
  "read_invite argument input_terminal inspect typed =
     (case argument of
        None \<Rightarrow> read_stdin input_terminal inspect typed
      | Some text \<Rightarrow>
          if text = ''-'' then read_stdin input_terminal inspect typed
          else if field_count text = 5 then Inl JcCarriesKey
          else Inr (text, None))"

section \<open>Joining\<close>

text \<open>
  \<open>jb_locked\<close> says whether the stored key is sealed, \<open>jb_opens\<close> how opening it ends; \<open>jb_admitting\<close> is
  what \<^verbatim>\<open>serve.lock\<close> says before the writes and again for them; \<open>jb_before\<close> and \<open>jb_after\<close> are what other
  programs made of the home before the key's write and after it.
\<close>

record 'd join_obs =
  jb_now :: systime
  jb_terminal :: bool
  jb_locked :: bool
  jb_opens :: "string option"
  jb_admitting :: "nat \<Rightarrow> string + node_id option"
  jb_lock :: "nat \<Rightarrow> string option"
  jb_serve_lock :: "string option"
  jb_key_fate :: fate
  jb_root_key_fate :: fate
  jb_fates :: "fate list"
  jb_before :: "'d joined \<Rightarrow> 'd joined"
  jb_after :: "'d joined \<Rightarrow> 'd joined"

definition stored_key :: "'d home \<Rightarrow> join_error + node_id option" where
  "stored_key H =
     bindR (map_err JcOwnKey (key_stored (h_key H))) (\<lambda>stored.
     case stored of
       None \<Rightarrow> Inr None
     | Some None \<Rightarrow> Inl JcUnusableKey
     | Some (Some n) \<Rightarrow> Inr (Some n))"

definition join_own :: "(bytes \<Rightarrow> node_id) \<Rightarrow> invite \<Rightarrow> node_id option \<Rightarrow> node_id option \<Rightarrow> join_error + node_id" where
  "join_own seed_node iv stored made =
     (case (iv_seed iv, stored) of
        (Some seed, Some key) \<Rightarrow>
          if key \<noteq> seed_node seed \<and> made \<noteq> Some key then Inl (JcHasKey key) else Inr (seed_node seed)
      | (Some seed, None) \<Rightarrow> Inr (seed_node seed)
      | (None, Some key) \<Rightarrow> Inr key
      | (None, None) \<Rightarrow> Inl JcNoKey)"

definition config_is_revoked :: "env \<Rightarrow> 'd denylist_ops \<Rightarrow> 'd home \<Rightarrow> node_id \<Rightarrow> join_error + bool" where
  "config_is_revoked E D H root =
     bindR (map_err JcRevocations (revoked_open D H)) (\<lambda>rv.
     bindR (ok_or JcKey (en_verify_key E root)) (\<lambda>k.
     Inr (RevKey k \<in> rv)))"

text \<open>The checks of the invite alone: the root, this machine's key and when the standing ends.\<close>

definition join_checks ::
  "env \<Rightarrow> 'd denylist_ops \<Rightarrow> (bytes \<Rightarrow> node_id) \<Rightarrow> 'd join_obs \<Rightarrow> invite \<Rightarrow> node_id option \<Rightarrow> 'd home \<Rightarrow>
   join_error + node_id \<times> node_id \<times> systime" where
  "join_checks E D seed_node ob iv made H =
     bindR (ok_or JcKey (en_node_id E (en_root E (iv_standing iv)))) (\<lambda>root.
     bindR (stored_key H) (\<lambda>stored.
     bindR (join_own seed_node iv stored made) (\<lambda>own.
     if own = root then Inl JcOwnRoot
     else
       (case en_expiry E (iv_standing iv) of
          Some (Some til) \<Rightarrow>
            bindR (ok_or JcKey (en_verify_key E own)) (\<lambda>k.
            bindR (ok_or JcKey (en_verify_key E root)) (\<lambda>r.
            if \<not> en_member_at E (iv_standing iv) til k r then
              Inl (case iv_seed iv of Some _ \<Rightarrow> JcNotInvite | None \<Rightarrow> JcOtherKey own)
            else if til \<le> jb_now ob then Inl (JcEnded til)
            else
              bindR (config_is_revoked E D H root) (\<lambda>gone.
              if gone then Inl (JcRevoked root)
              else if jb_locked ob \<and> iv_seed iv = None \<and> \<not> jb_terminal ob then Inl JcNeedsPrompt
              else Inr (root, own, til))))
        | _ \<Rightarrow> Inl JcNotInvite))))"

definition join_standing :: "env \<Rightarrow> 'd denylist_ops \<Rightarrow> 'd home \<Rightarrow> join_error + standing \<times> node_id option" where
  "join_standing E D H =
     (case standing_read E D H of
        Inr st \<Rightarrow> Inr (st, None)
      | Inl (Damaged (StandingWithoutPin _)) \<Rightarrow> Inr (Unpinned, None)
      | Inl (Damaged (StandingFromAnotherRoot _ pin)) \<Rightarrow> Inr (Unpinned, Some pin)
      | Inl other \<Rightarrow> Inl (JcStanding other))"

text \<open>The root this machine trusted, when the standing allows the join.\<close>

definition join_was ::
  "bool \<Rightarrow> node_id \<Rightarrow> systime \<Rightarrow> standing \<times> node_id option \<Rightarrow> join_error + node_id option" where
  "join_was switch root til = (\<lambda>(st, switching).
     case st of
       Unpinned \<Rightarrow> Inr switching
     | StDevice pin held \<Rightarrow>
         if pin = root \<and> til < held then Inl (JcEarlier til held)
         else if pin \<noteq> root \<and> \<not> switch then Inl (JcSwitch pin root)
         else Inr (Some pin)
     | HoldsRoot _ _ \<Rightarrow> Inl JcKeepsRoot
     | InterruptedMint _ \<Rightarrow> Inl JcInterrupted)"

definition locked_home :: "'d join_obs \<Rightarrow> nat \<Rightarrow> join_error + unit" where
  "locked_home ob n = (case jb_lock ob n of Some e \<Rightarrow> Inl (JcLock e) | None \<Rightarrow> Inr ())"

definition refuse_if_admitting :: "'d join_obs \<Rightarrow> nat \<Rightarrow> join_error + unit" where
  "refuse_if_admitting ob n =
     (case jb_admitting ob n of
        Inl e \<Rightarrow> Inl (JcLock e)
      | Inr (Some _) \<Rightarrow> Inl JcAdmitting
      | Inr None \<Rightarrow> Inr ())"

definition put_key :: "fate \<Rightarrow> node_id \<Rightarrow> ('d joined, join_error, unit) act" where
  "put_key f own p =
     (let q = p\<lparr>jn_home := (jn_home p)\<lparr>h_key := KeyStored (Some own)\<rparr>\<rparr>
      in case f of Done \<Rightarrow> (Inr (), q) | NotDone e \<Rightarrow> (Inl (JcKeyWrite e), p) | DoneBut e \<Rightarrow> (Inl (JcKeyWrite e), q))"

text \<open>\<^verbatim>\<open>identity::write\<close>: never over another key; the same key, sealed, is proved by opening it.\<close>

definition identity_write :: "'d join_obs \<Rightarrow> node_id \<Rightarrow> ('d joined, join_error, unit) act" where
  "identity_write ob own p =
     (case key_stored (h_key (jn_home p)) of
        Inl e \<Rightarrow> (Inl (JcOwnKey e), p)
      | Inr None \<Rightarrow> put_key (jb_key_fate ob) own p
      | Inr (Some None) \<Rightarrow> (Inl JcUnusableKey, p)
      | Inr (Some (Some key)) \<Rightarrow>
          if key \<noteq> own then (Inl (JcHasKey key), p)
          else if jb_locked ob then
            (case jb_opens ob of Some e \<Rightarrow> (Inl (JcOwnKey e), p) | None \<Rightarrow> (Inr (), p))
          else (Inr (), p))"

text \<open>\<^verbatim>\<open>identity::replace_made\<close>: only over the plain key this run made.\<close>

definition replace_made :: "'d join_obs \<Rightarrow> node_id \<Rightarrow> node_id \<Rightarrow> ('d joined, join_error, unit) act" where
  "replace_made ob own made p =
     (case key_stored (h_key (jn_home p)) of
        Inl e \<Rightarrow> (Inl (JcOwnKey e), p)
      | Inr stored \<Rightarrow>
          if stored = Some (Some made) \<and> \<not> jb_locked ob then put_key (jb_key_fate ob) own p
          else (Inl JcKeyChanged, p))"

definition join_key :: "'d join_obs \<Rightarrow> invite \<Rightarrow> node_id \<Rightarrow> node_id option \<Rightarrow> ('d joined, join_error, unit) act" where
  "join_key ob iv own made =
     (if iv_seed iv = None then liftS (Inr ())
      else (case made of
          None \<Rightarrow> identity_write ob own
        | Some m \<Rightarrow>
            if m = own then identity_write ob own
            else
              bindS (liftS (locked_home ob 1)) (\<lambda>_.
              bindS (liftS (case jb_serve_lock ob of Some e \<Rightarrow> Inl (JcLock e) | None \<Rightarrow> Inr ())) (\<lambda>_.
              replace_made ob own m))))"

definition join_still ::
  "env \<Rightarrow> 'd denylist_ops \<Rightarrow> standing \<times> node_id option \<Rightarrow> 'd home \<Rightarrow> join_error + unit" where
  "join_still E D was H =
     bindR (join_standing E D H) (\<lambda>now.
     if \<not> same_standing (fst now) (fst was) \<or> snd now \<noteq> snd was then Inl JcChanged else Inr ())"

definition drop_revoked_root :: "env \<Rightarrow> 'd denylist_ops \<Rightarrow> 'd join_obs \<Rightarrow> ('d joined, join_error, unit) act" where
  "drop_revoked_root E D ob =
     bindS (getS (\<lambda>p. map_err JcStanding (revoked_root E D (jn_home p)))) (\<lambda>found.
     case found of
       None \<Rightarrow> liftS (Inr ())
     | Some _ \<Rightarrow> map_errS JcIo (run_ops [RemoveFile RootKeyFile] [jb_root_key_fate ob]))"

definition join_of :: "invite \<Rightarrow> node_id \<Rightarrow> node_id option \<Rightarrow> standing \<times> node_id option \<Rightarrow> join" where
  "join_of iv root was found =
     \<lparr>jo_root = root, jo_standing = iv_standing iv, jo_from = iv_from iv, jo_name = iv_name iv,
      jo_pin_changes = (was \<noteq> Some root \<or> snd found \<noteq> None)\<rparr>"

text \<open>The writes, all under the one last lock.\<close>

definition join_locked ::
  "env \<Rightarrow> 'd denylist_ops \<Rightarrow> (node_id \<Rightarrow> string) \<Rightarrow> 'd join_obs \<Rightarrow> standing \<times> node_id option \<Rightarrow> join \<Rightarrow>
   ('d joined, join_error, unit) act" where
  "join_locked E D show_key ob found j =
     bindS (liftS (locked_home ob 2)) (\<lambda>_.
     bindS (liftS (refuse_if_admitting ob 2)) (\<lambda>_.
     bindS (getS (\<lambda>p. join_still E D found (jn_home p))) (\<lambda>_.
     bindS (drop_revoked_root E D ob) (\<lambda>_.
     map_errS JcIo (join_write show_key j (jb_fates ob))))))"

definition changed_by :: "('d joined \<Rightarrow> 'd joined) \<Rightarrow> ('d joined, join_error, unit) act" where
  "changed_by f p = (Inr (), f p)"

definition join_admit ::
  "env \<Rightarrow> 'd denylist_ops \<Rightarrow> (bytes \<Rightarrow> node_id) \<Rightarrow> (node_id \<Rightarrow> string) \<Rightarrow> bool \<Rightarrow> 'd join_obs \<Rightarrow> invite \<Rightarrow>
   node_id option \<Rightarrow> ('d joined, join_error, node_id option) act" where
  "join_admit E D seed_node show_key switch ob iv made =
     bindS (getS (\<lambda>p. join_checks E D seed_node ob iv made (jn_home p))) (\<lambda>(root, own, til).
     bindS (getS (\<lambda>p. join_standing E D (jn_home p))) (\<lambda>found.
     bindS (liftS (join_was switch root til found)) (\<lambda>was.
     bindS (liftS (locked_home ob 0)) (\<lambda>_.
     bindS (liftS (refuse_if_admitting ob 0)) (\<lambda>_.
     bindS (changed_by (jb_before ob)) (\<lambda>_.
     bindS (join_key ob iv own made) (\<lambda>_.
     bindS (changed_by (jb_after ob)) (\<lambda>_.
     bindS (join_locked E D show_key ob found (join_of iv root was found)) (\<lambda>_.
     liftS (Inr (if iv_from iv \<noteq> own then Some (iv_from iv) else None)))))))))))"

section \<open>Leaving\<close>

datatype was_before = WasDevice node_id u64 | WasDamaged "node_id option" | WasUnpinned

datatype leave_error =
    LvNotADevice
  | LvKeepsRoot
  | LvInterrupted
  | LvStanding standing_error
  | LvLock string
  | LvNewKey string
  | LvChanged
  | LvIo string

definition leave_was :: "env \<Rightarrow> 'd denylist_ops \<Rightarrow> bool \<Rightarrow> 'd home \<Rightarrow> leave_error + was_before" where
  "leave_was E D new_key H =
     (let pin = (case load_signet E D H of Inl _ \<Rightarrow> None | Inr pin \<Rightarrow> pin) in
      case standing_read E D H of
        Inr (StDevice pin til) \<Rightarrow> Inr (WasDevice pin (unix_now til))
      | Inr Unpinned \<Rightarrow> if new_key then Inr WasUnpinned else Inl LvNotADevice
      | Inr (HoldsRoot _ _) \<Rightarrow> Inl LvKeepsRoot
      | Inr (InterruptedMint _) \<Rightarrow> Inl LvInterrupted
      | Inl (Damaged _) \<Rightarrow> Inr (WasDamaged pin)
      | Inl UnusableKey \<Rightarrow>
          if new_key then
            bindR (map_err LvIo (h_root_key_exists H)) (\<lambda>kept.
            if kept then Inl LvKeepsRoot else Inr (WasDamaged pin))
          else Inl (LvStanding UnusableKey)
      | Inl other \<Rightarrow> Inl (LvStanding other))"

definition leave_still :: "env \<Rightarrow> 'd denylist_ops \<Rightarrow> was_before \<Rightarrow> 'd home \<Rightarrow> leave_error + unit" where
  "leave_still E D was H =
     bindR (case standing_read E D H of
         Inr st \<Rightarrow> Inr (case (was, st) of
             (WasDevice root _, StDevice pin _) \<Rightarrow> root = pin
           | (WasUnpinned, Unpinned) \<Rightarrow> True
           | _ \<Rightarrow> False)
       | Inl (Damaged _) \<Rightarrow> Inr (case was of WasDamaged _ \<Rightarrow> True | _ \<Rightarrow> False)
       | Inl UnusableKey \<Rightarrow> Inr (case was of WasDamaged _ \<Rightarrow> True | _ \<Rightarrow> False)
       | Inl other \<Rightarrow> Inl (LvStanding other)) (\<lambda>same.
     if same then Inr () else Inl LvChanged)"

text \<open>
  \<open>lo_staged\<close> is the new key, staged before anything is left, or why it was not; \<open>lo_put\<close> the fate of
  putting it in place.
\<close>

record 'd leave_obs =
  lo_serve_lock :: "string option"
  lo_staged :: "string + node_id"
  lo_lock :: "nat \<Rightarrow> string option"
  lo_fates :: "fate list"
  lo_put :: fate
  lo_meanwhile :: "'d joined \<Rightarrow> 'd joined"

definition leave_stage :: "bool \<Rightarrow> 'd leave_obs \<Rightarrow> leave_error + node_id option" where
  "leave_stage new_key ob =
     (if \<not> new_key then Inr None
      else (case lo_lock ob 0 of
          Some e \<Rightarrow> Inl (LvLock e)
        | None \<Rightarrow>
            (case lo_serve_lock ob of
               Some e \<Rightarrow> Inl (LvLock e)
             | None \<Rightarrow> bindR (map_err LvNewKey (lo_staged ob)) (\<lambda>n. Inr (Some n)))))"

definition leave_put :: "'d leave_obs \<Rightarrow> node_id option \<Rightarrow> ('d joined, leave_error, unit) act" where
  "leave_put ob staged p =
     (case staged of
        None \<Rightarrow> (Inr (), p)
      | Some n \<Rightarrow>
          let q = p\<lparr>jn_home := (jn_home p)\<lparr>h_key := KeyStored (Some n)\<rparr>\<rparr>
          in case lo_put ob of
               Done \<Rightarrow> (Inr (), q)
             | NotDone e \<Rightarrow> (Inl (LvNewKey e), p)
             | DoneBut e \<Rightarrow> (Inl (LvNewKey e), q))"

definition leave_cmd ::
  "env \<Rightarrow> 'd denylist_ops \<Rightarrow> bool \<Rightarrow> 'd leave_obs \<Rightarrow> ('d joined, leave_error, was_before) act" where
  "leave_cmd E D new_key ob =
     bindS (getS (\<lambda>p. leave_was E D new_key (jn_home p))) (\<lambda>was.
     bindS (liftS (leave_stage new_key ob)) (\<lambda>staged.
     bindS (\<lambda>p. (Inr (), lo_meanwhile ob p)) (\<lambda>_.
     bindS (liftS (case lo_lock ob 1 of Some e \<Rightarrow> Inl (LvLock e) | None \<Rightarrow> Inr ())) (\<lambda>_.
     bindS (getS (\<lambda>p. leave_still E D was (jn_home p))) (\<lambda>_.
     bindS (if was = WasUnpinned then liftS (Inr ()) else map_errS LvIo (leave (lo_fates ob))) (\<lambda>_.
     bindS (leave_put ob staged) (\<lambda>_.
     liftS (Inr was))))))))"

end
