(* ===== verification/Join_Cmd_Laws.thy ===== *)
theory Join_Cmd_Laws
  imports Join_Cmd
begin

text \<open>
  What the two commands come to, with other programs moving the home between their steps: a join that returns
  leaves the invite's standing, read as a device of its root under the key it is for, and neither command
  touches a home whose standing is not the one it checked.
\<close>

section \<open>The checks\<close>









section \<open>A home a join may write\<close>





lemma revoked_open_fields:
  assumes "h_trust G = h_trust H" "h_revoked G = h_revoked H"
  shows "revoked_open D G = revoked_open D H"
  unfolding revoked_open_def assms by (rule refl)

















section \<open>Leaving\<close>

lemma leave_was_device:
  assumes "leave_was E D n H = Inr (WasDevice root t)"
  obtains til where "standing_read E D H = Inr (StDevice root til)" "t = unix_now til"
proof (cases "standing_read E D H")
  case (Inl e)
  then show ?thesis using assms by (cases e) (auto simp: leave_was_def Let_def bindR_Inr_iff split: if_splits)
next
  case (Inr st)
  then show ?thesis using assms that by (cases st) (auto simp: leave_was_def Let_def split: if_splits)
qed

lemma leave_was_unpinned:
  assumes "leave_was E D n H = Inr WasUnpinned"
  shows "standing_read E D H = Inr Unpinned" "n"
proof -
  have "standing_read E D H = Inr Unpinned \<and> n"
  proof (cases "standing_read E D H")
    case (Inl e)
    then show ?thesis using assms by (cases e) (auto simp: leave_was_def Let_def bindR_Inr_iff split: if_splits)
  next
    case (Inr st)
    then show ?thesis using assms by (cases st) (auto simp: leave_was_def Let_def split: if_splits)
  qed
  then show "standing_read E D H = Inr Unpinned" "n" by simp_all
qed

lemma leave_was_damaged:
  assumes "leave_was E D n H = Inr (WasDamaged root)"
  shows "standing_read E D H \<noteq> Inr st"
  using assms by (cases st) (auto simp: leave_was_def Let_def split: if_splits)

lemma leave_put_Inr:
  assumes "leave_put ob staged p = (Inr (), q)"
  shows "q = (case staged of None \<Rightarrow> p | Some n \<Rightarrow> p\<lparr>jn_home := (jn_home p)\<lparr>h_key := KeyStored (Some n)\<rparr>\<rparr>)"
  using assms by (auto simp: leave_put_def Let_def split: option.splits fate.splits)

lemma unpinned_any_key:
  assumes "read_pin E H = Inr None" "load_badge E H = Inr None" "revoked_open D H = Inr rv" "held_root E rv H = Inr None"
    and "own_key H = Inr own"
  shows "standing_read E D H = Inr Unpinned"
  using assms by (simp add: standing_read_def read_with_own_def classify_def map_err_def)

lemma new_key_reads:
  "read_pin E (H\<lparr>h_key := k\<rparr>) = read_pin E H" "load_badge E (H\<lparr>h_key := k\<rparr>) = load_badge E H"
  "held_root E rv (H\<lparr>h_key := k\<rparr>) = held_root E rv H" "revoked_open D (H\<lparr>h_key := k\<rparr>) = revoked_open D H"
proof -
  have "root_key (H\<lparr>h_key := k\<rparr>) = root_key H" by (simp add: root_key_def)
  then show "held_root E rv (H\<lparr>h_key := k\<rparr>) = held_root E rv H" by (simp add: held_root_def cong: if_cong)
  show "revoked_open D (H\<lparr>h_key := k\<rparr>) = revoked_open D H" by (rule revoked_open_fields) simp_all
qed (simp_all add: read_pin_def load_badge_def)

lemma leave_cmd_Inr:
  assumes "leave_cmd E D new_key ob p = (Inr was, q)" "\<And>p. lo_meanwhile ob p = p"
  obtains staged p1 where "leave_was E D new_key (jn_home p) = Inr was" "leave_stage new_key ob = Inr staged"
    "if was = WasUnpinned then p1 = p else leave (lo_fates ob) p = (Inr (), p1)"
    "q = (case staged of None \<Rightarrow> p1 | Some n \<Rightarrow> p1\<lparr>jn_home := (jn_home p1)\<lparr>h_key := KeyStored (Some n)\<rparr>\<rparr>)"
proof -
  obtain staged p1 where 1: "leave_was E D new_key (jn_home p) = Inr was" "leave_stage new_key ob = Inr staged"
    "(if was = WasUnpinned then liftS (Inr ()) else map_errS LvIo (leave (lo_fates ob))) p = (Inr (), p1)"
    "leave_put ob staged p1 = (Inr (), q)"
    using assms by (auto simp: leave_cmd_def bindS_Inr)
  have "if was = WasUnpinned then p1 = p else leave (lo_fates ob) p = (Inr (), p1)"
    using 1(3) by (auto simp: map_errS_def map_err_Inr_iff split: prod.splits if_splits)
  then show thesis by (rule that [OF 1(1,2) _ leave_put_Inr [OF 1(4)]])
qed

lemma leave_stage_Inr: "leave_stage new_key ob = Inr staged \<Longrightarrow>
    (if new_key then \<exists>n. lo_staged ob = Inr n \<and> staged = Some n else staged = None)"
  by (auto simp: leave_stage_def bindR_Inr_iff map_err_Inr_iff split: option.splits if_splits)

text \<open>What leaving itself takes, whatever the home read as.\<close>

lemma leave_takes:
  assumes "leave fates p = (Inr (), q)"
  shows "same_machine (jn_home p) (jn_home q)" "h_root_pub (jn_home q) = Read Missing" "h_key_cert (jn_home q) = Read Missing"
proof -
  obtain kept where e: "h_root_key_exists (jn_home p) = Inr kept"
    using assms by (auto simp: leave_def bindS_Inr)
  obtain k where k: "k \<le> length (leave_ops kept)" "q = after (take k (leave_ops kept)) p"
    "(Inr () :: string + unit) = Inr () \<longrightarrow> k = length (leave_ops kept)"
    by (rule leave_run [OF assms e])
  show "same_machine (jn_home p) (jn_home q)" unfolding k(2)
    by (rule removes_same_machine) (auto dest: in_set_takeD leave_ops_removes)
  show "h_root_pub (jn_home q) = Read Missing" "h_key_cert (jn_home q) = Read Missing"
    using leave_part_files(1,2) [OF k(2,1)] k(3) by (simp_all add: leave_ops_def split: if_splits)
qed

text \<open>
  A leave that returns is of no root. It leaves a device, or a home whose records disagree, whose pin
  and standing are then gone, and a device reads afterwards as no root's; with \<^verbatim>\<open>--new-key\<close> also a machine that
  was of none, whose files stay. A root kept here or half made is never left. The key is the new one made for it, or untouched
  without \<^verbatim>\<open>--new-key\<close>, and the revocations and the root's key file stay as they were.
\<close>

theorem left_is_no_device:
  assumes "leave_cmd E D new_key ob p = (Inr was, q)" "\<And>p. lo_meanwhile ob p = p"
  shows "(case was of
        WasDevice root t \<Rightarrow> (\<exists>til. standing_read E D (jn_home p) = Inr (StDevice root til)) \<and>
          standing_read E D (jn_home q) = Inr Unpinned
      | WasUnpinned \<Rightarrow> standing_read E D (jn_home p) = Inr Unpinned \<and> new_key \<and>
          h_root_pub (jn_home q) = h_root_pub (jn_home p) \<and> h_key_cert (jn_home q) = h_key_cert (jn_home p)
      | WasDamaged _ \<Rightarrow> (\<forall>st. standing_read E D (jn_home p) \<noteq> Inr st) \<and>
          h_root_pub (jn_home q) = Read Missing \<and> h_key_cert (jn_home q) = Read Missing)
    \<and> (if new_key then \<exists>n. lo_staged ob = Inr n \<and> own_key (jn_home q) = Inr (Some n)
       else own_key (jn_home q) = own_key (jn_home p))
    \<and> revoked_open D (jn_home q) = revoked_open D (jn_home p)
    \<and> h_root_key_exists (jn_home q) = h_root_key_exists (jn_home p) \<and> h_root_key (jn_home q) = h_root_key (jn_home p)"
proof -
  obtain staged p1 where s: "leave_was E D new_key (jn_home p) = Inr was" "leave_stage new_key ob = Inr staged"
    "if was = WasUnpinned then p1 = p else leave (lo_fates ob) p = (Inr (), p1)"
    "q = (case staged of None \<Rightarrow> p1 | Some n \<Rightarrow> p1\<lparr>jn_home := (jn_home p1)\<lparr>h_key := KeyStored (Some n)\<rparr>\<rparr>)"
    by (rule leave_cmd_Inr [OF assms])
  note staged = leave_stage_Inr [OF s(2)]
  have m: "same_machine (jn_home p) (jn_home p1)"
    using s(3) leave_takes(1) by (auto simp: same_machine_def split: if_splits)
  note mr = same_machine_reads [OF m]
  have q: "read_pin E (jn_home q) = read_pin E (jn_home p1)" "load_badge E (jn_home q) = load_badge E (jn_home p1)"
    "held_root E rv (jn_home q) = held_root E rv (jn_home p1)" "revoked_open D (jn_home q) = revoked_open D (jn_home p1)"
    "h_root_pub (jn_home q) = h_root_pub (jn_home p1)" "h_key_cert (jn_home q) = h_key_cert (jn_home p1)"
    "h_root_key_exists (jn_home q) = h_root_key_exists (jn_home p1)" "h_root_key (jn_home q) = h_root_key (jn_home p1)" for rv
    by (simp_all add: s(4) new_key_reads split: option.splits)
  have key: "if new_key then \<exists>n. lo_staged ob = Inr n \<and> own_key (jn_home q) = Inr (Some n)
       else own_key (jn_home q) = own_key (jn_home p)"
    using staged s(4) mr(1) by (auto simp: own_key_def key_stored_def map_err_def split: if_splits)
  have un: "standing_read E D (jn_home q) = Inr Unpinned"
    if files: "read_pin E (jn_home p1) = Inr None" "load_badge E (jn_home p1) = Inr None" "revoked_open D (jn_home p) = Inr rv"
      "held_root E rv (jn_home p) = Inr None" and own: "own_key (jn_home p) = Inr own" for rv own
  proof -
    obtain own' where "own_key (jn_home q) = Inr own'" using key own by (auto split: if_splits)
    moreover have "read_pin E (jn_home q) = Inr None" "load_badge E (jn_home q) = Inr None"
      using q(1,2) files(1,2) by simp_all
    moreover have "revoked_open D (jn_home q) = Inr rv" "held_root E rv (jn_home q) = Inr None"
      using q(3) q(4) mr(2) mr(3) files(3,4) by simp_all
    ultimately show ?thesis using unpinned_any_key by blast
  qed
  have main: "case was of
        WasDevice root t \<Rightarrow> (\<exists>til. standing_read E D (jn_home p) = Inr (StDevice root til)) \<and>
          standing_read E D (jn_home q) = Inr Unpinned
      | WasUnpinned \<Rightarrow> standing_read E D (jn_home p) = Inr Unpinned \<and> new_key \<and>
          h_root_pub (jn_home q) = h_root_pub (jn_home p) \<and> h_key_cert (jn_home q) = h_key_cert (jn_home p)
      | WasDamaged _ \<Rightarrow> (\<forall>st. standing_read E D (jn_home p) \<noteq> Inr st) \<and>
          h_root_pub (jn_home q) = Read Missing \<and> h_key_cert (jn_home q) = Read Missing"
  proof (cases was)
    case (WasDevice root t)
    then obtain til where d: "standing_read E D (jn_home p) = Inr (StDevice root til)"
      using s(1) by (auto elim: leave_was_device)
    obtain own rv where o: "own_key (jn_home p) = Inr own" "revoked_open D (jn_home p) = Inr rv"
      "held_root E rv (jn_home p) = Inr None" by (rule device_no_root [OF d])
    have l: "leave (lo_fates ob) p = (Inr (), p1)" using s(3) WasDevice by simp
    show ?thesis
      using d un [OF pin_missing badge_missing o(2,3,1)] leave_takes(2,3) [OF l] WasDevice by auto
  next
    case (WasDamaged r)
    then have l: "leave (lo_fates ob) p = (Inr (), p1)" using s(3) by simp
    have "standing_read E D (jn_home p) \<noteq> Inr st" for st
      using s(1) WasDamaged leave_was_damaged by blast
    then show ?thesis using leave_takes(2,3) [OF l] WasDamaged by (simp add: q)
  next
    case WasUnpinned
    then have d: "standing_read E D (jn_home p) = Inr Unpinned" "new_key" "p1 = p"
      using s(1,3) leave_was_unpinned by auto
    then show ?thesis using WasUnpinned by (simp add: q)
  qed
  show ?thesis using main key q(4,7,8) mr(2) m by (simp add: same_machine_def)
qed

definition example_left :: "revocation set leave_obs" where
  "example_left = \<lparr>lo_serve_lock = None, lo_staged = Inr (example_node 9), lo_lock = (\<lambda>_. None), lo_fates = [],
     lo_put = Done, lo_meanwhile = (\<lambda>p. p)\<rparr>"

lemma example_leaves:
  "fst (leave_cmd example_env example_denylist True example_left example_joined) = Inr (WasDevice (example_node 7) (unix_now 100))"
proof -
  have r: "standing_read example_env example_denylist (jn_home example_joined) = Inr (StDevice (example_node 7) 100)"
    by (simp add: example_joined_def example_reads)
  have o: "lo_serve_lock example_left = None" "lo_staged example_left = Inr (example_node 9)" "lo_lock example_left n = None"
    "lo_fates example_left = []" "lo_put example_left = Done" "lo_meanwhile example_left p = p" for n p
    by (simp_all add: example_left_def)
  have "h_root_key_exists (jn_home example_joined) = Inr False" by (simp add: example_joined_def example_home_def)
  then have l: "leave [] example_joined = (Inr (), after (leave_ops False) example_joined)"
    by (simp add: leave_def bindS_def run_ops_calm)
  show ?thesis
    by (simp add: leave_cmd_def bindS_def leave_was_def leave_stage_def leave_still_def leave_put_def r o l map_errS_def
        map_err_def Let_def)
qed

theorem left_is_no_device_witness:
  "standing_read example_env example_denylist
     (jn_home (snd (leave_cmd example_env example_denylist True example_left example_joined))) = Inr Unpinned
   \<and> own_key (jn_home (snd (leave_cmd example_env example_denylist True example_left example_joined))) = Inr (Some (example_node 9))"
proof -
  have q: "leave_cmd example_env example_denylist True example_left example_joined =
      (Inr (WasDevice (example_node 7) (unix_now 100)), snd (leave_cmd example_env example_denylist True example_left example_joined))"
    using example_leaves by (metis prod.collapse)
  have m: "lo_meanwhile example_left p = p" for p by (simp add: example_left_def)
  show ?thesis using left_is_no_device [OF q m] by (simp add: example_left_def)
qed

end
