(* ===== verification/Serving.thy ===== *)
theory Serving
  imports Scheme
begin

text \<open>
  What a \<^verbatim>\<open>serve\<close> serves when it starts: the entry parser of \<^verbatim>\<open>src/serve.rs\<close>, and the list of
  \<^verbatim>\<open>src/serve/serving.rs\<close>, how it is settled, recorded and edited. The URL crate and nauthy's service
  names are the record \<open>entry_text\<close>; a path is its bytes.
\<close>

section \<open>One entry\<close>

text \<open>What \<^verbatim>\<open>Url::parse\<close> gives of a URL: its scheme, its origin as text, its path, query and fragment.\<close>

record url_read =
  ul_scheme :: string
  ul_origin :: string
  ul_path :: string
  ul_query :: "string option"
  ul_fragment :: "string option"

record entry_text =
  et_service :: "string \<Rightarrow> service option"
  et_url :: "string \<Rightarrow> url_read option"

definition is_port :: "string \<Rightarrow> bool" where
  "is_port text \<longleftrightarrow> text \<noteq> [] \<and> list_all is_ascii_digit text"

definition DEFAULT_SERVICES :: "string list" where
  "DEFAULT_SERVICES = [''ping=ping:'', ''speed=speed:'']"

definition BUILT_IN :: "(string \<times> string) list" where
  "BUILT_IN = [(''ping'', ''ping:''), (''speed'', ''speed:''), (''ssh'', ''sshd:'')]"

record proxy_line =
  pl_name :: string
  pl_url :: string

definition proxy_line_show :: "proxy_line \<Rightarrow> string" where
  "proxy_line_show l =
     (if pl_name l \<noteq> scheme_str Proxy then pl_name l @ ''='' else []) @ scheme_str Proxy @ '':'' @ pl_url l"

datatype entry_error =
    EnName name_error
  | ProxyWithoutTarget proxy_line
  | ProxyNotAnOrigin proxy_line
  | ProxyNotHttp proxy_line

definition proxy_origin :: "entry_text \<Rightarrow> string \<Rightarrow> string \<Rightarrow> entry_error + unit" where
  "proxy_origin T name url =
     (if url = [] then Inl (ProxyWithoutTarget \<lparr>pl_name = name, pl_url = ''<url>''\<rparr>)
      else (case et_url T url of
          None \<Rightarrow> Inr ()
        | Some parsed \<Rightarrow>
            if ul_scheme parsed \<notin> {''http'', ''https''} then
              Inl (ProxyNotHttp \<lparr>pl_name = name, pl_url = ''https://<host>''\<rparr>)
            else if ul_path parsed \<in> {'''', ''/''} \<and> ul_query parsed = None \<and> ul_fragment parsed = None then Inr ()
            else Inl (ProxyNotAnOrigin \<lparr>pl_name = name, pl_url = ul_origin parsed\<rparr>)))"

definition named_entry :: "entry_text \<Rightarrow> string \<Rightarrow> string \<Rightarrow> entry_error + string" where
  "named_entry T name target =
     bindR (map_err EnName (service_name (et_service T) name)) (\<lambda>name.
     bindR (case scheme_parse target of
         Some (Proxy, url) \<Rightarrow> proxy_origin T (service_str name) url
       | _ \<Rightarrow> Inr ()) (\<lambda>_.
     Inr (service_str name @ CHR ''='' # target)))"

definition bare_entry :: "entry_text \<Rightarrow> string \<Rightarrow> entry_error + string" where
  "bare_entry T entry =
     (if CHR '':'' \<in> set entry \<or> is_port entry then Inr entry
      else
        bindR (map_err EnName (service_name (et_service T) entry)) (\<lambda>name.
        let name = service_str name in
        if name = scheme_str Proxy then Inl (ProxyWithoutTarget \<lparr>pl_name = name, pl_url = ''<url>''\<rparr>)
        else Inr (case find (\<lambda>(built_in, _). built_in = name) BUILT_IN of
            Some (_, target) \<Rightarrow> name @ CHR ''='' # target
          | None \<Rightarrow> name)))"

definition service_entry :: "entry_text \<Rightarrow> string \<Rightarrow> entry_error + string" where
  "service_entry T entry =
     (let rest = (case split_once (CHR ''='') entry of
          Some (name, target) \<Rightarrow> named_entry T name target
        | None \<Rightarrow> bare_entry T entry)
      in case scheme_parse entry of
           Some (Proxy, url) \<Rightarrow>
             bindR (proxy_origin T (scheme_str Proxy) url) (\<lambda>_.
             Inr (scheme_str Proxy @ CHR ''='' # entry))
         | Some (Recv, _) \<Rightarrow>
             if CHR ''='' \<notin> set entry then Inr (scheme_str Recv @ CHR ''='' # entry) else rest
         | _ \<Rightarrow> rest)"

definition as_typed :: "string \<Rightarrow> string" where
  "as_typed entry =
     (case split_once (CHR ''='') entry of
        None \<Rightarrow> entry
      | Some (name, target) \<Rightarrow>
          if (name, target) \<in> set BUILT_IN then name
          else if \<exists>s \<in> set [Proxy, Recv]. name = scheme_str s \<and>
            (case scheme_parse target of Some (found, _) \<Rightarrow> found = s | None \<Rightarrow> False) then target
          else entry)"

definition entry_for :: "string \<Rightarrow> string" where
  "entry_for name =
     (if name \<in> fst ` set BUILT_IN then name
      else if name = scheme_str Proxy then name @ '':<url>''
      else if name = scheme_str Recv then name @ '':<dir>''
      else name @ ''=tcp:<address>:<port>'')"

section \<open>A list of entries\<close>

definition PATH_SCHEMES :: "string list" where
  "PATH_SCHEMES = [''recv'', ''unix'', ''file'', ''fifo'']"

datatype mistyped =
    MtTwice string
  | Unnamed string
  | PortTarget string string string

datatype serving_error =
    NotAService string
  | CannotSave string
  | SvTwice string
  | SvMistyped mistyped

text \<open>The names entries are bound under: an entry with no name binds none.\<close>

definition entry_names :: "string list \<Rightarrow> string list" where
  "entry_names entries = List.map_filter (\<lambda>entry. map_option fst (split_once (CHR ''='') entry)) entries"

fun twice_from :: "string list \<Rightarrow> string list \<Rightarrow> string option" where
  "twice_from seen [] = None"
| "twice_from seen (n # ns) = (if n \<in> set seen then Some n else twice_from (n # seen) ns)"

definition twice :: "string list \<Rightarrow> string option" where
  "twice ns = twice_from [] ns"

definition check_names :: "string list \<Rightarrow> mistyped + unit" where
  "check_names ns = (case twice ns of Some name \<Rightarrow> Inl (MtTwice name) | None \<Rightarrow> Inr ())"

definition port_target :: "string \<Rightarrow> mistyped option" where
  "port_target entry =
     (case split_once (CHR ''='') entry of
        None \<Rightarrow> None
      | Some (name, target) \<Rightarrow> if is_port target then Some (PortTarget entry name target) else None)"

definition mistyped_check :: "string list \<Rightarrow> mistyped + unit" where
  "mistyped_check entries =
     (case find (\<lambda>entry. CHR ''='' \<notin> set entry) entries of
        Some entry \<Rightarrow> Inl (Unnamed entry)
      | None \<Rightarrow>
          (case find_map port_target entries of
             Some refusal \<Rightarrow> Inl refusal
           | None \<Rightarrow> check_names (entry_names entries)))"

definition once :: "string list \<Rightarrow> serving_error + unit" where
  "once entries = (case twice (entry_names entries) of Some name \<Rightarrow> Inl (SvTwice name) | None \<Rightarrow> Inr ())"

definition target_under :: "string \<Rightarrow> string \<Rightarrow> string option" where
  "target_under entry name =
     (case split_once (CHR ''='') entry of
        Some (held, target) \<Rightarrow> if held = name then Some target else None
      | None \<Rightarrow> None)"

text \<open>A relative path joined to the directory it was typed in; a path is absolute from its \<^verbatim>\<open>/\<close>.\<close>

definition cwd_join :: "string \<Rightarrow> string \<Rightarrow> string" where
  "cwd_join dir rest = (if dir = [] \<or> last dir = CHR ''/'' then dir @ rest else dir @ CHR ''/'' # rest)"

definition absolute :: "string \<Rightarrow> string \<Rightarrow> string option" where
  "absolute entry cwd =
     (case split_once (CHR ''='') entry of
        None \<Rightarrow> Some entry
      | Some (name, target) \<Rightarrow>
          (case split_once (CHR '':'') target of
             None \<Rightarrow> Some entry
           | Some (sch, rest) \<Rightarrow>
               if sch \<notin> set PATH_SCHEMES \<or> take 1 rest = ''/'' \<or> (sch = scheme_str Recv \<and> rest = []) then Some entry
               else
                 let path = (if rest = [] then cwd else cwd_join cwd rest)
                 in if is_text path then Some (name @ CHR ''='' # sch @ CHR '':'' # path) else None))"

definition saved_entry :: "string \<Rightarrow> string \<Rightarrow> serving_error + string" where
  "saved_entry cwd entry =
     bindR (ok_or (CannotSave entry) (absolute entry cwd)) (\<lambda>saved.
     if has_control saved \<or> trim saved \<noteq> saved then Inl (CannotSave saved) else Inr saved)"

primrec collectR :: "('a \<Rightarrow> 'e + 'b) \<Rightarrow> 'a list \<Rightarrow> 'e + 'b list" where
  "collectR f [] = Inr []"
| "collectR f (x # xs) = bindR (f x) (\<lambda>y. bindR (collectR f xs) (\<lambda>ys. Inr (y # ys)))"

section \<open>What a serve starts with\<close>

text \<open>\<^verbatim>\<open>serve.toml\<close> as it is held: the services off are a \<^verbatim>\<open>BTreeSet\<close>, here the keys of the ordered map.\<close>

datatype server_url = ServerUrl (server_str: string)

record serve_toml =
  tm_services :: "string list option"
  tm_off :: "(string, unit) btree"
  tm_relay :: "server_url option"
  tm_resolver :: "server_url option"

definition serve_toml_default :: serve_toml where
  "serve_toml_default = \<lparr>tm_services = None, tm_off = [], tm_relay = None, tm_resolver = None\<rparr>"

datatype start_list = StNamed "string list" | StResumed "string list" | StDefault

definition kept_line :: "entry_text \<Rightarrow> string \<Rightarrow> serving_error + string" where
  "kept_line T line =
     (if take 1 line = ''-'' then Inl (NotAService line)
      else
        bindR (map_err (\<lambda>_. NotAService line) (service_entry T line)) (\<lambda>entry.
        if CHR ''='' \<notin> set entry then Inl (NotAService line) else Inr entry))"

definition started_bare :: "entry_text \<Rightarrow> serve_toml \<Rightarrow> serving_error + start_list" where
  "started_bare T kept =
     (case tm_services kept of
        None \<Rightarrow> Inr StDefault
      | Some listed \<Rightarrow>
          bindR (collectR (kept_line T) listed) (\<lambda>entries.
          bindR (once entries) (\<lambda>_. Inr (StResumed entries))))"

definition started_of :: "entry_text \<Rightarrow> string list \<Rightarrow> serve_toml \<Rightarrow> string \<Rightarrow> serving_error + start_list" where
  "started_of T named kept cwd =
     (if named \<noteq> [] then
        bindR (map_err SvMistyped (mistyped_check named)) (\<lambda>_.
        bindR (collectR (saved_entry cwd) named) (\<lambda>named. Inr (StNamed named)))
      else started_bare T kept)"

definition started_entries :: "start_list \<Rightarrow> string list" where
  "started_entries st = (case st of StNamed es \<Rightarrow> es | StResumed es \<Rightarrow> es | StDefault \<Rightarrow> DEFAULT_SERVICES)"

definition started_names :: "start_list \<Rightarrow> string list" where
  "started_names st = entry_names (started_entries st)"

record replaced =
  rp_dropped :: "string list"
  rp_retargeted :: "(string \<times> string \<times> string) list"

definition replace_one :: "string list \<Rightarrow> string \<Rightarrow> replaced \<Rightarrow> replaced" where
  "replace_one entries old r =
     (case split_once (CHR ''='') old of
        None \<Rightarrow> r
      | Some (name, was) \<Rightarrow>
          (case find_map (\<lambda>entry. target_under entry name) entries of
             None \<Rightarrow> r\<lparr>rp_dropped := rp_dropped r @ [old]\<rparr>
           | Some now \<Rightarrow>
               if now \<noteq> was then r\<lparr>rp_retargeted := rp_retargeted r @ [(name, now, was)]\<rparr> else r))"

definition started_replaces :: "entry_text \<Rightarrow> start_list \<Rightarrow> serve_toml \<Rightarrow> replaced" where
  "started_replaces T st kept =
     (case (st, started_bare T kept) of
        (StNamed entries, Inr (StResumed recorded)) \<Rightarrow>
          fold (replace_one entries) recorded \<lparr>rp_dropped = [], rp_retargeted = []\<rparr>
      | _ \<Rightarrow> \<lparr>rp_dropped = [], rp_retargeted = []\<rparr>)"

definition started_record :: "entry_text \<Rightarrow> start_list \<Rightarrow> serve_toml \<Rightarrow> serve_toml" where
  "started_record T st file =
     (case st of
        StNamed entries \<Rightarrow>
          (case started_bare T file of
             Inr held \<Rightarrow> file\<lparr>tm_off := fold (\<lambda>name off.
                 if name \<notin> set (started_names held) then bt_remove name off else off) (entry_names entries) (tm_off file)\<rparr>
           | Inl _ \<Rightarrow> file)\<lparr>tm_services := Some entries\<rparr>
      | _ \<Rightarrow> file)"

section \<open>Editing the list\<close>

datatype add_found = AddedNew string | Listed string | ListedOff string

datatype edit_error = EdServing serving_error | Retarget string string string | NotListed string

text \<open>The list, what each entry found, and the fresh entries: the state of the loop of \<^verbatim>\<open>add\<close>.\<close>

definition add_one ::
  "string \<Rightarrow> (string, unit) btree \<Rightarrow> string list \<Rightarrow> string \<Rightarrow> add_found list \<times> string list \<Rightarrow>
   edit_error + add_found list \<times> string list" where
  "add_one cwd off held_list entry = (\<lambda>(found, fresh).
     bindR (map_err EdServing (saved_entry cwd entry)) (\<lambda>entry.
     case split_once (CHR ''='') entry of
       None \<Rightarrow> Inr (found, fresh)
     | Some (name, asked) \<Rightarrow>
         (case find_map (\<lambda>held. target_under held name) held_list of
            Some held \<Rightarrow>
              if held = asked then
                Inr (found @ [if bt_has off name then ListedOff name else Listed name], fresh)
              else Inl (Retarget name held entry)
          | None \<Rightarrow> Inr (found @ [AddedNew name], fresh @ [entry]))))"

definition is_new :: "add_found \<Rightarrow> bool" where
  "is_new a = (case a of AddedNew _ \<Rightarrow> True | _ \<Rightarrow> False)"

definition toml_add :: "entry_text \<Rightarrow> string list \<Rightarrow> string \<Rightarrow> serve_toml \<Rightarrow> edit_error + add_found list \<times> serve_toml" where
  "toml_add T entries cwd file =
     bindR (map_err (\<lambda>e. EdServing (SvMistyped e)) (mistyped_check entries)) (\<lambda>_.
     bindR (map_err EdServing (started_bare T file)) (\<lambda>st.
     bindR (each_entry (add_one cwd (tm_off file) (started_entries st)) entries ([], [])) (\<lambda>(found, fresh).
     Inr (found, if list_ex is_new found then file\<lparr>tm_services := Some (started_entries st @ fresh)\<rparr> else file))))"

definition remove_one :: "string \<Rightarrow> string list \<Rightarrow> edit_error + string list" where
  "remove_one name es =
     (let kept = filter (\<lambda>entry. target_under entry name = None) es
      in if length kept = length es then Inl (NotListed name) else Inr kept)"

definition toml_remove :: "entry_text \<Rightarrow> service list \<Rightarrow> serve_toml \<Rightarrow> edit_error + serve_toml" where
  "toml_remove T ns file =
     bindR (map_err (\<lambda>e. EdServing (SvMistyped e)) (check_names (map service_str ns))) (\<lambda>_.
     bindR (map_err EdServing (started_bare T file)) (\<lambda>st.
     bindR (each_entry remove_one (map service_str ns) (started_entries st)) (\<lambda>es.
     Inr (file\<lparr>tm_off := fold (\<lambda>n. bt_remove (service_str n)) ns (tm_off file), tm_services := Some es\<rparr>))))"

text \<open>\<^verbatim>\<open>service on\<close> and \<^verbatim>\<open>off\<close>: \<^verbatim>\<open>commands/service/toggle.rs\<close>.\<close>

datatype way = WayOn | WayOff
datatype toggled = Turned | Already
datatype toggle_refused = TgNotListed | TgList serving_error

definition toggle :: "entry_text \<Rightarrow> string \<Rightarrow> way \<Rightarrow> serve_toml \<Rightarrow> toggle_refused + toggled \<times> serve_toml" where
  "toggle T name way file =
     bindR (map_err TgList (started_bare T file)) (\<lambda>st.
     if name \<notin> set (started_names st) then Inl TgNotListed
     else (case way of
         WayOn \<Rightarrow> Inr (if bt_has (tm_off file) name then Turned else Already, file\<lparr>tm_off := bt_remove name (tm_off file)\<rparr>)
       | WayOff \<Rightarrow> Inr (if bt_has (tm_off file) name then Already else Turned, file\<lparr>tm_off := bt_insert name () (tm_off file)\<rparr>)))"

end
