(* ===== verification/Serving_Laws.thy ===== *)
theory Serving_Laws
  imports Serving
begin

text \<open>
  What the list of services promises: an entry reads as it is saved and as it is shown, a start serves
  each name once, an edit moves what it names and nothing else, and a service turned off stays off.
\<close>

section \<open>Entries\<close>

text \<open>nauthy's \<^verbatim>\<open>Service\<close> takes every name of the name rule, as it is written.\<close>

definition reads_services :: "entry_text \<Rightarrow> bool" where
  "reads_services T \<longleftrightarrow> (\<forall>n. valid_name n \<longrightarrow> et_service T n = Some (Service n))"

definition good_name :: "string \<Rightarrow> bool" where
  "good_name n \<longleftrightarrow> valid_name n \<and> n \<notin> {''control'', ''lookup''}"

definition good_entry :: "entry_text \<Rightarrow> string \<Rightarrow> bool" where
  "good_entry T s \<longleftrightarrow> (\<exists>n t. s = n @ CHR ''='' # t \<and> good_name n \<and>
     (\<forall>url. scheme_parse t = Some (Proxy, url) \<longrightarrow> proxy_origin T n url = Inr ()))"

lemma good_name_no: "good_name n \<Longrightarrow> CHR ''='' \<notin> set n" "good_name n \<Longrightarrow> CHR '':'' \<notin> set n"
  using valid_name_no [of n "CHR ''=''"] valid_name_no [of n "CHR '':''"] by (simp_all add: good_name_def code_def)

lemma scheme_str_lower: "c \<in> set (scheme_str s) \<Longrightarrow> is_ascii_lower c"
  by (cases s) (auto simp: is_ascii_lower_def code_def)

lemma equals_not_lower: "\<not> is_ascii_lower (CHR ''='')" "\<not> is_ascii_lower (CHR '':'')"
  by (simp_all add: is_ascii_lower_def code_def)

lemma split_named [simp]: "good_name n \<Longrightarrow> split_once (CHR ''='') (n @ CHR ''='' # t) = Some (n, t)"
  by (simp add: split_once_append good_name_no)

lemma target_named: "good_name n \<Longrightarrow> target_under (n @ CHR ''='' # t) name = (if n = name then Some t else None)"
  by (simp add: target_under_def)

lemma scheme_parse_named:
  assumes "CHR '':'' \<notin> set n"
  shows "scheme_parse (n @ CHR ''='' # t) = None"
proof (rule ccontr)
  assume "scheme_parse (n @ CHR ''='' # t) \<noteq> None"
  then obtain s a where e: "n @ CHR ''='' # t = scheme_str s @ CHR '':'' # a" by (auto simp: scheme_parse_Some)
  then obtain us where "(n = scheme_str s @ us \<and> us @ CHR ''='' # t = CHR '':'' # a) \<or>
      (n @ us = scheme_str s \<and> CHR ''='' # t = us @ CHR '':'' # a)"
    by (auto simp: append_eq_append_conv2)
  then have "CHR ''='' \<in> set (scheme_str s) \<or> CHR '':'' \<in> set n"
    by (cases us) (auto, metis in_set_conv_decomp)
  then show False using assms scheme_str_lower equals_not_lower by blast
qed

lemma service_name_reads:
  assumes "reads_services T"
  shows "service_name (et_service T) text = Inr s \<longleftrightarrow>
    good_name (ascii_lowercase text) \<and> s = Service (ascii_lowercase text)"
  using assms by (auto simp: service_name_def name_from_str_iff good_name_def reads_services_def)

lemma good_name_lower: "good_name n \<Longrightarrow> ascii_lowercase n = n"
  by (simp add: good_name_def valid_name_def lowercase_name)

lemma service_entry_named: "good_name n \<Longrightarrow> service_entry T (n @ CHR ''='' # t) = named_entry T n t"
  by (simp add: service_entry_def scheme_parse_named good_name_no)

lemma good_entry_reads:
  assumes "reads_services T" "good_entry T s"
  shows "service_entry T s = Inr s" "kept_line T s = Inr s"
proof -
  obtain n t where s: "s = n @ CHR ''='' # t" "good_name n"
    "\<And>url. scheme_parse t = Some (Proxy, url) \<Longrightarrow> proxy_origin T n url = Inr ()"
    using assms(2) by (auto simp: good_entry_def)
  have v: "service_name (et_service T) n = Inr (Service n)"
    using s(2) by (simp add: service_name_reads [OF assms(1)] good_name_lower)
  show e: "service_entry T s = Inr s"
    using s(3) by (auto simp: s(1) service_entry_named [OF s(2)] named_entry_def v split: option.splits scheme.splits)
  have "take 1 s \<noteq> ''-''" using s(2) by (cases n) (auto simp: s(1) good_name_def valid_name_def)
  then show "kept_line T s = Inr s" using e by (simp add: kept_line_def s(1))
qed

lemma good_names: "good_name ''proxy''" "good_name ''recv''" "good_name ''ping''" "good_name ''speed''" "good_name ''ssh''"
  by (simp_all add: good_name_def valid_name_def name_char_def is_ascii_lower_def code_def)

lemma built_in_good: "(n, t) \<in> set BUILT_IN \<Longrightarrow> good_name n \<and> scheme_parse t \<noteq> Some (Proxy, url)"
  by (auto simp: BUILT_IN_def good_names scheme_parse_Some)

lemma service_entry_good:
  assumes T: "reads_services T" and e: "service_entry T e = Inr s" and m: "CHR ''='' \<in> set s"
  shows "good_entry T s"
proof -
  have named: "good_entry T s" if "named_entry T n t = Inr s" for n t
  proof -
    have "good_name (ascii_lowercase n)" "s = ascii_lowercase n @ CHR ''='' # t"
      "\<forall>url. scheme_parse t = Some (Proxy, url) \<longrightarrow> proxy_origin T (ascii_lowercase n) url = Inr ()"
      using that by (auto simp: named_entry_def bindR_Inr_iff map_err_Inr_iff service_name_reads [OF T])
    then show ?thesis unfolding good_entry_def by blast
  qed
  have bare: "good_entry T s" if b: "bare_entry T e = Inr s" and q: "CHR ''='' \<notin> set e"
  proof -
    obtain nm where nm: "service_name (et_service T) e = Inr nm" "s = (case find (\<lambda>(built_in, _). built_in = service_str nm) BUILT_IN of
        Some (_, target) \<Rightarrow> service_str nm @ CHR ''='' # target | None \<Rightarrow> service_str nm)"
      using b q m by (auto simp: bare_entry_def bindR_Inr_iff map_err_Inr_iff Let_def split: if_splits)
    then have n: "good_name (ascii_lowercase e)" and e: "service_str nm = ascii_lowercase e"
      by (simp_all add: service_name_reads [OF T])
    note s = nm(2) [unfolded e]
    obtain b t where f: "find (\<lambda>(built_in, _). built_in = ascii_lowercase e) BUILT_IN = Some (b, t)"
      using m s n good_name_no(1) by (auto split: option.splits)
    then have t: "(b, t) \<in> set BUILT_IN" using find_Some_set by metis
    have "s = ascii_lowercase e @ CHR ''='' # t" using s f by simp
    then show ?thesis using n built_in_good [OF t] unfolding good_entry_def by blast
  qed
  show ?thesis
  proof (cases "scheme_parse e")
    case None
    then show ?thesis using e named bare by (auto simp: service_entry_def Let_def split_once_None split: option.splits)
  next
    case (Some p)
    obtain sch url where p: "p = (sch, url)" by (cases p)
    show ?thesis
    proof (cases "sch = Proxy")
      case True
      then have s: "s = ''proxy'' @ CHR ''='' # e" "proxy_origin T ''proxy'' url = Inr ()"
        using e Some p by (auto simp: service_entry_def Let_def bindR_Inr_iff)
      then show ?thesis using Some True p good_names(1)
        unfolding good_entry_def by (intro exI [of _ "''proxy''"] exI [of _ e]) auto
    next
      case nonproxy: False
      show ?thesis
      proof (cases "sch = Recv \<and> CHR ''='' \<notin> set e")
        case True
        then have s: "s = ''recv'' @ CHR ''='' # e" using e Some p by (simp add: service_entry_def Let_def)
        then show ?thesis using Some True p good_names(2)
          unfolding good_entry_def by (intro exI [of _ "''recv''"] exI [of _ e]) auto
      next
        case False
        then have "(case split_once (CHR ''='') e of Some (n, t) \<Rightarrow> named_entry T n t | None \<Rightarrow> bare_entry T e) = Inr s"
          using e Some p nonproxy by (auto simp: service_entry_def Let_def split: scheme.splits)
        then show ?thesis using named bare by (auto simp: split_once_None split: option.splits)
      qed
    qed
  qed
qed

lemma built_in_shown:
  assumes "reads_services T" "(n, t) \<in> set BUILT_IN"
  shows "service_entry T n = Inr (n @ CHR ''='' # t)"
proof -
  have g: "good_name n" using built_in_good [OF assms(2)] by blast
  have n: "n \<in> {''ping'', ''speed'', ''ssh''}" using assms(2) by (auto simp: BUILT_IN_def)
  have s: "service_name (et_service T) n = Inr (Service n)"
    using g by (simp add: service_name_reads [OF assms(1)] good_name_lower)
  have p: "\<not> is_port n" using n by (elim insertE) (simp_all add: is_port_def is_ascii_digit_def code_def)
  have x: "n \<noteq> ''proxy''" using n by (elim insertE) simp_all
  have "scheme_parse n = None" using good_name_no(2) [OF g] by (simp add: scheme_parse_def split_once_None [THEN iffD2])
  moreover have "split_once (CHR ''='') n = None" using good_name_no(1) [OF g] by (simp add: split_once_None [THEN iffD2])
  moreover have "find (\<lambda>(built_in, _). built_in = n) BUILT_IN = Some (n, t)"
    using assms(2) by (auto simp: BUILT_IN_def)
  ultimately show ?thesis using s p x good_name_no(2) [OF g] by (simp add: service_entry_def bare_entry_def)
qed

text \<open>
  C27: An entry reads as it is saved, and as it is shown. What the entry parser makes of a typed service
  parses to itself, so the list resumes what was typed; and the short form a line hands back to the person
  parses to the entry it stands for, with one exception: a receiver named \<^verbatim>\<open>recv\<close> whose directory has an
  equals sign is shown as \<^verbatim>\<open>recv:<dir>\<close>, which the parser splits at that sign and refuses.
\<close>

theorem shown_entry_reads:
  assumes "reads_services T" "service_entry T typed = Inr s" "CHR ''='' \<in> set s"
  shows "service_entry T s = Inr s
    \<and> (if \<exists>dir. s = ''recv=recv:'' @ dir \<and> CHR ''='' \<in> set dir
       then \<exists>e. service_entry T (as_typed s) = Inl e
       else service_entry T (as_typed s) = Inr s)"
proof -
  have good: "good_entry T s" by (rule service_entry_good [OF assms])
  then obtain n t where s: "s = n @ CHR ''='' # t" "good_name n"
    "\<And>url. scheme_parse t = Some (Proxy, url) \<Longrightarrow> proxy_origin T n url = Inr ()"
    by (auto simp: good_entry_def)
  have self: "service_entry T s = Inr s" by (rule good_entry_reads [OF assms(1) good])
  have dir: "(\<exists>dir. s = ''recv=recv:'' @ dir \<and> CHR ''='' \<in> set dir) \<longleftrightarrow>
      n = ''recv'' \<and> (\<exists>d. scheme_parse t = Some (Recv, d)) \<and> CHR ''='' \<in> set t"
  proof
    assume "\<exists>dir. s = ''recv=recv:'' @ dir \<and> CHR ''='' \<in> set dir"
    then obtain d where d: "s = ''recv'' @ CHR ''='' # ''recv:'' @ d" "CHR ''='' \<in> set d" by auto
    have "split_once (CHR ''='') s = Some (''recv'', ''recv:'' @ d)" using d(1) good_names(2) by simp
    then have "n = ''recv'' \<and> t = ''recv:'' @ d" using s(1,2) by simp
    then show "n = ''recv'' \<and> (\<exists>d. scheme_parse t = Some (Recv, d)) \<and> CHR ''='' \<in> set t"
      using d(2) by (simp add: scheme_parse_Some)
  next
    assume "n = ''recv'' \<and> (\<exists>d. scheme_parse t = Some (Recv, d)) \<and> CHR ''='' \<in> set t"
    then show "\<exists>dir. s = ''recv=recv:'' @ dir \<and> CHR ''='' \<in> set dir"
      by (auto simp: s(1) scheme_parse_Some)
  qed
  have shown: "as_typed s = (if (n, t) \<in> set BUILT_IN then n
      else if n = ''proxy'' \<and> (\<exists>d. scheme_parse t = Some (Proxy, d)) then t
      else if n = ''recv'' \<and> (\<exists>d. scheme_parse t = Some (Recv, d)) then t else s)"
    using s(2) by (auto simp: as_typed_def s(1) split: option.splits)
  consider "(n, t) \<in> set BUILT_IN" | d where "(n, t) \<notin> set BUILT_IN" "n = ''proxy''" "scheme_parse t = Some (Proxy, d)"
    | d where "(n, t) \<notin> set BUILT_IN" "n = ''recv''" "scheme_parse t = Some (Recv, d)"
    | "(n, t) \<notin> set BUILT_IN" "\<not> (n = ''proxy'' \<and> (\<exists>d. scheme_parse t = Some (Proxy, d)))"
      "\<not> (n = ''recv'' \<and> (\<exists>d. scheme_parse t = Some (Recv, d)))"
    by blast
  then have "if n = ''recv'' \<and> (\<exists>d. scheme_parse t = Some (Recv, d)) \<and> CHR ''='' \<in> set t
      then \<exists>e. service_entry T (as_typed s) = Inl e else service_entry T (as_typed s) = Inr s"
  proof cases
    case 1
    have "as_typed s = n" unfolding shown using 1 by simp
    moreover have "n \<noteq> ''recv''" using 1 by (auto simp: BUILT_IN_def)
    ultimately show ?thesis using self built_in_shown [OF assms(1) 1] by (simp add: s(1))
  next
    case 2
    have "service_entry T t = Inr s" using 2 s(3) [OF 2(3)] by (simp add: service_entry_def Let_def s(1))
    then show ?thesis using self 2 by (simp add: shown)
  next
    case 3
    have t: "t = ''recv'' @ CHR '':'' # d" using 3(3) by (simp add: scheme_parse_Some)
    show ?thesis
    proof (cases "CHR ''='' \<in> set t")
      case True
      then obtain a b where ab: "split_once (CHR ''='') t = Some (a, b)" by (cases "split_once (CHR ''='') t") (auto simp: split_once_None)
      then have "t = a @ CHR ''='' # b" "CHR ''='' \<notin> set a" by (simp_all add: split_once_Some)
      then have "CHR '':'' \<in> set a" using t by (auto simp: append_eq_append_conv2 Cons_eq_append_conv append_eq_Cons_conv)
      then have "CHR '':'' \<in> set (ascii_lowercase a)"
        by (force simp: ascii_lowercase_def ascii_lower_def is_ascii_upper_def code_def image_iff)
      then have "\<not> good_name (ascii_lowercase a)" using good_name_no(2) by blast
      then have "\<exists>e. service_name (et_service T) a = Inl e"
        using service_name_reads [OF assms(1), of a] by (cases "service_name (et_service T) a") auto
      then have "\<exists>e. service_entry T t = Inl e"
        using 3 ab True by (auto simp: service_entry_def named_entry_def)
      then show ?thesis using self 3 True by (auto simp: shown)
    next
      case False
      then have "service_entry T t = Inr s" using 3 by (simp add: service_entry_def Let_def s(1))
      then show ?thesis using self 3 False by (simp add: shown)
    qed
  next
    case 4
    then have "as_typed s = s" unfolding shown by auto
    then show ?thesis using self 4(3) by auto
  qed
  then show ?thesis unfolding dir using self by (rule conjI [rotated])
qed

definition example_entries :: entry_text where
  "example_entries = \<lparr>et_service = (\<lambda>t. Some (Service t)), et_url = (\<lambda>_. None)\<rparr>"

lemma example_reads_services: "reads_services example_entries"
  by (simp add: reads_services_def example_entries_def)

lemma example_receiver: "service_entry example_entries ''recv=recv:/a=b'' = Inr ''recv=recv:/a=b''"
proof (rule good_entry_reads(1) [OF example_reads_services])
  show "good_entry example_entries ''recv=recv:/a=b''" unfolding good_entry_def
    by (rule exI [of _ "''recv''"], rule exI [of _ "''recv:/a=b''"]) (simp add: good_names scheme_parse_Some)
qed

theorem shown_entry_reads_witness:
  "(\<exists>e. service_entry example_entries (as_typed ''recv=recv:/a=b'') = Inl e)"
proof -
  have "\<exists>dir. ''recv=recv:/a=b'' = ''recv=recv:'' @ dir \<and> CHR ''='' \<in> set dir" by (rule exI [of _ "''/a=b''"]) simp
  then show ?thesis using shown_entry_reads [OF example_reads_services example_receiver] by simp
qed

section \<open>Lists of entries\<close>

lemma twice_from_None: "twice_from seen ns = None \<longleftrightarrow> distinct ns \<and> set ns \<inter> set seen = {}"
  by (induction seen ns rule: twice_from.induct) auto

lemma twice_None: "twice ns = None \<longleftrightarrow> distinct ns"
  by (simp add: twice_def twice_from_None)

lemma check_names_Inr: "check_names ns = Inr () \<longleftrightarrow> distinct ns"
  by (auto simp: check_names_def twice_None [symmetric] split: option.splits)

lemma once_Inr: "once es = Inr () \<longleftrightarrow> distinct (entry_names es)"
  by (auto simp: once_def twice_None [symmetric] split: option.splits)

lemma mistyped_check_Inr:
  "mistyped_check es = Inr () \<Longrightarrow> (\<forall>e \<in> set es. CHR ''='' \<in> set e) \<and> distinct (entry_names es)"
  by (auto simp: mistyped_check_def check_names_Inr find_None_iff split: option.splits)

lemma collectR_Inr: "collectR f xs = Inr ys \<longleftrightarrow> list_all2 (\<lambda>x y. f x = Inr y) xs ys"
proof (induction xs arbitrary: ys)
  case (Cons x xs)
  then show ?case by (cases ys) (auto simp: bindR_Inr_iff)
qed auto

lemma entry_names_simps [simp]:
  "entry_names [] = []"
  "entry_names (e # es) = (case split_once (CHR ''='') e of None \<Rightarrow> entry_names es | Some (n, t) \<Rightarrow> n # entry_names es)"
  by (auto simp: entry_names_def List.map_filter_simps split: option.splits)

lemma entry_names_append: "entry_names (es @ fs) = entry_names es @ entry_names fs"
  by (induction es) (auto split: option.splits)

definition list_ok :: "entry_text \<Rightarrow> string list \<Rightarrow> bool" where
  "list_ok T es \<longleftrightarrow> (\<forall>e \<in> set es. good_entry T e) \<and> distinct (entry_names es)"

text \<open>What a list serves under a name, and what entries name.\<close>

definition served :: "string list \<Rightarrow> string \<Rightarrow> string option" where
  "served es name = find_map (\<lambda>e. target_under e name) es"

lemma target_under_Some: "target_under e name = Some t \<longleftrightarrow> split_once (CHR ''='') e = Some (name, t)"
  by (auto simp: target_under_def split: option.splits if_splits)

lemma served_simps [simp]:
  "served [] name = None"
  "served (e # es) name = (case split_once (CHR ''='') e of None \<Rightarrow> served es name
     | Some (n, t) \<Rightarrow> if n = name then Some t else served es name)"
  by (auto simp: served_def target_under_def split: option.splits)

lemma served_append: "served (es @ fs) name = (case served es name of None \<Rightarrow> served fs name | Some t \<Rightarrow> Some t)"
  by (induction es) (auto split: option.splits)

lemma served_names: "served es name \<noteq> None \<longleftrightarrow> name \<in> set (entry_names es)"
  by (induction es) (auto split: option.splits)

lemma served_None: "served es name = None \<longleftrightarrow> name \<notin> set (entry_names es)"
  using served_names [of es name] by blast

lemma served_mem:
  "distinct (entry_names es) \<Longrightarrow> n @ CHR ''='' # t \<in> set es \<Longrightarrow> CHR ''='' \<notin> set n \<Longrightarrow> served es n = Some t"
proof (induction es)
  case (Cons e es)
  show ?case
  proof (cases "e = n @ CHR ''='' # t")
    case True
    then show ?thesis using Cons.prems(3) by (simp add: split_once_append)
  next
    case False
    then have m: "served es n = Some t" using Cons by (auto split: option.splits)
    then have "n \<in> set (entry_names es)" using served_names by blast
    then show ?thesis using Cons.prems(1) m by (auto split: option.splits)
  qed
qed simp

lemma default_ok: "reads_services T \<Longrightarrow> list_ok T DEFAULT_SERVICES"
proof -
  have "good_entry T (n @ CHR ''='' # t)" if "(n, t) \<in> set BUILT_IN" for n t
    using built_in_good [OF that] unfolding good_entry_def by blast
  from this [of "''ping''" "''ping:''"] this [of "''speed''" "''speed:''"]
  show ?thesis by (simp add: list_ok_def DEFAULT_SERVICES_def BUILT_IN_def)
qed

lemma started_bare_ok:
  assumes "reads_services T" "started_bare T kept = Inr st"
  shows "list_ok T (started_entries st)"
    "st = (case tm_services kept of None \<Rightarrow> StDefault | Some _ \<Rightarrow> StResumed (started_entries st))"
proof -
  have "list_ok T (started_entries st) \<and>
    st = (case tm_services kept of None \<Rightarrow> StDefault | Some _ \<Rightarrow> StResumed (started_entries st))"
  proof (cases "tm_services kept")
    case None
    then show ?thesis using assms default_ok by (simp add: started_bare_def started_entries_def)
  next
    case (Some listed)
    obtain es where es: "list_all2 (\<lambda>l e. kept_line T l = Inr e) listed es" "distinct (entry_names es)" "st = StResumed es"
      using assms(2) Some by (auto simp: started_bare_def bindR_Inr_iff collectR_Inr once_Inr)
    have "good_entry T e" if "kept_line T l = Inr e" for l e
      using that service_entry_good [OF assms(1)] by (auto simp: kept_line_def bindR_Inr_iff map_err_Inr_iff split: if_splits)
    moreover have "\<forall>e \<in> set es. \<exists>l. kept_line T l = Inr e"
      using es(1) unfolding list_all2_conv_all_nth by (metis in_set_conv_nth)
    ultimately have "\<forall>e \<in> set es. good_entry T e" by blast
    then show ?thesis using es Some by (simp add: started_entries_def list_ok_def)
  qed
  then show "list_ok T (started_entries st)"
    "st = (case tm_services kept of None \<Rightarrow> StDefault | Some _ \<Rightarrow> StResumed (started_entries st))" by blast+
qed

lemma bare_of_ok:
  assumes "reads_services T" "list_ok T es" "tm_services kept = Some es"
  shows "started_bare T kept = Inr (StResumed es)"
proof -
  have "list_all2 (\<lambda>l e. kept_line T l = Inr e) es es"
    using good_entry_reads(2) [OF assms(1)] assms(2) by (auto simp: list_ok_def list_all2_conv_all_nth)
  then have "collectR (kept_line T) es = Inr es" by (simp add: collectR_Inr)
  then show ?thesis using assms(2,3) by (simp add: started_bare_def once_Inr [THEN iffD2] list_ok_def)
qed

text \<open>Making a path absolute keeps an entry's name and a good entry good.\<close>

lemma saved_entry_good:
  assumes "good_entry T e" "saved_entry cwd e = Inr s"
  obtains n t t' where "e = n @ CHR ''='' # t" "s = n @ CHR ''='' # t'" "good_name n" "good_entry T s"
proof -
  obtain n t where e: "e = n @ CHR ''='' # t" "good_name n"
    "\<And>url. scheme_parse t = Some (Proxy, url) \<Longrightarrow> proxy_origin T n url = Inr ()"
    using assms(1) by (auto simp: good_entry_def)
  have a: "absolute e cwd = Some s"
    using assms(2) by (auto simp: saved_entry_def bindR_Inr_iff ok_or_Inr_iff split: if_splits)
  show thesis
  proof (cases "s = e")
    case True
    then show ?thesis using that e assms(1) by blast
  next
    case False
    then obtain sch rest where t: "split_once (CHR '':'') t = Some (sch, rest)"
      using a e(1,2) by (auto simp: absolute_def split: option.splits)
    define path where "path = (if rest = [] then cwd else cwd_join cwd rest)"
    have p: "split_once (CHR '':'') t = Some (sch, rest)" "sch \<in> set PATH_SCHEMES"
      "s = n @ CHR ''='' # sch @ CHR '':'' # path"
      using a e(1,2) t False by (auto simp: absolute_def Let_def path_def split: if_splits)
    have "CHR '':'' \<notin> set sch" using p(1) by (simp add: split_once_Some)
    moreover have "sch \<noteq> ''proxy''" using p(2) by (auto simp: PATH_SCHEMES_def)
    ultimately have "scheme_parse (sch @ CHR '':'' # path) \<noteq> Some (Proxy, url)" for url
      using split_once_append [of "CHR '':''" sch path] by (auto simp: scheme_parse_Some dest: arg_cong [where f = "split_once (CHR '':'')"])
    then have "good_entry T s" using e(2) unfolding good_entry_def p(3) by blast
    then show ?thesis using that e(1,2) p(3) by blast
  qed
qed

lemma saved_entries_ok:
  assumes "list_all2 (\<lambda>e s. saved_entry cwd e = Inr s) es ss" "\<forall>e \<in> set es. good_entry T e"
  shows "\<forall>s \<in> set ss. good_entry T s" "entry_names ss = entry_names es"
proof -
  have "(\<forall>s \<in> set ss. good_entry T s) \<and> entry_names ss = entry_names es"
    using assms
  proof (induction rule: list_all2_induct)
    case (Cons e es s ss)
    then obtain n t t' where n: "e = n @ CHR ''='' # t" "s = n @ CHR ''='' # t'" "good_name n" "good_entry T s"
      using saved_entry_good [of T e cwd s] by (metis list.set_intros(1))
    then show ?case using Cons by simp
  qed simp
  then show "\<forall>s \<in> set ss. good_entry T s" "entry_names ss = entry_names es" by blast+
qed

text \<open>Entries typed on a command line went through the entry parser.\<close>

definition typed_entries :: "entry_text \<Rightarrow> string list \<Rightarrow> bool" where
  "typed_entries T es \<longleftrightarrow> (\<forall>e \<in> set es. \<exists>x. service_entry T x = Inr e)"

lemma typed_good:
  assumes "reads_services T" "typed_entries T es" "mistyped_check es = Inr ()"
  shows "list_ok T es"
  using assms mistyped_check_Inr [OF assms(3)] service_entry_good [OF assms(1)]
  by (auto simp: list_ok_def typed_entries_def)

text \<open>
  A start serves each name once, and the next bare start serves the same. Whatever a start settles on,
  every entry of it has its name and its target and reads as itself, and no name is served twice; and once
  a named start is recorded, whatever the file held, a start with nothing named resumes exactly its entries.
\<close>

theorem start_names_once:
  assumes "reads_services T" "typed_entries T named" "started_of T named kept cwd = Inr st"
  shows "distinct (started_names st)
    \<and> (\<forall>e \<in> set (started_entries st). \<exists>n t. e = n @ CHR ''='' # t \<and> good_name n \<and> service_entry T e = Inr e)
    \<and> (named \<noteq> [] \<longrightarrow> started_names st = entry_names named
        \<and> started_bare T (started_record T st file) = Inr (StResumed (started_entries st)))"
proof -
  have n: "list_ok T (started_entries st) \<and> st = StNamed (started_entries st) \<and> started_names st = entry_names named"
    if ne: "named \<noteq> []"
  proof -
    obtain ss where ss: "mistyped_check named = Inr ()" "list_all2 (\<lambda>e s. saved_entry cwd e = Inr s) named ss" "st = StNamed ss"
      using assms(3) ne by (auto simp: started_of_def bindR_Inr_iff map_err_Inr_iff collectR_Inr)
    have ok: "list_ok T named" by (rule typed_good [OF assms(1,2) ss(1)])
    then show ?thesis using saved_entries_ok [OF ss(2), of T] ss(3)
      by (simp add: list_ok_def started_entries_def started_names_def)
  qed
  have ok: "list_ok T (started_entries st)"
  proof (cases "named = []")
    case True
    then show ?thesis using assms(3) started_bare_ok(1) [OF assms(1)] by (simp add: started_of_def)
  next
    case False
    then show ?thesis using n by blast
  qed
  have "started_bare T (started_record T st file) = Inr (StResumed (started_entries st))" if "named \<noteq> []"
  proof -
    have "tm_services (started_record T (StNamed (started_entries st)) file) = Some (started_entries st)"
      by (simp add: started_record_def)
    then show ?thesis using n [OF that] bare_of_ok [OF assms(1) ok] by metis
  qed
  moreover have "\<exists>n t. e = n @ CHR ''='' # t \<and> good_name n \<and> service_entry T e = Inr e" if "e \<in> set (started_entries st)" for e
  proof -
    have g: "good_entry T e" using ok that by (simp add: list_ok_def)
    then show ?thesis using good_entry_reads(1) [OF assms(1) g] by (auto simp: good_entry_def)
  qed
  ultimately show ?thesis using ok n by (simp add: list_ok_def started_names_def)
qed

definition example_kept :: serve_toml where
  "example_kept = serve_toml_default\<lparr>tm_services := Some [''web=tcp:localhost:80''], tm_off := [(''ssh'', ())]\<rparr>"

lemma example_ssh: "typed_entries example_entries [''ssh=sshd:'']"
  "started_of example_entries [''ssh=sshd:''] example_kept ''/home'' = Inr (StNamed [''ssh=sshd:''])"
proof -
  have "service_entry example_entries ''ssh'' = Inr ''ssh=sshd:''"
    using built_in_shown [OF example_reads_services, of "''ssh''" "''sshd:''"] by (simp add: BUILT_IN_def)
  then show "typed_entries example_entries [''ssh=sshd:'']" by (auto simp: typed_entries_def)
  have "trim ''ssh=sshd:'' = ''ssh=sshd:''" by (rule trim_solid) (simp_all add: solid_def code_def)
  then show "started_of example_entries [''ssh=sshd:''] example_kept ''/home'' = Inr (StNamed [''ssh=sshd:''])"
    by (simp add: started_of_def mistyped_check_def port_target_def is_port_def is_ascii_digit_def check_names_def twice_def
        saved_entry_def absolute_def PATH_SCHEMES_def code_def)
qed

theorem start_names_once_witness:
  "started_bare example_entries (started_record example_entries (StNamed [''ssh=sshd:'']) example_kept) = Inr (StResumed [''ssh=sshd:''])"
  using start_names_once [OF example_reads_services example_ssh] by (simp add: started_entries_def)

section \<open>Edits\<close>

text \<open>Whether a list does not serve an entry's name, and whether it serves it as the entry does when it does.\<close>

definition unlisted :: "string list \<Rightarrow> string \<Rightarrow> bool" where
  "unlisted held s = (case split_once (CHR ''='') s of Some (n, _) \<Rightarrow> served held n = None | None \<Rightarrow> False)"

definition agrees :: "string list \<Rightarrow> string \<Rightarrow> bool" where
  "agrees held s = (case split_once (CHR ''='') s of Some (n, t) \<Rightarrow> served held n \<in> {None, Some t} | None \<Rightarrow> True)"

lemma is_new_simps [simp]: "is_new (AddedNew n)" "\<not> is_new (Listed n)" "\<not> is_new (ListedOff n)"
  by (simp_all add: is_new_def)

lemma add_one_Inr:
  assumes "each_entry (add_one cwd off held) es (found, fresh) = Inr (found', fresh')" "\<forall>e \<in> set es. good_entry T e"
  shows "\<exists>ss. list_all2 (\<lambda>e s. saved_entry cwd e = Inr s) es ss \<and> fresh' = fresh @ filter (unlisted held) ss
    \<and> (\<forall>s \<in> set ss. agrees held s)
    \<and> (list_ex is_new found' \<longleftrightarrow> list_ex is_new found \<or> (\<exists>s \<in> set ss. unlisted held s))"
  using assms
proof (induction es arbitrary: found fresh)
  case (Cons e es)
  obtain mid fresh1 where m: "add_one cwd off held e (found, fresh) = Inr (mid, fresh1)"
    "each_entry (add_one cwd off held) es (mid, fresh1) = Inr (found', fresh')"
    using Cons.prems(1) by (auto simp: bindR_Inr_iff)
  obtain ss where ss: "list_all2 (\<lambda>e s. saved_entry cwd e = Inr s) es ss" "fresh' = fresh1 @ filter (unlisted held) ss"
    "\<forall>s \<in> set ss. agrees held s" "list_ex is_new found' \<longleftrightarrow> list_ex is_new mid \<or> (\<exists>s \<in> set ss. unlisted held s)"
    using Cons.IH [OF m(2)] Cons.prems(2) by auto
  obtain s where s: "saved_entry cwd e = Inr s"
    using m(1) by (cases "saved_entry cwd e") (auto simp: add_one_def)
  have g: "good_entry T e" using Cons.prems(2) by simp
  obtain n t where n: "s = n @ CHR ''='' # t" "good_name n" using saved_entry_good [OF g s] by metis
  have one: "(unlisted held s \<and> mid = found @ [AddedNew n] \<and> fresh1 = fresh @ [s]) \<or>
      (\<not> unlisted held s \<and> fresh1 = fresh \<and> (\<exists>x. \<not> is_new x \<and> mid = found @ [x]))" and "agrees held s"
    using m(1) s n by (auto simp: add_one_def served_def unlisted_def agrees_def split: option.splits if_splits)
  then have "list_ex is_new mid \<longleftrightarrow> list_ex is_new found \<or> unlisted held s"
    "fresh1 = fresh @ filter (unlisted held) [s]" by auto
  then show ?case using ss s \<open>agrees held s\<close> by (intro exI [of _ "s # ss"]) auto
qed auto

lemma unlisted_names:
  "\<forall>s \<in> set ss. good_entry T s \<Longrightarrow>
   entry_names (filter (unlisted held) ss) = filter (\<lambda>n. served held n = None) (entry_names ss)"
proof (induction ss)
  case (Cons s ss)
  then obtain n t where "s = n @ CHR ''='' # t" "good_name n" by (auto simp: good_entry_def)
  then show ?case using Cons by (simp add: unlisted_def)
qed simp

lemma add_distinct:
  assumes "distinct (entry_names held)" "distinct (entry_names ss)" "\<forall>s \<in> set ss. good_entry T s"
  shows "distinct (entry_names (held @ filter (unlisted held) ss))"
  using assms(1,2) by (simp add: entry_names_append unlisted_names [OF assms(3)]) (auto simp: served_None)

text \<open>
  Adding services adds what was named and moves nothing else. An add starts from the list a bare start
  reads; every service listed keeps its target, every added entry is then listed under the target it was
  given, and no other name is; a name keeps being listed once, and what is off, the relay and the resolver
  stay as they were.
\<close>

lemma add_changes:
  assumes "reads_services T" "typed_entries T entries" "toml_add T entries cwd file = Inr (found, file')"
  shows "\<exists>held now. started_bare T file = Inr held \<and> started_bare T file' = Inr now
    \<and> (\<forall>n t. served (started_entries held) n = Some t \<longrightarrow> served (started_entries now) n = Some t)
    \<and> (\<forall>e \<in> set entries. \<exists>n t. saved_entry cwd e = Inr (n @ CHR ''='' # t) \<and> served (started_entries now) n = Some t)
    \<and> set (started_names now) = set (started_names held) \<union> set (entry_names entries)
    \<and> distinct (started_names now)
    \<and> tm_off file' = tm_off file \<and> tm_relay file' = tm_relay file \<and> tm_resolver file' = tm_resolver file"
proof -
  obtain held fresh where h: "mistyped_check entries = Inr ()" "started_bare T file = Inr held"
    "each_entry (add_one cwd (tm_off file) (started_entries held)) entries ([], []) = Inr (found, fresh)"
    "file' = (if list_ex is_new found then file\<lparr>tm_services := Some (started_entries held @ fresh)\<rparr> else file)"
    using assms(3) by (auto simp: toml_add_def bindR_Inr_iff map_err_Inr_iff)
  let ?L = "started_entries held"
  have ty: "list_ok T entries" by (rule typed_good [OF assms(1,2) h(1)])
  have L: "list_ok T ?L" by (rule started_bare_ok(1) [OF assms(1) h(2)])
  have good: "\<forall>e \<in> set entries. good_entry T e" using ty by (simp add: list_ok_def)
  obtain ss where ss: "list_all2 (\<lambda>e s. saved_entry cwd e = Inr s) entries ss" "fresh = filter (unlisted ?L) ss"
    "\<forall>s \<in> set ss. agrees ?L s" "list_ex is_new found \<longleftrightarrow> (\<exists>s \<in> set ss. unlisted ?L s)"
    using add_one_Inr [OF h(3) good] by auto
  note sg = saved_entries_ok [OF ss(1) good]
  have all: "list_ok T (?L @ fresh)"
    using L sg ty add_distinct [of ?L ss T] by (auto simp: list_ok_def ss(2))
  have none: "fresh = []" if "\<not> list_ex is_new found" using that ss(4) by (simp add: ss(2))
  obtain now where now: "started_bare T file' = Inr now" "started_entries now = ?L @ fresh"
  proof (cases "list_ex is_new found")
    case True
    then show ?thesis using that bare_of_ok [OF assms(1) all] h(4) by (simp add: started_entries_def)
  next
    case False
    then show ?thesis using that h(2,4) none by simp
  qed
  have each: "\<exists>n t. saved_entry cwd e = Inr (n @ CHR ''='' # t) \<and> served (?L @ fresh) n = Some t" if e: "e \<in> set entries" for e
  proof -
    obtain s where s: "saved_entry cwd e = Inr s" "s \<in> set ss" using e ss(1) unfolding list_all2_conv_all_nth by (metis in_set_conv_nth)
    then obtain n t where n: "s = n @ CHR ''='' # t" "good_name n" using sg(1) by (auto simp: good_entry_def)
    show ?thesis
    proof (cases "served ?L n")
      case None
      then have "n @ CHR ''='' # t \<in> set (?L @ fresh)" using s(2) n by (simp add: ss(2) unlisted_def)
      then have "served (?L @ fresh) n = Some t"
        using served_mem [of "?L @ fresh" n t] all good_name_no(1) [OF n(2)] by (simp add: list_ok_def)
      then show ?thesis using s n by blast
    next
      case (Some t')
      then have "t' = t" using ss(3) s(2) n by (auto simp: agrees_def)
      then show ?thesis using Some s n by (intro exI [of _ n] exI [of _ t]) (simp add: served_append)
    qed
  qed
  have names: "set (entry_names (?L @ fresh)) = set (entry_names ?L) \<union> set (entry_names entries)"
    by (auto simp: entry_names_append ss(2) unlisted_names [OF sg(1)] sg(2) served_None)
  show ?thesis
  proof (rule exI [of _ held], rule exI [of _ now], intro conjI)
    show "\<forall>n t. served ?L n = Some t \<longrightarrow> served (started_entries now) n = Some t" by (simp add: now(2) served_append)
    show "\<forall>e \<in> set entries. \<exists>n t. saved_entry cwd e = Inr (n @ CHR ''='' # t) \<and> served (started_entries now) n = Some t"
      using each by (simp add: now(2))
    show "set (started_names now) = set (started_names held) \<union> set (entry_names entries)"
      using names by (simp add: started_names_def now(2))
    show "distinct (started_names now)" using all by (simp add: started_names_def now(2) list_ok_def)
  qed (use h(2,4) now(1) in auto)
qed

lemma target_under_None: "target_under e name = None \<longleftrightarrow> (\<forall>t. split_once (CHR ''='') e \<noteq> Some (name, t))"
  by (auto simp: target_under_def split: option.splits)

lemma remove_one_Inr:
  assumes "each_entry remove_one ns es = Inr es'"
  shows "served es' m = (if m \<in> set ns then None else served es m)" "set es' \<subseteq> set es"
    "distinct (entry_names es) \<Longrightarrow> distinct (entry_names es')"
proof -
  have f: "served (filter (\<lambda>e. target_under e n = None) es) m = (if m = n then None else served es m)" for n es m
    by (induction es) (auto simp: target_under_None split: option.splits)
  have d: "distinct (entry_names (filter P es))" if "distinct (entry_names es)" for P and es :: "string list"
  proof -
    have "n \<in> set (entry_names (filter P es)) \<Longrightarrow> n \<in> set (entry_names es)" for n es
      by (induction es) (auto split: option.splits if_splits)
    then show ?thesis using that by (induction es) (auto split: option.splits)
  qed
  have "served es' m = (if m \<in> set ns then None else served es m) \<and> set es' \<subseteq> set es \<and>
    (distinct (entry_names es) \<longrightarrow> distinct (entry_names es'))"
    using assms
  proof (induction ns arbitrary: es)
    case (Cons n ns)
    obtain mid where mid: "remove_one n es = Inr mid" "each_entry remove_one ns mid = Inr es'"
      using Cons.prems by (auto simp: bindR_Inr_iff)
    then have m: "mid = filter (\<lambda>e. target_under e n = None) es"
      by (auto simp: remove_one_def Let_def split: if_splits)
    show ?case using Cons.IH [OF mid(2)] f [where es = es and n = n] d [of es] by (auto simp: m)
  qed simp
  then show "served es' m = (if m \<in> set ns then None else served es m)" "set es' \<subseteq> set es"
    "distinct (entry_names es) \<Longrightarrow> distinct (entry_names es')" by blast+
qed

lemma bt_has_remove [simp]: "bt_has (bt_remove k m) j \<longleftrightarrow> j \<noteq> k \<and> bt_has m j"
  by (simp add: bt_has_def bt_remove_get)

lemma remove_changes:
  assumes "reads_services T" "toml_remove T ns file = Inr file'"
  shows "\<exists>held now. started_bare T file = Inr held \<and> started_bare T file' = Inr now
    \<and> (\<forall>n. served (started_entries now) n = (if n \<in> service_str ` set ns then None else served (started_entries held) n))
    \<and> (\<forall>n. bt_has (tm_off file') n \<longleftrightarrow> bt_has (tm_off file) n \<and> n \<notin> service_str ` set ns)
    \<and> tm_relay file' = tm_relay file \<and> tm_resolver file' = tm_resolver file"
proof -
  obtain held es where h: "started_bare T file = Inr held"
    "each_entry remove_one (map service_str ns) (started_entries held) = Inr es"
    "file' = file\<lparr>tm_off := fold (\<lambda>n. bt_remove (service_str n)) ns (tm_off file), tm_services := Some es\<rparr>"
    using assms(2) by (auto simp: toml_remove_def bindR_Inr_iff map_err_Inr_iff)
  have "list_ok T es" using remove_one_Inr [OF h(2)] started_bare_ok(1) [OF assms(1) h(1)] by (auto simp: list_ok_def)
  then have now: "started_bare T file' = Inr (StResumed es)" by (rule bare_of_ok [OF assms(1)]) (simp add: h(3))
  have "bt_has (fold (\<lambda>n. bt_remove (service_str n)) ns off) n \<longleftrightarrow> bt_has off n \<and> n \<notin> service_str ` set ns" for n off
    by (induction ns arbitrary: off) auto
  then show ?thesis using h now remove_one_Inr(1) [OF h(2)] by (auto simp: started_entries_def)
qed

text \<open>What a start that is recorded turns back on: a name it adds, where the list could be read.\<close>

lemma record_off:
  assumes "st = StNamed es"
  shows "bt_has (tm_off (started_record T st file)) n \<longleftrightarrow> bt_has (tm_off file) n \<and>
    (case started_bare T file of Inl _ \<Rightarrow> True | Inr held \<Rightarrow> n \<in> set (started_names held) \<or> n \<notin> set (entry_names es))"
proof -
  have "bt_has (fold (\<lambda>name off. if name \<notin> H then bt_remove name off else off) ns off) n \<longleftrightarrow>
      bt_has off n \<and> (n \<in> H \<or> n \<notin> set ns)" for H ns and off :: "(string, unit) btree"
    by (induction ns arbitrary: off) auto
  then show ?thesis by (auto simp: started_record_def assms split: sum.splits)
qed

lemma started_bare_off [simp]: "started_bare T (file\<lparr>tm_off := x\<rparr>) = started_bare T file"
  by (simp add: started_bare_def)

section \<open>A service turned off\<close>

text \<open>What may be done to the file: a refused edit leaves it, and so does a start that names nothing.\<close>

datatype edit =
    AddServices "string list" string
  | RemoveServices "service list"
  | StartServe "string list" serve_toml string
  | Turn string way

definition apply_edit :: "entry_text \<Rightarrow> edit \<Rightarrow> serve_toml \<Rightarrow> serve_toml" where
  "apply_edit T e file =
     (case e of
        AddServices es cwd \<Rightarrow> (case toml_add T es cwd file of Inr (_, next) \<Rightarrow> next | Inl _ \<Rightarrow> file)
      | RemoveServices ns \<Rightarrow> (case toml_remove T ns file of Inr next \<Rightarrow> next | Inl _ \<Rightarrow> file)
      | StartServe named kept cwd \<Rightarrow>
          (case started_of T named kept cwd of Inr st \<Rightarrow> started_record T st file | Inl _ \<Rightarrow> file)
      | Turn name way \<Rightarrow> (case toggle T name way file of Inr (_, next) \<Rightarrow> next | Inl _ \<Rightarrow> file))"

definition listed_off :: "entry_text \<Rightarrow> string \<Rightarrow> serve_toml \<Rightarrow> bool" where
  "listed_off T n file \<longleftrightarrow> bt_has (tm_off file) n \<and>
     (\<exists>held. started_bare T file = Inr held \<and> n \<in> set (started_names held))"

text \<open>An edit that does not turn the service on, take it off the list, or replace the list with one without it.\<close>

definition leaves_off :: "entry_text \<Rightarrow> string \<Rightarrow> edit \<Rightarrow> bool" where
  "leaves_off T n e =
     (case e of
        AddServices es _ \<Rightarrow> typed_entries T es
      | RemoveServices ns \<Rightarrow> n \<notin> service_str ` set ns
      | StartServe named _ _ \<Rightarrow> typed_entries T named \<and> (named = [] \<or> n \<in> set (entry_names named))
      | Turn m way \<Rightarrow> way = WayOff \<or> m \<noteq> n)"

lemma edit_leaves_off:
  assumes T: "reads_services T" and o: "listed_off T n file" and e: "leaves_off T n e"
  shows "listed_off T n (apply_edit T e file)"
proof -
  obtain held where h: "bt_has (tm_off file) n" "started_bare T file = Inr held" "n \<in> set (started_names held)"
    using o by (auto simp: listed_off_def)
  show ?thesis
  proof (cases e)
    case (AddServices es cwd)
    show ?thesis
    proof (cases "toml_add T es cwd file")
      case (Inr r)
      obtain found next' where r: "r = (found, next')" by (cases r)
      have "typed_entries T es" using e AddServices by (simp add: leaves_off_def)
      from add_changes [OF T this] Inr r h show ?thesis
        by (fastforce simp: apply_edit_def AddServices listed_off_def)
    qed (use o in \<open>simp add: apply_edit_def AddServices\<close>)
  next
    case (RemoveServices ns)
    show ?thesis
    proof (cases "toml_remove T ns file")
      case (Inr next')
      have n: "n \<notin> service_str ` set ns" using e RemoveServices by (simp add: leaves_off_def)
      obtain now where now: "started_bare T next' = Inr now" "served (started_entries now) n = served (started_entries held) n"
        "bt_has (tm_off next') n"
        using remove_changes [OF T Inr] h n by auto
      have "n \<in> set (started_names now)"
        using h(3) now(2) served_names unfolding started_names_def by metis
      then show ?thesis using now Inr by (auto simp: apply_edit_def RemoveServices listed_off_def)
    qed (use o in \<open>simp add: apply_edit_def RemoveServices\<close>)
  next
    case (StartServe named kept cwd)
    show ?thesis
    proof (cases "started_of T named kept cwd")
      case (Inr st)
      show ?thesis
      proof (cases "named = []")
        case True
        then have "\<And>es. st \<noteq> StNamed es"
          using Inr by (auto simp: started_of_def started_bare_def bindR_Inr_iff split: option.splits)
        then have "started_record T st file = file" by (cases st) (auto simp: started_record_def)
        then show ?thesis using o Inr by (simp add: apply_edit_def StartServe)
      next
        case False
        then have t: "typed_entries T named" "n \<in> set (entry_names named)" using e StartServe by (auto simp: leaves_off_def)
        obtain ss where ss: "mistyped_check named = Inr ()" "list_all2 (\<lambda>e s. saved_entry cwd e = Inr s) named ss" "st = StNamed ss"
          using Inr False by (auto simp: started_of_def bindR_Inr_iff map_err_Inr_iff collectR_Inr)
        have ok: "list_ok T named" by (rule typed_good [OF T t(1) ss(1)])
        note sg = saved_entries_ok [OF ss(2), of T]
        have "list_ok T ss" using sg ok by (simp add: list_ok_def)
        then have "started_bare T (started_record T st file) = Inr (StResumed ss)"
          by (rule bare_of_ok [OF T]) (simp add: ss(3) started_record_def)
        moreover have "n \<in> set (entry_names ss)" using sg ok t(2) by (simp add: list_ok_def)
        moreover have "bt_has (tm_off (started_record T st file)) n" using record_off [OF ss(3)] h by simp
        ultimately show ?thesis using Inr
          by (simp add: apply_edit_def StartServe listed_off_def started_names_def started_entries_def)
      qed
    qed (use o in \<open>simp add: apply_edit_def StartServe\<close>)
  next
    case (Turn m way)
    show ?thesis
    proof (cases "toggle T m way file")
      case (Inr r)
      obtain t next' where r: "r = (t, next')" by (cases r)
      have "(way = WayOn \<and> m \<noteq> n \<and> next' = file\<lparr>tm_off := bt_remove m (tm_off file)\<rparr>) \<or>
          next' = file\<lparr>tm_off := bt_insert m () (tm_off file)\<rparr>"
        using Inr r e Turn by (auto simp: toggle_def leaves_off_def bindR_Inr_iff split: way.splits if_splits)
      then have "bt_has (tm_off next') n" "started_bare T next' = started_bare T file" using h(1) by auto
      then show ?thesis using Inr r h by (auto simp: apply_edit_def Turn listed_off_def)
    qed (use o in \<open>simp add: apply_edit_def Turn\<close>)
  qed
qed

text \<open>
  C28: A service turned off stays off. Through any sequence of adds, removals, starts and turns, accepted or
  refused, a listed service that is off stays listed and off, as long as no step of it turns this service
  on, takes it off the list, or names a list without it: no restart and no add of a service already listed
  clears it.
\<close>

theorem off_stays_off:
  assumes "reads_services T" "listed_off T n kept" "\<forall>e \<in> set edits. leaves_off T n e"
  shows "listed_off T n (fold (apply_edit T) edits kept)"
  using assms(2,3)
proof (induction edits arbitrary: kept)
  case (Cons e edits)
  then show ?case using edit_leaves_off [OF assms(1)] by simp
qed simp

definition example_off :: serve_toml where
  "example_off = serve_toml_default\<lparr>tm_off := [(''ping'', ())]\<rparr>"

theorem off_stays_off_witness:
  "bt_has (tm_off (fold (apply_edit example_entries)
      [AddServices [''ssh=sshd:''] ''/home'', Turn ''ping'' WayOff, StartServe [] example_off ''/''] example_off)) ''ping''"
proof -
  have o: "listed_off example_entries ''ping'' example_off"
    by (simp add: listed_off_def example_off_def serve_toml_default_def bt_has_def bt_get_def started_bare_def
        started_names_def started_entries_def DEFAULT_SERVICES_def)
  have "\<forall>e \<in> set [AddServices [''ssh=sshd:''] ''/home'', Turn ''ping'' WayOff, StartServe [] example_off ''/''].
      leaves_off example_entries ''ping'' e"
    using example_ssh(1) by (simp add: leaves_off_def typed_entries_def)
  from off_stays_off [OF example_reads_services o this] show ?thesis unfolding listed_off_def by blast
qed

end
