(* ===== verification/Serve_Toml.thy ===== *)
theory Serve_Toml
  imports Serving_Laws Grants Contacts Joining
begin

text \<open>
  \<^verbatim>\<open>src/serve_toml.rs\<close>: the file of services, its text, how it is changed, and the one watcher a running
  \<^verbatim>\<open>serve\<close> reads it through; with what \<^verbatim>\<open>src/transport.rs\<close> takes from it and keeps in it. The TOML crate
  and the two server URLs are the record \<open>toml_text\<close>; one stat and one open of the file are a look.
\<close>

section \<open>The text\<close>

definition MAX_SERVE_TOML :: nat where "MAX_SERVE_TOML = 64 * 1024"

definition SERVICES_KEY :: string where "SERVICES_KEY = ''services''"
definition OFF_KEY :: string where "OFF_KEY = ''off''"
definition RELAY_KEY :: string where "RELAY_KEY = ''relay''"
definition RESOLVER_KEY :: string where "RESOLVER_KEY = ''resolver''"

record toml_text =
  tt_parse :: "string \<Rightarrow> toml_table option"
  tt_print :: "toml_table \<Rightarrow> string"
  tt_relay :: "string \<Rightarrow> server_url option"
  tt_resolver :: "string \<Rightarrow> server_url option"

datatype undecodable = UdDamaged | UdUnusable string

datatype toml_error = TeIo string | TeDamaged | TeUnusable string

definition toml_list :: "string list \<Rightarrow> toml_value" where
  "toml_list items = TomlArray (map TomlString items)"

text \<open>Each \<^verbatim>\<open>if let Some\<close> of \<^verbatim>\<open>encode\<close> puts its key in, or leaves the table.\<close>

definition put_field :: "string \<Rightarrow> toml_value option \<Rightarrow> toml_table \<Rightarrow> toml_table" where
  "put_field key v table = (case v of None \<Rightarrow> table | Some v \<Rightarrow> bt_insert key v table)"

definition toml_wire :: "serve_toml \<Rightarrow> toml_table" where
  "toml_wire file =
     put_field RESOLVER_KEY (map_option (\<lambda>u. TomlString (server_str u)) (tm_resolver file))
     (put_field RELAY_KEY (map_option (\<lambda>u. TomlString (server_str u)) (tm_relay file))
     (put_field OFF_KEY (if tm_off file \<noteq> [] then Some (toml_list (bt_keys (tm_off file))) else None)
     (put_field SERVICES_KEY (map_option toml_list (tm_services file)) [])))"

definition toml_encode :: "toml_text \<Rightarrow> serve_toml \<Rightarrow> string" where
  "toml_encode X file = tt_print X (toml_wire file)"

primrec collectO :: "('a \<Rightarrow> 'b option) \<Rightarrow> 'a list \<Rightarrow> 'b list option" where
  "collectO f [] = Some []"
| "collectO f (x # xs) =
     (case f x of None \<Rightarrow> None | Some y \<Rightarrow> map_option (\<lambda>ys. y # ys) (collectO f xs))"

fun toml_strings :: "toml_value \<Rightarrow> string list option" where
  "toml_strings (TomlArray items) = collectO as_str items"
| "toml_strings _ = None"

definition toml_url :: "(string \<Rightarrow> server_url option) \<Rightarrow> toml_value \<Rightarrow> string \<Rightarrow> undecodable + server_url" where
  "toml_url parse v what =
     bindR (ok_or UdDamaged (as_str v)) (\<lambda>text. ok_or (UdUnusable what) (parse text))"

definition set_of :: "string list \<Rightarrow> (string, unit) btree" where
  "set_of items = bt_of (map (\<lambda>i. (i, ())) items)"

definition toml_field :: "toml_text \<Rightarrow> string \<times> toml_value \<Rightarrow> serve_toml \<Rightarrow> undecodable + serve_toml" where
  "toml_field X = (\<lambda>(key, v) read.
     if key = SERVICES_KEY then
       bindR (ok_or UdDamaged (toml_strings v)) (\<lambda>services. Inr (read\<lparr>tm_services := Some services\<rparr>))
     else if key = OFF_KEY then
       bindR (ok_or UdDamaged (toml_strings v)) (\<lambda>off.
       if \<exists>n \<in> set off. ok_opt (name_stored n) = None then Inl UdDamaged
       else Inr (read\<lparr>tm_off := set_of off\<rparr>))
     else if key = RELAY_KEY then
       bindR (toml_url (tt_relay X) v RELAY_KEY) (\<lambda>u. Inr (read\<lparr>tm_relay := Some u\<rparr>))
     else if key = RESOLVER_KEY then
       bindR (toml_url (tt_resolver X) v RESOLVER_KEY) (\<lambda>u. Inr (read\<lparr>tm_resolver := Some u\<rparr>))
     else Inl UdDamaged)"

definition toml_decode :: "toml_text \<Rightarrow> string \<Rightarrow> undecodable + serve_toml" where
  "toml_decode X t =
     bindR (ok_or UdDamaged (tt_parse X t)) (\<lambda>table. each_entry (toml_field X) table serve_toml_default)"

section \<open>The file\<close>

text \<open>
  One read of the file and its stamp, both from one handle. A file larger than the bound is read one
  byte past it and refused; one cut inside a character there is refused the same way.
\<close>

definition undecoded :: "undecodable \<Rightarrow> toml_error" where
  "undecoded why = (case why of UdDamaged \<Rightarrow> TeDamaged | UdUnusable what \<Rightarrow> TeUnusable what)"

definition read_stamped :: "toml_text \<Rightarrow> text_read \<Rightarrow> 's option \<Rightarrow> toml_error + serve_toml \<times> 's option" where
  "read_stamped X r stamp =
     (case r of
        Read Missing \<Rightarrow> Inr (serve_toml_default, None)
      | Read (Unreadable e) \<Rightarrow> Inl (TeIo e)
      | NotText \<Rightarrow> Inl TeDamaged
      | Read (Contents t) \<Rightarrow>
          if length t > MAX_SERVE_TOML then Inl TeDamaged
          else bindR (map_err undecoded (toml_decode X t)) (\<lambda>read. Inr (read, stamp)))"

definition toml_read :: "toml_text \<Rightarrow> text_read \<Rightarrow> toml_error + serve_toml" where
  "toml_read X r = bindR (read_stamped X r (None :: unit option)) (\<lambda>(read, _). Inr read)"

text \<open>The change under the lock: read again, and written only when it was accepted and changed something.\<close>

definition try_update ::
  "toml_text \<Rightarrow> fate \<Rightarrow> (serve_toml \<Rightarrow> 'e + 'a \<times> serve_toml) \<Rightarrow> (text_read, toml_error, 'e + 'a) act" where
  "try_update X fate change f =
     (case toml_read X f of
        Inl e \<Rightarrow> (Inl e, f)
      | Inr held \<Rightarrow>
          (case change held of
             Inl refusal \<Rightarrow> (Inr (Inl refusal), f)
           | Inr (changed, next) \<Rightarrow>
               if next \<noteq> held then
                 let written = Read (Contents (toml_encode X next)) in
                 (case fate of
                    Done \<Rightarrow> (Inr (Inr changed), written)
                  | NotDone e \<Rightarrow> (Inl (TeIo e), f)
                  | DoneBut e \<Rightarrow> (Inl (TeIo e), written))
               else (Inr (Inr changed), f)))"

definition toml_update :: "toml_text \<Rightarrow> fate \<Rightarrow> (serve_toml \<Rightarrow> serve_toml) \<Rightarrow> (text_read, toml_error, unit) act" where
  "toml_update X fate change f =
     (case try_update X fate (\<lambda>held. Inr ((), change held) :: unit + unit \<times> serve_toml) f of
        (Inl e, f) \<Rightarrow> (Inl e, f)
      | (Inr _, f) \<Rightarrow> (Inr (), f))"

section \<open>The relay and the resolver\<close>

record reach_args =
  ra_relay :: "server_url option"
  ra_resolver :: "server_url option"

datatype reach_server = N0 | Custom server_url

definition or_else :: "'a option \<Rightarrow> 'a option \<Rightarrow> 'a option" where
  "or_else a b = (case a of Some x \<Rightarrow> Some x | None \<Rightarrow> b)"

definition server_of :: "server_url option \<Rightarrow> reach_server" where
  "server_of u = (case u of None \<Rightarrow> N0 | Some u \<Rightarrow> Custom u)"

definition reach_over :: "reach_args \<Rightarrow> serve_toml \<Rightarrow> reach_server \<times> reach_server" where
  "reach_over args kept =
     (server_of (or_else (ra_relay args) (tm_relay kept)), server_of (or_else (ra_resolver args) (tm_resolver kept)))"

definition reach :: "toml_text \<Rightarrow> reach_args \<Rightarrow> text_read \<Rightarrow> toml_error + reach_server \<times> reach_server" where
  "reach X args f =
     bindR (if ra_relay args = None \<or> ra_resolver args = None then toml_read X f else Inr serve_toml_default)
       (\<lambda>kept. Inr (reach_over args kept))"

definition keep_reach :: "reach_args \<Rightarrow> serve_toml \<Rightarrow> serve_toml" where
  "keep_reach args file =
     file\<lparr>tm_relay := or_else (ra_relay args) (tm_relay file), tm_resolver := or_else (ra_resolver args) (tm_resolver file)\<rparr>"

text \<open>What a \<^verbatim>\<open>serve\<close> whose routes bound saves: the one write of \<^verbatim>\<open>commands/serve.rs\<close>.\<close>

definition serve_saves ::
  "toml_text \<Rightarrow> entry_text \<Rightarrow> fate \<Rightarrow> start_list \<Rightarrow> reach_args \<Rightarrow> (text_read, toml_error, unit) act" where
  "serve_saves X T fate st args =
     toml_update X fate (\<lambda>file. keep_reach args (started_record T st file))"

section \<open>The file read live\<close>

definition targets :: "start_list \<Rightarrow> (string, string) btree" where
  "targets st = bt_of (List.map_filter (split_once (CHR ''='')) (started_entries st))"

definition running :: "entry_text \<Rightarrow> serve_toml \<Rightarrow> (string, string) btree option" where
  "running T file = map_option targets (ok_opt (started_bare T file))"

record serving_now =
  sv_bound :: "(string, string) btree"
  sv_relay :: "server_url option"
  sv_resolver :: "server_url option"

record 's live_toml =
  lv_first :: serve_toml
  lv_file :: serve_toml
  lv_running :: "(string, string) btree option"
  lv_serving :: "serving_now option"
  lv_stamp :: "'s option"
  lv_last_stat :: "nat option"

record 's toml_look =
  tk_at :: nat
  tk_meta :: "'s meta_read"
  tk_read :: text_read
  tk_stamp :: "'s option"

definition look_read :: "toml_text \<Rightarrow> 's toml_look \<Rightarrow> toml_error + serve_toml \<times> 's option" where
  "look_read X k = read_stamped X (tk_read k) (tk_stamp k)"

definition live_take ::
  "entry_text \<Rightarrow> toml_error + serve_toml \<times> 's option \<Rightarrow> 's option \<Rightarrow> 's live_toml \<Rightarrow> 's live_toml" where
  "live_take T r statted L =
     (case bindR r (\<lambda>(file, stamp). case running T file of
          Some run \<Rightarrow> Inr (file, run, stamp)
        | None \<Rightarrow> Inl TeDamaged) of
        Inr (file, run, Some stamp) \<Rightarrow> L\<lparr>lv_file := file, lv_running := Some run, lv_stamp := Some stamp\<rparr>
      | Inr (_, _, None) \<Rightarrow> L
      | Inl e \<Rightarrow> (case e of TeIo _ \<Rightarrow> L | _ \<Rightarrow> L\<lparr>lv_stamp := statted\<rparr>))"

definition live_refresh ::
  "toml_text \<Rightarrow> entry_text \<Rightarrow> 's stamps \<Rightarrow> 's toml_look \<Rightarrow> 's live_toml \<Rightarrow> 's live_toml" where
  "live_refresh X T S k L =
     (if (case lv_last_stat L of None \<Rightarrow> False | Some prior \<Rightarrow> tk_at k - prior < stat_debounce S) then L
      else
        let L = L\<lparr>lv_last_stat := Some (tk_at k)\<rparr> in
        case tk_meta k of
          Meta statted \<Rightarrow>
            if stamps.unchanged S (lv_stamp L) statted then L else live_take T (look_read X k) statted L
        | _ \<Rightarrow> L)"

definition live_load :: "toml_text \<Rightarrow> entry_text \<Rightarrow> 's toml_look \<Rightarrow> toml_error + 's live_toml" where
  "live_load X T k =
     bindR (look_read X k) (\<lambda>(file, stamp).
     Inr \<lparr>lv_first = file, lv_file = file, lv_running = running T file, lv_serving = None,
       lv_stamp = stamp, lv_last_stat = Some (tk_at k)\<rparr>)"

definition live_serving ::
  "toml_text \<Rightarrow> entry_text \<Rightarrow> 's stamps \<Rightarrow> start_list \<Rightarrow> 's toml_look \<Rightarrow> 's live_toml \<Rightarrow> 's live_toml" where
  "live_serving X T S st k L =
     (let L = live_refresh X T S k (L\<lparr>lv_stamp := None, lv_last_stat := None\<rparr>)
      in L\<lparr>lv_serving := Some \<lparr>sv_bound = targets st, sv_relay = tm_relay (lv_file L),
             sv_resolver = tm_resolver (lv_file L)\<rparr>\<rparr>)"

text \<open>What the gate refuses, and what every reader is told: each looks first, then reads what is held.\<close>

definition live_removed :: "'s live_toml \<Rightarrow> string list" where
  "live_removed L =
     (case (lv_serving L, lv_running L) of
        (Some sv, Some run) \<Rightarrow> filter (\<lambda>n. \<not> bt_has run n) (bt_keys (sv_bound sv))
      | _ \<Rightarrow> [])"

definition refuses :: "string \<Rightarrow> 's live_toml \<Rightarrow> bool" where
  "refuses name L \<longleftrightarrow> bt_has (tm_off (lv_file L)) name \<or> name \<in> set (live_removed L)"

definition is_enabled ::
  "toml_text \<Rightarrow> entry_text \<Rightarrow> 's stamps \<Rightarrow> 's toml_look \<Rightarrow> string \<Rightarrow> 's live_toml \<Rightarrow> bool \<times> 's live_toml" where
  "is_enabled X T S k name L = (let L = live_refresh X T S k L in (\<not> refuses name L, L))"

definition live_off ::
  "toml_text \<Rightarrow> entry_text \<Rightarrow> 's stamps \<Rightarrow> 's toml_look \<Rightarrow> 's live_toml \<Rightarrow> string list \<times> 's live_toml" where
  "live_off X T S k L = (let L = live_refresh X T S k L in (bt_keys (tm_off (lv_file L)), L))"

definition live_refused ::
  "toml_text \<Rightarrow> entry_text \<Rightarrow> 's stamps \<Rightarrow> 's toml_look \<Rightarrow> 's live_toml \<Rightarrow> string list \<times> 's live_toml" where
  "live_refused X T S k L =
     (let L = live_refresh X T S k L
      in (bt_keys (fold (\<lambda>n. bt_insert n ()) (live_removed L) (tm_off (lv_file L))), L))"

datatype detail_error = MissingStartup | InconsistentState

text \<open>The rows \<^verbatim>\<open>local_service_snapshot\<close> hands the status codec: a name, its target, and whether it is refused.\<close>

definition service_rows ::
  "toml_text \<Rightarrow> entry_text \<Rightarrow> 's stamps \<Rightarrow> 's toml_look \<Rightarrow> 's live_toml \<Rightarrow>
   (detail_error + (string \<times> string \<times> bool) list) \<times> 's live_toml" where
  "service_rows X T S k L =
     (let L = live_refresh X T S k L
      in (bindR (ok_or MissingStartup (lv_serving L)) (\<lambda>sv.
          bindR (ok_or InconsistentState (lv_running L)) (\<lambda>run.
          Inr (map (\<lambda>(name, target). (name, target, bt_has (tm_off (lv_file L)) name \<or> \<not> bt_has run name))
            (sv_bound sv)))), L))"

section \<open>What waits for the next start\<close>

record waiting =
  wt_relay :: bool
  wt_resolver :: bool
  wt_added :: "string list"
  wt_changed :: "string list"

definition waiting_default :: waiting where
  "waiting_default = \<lparr>wt_relay = False, wt_resolver = False, wt_added = [], wt_changed = []\<rparr>"

definition waiting_empty :: "waiting \<Rightarrow> bool" where
  "waiting_empty w \<longleftrightarrow> \<not> wt_relay w \<and> \<not> wt_resolver w \<and> wt_added w = [] \<and> wt_changed w = []"

definition held_running :: "'s live_toml \<Rightarrow> (string, string) btree" where
  "held_running L = (case lv_running L of None \<Rightarrow> [] | Some run \<Rightarrow> run)"

definition waiting_held :: "'s live_toml \<Rightarrow> waiting" where
  "waiting_held L =
     (case lv_serving L of
        None \<Rightarrow> waiting_default
      | Some sv \<Rightarrow>
          \<lparr>wt_relay = (tm_relay (lv_file L) \<noteq> sv_relay sv),
           wt_resolver = (tm_resolver (lv_file L) \<noteq> sv_resolver sv),
           wt_added = map fst (filter (\<lambda>(n, _). \<not> bt_has (sv_bound sv) n) (held_running L)),
           wt_changed = map fst (filter (\<lambda>(n, t). case bt_get (sv_bound sv) n of None \<Rightarrow> False | Some b \<Rightarrow> b \<noteq> t)
             (held_running L))\<rparr>)"

definition live_waiting ::
  "toml_text \<Rightarrow> entry_text \<Rightarrow> 's stamps \<Rightarrow> 's toml_look \<Rightarrow> 's live_toml \<Rightarrow> waiting \<times> 's live_toml" where
  "live_waiting X T S k L = (let L = live_refresh X T S k L in (waiting_held L, L))"

text \<open>One turn of the loop of \<^verbatim>\<open>watch\<close>: what was said last, and what is said now.\<close>

definition watch_turn ::
  "toml_text \<Rightarrow> entry_text \<Rightarrow> 's stamps \<Rightarrow> 's toml_look \<Rightarrow> waiting \<times> 's live_toml \<Rightarrow>
   waiting option \<times> waiting \<times> 's live_toml" where
  "watch_turn X T S k = (\<lambda>(said, L).
     let (now, L) = live_waiting X T S k L in
     if now \<noteq> said then (if waiting_empty now then None else Some now, now, L) else (None, said, L))"

fun watch_turns ::
  "toml_text \<Rightarrow> entry_text \<Rightarrow> 's stamps \<Rightarrow> 's toml_look list \<Rightarrow> waiting \<times> 's live_toml \<Rightarrow>
   waiting list \<times> waiting \<times> 's live_toml" where
  "watch_turns X T S [] s = ([], s)"
| "watch_turns X T S (k # ks) s =
     (let (say, s) = watch_turn X T S k s; (rest, s) = watch_turns X T S ks s
      in ((case say of None \<Rightarrow> rest | Some w \<Rightarrow> w # rest), s))"

text \<open>The line a wait is said in.\<close>

fun join_comma :: "string list \<Rightarrow> string" where
  "join_comma [] = []"
| "join_comma [p] = p"
| "join_comma (p # ps) = p @ '', '' @ join_comma ps"

definition and_list :: "string list \<Rightarrow> string" where
  "and_list items =
     (case items of
        [] \<Rightarrow> ''''
      | [one] \<Rightarrow> one
      | _ \<Rightarrow> join_comma (butlast items) @ '' and '' @ last items)"

definition named_wait :: "string \<Rightarrow> string list \<Rightarrow> string list" where
  "named_wait what ns =
     (case ns of
        [] \<Rightarrow> []
      | [one] \<Rightarrow> [''the '' @ what @ '' service '' @ one]
      | many \<Rightarrow> [''the '' @ what @ '' services '' @ and_list many])"

definition waiting_show :: "waiting \<Rightarrow> string" where
  "waiting_show w =
     (let items = (if wt_relay w then [''the changed relay''] else []) @
          (if wt_resolver w then [''the changed resolver''] else []) @
          named_wait ''added'' (wt_added w) @ named_wait ''changed'' (wt_changed w);
          verb = (if length items = 1 \<and> length (wt_added w) < 2 \<and> length (wt_changed w) < 2
            then ''takes'' else ''take'')
      in and_list items @ '' in serve.toml '' @ verb @ '' effect the next time serve starts'')"

end
