(* ===== verification/Serve_Toml_Laws.thy ===== *)
theory Serve_Toml_Laws
  imports Serve_Toml
begin

text \<open>
  What \<^verbatim>\<open>serve.toml\<close> promises: its text reads back, a change is all or nothing, the running \<^verbatim>\<open>serve\<close>
  goes by the last file it took, its status tells what its gate does, a service turned off is refused at
  the next look, and a start never reads its own write as a change.
\<close>

section \<open>The text reads back\<close>

text \<open>A server's URL reads back from its own text; the TOML crate reads back the file it printed.\<close>

definition urls_back :: "toml_text \<Rightarrow> bool" where
  "urls_back X \<longleftrightarrow> (\<forall>t u. tt_relay X t = Some u \<longrightarrow> tt_relay X (server_str u) = Some u) \<and>
     (\<forall>t u. tt_resolver X t = Some u \<longrightarrow> tt_resolver X (server_str u) = Some u)"

definition text_back :: "toml_text \<Rightarrow> serve_toml \<Rightarrow> bool" where
  "text_back X file \<longleftrightarrow> tt_parse X (tt_print X (toml_wire file)) = Some (toml_wire file)"

text \<open>What every file that was read holds: names in order, and servers that parse.\<close>

definition toml_ok :: "toml_text \<Rightarrow> serve_toml \<Rightarrow> bool" where
  "toml_ok X file \<longleftrightarrow> bt_ok (tm_off file) \<and> (\<forall>n \<in> set (bt_keys (tm_off file)). valid_name n) \<and>
     (\<forall>u. tm_relay file = Some u \<longrightarrow> tt_relay X (server_str u) = Some u) \<and>
     (\<forall>u. tm_resolver file = Some u \<longrightarrow> tt_resolver X (server_str u) = Some u)"

lemma toml_ok_default: "toml_ok X serve_toml_default"
  by (simp add: toml_ok_def serve_toml_default_def bt_keys_def)

lemma set_of_facts: "bt_ok (set_of ns)" "set (bt_keys (set_of ns)) = set ns"
proof -
  show "bt_ok (set_of ns)" by (simp add: set_of_def)
  have "set (bt_keys (fold (\<lambda>(k, v). bt_insert k v) (map (\<lambda>i. (i, ())) ns) m)) = set ns \<union> set (bt_keys m)"
    for m :: "(string, unit) btree"
    by (induction ns arbitrary: m) (auto simp: bt_keys_def bt_insert_keys)
  from this [of "[]"] show "set (bt_keys (set_of ns)) = set ns" by (simp add: set_of_def bt_of_def bt_keys_def)
qed

lemma set_of_keys: "bt_ok off \<Longrightarrow> set_of (bt_keys off) = off"
proof -
  assume "bt_ok off"
  moreover have "map (\<lambda>i. (i, ())) (bt_keys off) = off" by (auto simp: bt_keys_def comp_def intro!: map_idI)
  ultimately show "set_of (bt_keys off) = off" by (simp add: set_of_def bt_of_ascending)
qed

lemma name_stored_opt: "ok_opt (name_stored n) = None \<longleftrightarrow> \<not> valid_name n"
  using name_stored_iff [of n] by (cases "name_stored n") auto

lemma collectO_strings: "collectO as_str (map TomlString ss) = Some ss"
  by (induction ss) auto

lemma toml_strings_list [simp]: "toml_strings (toml_list ss) = Some ss"
  by (simp add: toml_list_def collectO_strings)

lemma decoded_ok:
  assumes "urls_back X" "toml_decode X t = Inr file"
  shows "toml_ok X file"
proof -
  obtain table where t: "each_entry (toml_field X) table serve_toml_default = Inr file"
    using assms(2) by (auto simp: toml_decode_def bindR_Inr_iff)
  show ?thesis
  proof (rule each_entry_keeps [where P = "toml_ok X", OF _ toml_ok_default t])
    fix e s s'
    assume s: "toml_ok X s" and f: "toml_field X e s = Inr s'"
    obtain key v where e: "e = (key, v)" by (cases e)
    show "toml_ok X s'"
      using f assms(1) s
      by (auto simp: e toml_field_def toml_ok_def bindR_Inr_iff ok_or_Inr_iff toml_url_def urls_back_def
          set_of_facts name_stored_opt split: if_splits)
  qed
qed

lemma read_ok: "urls_back X \<Longrightarrow> toml_read X r = Inr file \<Longrightarrow> toml_ok X file"
  by (auto simp: toml_read_def read_stamped_def toml_ok_default bindR_Inr_iff map_err_Inr_iff decoded_ok
      split: text_read.splits file_read.splits if_splits)

lemma key_order:
  "OFF_KEY < RELAY_KEY" "OFF_KEY < RESOLVER_KEY" "OFF_KEY < SERVICES_KEY" "RELAY_KEY < RESOLVER_KEY"
  "RELAY_KEY < SERVICES_KEY" "RESOLVER_KEY < SERVICES_KEY"
  by (simp_all add: OFF_KEY_def RELAY_KEY_def RESOLVER_KEY_def SERVICES_KEY_def less_char_def)

lemmas key_facts = key_order key_order [THEN less_not_sym] key_order [THEN less_imp_neq]
  key_order [THEN less_imp_neq, symmetric]

text \<open>The table in key order, whichever fields it has.\<close>

lemma toml_wire_rows:
  "toml_wire file =
     (if tm_off file \<noteq> [] then [(OFF_KEY, toml_list (bt_keys (tm_off file)))] else []) @
     (case tm_relay file of None \<Rightarrow> [] | Some u \<Rightarrow> [(RELAY_KEY, TomlString (server_str u))]) @
     (case tm_resolver file of None \<Rightarrow> [] | Some u \<Rightarrow> [(RESOLVER_KEY, TomlString (server_str u))]) @
     (case tm_services file of None \<Rightarrow> [] | Some ss \<Rightarrow> [(SERVICES_KEY, toml_list ss)])"
  by (cases "tm_services file"; cases "tm_relay file"; cases "tm_resolver file"; cases "tm_off file")
    (simp_all add: toml_wire_def put_field_def key_facts)

lemma serve_toml_eta:
  "\<lparr>tm_services = tm_services file, tm_off = tm_off file, tm_relay = tm_relay file, tm_resolver = tm_resolver file\<rparr> = file"
  by simp

lemma toml_encode_decode:
  assumes "toml_ok X file" "text_back X file"
  shows "toml_decode X (toml_encode X file) = Inr file"
proof -
  have off: "bt_ok (tm_off file)" "\<forall>n \<in> set (bt_keys (tm_off file)). valid_name n" using assms(1) by (simp_all add: toml_ok_def)
  have p: "tt_parse X (toml_encode X file) = Some (toml_wire file)"
    using assms(2) by (simp add: text_back_def toml_encode_def)
  have o: "toml_field X (OFF_KEY, toml_list (bt_keys (tm_off file))) s = Inr (s\<lparr>tm_off := tm_off file\<rparr>)" for s
    using off by (simp add: toml_field_def key_facts name_stored_opt set_of_keys)
  have r: "toml_field X (RELAY_KEY, TomlString (server_str u)) s = Inr (s\<lparr>tm_relay := Some u\<rparr>)" if "tm_relay file = Some u" for s u
    using assms(1) that by (simp add: toml_field_def key_facts toml_url_def toml_ok_def)
  have v: "toml_field X (RESOLVER_KEY, TomlString (server_str u)) s = Inr (s\<lparr>tm_resolver := Some u\<rparr>)" if "tm_resolver file = Some u" for s u
    using assms(1) that by (simp add: toml_field_def key_facts toml_url_def toml_ok_def)
  have z: "toml_field X (SERVICES_KEY, toml_list ss) s = Inr (s\<lparr>tm_services := Some ss\<rparr>)" for s ss
    by (simp add: toml_field_def)
  have "each_entry (toml_field X) (toml_wire file) serve_toml_default =
      Inr \<lparr>tm_services = tm_services file, tm_off = tm_off file, tm_relay = tm_relay file, tm_resolver = tm_resolver file\<rparr>"
    using r v by (cases "tm_services file"; cases "tm_relay file"; cases "tm_resolver file"; cases "tm_off file = []")
      (simp_all add: toml_wire_rows each_entry_append o z serve_toml_default_def)
  then show ?thesis by (simp add: toml_decode_def p)
qed

lemma written_reads:
  assumes "toml_ok X file" "text_back X file"
  shows "read_stamped X (Read (Contents (toml_encode X file))) stamp =
    (if length (toml_encode X file) > MAX_SERVE_TOML then Inl TeDamaged else Inr (file, stamp))"
  using toml_encode_decode [OF assms] by (simp add: read_stamped_def)

lemma read_of_stamped: "toml_read X r = map_sum id fst (read_stamped X r stamp)"
  by (auto simp: toml_read_def read_stamped_def bindR_def split: text_read.splits file_read.splits sum.splits)

section \<open>A change\<close>

text \<open>
  C29: A change of the file is all or nothing. A file that cannot be read, and a change that refuses,
  whatever it set before refusing, leave the file as it was, and the refusal comes back. An accepted change
  leaves the file reading as it did or as the change made it, and reading as changed when the change was
  said to be made; except that a text over 64 KiB is written all the same, and every later read refuses it.
\<close>

theorem update_all_or_nothing:
  assumes "try_update X fate change f = (r, f')"
  shows "case toml_read X f of
      Inl e \<Rightarrow> r = Inl e \<and> f' = f
    | Inr held \<Rightarrow>
        (case change held of
           Inl refusal \<Rightarrow> r = Inr (Inl refusal) \<and> f' = f
         | Inr (a, next) \<Rightarrow>
             (next = held \<longrightarrow> r = Inr (Inr a) \<and> f' = f) \<and>
             (toml_ok X next \<and> text_back X next \<longrightarrow>
               toml_read X f' = Inr (if r = Inr (Inr a) then next else held) \<or>
               (\<exists>e. r = Inl (TeIo e)) \<and> toml_read X f' = Inr next \<or>
               length (toml_encode X next) > MAX_SERVE_TOML \<and> toml_read X f' = Inl TeDamaged))"
proof (cases "toml_read X f")
  case (Inr held)
  have w: "toml_read X (Read (Contents (toml_encode X next))) =
      (if length (toml_encode X next) > MAX_SERVE_TOML then Inl TeDamaged else Inr next)"
    if "toml_ok X next \<and> text_back X next" for "next"
    using that by (simp add: toml_read_def written_reads)
  show ?thesis
  proof (cases "change held")
    case (Inr p)
    obtain a "next" where p: "p = (a, next)" by (cases p)
    show ?thesis
    proof (cases "next = held")
      case True
      then show ?thesis using assms Inr p \<open>toml_read X f = Inr held\<close> by (simp add: try_update_def)
    next
      case False
      then have "fate = Done \<and> r = Inr (Inr a) \<and> f' = Read (Contents (toml_encode X next)) \<or>
          (\<exists>e. r = Inl (TeIo e)) \<and> (f' = f \<or> f' = Read (Contents (toml_encode X next)))"
        using assms Inr p \<open>toml_read X f = Inr held\<close> by (auto simp: try_update_def Let_def split: fate.splits)
      then show ?thesis using False w [of "next"] Inr p \<open>toml_read X f = Inr held\<close> by (auto split: if_splits)
    qed
  qed (use assms Inr in \<open>simp add: try_update_def\<close>)
qed (use assms in \<open>simp add: try_update_def\<close>)

text \<open>A home where ping was never turned off, and the text a turn writes there.\<close>

definition example_toml :: toml_text where
  "example_toml = \<lparr>tt_parse = (\<lambda>t. if t = ''off=ping'' then Some [(OFF_KEY, toml_list [''ping''])] else None),
     tt_print = (\<lambda>_. ''off=ping''), tt_relay = (\<lambda>t. Some (ServerUrl t)), tt_resolver = (\<lambda>t. Some (ServerUrl t))\<rparr>"

lemma example_toml_facts: "urls_back example_toml" "text_back example_toml example_off" "toml_ok example_toml example_off"
  "length (toml_encode example_toml example_off) \<le> MAX_SERVE_TOML"
  by (simp_all add: urls_back_def text_back_def toml_ok_def example_toml_def example_off_def serve_toml_default_def
      toml_wire_rows bt_keys_def toml_encode_def MAX_SERVE_TOML_def good_names(3) [unfolded good_name_def])

lemma example_toggle:
  "toggle example_entries ''ping'' WayOff serve_toml_default = Inr (Turned, example_off)"
  by (simp add: toggle_def started_bare_def serve_toml_default_def started_names_def started_entries_def DEFAULT_SERVICES_def
      bt_has_def bt_get_def example_off_def)

lemma example_turned:
  "try_update example_toml Done (toggle example_entries ''ping'' WayOff) (Read Missing) =
     (Inr (Inr Turned), Read (Contents ''off=ping''))"
proof -
  have "toml_read example_toml (Read Missing) = Inr serve_toml_default" by (simp add: toml_read_def read_stamped_def)
  moreover have "example_off \<noteq> serve_toml_default" by (simp add: example_off_def serve_toml_default_def)
  moreover have "toml_encode example_toml example_off = ''off=ping''" by (simp add: toml_encode_def example_toml_def)
  ultimately show ?thesis by (simp add: try_update_def example_toggle Let_def)
qed

theorem update_all_or_nothing_witness:
  "toml_read example_toml (Read (Contents ''off=ping'')) = Inr example_off"
proof -
  have r: "toml_read example_toml (Read Missing) = Inr serve_toml_default" by (simp add: toml_read_def read_stamped_def)
  show ?thesis using update_all_or_nothing [OF example_turned] example_toml_facts
    by (simp add: r example_toggle)
qed

section \<open>The watcher\<close>

lemma live_take_cases:
  obtains "live_take T r statted L = L" | "live_take T r statted L = L\<lparr>lv_stamp := statted\<rparr>"
  | kept run stamp where "r = Inr (kept, Some stamp)" "running T kept = Some run"
    "live_take T r statted L = L\<lparr>lv_file := kept, lv_running := Some run, lv_stamp := Some stamp\<rparr>"
proof (cases r)
  case (Inl e)
  then show ?thesis using that by (cases e) (auto simp: live_take_def)
next
  case (Inr p)
  obtain kept stamp where p: "p = (kept, stamp)" by (cases p)
  show ?thesis
  proof (cases "running T kept")
    case None
    then show ?thesis using that Inr p by (auto simp: live_take_def)
  next
    case (Some run)
    then show ?thesis using that Inr p by (cases stamp) (auto simp: live_take_def)
  qed
qed

text \<open>What one look leaves: what was held, or a file that was there.\<close>

lemma live_refresh_cases:
  obtains "lv_file (live_refresh X T S k L) = lv_file L" "lv_running (live_refresh X T S k L) = lv_running L"
    "lv_serving (live_refresh X T S k L) = lv_serving L" "lv_first (live_refresh X T S k L) = lv_first L"
  | kept run stamp where "look_read X k = Inr (kept, Some stamp)" "running T kept = Some run"
    "lv_file (live_refresh X T S k L) = kept" "lv_running (live_refresh X T S k L) = Some run"
    "lv_serving (live_refresh X T S k L) = lv_serving L" "lv_first (live_refresh X T S k L) = lv_first L"
proof -
  let ?M = "L\<lparr>lv_last_stat := Some (tk_at k)\<rparr>"
  have "live_refresh X T S k L = L \<or> live_refresh X T S k L = ?M \<or>
      (\<exists>statted. live_refresh X T S k L = live_take T (look_read X k) statted ?M)"
    by (auto simp: live_refresh_def Let_def split: option.splits meta_read.splits)
  then consider "live_refresh X T S k L = L" | "live_refresh X T S k L = ?M"
    | statted where "live_refresh X T S k L = live_take T (look_read X k) statted ?M" by blast
  then show thesis
  proof cases
    case 3
    then show ?thesis using that by (cases rule: live_take_cases [of T "look_read X k" statted ?M]) auto
  qed (use that in auto)
qed

text \<open>What a run does with its watcher: it looks, and it starts serving.\<close>

datatype 's live_event = Looks "'s toml_look" | Serves start_list "'s toml_look"

definition live_step :: "toml_text \<Rightarrow> entry_text \<Rightarrow> 's stamps \<Rightarrow> 's live_event \<Rightarrow> 's live_toml \<Rightarrow> 's live_toml" where
  "live_step X T S e L = (case e of Looks k \<Rightarrow> live_refresh X T S k L | Serves st k \<Rightarrow> live_serving X T S st k L)"

definition event_look :: "'s live_event \<Rightarrow> 's toml_look" where
  "event_look e = (case e of Looks k \<Rightarrow> k | Serves _ k \<Rightarrow> k)"

text \<open>The files a look finds there and takes: of a present file, decoded, listing services only.\<close>

definition there :: "toml_text \<Rightarrow> entry_text \<Rightarrow> 's live_event \<Rightarrow> serve_toml set" where
  "there X T e = {file. (\<exists>stamp. look_read X (event_look e) = Inr (file, Some stamp)) \<and> running T file \<noteq> None}"

lemma live_step_file:
  "lv_file (live_step X T S e L) = lv_file L \<or> lv_file (live_step X T S e L) \<in> there X T e"
proof -
  have "lv_file (live_refresh X T S k M) = lv_file M \<or>
      (\<exists>stamp. look_read X k = Inr (lv_file (live_refresh X T S k M), Some stamp)) \<and>
      running T (lv_file (live_refresh X T S k M)) \<noteq> None" for k and M :: "'a live_toml"
    by (cases rule: live_refresh_cases [of X T S k M]) auto
  from this [of "event_look e" L] this [of "event_look e" "L\<lparr>lv_stamp := None, lv_last_stat := None\<rparr>"] show ?thesis
    by (cases e) (auto simp: live_step_def event_look_def there_def live_serving_def Let_def)
qed

interpretation watched: reread "live_step X T S" lv_file "\<lambda>_. False" "there X T"
  for X :: toml_text and T :: entry_text and S :: "'s stamps"
  by unfold_locales (use live_step_file in blast)

lemma load_file: "live_load X T k = Inr L \<Longrightarrow> lv_file L = lv_first L \<and> lv_running L = running T (lv_first L) \<and> lv_serving L = None"
  by (auto simp: live_load_def bindR_Inr_iff)

text \<open>
  A reader whose looks take a file or leave the view as it is: the view is the one taken last, or the first.
\<close>

locale reread_last = reread +
  fixes takes :: "'a \<Rightarrow> 'b \<Rightarrow> 'c option"
  assumes look_takes: "view (look_again k s) = (case takes k s of None \<Rightarrow> view s | Some v \<Rightarrow> v)"
begin

lemma looks_take_nothing:
  "(\<And>pre k post. ks = pre @ k # post \<Longrightarrow> takes k (fold look_again pre s) = None) \<Longrightarrow>
     view (fold look_again ks s) = view s"
proof (induction ks rule: rev_induct)
  case (snoc k ks)
  have "takes k (fold look_again ks s) = None" using snoc.prems [of ks k "[]"] by simp
  moreover have "view (fold look_again ks s) = view s"
    by (rule snoc.IH) (use snoc.prems in force)
  ultimately show ?case by (simp add: look_takes)
qed simp

lemma last_taken:
  "view (fold look_again ks s) = view s \<and> (\<forall>pre k post. ks = pre @ k # post \<longrightarrow> takes k (fold look_again pre s) = None) \<or>
   (\<exists>pre k post. ks = pre @ k # post \<and> takes k (fold look_again pre s) = Some (view (fold look_again ks s)) \<and>
      (\<forall>mid k' post'. post = mid @ k' # post' \<longrightarrow> takes k' (fold look_again (pre @ k # mid) s) = None))"
proof (induction ks rule: rev_induct)
  case (snoc k ks)
  show ?case
  proof (cases "takes k (fold look_again ks s)")
    case (Some v)
    then have "ks @ [k] = ks @ k # [] \<and> takes k (fold look_again ks s) = Some (view (fold look_again (ks @ [k]) s))"
      by (simp add: look_takes)
    then show ?thesis by blast
  next
    case None
    then have v: "view (fold look_again (ks @ [k]) s) = view (fold look_again ks s)" by (simp add: look_takes)
    from snoc.IH show ?thesis
    proof (elim disjE exE conjE)
      fix pre j post
      assume p: "ks = pre @ j # post" "takes j (fold look_again pre s) = Some (view (fold look_again ks s))"
        "\<forall>mid k' post'. post = mid @ k' # post' \<longrightarrow> takes k' (fold look_again (pre @ j # mid) s) = None"
      have "\<forall>mid k' post'. post @ [k] = mid @ k' # post' \<longrightarrow> takes k' (fold look_again (pre @ j # mid) s) = None"
      proof (intro allI impI)
        fix mid k' post'
        assume "post @ [k] = mid @ k' # post'"
        then show "takes k' (fold look_again (pre @ j # mid) s) = None"
          using p None by (cases post' rule: rev_cases) auto
      qed
      moreover have "ks @ [k] = pre @ j # (post @ [k])" using p(1) by simp
      ultimately show ?thesis using p(2) v by metis
    next
      assume b: "view (fold look_again ks s) = view s"
        "\<forall>pre k post. ks = pre @ k # post \<longrightarrow> takes k (fold look_again pre s) = None"
      have "\<forall>pre k' post. ks @ [k] = pre @ k' # post \<longrightarrow> takes k' (fold look_again pre s) = None"
      proof (intro allI impI)
        fix pre k' post
        assume "ks @ [k] = pre @ k' # post"
        then show "takes k' (fold look_again pre s) = None"
          using b None by (cases post rule: rev_cases) auto
      qed
      then show ?thesis using b(1) v by simp
    qed
  qed
qed simp

end

text \<open>
  The file a look finds: present when asked for, present when opened, decoded, and listing services only. A
  look opens nothing too soon after the last one, or while the file's stamp is the one read last; one made
  when serving starts goes by no earlier look.
\<close>

definition found_file :: "toml_text \<Rightarrow> entry_text \<Rightarrow> 's toml_look \<Rightarrow> serve_toml option" where
  "found_file X T k =
     (case (tk_meta k, look_read X k) of
        (Meta _, Inr (file, Some _)) \<Rightarrow> if running T file = None then None else Some file
      | _ \<Rightarrow> None)"

definition skipped :: "'s stamps \<Rightarrow> 's toml_look \<Rightarrow> 's option \<Rightarrow> nat option \<Rightarrow> bool" where
  "skipped S k stamp before \<longleftrightarrow>
     (\<exists>prior. before = Some prior \<and> tk_at k - prior < stat_debounce S) \<or>
     (\<exists>now. tk_meta k = Meta now \<and> stamps.unchanged S stamp now)"

definition takes_file ::
  "toml_text \<Rightarrow> entry_text \<Rightarrow> 's stamps \<Rightarrow> 's live_event \<Rightarrow> 's live_toml \<Rightarrow> serve_toml option" where
  "takes_file X T S e L =
     (case e of
        Looks k \<Rightarrow> if skipped S k (lv_stamp L) (lv_last_stat L) then None else found_file X T k
      | Serves _ k \<Rightarrow> if skipped S k None None then None else found_file X T k)"

lemma live_take_view:
  "lv_file (live_take T (look_read X k) statted L) =
     (case look_read X k of Inr (file, Some _) \<Rightarrow> if running T file = None then lv_file L else file | _ \<Rightarrow> lv_file L)"
  "lv_running (live_take T (look_read X k) statted L) =
     (case look_read X k of Inr (file, Some _) \<Rightarrow> if running T file = None then lv_running L else running T file
      | _ \<Rightarrow> lv_running L)"
  by (auto simp: live_take_def split: sum.splits option.splits toml_error.splits prod.splits)

lemma live_refresh_view:
  "lv_file (live_refresh X T S k L) =
     (case takes_file X T S (Looks k) L of None \<Rightarrow> lv_file L | Some file \<Rightarrow> file)"
  "lv_running (live_refresh X T S k L) =
     (case takes_file X T S (Looks k) L of None \<Rightarrow> lv_running L | Some file \<Rightarrow> running T file)"
  by (auto simp: live_refresh_def takes_file_def skipped_def found_file_def live_take_view Let_def
      split: option.splits meta_read.splits sum.splits prod.splits)

lemma live_step_takes:
  "lv_file (live_step X T S e L) = (case takes_file X T S e L of None \<Rightarrow> lv_file L | Some file \<Rightarrow> file)"
  by (cases e) (auto simp: live_step_def live_serving_def live_refresh_view Let_def takes_file_def split: option.splits)

lemma live_run_running:
  "lv_running L = running T (lv_file L) \<Longrightarrow>
     lv_running (fold (live_step X T S) es L) = running T (lv_file (fold (live_step X T S) es L))"
proof (induction es arbitrary: L)
  case (Cons e es)
  have "lv_running (live_step X T S e L) = running T (lv_file (live_step X T S e L))"
    using Cons.prems by (cases e) (simp_all add: live_step_def live_serving_def live_refresh_view Let_def split: option.split)
  then show ?case using Cons.IH by simp
qed simp

interpretation watched_last: reread_last "live_step X T S" lv_file "\<lambda>_. False" "there X T" "takes_file X T S"
  for X :: toml_text and T :: entry_text and S :: "'s stamps"
  by unfold_locales (rule live_step_takes)

text \<open>Looks that find no file change nothing of what the gate goes by.\<close>

lemma unfound_takes_none: "found_file X T (event_look e) = None \<Longrightarrow> takes_file X T S e L = None"
  by (cases e) (simp_all add: takes_file_def event_look_def)

lemma unfound_run:
  assumes "\<forall>e \<in> set es. found_file X T (event_look e) = None"
  shows "lv_file (fold (live_step X T S) es L) = lv_file L"
  by (rule watched_last.looks_take_nothing [OF unfound_takes_none]) (simp add: assms)

lemma unfound_looks:
  assumes "\<forall>k \<in> set ks. found_file X T k = None"
  shows "refuses name (fold (live_step X T S) (map Looks ks) L) \<longleftrightarrow> refuses name L"
  using assms
proof (induction ks arbitrary: L)
  case (Cons k ks)
  have t: "takes_file X T S (Looks k) L = None"
    using Cons.prems by (intro unfound_takes_none) (simp add: event_look_def)
  have "lv_serving (live_refresh X T S k L) = lv_serving L" by (cases rule: live_refresh_cases [of X T S k L]) auto
  then have "refuses name (live_refresh X T S k L) \<longleftrightarrow> refuses name L"
    by (simp add: refuses_def live_removed_def live_refresh_view t)
  then show ?case using Cons by (simp add: live_step_def)
qed simp

text \<open>
  C30: A running \<^verbatim>\<open>serve\<close> goes by the last file it took. Whatever looks a run made, and whatever they met
  (no file, a failed stat or read, a damaged file, a list it cannot start), its gate lets a service through
  exactly when it is neither off in one file nor removed from that file's list since the start. That file is
  the one the last look took, of those that opened the file and found it whole, listing services only; or, when no
  look took one, what the run was loaded from: the file there then, or the default if there was none. And
  looks that find no such file leave every answer of the gate as it was, so deleting or damaging the file
  turns no service back on and none off; whatever a run meets after, serving started again included, while it
  finds no such file a service that was off stays refused.
\<close>

theorem goes_by_a_file_there:
  fixes S :: "'s stamps"
  assumes "live_load X T k0 = Inr L0"
  defines "state \<equiv> \<lambda>es. fold (live_step X T S) es L0"
  shows "(\<exists>file.
       (\<forall>name. fst (is_enabled X T S k name (state es)) \<longleftrightarrow>
          \<not> bt_has (tm_off file) name \<and> name \<notin> set (live_removed (state (es @ [Looks k])))) \<and>
       lv_running (state (es @ [Looks k])) = running T file \<and>
       (file = lv_first L0 \<and> (\<forall>pre e post. es @ [Looks k] = pre @ e # post \<longrightarrow> takes_file X T S e (state pre) = None) \<or>
        (\<exists>pre e post. es @ [Looks k] = pre @ e # post \<and> takes_file X T S e (state pre) = Some file \<and>
           (\<forall>mid e' post'. post = mid @ e' # post' \<longrightarrow> takes_file X T S e' (state (pre @ e # mid)) = None))))
    \<and> (\<forall>ks. (\<forall>j \<in> set (ks @ [k]). found_file X T j = None) \<longrightarrow>
         (\<forall>name. fst (is_enabled X T S k name (state (es @ map Looks ks))) \<longleftrightarrow> \<not> refuses name (state es)))
    \<and> (\<forall>more. (\<forall>e \<in> set (more @ [Looks k]). found_file X T (event_look e) = None) \<longrightarrow>
         (\<forall>name. bt_has (tm_off (lv_file (state es))) name \<longrightarrow> \<not> fst (is_enabled X T S k name (state (es @ more)))))"
proof (intro conjI)
  have gate: "fst (is_enabled X T S k name (state ds)) \<longleftrightarrow> \<not> refuses name (state (ds @ [Looks k]))" for name ds
    by (simp add: is_enabled_def Let_def state_def live_step_def)
  have first: "lv_file L0 = lv_first L0" and ran: "lv_running (state ds) = running T (lv_file (state ds))" for ds
    using load_file [OF assms(1)] live_run_running [of L0 T X S ds] by (simp_all add: state_def)
  show "\<exists>file.
       (\<forall>name. fst (is_enabled X T S k name (state es)) \<longleftrightarrow>
          \<not> bt_has (tm_off file) name \<and> name \<notin> set (live_removed (state (es @ [Looks k])))) \<and>
       lv_running (state (es @ [Looks k])) = running T file \<and>
       (file = lv_first L0 \<and> (\<forall>pre e post. es @ [Looks k] = pre @ e # post \<longrightarrow> takes_file X T S e (state pre) = None) \<or>
        (\<exists>pre e post. es @ [Looks k] = pre @ e # post \<and> takes_file X T S e (state pre) = Some file \<and>
           (\<forall>mid e' post'. post = mid @ e' # post' \<longrightarrow> takes_file X T S e' (state (pre @ e # mid)) = None)))"
    using watched_last.last_taken [of X T S "es @ [Looks k]" L0, unfolded first]
    by (intro exI [of _ "lv_file (state (es @ [Looks k]))"] conjI allI)
      (simp only: gate refuses_def de_Morgan_disj, simp only: ran, simp only: state_def)
  show "\<forall>ks. (\<forall>j \<in> set (ks @ [k]). found_file X T j = None) \<longrightarrow>
         (\<forall>name. fst (is_enabled X T S k name (state (es @ map Looks ks))) \<longleftrightarrow> \<not> refuses name (state es))"
  proof (intro allI impI)
    fix ks name
    assume "\<forall>j \<in> set (ks @ [k]). found_file X T j = None"
    from unfound_looks [OF this, of name S "state es"]
    show "fst (is_enabled X T S k name (state (es @ map Looks ks))) \<longleftrightarrow> \<not> refuses name (state es)"
      unfolding gate by (simp add: state_def)
  qed
  show "\<forall>more. (\<forall>e \<in> set (more @ [Looks k]). found_file X T (event_look e) = None) \<longrightarrow>
         (\<forall>name. bt_has (tm_off (lv_file (state es))) name \<longrightarrow> \<not> fst (is_enabled X T S k name (state (es @ more))))"
  proof (intro allI impI)
    fix more :: "'s live_event list" and name
    assume "\<forall>e \<in> set (more @ [Looks k]). found_file X T (event_look e) = None"
    from unfound_run [OF this, of S "state es"] have "lv_file (state (es @ more @ [Looks k])) = lv_file (state es)"
      by (simp add: state_def)
    then show "bt_has (tm_off (lv_file (state es))) name \<Longrightarrow> \<not> fst (is_enabled X T S k name (state (es @ more)))"
      unfolding gate by (simp add: refuses_def)
  qed
qed

text \<open>A stamp is the file's text here; nothing is debounced, and no stamp is unchanged from none.\<close>

definition example_toml_stamps :: "string stamps" where
  "example_toml_stamps = \<lparr>stat_debounce = 0, unchanged = (\<lambda>a b. a \<noteq> None \<and> a = b)\<rparr>"

definition example_toml_look :: "text_read \<Rightarrow> string toml_look" where
  "example_toml_look f =
     (case f of
        Read (Contents t) \<Rightarrow> \<lparr>tk_at = 0, tk_meta = Meta (Some t), tk_read = f, tk_stamp = Some t\<rparr>
      | _ \<Rightarrow> \<lparr>tk_at = 0, tk_meta = MetaMissing, tk_read = f, tk_stamp = None\<rparr>)"

definition example_live :: "serve_toml \<Rightarrow> string option \<Rightarrow> string live_toml" where
  "example_live file stamp = \<lparr>lv_first = file, lv_file = file,
     lv_running = Some [(''ping'', ''ping:''), (''speed'', ''speed:'')], lv_serving = None, lv_stamp = stamp,
     lv_last_stat = Some 0\<rparr>"

lemma default_running:
  "tm_services file = None \<Longrightarrow> running T file = Some [(''ping'', ''ping:''), (''speed'', ''speed:'')]"
  by (simp add: running_def started_bare_def targets_def started_entries_def DEFAULT_SERVICES_def bt_of_def
      List.map_filter_simps less_char_def)

lemma example_loads:
  "live_load example_toml example_entries (example_toml_look (Read Missing)) = Inr (example_live serve_toml_default None)"
  "live_load example_toml example_entries (example_toml_look (Read (Contents ''off=ping''))) =
     Inr (example_live example_off (Some ''off=ping''))"
proof -
  have d: "tm_services serve_toml_default = None" "tm_services example_off = None"
    by (simp_all add: serve_toml_default_def example_off_def)
  show "live_load example_toml example_entries (example_toml_look (Read Missing)) = Inr (example_live serve_toml_default None)"
    by (simp add: live_load_def look_read_def example_toml_look_def read_stamped_def default_running d example_live_def)
  have "toml_encode example_toml example_off = ''off=ping''" by (simp add: toml_encode_def example_toml_def)
  then have "read_stamped example_toml (Read (Contents ''off=ping'')) (Some ''off=ping'') = Inr (example_off, Some ''off=ping'')"
    using written_reads [OF example_toml_facts(3,2), of "Some ''off=ping''"] example_toml_facts(4) by simp
  then show "live_load example_toml example_entries (example_toml_look (Read (Contents ''off=ping''))) =
      Inr (example_live example_off (Some ''off=ping''))"
    by (simp add: live_load_def look_read_def example_toml_look_def default_running d example_live_def)
qed

text \<open>A run that starts with no file, finds one that turns ping off, and finds it deleted: ping stays off.\<close>

lemma example_finds_off:
  "found_file example_toml example_entries (example_toml_look (Read (Contents ''off=ping''))) = Some example_off"
proof -
  have "toml_encode example_toml example_off = ''off=ping''" by (simp add: toml_encode_def example_toml_def)
  then have "read_stamped example_toml (Read (Contents ''off=ping'')) (Some ''off=ping'') = Inr (example_off, Some ''off=ping'')"
    using written_reads [OF example_toml_facts(3,2), of "Some ''off=ping''"] example_toml_facts(4) by simp
  moreover have "tm_services example_off = None" by (simp add: example_off_def serve_toml_default_def)
  then have "running example_entries example_off \<noteq> None" using default_running by simp
  ultimately show ?thesis by (simp add: found_file_def look_read_def example_toml_look_def)
qed

theorem goes_by_a_file_there_witness:
  "\<not> fst (is_enabled example_toml example_entries example_toml_stamps (example_toml_look (Read Missing)) ''ping''
      (fold (live_step example_toml example_entries example_toml_stamps)
        [Looks (example_toml_look (Read (Contents ''off=ping'')))] (example_live serve_toml_default None)))"
proof -
  let ?es = "[Looks (example_toml_look (Read (Contents ''off=ping'')))]"
  let ?L = "fold (live_step example_toml example_entries example_toml_stamps) ?es (example_live serve_toml_default None)"
  have "takes_file example_toml example_entries example_toml_stamps (hd ?es) (example_live serve_toml_default None) = Some example_off"
    by (simp add: takes_file_def example_finds_off)
      (simp add: skipped_def example_toml_look_def example_toml_stamps_def example_live_def)
  then have "lv_file ?L = example_off" by (simp add: live_step_takes)
  then have r: "refuses ''ping'' ?L" by (simp add: refuses_def example_off_def bt_has_def bt_get_def)
  have "found_file example_toml example_entries (example_toml_look (Read Missing)) = None"
    by (simp add: found_file_def example_toml_look_def)
  then show ?thesis
    using goes_by_a_file_there [OF example_loads(1), of example_toml_stamps "example_toml_look (Read Missing)" ?es,
      THEN conjunct2, THEN conjunct1, rule_format, of "[]" "''ping''"] r by simp
qed

section \<open>What the status is told\<close>

lemma insert_all_keys:
  "set (bt_keys (fold (\<lambda>n. bt_insert n ()) ns m)) = set ns \<union> set (bt_keys m)"
  by (induction ns arbitrary: m) (auto simp: bt_keys_def bt_insert_keys)

lemma bt_has_keys: "bt_has m k \<longleftrightarrow> k \<in> set (bt_keys m)"
  by (simp add: bt_has_iff bt_keys_def)

lemma refuses_served:
  "lv_serving L = Some sv \<Longrightarrow> lv_running L = Some run \<Longrightarrow> n \<in> set (bt_keys (sv_bound sv)) \<Longrightarrow>
   refuses n L \<longleftrightarrow> bt_has (tm_off (lv_file L)) n \<or> \<not> bt_has run n"
  by (simp add: refuses_def live_removed_def)

text \<open>
  The status reports what the gate does. At one look, the names listed as refused are exactly the ones
  the gate refuses; and where the rows of the local detail are given, they are the routes this run bound,
  each marked off exactly when its streams are refused.
\<close>

theorem status_is_the_gate:
  "set (fst (live_refused X T S k L)) = {n. \<not> fst (is_enabled X T S k n L)}
   \<and> (case fst (service_rows X T S k L) of
        Inl _ \<Rightarrow> True
      | Inr told \<Rightarrow> \<exists>sv. lv_serving L = Some sv \<and>
          told = map (\<lambda>(n, t). (n, t, \<not> fst (is_enabled X T S k n L))) (sv_bound sv))"
proof
  let ?M = "live_refresh X T S k L"
  show "set (fst (live_refused X T S k L)) = {n. \<not> fst (is_enabled X T S k n L)}"
    by (auto simp: live_refused_def is_enabled_def Let_def refuses_def insert_all_keys bt_has_keys)
  have s: "lv_serving ?M = lv_serving L" by (cases rule: live_refresh_cases [of X T S k L]) auto
  show "case fst (service_rows X T S k L) of
        Inl _ \<Rightarrow> True
      | Inr told \<Rightarrow> \<exists>sv. lv_serving L = Some sv \<and>
          told = map (\<lambda>(n, t). (n, t, \<not> fst (is_enabled X T S k n L))) (sv_bound sv)"
  proof (cases "fst (service_rows X T S k L)")
    case (Inr told)
    obtain sv run where r: "lv_serving ?M = Some sv" "lv_running ?M = Some run"
      "told = map (\<lambda>(n, t). (n, t, bt_has (tm_off (lv_file ?M)) n \<or> \<not> bt_has run n)) (sv_bound sv)"
      using Inr by (auto simp: service_rows_def Let_def bindR_Inr_iff ok_or_Inr_iff)
    have "told = map (\<lambda>(n, t). (n, t, \<not> fst (is_enabled X T S k n L))) (sv_bound sv)"
      unfolding r(3) using refuses_served [OF r(1,2)]
      by (force simp: is_enabled_def Let_def bt_keys_def)
    then show ?thesis using Inr r(1) s by auto
  qed simp
qed

lemma updated_reads:
  assumes "toml_read X f = Inr held" "change held = Inr (a, next)" "try_update X Done change f = (r, f')"
    "toml_ok X next" "text_back X next" "length (toml_encode X next) \<le> MAX_SERVE_TOML"
  shows "toml_read X f' = Inr next"
proof -
  have "toml_read X (Read (Contents (toml_encode X next))) = Inr next"
    using assms(6) by (simp add: toml_read_def written_reads [OF assms(4,5)])
  then show ?thesis using assms(1,2,3) by (auto simp: try_update_def Let_def split: if_splits)
qed

section \<open>A look that takes the file\<close>

text \<open>A look that sees the file as it is now, at a moment and with a stamp that make the watcher read it.\<close>

definition sees :: "text_read \<Rightarrow> 's toml_look \<Rightarrow> bool" where
  "sees f k \<longleftrightarrow> tk_read k = f \<and>
     (if f = Read Missing then tk_meta k = MetaMissing else \<exists>s. tk_meta k = Meta (Some s) \<and> tk_stamp k = Some s)"

definition look_due :: "'s stamps \<Rightarrow> 's toml_look \<Rightarrow> 's live_toml \<Rightarrow> bool" where
  "look_due S k L \<longleftrightarrow> (case lv_last_stat L of None \<Rightarrow> True | Some prior \<Rightarrow> stat_debounce S \<le> tk_at k - prior) \<and>
     (\<forall>s. tk_meta k = Meta s \<longrightarrow> \<not> stamps.unchanged S (lv_stamp L) s)"

lemma look_takes:
  assumes "toml_read X f = Inr file" "running T file = Some run" "f \<noteq> Read Missing" "sees f k" "look_due S k L"
  shows "lv_file (live_refresh X T S k L) = file" "lv_running (live_refresh X T S k L) = Some run"
    "lv_serving (live_refresh X T S k L) = lv_serving L"
proof -
  obtain s where s: "tk_meta k = Meta (Some s)" "tk_stamp k = Some s" "tk_read k = f"
    using assms(3,4) by (auto simp: sees_def)
  have "read_stamped X f (Some s) = Inr (file, Some s)"
    using assms(1,3) by (auto simp: toml_read_def read_stamped_def bindR_Inr_iff split: text_read.splits file_read.splits if_splits)
  then have r: "look_read X k = Inr (file, Some s)" by (simp add: look_read_def s)
  have "live_refresh X T S k L = L\<lparr>lv_last_stat := Some (tk_at k), lv_file := file, lv_running := Some run, lv_stamp := Some s\<rparr>"
    using assms(2,5) s r by (auto simp: live_refresh_def look_due_def live_take_def split: option.splits)
  then show "lv_file (live_refresh X T S k L) = file" "lv_running (live_refresh X T S k L) = Some run"
    "lv_serving (live_refresh X T S k L) = lv_serving L" by simp_all
qed

lemma targets_has: "bt_has (targets st) n \<longleftrightarrow> n \<in> set (started_names st)"
proof -
  have "fst ` set (List.map_filter (split_once (CHR ''='')) es) = set (entry_names es)" for es
    by (induction es) (auto simp: List.map_filter_simps split: option.splits)
  moreover have "map_of (rev ps) n \<noteq> None \<longleftrightarrow> n \<in> fst ` set ps" for ps :: "(string \<times> string) list"
    by (simp add: map_of_eq_None_iff)
  ultimately show ?thesis by (simp add: targets_def bt_has_def bt_of_get started_names_def)
qed

lemma running_iff: "running T file = Some run \<longleftrightarrow> (\<exists>st. started_bare T file = Inr st \<and> run = targets st)"
  by (auto simp: running_def ok_opt_Some_iff)

definition binds :: "'s live_toml \<Rightarrow> string \<Rightarrow> bool" where
  "binds L n \<longleftrightarrow> (case lv_serving L of None \<Rightarrow> False | Some sv \<Rightarrow> bt_has (sv_bound sv) n)"

lemma refuses_taken:
  assumes "lv_file M = file" "lv_running M = Some (targets st)" "lv_serving M = lv_serving L"
  shows "refuses n M \<longleftrightarrow> bt_has (tm_off file) n \<or> binds L n \<and> n \<notin> set (started_names st)"
  using assms by (auto simp: refuses_def live_removed_def binds_def bt_has_keys [symmetric] targets_has split: option.splits)

text \<open>A turn of a listed name: the name as the turn leaves it, every other as it was.\<close>

lemma toggle_changes:
  assumes "toggle T n way held = Inr (tg, next)"
  obtains st where "started_bare T held = Inr st" "n \<in> set (started_names st)" "started_bare T next = Inr st"
    "\<And>m. bt_has (tm_off next) m \<longleftrightarrow> (if m = n then way = WayOff else bt_has (tm_off held) m)"
    "tm_relay next = tm_relay held" "tm_resolver next = tm_resolver held"
    "bt_ok (tm_off held) \<Longrightarrow> bt_ok (tm_off next)"
proof -
  obtain st where st: "started_bare T held = Inr st" "n \<in> set (started_names st)"
    "next = held\<lparr>tm_off := (case way of WayOn \<Rightarrow> bt_remove n (tm_off held) | WayOff \<Rightarrow> bt_insert n () (tm_off held))\<rparr>"
    using assms by (auto simp: toggle_def bindR_Inr_iff map_err_Inr_iff split: way.splits if_splits)
  then show thesis
    by (intro that [of st]) (auto simp: bt_has_insert bt_insert_ok bt_remove_ok split: way.splits)
qed

lemma names_good: "n \<in> set (entry_names es) \<Longrightarrow> \<forall>e \<in> set es. good_entry T e \<Longrightarrow> good_name n"
proof (induction es)
  case (Cons e es)
  obtain m t where "e = m @ CHR ''='' # t" "good_name m" using Cons.prems(2) by (auto simp: good_entry_def)
  then show ?case using Cons by auto
qed simp

lemma toggle_ok:
  assumes "reads_services T" "toml_ok X held" "toggle T n way held = Inr (tg, next)"
  shows "toml_ok X next"
proof -
  obtain st where st: "started_bare T held = Inr st" "n \<in> set (started_names st)"
    "\<And>m. bt_has (tm_off next) m \<longleftrightarrow> (if m = n then way = WayOff else bt_has (tm_off held) m)"
    "tm_relay next = tm_relay held" "tm_resolver next = tm_resolver held"
    "bt_ok (tm_off held) \<Longrightarrow> bt_ok (tm_off next)"
    using toggle_changes [OF assms(3)] by metis
  have "list_ok T (started_entries st)" by (rule started_bare_ok(1) [OF assms(1) st(1)])
  then have v: "valid_name n" using st(2) names_good by (fastforce simp: started_names_def list_ok_def good_name_def)
  show ?thesis using assms(2) st v by (auto simp: toml_ok_def bt_has_keys split: if_splits)
qed

text \<open>
  C31: Turning a service is heeded at the next look. After \<^verbatim>\<open>service off\<close> or \<^verbatim>\<open>on\<close> of a listed name, the
  first look of a running \<^verbatim>\<open>serve\<close> that reads the file refuses the name exactly when it was turned off, with
  no restart; and every other name is refused as the file had it: off, or bound by the run and no longer
  listed.
\<close>

theorem turned_heeded_live:
  assumes T: "reads_services T" and U: "urls_back X" and f: "toml_read X f = Inr held"
    and t: "toggle T n way held = Inr (tg, next)"
    and w: "try_update X Done (toggle T n way) f = (Inr (Inr tg), f')"
    and b: "text_back X next" "length (toml_encode X next) \<le> MAX_SERVE_TOML"
    and k: "f' \<noteq> Read Missing" "sees f' k" "look_due S k L"
  shows "fst (is_enabled X T S k n L) = (way = WayOn) \<and>
    (\<forall>m. m \<noteq> n \<longrightarrow> (fst (is_enabled X T S k m L) \<longleftrightarrow> \<not> bt_has (tm_off held) m \<and>
       (binds L m \<longrightarrow> (\<exists>st. started_bare T held = Inr st \<and> m \<in> set (started_names st)))))"
proof -
  have ok: "toml_ok X next" by (rule toggle_ok [OF T read_ok [OF U f] t])
  have r: "toml_read X f' = Inr next"
    by (rule updated_reads [OF f t w ok b])
  obtain st where st: "started_bare T held = Inr st" "n \<in> set (started_names st)" "started_bare T next = Inr st"
    "\<And>m. bt_has (tm_off next) m \<longleftrightarrow> (if m = n then way = WayOff else bt_has (tm_off held) m)"
    using toggle_changes [OF t] by metis
  have run: "running T next = Some (targets st)" by (simp add: running_iff st)
  note e = refuses_taken [OF look_takes [OF r run k]]
  show ?thesis using st(1,2,4) by (cases way) (auto simp: is_enabled_def Let_def e)
qed

theorem turned_heeded_live_witness:
  "fst (is_enabled example_toml example_entries example_toml_stamps (example_toml_look (Read (Contents ''off=ping'')))
     ''ping'' (example_live serve_toml_default None)) = False"
proof -
  have r: "toml_read example_toml (Read Missing) = Inr serve_toml_default" by (simp add: toml_read_def read_stamped_def)
  have k: "sees (Read (Contents ''off=ping'')) (example_toml_look (Read (Contents ''off=ping'')))"
    by (simp add: sees_def example_toml_look_def)
  have d: "look_due example_toml_stamps (example_toml_look (Read (Contents ''off=ping''))) (example_live serve_toml_default None)"
    by (simp add: look_due_def example_toml_look_def example_live_def example_toml_stamps_def)
  show ?thesis
    using turned_heeded_live [OF example_reads_services example_toml_facts(1) r example_toggle example_turned
        example_toml_facts(2,4) _ k d]
    by simp
qed

section \<open>A start\<close>

lemma started_bare_recorded:
  assumes "reads_services T" "typed_entries T named" "started_of T named kept cwd = Inr st" "named \<noteq> []"
  shows "started_bare T (started_record T st held) = Inr (StResumed (started_entries st))"
proof -
  obtain ss where ss: "mistyped_check named = Inr ()" "list_all2 (\<lambda>e s. saved_entry cwd e = Inr s) named ss" "st = StNamed ss"
    using assms(3,4) by (auto simp: started_of_def bindR_Inr_iff map_err_Inr_iff collectR_Inr)
  have ok: "list_ok T named" by (rule typed_good [OF assms(1,2) ss(1)])
  have "list_ok T ss" using saved_entries_ok [OF ss(2), of T] ok by (simp add: list_ok_def)
  then have "started_bare T (started_record T st held) = Inr (StResumed ss)"
    by (rule bare_of_ok [OF assms(1)]) (simp add: ss(3) started_record_def)
  then show ?thesis by (simp add: ss(3) started_entries_def)
qed

definition urls_read :: "toml_text \<Rightarrow> reach_args \<Rightarrow> bool" where
  "urls_read X args \<longleftrightarrow> (\<forall>u. ra_relay args = Some u \<longrightarrow> tt_relay X (server_str u) = Some u) \<and>
     (\<forall>u. ra_resolver args = Some u \<longrightarrow> tt_resolver X (server_str u) = Some u)"

lemma keep_reach_fields [simp]:
  "tm_services (keep_reach args file) = tm_services file" "tm_off (keep_reach args file) = tm_off file"
  "started_bare T (keep_reach args file) = started_bare T file"
  by (simp_all add: keep_reach_def started_bare_def)

lemma record_fields:
  "tm_relay (started_record T st file) = tm_relay file" "tm_resolver (started_record T st file) = tm_resolver file"
  by (auto simp: started_record_def split: start_list.splits sum.splits)

lemma recorded_ok: "toml_ok X file \<Longrightarrow> toml_ok X (started_record T st file)"
proof -
  assume ok: "toml_ok X file"
  have "bt_ok (tm_off (started_record T st file)) \<and> set (bt_keys (tm_off (started_record T st file))) \<subseteq> set (bt_keys (tm_off file))"
  proof -
    have "bt_ok off \<Longrightarrow> bt_ok (fold (\<lambda>name off. if name \<notin> H then bt_remove name off else off) ns off) \<and>
        set (bt_keys (fold (\<lambda>name off. if name \<notin> H then bt_remove name off else off) ns off)) \<subseteq> set (bt_keys off)"
      for H ns and off :: "(string, unit) btree"
    proof (induction ns arbitrary: off)
      case (Cons n ns)
      have "set (bt_keys (bt_remove n off)) \<subseteq> set (bt_keys off)" by (auto simp: bt_keys_def bt_remove_def)
      then show ?case using Cons.IH [of off] Cons.IH [of "bt_remove n off"] Cons.prems by (auto simp: bt_remove_ok)
    qed simp
    then show ?thesis using ok by (auto simp: started_record_def toml_ok_def split: start_list.splits sum.splits)
  qed
  then show ?thesis using ok by (auto simp: toml_ok_def record_fields)
qed

lemma saved_ok: "urls_read X args \<Longrightarrow> toml_ok X file \<Longrightarrow> toml_ok X (keep_reach args file)"
  by (auto simp: toml_ok_def keep_reach_def urls_read_def or_else_def split: option.splits)

text \<open>
  C32: A start never reads its own write as a change. A \<^verbatim>\<open>serve\<close> settles what it serves from the
  watcher's first read, saves what it was told, and takes the file again: then nothing it bound counts as
  dropped from the list, its gate refuses exactly the names the saved file has off, and nothing waits for the
  next start. This holds for a start that names its services whatever the file then held, and for one that
  names none when the file is still the one it loaded.
\<close>

theorem start_nothing_waits:
  assumes T: "reads_services T" "typed_entries T named" and U: "urls_back X" "urls_read X args"
    and l: "live_load X T k0 = Inr L0" and st: "started_of T named (lv_first L0) cwd = Inr st"
    and f: "toml_read X f = Inr held" "named \<noteq> [] \<or> held = lv_first L0"
    and s: "serve_saves X T Done st args f = (Inr (), f')"
    and b: "text_back X (keep_reach args (started_record T st held))"
      "length (toml_encode X (keep_reach args (started_record T st held))) \<le> MAX_SERVE_TOML"
    and k: "sees f' k" "\<forall>s. \<not> stamps.unchanged S None s"
  shows "let L = live_serving X T S st k L0 in
    live_removed L = [] \<and> waiting_empty (waiting_held L) \<and>
    (\<forall>n. refuses n L \<longleftrightarrow> bt_has (tm_off (keep_reach args (started_record T st held))) n)"
proof -
  let ?next = "keep_reach args (started_record T st held)"
  let ?M = "L0\<lparr>lv_stamp := None, lv_last_stat := None\<rparr>"
  let ?R = "live_refresh X T S k ?M"
  have ok: "toml_ok X ?next" by (rule saved_ok [OF U(2) recorded_ok [OF read_ok [OF U(1) f(1)]]])
  obtain u where u: "try_update X Done (\<lambda>held. Inr ((), keep_reach args (started_record T st held)) :: unit + unit \<times> serve_toml) f = (u, f')"
    using s by (auto simp: serve_saves_def toml_update_def split: prod.splits sum.splits)
  have r: "toml_read X f' = Inr ?next" by (rule updated_reads [OF f(1) _ u ok b]) simp
  have now: "running T ?next = Some (targets st)"
  proof (cases "named = []")
    case True
    then have "started_bare T held = Inr st" "started_record T st held = held"
      using st f(2) by (auto simp: started_of_def started_bare_def started_record_def bindR_Inr_iff split: option.splits)
    then show ?thesis by (simp add: running_iff)
  next
    case False
    have "targets (StResumed (started_entries st)) = targets st" by (simp add: targets_def started_entries_def)
    then show ?thesis by (simp add: running_def started_bare_recorded [OF T st False])
  qed
  have d: "look_due S k ?M" using k(2) by (simp add: look_due_def)
  have R: "lv_file ?R = ?next \<and> lv_running ?R = Some (targets st)"
  proof (cases "f' = Read Missing")
    case True
    then have n: "?next = serve_toml_default" using r by (simp add: toml_read_def read_stamped_def)
    have "tk_meta k = MetaMissing" using k(1) True by (simp add: sees_def)
    then have "lv_file ?R = lv_file L0" "lv_running ?R = lv_running L0" by (simp_all add: live_refresh_def)
    moreover have "lv_first L0 = ?next"
    proof -
      have e: "f = Read Missing" "?next = held"
        using u True f(1) by (auto simp: try_update_def Let_def split: if_splits)
      have "tm_services ?next = Some ss" if "st = StNamed ss" for ss using that by (simp add: started_record_def)
      moreover have "tm_services ?next = None" unfolding n by (simp add: serve_toml_default_def)
      moreover have "\<exists>ss. st = StNamed ss" if "named \<noteq> []" using st that by (auto simp: started_of_def bindR_Inr_iff)
      ultimately have "named = []" by (metis option.distinct(1))
      then show ?thesis using f(2) e by simp
    qed
    ultimately show ?thesis using load_file [OF l] now by simp
  next
    case False
    show ?thesis using look_takes(1,2) [OF r now False k(1) d] by simp
  qed
  have g: "case bt_get (targets st) n of None \<Rightarrow> False | Some b \<Rightarrow> b \<noteq> t \<Longrightarrow> (n, t) \<notin> set (targets st)" for n t
    using bt_get_entries [of "targets st" n t] by (auto simp: targets_def)
  have own: "filter (\<lambda>n. \<not> bt_has (targets st) n) (bt_keys (targets st)) = []"
    "filter (\<lambda>(n, _). \<not> bt_has (targets st) n) (targets st) = []"
    "filter (\<lambda>(n, t). case bt_get (targets st) n of None \<Rightarrow> False | Some b \<Rightarrow> b \<noteq> t) (targets st) = []"
    subgoal by (force simp: bt_has_keys filter_empty_conv bt_keys_def)
    subgoal by (force simp: bt_has_keys filter_empty_conv bt_keys_def)
    subgoal using g by (auto simp: filter_empty_conv)
    done
  define L where "L = live_serving X T S st k L0"
  have L: "lv_serving L = Some \<lparr>sv_bound = targets st, sv_relay = tm_relay ?next, sv_resolver = tm_resolver ?next\<rparr>"
    "lv_running L = Some (targets st)" "lv_file L = ?next"
    using R by (simp_all add: L_def live_serving_def Let_def)
  have "live_removed L = []" using own(1) by (simp add: live_removed_def L)
  moreover have "waiting_empty (waiting_held L)"
    using own(2,3) by (simp add: waiting_empty_def waiting_held_def held_running_def L)
  ultimately show ?thesis unfolding Let_def L_def [symmetric] by (simp add: refuses_def L(3))
qed

lemma example_start:
  "started_of example_entries [] example_off ''/'' = Inr StDefault"
  "serve_saves example_toml example_entries Done StDefault \<lparr>ra_relay = None, ra_resolver = None\<rparr> (Read (Contents ''off=ping'')) =
     (Inr (), Read (Contents ''off=ping''))"
  "toml_read example_toml (Read (Contents ''off=ping'')) = Inr example_off"
  "keep_reach \<lparr>ra_relay = None, ra_resolver = None\<rparr> (started_record example_entries StDefault example_off) = example_off"
proof -
  show "started_of example_entries [] example_off ''/'' = Inr StDefault"
    by (simp add: started_of_def started_bare_def serve_toml_default_def example_off_def)
  show r: "toml_read example_toml (Read (Contents ''off=ping'')) = Inr example_off"
    using updated_reads [OF _ example_toggle example_turned example_toml_facts(3,2,4)] by (simp add: toml_read_def read_stamped_def)
  show "keep_reach \<lparr>ra_relay = None, ra_resolver = None\<rparr> (started_record example_entries StDefault example_off) = example_off"
    by (simp add: keep_reach_def or_else_def started_record_def)
  then show "serve_saves example_toml example_entries Done StDefault \<lparr>ra_relay = None, ra_resolver = None\<rparr> (Read (Contents ''off=ping'')) =
      (Inr (), Read (Contents ''off=ping''))"
    by (simp add: serve_saves_def toml_update_def try_update_def r)
qed

theorem start_nothing_waits_witness:
  "let L = live_serving example_toml example_entries example_toml_stamps StDefault (example_toml_look (Read (Contents ''off=ping'')))
      (example_live example_off (Some ''off=ping''))
   in waiting_empty (waiting_held L) \<and> refuses ''ping'' L \<and> \<not> refuses ''speed'' L"
proof -
  let ?k = "example_toml_look (Read (Contents ''off=ping''))"
  let ?a = "\<lparr>ra_relay = None, ra_resolver = None\<rparr>"
  have n: "typed_entries example_entries []" "urls_read example_toml ?a"
    by (simp_all add: typed_entries_def urls_read_def)
  have f: "started_of example_entries [] (lv_first (example_live example_off (Some ''off=ping''))) ''/'' = Inr StDefault"
    by (simp add: example_live_def example_start)
  have h: "([] :: string list) \<noteq> [] \<or> example_off = lv_first (example_live example_off (Some ''off=ping''))"
    by (simp add: example_live_def)
  have k: "sees (Read (Contents ''off=ping'')) ?k" "\<forall>s. \<not> stamps.unchanged example_toml_stamps None s"
    by (simp_all add: sees_def example_toml_look_def example_toml_stamps_def)
  have b: "text_back example_toml (keep_reach ?a (started_record example_entries StDefault example_off))"
    "length (toml_encode example_toml (keep_reach ?a (started_record example_entries StDefault example_off))) \<le> MAX_SERVE_TOML"
    unfolding example_start(4) using example_toml_facts by auto
  have "bt_has (tm_off example_off) ''ping''" "\<not> bt_has (tm_off example_off) ''speed''"
    by (simp_all add: example_off_def bt_has_def bt_get_def)
  then show ?thesis
    using start_nothing_waits [OF example_reads_services n(1) example_toml_facts(1) n(2) example_loads(2) f example_start(3) h
        example_start(2) b k]
    unfolding Let_def example_start(4) by blast
qed

end
