(* ===== verification/Forget.thy ===== *)
theory Forget
  imports Joining_Laws "HOL-Library.Sublist"
begin

text \<open>
  \<^verbatim>\<open>src/root/forget.rs\<close>: removing the root from this machine, after six checks of a copy of it. What
  each check observes is a field of \<open>forget_obs\<close>, before the lock and under it, since other programs
  run in between; what a run makes lasting is a log, in order, so a run that stops shows how far it got.
\<close>

section \<open>Where a copy is\<close>

record file_place =
  pl_dev :: u64
  pl_ino :: u64
  pl_dataless :: bool
  pl_in_memory :: bool
  pl_emptied :: bool

definition TMPFS_MAGIC :: int where "TMPFS_MAGIC = 16914836"
definition RAMFS_MAGIC :: int where "RAMFS_MAGIC = 2240043254"

definition in_memory :: "string + int \<Rightarrow> string + bool" where
  "in_memory fs = bindR fs (\<lambda>kind. Inr (kind = TMPFS_MAGIC \<or> kind = RAMFS_MAGIC))"

text \<open>\<^verbatim>\<open>Path::starts_with\<close> on a canonical path: whole components.\<close>

definition path_under :: "string \<Rightarrow> string \<Rightarrow> bool" where
  "path_under path dir \<longleftrightarrow> path = dir \<or> take (length dir + 1) path = dir @ ''/''"

definition is_emptied :: "string option \<Rightarrow> bool" where
  "is_emptied resolved =
     (case resolved of
        None \<Rightarrow> False
      | Some path \<Rightarrow> list_ex (path_under path) [''/tmp'', ''/var/tmp'', ''/private/tmp'', ''/private/var/tmp''])"

text \<open>\<^verbatim>\<open>RealDisk\<close> on Linux, where no file is dataless: what \<^verbatim>\<open>stat\<close>, \<^verbatim>\<open>statfs\<close> and \<^verbatim>\<open>canonicalize\<close> give.\<close>

definition real_place :: "string + u64 \<times> u64 \<Rightarrow> string + int \<Rightarrow> string option \<Rightarrow> string + file_place" where
  "real_place stat fs resolved =
     bindR stat (\<lambda>(dev, ino).
     bindR (in_memory fs) (\<lambda>mem.
     Inr \<lparr>pl_dev = dev, pl_ino = ino, pl_dataless = False, pl_in_memory = mem, pl_emptied = is_emptied resolved\<rparr>))"

section \<open>What a run observes and does\<close>

datatype forget_error =
    FgNoTerminal
  | FgNotHere
  | FgNoCopy
  | FgSameDisk
  | FgInMemory
  | FgEmptied
  | FgWrong
  | FgAnotherRoot node_id node_id
  | FgChanged
  | FgSynced
  | FgRoot root_error

text \<open>One open of the copy's key: not a regular file, or its bytes. An unlock at the prompt; the sync of the list.\<close>

datatype key_opened = OpenFailed string | NotRegular | OpenRead bytes

datatype unlocked = WrongPassphrase | UnlockFailed string | Unlocked node_id

datatype list_sync = SyncFailed string | SyncNotRegular | SyncDone

datatype effect = WroteList bytes | SyncedKey | SyncedList | SyncedCopy | RemovedKey | SyncedHome | Swept "string list"

record 'd forget_obs =
  fg_terminal :: bool
  fg_before :: "'d home"
  fg_under :: "'d home"
  fg_files_before :: "bool \<times> bool"
  fg_files_under :: "bool \<times> bool"
  fg_key_place :: "string + file_place"
  fg_list_place :: "string + file_place"
  fg_home_place :: "string + file_place"
  fg_own_place :: "string + file_place"
  fg_key_place_under :: "string + file_place"
  fg_list_place_under :: "string + file_place"
  fg_key_first :: key_opened
  fg_key_after :: key_opened
  fg_key_under :: key_opened
  fg_header :: header_read
  fg_unlock :: unlocked
  fg_lock :: "string option"
  fg_list :: list_read
  fg_devices :: "string + bytes"
  fg_write :: fate
  fg_sync_key :: "string option"
  fg_sync_list :: list_sync
  fg_sync_copy :: "string option"
  fg_remove :: fate
  fg_sync_home :: "string option"
  fg_entries :: "(string \<times> bool) list option"

type_synonym 'a forgetting = "(effect list, forget_error, 'a) act"

definition does :: "fate \<Rightarrow> effect \<Rightarrow> unit forgetting" where
  "does f e log =
     (case f of
        Done \<Rightarrow> (Inr (), log @ [e])
      | NotDone why \<Rightarrow> (Inl (FgRoot (RtIo why)), log)
      | DoneBut why \<Rightarrow> (Inl (FgRoot (RtIo why)), log @ [e]))"

definition syncs :: "string option \<Rightarrow> effect \<Rightarrow> unit forgetting" where
  "syncs failed e = does (case failed of None \<Rightarrow> Done | Some why \<Rightarrow> NotDone why) e"

definition unless :: "bool \<Rightarrow> forget_error \<Rightarrow> unit forgetting" where
  "unless bad e = liftS (if bad then Inl e else Inr ())"

section \<open>The checks\<close>

definition forget_held :: "env \<Rightarrow> 'd denylist_ops \<Rightarrow> 'd home \<Rightarrow> forget_error + node_id" where
  "forget_held E D H =
     bindR (map_err (FgRoot \<circ> RtStanding) (standing_read E D H)) (\<lambda>st.
     case st of
       HoldsRoot pin _ \<Rightarrow> Inr pin
     | InterruptedMint k \<Rightarrow> Inl (FgRoot (Unfinished k))
     | _ \<Rightarrow> Inl FgNotHere)"

definition place_at :: "string + file_place \<Rightarrow> forget_error + file_place" where
  "place_at p = map_err (FgRoot \<circ> RtIo) p"

definition OPEN_CAP :: nat where "OPEN_CAP = 4096"

definition open_key :: "key_opened \<Rightarrow> forget_error + bytes" where
  "open_key o1 =
     (case o1 of
        OpenFailed e \<Rightarrow> Inl (FgRoot (RtIo e))
      | NotRegular \<Rightarrow> Inl FgChanged
      | OpenRead b \<Rightarrow> Inr (take (OPEN_CAP + 1) b))"

text \<open>Check 4, on the places of the copy's two files, of the home and of the root's own key file.\<close>

definition check_place :: "file_place \<Rightarrow> file_place \<Rightarrow> file_place \<Rightarrow> file_place \<Rightarrow> forget_error + bool" where
  "check_place key lst home own =
     (let synced = pl_dataless key \<and> pl_dataless lst in
      if (pl_dev key, pl_ino key) = (pl_dev own, pl_ino own) then Inl FgSameDisk
      else if \<not> synced \<and> (pl_dev key = pl_dev home \<or> pl_dev lst = pl_dev home) then Inl FgSameDisk
      else if \<not> synced \<and> (pl_in_memory key \<or> pl_in_memory lst) then Inl FgInMemory
      else if pl_emptied key \<or> pl_emptied lst then Inl FgEmptied
      else Inr synced)"

text \<open>Check 5: the header's key, then the key a passphrase opens.\<close>

definition check_opens :: "node_id \<Rightarrow> header_read \<Rightarrow> unlocked \<Rightarrow> forget_error + unit" where
  "check_opens root hdr un =
     bindR (map_err FgRoot (read_header hdr)) (\<lambda>locked.
     bindR (map_err FgRoot (header_key locked)) (\<lambda>claimed.
     if claimed \<noteq> root then Inl (FgAnotherRoot claimed root)
     else (case un of
         WrongPassphrase \<Rightarrow> Inl FgWrong
       | UnlockFailed why \<Rightarrow> Inl (FgRoot (Prompt why))
       | Unlocked key \<Rightarrow> if key \<noteq> root then Inl (FgAnotherRoot key root) else Inr ())))"

definition same_file :: "file_place \<Rightarrow> file_place \<Rightarrow> bool" where
  "same_file was now \<longleftrightarrow> pl_dev was = pl_dev now \<and> pl_ino was = pl_ino now"

text \<open>Check 6: whether the copy's list is older than this machine's.\<close>

definition list_behind :: "roster_doc option \<Rightarrow> roster_doc option \<Rightarrow> bool" where
  "list_behind copied here =
     (case (copied, here) of
        (_, None) \<Rightarrow> False
      | (None, Some _) \<Rightarrow> True
      | (Some copied, Some here) \<Rightarrow> epoch copied < epoch here)"

definition check_list :: "env \<Rightarrow> 'd forget_obs \<Rightarrow> node_id \<Rightarrow> forget_error + bool" where
  "check_list E ob root =
     bindR (map_err FgRoot (root_pin E root)) (\<lambda>pin.
     bindR (map_err FgRoot (read_list E (fg_list ob) pin)) (\<lambda>copied.
     bindR (map_err FgRoot (read_list E (ListFile (h_devices (fg_under ob))) pin)) (\<lambda>here.
     Inr (list_behind copied here))))"

definition STAGE_PREFIX :: string where "STAGE_PREFIX = ''root.key.tmp.''"

definition sweep_stages :: "(string \<times> bool) list option \<Rightarrow> string list" where
  "sweep_stages entries =
     (case entries of
        None \<Rightarrow> []
      | Some es \<Rightarrow> map fst (filter (\<lambda>(name, is_file).
          take (length STAGE_PREFIX) name = STAGE_PREFIX \<and> is_file) es))"

section \<open>The run\<close>

record forgot =
  ft_updated :: bool
  ft_synced :: bool

definition sync_list :: "list_sync \<Rightarrow> unit forgetting" where
  "sync_list s log =
     (case s of
        SyncFailed why \<Rightarrow> (Inl (FgRoot (RtIo why)), log)
      | SyncNotRegular \<Rightarrow> (Inl FgChanged, log)
      | SyncDone \<Rightarrow> (Inr (), log @ [SyncedList]))"

text \<open>Checks 1 to 5, before the lock: the root, the places and the bytes the rest is held against.\<close>

definition forget_checks ::
  "env \<Rightarrow> 'd denylist_ops \<Rightarrow> 'd forget_obs \<Rightarrow> forget_error + node_id \<times> file_place \<times> file_place \<times> bool \<times> bytes" where
  "forget_checks E D ob =
     (if \<not> fg_terminal ob then Inl FgNoTerminal
      else
        bindR (forget_held E D (fg_before ob)) (\<lambda>root.
        if \<not> fst (fg_files_before ob) \<or> \<not> snd (fg_files_before ob) then Inl FgNoCopy
        else
          bindR (place_at (fg_key_place ob)) (\<lambda>key.
          bindR (place_at (fg_list_place ob)) (\<lambda>lst.
          bindR (place_at (fg_home_place ob)) (\<lambda>home.
          bindR (place_at (fg_own_place ob)) (\<lambda>own.
          bindR (check_place key lst home own) (\<lambda>synced.
          bindR (open_key (fg_key_first ob)) (\<lambda>b.
          bindR (check_opens root (fg_header ob) (fg_unlock ob)) (\<lambda>_.
          bindR (open_key (fg_key_after ob)) (\<lambda>again.
          if again \<noteq> b then Inl FgChanged else Inr (root, key, lst, synced, b)))))))))))"

text \<open>Checks 2 and 3 again under the lock, the copy's files confirmed, and check 6.\<close>

definition forget_confirms ::
  "env \<Rightarrow> 'd denylist_ops \<Rightarrow> 'd forget_obs \<Rightarrow> node_id \<Rightarrow> file_place \<Rightarrow> file_place \<Rightarrow> bytes \<Rightarrow> forget_error + bool" where
  "forget_confirms E D ob root key lst b =
     bindR (case fg_lock ob of None \<Rightarrow> Inr () | Some e \<Rightarrow> Inl (FgRoot (RtLock e))) (\<lambda>_.
     bindR (forget_held E D (fg_under ob)) (\<lambda>now.
     if now \<noteq> root then Inl FgNotHere
     else if \<not> fst (fg_files_under ob) \<or> \<not> snd (fg_files_under ob) then Inl FgNoCopy
     else
       bindR (place_at (fg_key_place_under ob)) (\<lambda>key_now.
       if \<not> same_file key key_now then Inl FgChanged
       else
         bindR (place_at (fg_list_place_under ob)) (\<lambda>lst_now.
         if \<not> same_file lst lst_now then Inl FgChanged
         else
           bindR (open_key (fg_key_under ob)) (\<lambda>now.
           if now \<noteq> b then Inl FgChanged else check_list E ob root)))))"

definition forget_removes :: "'d forget_obs \<Rightarrow> bool \<Rightarrow> bool \<Rightarrow> forgot forgetting" where
  "forget_removes ob synced behind =
     bindS (syncs (fg_sync_key ob) SyncedKey) (\<lambda>_.
     bindS (if \<not> behind then sync_list (fg_sync_list ob) else liftS (Inr ())) (\<lambda>_.
     bindS (syncs (fg_sync_copy ob) SyncedCopy) (\<lambda>_.
     bindS (does (fg_remove ob) RemovedKey) (\<lambda>_.
     bindS (syncs (fg_sync_home ob) SyncedHome) (\<lambda>_.
     bindS (does Done (Swept (sweep_stages (fg_entries ob)))) (\<lambda>_.
     liftS (Inr \<lparr>ft_updated = behind, ft_synced = synced\<rparr>)))))))"

definition forget_writes :: "'d forget_obs \<Rightarrow> bool \<Rightarrow> bool \<Rightarrow> forgot forgetting" where
  "forget_writes ob synced behind =
     bindS (if behind then
         bindS (liftS (map_err (FgRoot \<circ> RtIo) (fg_devices ob))) (\<lambda>b.
         bindS (does (fg_write ob) (WroteList b)) (\<lambda>_. unless synced FgSynced))
       else liftS (Inr ())) (\<lambda>_. forget_removes ob synced behind)"

definition forget :: "env \<Rightarrow> 'd denylist_ops \<Rightarrow> 'd forget_obs \<Rightarrow> forgot forgetting" where
  "forget E D ob =
     bindS (liftS (forget_checks E D ob)) (\<lambda>(root, key, lst, synced, b).
     bindS (liftS (forget_confirms E D ob root key lst b)) (\<lambda>behind.
     forget_writes ob synced behind))"

section \<open>What a run promises\<close>

lemma does_result:
  "does f e log = (r, log') \<Longrightarrow> (r = Inr () \<and> log' = log @ [e]) \<or> (\<exists>why. r = Inl (FgRoot (RtIo why))) \<and> log' \<in> {log, log @ [e]}"
  by (auto simp: does_def split: fate.splits)

lemma syncs_result:
  "syncs f e log = (r, log') \<Longrightarrow> (r = Inr () \<and> log' = log @ [e]) \<or> (\<exists>why. r = Inl (FgRoot (RtIo why))) \<and> log' = log"
  by (auto simp: syncs_def does_def split: option.splits)

lemma check_place_Inr:
  "check_place key lst home own = Inr synced \<longleftrightarrow>
     synced = (pl_dataless key \<and> pl_dataless lst) \<and> \<not> same_file key own \<and> \<not> pl_emptied key \<and> \<not> pl_emptied lst \<and>
     (synced \<or> pl_dev key \<noteq> pl_dev home \<and> pl_dev lst \<noteq> pl_dev home \<and> \<not> pl_in_memory key \<and> \<not> pl_in_memory lst)"
  by (auto simp: check_place_def Let_def same_file_def split: if_splits)

lemma check_opens_Inr:
  "check_opens root hdr un = Inr x \<longleftrightarrow> hdr = HdrLocked (Some root) \<and> un = Unlocked root"
  by (cases hdr; cases un) (auto simp: check_opens_def read_header_def header_key_def bindR_Inr_iff map_err_Inr_iff ok_or_Inr_iff split: if_splits)

text \<open>A copy fit to outlive the root here: where it is, that it opens as this root, and its list.\<close>

definition copy_apart :: "'d forget_obs \<Rightarrow> bool \<Rightarrow> bool" where
  "copy_apart ob synced \<longleftrightarrow>
     (\<exists>key lst home own k l. fg_key_place ob = Inr key \<and> fg_list_place ob = Inr lst \<and> fg_home_place ob = Inr home \<and>
        fg_own_place ob = Inr own \<and> fg_key_place_under ob = Inr k \<and> fg_list_place_under ob = Inr l \<and>
        same_file key k \<and> same_file lst l \<and> \<not> same_file key own \<and> \<not> pl_emptied key \<and> \<not> pl_emptied lst \<and>
        (if synced then pl_dataless key \<and> pl_dataless lst
         else pl_dev key \<noteq> pl_dev home \<and> pl_dev lst \<noteq> pl_dev home \<and> \<not> pl_in_memory key \<and> \<not> pl_in_memory lst))"

definition copy_opens :: "'d forget_obs \<Rightarrow> node_id \<Rightarrow> bool" where
  "copy_opens ob root \<longleftrightarrow> fg_header ob = HdrLocked (Some root) \<and> fg_unlock ob = Unlocked root \<and>
     (\<exists>b. open_key (fg_key_first ob) = Inr b \<and> open_key (fg_key_after ob) = Inr b \<and> open_key (fg_key_under ob) = Inr b)"

definition copy_listed :: "env \<Rightarrow> 'd forget_obs \<Rightarrow> node_id \<Rightarrow> bool \<Rightarrow> bool" where
  "copy_listed E ob root behind \<longleftrightarrow>
     (\<exists>pin copied here. root_pin E root = Inr pin \<and> read_list E (fg_list ob) pin = Inr copied \<and>
        read_list E (ListFile (h_devices (fg_under ob))) pin = Inr here \<and>
        (\<not> behind \<longrightarrow> (\<forall>d. here = Some d \<longrightarrow> (\<exists>c. copied = Some c \<and> epoch d \<le> epoch c))))"

lemma map_err_Inl_iff: "map_err g m = Inl e \<longleftrightarrow> (\<exists>d. m = Inl d \<and> e = g d)"
  by (cases m) auto

lemma checks_passed:
  assumes "forget_checks E D ob = Inr (root, key, lst, synced, b)" "forget_confirms E D ob root key lst b = Inr behind"
  shows "fg_terminal ob" "forget_held E D (fg_before ob) = Inr root" "forget_held E D (fg_under ob) = Inr root"
    "copy_apart ob synced" "copy_opens ob root" "copy_listed E ob root behind"
proof -
  obtain home own where c: "fg_terminal ob" "forget_held E D (fg_before ob) = Inr root" "fg_key_place ob = Inr key"
    "fg_list_place ob = Inr lst" "fg_home_place ob = Inr home" "fg_own_place ob = Inr own"
    "check_place key lst home own = Inr synced" "open_key (fg_key_first ob) = Inr b"
    "check_opens root (fg_header ob) (fg_unlock ob) = Inr ()" "open_key (fg_key_after ob) = Inr b"
    using assms(1) by (auto simp: forget_checks_def bindR_Inr_iff map_err_Inr_iff place_at_def split: if_splits)
  obtain k l where u: "forget_held E D (fg_under ob) = Inr root" "fg_key_place_under ob = Inr k" "fg_list_place_under ob = Inr l"
    "same_file key k" "same_file lst l" "open_key (fg_key_under ob) = Inr b" "check_list E ob root = Inr behind"
    using assms(2) by (auto simp: forget_confirms_def bindR_Inr_iff map_err_Inr_iff place_at_def split: if_splits option.splits)
  show "fg_terminal ob" "forget_held E D (fg_before ob) = Inr root" "forget_held E D (fg_under ob) = Inr root"
    using c u by simp_all
  show "copy_apart ob synced" using c(3-7) u(2-5) by (auto simp: copy_apart_def check_place_Inr)
  show "copy_opens ob root" using c(8-10) u(6) by (auto simp: copy_opens_def check_opens_Inr)
  show "copy_listed E ob root behind"
    using u(7) by (auto simp: check_list_def copy_listed_def bindR_Inr_iff map_err_Inr_iff list_behind_def split: option.splits)
qed

text \<open>What the writes leave once the copy's list is in order, and how far a run got along it.\<close>

definition removal :: "'d forget_obs \<Rightarrow> bool \<Rightarrow> effect list" where
  "removal ob behind = SyncedKey # (if behind then [] else [SyncedList]) @
     [SyncedCopy, RemovedKey, SyncedHome, Swept (sweep_stages (fg_entries ob))]"

definition io_failed :: "forget_error + 'a \<Rightarrow> bool" where
  "io_failed r \<longleftrightarrow> (\<exists>why. r = Inl (FgRoot (RtIo why)))"

lemma io_failed_simps [simp]: "io_failed (Inl (FgRoot (RtIo why)))" "\<not> io_failed (Inr x)"
  by (simp_all add: io_failed_def)

lemma removes_result:
  assumes "forget_removes ob synced behind pre = (r, log)"
  shows "\<exists>got. log = pre @ got \<and> prefix got (removal ob behind) \<and>
    (io_failed r \<or> r = Inl FgChanged \<and> \<not> behind \<and> got = [SyncedKey] \<or>
     r = Inr \<lparr>ft_updated = behind, ft_synced = synced\<rparr> \<and> got = removal ob behind)"
proof -
  have "take (length pre) log = pre \<and> prefix (drop (length pre) log) (removal ob behind) \<and>
    (io_failed r \<or> r = Inl FgChanged \<and> \<not> behind \<and> drop (length pre) log = [SyncedKey] \<or>
     r = Inr \<lparr>ft_updated = behind, ft_synced = synced\<rparr> \<and> drop (length pre) log = removal ob behind)"
    using assms
    by (cases behind; cases "fg_sync_key ob"; cases "fg_sync_list ob"; cases "fg_sync_copy ob"; cases "fg_remove ob"; cases "fg_sync_home ob")
      (auto simp: forget_removes_def bindS_def syncs_def does_def sync_list_def removal_def)
  then show ?thesis by (intro exI [of _ "drop (length pre) log"]) (metis append_take_drop_id)
qed

lemma writes_result:
  assumes "forget_writes ob synced behind [] = (r, log)"
  obtains (none) "log = []" "io_failed r"
  | (list) b where "log = [WroteList b]" "behind" "fg_devices ob = Inr b" "io_failed r \<or> synced \<and> r = Inl FgSynced"
  | (on) pre got where "log = pre @ got" "prefix got (removal ob behind)"
    "if behind then \<not> synced \<and> (\<exists>b. fg_devices ob = Inr b \<and> pre = [WroteList b]) else pre = []"
    "io_failed r \<or> r = Inl FgChanged \<and> \<not> behind \<and> got = [SyncedKey] \<or>
     r = Inr \<lparr>ft_updated = behind, ft_synced = synced\<rparr> \<and> got = removal ob behind"
proof (cases behind)
  case False
  then have "forget_removes ob synced behind [] = (r, log)" using assms by (simp add: forget_writes_def bindS_def)
  from removes_result [OF this] False show ?thesis using on [of "[]"] by auto
next
  case b: True
  show ?thesis
  proof (cases "fg_devices ob")
    case (Inl e)
    then show ?thesis using assms b none by (auto simp: forget_writes_def bindS_def)
  next
    case (Inr bs)
    show ?thesis
    proof (cases "fg_write ob = Done \<and> \<not> synced")
      case True
      then have "forget_removes ob synced behind [WroteList bs] = (r, log)"
        using assms b Inr by (simp add: forget_writes_def bindS_def does_def unless_def)
      from removes_result [OF this] True b Inr show ?thesis using on [of "[WroteList bs]"] by auto
    next
      case False
      then show ?thesis using assms b Inr none list
        by (cases "fg_write ob") (auto simp: forget_writes_def bindS_def does_def unless_def)
    qed
  qed
qed

lemma checks_not_synced:
  "forget_checks E D ob \<noteq> Inl FgSynced" "forget_confirms E D ob root key lst b \<noteq> Inl FgSynced"
proof -
  have h: "forget_held E D H \<noteq> Inl FgSynced" "place_at p \<noteq> Inl FgSynced" "open_key k \<noteq> Inl FgSynced"
    "check_place a1 a2 a3 a4 \<noteq> Inl FgSynced" "check_opens root hdr un \<noteq> Inl FgSynced" "check_list E ob root \<noteq> Inl FgSynced"
    for H p k a1 a2 a3 a4 hdr un root
    by (auto simp: forget_held_def place_at_def open_key_def check_place_def check_opens_def check_list_def Let_def
        bindR_Inl_iff map_err_Inl_iff split: standing.splits key_opened.splits unlocked.splits if_splits)
  show "forget_checks E D ob \<noteq> Inl FgSynced"
    using h by (auto simp: forget_checks_def bindR_Inl_iff split: if_splits)
  show "forget_confirms E D ob root key lst b \<noteq> Inl FgSynced"
    using h by (auto simp: forget_confirms_def bindR_Inl_iff split: if_splits option.splits)
qed

lemma forget_cases:
  assumes "forget E D ob [] = (r, log)"
  obtains (refused) e where "r = Inl e" "log = []"
    "forget_checks E D ob = Inl e \<or>
     (\<exists>root key lst synced b. forget_checks E D ob = Inr (root, key, lst, synced, b) \<and>
        forget_confirms E D ob root key lst b = Inl e)"
  | (writes) root key lst synced b behind where "forget_checks E D ob = Inr (root, key, lst, synced, b)"
    "forget_confirms E D ob root key lst b = Inr behind" "forget_writes ob synced behind [] = (r, log)"
proof (cases "forget_checks E D ob")
  case (Inr p)
  obtain root key lst synced b where p: "p = (root, key, lst, synced, b)" by (cases p)
  show ?thesis using assms Inr p that by (cases "forget_confirms E D ob root key lst b") (auto simp: forget_def bindS_def)
qed (use assms that in \<open>auto simp: forget_def bindS_def\<close>)

text \<open>
  C33: A root leaves a machine only behind a copy. Where \<^verbatim>\<open>root forget\<close> deletes \<^verbatim>\<open>root.key\<close>, it ran at
  a terminal on a machine that held the root before the prompt and under the lock; the copy's files are not
  the root's own, not in a directory that is emptied, and off this machine's disk and memory, or both in the
  cloud, and are the same files under the lock; the copy's header names this root and the passphrase opened
  it, and its bytes were the same before, after and under the lock; its list is no older than this
  machine's or was replaced first; and everything of the copy is synced before the one delete.
\<close>

theorem forget_only_with_a_copy:
  assumes "forget E D ob [] = (r, log)" "RemovedKey \<in> set log"
  shows "\<exists>root synced behind. fg_terminal ob \<and> forget_held E D (fg_before ob) = Inr root \<and>
    forget_held E D (fg_under ob) = Inr root \<and> copy_apart ob synced \<and> copy_opens ob root \<and>
    copy_listed E ob root behind \<and>
    (if behind then \<not> synced \<and> (\<exists>b. fg_devices ob = Inr b \<and> prefix [WroteList b, SyncedKey, SyncedCopy, RemovedKey] log)
     else prefix [SyncedKey, SyncedList, SyncedCopy, RemovedKey] log)"
  using assms(1)
proof (cases rule: forget_cases)
  case (writes root key lst synced b behind)
  note w = checks_passed [OF writes(1,2)]
  from writes(3) have "if behind then \<not> synced \<and> (\<exists>b. fg_devices ob = Inr b \<and> prefix [WroteList b, SyncedKey, SyncedCopy, RemovedKey] log)
     else prefix [SyncedKey, SyncedList, SyncedCopy, RemovedKey] log"
  proof (cases rule: writes_result)
    case (on pre got)
    have m: "RemovedKey \<in> set got" using assms(2) on(1,3) by (auto split: if_splits)
    have "prefix [SyncedKey, SyncedList, SyncedCopy, RemovedKey] got" if "\<not> behind"
      using on(2) m that unfolding removal_def by (auto simp: prefix_Cons split: if_splits)
    moreover have "prefix [SyncedKey, SyncedCopy, RemovedKey] got" if "behind"
      using on(2) m that unfolding removal_def by (auto simp: prefix_Cons split: if_splits)
    ultimately show ?thesis using on(1,3) by (auto split: if_splits)
  qed (use assms(2) in auto)
  then show ?thesis using w by blast
qed (use assms(2) in simp)

lemma removes_removed:
  assumes "forget_removes ob synced behind pre = (Inl e, log)" "RemovedKey \<notin> set pre" "RemovedKey \<in> set log"
  shows "(\<exists>why. e = FgRoot (RtIo why)) \<and> (fg_remove ob \<noteq> Done \<or> fg_sync_home ob \<noteq> None)"
  using assms
  by (cases behind; cases "fg_sync_key ob"; cases "fg_sync_list ob"; cases "fg_sync_copy ob"; cases "fg_remove ob"; cases "fg_sync_home ob")
    (auto simp: forget_removes_def bindS_def syncs_def does_def sync_list_def)

lemma writes_removed:
  assumes "forget_writes ob synced behind [] = (Inl e, log)" "RemovedKey \<in> set log"
  shows "(\<exists>why. e = FgRoot (RtIo why)) \<and> (fg_remove ob \<noteq> Done \<or> fg_sync_home ob \<noteq> None)"
proof -
  have "\<exists>pre. RemovedKey \<notin> set pre \<and> forget_removes ob synced behind pre = (Inl e, log)"
  proof (cases behind)
    case False
    then show ?thesis using assms(1) by (intro exI [of _ "[]"]) (simp add: forget_writes_def bindS_def)
  next
    case True
    then show ?thesis
      using assms by (cases "fg_devices ob"; cases "fg_write ob"; cases synced)
        (auto simp: forget_writes_def bindS_def does_def unless_def intro!: exI [of _ "[WroteList b]" for b])
  qed
  then show ?thesis using removes_removed assms(2) by blast
qed

text \<open>
  C34: A refusal of \<^verbatim>\<open>root forget\<close> leaves this machine's root and the copy as they were. A run that ends in
  any error but a failed read, write or sync (no terminal, no root here, an interrupted mint, another key's or
  an unreadable header, a wrong passphrase, a copy in a wrong place or changed, a list that does not verify)
  removed nothing and wrote nothing, or synced the copy's key and found its list changed; the one exception is a synced copy, where
  the list this machine held was written to the copy, and the root is still here. And a run that ends in any
  error whatever has removed the root only when the error is of the removal itself or of the sync after it.
\<close>

theorem forget_refuses_unwritten:
  assumes "forget E D ob [] = (Inl e, log)"
  shows "(if e = FgSynced then \<exists>b. fg_devices ob = Inr b \<and> log = [WroteList b]
      else (\<exists>why. e = FgRoot (RtIo why)) \<or> log = [] \<or> e = FgChanged \<and> log = [SyncedKey])
    \<and> (RemovedKey \<in> set log \<longrightarrow>
        (\<exists>why. e = FgRoot (RtIo why)) \<and> (fg_remove ob \<noteq> Done \<or> fg_sync_home ob \<noteq> None))"
  using assms
proof (cases rule: forget_cases)
  case (writes root key lst synced b behind)
  have "if e = FgSynced then \<exists>b. fg_devices ob = Inr b \<and> log = [WroteList b]
      else (\<exists>why. e = FgRoot (RtIo why)) \<or> log = [] \<or> e = FgChanged \<and> log = [SyncedKey]"
    using writes(3) by (cases rule: writes_result) (auto simp: io_failed_def)
  then show ?thesis using writes_removed [OF writes(3)] by blast
qed (auto simp: checks_not_synced)

section \<open>An example\<close>

text \<open>The root of the example home, held here, with a copy on another disk that holds the same list.\<close>

definition example_held_here :: "revocation set home" where
  "example_held_here = (jn_home example_keeper)\<lparr>h_devices := Bytes example_blob\<rparr>"

definition example_place :: "u64 \<Rightarrow> u64 \<Rightarrow> file_place" where
  "example_place dev ino = \<lparr>pl_dev = dev, pl_ino = ino, pl_dataless = False, pl_in_memory = False, pl_emptied = False\<rparr>"

definition example_forget :: "revocation set forget_obs" where
  "example_forget = \<lparr>fg_terminal = True, fg_before = example_held_here, fg_under = example_held_here,
     fg_files_before = (True, True), fg_files_under = (True, True),
     fg_key_place = Inr (example_place 2 10), fg_list_place = Inr (example_place 2 11),
     fg_home_place = Inr (example_place 1 1), fg_own_place = Inr (example_place 1 2),
     fg_key_place_under = Inr (example_place 2 10), fg_list_place_under = Inr (example_place 2 11),
     fg_key_first = OpenRead [7], fg_key_after = OpenRead [7], fg_key_under = OpenRead [7],
     fg_header = HdrLocked (Some (example_node 7)), fg_unlock = Unlocked (example_node 7), fg_lock = None,
     fg_list = ListFile (Bytes example_blob), fg_devices = Inr example_blob, fg_write = Done,
     fg_sync_key = None, fg_sync_list = SyncDone, fg_sync_copy = None, fg_remove = Done, fg_sync_home = None,
     fg_entries = Some [(''root.key.tmp.12.0'', True), (''devices'', True)]\<rparr>"

lemma example_held_root: "forget_held example_env example_denylist example_held_here = Inr (example_node 7)"
proof -
  have "standing_read example_env example_denylist example_held_here = Inr (HoldsRoot (example_node 7) 100)"
    by (simp add: example_held_here_def example_keeper_def standing_read_def own_key_def key_stored_def read_with_own_def
        revoked_open_def read_pin_def text_of_read_def held_root_def root_key_def classify_def read_badge_def load_badge_def
        badge_ours_def st_is_revoked_def example_env_def example_denylist_def example_home_def example_trims
        example_node_def example_key_def example_nauthy_def)
  then show ?thesis by (simp add: forget_held_def)
qed

lemma example_lists: "check_list example_env example_forget (example_node 7) = Inr False"
proof -
  have "root_pin example_env (example_node 7) = Inr (example_key 7)"
    by (simp add: root_pin_def example_env_def example_node_def example_key_def)
  moreover have "read_list example_env (ListFile (Bytes example_blob)) (example_key 7) = Inr (Some example_update)"
    using example_blob_fits example_blob_verifies by (simp add: read_list_def read_list_at_def example_env_def)
  ultimately show ?thesis
    by (simp add: check_list_def example_forget_def example_held_here_def list_behind_def)
qed

lemma example_forget_checks:
  "forget_checks example_env example_denylist example_forget =
     Inr (example_node 7, example_place 2 10, example_place 2 11, False, [7])"
  using example_held_root
  by (simp add: forget_checks_def example_forget_def place_at_def check_place_def example_place_def open_key_def OPEN_CAP_def
      check_opens_def read_header_def header_key_def)

lemma example_forget_confirms:
  "forget_confirms example_env example_denylist example_forget (example_node 7) (example_place 2 10) (example_place 2 11) [7] =
     Inr False"
proof -
  have l: "check_list example_env example_forget (example_node 7) = Inr False" by (rule example_lists)
  show ?thesis using example_held_root unfolding forget_confirms_def l
    by (simp add: example_forget_def place_at_def same_file_def open_key_def OPEN_CAP_def)
qed

lemma example_forgets:
  "forget example_env example_denylist example_forget [] =
     (Inr \<lparr>ft_updated = False, ft_synced = False\<rparr>,
      [SyncedKey, SyncedList, SyncedCopy, RemovedKey, SyncedHome, Swept [''root.key.tmp.12.0'']])"
proof -
  have s: "sweep_stages (fg_entries example_forget) = [''root.key.tmp.12.0'']"
    by (simp add: sweep_stages_def example_forget_def STAGE_PREFIX_def)
  show ?thesis
    by (simp add: forget_def bindS_def example_forget_checks example_forget_confirms forget_writes_def forget_removes_def s)
      (simp add: example_forget_def syncs_def does_def sync_list_def bindS_def)
qed

theorem forget_only_with_a_copy_witness:
  "\<exists>root synced. fg_terminal example_forget \<and> copy_apart example_forget synced \<and> copy_opens example_forget root"
  using forget_only_with_a_copy [OF example_forgets] by auto

text \<open>The same copy in a synced folder, its bytes in the cloud and its list behind.\<close>

definition example_cloud :: "revocation set forget_obs" where
  "example_cloud = example_forget\<lparr>fg_key_place := Inr ((example_place 1 10)\<lparr>pl_dataless := True\<rparr>),
     fg_list_place := Inr ((example_place 1 11)\<lparr>pl_dataless := True\<rparr>),
     fg_key_place_under := Inr (example_place 1 10), fg_list_place_under := Inr (example_place 1 11),
     fg_list := ListFile NoFile\<rparr>"

lemma example_cloud_stops:
  "forget example_env example_denylist example_cloud [] = (Inl FgSynced, [WroteList example_blob])"
proof -
  let ?k = "(example_place 1 10)\<lparr>pl_dataless := True\<rparr>" and ?l = "(example_place 1 11)\<lparr>pl_dataless := True\<rparr>"
  have c: "forget_checks example_env example_denylist example_cloud = Inr (example_node 7, ?k, ?l, True, [7])"
    using example_held_root
    by (simp add: forget_checks_def example_cloud_def example_forget_def place_at_def check_place_def example_place_def
        open_key_def OPEN_CAP_def check_opens_def read_header_def header_key_def)
  have "root_pin example_env (example_node 7) = Inr (example_key 7)"
    by (simp add: root_pin_def example_env_def example_node_def example_key_def)
  moreover have "read_list example_env (ListFile (Bytes example_blob)) (example_key 7) = Inr (Some example_update)"
    using example_blob_fits example_blob_verifies by (simp add: read_list_def read_list_at_def example_env_def)
  moreover have "read_list example_env (ListFile NoFile) (example_key 7) = Inr None"
    by (simp add: read_list_def read_list_at_def)
  ultimately have l: "check_list example_env example_cloud (example_node 7) = Inr True"
    by (simp add: check_list_def example_cloud_def example_forget_def example_held_here_def list_behind_def)
  have f: "forget_confirms example_env example_denylist example_cloud (example_node 7) ?k ?l [7] = Inr True"
    using example_held_root unfolding forget_confirms_def l
    by (simp add: example_cloud_def example_forget_def place_at_def same_file_def open_key_def OPEN_CAP_def example_place_def)
  show ?thesis
    by (simp add: forget_def bindS_def c f forget_writes_def)
      (simp add: example_cloud_def example_forget_def does_def unless_def bindS_def)
qed

text \<open>The prompt for the passphrase interrupted, and the sync after the removal failing.\<close>

lemma example_prompt_stops:
  "forget example_env example_denylist (example_forget\<lparr>fg_unlock := UnlockFailed ''interrupted''\<rparr>) [] =
     (Inl (FgRoot (Prompt ''interrupted'')), [])"
proof -
  have "forget_checks example_env example_denylist (example_forget\<lparr>fg_unlock := UnlockFailed ''interrupted''\<rparr>) =
      Inl (FgRoot (Prompt ''interrupted''))"
    using example_held_root
    by (simp add: forget_checks_def example_forget_def place_at_def check_place_def example_place_def open_key_def
        OPEN_CAP_def check_opens_def read_header_def header_key_def)
  then show ?thesis by (simp add: forget_def bindS_def)
qed

theorem forget_refuses_unwritten_witness:
  "(\<exists>b. fg_devices example_cloud = Inr b \<and> [WroteList example_blob] = [WroteList b]) \<and>
   (\<exists>log. forget example_env example_denylist (example_forget\<lparr>fg_unlock := UnlockFailed ''interrupted''\<rparr>) [] =
      (Inl (FgRoot (Prompt ''interrupted'')), log) \<and> log = [])"
  using forget_refuses_unwritten [OF example_cloud_stops] forget_refuses_unwritten [OF example_prompt_stops]
    example_prompt_stops by simp

end
