(* ===== verification/Backup.thy ===== *)
theory Backup
  imports Forget
begin

text \<open>
  \<^verbatim>\<open>src/root/backup.rs\<close>: copying the root kept on this machine to a directory of its own. The directory is
  its entries as they lie, changed by the run's writes; the laws say that a copy reported done is whole,
  that what else a directory holds is refused untouched, and that a copy's list never goes back.
\<close>

section \<open>A directory\<close>

text \<open>
  What opening and reading an entry gives. A name is its lossy text; \<open>de_plain\<close> is whether the entry is a
  regular file itself, not through a link.
\<close>

datatype file_open = Gone | OpenFails string | Special | Whole bytes

record dir_entry =
  de_name :: string
  de_plain :: bool
  de_open :: file_open

datatype copy_dir = DirGone | DirFails string | DirHas "(string + dir_entry) list"

record copy_place =
  cp_dir :: copy_dir
  cp_private :: bool

definition KEY_FILE :: string where "KEY_FILE = ''root.key''"
definition LIST_FILE :: string where "LIST_FILE = ''devices''"

definition named_in :: "string \<Rightarrow> (string + dir_entry) list \<Rightarrow> dir_entry option" where
  "named_in name es = find_map (\<lambda>e. case e of Inr x \<Rightarrow> if de_name x = name then Some x else None | Inl _ \<Rightarrow> None) es"

definition dir_open :: "string \<Rightarrow> copy_dir \<Rightarrow> file_open" where
  "dir_open name d =
     (case d of
        DirGone \<Rightarrow> Gone
      | DirFails e \<Rightarrow> OpenFails e
      | DirHas es \<Rightarrow> (case named_in name es of Some x \<Rightarrow> de_open x | None \<Rightarrow> Gone))"

definition put_entry :: "dir_entry \<Rightarrow> (string + dir_entry) list \<Rightarrow> (string + dir_entry) list" where
  "put_entry x es =
     (if named_in (de_name x) es = None then es @ [Inr x]
      else map (\<lambda>e. case e of Inr y \<Rightarrow> if de_name y = de_name x then Inr x else Inr y | Inl m \<Rightarrow> Inl m) es)"

definition put_file :: "string \<Rightarrow> bytes \<Rightarrow> copy_dir \<Rightarrow> copy_dir" where
  "put_file name b d =
     (case d of
        DirHas es \<Rightarrow> DirHas (put_entry \<lparr>de_name = name, de_plain = True, de_open = Whole b\<rparr> es)
      | DirGone \<Rightarrow> DirHas [Inr \<lparr>de_name = name, de_plain = True, de_open = Whole b\<rparr>]
      | DirFails e \<Rightarrow> DirFails e)"

definition KEY_CAP :: nat where "KEY_CAP = 4096"

definition read_key :: "file_open \<Rightarrow> root_error + bytes" where
  "read_key f =
     (case f of
        Gone \<Rightarrow> Inl (RtIo ''not found'')
      | OpenFails e \<Rightarrow> Inl (RtIo e)
      | Special \<Rightarrow> Inl (RtIo ''invalid data'')
      | Whole b \<Rightarrow> if length b > KEY_CAP then Inl (RtIo ''invalid data'') else Inr b)"

text \<open>The key store's reading of a key file, over its reading \<open>hdr\<close> of the file's bytes.\<close>

definition header_of :: "(bytes \<Rightarrow> header_read) \<Rightarrow> file_open \<Rightarrow> header_read" where
  "header_of hdr f =
     (case f of
        Gone \<Rightarrow> HdrAbsent
      | OpenFails e \<Rightarrow> HdrError e
      | Special \<Rightarrow> HdrError ''not a regular file''
      | Whole b \<Rightarrow> hdr b)"

definition list_of_open :: "file_open \<Rightarrow> list_read" where
  "list_of_open f =
     (case f of
        Gone \<Rightarrow> ListFile NoFile
      | OpenFails e \<Rightarrow> ListFile (BytesFailed e)
      | Special \<Rightarrow> ListNotRegular
      | Whole b \<Rightarrow> ListFile (Bytes b))"

section \<open>What a directory holds of the root\<close>

datatype backup_error = BkNoRoot | BkNotHere | BkNotEmpty | BkUnreadable string | BkReadBack | BkRoot root_error

datatype copied = CopiedNew | CopiedKept | CopiedReplaced

record copy_held =
  ch_key :: "bytes option"
  ch_list :: "roster_doc option"
  ch_temps :: "string list"

definition copy_is_new :: "copy_held \<Rightarrow> bool" where
  "copy_is_new h \<longleftrightarrow> ch_key h = None \<and> ch_list h = None"

definition is_temp :: "string \<Rightarrow> bool" where
  "is_temp name \<longleftrightarrow> list_ex (\<lambda>kept. prefix (kept @ ''.tmp.'') name) [KEY_FILE, LIST_FILE]"

text \<open>The entries, up to the first that is not the copy's.\<close>

fun scan_copy ::
  "(string + dir_entry) list \<Rightarrow> bool \<times> bool \<times> string list \<Rightarrow> backup_error + bool \<times> bool \<times> string list" where
  "scan_copy [] s = Inr s"
| "scan_copy (Inl e # es) s = Inl (BkUnreadable e)"
| "scan_copy (Inr x # es) (has_key, has_list, temps) =
     (if de_name x = KEY_FILE then scan_copy es (True, has_list, temps)
      else if de_name x = LIST_FILE then scan_copy es (has_key, True, temps)
      else if is_temp (de_name x) \<and> de_plain x then scan_copy es (has_key, has_list, temps @ [de_name x])
      else Inl BkNotEmpty)"

definition copy_header :: "(bytes \<Rightarrow> header_read) \<Rightarrow> copy_dir \<Rightarrow> root_error + node_id" where
  "copy_header hdr d = bindR (read_header (header_of hdr (dir_open KEY_FILE d))) header_key"

definition copy_list :: "env \<Rightarrow> copy_dir \<Rightarrow> verify_key \<Rightarrow> root_error + (roster_doc \<times> bytes) option" where
  "copy_list E d pin = read_list_at E (list_of_open (dir_open LIST_FILE d)) pin"

definition copy_of_this_root ::
  "env \<Rightarrow> (bytes \<Rightarrow> header_read) \<Rightarrow> copy_dir \<Rightarrow> node_id \<Rightarrow> backup_error + copy_held" where
  "copy_of_this_root E hdr d root =
     (case d of
        DirGone \<Rightarrow> Inr \<lparr>ch_key = None, ch_list = None, ch_temps = []\<rparr>
      | DirFails e \<Rightarrow> Inl (BkUnreadable e)
      | DirHas es \<Rightarrow>
          bindR (scan_copy es (False, False, [])) (\<lambda>(has_key, has_list, temps).
          bindR (map_err BkRoot (root_pin E root)) (\<lambda>pin.
          bindR (if \<not> has_key then Inr None
            else if copy_header hdr d \<noteq> Inr root then Inl BkNotEmpty
            else bindR (map_err BkRoot (read_key (dir_open KEY_FILE d))) (\<lambda>b. Inr (Some b))) (\<lambda>key.
          bindR (if \<not> has_list then Inr None
            else (case copy_list E d pin of Inl _ \<Rightarrow> Inl BkNotEmpty | Inr r \<Rightarrow> Inr (map_option fst r))) (\<lambda>lst.
          Inr \<lparr>ch_key = key, ch_list = lst, ch_temps = temps\<rparr>)))))"

section \<open>The run\<close>

text \<open>
  \<open>bo_before\<close> is the home as the run finds it and \<open>bo_under\<close> as it is under \<^verbatim>\<open>home.lock\<close>, where nothing else
  writes it; \<open>bo_stuck\<close> are the temps that could not be removed.
\<close>

record 'd backup_obs =
  bo_before :: "'d home"
  bo_lock :: "string option"
  bo_under :: "'d home"
  bo_root_key :: file_open
  bo_create :: "string option"
  bo_chmod :: "string option"
  bo_write_list :: fate
  bo_write_key :: fate
  bo_stuck :: "string list"

type_synonym 'a backing = "(copy_place, backup_error, 'a) act"

definition backup_root :: "env \<Rightarrow> 'd denylist_ops \<Rightarrow> 'd home \<Rightarrow> backup_error + node_id" where
  "backup_root E D H =
     bindR (map_err (BkRoot \<circ> RtStanding) (standing_read E D H)) (\<lambda>st.
     case st of
       HoldsRoot pin _ \<Rightarrow> Inr pin
     | InterruptedMint k \<Rightarrow> Inl (BkRoot (Unfinished k))
     | StDevice _ _ \<Rightarrow> Inl BkNotHere
     | Unpinned \<Rightarrow> Inl BkNoRoot)"

definition make_dir :: "string option \<Rightarrow> unit backing" where
  "make_dir fails P =
     (case fails of
        Some e \<Rightarrow> (Inl (BkRoot (RtIo e)), P)
      | None \<Rightarrow> (Inr (), if cp_dir P = DirGone then \<lparr>cp_dir = DirHas [], cp_private = True\<rparr> else P))"

definition own_dir :: "string option \<Rightarrow> unit backing" where
  "own_dir fails P =
     (case fails of Some e \<Rightarrow> (Inl (BkRoot (RtIo e)), P) | None \<Rightarrow> (Inr (), P\<lparr>cp_private := True\<rparr>))"

definition copy_write :: "fate \<Rightarrow> string \<Rightarrow> bytes \<Rightarrow> unit backing" where
  "copy_write f name b P =
     (case f of
        Done \<Rightarrow> (Inr (), P\<lparr>cp_dir := put_file name b (cp_dir P)\<rparr>)
      | NotDone why \<Rightarrow> (Inl (BkRoot (RtIo why)), P)
      | DoneBut why \<Rightarrow> (Inl (BkRoot (RtIo why)), P\<lparr>cp_dir := put_file name b (cp_dir P)\<rparr>))"

definition backup_list :: "'d backup_obs \<Rightarrow> copy_held \<Rightarrow> roster_doc option \<Rightarrow> unit backing" where
  "backup_list ob held lst =
     (case lst of
        None \<Rightarrow> liftS (Inr ())
      | Some d \<Rightarrow>
          if (case ch_list held of None \<Rightarrow> True | Some c \<Rightarrow> epoch c < epoch d) then
            (case h_devices (bo_under ob) of
               Bytes b \<Rightarrow> copy_write (bo_write_list ob) LIST_FILE b
             | NoFile \<Rightarrow> liftS (Inl (BkRoot (RtIo ''not found'')))
             | BytesFailed e \<Rightarrow> liftS (Inl (BkRoot (RtIo e))))
          else liftS (Inr ()))"

definition key_copied :: "copy_held \<Rightarrow> bytes \<Rightarrow> copied" where
  "key_copied held key =
     (case ch_key held of
        None \<Rightarrow> CopiedNew
      | Some kept \<Rightarrow> if kept = key then CopiedKept else CopiedReplaced)"

definition clear_temps :: "string list \<Rightarrow> string list \<Rightarrow> copy_dir \<Rightarrow> copy_dir" where
  "clear_temps stuck temps d =
     (case d of
        DirHas es \<Rightarrow> DirHas (filter (\<lambda>e. case e of
            Inr x \<Rightarrow> \<not> (de_name x \<in> set temps \<and> de_name x \<notin> set stuck) | Inl _ \<Rightarrow> True) es)
      | _ \<Rightarrow> d)"

definition read_back :: "env \<Rightarrow> (bytes \<Rightarrow> header_read) \<Rightarrow> node_id \<Rightarrow> verify_key \<Rightarrow> copy_dir \<Rightarrow> backup_error + unit" where
  "read_back E hdr root pin d =
     (if copy_header hdr d \<noteq> Inr root \<or> isl (copy_list E d pin) then Inl BkReadBack else Inr ())"

definition backup_checks ::
  "env \<Rightarrow> 'd denylist_ops \<Rightarrow> (bytes \<Rightarrow> header_read) \<Rightarrow> 'd home \<Rightarrow> copy_dir \<Rightarrow> backup_error + node_id \<times> verify_key \<times> copy_held" where
  "backup_checks E D hdr H d =
     bindR (backup_root E D H) (\<lambda>root.
     bindR (map_err BkRoot (root_pin E root)) (\<lambda>pin.
     bindR (copy_of_this_root E hdr d root) (\<lambda>held. Inr (root, pin, held))))"

definition backup_writes ::
  "env \<Rightarrow> (bytes \<Rightarrow> header_read) \<Rightarrow> 'd backup_obs \<Rightarrow> node_id \<times> verify_key \<times> copy_held \<Rightarrow> copied backing" where
  "backup_writes E hdr ob = (\<lambda>(root, pin, held).
     bindS (liftS (case bo_lock ob of None \<Rightarrow> Inr () | Some e \<Rightarrow> Inl (BkRoot (RtLock e)))) (\<lambda>_.
     bindS (make_dir (bo_create ob)) (\<lambda>_.
     bindS (if copy_is_new held then own_dir (bo_chmod ob) else liftS (Inr ())) (\<lambda>_.
     bindS (liftS (map_err BkRoot (read_list E (ListFile (h_devices (bo_under ob))) pin))) (\<lambda>lst.
     bindS (backup_list ob held lst) (\<lambda>_.
     bindS (liftS (map_err BkRoot (read_key (bo_root_key ob)))) (\<lambda>key.
     bindS (if key_copied held key = CopiedKept then liftS (Inr ())
       else copy_write (bo_write_key ob) KEY_FILE key) (\<lambda>_.
     bindS (\<lambda>P. (Inr (), P\<lparr>cp_dir := clear_temps (bo_stuck ob) (ch_temps held) (cp_dir P)\<rparr>)) (\<lambda>_.
     bindS (getS (\<lambda>P. read_back E hdr root pin (cp_dir P))) (\<lambda>_.
     liftS (Inr (key_copied held key))))))))))))"

definition backup :: "env \<Rightarrow> 'd denylist_ops \<Rightarrow> (bytes \<Rightarrow> header_read) \<Rightarrow> 'd backup_obs \<Rightarrow> copied backing" where
  "backup E D hdr ob = bindS (getS (\<lambda>P. backup_checks E D hdr (bo_before ob) (cp_dir P))) (backup_writes E hdr ob)"

section \<open>Reading a directory a file was put in\<close>

lemma named_in_simps [simp]:
  "named_in n [] = None"
  "named_in n (Inl e # es) = named_in n es"
  "named_in n (Inr x # es) = (if de_name x = n then Some x else named_in n es)"
  by (simp_all add: named_in_def)

lemma named_in_append: "named_in n (es @ fs) = (case named_in n es of Some x \<Rightarrow> Some x | None \<Rightarrow> named_in n fs)"
proof (induction es)
  case (Cons e es)
  then show ?case by (cases e) auto
qed simp

lemma named_in_put: "named_in n (put_entry x es) = (if de_name x = n then Some x else named_in n es)"
proof (cases "named_in (de_name x) es")
  case None
  then show ?thesis by (auto simp: put_entry_def named_in_append split: option.splits)
next
  case (Some y)
  have m: "named_in n (map (\<lambda>e. case e of Inr y \<Rightarrow> if de_name y = de_name x then Inr x else Inr y | Inl m \<Rightarrow> Inl m) es) =
      (if de_name x = n then if named_in n es = None then None else Some x else named_in n es)"
  proof (induction es)
    case (Cons e es)
    then show ?case by (cases e) auto
  qed simp
  show ?thesis using Some m by (auto simp: put_entry_def)
qed

lemma dir_open_put:
  "\<forall>e. d \<noteq> DirFails e \<Longrightarrow> dir_open n (put_file name b d) = (if name = n then Whole b else dir_open n d)"
  by (cases d) (auto simp: put_file_def dir_open_def named_in_put)

lemma named_in_clear:
  "n \<notin> set temps \<Longrightarrow> named_in n (filter (\<lambda>e. case e of
     Inr x \<Rightarrow> \<not> (de_name x \<in> set temps \<and> de_name x \<notin> set stuck) | Inl _ \<Rightarrow> True) es) = named_in n es"
proof (induction es)
  case (Cons e es)
  then show ?case by (cases e) auto
qed simp

lemma dir_open_clear:
  assumes "n \<notin> set temps"
  shows "dir_open n (clear_temps stuck temps d) = dir_open n d"
proof (cases d)
  case (DirHas es)
  show ?thesis unfolding DirHas clear_temps_def dir_open_def copy_dir.case named_in_clear [OF assms] ..
qed (simp_all add: clear_temps_def)

lemma files_no_temps: "\<not> is_temp KEY_FILE" "\<not> is_temp LIST_FILE" "KEY_FILE \<noteq> LIST_FILE"
  by (simp_all add: is_temp_def KEY_FILE_def LIST_FILE_def)

section \<open>What a scan passes\<close>

definition copy_names :: "string list \<Rightarrow> (string + dir_entry) list \<Rightarrow> bool" where
  "copy_names temps es \<longleftrightarrow> (\<forall>e \<in> set es. \<exists>x. e = Inr x \<and> de_name x \<in> {KEY_FILE, LIST_FILE} \<union> set temps)"

lemma scan_copy_Inr:
  "scan_copy es (k0, l0, t0) = Inr (k, l, temps) \<Longrightarrow>
     copy_names temps es \<and> set t0 \<subseteq> set temps \<and> (\<forall>t \<in> set temps. t \<in> set t0 \<or> is_temp t) \<and>
     (k \<longleftrightarrow> k0 \<or> named_in KEY_FILE es \<noteq> None) \<and> (l \<longleftrightarrow> l0 \<or> named_in LIST_FILE es \<noteq> None)"
proof (induction es "(k0, l0, t0)" arbitrary: k0 l0 t0 rule: scan_copy.induct)
  case (3 x es has_key has_list temps0)
  show ?case
  proof (cases "de_name x = KEY_FILE \<or> de_name x = LIST_FILE")
    case True
    then show ?thesis using 3 files_no_temps(3) by (auto simp: copy_names_def)
  next
    case False
    then have t: "is_temp (de_name x)" "de_plain x" "scan_copy es (has_key, has_list, temps0 @ [de_name x]) = Inr (k, l, temps)"
      using 3(4) by (auto split: if_splits)
    then show ?thesis using 3(3) [OF _ _ _ t(3)] False t(1,2) by (auto simp: copy_names_def)
  qed
qed (auto simp: copy_names_def)

definition list_at :: "env \<Rightarrow> verify_key \<Rightarrow> copy_dir \<Rightarrow> roster_doc option" where
  "list_at E pin d = (case copy_list E d pin of Inr (Some (c, _)) \<Rightarrow> Some c | _ \<Rightarrow> None)"

lemma copy_of_this_root_Inr:
  assumes "copy_of_this_root E hdr d root = Inr held" "root_pin E root = Inr pin"
  shows "\<forall>e. d \<noteq> DirFails e" "ch_list held = list_at E pin d"
    "\<And>es. d = DirHas es \<Longrightarrow> copy_names (ch_temps held) es" "\<forall>t \<in> set (ch_temps held). is_temp t"
    "\<And>kb. ch_key held = Some kb \<Longrightarrow> dir_open KEY_FILE d = Whole kb \<and> copy_header hdr d = Inr root"
    "ch_key held = None \<Longrightarrow> dir_open KEY_FILE d = Gone"
proof -
  have "(\<forall>e. d \<noteq> DirFails e) \<and> ch_list held = list_at E pin d \<and> (\<forall>es. d = DirHas es \<longrightarrow> copy_names (ch_temps held) es) \<and>
      (\<forall>t \<in> set (ch_temps held). is_temp t) \<and>
      (\<forall>kb. ch_key held = Some kb \<longrightarrow> dir_open KEY_FILE d = Whole kb \<and> copy_header hdr d = Inr root) \<and>
      (ch_key held = None \<longrightarrow> dir_open KEY_FILE d = Gone)"
  proof (cases d)
    case DirGone
    then show ?thesis
      using assms by (auto simp: copy_of_this_root_def list_at_def copy_list_def dir_open_def list_of_open_def read_list_at_def)
  next
    case (DirFails e)
    then show ?thesis using assms by (simp add: copy_of_this_root_def)
  next
    case (DirHas es)
    obtain k l temps where sc: "scan_copy es (False, False, []) = Inr (k, l, temps)"
      using assms DirHas by (auto simp: copy_of_this_root_def bindR_Inr_iff)
    note n = scan_copy_Inr [OF sc]
    obtain key lst where h: "held = \<lparr>ch_key = key, ch_list = lst, ch_temps = temps\<rparr>"
      and key: "(if \<not> k then Inr None
            else if copy_header hdr d \<noteq> Inr root then Inl BkNotEmpty
            else bindR (map_err BkRoot (read_key (dir_open KEY_FILE d))) (\<lambda>b. Inr (Some b))) = Inr key"
      and lst: "(if \<not> l then Inr None
            else (case copy_list E d pin of Inl _ \<Rightarrow> Inl BkNotEmpty | Inr r \<Rightarrow> Inr (map_option fst r))) = (Inr lst :: backup_error + roster_doc option)"
      using assms DirHas sc by (auto simp: copy_of_this_root_def bindR_Inr_iff map_err_Inr_iff simp del: not_None_eq)
    have "lst = list_at E pin d"
    proof (cases l)
      case True
      then show ?thesis using lst by (auto simp: list_at_def split: sum.splits option.splits)
    next
      case False
      then have "dir_open LIST_FILE d = Gone" using n DirHas by (simp add: dir_open_def)
      then show ?thesis using lst False by (simp add: list_at_def copy_list_def list_of_open_def read_list_at_def)
    qed
    moreover have "dir_open KEY_FILE d = Whole kb \<and> copy_header hdr d = Inr root" if "key = Some kb" for kb
      using key that by (auto simp: bindR_Inr_iff map_err_Inr_iff read_key_def split: if_splits file_open.splits)
    moreover have "dir_open KEY_FILE d = Gone" if "key = None"
      using key that n DirHas by (auto simp: bindR_Inr_iff dir_open_def split: if_splits)
    ultimately show ?thesis using h n DirHas by auto
  qed
  then show "\<forall>e. d \<noteq> DirFails e" "ch_list held = list_at E pin d"
    "\<And>es. d = DirHas es \<Longrightarrow> copy_names (ch_temps held) es" "\<forall>t \<in> set (ch_temps held). is_temp t"
    "\<And>kb. ch_key held = Some kb \<Longrightarrow> dir_open KEY_FILE d = Whole kb \<and> copy_header hdr d = Inr root"
    "ch_key held = None \<Longrightarrow> dir_open KEY_FILE d = Gone" by blast+
qed

section \<open>The writes\<close>

lemma copy_write_result:
  assumes "copy_write f name b P = (r, P')" "\<forall>e. cp_dir P \<noteq> DirFails e"
  shows "(P' = P \<and> (\<exists>why. r = Inl (BkRoot (RtIo why)))) \<or>
    ((\<forall>n. dir_open n (cp_dir P') = (if n = name then Whole b else dir_open n (cp_dir P))) \<and> (\<forall>e. cp_dir P' \<noteq> DirFails e) \<and>
      (r = Inr () \<or> (\<exists>why. r = Inl (BkRoot (RtIo why)))))"
  using assms dir_open_put [of "cp_dir P" _ name b]
  by (cases "cp_dir P"; cases f) (auto simp: copy_write_def put_file_def)

text \<open>No step of the writes takes the list back, and an error after them is of a read or a write, or of the read-back.\<close>

definition not_back :: "env \<Rightarrow> verify_key \<Rightarrow> copy_place \<Rightarrow> copy_place \<Rightarrow> bool" where
  "not_back E pin P P' \<longleftrightarrow> (\<forall>c. list_at E pin (cp_dir P) = Some c \<longrightarrow> (\<exists>d. list_at E pin (cp_dir P') = Some d \<and> epoch c \<le> epoch d))"

definition same_list :: "copy_place \<Rightarrow> copy_place \<Rightarrow> bool" where
  "same_list P P' \<longleftrightarrow> dir_open LIST_FILE (cp_dir P') = dir_open LIST_FILE (cp_dir P) \<and>
     ((\<forall>e. cp_dir P \<noteq> DirFails e) \<longrightarrow> (\<forall>e. cp_dir P' \<noteq> DirFails e))"

lemma same_list_not_back: "same_list P P' \<Longrightarrow> not_back E pin P P'"
  by (auto simp: same_list_def not_back_def list_at_def copy_list_def)

lemma same_list_trans: "same_list P Q \<Longrightarrow> same_list Q R \<Longrightarrow> same_list P R"
  by (simp add: same_list_def)

lemma not_back_trans: "not_back E pin P Q \<Longrightarrow> not_back E pin Q R \<Longrightarrow> not_back E pin P R"
  by (fastforce simp: not_back_def)

lemma dir_steps_same:
  "make_dir f P = (r, P') \<Longrightarrow> same_list P P' \<and> dir_open KEY_FILE (cp_dir P') = dir_open KEY_FILE (cp_dir P)"
  "own_dir f P = (r, P') \<Longrightarrow> same_list P P' \<and> cp_dir P' = cp_dir P"
  by (auto simp: make_dir_def own_dir_def same_list_def dir_open_def split: option.splits if_splits)

lemma list_written:
  assumes "read_list E (ListFile (Bytes b)) pin = Inr (Some d)" "dir_open LIST_FILE (cp_dir P') = Whole b"
  shows "list_at E pin (cp_dir P') = Some d"
  using assms by (auto simp: list_at_def copy_list_def list_of_open_def read_list_def bindR_Inr_iff)

lemma backup_list_step:
  assumes "backup_list ob held lst P = (r, P')" "ch_list held = list_at E pin (cp_dir P)" "\<forall>e. cp_dir P \<noteq> DirFails e"
    and "read_list E (ListFile (h_devices (bo_under ob))) pin = Inr lst"
  shows "not_back E pin P P' \<and> (\<forall>e. cp_dir P' \<noteq> DirFails e) \<and> dir_open KEY_FILE (cp_dir P') = dir_open KEY_FILE (cp_dir P) \<and>
     (\<forall>e. r = Inl e \<longrightarrow> (\<exists>x. e = BkRoot x)) \<and>
     (\<forall>d. r = Inr () \<longrightarrow> lst = Some d \<longrightarrow> (\<exists>c. list_at E pin (cp_dir P') = Some c \<and> epoch d \<le> epoch c))"
proof (cases "\<exists>d. lst = Some d \<and> (case ch_list held of None \<Rightarrow> True | Some c \<Rightarrow> epoch c < epoch d)")
  case False
  then have "P' = P" "r = Inr ()" using assms(1) by (auto simp: backup_list_def split: option.splits)
  then show ?thesis using False assms(2,3) by (auto simp: not_back_def split: option.splits)
next
  case True
  then obtain d where d: "lst = Some d" "case ch_list held of None \<Rightarrow> True | Some c \<Rightarrow> epoch c < epoch d" by blast
  then obtain b where b: "h_devices (bo_under ob) = Bytes b" "read_list E (ListFile (Bytes b)) pin = Inr (Some d)"
    using assms(4) by (cases "h_devices (bo_under ob)") (auto simp: read_list_def read_list_at_def)
  have w: "copy_write (bo_write_list ob) LIST_FILE b P = (r, P')" using assms(1) d b by (simp add: backup_list_def)
  have "P' = P \<and> (\<exists>why. r = Inl (BkRoot (RtIo why))) \<Longrightarrow> ?thesis" using assms(3) by (auto simp: not_back_def)
  moreover have ?thesis if o: "\<forall>n. dir_open n (cp_dir P') = (if n = LIST_FILE then Whole b else dir_open n (cp_dir P))"
      "\<forall>e. cp_dir P' \<noteq> DirFails e" "r = Inr () \<or> (\<exists>why. r = Inl (BkRoot (RtIo why)))"
  proof -
    have l: "list_at E pin (cp_dir P') = Some d" by (rule list_written [OF b(2)]) (simp add: o)
    then have "not_back E pin P P'" using d(2) assms(2) by (auto simp: not_back_def)
    then show ?thesis using o files_no_temps(3) l d(1) by auto
  qed
  ultimately show ?thesis using copy_write_result [OF w assms(3)] by blast
qed

definition keeps_to :: "('s \<Rightarrow> bool) \<Rightarrow> ('e \<Rightarrow> bool) \<Rightarrow> ('s, 'e, 'a) act \<Rightarrow> 's \<Rightarrow> bool" where
  "keeps_to J ok m s \<longleftrightarrow> J (snd (m s)) \<and> (\<forall>e. fst (m s) = Inl e \<longrightarrow> ok e)"

lemma keeps_to_bindS:
  assumes "keeps_to J ok m s" "\<And>x t. m s = (Inr x, t) \<Longrightarrow> J t \<Longrightarrow> keeps_to J ok (f x) t"
  shows "keeps_to J ok (bindS m f) s"
  using assms by (auto simp: keeps_to_def bindS_def split: prod.splits sum.splits)

lemma keeps_to_liftS [simp]: "keeps_to J ok (liftS r) s \<longleftrightarrow> J s \<and> (\<forall>e. r = Inl e \<longrightarrow> ok e)" "keeps_to J ok (getS g) s \<longleftrightarrow> J s \<and> (\<forall>e. g s = Inl e \<longrightarrow> ok e)"
  by (simp_all add: keeps_to_def)

definition late_error :: "backup_error \<Rightarrow> bool" where
  "late_error e \<longleftrightarrow> e = BkReadBack \<or> (\<exists>x. e = BkRoot x)"

lemma map_BkRoot_late: "map_err BkRoot m = Inl e \<Longrightarrow> late_error e"
  by (cases m) (auto simp: late_error_def)

lemma key_write_same:
  assumes "(if b then liftS (Inr ()) else copy_write f KEY_FILE key) P = (r, P')" "\<forall>e. cp_dir P \<noteq> DirFails e"
  shows "same_list P P'" "\<And>e. r = Inl e \<Longrightarrow> late_error e"
    "r = Inr () \<Longrightarrow> \<not> b \<Longrightarrow> dir_open KEY_FILE (cp_dir P') = Whole key" "b \<Longrightarrow> P' = P"
proof -
  have "same_list P P' \<and> (\<forall>e. r = Inl e \<longrightarrow> late_error e) \<and>
      (r = Inr () \<longrightarrow> \<not> b \<longrightarrow> dir_open KEY_FILE (cp_dir P') = Whole key) \<and> (b \<longrightarrow> P' = P)"
  proof (cases b)
    case False
    then have "copy_write f KEY_FILE key P = (r, P')" using assms(1) by simp
    from copy_write_result [OF this assms(2)] show ?thesis
      using False files_no_temps(3) by (elim disjE conjE) (simp_all add: same_list_def late_error_def, blast+)
  qed (use assms in \<open>auto simp: same_list_def\<close>)
  then show "same_list P P'" "\<And>e. r = Inl e \<Longrightarrow> late_error e"
    "r = Inr () \<Longrightarrow> \<not> b \<Longrightarrow> dir_open KEY_FILE (cp_dir P') = Whole key" "b \<Longrightarrow> P' = P" by blast+
qed

lemma clear_fails: "clear_temps stuck temps d = DirFails e \<longleftrightarrow> d = DirFails e"
  by (cases d) (auto simp: clear_temps_def)

lemma clear_same:
  assumes "\<forall>t \<in> set temps. is_temp t"
  shows "same_list P (P\<lparr>cp_dir := clear_temps stuck temps (cp_dir P)\<rparr>)"
    "dir_open KEY_FILE (clear_temps stuck temps d) = dir_open KEY_FILE d"
proof -
  have "LIST_FILE \<notin> set temps" "KEY_FILE \<notin> set temps" using assms files_no_temps by auto
  then show "same_list P (P\<lparr>cp_dir := clear_temps stuck temps (cp_dir P)\<rparr>)"
    "dir_open KEY_FILE (clear_temps stuck temps d) = dir_open KEY_FILE d"
    using dir_open_clear by (simp_all add: same_list_def clear_fails)
qed

lemma backup_writes_hold:
  assumes "copy_of_this_root E hdr (cp_dir P) root = Inr held" "root_pin E root = Inr pin"
  shows "keeps_to (\<lambda>Q. not_back E pin P Q \<and> (\<forall>e. cp_dir Q \<noteq> DirFails e)) late_error (backup_writes E hdr ob (root, pin, held)) P"
proof -
  let ?J = "\<lambda>Q. not_back E pin P Q \<and> (\<forall>e. cp_dir Q \<noteq> DirFails e)"
  note h = copy_of_this_root_Inr [OF assms]
  have step: "?J R" if "?J Q" "same_list Q R" for Q R
    using that same_list_not_back [OF that(2), of E pin] not_back_trans by (auto simp: same_list_def)
  have late: "keeps_to ?J late_error (bindS (getS (\<lambda>P. read_back E hdr root pin (cp_dir P))) (\<lambda>_. liftS (Inr c))) Q" if "?J Q" for Q c
    using that by (intro keeps_to_bindS) (auto simp: read_back_def late_error_def)
  have clear: "keeps_to ?J late_error (bindS (\<lambda>P. (Inr (), P\<lparr>cp_dir := clear_temps (bo_stuck ob) (ch_temps held) (cp_dir P)\<rparr>))
      (\<lambda>_. bindS (getS (\<lambda>P. read_back E hdr root pin (cp_dir P))) (\<lambda>_. liftS (Inr c)))) Q" if "?J Q" for Q c
  proof (rule keeps_to_bindS)
    show "keeps_to ?J late_error (\<lambda>P. (Inr (), P\<lparr>cp_dir := clear_temps (bo_stuck ob) (ch_temps held) (cp_dir P)\<rparr>)) Q"
      using step [OF that clear_same(1) [OF h(4)]] by (simp add: keeps_to_def)
  qed (rule late)
  have key: "keeps_to ?J late_error (bindS (if b then liftS (Inr ()) else copy_write (bo_write_key ob) KEY_FILE key)
      (\<lambda>_. bindS (\<lambda>P. (Inr (), P\<lparr>cp_dir := clear_temps (bo_stuck ob) (ch_temps held) (cp_dir P)\<rparr>))
      (\<lambda>_. bindS (getS (\<lambda>P. read_back E hdr root pin (cp_dir P))) (\<lambda>_. liftS (Inr c))))) Q" if q: "?J Q" for Q b key c
  proof (rule keeps_to_bindS)
    let ?m = "if b then liftS (Inr ()) else copy_write (bo_write_key ob) KEY_FILE key"
    obtain r R where m: "?m Q = (r, R)" by (cases "?m Q")
    then show "keeps_to ?J late_error ?m Q"
      using key_write_same(1,2) [OF m] step [OF q] q by (simp add: keeps_to_def)
  qed (rule clear)
  have writes: "keeps_to ?J late_error (bindS (backup_list ob held lst) (\<lambda>_.
     bindS (liftS (map_err BkRoot (read_key (bo_root_key ob)))) (\<lambda>key.
     bindS (if key_copied held key = CopiedKept then liftS (Inr ())
       else copy_write (bo_write_key ob) KEY_FILE key) (\<lambda>_.
     bindS (\<lambda>P. (Inr (), P\<lparr>cp_dir := clear_temps (bo_stuck ob) (ch_temps held) (cp_dir P)\<rparr>)) (\<lambda>_.
     bindS (getS (\<lambda>P. read_back E hdr root pin (cp_dir P))) (\<lambda>_.
     liftS (Inr (key_copied held key)))))))) Q"
    if q: "same_list P Q" and l: "read_list E (ListFile (h_devices (bo_under ob))) pin = Inr lst" for Q lst
  proof (rule keeps_to_bindS)
    have e: "ch_list held = list_at E pin (cp_dir Q)" "\<forall>e. cp_dir Q \<noteq> DirFails e"
      using q h(1,2) by (auto simp: same_list_def list_at_def copy_list_def)
    obtain r R where b: "backup_list ob held lst Q = (r, R)" by (cases "backup_list ob held lst Q")
    have "not_back E pin P R"
      using backup_list_step [OF b e l] same_list_not_back [OF q] not_back_trans by blast
    then show "keeps_to ?J late_error (backup_list ob held lst) Q"
      using backup_list_step [OF b e l] b by (auto simp: keeps_to_def late_error_def)
  qed (rule keeps_to_bindS, (auto intro: map_BkRoot_late)[1], rule key, assumption)
  have J0: "?J Q" if "same_list P Q" for Q using same_list_not_back [OF that] that h(1) by (auto simp: same_list_def)
  show ?thesis unfolding backup_writes_def prod.case
  proof (rule keeps_to_bindS, goal_cases)
    case 1
    show ?case using h(1) by (auto simp: late_error_def not_back_def split: option.splits)
  next
    case lock: (2 x t)
    then have t: "t = P" by simp
    show ?case unfolding t
    proof (rule keeps_to_bindS, goal_cases)
      case 1
      show ?case using dir_steps_same(1) [of "bo_create ob" P "fst (make_dir (bo_create ob) P)" "snd (make_dir (bo_create ob) P)"] J0
        by (auto simp: keeps_to_def make_dir_def late_error_def split: option.splits)
    next
      case made: (2 y u)
      have u: "same_list P u" using dir_steps_same(1) made(1) by blast
      show ?case
      proof (rule keeps_to_bindS, goal_cases)
        case 1
        show ?case using J0 [OF u] by (auto simp: keeps_to_def own_dir_def late_error_def not_back_def split: option.splits)
      next
        case own: (2 z v)
        have v: "same_list P v"
          using own(1) dir_steps_same(2) [of "bo_chmod ob" u "Inr z" v] same_list_trans [OF u] u by (auto split: if_splits)
        show ?case by (rule keeps_to_bindS) (use J0 [OF v] map_BkRoot_late writes [OF v] in \<open>auto simp: map_err_Inr_iff\<close>)
      qed
    qed
  qed
qed

section \<open>What a backup promises\<close>

lemma backup_writes_Inr:
  assumes "backup_writes E hdr ob (root, pin, held) P = (Inr c, P')"
    and "copy_of_this_root E hdr (cp_dir P) root = Inr held" "root_pin E root = Inr pin"
  shows "\<exists>kb lst. bo_root_key ob = Whole kb \<and> length kb \<le> KEY_CAP \<and> dir_open KEY_FILE (cp_dir P') = Whole kb \<and>
      read_list E (ListFile (h_devices (bo_under ob))) pin = Inr lst \<and> c = key_copied held kb \<and>
      (\<forall>d. lst = Some d \<longrightarrow> (\<exists>x. list_at E pin (cp_dir P') = Some x \<and> epoch d \<le> epoch x))"
    "copy_header hdr (cp_dir P') = Inr root" "\<exists>x. copy_list E (cp_dir P') pin = Inr x"
proof -
  note h = copy_of_this_root_Inr [OF assms(2,3)]
  obtain y u z v lst w kb Q where st: "make_dir (bo_create ob) P = (Inr y, u)"
    "(if copy_is_new held then own_dir (bo_chmod ob) else liftS (Inr ())) u = (Inr z, v)"
    "read_list E (ListFile (h_devices (bo_under ob))) pin = Inr lst" "backup_list ob held lst v = (Inr (), w)"
    "read_key (bo_root_key ob) = Inr kb"
    "(if key_copied held kb = CopiedKept then liftS (Inr ()) else copy_write (bo_write_key ob) KEY_FILE kb) w = (Inr (), Q)"
    "P' = Q\<lparr>cp_dir := clear_temps (bo_stuck ob) (ch_temps held) (cp_dir Q)\<rparr>"
    "read_back E hdr root pin (cp_dir P') = Inr ()" "c = key_copied held kb"
    using assms(1) by (auto simp: backup_writes_def bindS_Inr map_err_Inr_iff)
  have u: "same_list P u" "dir_open KEY_FILE (cp_dir u) = dir_open KEY_FILE (cp_dir P)" using dir_steps_same(1) [OF st(1)] by auto
  have v: "same_list P v" "dir_open KEY_FILE (cp_dir v) = dir_open KEY_FILE (cp_dir P)"
    using st(2) dir_steps_same(2) [of "bo_chmod ob" u "Inr z" v] same_list_trans [OF u(1)] u by (auto split: if_splits)
  have e: "ch_list held = list_at E pin (cp_dir v)" "\<forall>e. cp_dir v \<noteq> DirFails e"
    using v h(1,2) by (auto simp: same_list_def list_at_def copy_list_def)
  note w = backup_list_step [OF st(4) e st(3)]
  have wf: "\<forall>e. cp_dir w \<noteq> DirFails e" using w by blast
  note q = key_write_same [OF st(6) wf]
  have "bo_root_key ob = Whole kb" "length kb \<le> KEY_CAP" using st(5) by (auto simp: read_key_def split: file_open.splits if_splits)
  moreover have "dir_open KEY_FILE (cp_dir P') = Whole kb"
  proof (cases "key_copied held kb = CopiedKept")
    case True
    then have "ch_key held = Some kb" by (auto simp: key_copied_def split: option.splits if_splits)
    then have "dir_open KEY_FILE (cp_dir P) = Whole kb" using h(5) by blast
    then show ?thesis using q(4) [OF True] w v(2) st(7) clear_same(2) [OF h(4)] by simp
  next
    case False
    then show ?thesis using q(3) st(7) clear_same(2) [OF h(4)] by simp
  qed
  moreover have "\<exists>x. list_at E pin (cp_dir P') = Some x \<and> epoch d \<le> epoch x" if "lst = Some d" for d
  proof -
    have "\<exists>x. list_at E pin (cp_dir w) = Some x \<and> epoch d \<le> epoch x" using w that by simp
    moreover have "same_list w P'" using q(1) clear_same(1) [OF h(4), of Q] same_list_trans st(7) by blast
    ultimately show ?thesis by (auto simp: same_list_def list_at_def copy_list_def)
  qed
  ultimately show "\<exists>kb lst. bo_root_key ob = Whole kb \<and> length kb \<le> KEY_CAP \<and> dir_open KEY_FILE (cp_dir P') = Whole kb \<and>
      read_list E (ListFile (h_devices (bo_under ob))) pin = Inr lst \<and> c = key_copied held kb \<and>
      (\<forall>d. lst = Some d \<longrightarrow> (\<exists>x. list_at E pin (cp_dir P') = Some x \<and> epoch d \<le> epoch x))"
    using st(3,9) by blast
  show "copy_header hdr (cp_dir P') = Inr root" "\<exists>x. copy_list E (cp_dir P') pin = Inr x"
    using st(8) by (auto simp: read_back_def isl_def split: if_splits) (metis sum.exhaust)
qed

text \<open>A directory that holds an entry which is not of a copy.\<close>

definition holds_else :: "copy_dir \<Rightarrow> bool" where
  "holds_else d \<longleftrightarrow> (case d of
     DirHas es \<Rightarrow> \<exists>x. Inr x \<in> set es \<and> de_name x \<notin> {KEY_FILE, LIST_FILE} \<and> \<not> is_temp (de_name x) | _ \<Rightarrow> False)"

text \<open>
  C40: A backup done is a whole copy, and no run takes a copy back. Reported done, the copy's key is byte for
  byte the one kept here and its header names this root, and its list reads under the root and is at least as
  new as the one held here; whatever a run does, and wherever it stops, the copy's list is at least as new
  as before; and a directory that holds anything else, or no root to copy, is left exactly as it was.
\<close>

theorem backup_is_whole:
  assumes "backup E D hdr ob P = (r, P')" "backup_root E D (bo_before ob) = Inr root" "root_pin E root = Inr pin"
  shows "(\<forall>c. r = Inr c \<longrightarrow> (\<exists>kb. bo_root_key ob = Whole kb \<and> dir_open KEY_FILE (cp_dir P') = Whole kb \<and> hdr kb = HdrLocked (Some root))
        \<and> (\<exists>x. copy_list E (cp_dir P') pin = Inr x)
        \<and> (\<forall>d. read_list E (ListFile (h_devices (bo_under ob))) pin = Inr (Some d) \<longrightarrow>
             (\<exists>x. list_at E pin (cp_dir P') = Some x \<and> epoch d \<le> epoch x)))
    \<and> (\<forall>c. list_at E pin (cp_dir P) = Some c \<longrightarrow> (\<exists>x. list_at E pin (cp_dir P') = Some x \<and> epoch c \<le> epoch x))
    \<and> (r = Inl BkNotEmpty \<or> r = Inl BkNoRoot \<or> r = Inl BkNotHere \<or> (\<exists>e. r = Inl (BkUnreadable e)) \<longrightarrow> P' = P)
    \<and> (holds_else (cp_dir P) \<longrightarrow> (\<exists>e. r = Inl e) \<and> P' = P)"
proof (cases "backup_checks E D hdr (bo_before ob) (cp_dir P)")
  case (Inl e)
  then have "r = Inl e \<and> P' = P" using assms(1) by (simp add: backup_def bindS_def)
  then show ?thesis by auto
next
  case (Inr y)
  then obtain held where c: "y = (root, pin, held)" "copy_of_this_root E hdr (cp_dir P) root = Inr held"
    using assms(2,3) by (auto simp: backup_checks_def bindR_Inr_iff map_err_Inr_iff)
  have w: "backup_writes E hdr ob (root, pin, held) P = (r, P')"
    using assms(1) Inr c(1) by (simp add: backup_def bindS_def)
  note all = backup_writes_hold [OF c(2) assms(3), of ob, unfolded keeps_to_def w, simplified]
  have 1: "(\<exists>kb. bo_root_key ob = Whole kb \<and> dir_open KEY_FILE (cp_dir P') = Whole kb \<and> hdr kb = HdrLocked (Some root))
        \<and> (\<exists>x. copy_list E (cp_dir P') pin = Inr x)
        \<and> (\<forall>d. read_list E (ListFile (h_devices (bo_under ob))) pin = Inr (Some d) \<longrightarrow>
             (\<exists>x. list_at E pin (cp_dir P') = Some x \<and> epoch d \<le> epoch x))" if "r = Inr x" for x
  proof -
    note i = backup_writes_Inr [OF w [unfolded that] c(2) assms(3)]
    obtain kb where k: "bo_root_key ob = Whole kb" "dir_open KEY_FILE (cp_dir P') = Whole kb" using i(1) by blast
    have "hdr kb = HdrLocked (Some root)"
      using i(2) k(2) by (auto simp: copy_header_def header_of_def read_header_def header_key_def bindR_Inr_iff ok_or_Inr_iff split: header_read.splits)
    then show ?thesis using i k by auto
  qed
  have "\<not> (r = Inl BkNotEmpty \<or> r = Inl BkNoRoot \<or> r = Inl BkNotHere \<or> (\<exists>e. r = Inl (BkUnreadable e)))"
    using all by (auto simp: late_error_def)
  moreover have "\<forall>c. list_at E pin (cp_dir P) = Some c \<longrightarrow> (\<exists>x. list_at E pin (cp_dir P') = Some x \<and> epoch c \<le> epoch x)"
    using all by (auto simp: not_back_def)
  moreover have "\<not> holds_else (cp_dir P)"
    using copy_of_this_root_Inr(3,4) [OF c(2) assms(3)] by (fastforce simp: holds_else_def copy_names_def split: copy_dir.splits)
  ultimately show ?thesis using 1 by auto
qed

section \<open>A copy of the example's root\<close>

definition example_backup :: "revocation set backup_obs" where
  "example_backup = \<lparr>bo_before = example_held_here, bo_lock = None, bo_under = example_held_here, bo_root_key = Whole [7],
     bo_create = None, bo_chmod = None, bo_write_list = Done, bo_write_key = Done, bo_stuck = []\<rparr>"

definition example_copy :: copy_place where
  "example_copy = \<lparr>cp_dir = DirHas [Inr \<lparr>de_name = LIST_FILE, de_plain = True, de_open = Whole example_blob\<rparr>,
     Inr \<lparr>de_name = KEY_FILE, de_plain = True, de_open = Whole [7]\<rparr>], cp_private = True\<rparr>"

lemma example_root_pin: "root_pin example_env (example_node 7) = Inr (example_key 7)"
  by (simp add: root_pin_def example_env_def example_node_def example_key_def)

lemma example_backs_up:
  "backup example_env example_denylist (\<lambda>_. HdrLocked (Some (example_node 7))) example_backup
     \<lparr>cp_dir = DirGone, cp_private = False\<rparr> = (Inr CopiedNew, example_copy)"
proof -
  have b: "backup_root example_env example_denylist example_held_here = Inr (example_node 7)"
    using example_held_root by (auto simp: backup_root_def forget_held_def bindR_Inr_iff map_err_Inr_iff split: standing.splits)
  have l: "read_list_at example_env (ListFile (Bytes example_blob)) (example_key 7) = Inr (Some (example_update, example_blob))"
    using example_blob_fits example_blob_verifies by (simp add: read_list_at_def example_env_def)
  have d: "h_devices example_held_here = Bytes example_blob" by (simp add: example_held_here_def)
  have c: "backup_checks example_env example_denylist hdr example_held_here DirGone =
      Inr (example_node 7, example_key 7, \<lparr>ch_key = None, ch_list = None, ch_temps = []\<rparr>)" for hdr
    by (simp add: backup_checks_def b example_root_pin copy_of_this_root_def)
  show ?thesis
    by (simp add: backup_def c example_backup_def backup_writes_def
        bindS_def make_dir_def own_dir_def copy_is_new_def read_list_def d l backup_list_def copy_write_def
        put_file_def put_entry_def read_key_def KEY_CAP_def key_copied_def clear_temps_def read_back_def copy_header_def
        header_of_def dir_open_def read_header_def header_key_def copy_list_def list_of_open_def example_copy_def files_no_temps(3)
        files_no_temps(3) [symmetric])
qed

theorem backup_is_whole_witness:
  "dir_open KEY_FILE (cp_dir example_copy) = Whole [7] \<and> (\<exists>x. list_at example_env (example_key 7) (cp_dir example_copy) = Some x)"
proof -
  have b: "backup_root example_env example_denylist (bo_before example_backup) = Inr (example_node 7)"
    using example_held_root
    by (auto simp: example_backup_def backup_root_def forget_held_def bindR_Inr_iff map_err_Inr_iff split: standing.splits)
  have l: "read_list example_env (ListFile (h_devices (bo_under example_backup))) (example_key 7) = Inr (Some example_update)"
    using example_blob_fits example_blob_verifies
    by (simp add: example_backup_def example_held_here_def read_list_def read_list_at_def example_env_def)
  show ?thesis using backup_is_whole [OF example_backs_up b example_root_pin] l by (auto simp: example_backup_def)
qed

end
