(* ===== verification/Lookup.thy ===== *)
theory Lookup
  imports Renewal_Laws
begin

text \<open>
  The root route, \<^verbatim>\<open>src/serve/lookup.rs\<close>: a machine hands its own standing, which names its root, to a
  key its book saves as one machine; and the keys of that book, kept in memory and read again when a
  file changes. The reads of one answer are taken at one moment.
\<close>

section \<open>Who is answered, and what\<close>

text \<open>Every key a book saves as one machine of a person, \<^verbatim>\<open>me\<close> included.\<close>

definition machine_keys :: "env \<Rightarrow> contacts \<Rightarrow> verify_key list" where
  "machine_keys E c =
     List.map_filter (\<lambda>(_, node). en_verify_key E node)
       (concat (List.map_filter (ct_devices c) (ct_petnames c)))"

definition is_saved_machine :: "env \<Rightarrow> contacts \<Rightarrow> verify_key \<Rightarrow> bool" where
  "is_saved_machine E c key \<longleftrightarrow> key \<in> set (machine_keys E c)"

definition lookup_standing ::
  "env \<Rightarrow> 'd denylist_ops \<Rightarrow> book_text \<Rightarrow> text_read \<Rightarrow> systime \<Rightarrow> verify_key \<Rightarrow> 'd home \<Rightarrow> link option" where
  "lookup_standing E D B file now peer H =
     (case store_open E D B file H of
        Inl _ \<Rightarrow> None
      | Inr st \<Rightarrow>
          if \<not> is_saved_machine E (cs_contacts st) peer then None
          else if (case standing_read E D H of
              Inr (StDevice _ til) \<Rightarrow> til > now
            | Inr (HoldsRoot _ til) \<Rightarrow> til > now
            | _ \<Rightarrow> False)
          then (case config_badge E H of Inr badge \<Rightarrow> badge | Inl _ \<Rightarrow> None)
          else None)"

definition lookup_answer ::
  "env \<Rightarrow> 'd denylist_ops \<Rightarrow> book_text \<Rightarrow> text_read \<Rightarrow> systime \<Rightarrow> verify_key \<Rightarrow> ('d home, string + unit) proc" where
  "lookup_answer E D B file now peer =
     bindP (locally (\<lambda>H. (Inr (lookup_standing E D B file now peer H), H))) (\<lambda>standing.
     bindP (write_all id (renewal_reply standing)) (\<lambda>_.
     write_all id []))"

section \<open>The keys in memory\<close>

record 'k saved_keys =
  sk_seen :: "'k seen_file list option"
  sk_saved :: "verify_key list"

definition saved_default :: "'k saved_keys" where
  "saved_default = \<lparr>sk_seen = None, sk_saved = []\<rparr>"

definition saved_knows :: "'k saved_keys \<Rightarrow> verify_key \<Rightarrow> bool" where
  "saved_knows sk key \<longleftrightarrow> key \<in> set (sk_saved sk)"

text \<open>One look: the stamps of the book, the pin and the list, then the book as it is read.\<close>

definition saved_refresh ::
  "env \<Rightarrow> 'd denylist_ops \<Rightarrow> book_text \<Rightarrow> 'k seen_file list \<times> text_read \<times> 'd home \<Rightarrow> 'k saved_keys \<Rightarrow> 'k saved_keys" where
  "saved_refresh E D B = (\<lambda>(seen, file, H) sk.
     if sk_seen sk = Some seen \<and> FileUnknown \<notin> set seen then sk
     else (case store_open E D B file H of
         Inl _ \<Rightarrow> sk
       | Inr st \<Rightarrow> \<lparr>sk_seen = Some seen, sk_saved = machine_keys E (cs_contacts st)\<rparr>))"

definition saved_load ::
  "env \<Rightarrow> 'd denylist_ops \<Rightarrow> book_text \<Rightarrow> 'k seen_file list \<times> text_read \<times> 'd home \<Rightarrow> 'k saved_keys" where
  "saved_load E D B look = saved_refresh E D B look saved_default"

section \<open>Laws\<close>

definition saves_machine :: "env \<Rightarrow> contacts \<Rightarrow> verify_key \<Rightarrow> bool" where
  "saves_machine E c key \<longleftrightarrow>
     (\<exists>person ds label node. ct_devices c person = Some ds \<and> (label, node) \<in> set ds \<and> en_verify_key E node = Some key)"

lemma machine_keys_saved: "key \<in> set (machine_keys E c) \<longleftrightarrow> saves_machine E c key"
proof
  assume "key \<in> set (machine_keys E c)"
  then show "saves_machine E c key"
    by (auto simp: machine_keys_def saves_machine_def List.map_filter_def split: option.splits) blast
next
  assume "saves_machine E c key"
  then obtain person ds label node where s: "ct_devices c person = Some ds" "(label, node) \<in> set ds"
    "en_verify_key E node = Some key" unfolding saves_machine_def by blast
  have "person \<in> set (ct_petnames c)"
    using s(1) by (force simp: ct_devices_def ct_person_def ct_petnames_def bt_keys_def bt_get_def dest: map_of_SomeD)
  then have "ds \<in> set (List.map_filter (ct_devices c) (ct_petnames c))" using s(1) by (force simp: List.map_filter_def)
  then show "key \<in> set (machine_keys E c)" using s(2,3)
    by (force simp: machine_keys_def List.map_filter_def)
qed

lemma config_load_badge: "config_badge E H = Inr (Some l) \<Longrightarrow> load_badge E H = Inr b \<Longrightarrow> b = Some l"
  by (auto simp: config_badge_def load_badge_def text_of_read_def bindR_Inr_iff ok_or_Inr_iff map_err_Inr_iff Let_def
      split: text_read.splits file_read.splits if_splits)

lemma refresh_saved_view:
  "sk_saved (saved_refresh E D B k sk) = sk_saved sk \<or>
   sk_saved (saved_refresh E D B k sk) \<in> {ks. \<exists>st. store_open E D B (fst (snd k)) (snd (snd k)) = Inr st \<and> ks = machine_keys E (cs_contacts st)}"
  by (cases k) (auto simp: saved_refresh_def split: sum.splits)

interpretation books: reread "saved_refresh E D B" sk_saved "\<lambda>ks. ks = []"
  "\<lambda>k. {ks. \<exists>st. store_open E D B (fst (snd k)) (snd (snd k)) = Inr st \<and> ks = machine_keys E (cs_contacts st)}"
  for E :: env and D :: "'d denylist_ops" and B :: book_text
  by unfold_locales (use refresh_saved_view in blast)

text \<open>
  C36: The root route answers only who already knows this machine, with its own live standing. A standing is
  handed out only to a key some person's machine is saved under in the book as it reads; it is this
  machine's own badge, of the root pinned here, for this machine's own key, not past, of a root not revoked
  here; and a key the route answers at all is one a look found in a book it could read.
\<close>

theorem lookup_only_saved_machines:
  assumes "grow_only D"
  shows "(\<forall>l. lookup_standing E D B file now peer H = Some l \<longrightarrow>
      (\<exists>st. store_open E D B file H = Inr st \<and> saves_machine E (cs_contacts st) peer) \<and>
      (\<exists>p own k pk til. read_pin E H = Inr (Some p) \<and> \<not> st_is_revoked E (home_revoked D H) p \<and>
         en_node_id E (en_root E l) = Some p \<and> own_key H = Inr (Some own) \<and> en_verify_key E own = Some k \<and>
         en_verify_key E p = Some pk \<and> en_member_at E l til k pk \<and> en_expiry E l = Some (Some til) \<and> now < til))
    \<and> (saved_knows (fold (saved_refresh E D B) looks saved_default) peer \<longrightarrow>
      (\<exists>k \<in> set looks. \<exists>st. store_open E D B (fst (snd k)) (snd (snd k)) = Inr st \<and> saves_machine E (cs_contacts st) peer))"
proof (intro conjI allI impI)
  fix l assume l: "lookup_standing E D B file now peer H = Some l"
  then obtain st where st: "store_open E D B file H = Inr st" "is_saved_machine E (cs_contacts st) peer"
    "config_badge E H = Inr (Some l)"
    by (auto simp: lookup_standing_def split: sum.splits if_splits)
  show "\<exists>st. store_open E D B file H = Inr st \<and> saves_machine E (cs_contacts st) peer"
    using st machine_keys_saved unfolding is_saved_machine_def by blast
  obtain s p til where s: "standing_read E D H = Inr s" "s = StDevice p til \<or> s = HoldsRoot p til" "now < til"
    using l st by (auto simp: lookup_standing_def split: sum.splits if_splits standing.splits)
  have "pinned_root s = Some p" "standing_until s = Some til" using s(2) by (auto simp: pinned_root_def standing_until_def)
  then obtain own k pk badge where b: "own_key H = Inr (Some own)" "read_pin E H = Inr (Some p)"
    "\<not> st_is_revoked E (home_revoked D H) p" "load_badge E H = Inr (Some badge)" "en_node_id E (en_root E badge) = Some p"
    "en_expiry E badge = Some (Some til)" "en_verify_key E own = Some k" "en_verify_key E p = Some pk"
    "en_member_at E badge til k pk"
    using standing_of_badge [OF assms s(1)] by fastforce
  have "badge = l" using config_load_badge [OF st(3) b(4)] by simp
  then show "\<exists>p own k pk til. read_pin E H = Inr (Some p) \<and> \<not> st_is_revoked E (home_revoked D H) p \<and>
         en_node_id E (en_root E l) = Some p \<and> own_key H = Inr (Some own) \<and> en_verify_key E own = Some k \<and>
         en_verify_key E p = Some pk \<and> en_member_at E l til k pk \<and> en_expiry E l = Some (Some til) \<and> now < til"
    using b s(3) by blast
next
  let ?S = "fold (saved_refresh E D B) looks saved_default"
  assume k: "saved_knows ?S peer"
  then have "sk_saved ?S \<noteq> []" by (auto simp: saved_knows_def)
  moreover have "sk_saved saved_default = []" by (simp add: saved_default_def)
  ultimately obtain j st where "j \<in> set looks" "store_open E D B (fst (snd j)) (snd (snd j)) = Inr st"
    "sk_saved ?S = machine_keys E (cs_contacts st)"
    using books.open_view_found [where s = saved_default and ks = looks and E = E and D = D and B = B] by blast
  then show "\<exists>k \<in> set looks. \<exists>st. store_open E D B (fst (snd k)) (snd (snd k)) = Inr st \<and> saves_machine E (cs_contacts st) peer"
    using k machine_keys_saved unfolding saved_knows_def by metis
qed

theorem lookup_only_saved_machines_witness:
  "\<exists>l. lookup_standing example_env example_denylist example_book_text (Read Missing) 50 (example_key 5) example_holder = Some l \<and>
     en_node_id example_env (en_root example_env l) = Some (example_node 7)"
proof -
  let ?c = "derive_me example_env (Some example_update) (Some (example_node 7)) contacts_default"
  have "example_key 5 \<in> set (machine_keys example_env ?c)"
    by (simp add: machine_keys_def derive_me_def me_person_def me_device_def person_default_def person_empty_def
        contacts_default_def ct_petnames_def ct_devices_def ct_person_def labelled_def bt_keys_def bt_get_def bt_remove_def
        List.map_filter_def example_update_def example_member_def example_env_def example_node_def example_key_def
        binding_new_def Let_def)
  then have m: "is_saved_machine example_env ?c (example_key 5)" by (simp add: is_saved_machine_def)
  have h: "standing_read example_env example_denylist example_holder = Inr (StDevice (example_node 7) 100)"
    by (simp add: example_holder_def example_reads_devices)
  obtain l where c: "config_badge example_env example_holder = Inr (Some l)"
    by (auto simp: config_badge_def example_holder_def example_home_def example_trims example_env_def example_nauthy_def Let_def)
  have l: "lookup_standing example_env example_denylist example_book_text (Read Missing) 50 (example_key 5) example_holder = Some l"
    by (simp add: lookup_standing_def example_opens m h c)
  have "read_pin example_env example_holder = Inr (Some (example_node 7))"
    by (simp add: read_pin_def text_of_read_def example_holder_def example_home_def example_trims example_env_def)
  then show ?thesis
    using lookup_only_saved_machines [OF example_grow_only, of example_env example_book_text "Read Missing" 50 "example_key 5"
        example_holder "[]"] l by auto
qed

end
