(* ===== verification/Stops.thy ===== *)
theory Stops
  imports Peers
begin

text \<open>
  How a serving node is stopped: \<^verbatim>\<open>src/serve/stop.rs\<close>, the stop source of \<^verbatim>\<open>src/serve/resident.rs\<close>, and
  how \<^verbatim>\<open>src/serve.rs\<close> and \<^verbatim>\<open>commands/serve.rs\<close> classify and tell it. A run is a sequence of events; a
  handler may be dropped at any of its waits. The laws show that a caller told of the stop was told the
  truth, that no device stops a run before its first round, and what the recorded source is.
\<close>

section \<open>The source\<close>

datatype stop_kind = SkInterrupted | SkExpires | SkWire verify_key | SkSocket

definition note_kind :: "stop_kind \<Rightarrow> stop_kind option \<Rightarrow> stop_kind option" where
  "note_kind kind first = (case first of None \<Rightarrow> Some kind | Some _ \<Rightarrow> first)"

datatype stopped = StRequested | StInterrupted | StLocal

definition stopped_message :: "stopped \<Rightarrow> string" where
  "stopped_message s =
     newline # (case s of
        StRequested \<Rightarrow> ''node stopped gracefully.''
      | StInterrupted \<Rightarrow> ''node stopped (interrupted).''
      | StLocal \<Rightarrow> ''node stopped (local request).'')"

definition classify_stop :: "stop_kind option \<Rightarrow> stopped" where
  "classify_stop source =
     (case source of
        Some SkSocket \<Rightarrow> StLocal
      | Some SkInterrupted \<Rightarrow> StInterrupted
      | _ \<Rightarrow> StRequested)"

text \<open>Who stopped the node, by the names of the book as it reads then; \<open>show_verify\<close> is a key's \<^verbatim>\<open>Display\<close>.\<close>

definition stopped_by :: "env \<Rightarrow> key_text \<Rightarrow> (verify_key \<Rightarrow> string) \<Rightarrow> contacts \<Rightarrow> verify_key \<Rightarrow> string" where
  "stopped_by E K show_verify c peer =
     (case en_node_id E peer of
        None \<Rightarrow> ''Stopped by '' @ show_verify peer @ ''.''
      | Some node \<Rightarrow>
          let own = map_option (\<lambda>(label, _). own_show (OwnDevice label)) (find (\<lambda>(_, key). key = node) (ct_mine c));
              name = (case own of Some n \<Rightarrow> Some n | None \<Rightarrow> map_option ref_show (ct_saved_at c node))
          in (case name of
                Some n \<Rightarrow> ''Stopped by '' @ n @ '' ('' @ short_key K node @ '').''
              | None \<Rightarrow> ''Stopped by '' @ kt_show K node @ ''.''))"

section \<open>A run and its stops\<close>

text \<open>\<open>sp_acked\<close> is a ghost: the keys of the callers that were sent the ack.\<close>

record stop_state =
  sp_open :: bool
  sp_first :: "stop_kind option"
  sp_cancelled :: bool
  sp_acked :: "verify_key list"

definition stop_new :: stop_state where
  "stop_new = \<lparr>sp_open = False, sp_first = None, sp_cancelled = False, sp_acked = []\<rparr>"

definition fired :: "stop_kind option \<Rightarrow> stop_state \<Rightarrow> stop_state" where
  "fired kind s = s\<lparr>sp_first := (case kind of None \<Rightarrow> sp_first s | Some k \<Rightarrow> note_kind k (sp_first s)), sp_cancelled := True\<rparr>"

text \<open>
  The handler of \<^verbatim>\<open>control.stop\<close>. Its future may be dropped while it writes the ack, while it ends its
  side, or while it waits for the caller's; from the end of the write the stop is owed, however it ended.
\<close>

datatype drop_at = InWrite | InShutdown | InWait

record stop_obs =
  so_written :: "string + unit"
  so_shutdown :: "string + unit"
  so_dropped :: "drop_at option"

definition stop_serve :: "verify_key \<Rightarrow> stop_obs \<Rightarrow> stop_state \<Rightarrow> (string + unit) option \<times> stop_state" where
  "stop_serve peer ob s =
     (if so_dropped ob = Some InWrite then (None, s)
      else
        let s = (case so_written ob of Inl _ \<Rightarrow> s | Inr _ \<Rightarrow> s\<lparr>sp_acked := sp_acked s @ [peer]\<rparr>);
            s = fired (Some (SkWire peer)) s
        in (case so_dropped ob of
              Some _ \<Rightarrow> (None, s)
            | None \<Rightarrow> (Some (case so_written ob of Inl e \<Rightarrow> Inl e | Inr _ \<Rightarrow> so_shutdown ob), s)))"

definition CONTROL_STOP_SERVICE :: string where "CONTROL_STOP_SERVICE = ''control.stop''"

text \<open>The oracle the gate asks, with \<^verbatim>\<open>control.stop\<close> held until the first round has ended.\<close>

definition held_enabled :: "(string \<Rightarrow> bool) \<Rightarrow> bool \<Rightarrow> string \<Rightarrow> bool" where
  "held_enabled enabled is_open name =
     (if name = CONTROL_STOP_SERVICE \<and> \<not> is_open then False else enabled name)"

definition fire_stop :: "stop_state \<Rightarrow> stop_state" where
  "fire_stop s = fired (Some SkSocket) s"

text \<open>
  What happens to a run: its first round ends, an admitted caller asks over the wire, a local client over
  the socket, the operator presses Ctrl-C or a service manager sends SIGTERM, and the deadline of
  \<^verbatim>\<open>--expires\<close> passes, which cancels the token and notes nothing.
\<close>

datatype stop_event = RoundEnds | WireStop verify_key stop_obs | SocketStop | Signalled | Deadline

definition stop_step :: "(string \<Rightarrow> bool) \<Rightarrow> stop_event \<Rightarrow> stop_state \<Rightarrow> stop_state" where
  "stop_step enabled e s =
     (case e of
        RoundEnds \<Rightarrow> s\<lparr>sp_open := True\<rparr>
      | WireStop peer ob \<Rightarrow>
          if held_enabled enabled (sp_open s) CONTROL_STOP_SERVICE then snd (stop_serve peer ob s) else s
      | SocketStop \<Rightarrow> fire_stop s
      | Signalled \<Rightarrow> fired (Some SkInterrupted) s
      | Deadline \<Rightarrow> fired None s)"

definition stop_run :: "(string \<Rightarrow> bool) \<Rightarrow> stop_event list \<Rightarrow> stop_state" where
  "stop_run enabled es = fold (stop_step enabled) es stop_new"

section \<open>What a run's stops promise\<close>

lemma note_kind_None [simp]: "note_kind k None = Some k"
  by (simp add: note_kind_def)

lemma note_kind_Some [simp]: "note_kind k (Some f) = Some f"
  by (simp add: note_kind_def)

text \<open>What an event records after the events before it, and whether it stops the run.\<close>

definition noted_by :: "(string \<Rightarrow> bool) \<Rightarrow> stop_event list \<Rightarrow> stop_event \<Rightarrow> stop_kind option" where
  "noted_by enabled before e =
     (case e of
        RoundEnds \<Rightarrow> None
      | WireStop peer ob \<Rightarrow>
          if RoundEnds \<in> set before \<and> enabled CONTROL_STOP_SERVICE \<and> so_dropped ob \<noteq> Some InWrite
          then Some (SkWire peer) else None
      | SocketStop \<Rightarrow> Some SkSocket
      | Signalled \<Rightarrow> Some SkInterrupted
      | Deadline \<Rightarrow> None)"

definition stops :: "(string \<Rightarrow> bool) \<Rightarrow> stop_event list \<Rightarrow> stop_event \<Rightarrow> bool" where
  "stops enabled before e \<longleftrightarrow> e = Deadline \<or> noted_by enabled before e \<noteq> None"

lemma stop_run_snoc [simp]: "stop_run enabled (es @ [e]) = stop_step enabled e (stop_run enabled es)"
  by (simp add: stop_run_def)

lemma run_open: "sp_open (stop_run enabled es) \<longleftrightarrow> RoundEnds \<in> set es"
proof (induction es rule: rev_induct)
  case (snoc e es)
  then show ?case
    by (cases e) (auto simp: stop_step_def stop_serve_def fired_def fire_stop_def Let_def split: sum.splits option.splits)
qed (simp add: stop_run_def stop_new_def)

lemma event_effect:
  "sp_first (stop_step enabled e (stop_run enabled es)) =
     (case sp_first (stop_run enabled es) of Some k \<Rightarrow> Some k | None \<Rightarrow> noted_by enabled es e)"
  "sp_cancelled (stop_step enabled e (stop_run enabled es)) \<longleftrightarrow> sp_cancelled (stop_run enabled es) \<or> stops enabled es e"
  "set (sp_acked (stop_step enabled e (stop_run enabled es))) \<subseteq>
     set (sp_acked (stop_run enabled es)) \<union> {k. noted_by enabled es e = Some (SkWire k)}"
  using run_open [of enabled es]
  by (cases e; auto simp: stop_step_def stop_serve_def fired_def fire_stop_def noted_by_def stops_def held_enabled_def
      Let_def note_kind_def split: sum.splits option.splits)+

definition happens :: "('a list \<Rightarrow> 'a \<Rightarrow> bool) \<Rightarrow> 'a list \<Rightarrow> bool" where
  "happens P es \<longleftrightarrow> (\<exists>before e after. es = before @ e # after \<and> P before e)"

lemma happens_Nil [simp]: "\<not> happens P []"
  by (simp add: happens_def)

lemma happens_snoc [simp]: "happens P (es @ [e]) \<longleftrightarrow> happens P es \<or> P es e"
proof
  assume "happens P (es @ [e])"
  then obtain b f a where "es @ [e] = b @ f # a" "P b f" unfolding happens_def by blast
  then show "happens P es \<or> P es e" unfolding happens_def by (cases a rule: rev_cases) auto
next
  assume "happens P es \<or> P es e"
  then show "happens P (es @ [e])"
  proof
    assume "happens P es"
    then obtain b f a where "es @ [e] = b @ f # (a @ [e])" "P b f" unfolding happens_def by auto
    then show ?thesis unfolding happens_def by blast
  next
    assume "P es e"
    then show ?thesis unfolding happens_def by (intro exI [of _ es] exI [of _ e] exI [of _ "[]"]) simp
  qed
qed

lemma run_new [simp]: "stop_run enabled [] = stop_new"
  by (simp add: stop_run_def)

lemma run_cancelled: "sp_cancelled (stop_run enabled es) \<longleftrightarrow> happens (stops enabled) es"
  by (induction es rule: rev_induct) (simp_all add: event_effect(2) stop_new_def)

lemma run_unnoted: "sp_first (stop_run enabled es) = None \<longleftrightarrow> \<not> happens (\<lambda>b e. noted_by enabled b e \<noteq> None) es"
  by (induction es rule: rev_induct) (auto simp: event_effect(1) stop_new_def split: option.splits)

lemma run_first:
  "sp_first (stop_run enabled es) = Some k \<longleftrightarrow>
     happens (\<lambda>b e. noted_by enabled b e = Some k \<and> sp_first (stop_run enabled b) = None) es"
proof (induction es rule: rev_induct)
  case (snoc e es)
  show ?case unfolding stop_run_snoc event_effect(1) happens_snoc snoc.IH [symmetric]
    by (auto split: option.splits)
qed (simp add: stop_new_def)

lemma run_acked:
  "k \<in> set (sp_acked (stop_run enabled es)) \<Longrightarrow> happens (\<lambda>b e. noted_by enabled b e = Some (SkWire k)) es"
proof (induction es rule: rev_induct)
  case (snoc e es)
  then show ?case using event_effect(3) [of enabled e es] by auto
qed (simp add: stop_new_def)

text \<open>
  C35: A stop told is a stop made, by the one told of. Whatever happens to a run, in any order, and wherever
  a handler is dropped: a caller sent the ack asked after the first round ended, on a route that was on, and
  the run is cancelled with a source on record; the recorded source is that of the first event that records
  one; and the run is cancelled exactly when some event stopped it. A deadline stops a run and records
  nothing, so a device that asks during the teardown after it is told of as the one that stopped it.
\<close>

theorem acked_stop_stops:
  "(\<forall>k \<in> set (sp_acked (stop_run enabled es)). sp_cancelled (stop_run enabled es) \<and> sp_first (stop_run enabled es) \<noteq> None \<and>
      (\<exists>before ob after. es = before @ WireStop k ob # after \<and> RoundEnds \<in> set before \<and> enabled CONTROL_STOP_SERVICE))
   \<and> (sp_cancelled (stop_run enabled es) \<longleftrightarrow> (\<exists>before e after. es = before @ e # after \<and> stops enabled before e))
   \<and> (\<forall>k. sp_first (stop_run enabled es) = Some k \<longleftrightarrow>
        (\<exists>before e after. es = before @ e # after \<and> noted_by enabled before e = Some k \<and> sp_first (stop_run enabled before) = None))
   \<and> (RoundEnds \<in> set es \<and> enabled CONTROL_STOP_SERVICE \<and> sp_first (stop_run enabled es) = None \<and> so_dropped ob \<noteq> Some InWrite \<longrightarrow>
        sp_first (stop_run enabled (es @ [Deadline, WireStop peer ob])) = Some (SkWire peer))"
proof (intro conjI ballI allI impI)
  fix k assume "k \<in> set (sp_acked (stop_run enabled es))"
  then obtain before e after where e: "es = before @ e # after" "noted_by enabled before e = Some (SkWire k)"
    using run_acked [of k enabled es] unfolding happens_def by blast
  then show "sp_cancelled (stop_run enabled es)" unfolding run_cancelled happens_def by (auto simp: stops_def)
  show "sp_first (stop_run enabled es) \<noteq> None" unfolding run_unnoted happens_def using e by blast
  obtain ob where "e = WireStop k ob" "RoundEnds \<in> set before" "enabled CONTROL_STOP_SERVICE"
    using e(2) by (cases e) (auto simp: noted_by_def split: if_splits)
  then show "\<exists>before ob after. es = before @ WireStop k ob # after \<and> RoundEnds \<in> set before \<and> enabled CONTROL_STOP_SERVICE"
    using e(1) by blast
next
  show "sp_cancelled (stop_run enabled es) \<longleftrightarrow> (\<exists>before e after. es = before @ e # after \<and> stops enabled before e)"
    using run_cancelled unfolding happens_def by blast
next
  fix k
  show "sp_first (stop_run enabled es) = Some k \<longleftrightarrow>
      (\<exists>before e after. es = before @ e # after \<and> noted_by enabled before e = Some k \<and> sp_first (stop_run enabled before) = None)"
    using run_first [of enabled es k] unfolding happens_def .
next
  assume "RoundEnds \<in> set es \<and> enabled CONTROL_STOP_SERVICE \<and> sp_first (stop_run enabled es) = None \<and> so_dropped ob \<noteq> Some InWrite"
  moreover have "es @ [Deadline, WireStop peer ob] = (es @ [Deadline]) @ [WireStop peer ob]" by simp
  ultimately show "sp_first (stop_run enabled (es @ [Deadline, WireStop peer ob])) = Some (SkWire peer)"
    unfolding \<open>es @ [Deadline, WireStop peer ob] = (es @ [Deadline]) @ [WireStop peer ob]\<close> stop_run_snoc [of enabled "es @ [Deadline]"] event_effect(1)
    by (simp add: event_effect(1)) (simp add: noted_by_def)
qed

definition example_stop :: stop_obs where
  "example_stop = \<lparr>so_written = Inr (), so_shutdown = Inr (), so_dropped = Some InWait\<rparr>"

theorem acked_stop_stops_witness:
  "sp_cancelled (stop_run (\<lambda>_. True) [RoundEnds, WireStop (VerifyKey []) example_stop])"
proof -
  have "VerifyKey [] \<in> set (sp_acked (stop_run (\<lambda>_. True) [RoundEnds, WireStop (VerifyKey []) example_stop]))"
    by (simp add: stop_run_def stop_step_def stop_serve_def stop_new_def held_enabled_def example_stop_def fired_def)
  then show ?thesis
    using acked_stop_stops [of "\<lambda>_. True" "[RoundEnds, WireStop (VerifyKey []) example_stop]"] by blast
qed

end
