(* ===== verification/Activity.thy ===== *)
theory Activity
  imports Names "HOL-Library.Sublist"
begin

text \<open>
  \<^verbatim>\<open>src/serve/activity.rs\<close>: the lines a serving node prints of what it received. Sinks offer lines to a
  bounded queue and never wait; one renderer thread drains it onto a writer that may stall or fail. The
  threads interleave as a step relation; the laws show the queue bounded, the lines that pass in order,
  and every line that did not counted and told.
\<close>

section \<open>The line\<close>

record received =
  rc_path :: string
  rc_bytes :: u64
  rc_from :: string

text \<open>\<open>esc\<close> is the display of \<^verbatim>\<open>Escaped\<close>.\<close>

definition recv_line :: "(string \<Rightarrow> string) \<Rightarrow> service \<Rightarrow> received \<Rightarrow> string" where
  "recv_line esc service f =
     service_str service @ '': received '' @ esc (rc_path f) @ '' ('' @ show_u64 (rc_bytes f) @
     '' bytes) from '' @ esc (rc_from f)"

definition drop_notice :: "u64 \<Rightarrow> string" where
  "drop_notice lost =
     show_u64 lost @ '' activity '' @ (if lost = 1 then ''line'' else ''lines'') @
     '' dropped while the output was stalled''"

section \<open>The queue and the renderer\<close>

definition ACTIVITY_BACKLOG :: nat where "ACTIVITY_BACKLOG = 256"

text \<open>What is handed to the writer; a failed write loses that one.\<close>

datatype out_line = OutLine string | OutDropped u64

datatype renderer = Draining | Writing string | Waiting | Ended

text \<open>
  \<open>av_offered\<close> and \<open>av_accepted\<close> are ghosts: every line offered, and those the queue took. \<open>av_refused\<close>
  are the sinks between a refusal and its count, \<open>av_open\<close> whether any sink lives.
\<close>

record activity =
  av_offered :: "string list"
  av_accepted :: "string list"
  av_queue :: "string list"
  av_refused :: nat
  av_dropped :: u64
  av_reported :: u64
  av_out :: "(out_line \<times> bool) list"
  av_open :: bool
  av_renderer :: renderer

definition activity_new :: activity where
  "activity_new = \<lparr>av_offered = [], av_accepted = [], av_queue = [], av_refused = 0, av_dropped = 0, av_reported = 0,
     av_out = [], av_open = True, av_renderer = Draining\<rparr>"

text \<open>A sink's \<^verbatim>\<open>try_send\<close>, and the count that follows a refusal.\<close>

definition offer_line :: "nat \<Rightarrow> string \<Rightarrow> activity \<Rightarrow> activity" where
  "offer_line backlog line A =
     (let A = A\<lparr>av_offered := av_offered A @ [line]\<rparr> in
      if length (av_queue A) < backlog then
        A\<lparr>av_accepted := av_accepted A @ [line], av_queue := av_queue A @ [line]\<rparr>
      else A\<lparr>av_refused := av_refused A + 1\<rparr>)"

definition count_drop :: "activity \<Rightarrow> activity" where
  "count_drop A = A\<lparr>av_refused := av_refused A - 1, av_dropped := av_dropped A + 1\<rparr>"

definition put_out :: "out_line \<Rightarrow> bool \<Rightarrow> activity \<Rightarrow> activity" where
  "put_out l landed A = A\<lparr>av_out := av_out A @ [(l, landed)]\<rparr>"

definition report_drops :: "bool \<Rightarrow> activity \<Rightarrow> activity" where
  "report_drops landed A =
     (if av_dropped A > av_reported A then
        (put_out (OutDropped (av_dropped A - av_reported A)) landed A)\<lparr>av_reported := av_dropped A\<rparr>
      else A)"

text \<open>One turn of the renderer; \<open>tick\<close> is whether its wait ran out, \<open>landed\<close> whether a write did.\<close>

fun render_turn :: "bool \<Rightarrow> bool \<Rightarrow> activity \<Rightarrow> activity" where
  "render_turn tick landed A =
     (case av_renderer A of
        Draining \<Rightarrow>
          (case av_queue A of
             line # queued \<Rightarrow> A\<lparr>av_queue := queued, av_renderer := Writing line\<rparr>
           | [] \<Rightarrow> (report_drops landed A)\<lparr>av_renderer := (if av_open A then Waiting else Ended)\<rparr>)
      | Writing line \<Rightarrow> (put_out (OutLine line) landed A)\<lparr>av_renderer := Draining\<rparr>
      | Waiting \<Rightarrow>
          (case av_queue A of
             line # queued \<Rightarrow> A\<lparr>av_queue := queued, av_renderer := Writing line\<rparr>
           | [] \<Rightarrow>
               if \<not> av_open A then (report_drops landed A)\<lparr>av_renderer := Ended\<rparr>
               else if tick then A\<lparr>av_renderer := Draining\<rparr>
               else A)
      | Ended \<Rightarrow> A)"

text \<open>The threads, in any order: a sink in the middle of a report keeps the queue open.\<close>

inductive act_step :: "nat \<Rightarrow> activity \<Rightarrow> activity \<Rightarrow> bool" for backlog where
  Offer: "av_open A \<Longrightarrow> act_step backlog A (offer_line backlog line A)"
| Count: "0 < av_refused A \<Longrightarrow> act_step backlog A (count_drop A)"
| Close: "av_refused A = 0 \<Longrightarrow> act_step backlog A (A\<lparr>av_open := False\<rparr>)"
| Render: "act_step backlog A (render_turn tick landed A)"

code_pred act_step .

section \<open>What holds at every moment\<close>

definition out_lines :: "activity \<Rightarrow> string list" where
  "out_lines A = List.map_filter (\<lambda>(l, _). case l of OutLine s \<Rightarrow> Some s | OutDropped _ \<Rightarrow> None) (av_out A)"

definition out_drops :: "activity \<Rightarrow> nat" where
  "out_drops A = sum_list (map (\<lambda>(l, _). case l of OutLine _ \<Rightarrow> 0 | OutDropped n \<Rightarrow> unat n) (av_out A))"

definition in_hand :: "renderer \<Rightarrow> string list" where
  "in_hand r = (case r of Writing line \<Rightarrow> [line] | _ \<Rightarrow> [])"

definition accounts :: "nat \<Rightarrow> activity \<Rightarrow> bool" where
  "accounts backlog A \<longleftrightarrow>
     length (av_queue A) \<le> backlog \<and> subseq (av_accepted A) (av_offered A) \<and>
     av_accepted A = out_lines A @ in_hand (av_renderer A) @ av_queue A \<and>
     (length (av_offered A) < 2 ^ 64 \<longrightarrow>
        length (av_offered A) = length (av_accepted A) + unat (av_dropped A) + av_refused A \<and>
        av_reported A \<le> av_dropped A \<and> out_drops A = unat (av_reported A)) \<and>
     (\<not> av_open A \<longrightarrow> av_refused A = 0) \<and>
     (av_renderer A = Ended \<longrightarrow> \<not> av_open A \<and> av_queue A = [] \<and>
        (length (av_offered A) < 2 ^ 64 \<longrightarrow> av_reported A = av_dropped A))"

lemma put_out_facts [simp]:
  "out_lines (put_out (OutLine s) b A) = out_lines A @ [s]" "out_lines (put_out (OutDropped n) b A) = out_lines A"
  "out_drops (put_out (OutLine s) b A) = out_drops A" "out_drops (put_out (OutDropped n) b A) = out_drops A + unat n"
  by (simp_all add: out_lines_def out_drops_def put_out_def List.map_filter_def)

lemma put_out_fields [simp]:
  "av_offered (put_out l b A) = av_offered A" "av_accepted (put_out l b A) = av_accepted A"
  "av_queue (put_out l b A) = av_queue A" "av_refused (put_out l b A) = av_refused A"
  "av_dropped (put_out l b A) = av_dropped A" "av_reported (put_out l b A) = av_reported A"
  "av_open (put_out l b A) = av_open A" "av_renderer (put_out l b A) = av_renderer A"
  by (simp_all add: put_out_def)

lemma out_update [simp]:
  "out_lines (A\<lparr>av_offered := o1\<rparr>) = out_lines A" "out_drops (A\<lparr>av_offered := o1\<rparr>) = out_drops A"
  "out_lines (A\<lparr>av_accepted := o1\<rparr>) = out_lines A" "out_drops (A\<lparr>av_accepted := o1\<rparr>) = out_drops A"
  "out_lines (A\<lparr>av_queue := o1\<rparr>) = out_lines A" "out_drops (A\<lparr>av_queue := o1\<rparr>) = out_drops A"
  "out_lines (A\<lparr>av_refused := n\<rparr>) = out_lines A" "out_drops (A\<lparr>av_refused := n\<rparr>) = out_drops A"
  "out_lines (A\<lparr>av_dropped := w\<rparr>) = out_lines A" "out_drops (A\<lparr>av_dropped := w\<rparr>) = out_drops A"
  "out_lines (A\<lparr>av_reported := w\<rparr>) = out_lines A" "out_drops (A\<lparr>av_reported := w\<rparr>) = out_drops A"
  "out_lines (A\<lparr>av_open := b\<rparr>) = out_lines A" "out_drops (A\<lparr>av_open := b\<rparr>) = out_drops A"
  "out_lines (A\<lparr>av_renderer := r\<rparr>) = out_lines A" "out_drops (A\<lparr>av_renderer := r\<rparr>) = out_drops A"
  by (simp_all add: out_lines_def out_drops_def)

lemma in_hand_simps [simp]:
  "in_hand Draining = []" "in_hand (Writing l) = [l]" "in_hand Waiting = []" "in_hand Ended = []"
  by (simp_all add: in_hand_def)

lemma subseq_snoc: "subseq (x @ y @ z) w \<Longrightarrow> subseq (x @ y @ z @ [l]) (w @ [l])"
  using subseq_append [of "x @ y @ z" "[l]" w] by simp

lemma offer_accounts:
  assumes "accounts backlog A" "av_open A"
  shows "accounts backlog (offer_line backlog line A)"
  using assms by (auto simp: accounts_def offer_line_def Let_def intro: subseq_rev_drop_many subseq_snoc)

lemma count_accounts:
  assumes "accounts backlog A" "0 < av_refused A"
  shows "accounts backlog (count_drop A)"
proof -
  have "unat (av_dropped A + 1) = unat (av_dropped A) + 1 \<and> av_reported A \<le> av_dropped A + 1"
    if l: "length (av_offered A) < 2 ^ 64"
  proof -
    have n: "length (av_offered A) = length (av_accepted A) + unat (av_dropped A) + av_refused A" "av_reported A \<le> av_dropped A"
      using assms(1) l by (simp_all add: accounts_def)
    then have "unat (av_dropped A) + 1 < 2 ^ 64" using l assms(2) by linarith
    then have u: "unat (av_dropped A + 1) = unat (av_dropped A) + 1" by (simp add: unat_word_ariths)
    then show ?thesis using n(2) by (simp add: word_le_nat_alt)
  qed
  moreover have "av_renderer A \<noteq> Ended" using assms by (auto simp: accounts_def)
  ultimately show ?thesis using assms by (auto simp: accounts_def count_drop_def)
qed

lemma report_accounts:
  assumes "accounts backlog A"
  shows "accounts backlog (report_drops landed A)"
    "length (av_offered A) < 2 ^ 64 \<Longrightarrow> av_reported (report_drops landed A) = av_dropped A"
    "av_queue (report_drops landed A) = av_queue A" "av_open (report_drops landed A) = av_open A"
    "av_offered (report_drops landed A) = av_offered A" "av_dropped (report_drops landed A) = av_dropped A"
    "av_renderer (report_drops landed A) = av_renderer A"
proof -
  have "unat (av_reported A) + unat (av_dropped A - av_reported A) = unat (av_dropped A)" if "av_reported A < av_dropped A"
    using that by (simp add: unat_sub less_imp_le word_less_nat_alt)
  then show "accounts backlog (report_drops landed A)" using assms by (auto simp: accounts_def report_drops_def)
  show "length (av_offered A) < 2 ^ 64 \<Longrightarrow> av_reported (report_drops landed A) = av_dropped A"
    using assms by (auto simp: accounts_def report_drops_def not_less)
qed (auto simp: report_drops_def)

lemma turn_accounts:
  assumes "accounts backlog A"
  shows "accounts backlog (render_turn tick landed A)"
proof -
  note r = report_accounts [OF assms, of landed]
  have e: "accounts backlog ((report_drops landed A)\<lparr>av_renderer := Ended\<rparr>)"
    if "av_renderer A = Draining \<or> av_renderer A = Waiting" "av_queue A = []" "\<not> av_open A"
    using r that by (auto simp: accounts_def)
  have w: "accounts backlog ((report_drops landed A)\<lparr>av_renderer := Waiting\<rparr>)"
    if "av_renderer A = Draining" using r that by (auto simp: accounts_def)
  show ?thesis
  proof (cases "av_renderer A")
    case Draining
    then show ?thesis using assms e w by (cases "av_queue A") (auto simp: accounts_def)
  next
    case (Writing line)
    then show ?thesis using assms by (auto simp: accounts_def)
  next
    case Waiting
    then show ?thesis using assms e by (cases "av_queue A") (auto simp: accounts_def)
  next
    case Ended
    then show ?thesis using assms by simp
  qed
qed

lemma step_accounts: "act_step backlog A B \<Longrightarrow> accounts backlog A \<Longrightarrow> accounts backlog B"
proof (induction rule: act_step.induct)
  case (Close A)
  then show ?case by (auto simp: accounts_def)
next
  case (Render A tick landed)
  show ?case by (rule turn_accounts [OF Render])
qed (rule offer_accounts count_accounts; assumption)+

lemma reached_accounts:
  assumes "(act_step backlog)\<^sup>*\<^sup>* activity_new A"
  shows "accounts backlog A"
  using assms
proof (induction rule: rtranclp_induct)
  case base
  show ?case by (simp add: accounts_def activity_new_def out_lines_def out_drops_def List.map_filter_simps)
qed (rule step_accounts)

text \<open>
  C37: No activity line is lost untold. In every order of the threads and whatever the writer does, at most
  the backlog of lines waits; the lines handed to the writer, the one in hand and those waiting are the
  accepted ones in the order they were offered; every other line offered is refused and counted, or about
  to be; and once the renderer ends, no line waits and the notices it wrote add up to the lines it never
  got.
\<close>

theorem activity_tells_every_line:
  assumes "(act_step backlog)\<^sup>*\<^sup>* activity_new A" "length (av_offered A) < 2 ^ 64"
  shows "length (av_queue A) \<le> backlog
    \<and> subseq (out_lines A @ in_hand (av_renderer A) @ av_queue A) (av_offered A)
    \<and> length (av_offered A) = length (out_lines A @ in_hand (av_renderer A) @ av_queue A) + unat (av_dropped A) + av_refused A
    \<and> (av_renderer A = Ended \<longrightarrow>
        subseq (out_lines A) (av_offered A) \<and> length (av_offered A) = length (out_lines A) + out_drops A)"
proof -
  have a: "accounts backlog A" by (rule reached_accounts [OF assms(1)])
  have s: "subseq (out_lines A @ in_hand (av_renderer A) @ av_queue A) (av_offered A)"
    "length (av_offered A) = length (out_lines A @ in_hand (av_renderer A) @ av_queue A) + unat (av_dropped A) + av_refused A"
    "length (av_queue A) \<le> backlog" "out_drops A = unat (av_reported A)"
    using a assms(2) unfolding accounts_def by metis+
  moreover have "subseq (out_lines A) (av_offered A) \<and> length (av_offered A) = length (out_lines A) + out_drops A"
    if e: "av_renderer A = Ended"
  proof -
    have "av_queue A = []" "av_refused A = 0" "av_reported A = av_dropped A"
      using a e assms(2) by (simp_all add: accounts_def)
    then show ?thesis using s e by simp
  qed
  ultimately show ?thesis by blast
qed

text \<open>Two lines offered to a queue of one: the second is dropped, and told once the writer moves.\<close>

definition example_activity :: activity where
  "example_activity = render_turn False True (render_turn False True (render_turn False True ((count_drop
     (offer_line 1 ''b'' (offer_line 1 ''a'' activity_new)))\<lparr>av_open := False\<rparr>)))"

lemma example_activity_is:
  "example_activity = \<lparr>av_offered = [''a'', ''b''], av_accepted = [''a''], av_queue = [], av_refused = 0, av_dropped = 1,
     av_reported = 1, av_out = [(OutLine ''a'', True), (OutDropped 1, True)], av_open = False, av_renderer = Ended\<rparr>"
  by (simp add: example_activity_def offer_line_def Let_def activity_new_def count_drop_def put_out_def report_drops_def)

lemma example_activity_runs: "(act_step 1)\<^sup>*\<^sup>* activity_new example_activity"
proof -
  have s: "act_step 1 activity_new (offer_line 1 ''a'' activity_new)"
    "act_step 1 (offer_line 1 ''a'' activity_new) (offer_line 1 ''b'' (offer_line 1 ''a'' activity_new))"
    "act_step 1 (offer_line 1 ''b'' (offer_line 1 ''a'' activity_new)) (count_drop (offer_line 1 ''b'' (offer_line 1 ''a'' activity_new)))"
    "act_step 1 (count_drop (offer_line 1 ''b'' (offer_line 1 ''a'' activity_new)))
       ((count_drop (offer_line 1 ''b'' (offer_line 1 ''a'' activity_new)))\<lparr>av_open := False\<rparr>)"
    by (rule act_step.intros; simp add: offer_line_def Let_def activity_new_def count_drop_def)+
  have "(act_step 1)\<^sup>*\<^sup>* activity_new ((count_drop (offer_line 1 ''b'' (offer_line 1 ''a'' activity_new)))\<lparr>av_open := False\<rparr>)"
    using s by (meson r_into_rtranclp rtranclp_trans)
  then show ?thesis unfolding example_activity_def by (meson act_step.Render rtranclp.rtrancl_into_rtrancl)
qed

theorem activity_tells_every_line_witness:
  "length (av_offered example_activity) = length (out_lines example_activity) + out_drops example_activity"
proof -
  have e: "av_renderer example_activity = Ended" "length (av_offered example_activity) < 2 ^ 64"
    by (simp_all add: example_activity_is)
  show ?thesis using activity_tells_every_line [OF example_activity_runs e(2)] e(1) by blast
qed

end
