(* ===== verification/Escape.thy ===== *)
theory Escape
  imports Prelude "HOL-Library.Sublist"
begin

text \<open>
  \<^verbatim>\<open>src/escape.rs\<close>: text from elsewhere as it is printed on a line. A text is its characters, each a
  Unicode scalar value; the tables \<^verbatim>\<open>char::escape_debug\<close> goes by are the record \<open>char_tables\<close>. The
  properties: what is shown is bounded, holds nothing a terminal acts on, is cut between escapes only,
  and shows different texts differently.
\<close>

section \<open>One character\<close>

type_synonym uchar = nat

record char_tables =
  ut_extends :: "uchar \<Rightarrow> bool"
  ut_printable :: "uchar \<Rightarrow> bool"

definition MAX_ESCAPED :: nat where "MAX_ESCAPED = 256"

definition BLANK_LETTERS :: "uchar list" where
  "BLANK_LETTERS = [0x115f, 0x1160, 0x3164, 0xffa0, 0x2800]"

definition hex_digit :: "nat \<Rightarrow> uchar" where
  "hex_digit d = (if d < 10 then 48 + d else 87 + d)"

fun hex_digits :: "nat \<Rightarrow> uchar list" where
  "hex_digits n = (if n < 16 then [hex_digit n] else hex_digits (n div 16) @ [hex_digit (n mod 16)])"

declare hex_digits.simps [simp del]

text \<open>\<^verbatim>\<open>char::escape_unicode\<close> and \<^verbatim>\<open>char::escape_debug\<close> of the standard library.\<close>

definition escape_unicode :: "uchar \<Rightarrow> uchar list" where
  "escape_unicode c = [92, 117, 123] @ hex_digits c @ [125]"

definition escape_debug :: "char_tables \<Rightarrow> uchar \<Rightarrow> uchar list" where
  "escape_debug T c =
     (if c = 0 then [92, 48]
      else if c = 9 then [92, 116]
      else if c = 13 then [92, 114]
      else if c = 10 then [92, 110]
      else if c \<in> {34, 39, 92} then [92, c]
      else if ut_extends T c then escape_unicode c
      else if ut_printable T c then [c]
      else escape_unicode c)"

definition escape_char :: "char_tables \<Rightarrow> uchar \<Rightarrow> uchar list" where
  "escape_char T c = (if c \<in> set BLANK_LETTERS then escape_unicode c else escape_debug T c)"

section \<open>A text\<close>

definition CUT :: "uchar list" where "CUT = [46, 46, 46]"

fun fmt_with_limit :: "char_tables \<Rightarrow> nat option \<Rightarrow> uchar list \<Rightarrow> uchar list" where
  "fmt_with_limit T limit [] = []"
| "fmt_with_limit T None (c # cs) = escape_char T c @ fmt_with_limit T None cs"
| "fmt_with_limit T (Some left) (c # cs) =
     (let width = length (escape_char T c) in
      if width > left then CUT else escape_char T c @ fmt_with_limit T (Some (left - width)) cs)"

definition escaped :: "char_tables \<Rightarrow> uchar list \<Rightarrow> uchar list" where
  "escaped T text = fmt_with_limit T (Some MAX_ESCAPED) text"

definition escaped_complete :: "char_tables \<Rightarrow> uchar list \<Rightarrow> uchar list" where
  "escaped_complete T text = fmt_with_limit T None text"

text \<open>\<^verbatim>\<open>causes\<close>: an error's text and those of its sources, in order.\<close>

fun causes :: "uchar list \<Rightarrow> uchar list list \<Rightarrow> uchar list" where
  "causes chain [] = chain"
| "causes chain (cause # rest) = causes (chain @ [58, 32] @ cause) rest"

definition escaped_report :: "char_tables \<Rightarrow> uchar list \<Rightarrow> uchar list list \<Rightarrow> uchar list" where
  "escaped_report T outer sources = escaped T (causes outer sources)"

section \<open>What an escape is made of\<close>

lemma hex_digit_ascii: "d < 16 \<Longrightarrow> hex_digit d \<in> {48..57} \<union> {97..102}"
  by (auto simp: hex_digit_def)

lemma hex_of_ascii: "c \<in> set (hex_digits n) \<Longrightarrow> c \<in> {48..57} \<union> {97..102}"
proof (induction n rule: hex_digits.induct)
  case (1 n)
  show ?case
  proof (cases "n < 16")
    case True
    then show ?thesis using 1 hex_digit_ascii [of n] by (simp add: hex_digits.simps)
  next
    case False
    then show ?thesis using 1 hex_digit_ascii [of "n mod 16"] by (subst (asm) hex_digits.simps) auto
  qed
qed

lemma hex_digit_inj: "a < 16 \<Longrightarrow> b < 16 \<Longrightarrow> hex_digit a = hex_digit b \<Longrightarrow> a = b"
  by (auto simp: hex_digit_def split: if_splits)

lemma hex_of_inj: "hex_digits n = hex_digits m \<Longrightarrow> n = m"
proof (induction n arbitrary: m rule: hex_digits.induct)
  case (1 n)
  have ne: "hex_digits k \<noteq> []" for k by (subst hex_digits.simps) simp
  show ?case
  proof (cases "n < 16")
    case True
    then have "hex_digits m = [hex_digit n]" using 1(2) by (simp add: hex_digits.simps [of n])
    then have "m < 16 \<and> hex_digit m = hex_digit n" using ne by (subst (asm) hex_digits.simps) (auto split: if_splits)
    then show ?thesis using hex_digit_inj True by blast
  next
    case False
    then have h: "hex_digits m = hex_digits (n div 16) @ [hex_digit (n mod 16)]" using 1(2) by (simp add: hex_digits.simps [of n])
    then have "\<not> m < 16" using ne [of "n div 16"] by (subst (asm) hex_digits.simps) (auto split: if_splits)
    then have "hex_digits (m div 16) @ [hex_digit (m mod 16)] = hex_digits (n div 16) @ [hex_digit (n mod 16)]"
      using h by (simp add: hex_digits.simps [of m])
    then have "hex_digits (n div 16) = hex_digits (m div 16)" "hex_digit (n mod 16) = hex_digit (m mod 16)" by simp_all
    then have "n div 16 = m div 16" "n mod 16 = m mod 16" using 1(1) [OF False] hex_digit_inj [of "n mod 16" "m mod 16"] by simp_all
    then show ?thesis by (metis div_mult_mod_eq)
  qed
qed

text \<open>Split at the first closing brace, an escape ends where its digits do.\<close>

lemma unicode_prefix:
  assumes "escape_unicode a @ r = escape_unicode b @ s"
  shows "a = b \<and> r = s"
proof -
  have e: "hex_digits a @ 125 # r = hex_digits b @ 125 # s" using assms by (simp add: escape_unicode_def)
  have n: "125 \<notin> set (hex_digits k)" for k using hex_of_ascii [of 125 k] by auto
  have "takeWhile (\<lambda>x. x \<noteq> 125) (hex_digits k @ 125 # t) = hex_digits k" for k t
    using n by (subst takeWhile_append2) auto
  then have "hex_digits a = hex_digits b" using e by metis
  then show ?thesis using e hex_of_inj by auto
qed

definition simple_escapes :: "(uchar \<times> uchar) list" where
  "simple_escapes = [(0, 48), (9, 116), (13, 114), (10, 110), (34, 34), (39, 39), (92, 92)]"

text \<open>The three shapes of an escape: a letter after a backslash, a number, or the character itself.\<close>

lemma escape_char_shapes:
  obtains (simple) d where "(c, d) \<in> set simple_escapes" "escape_char T c = [92, d]"
  | (number) "escape_char T c = escape_unicode c" "c \<notin> fst ` set simple_escapes"
  | (raw) "escape_char T c = [c]" "c \<noteq> 92" "ut_printable T c" "\<not> ut_extends T c" "c \<notin> set BLANK_LETTERS"
    "c \<notin> fst ` set simple_escapes"
proof (cases "c \<in> set BLANK_LETTERS")
  case True
  then have "c \<notin> fst ` set simple_escapes" by (auto simp: BLANK_LETTERS_def simple_escapes_def)
  then show ?thesis using number True by (simp add: escape_char_def)
next
  case False
  consider "c = 0" | "c = 9" | "c = 13" | "c = 10" | "c \<in> {34, 39, 92}" | "c \<notin> {0, 9, 13, 10, 34, 39, 92}" by auto
  then show ?thesis
  proof cases
    case 6
    then have n: "c \<notin> fst ` set simple_escapes" by (auto simp: simple_escapes_def)
    show ?thesis
    proof (cases "\<not> ut_extends T c \<and> ut_printable T c")
      case True
      then show ?thesis using 6 False n by (intro raw) (auto simp: escape_char_def escape_debug_def)
    next
      case f: False
      then show ?thesis using 6 False n by (intro number) (auto simp: escape_char_def escape_debug_def)
    qed
  qed (use False simple in \<open>auto simp: escape_char_def escape_debug_def simple_escapes_def\<close>)
qed

lemma simple_letters: "(c, d) \<in> set simple_escapes \<Longrightarrow> d \<noteq> 117 \<and> d \<noteq> 0 \<and> 32 \<le> d \<and> d < 127"
  by (auto simp: simple_escapes_def)

lemma simple_inj: "(a, d) \<in> set simple_escapes \<Longrightarrow> (b, d) \<in> set simple_escapes \<Longrightarrow> a = b"
  by (auto simp: simple_escapes_def)

lemma escape_prefix:
  assumes "escape_char T a @ r = escape_char T b @ s"
  shows "a = b \<and> r = s"
proof (cases rule: escape_char_shapes [of a T])
  case (simple d)
  then show ?thesis using assms simple_letters [OF simple(1)] simple_inj
    by (cases rule: escape_char_shapes [of b T]) (auto simp: escape_unicode_def)
next
  case number
  then have e: "escape_unicode a @ r = escape_char T b @ s" using assms by simp
  show ?thesis
  proof (cases rule: escape_char_shapes [of b T])
    case (simple d)
    then show ?thesis using e simple_letters [OF simple(1)] by (simp add: escape_unicode_def)
  next
    case number
    then show ?thesis using e unicode_prefix [of a r b s] by simp
  next
    case raw
    then show ?thesis using e by (simp add: escape_unicode_def)
  qed
next
  case raw
  then show ?thesis using assms
    by (cases rule: escape_char_shapes [of b T]) (auto simp: escape_unicode_def)
qed

lemma escape_nonempty: "escape_char T c \<noteq> []"
  by (cases rule: escape_char_shapes [of c T]) (auto simp: escape_unicode_def)

lemma concat_escapes_inj: "concat (map (escape_char T) a) = concat (map (escape_char T) b) \<Longrightarrow> a = b"
proof (induction a arbitrary: b)
  case Nil
  then show ?case by (cases b) (auto simp: escape_nonempty)
next
  case (Cons x a)
  then obtain y b' where b: "b = y # b'" by (cases b) (auto simp: escape_nonempty)
  then have "escape_char T x @ concat (map (escape_char T) a) = escape_char T y @ concat (map (escape_char T) b')"
    using Cons.prems by simp
  from escape_prefix [OF this] show ?case using Cons.IH b by simp
qed

lemma complete_concat: "escaped_complete T cs = concat (map (escape_char T) cs)"
  unfolding escaped_complete_def by (induction cs) auto

text \<open>How many characters fit whole, and what is shown of a text under a budget.\<close>

fun fits_within :: "char_tables \<Rightarrow> nat \<Rightarrow> uchar list \<Rightarrow> nat" where
  "fits_within T left [] = 0"
| "fits_within T left (c # cs) =
     (if length (escape_char T c) > left then 0 else Suc (fits_within T (left - length (escape_char T c)) cs))"

lemma limited_shape:
  "fmt_with_limit T (Some left) cs =
     concat (map (escape_char T) (take (fits_within T left cs) cs)) @ (if fits_within T left cs < length cs then CUT else [])"
  "fits_within T left cs \<le> length cs"
  "length (concat (map (escape_char T) (take (fits_within T left cs) cs))) \<le> left"
  "fits_within T left cs < length cs \<Longrightarrow>
     left < length (concat (map (escape_char T) (take (Suc (fits_within T left cs)) cs)))"
  by (induction T left cs rule: fits_within.induct) (auto simp: Let_def)

section \<open>Properties\<close>

text \<open>What is harmless on a terminal, given a table that calls no control printable.\<close>

definition tables_ok :: "char_tables \<Rightarrow> bool" where
  "tables_ok T \<longleftrightarrow> (\<forall>c. ut_printable T c \<longrightarrow> 32 \<le> c \<and> \<not> (127 \<le> c \<and> c < 160))"

definition harmless :: "char_tables \<Rightarrow> uchar \<Rightarrow> bool" where
  "harmless T c \<longleftrightarrow> 32 \<le> c \<and> c < 127 \<or>
     160 \<le> c \<and> ut_printable T c \<and> \<not> ut_extends T c \<and> c \<notin> set BLANK_LETTERS"

lemma escape_harmless: "tables_ok T \<Longrightarrow> x \<in> set (escape_char T c) \<Longrightarrow> harmless T x"
proof -
  assume t: "tables_ok T" and x: "x \<in> set (escape_char T c)"
  have h: "y \<in> set (hex_digits n) \<Longrightarrow> harmless T y" for y n using hex_of_ascii [of y n] by (auto simp: harmless_def)
  show ?thesis
  proof (cases rule: escape_char_shapes [of c T])
    case (simple d)
    then show ?thesis using x simple_letters [OF simple(1)] by (auto simp: harmless_def)
  next
    case number
    then show ?thesis using x h by (auto simp: escape_unicode_def) (auto simp: harmless_def)
  next
    case raw
    have "32 \<le> c \<and> \<not> (127 \<le> c \<and> c < 160)" using raw t unfolding tables_ok_def by blast
    then show ?thesis using x raw by (auto simp: harmless_def)
  qed
qed

text \<open>
  C38: A line stays a line. Whatever the text, what is shown of it is at most 256 characters and the mark of
  a cut; it is whole escapes of the text's first characters, and where it is cut, one more escape would
  have passed the bound; and every character of it is printable: no control, no mark that hides or reorders
  text, no letter that prints as nothing.
\<close>

theorem escaped_stays_a_line:
  assumes "tables_ok T"
  shows "length (escaped T cs) \<le> MAX_ESCAPED + length CUT
    \<and> (\<forall>c \<in> set (escaped T cs). harmless T c)
    \<and> (\<exists>n \<le> length cs. escaped T cs = concat (map (escape_char T) (take n cs)) @ (if n < length cs then CUT else [])
        \<and> (n < length cs \<longrightarrow> MAX_ESCAPED < length (concat (map (escape_char T) (take (Suc n) cs)))))"
proof -
  note s = limited_shape [of T MAX_ESCAPED cs]
  have "\<forall>c \<in> set (escaped T cs). harmless T c"
    using escape_harmless [OF assms] unfolding escaped_def s(1) by (auto simp: CUT_def harmless_def)
  moreover have "length (escaped T cs) \<le> MAX_ESCAPED + length CUT"
  proof -
    obtain p where "escaped T cs = p @ (if fits_within T MAX_ESCAPED cs < length cs then CUT else [])" "length p \<le> MAX_ESCAPED"
      using s(1,3) unfolding escaped_def by blast
    then show ?thesis by auto
  qed
  ultimately show ?thesis using s unfolding escaped_def by blast
qed

definition example_tables :: char_tables where
  "example_tables = \<lparr>ut_extends = (\<lambda>c. 0x300 \<le> c \<and> c < 0x370), ut_printable = (\<lambda>c. 32 \<le> c \<and> c < 127 \<or> 160 < c)\<rparr>"

theorem escaped_stays_a_line_witness:
  "length (escaped example_tables (replicate 300 10)) \<le> 259"
proof -
  have "tables_ok example_tables" by (auto simp: tables_ok_def example_tables_def)
  from escaped_stays_a_line [OF this, of "replicate 300 10"] show ?thesis by (simp add: MAX_ESCAPED_def CUT_def)
qed

text \<open>
  C39: Different texts are shown differently. The complete form is one for one; and two texts the capped form
  does not cut are the same text when they show the same.
\<close>

theorem shown_texts_differ:
  "(escaped_complete T a = escaped_complete T b \<longleftrightarrow> a = b)
   \<and> (length (escaped_complete T a) \<le> MAX_ESCAPED \<longrightarrow> escaped T a = escaped_complete T a)
   \<and> (length (escaped_complete T a) \<le> MAX_ESCAPED \<and> length (escaped_complete T b) \<le> MAX_ESCAPED \<longrightarrow>
        escaped T a = escaped T b \<longrightarrow> a = b)"
proof -
  have u: "escaped T x = escaped_complete T x" if x: "length (escaped_complete T x) \<le> MAX_ESCAPED" for x
  proof -
    let ?n = "fits_within T MAX_ESCAPED x"
    have "\<not> ?n < length x"
    proof
      assume n: "?n < length x"
      have "concat (map (escape_char T) x) =
          concat (map (escape_char T) (take (Suc ?n) x)) @ concat (map (escape_char T) (drop (Suc ?n) x))"
        by (metis append_take_drop_id concat_append map_append)
      then show False using limited_shape(4) [OF n] x by (simp add: complete_concat)
    qed
    then have "?n = length x" using limited_shape(2) [of T MAX_ESCAPED x] by simp
    then show ?thesis using limited_shape(1) [of T MAX_ESCAPED x] by (simp add: escaped_def complete_concat)
  qed
  have "escaped_complete T a = escaped_complete T b \<longleftrightarrow> a = b" using concat_escapes_inj by (auto simp: complete_concat)
  then show ?thesis using u [of a] u [of b] by auto
qed

theorem shown_texts_differ_witness:
  "escaped_complete example_tables [97, 10] \<noteq> escaped_complete example_tables [97, 92, 110]"
  using shown_texts_differ [of example_tables "[97, 10]" "[97, 92, 110]"] by simp

end
