(* ===== verification/Spec2Isabelle.thy ===== *)
theory Spec2Isabelle
  imports Names Roster Scheme Grants Fold Gate Act_Laws Sync_Calm Rounds Peers_Laws
    Renewal_Laws Join_Cmd_Laws Serve_Toml_Laws Forget Backup Lookup Stops Activity Escape
begin

text \<open>
  A verification library for swoosh, a tool that lets one person's machines reach each other. A root
  key names the person; the root signs an \<^emph>\<open>update\<close>, the list of the person's devices and of what is
  revoked, numbered so that a later one replaces an earlier. Each machine keeps its standing under a
  root, the update it holds and the revocations it knows; machines exchange updates; and each serves
  what its configuration names to whoever holds a link.

  \<^bold>\<open>The parts and their theories\<close>, in the order they build on each other:

    \<^item> \<^theory_text>\<open>Prelude\<close>, \<^theory_text>\<open>Rust_Str\<close>, \<^theory_text>\<open>Files\<close>: what the source uses of the language and its library: 64-bit
      arithmetic, the early return on results and on calls that change state, byte strings and text, the
      ordered map (\<^theory_text>\<open>locale ordered_map\<close>, interpreted on the tree the model uses), UTF-8, trimming and
      lines, the clock, and a file read again when it changes (\<^theory_text>\<open>locale reread\<close>, interpreted on the
      ledger, the pin, the keys of the pick-up route and of the root route, and the file of services).
    \<^item> \<^theory_text>\<open>Names\<close> (\<^verbatim>\<open>src/names.rs\<close>): the one name rule, and the name suggested for a machine.
    \<^item> \<^theory_text>\<open>Codec\<close>, \<^theory_text>\<open>Codec_Laws\<close>, \<^theory_text>\<open>Roster\<close> (\<^verbatim>\<open>src/codec.rs\<close>, \<^verbatim>\<open>src/roster.rs\<close>): the bytes of an update. Every
      writer and every reader with its errors; the laws say that each reader inverts its writer and
      accepts nothing else, and the properties that one byte string encodes each update, that only what
      the root signed is accepted, and that every update that builds can be read back by everybody.
    \<^item> \<^theory_text>\<open>Home\<close>, \<^theory_text>\<open>Standing\<close> (\<^verbatim>\<open>src/home.rs\<close>, \<^verbatim>\<open>src/revoked.rs\<close>, \<^verbatim>\<open>src/standing.rs\<close>): the files an operation reads,
      as a record; what a machine is under a root, with every disagreement of its files.
    \<^item> \<^theory_text>\<open>Fold\<close> (\<^verbatim>\<open>src/roster/fold.rs\<close>): taking an update. Each step writes one file and may fail there; runs
      of folds are a step relation, over which revocations only grow and the number only rises.
    \<^item> \<^theory_text>\<open>Wire\<close>, \<^theory_text>\<open>Sync\<close>, \<^theory_text>\<open>Sync_Laws\<close>, \<^theory_text>\<open>Sync_Calm\<close>, \<^theory_text>\<open>Rounds\<close> (\<^verbatim>\<open>src/sync.rs\<close>): the exchange by which two
      devices come to hold the same update. Both sides are trees of their reads, writes and local calls;
      \<^theory_text>\<open>safe\<close> is the rule for what a side keeps against any peer, under any failure and beside other
      programs' folds, and \<^theory_text>\<open>locale diamond\<close>, interpreted on the steps of a calm run, shows that the
      order in which the two sides run does not matter. \<^theory_text>\<open>Rounds\<close> has the devices of a round and the round.
    \<^item> \<^theory_text>\<open>Book\<close>, \<^theory_text>\<open>Book_Laws\<close>, \<^theory_text>\<open>Book_Update\<close> (\<^verbatim>\<open>src/root.rs\<close>): the records one root command works on: read
      from the lists, brought forward by what was folded since, and cut into the next update.
    \<^item> \<^theory_text>\<open>Root_Act\<close>, \<^theory_text>\<open>Root_Commit\<close>, \<^theory_text>\<open>Act_Laws\<close> (\<^verbatim>\<open>src/root.rs\<close>): a root command: presenting the root, adding,
      renewing and revoking devices, the check before the cut, and the commit.
    \<^item> \<^theory_text>\<open>Contacts\<close>, \<^theory_text>\<open>Contacts_Laws\<close> (\<^verbatim>\<open>src/contacts.rs\<close>, \<^verbatim>\<open>src/contacts/store.rs\<close>): the book of people and
      their machines, what a save may change (\<^theory_text>\<open>save_spec\<close> over the view of names and keys), runs of
      commands over it as a step relation, its text and what opening it derives of me.
    \<^item> \<^theory_text>\<open>Peers\<close>, \<^theory_text>\<open>Learning\<close>, \<^theory_text>\<open>Peers_Laws\<close> (\<^verbatim>\<open>src/peer.rs\<close>, \<^verbatim>\<open>src/link.rs\<close>, \<^verbatim>\<open>src/root_key.rs\<close>,
      \<^verbatim>\<open>src/credential.rs\<close>, \<^verbatim>\<open>src/learn.rs\<close>): what may be typed where a machine goes and the one machine it
      is, what a dial presents, and how a person's root is learned from their machine.
    \<^item> \<^theory_text>\<open>Joining\<close>, \<^theory_text>\<open>Joining_Laws\<close> (\<^verbatim>\<open>src/joining.rs\<close>, \<^verbatim>\<open>src/root/retire.rs\<close>): the files a join, a
      renewal, a leave and a retirement write, as lists of file operations in the source's order. Each
      operation is done, not done, or done with a failure after it, so where a run stops is a prefix of
      its list; the laws say how a home reads at every prefix.
    \<^item> \<^theory_text>\<open>Forget\<close> (\<^verbatim>\<open>src/root/forget.rs\<close>): removing the root from a machine behind a copy of it; each
      check's observations, before the lock and under it, and a log of what the run made lasting.
    \<^item> \<^theory_text>\<open>Backup\<close> (\<^verbatim>\<open>src/root/backup.rs\<close>): copying the root to a directory, whose entries are the
      state: what it may hold before, and what a run leaves there wherever it stops.
    \<^item> \<^theory_text>\<open>Invite\<close>, \<^theory_text>\<open>Join_Cmd\<close>, \<^theory_text>\<open>Join_Cmd_Laws\<close> (\<^verbatim>\<open>src/invite.rs\<close>, \<^verbatim>\<open>src/bin/swoosh/commands/join.rs\<close> and
      \<^verbatim>\<open>leave.rs\<close>): the text of an invite, and the two commands from their checks to their writes.
    \<^item> \<^theory_text>\<open>Renewal\<close>, \<^theory_text>\<open>Renewal_Laws\<close> (\<^verbatim>\<open>src/renewal.rs\<close>, \<^verbatim>\<open>src/serve/renewal.rs\<close>): the route over which a
      device whose standing ended picks up the new one, as two programs over a byte stream like those of
      \<^theory_text>\<open>Sync\<close>, and the keys it answers (a third interpretation of \<^theory_text>\<open>reread\<close>).
    \<^item> \<^theory_text>\<open>Scheme\<close>, \<^theory_text>\<open>Grants\<close> (\<^verbatim>\<open>src/serve/scheme.rs\<close>, \<^verbatim>\<open>src/grants.rs\<close>): what a link was made for, and the ledger
      of links, its file, its live reading and its one-use links.
    \<^item> \<^theory_text>\<open>Serving\<close>, \<^theory_text>\<open>Serving_Laws\<close> (\<^verbatim>\<open>src/serve.rs\<close>, \<^verbatim>\<open>src/serve/serving.rs\<close>,
      \<^verbatim>\<open>src/bin/swoosh/commands/service/toggle.rs\<close>): one service as typed, saved and shown, the list a
      start serves, and its edits; the laws say that a name is served once, an add adds and moves nothing
      else, and a service turned off stays off.
    \<^item> \<^theory_text>\<open>Serve_Toml\<close>, \<^theory_text>\<open>Serve_Toml_Laws\<close> (\<^verbatim>\<open>src/serve_toml.rs\<close>, \<^verbatim>\<open>src/transport.rs\<close>): the file of
      services, its text and its change, and the watcher a running serve reads it through (a fourth
      interpretation of \<^theory_text>\<open>reread\<close>, and one of \<^theory_text>\<open>reread_last\<close>, by which it goes by the file it took
      last): what its gate refuses, what its status tells, and what waits for the next start.
    \<^item> \<^theory_text>\<open>Lookup\<close> (\<^verbatim>\<open>src/serve/lookup.rs\<close>): the route that hands a machine's standing to whoever saved
      it, and the keys it keeps in memory (a fifth interpretation of \<^theory_text>\<open>reread\<close>).
    \<^item> \<^theory_text>\<open>Stops\<close> (\<^verbatim>\<open>src/serve/stop.rs\<close>, \<^verbatim>\<open>src/serve/resident.rs\<close>): every way a run is stopped, as a
      sequence of events, with handlers dropped where they wait; who is told, and who is recorded.
    \<^item> \<^theory_text>\<open>Activity\<close>, \<^theory_text>\<open>Escape\<close> (\<^verbatim>\<open>src/serve/activity.rs\<close>, \<^verbatim>\<open>src/escape.rs\<close>): the lines a serve prints of what
      it received, their queue and renderer as a step relation of threads, and text from elsewhere as it
      may appear on a line.
    \<^item> \<^theory_text>\<open>Gate\<close> (\<^verbatim>\<open>src/gate.rs\<close>, \<^verbatim>\<open>src/badge.rs\<close>): the live reading of the pin, and the badge's end.

  \<^bold>\<open>How the state corresponds.\<close> A node home is the record \<^theory_text>\<open>home\<close>, one field for each file an
  operation reads; the store of revocations stays nauthy's, as the argument \<^theory_text>\<open>denylist_ops\<close> with its
  documented laws (\<^theory_text>\<open>grow_only\<close>). A call that writes is a function from a home to its result and the
  home it leaves, so an operation stopped half way shows what it had written. What an operation
  observes, the clock at each read, each write's failure, a lock, is a field of an observation record.
  Crates outside the source (nauthy's keys, links and envelope, bifrost's node ids, BLAKE3) are
  arguments, and their documented behaviour a hypothesis where a property needs it; a witness shows
  each such hypothesis can hold.

  \<^bold>\<open>Bounds and fuel.\<close> The search for a free device name counts in 32 bits as the source does, and ends
  because a list holds fewer names than that. A round is run with fuel, and \<^theory_text>\<open>round_asks_behind_again\<close>
  shows how much is enough: the asks before the clock passes the round's bound, and one for each
  device after it. Every other loop is a structural recursion or has its measure. An exchange needs no
  fuel: a side is a finite tree, and a calm run is shown to be bounded.

  \<^bold>\<open>Not modelled.\<close> Reading and writing files as such (modes, owners, atomic replacement, locks across
  processes), the terminal, the network below a byte stream, and key material. Of \<^verbatim>\<open>src/root.rs\<close>, the
  offer of the cut to each device, the prompts, and making a root or finishing one half made; of \<^verbatim>\<open>src/grants.rs\<close>, the wiring that reads
  \<^verbatim>\<open>serve.toml\<close> first; of \<^verbatim>\<open>src/gate.rs\<close>, the assembly of nauthy's gate. Some steps are coarser than the
  source: in \<^theory_text>\<open>Fold\<close> an atomic write is done or not done, without the sync of its directory failing after
  it (\<^theory_text>\<open>Joining\<close>, \<^theory_text>\<open>Forget\<close> and \<^theory_text>\<open>Backup\<close> have that outcome, as \<^theory_text>\<open>DoneBut\<close>); in \<^theory_text>\<open>Stops\<close> the gate's check of
  an ask, its answer, its record and the cancellation are one event, and which services are on is fixed; in
  \<^theory_text>\<open>Activity\<close> a line counts as written once it is handed to the writer; in \<^theory_text>\<open>Backup\<close> the copy's directory is
  the same one from its check to its writes, and the list is read once; and \<^theory_text>\<open>present\<close> leaves out the refusal of
  a system that will not turn core dumps off. The rest of the program is not
  modelled: the resident's status, its socket and the binding of routes, a root's restore and lock, and
  the command line but for joining, leaving and the services.
\<close>

end
